(* ===== verification/Byte_Prelude.thy ===== *)
theory Byte_Prelude
  imports Main "HOL-Library.Word" "HOL-Library.Sublist"
begin

text \<open>
  Shared vocabulary of the development: machine words and byte strings, \<open>size_t\<close>
  arithmetic with its wrap-around, the result convention of the C functions that
  parse or mutate in place, and the big-endian loops that several components run.

  A C function \<open>int f(S *s, T *out)\<close> that returns one on success and zero on error
  is modelled as \<open>S \<Rightarrow> T option \<times> S\<close>: the state after the call is returned on both
  paths, because a failing call may have advanced \<open>*s\<close>.
\<close>

unbundle bit_operations_syntax

type_synonym u8 = "8 word"
type_synonym u16 = "16 word"
type_synonym u32 = "32 word"
type_synonym u64 = "64 word"
type_synonym bytes = "u8 list"
type_synonym ('s, 'a) action = "'s \<Rightarrow> 'a option \<times> 's"

named_theorems action_simps \<open>unfolding of the result convention\<close>
named_theorems consumes_intros \<open>readers that only move forward\<close>

section \<open>The result convention\<close>

definition and_then :: "('s, 'a) action \<Rightarrow> ('a \<Rightarrow> ('s, 'b) action) \<Rightarrow> ('s, 'b) action" where
  "and_then m f s = (case m s of (None, s') \<Rightarrow> (None, s') | (Some x, s') \<Rightarrow> f x s')"

definition ret :: "'a \<Rightarrow> ('s, 'a) action" where
  "ret x s = (Some x, s)"

definition fail :: "('s, 'a) action" where
  "fail s = (None, s)"

lemmas [action_simps] = ret_def fail_def

lemma and_then_Some [simp]:
  "m s = (Some x, s') \<Longrightarrow> and_then m f s = f x s'"
  by (simp add: and_then_def)

lemma and_then_None [simp]:
  "m s = (None, s') \<Longrightarrow> and_then m f s = (None, s')"
  by (simp add: and_then_def)

lemma and_then_eq_Some [simp]:
  "and_then m f s = (Some y, s'') \<longleftrightarrow> (\<exists>x s'. m s = (Some x, s') \<and> f x s' = (Some y, s''))"
  by (auto simp: and_then_def split: prod.splits option.splits)

lemma ret_eq_Some [simp]: "ret x s = (Some y, s') \<longleftrightarrow> y = x \<and> s' = s"
  by (auto simp: ret_def)

lemma fail_neq_Some [simp]: "fail s \<noteq> (Some y, s')"
  by (simp add: fail_def)

lemma and_then_assoc: "and_then (and_then m f) g = and_then m (\<lambda>x. and_then (f x) g)"
  by (rule ext) (auto simp: and_then_def split: prod.splits option.splits)

lemma and_then_ret [simp]: "and_then (ret x) f = f x" "and_then m ret = m"
  by (rule ext, auto simp: and_then_def ret_def split: prod.splits option.splits)+

lemma and_then_ret_unit [simp]: "and_then m (\<lambda>_. ret ()) = m"
  by (rule ext) (auto simp: and_then_def ret_def split: prod.splits option.splits)

section \<open>Sizes\<close>

text \<open>
  \<open>size_t\<close> has 64 bits on every platform the application ships for. A size is a
  \<open>nat\<close> below \<open>2 ^ 64\<close>; where the code tests an addition for wrap-around the sum is
  taken with \<open>size_add\<close>.
\<close>

definition SIZE_MAX :: nat where "SIZE_MAX = 2 ^ 64 - 1"
definition INT_MAX :: nat where "INT_MAX = 2 ^ 31 - 1"

abbreviation UINT64_MAX :: u64 where "UINT64_MAX \<equiv> 0xFFFFFFFFFFFFFFFF"

definition size_add :: "nat \<Rightarrow> nat \<Rightarrow> nat" where
  "size_add a b = (a + b) mod 2 ^ 64"

definition size_mul :: "nat \<Rightarrow> nat \<Rightarrow> nat" where
  "size_mul a b = (a * b) mod 2 ^ 64"

lemma size_add_exact [simp]: "a + b \<le> SIZE_MAX \<Longrightarrow> size_add a b = a + b"
  by (simp add: size_add_def SIZE_MAX_def)

lemma size_add_overflow_iff:
  assumes "a \<le> SIZE_MAX" and "b \<le> SIZE_MAX"
  shows "size_add a b < a \<longleftrightarrow> SIZE_MAX < a + b"
proof (cases "a + b \<le> SIZE_MAX")
  case True
  then show ?thesis by simp
next
  case False
  then have "(a + b) mod 2 ^ 64 = a + b - 2 ^ 64"
    using assms by (subst mod_if) (simp add: SIZE_MAX_def le_mod_geq)
  with False assms show ?thesis by (simp add: size_add_def SIZE_MAX_def)
qed

section \<open>Division\<close>

lemma le_div_iff_mult_le_int:
  assumes "0 < n"
  shows "a \<le> t div n \<longleftrightarrow> a * n \<le> (t :: int)"
proof
  assume "a \<le> t div n"
  then have "a * n \<le> t div n * n" using assms by (intro mult_right_mono) simp_all
  also have "\<dots> \<le> t" using pos_mod_sign [OF assms, of t] by (simp flip: minus_mod_eq_div_mult)
  finally show "a * n \<le> t" .
next
  assume "a * n \<le> t"
  then show "a \<le> t div n" using zdiv_mono1 [of "a * n" t n] assms by simp
qed

lemma div_less_iff_less_mult_int: "0 < n \<Longrightarrow> t div n < a \<longleftrightarrow> (t :: int) < a * n"
  using le_div_iff_mult_le_int [of n a t] by linarith

section \<open>Big-endian loops\<close>

text \<open>
  The read loop \<open>result <<= 8; result |= data[i]\<close> and the write loop
  \<open>buf[i] = v; v >>= 8\<close>, which runs from the last byte to the first and leaves what
  did not fit in \<open>v\<close>.
\<close>

fun be_fold :: "u64 \<Rightarrow> bytes \<Rightarrow> u64" where
  "be_fold r [] = r"
| "be_fold r (b # bs) = be_fold (push_bit 8 r OR ucast b) bs"

fun be_split :: "nat \<Rightarrow> u64 \<Rightarrow> bytes \<times> u64" where
  "be_split 0 v = ([], v)"
| "be_split (Suc n) v = (let (bs, v') = be_split n (drop_bit 8 v) in (bs @ [ucast v], v'))"

text \<open>The number a byte string denotes, most significant byte first.\<close>

definition nat_of_be :: "bytes \<Rightarrow> nat" where
  "nat_of_be bs = foldl (\<lambda>a b. a * 256 + unat b) 0 bs"

definition be_bytes :: "nat \<Rightarrow> u64 \<Rightarrow> bytes" where
  "be_bytes n v = fst (be_split n v)"

lemma nat_of_be_Nil [simp]: "nat_of_be [] = 0"
  by (simp add: nat_of_be_def)

lemma nat_of_be_snoc [simp]: "nat_of_be (bs @ [b]) = nat_of_be bs * 256 + unat b"
  by (simp add: nat_of_be_def)

lemma unat_u8_lt: "unat (b :: u8) < 256"
  using unsigned_less [of b] by simp

lemma unat_ucast_up [simp]:
  "LENGTH('a :: len) \<le> LENGTH('b :: len) \<Longrightarrow> unat (ucast (w :: 'a word) :: 'b word) = unat w"
  using unsigned_less [of w]
  by (simp add: unsigned_ucast_eq take_bit_nat_eq_self
      less_le_trans [OF _ power_increasing [of "LENGTH('a)" "LENGTH('b)" 2]])

lemma nat_of_be_bound: "nat_of_be bs < 256 ^ length bs"
proof (induction bs rule: rev_induct)
  case Nil
  then show ?case by simp
next
  case (snoc b bs)
  have "nat_of_be bs + 1 \<le> 256 ^ length bs" using snoc by simp
  then have "(nat_of_be bs + 1) * 256 \<le> 256 ^ length bs * 256" by (rule mult_le_mono1)
  then show ?case using unat_u8_lt [of b] by simp
qed

lemma be_fold_snoc: "be_fold r (bs @ [b]) = push_bit 8 (be_fold r bs) OR ucast b"
  by (induction bs arbitrary: r) auto

lemma be_split_length [simp]: "length (fst (be_split n v)) = n"
  by (induction n arbitrary: v) (simp_all add: case_prod_beta Let_def)

lemma be_bytes_length [simp]: "length (be_bytes n v) = n"
  by (simp add: be_bytes_def)

lemma be_split_rest: "snd (be_split n v) = drop_bit (8 * n) v"
  by (induction n arbitrary: v) (simp_all add: case_prod_beta Let_def add.commute)

lemma be_split_eq: "be_split n v = (be_bytes n v, drop_bit (8 * n) v)"
  by (metis be_bytes_def be_split_rest prod.collapse)

lemma be_bytes_0 [simp]: "be_bytes 0 v = []"
  by (simp add: be_bytes_def)

lemma be_bytes_Suc: "be_bytes (Suc n) v = be_bytes n (drop_bit 8 v) @ [ucast v]"
  by (simp add: be_bytes_def case_prod_beta Let_def)

lemma ucast_byte_step [simp]: "(ucast (push_bit 8 r OR ucast (b :: u8) :: u64) :: u8) = b"
  by (rule bit_word_eqI) (auto simp: bit_simps dest: bit_imp_le_length)

lemma bit_drop_bit_zero:
  assumes "drop_bit m (r :: 'a :: len word) = 0" and "m \<le> n"
  shows "\<not> bit r n"
proof -
  have "bit r n = bit (drop_bit m r) (n - m)"
    using assms(2) by (simp add: bit_drop_bit_eq)
  then show ?thesis by (simp add: assms(1))
qed

lemma drop_byte_step:
  assumes "drop_bit 56 r = 0"
  shows "drop_bit 8 (push_bit 8 r OR ucast (b :: u8) :: u64) = r"
proof (rule bit_word_eqI)
  fix n :: nat
  assume n: "n < LENGTH(64)"
  show "bit (drop_bit 8 (push_bit 8 r OR ucast b)) n = bit r n"
  proof (cases "56 \<le> n")
    case True
    with bit_drop_bit_zero [OF assms True] show ?thesis
      by (auto simp: bit_simps dest: bit_imp_le_length)
  next
    case False
    then show ?thesis by (auto simp: bit_simps dest: bit_imp_le_length)
  qed
qed

lemma byte_step_disjoint: "push_bit 8 r AND ucast (b :: u8) = (0 :: u64)"
  by (rule bit_word_eqI) (auto simp: bit_simps dest: bit_imp_le_length)

lemma unat_byte_step:
  assumes "unat r < 2 ^ 56"
  shows "unat (push_bit 8 r OR ucast (b :: u8) :: u64) = unat r * 256 + unat b"
proof -
  have "push_bit 8 r OR ucast b = r * 256 + (ucast b :: u64)"
    using disjunctive_add_eq_or [OF byte_step_disjoint, of r b]
    by (simp add: push_bit_eq_mult)
  moreover have "unat (ucast b :: u64) = unat b" by simp
  moreover have "unat r * 256 + unat b < 2 ^ 64"
    using assms unat_u8_lt [of b] by simp
  ultimately show ?thesis
    by (simp add: unat_word_ariths)
qed

text \<open>Reading back what the write loop stored, and writing back what was read.\<close>

lemma unat_be_fold:
  assumes "length bs \<le> 8"
  shows "unat (be_fold 0 bs) = nat_of_be bs"
  using assms
proof (induction bs rule: rev_induct)
  case Nil
  then show ?case by simp
next
  case (snoc b bs)
  have "nat_of_be bs < 256 ^ length bs" by (rule nat_of_be_bound)
  also have "\<dots> \<le> 256 ^ 7" using snoc.prems by (intro power_increasing) auto
  finally have "unat (be_fold 0 bs) < 2 ^ 56" using snoc by simp
  with snoc show ?case by (simp add: be_fold_snoc unat_byte_step)
qed

lemma be_fold_small:
  assumes "length bs \<le> n" and "n \<le> 8"
  shows "drop_bit (8 * n) (be_fold 0 bs) = 0"
proof -
  have "unat (be_fold 0 bs) < 256 ^ length bs"
    using assms nat_of_be_bound [of bs] by (simp add: unat_be_fold)
  also have "\<dots> \<le> 256 ^ n" using assms by (intro power_increasing) auto
  finally have "unat (be_fold 0 bs) < 2 ^ (8 * n)" by (simp add: power_mult)
  then have "drop_bit (8 * n) (unat (be_fold 0 bs)) = 0"
    by (simp add: drop_bit_eq_div)
  then have "unat (drop_bit (8 * n) (be_fold 0 bs)) = 0"
    by (simp only: unat_drop_bit_eq)
  then show ?thesis by (simp add: unat_eq_0)
qed

lemma be_bytes_be_fold [simp]:
  assumes "length bs = n" and "n \<le> 8"
  shows "be_bytes n (be_fold 0 bs) = bs"
  using assms
proof (induction bs arbitrary: n rule: rev_induct)
  case Nil
  then show ?case by simp
next
  case (snoc b bs)
  then obtain m where n: "n = Suc m" and m: "length bs = m" by auto
  have "drop_bit 56 (be_fold 0 bs) = 0"
    using be_fold_small [of bs 7] snoc.prems by simp
  then have "drop_bit 8 (push_bit 8 (be_fold 0 bs) OR ucast b) = be_fold 0 bs"
    by (rule drop_byte_step)
  moreover have "be_bytes m (be_fold 0 bs) = bs" using snoc n m by simp
  ultimately show ?case
    by (simp only: n be_bytes_Suc be_fold_snoc ucast_byte_step)
qed

lemma be_fold_be_bytes [simp]:
  assumes "n \<le> 8" and "drop_bit (8 * n) v = 0"
  shows "be_fold 0 (be_bytes n v) = v"
  using assms
proof (induction n arbitrary: v)
  case 0
  then show ?case by simp
next
  case (Suc n)
  have "drop_bit (8 * n) (drop_bit 8 v) = 0"
    using Suc.prems by (simp add: add.commute)
  with Suc have "be_fold 0 (be_bytes n (drop_bit 8 v)) = drop_bit 8 v" by simp
  moreover have "push_bit 8 (drop_bit 8 v) OR ucast (ucast v :: u8) = v"
    by (rule bit_word_eqI) (auto simp: bit_simps)
  ultimately show ?case by (simp add: be_bytes_Suc be_fold_snoc)
qed

section \<open>Words of different widths\<close>

lemma bit_beyond [simp]: "LENGTH('a) \<le> n \<Longrightarrow> \<not> bit (v :: 'a :: len word) n"
  using bit_imp_le_length [of v n] by auto

lemma ucast_narrow:
  assumes "drop_bit LENGTH('a) (w :: 'b :: len word) = 0"
  shows "ucast (ucast w :: 'a :: len word) = w"
proof (rule bit_word_eqI)
  fix n
  assume "n < LENGTH('b)"
  show "bit (ucast (ucast w :: 'a word) :: 'b word) n = bit w n"
    using bit_drop_bit_zero [OF assms, of n] \<open>n < LENGTH('b)\<close>
    by (cases "n < LENGTH('a)") (auto simp: bit_simps)
qed

lemma drop_bit_ucast_up:
  "LENGTH('a) \<le> k \<Longrightarrow> drop_bit k (ucast (v :: 'a :: len word) :: 'b :: len word) = 0"
  by (rule bit_word_eqI) (auto simp: bit_simps dest: bit_imp_le_length)

lemma ucast_ucast_up [simp]:
  "LENGTH('a) \<le> LENGTH('b) \<Longrightarrow> ucast (ucast (v :: 'a :: len word) :: 'b :: len word) = v"
  by (rule bit_word_eqI) (auto simp: bit_simps)

lemma be_bytes_numeral: 
  "be_bytes 1 v = [ucast v]"
  "be_bytes 2 v = [ucast (drop_bit 8 v), ucast v]"
  "be_bytes 3 v = [ucast (drop_bit 16 v), ucast (drop_bit 8 v), ucast v]"
  "be_bytes 4 v = [ucast (drop_bit 24 v), ucast (drop_bit 16 v), ucast (drop_bit 8 v), ucast v]"
  "be_bytes 8 v =
     [ucast (drop_bit 56 v), ucast (drop_bit 48 v), ucast (drop_bit 40 v), ucast (drop_bit 32 v),
      ucast (drop_bit 24 v), ucast (drop_bit 16 v), ucast (drop_bit 8 v), ucast v]"
  by (simp_all add: be_bytes_Suc numeral_eq_Suc)

end
