(* ===== verification/Codec.thy ===== *)
theory Codec
  imports Byte_Prelude
begin

text \<open>
  Interfaces between the byte-string reader and its clients. A \<open>reader\<close> never moves
  backwards; a \<open>codec\<close> is a reader together with the encoding it accepts: it reads back
  what was encoded, and accepts nothing but encodings. The clients (ASN.1 elements, OID
  components, SET OF contents, UTF-8 text) use only these laws.
\<close>

section \<open>Readers\<close>

locale reader =
  fixes dec :: "(bytes, 'a) action"
  assumes consumes: "suffix (snd (dec s)) s"
begin

lemma consumed_length: "length (snd (dec s)) \<le> length s"
  using consumes by (rule suffix_length_le)

lemma consumed_prefix: "\<exists>p. s = p @ snd (dec s)"
  using consumes [of s] by (auto simp: suffix_def)

end

section \<open>Codecs\<close>

locale codec =
  fixes valid :: "'a \<Rightarrow> bool"
    and enc :: "'a \<Rightarrow> bytes"
    and dec :: "(bytes, 'a) action"
  assumes dec_enc: "valid x \<Longrightarrow> dec (enc x @ s) = (Some x, s)"
    and enc_dec: "dec s = (Some x, t) \<Longrightarrow> valid x \<and> s = enc x @ t"
begin

lemma dec_iff: "dec s = (Some x, t) \<longleftrightarrow> valid x \<and> s = enc x @ t"
  using dec_enc enc_dec by blast

lemma dec_enc_whole: "valid x \<Longrightarrow> dec (enc x) = (Some x, [])"
  using dec_enc [of x "[]"] by simp

lemma dec_extend: "dec s = (Some x, t) \<Longrightarrow> dec (s @ u) = (Some x, t @ u)"
  by (auto simp: dec_iff)

lemma enc_prefix_free:
  assumes "valid x" and "valid y" and "enc x @ s = enc y @ t"
  shows "x = y \<and> s = t"
proof -
  have "(Some x, s) = dec (enc x @ s)" using assms(1) by (simp only: dec_enc)
  also have "\<dots> = (Some y, t)" using assms(2) by (simp only: assms(3) dec_enc)
  finally show ?thesis by simp
qed

lemma enc_inject: "valid x \<Longrightarrow> valid y \<Longrightarrow> enc x = enc y \<longleftrightarrow> x = y"
  using enc_prefix_free [of x y "[]" "[]"] by auto

lemma dec_deterministic:
  "dec s = (Some x, t) \<Longrightarrow> dec (s @ u) = (Some y, t') \<Longrightarrow> y = x \<and> t' = t @ u"
  using dec_extend [of s x t u] by simp

end

text \<open>Encodings that are never empty can be repeated and still be taken apart.\<close>

locale codec_nonempty = codec +
  assumes enc_nonempty: "valid x \<Longrightarrow> enc x \<noteq> []"
begin

lemma dec_shortens: "dec s = (Some x, t) \<Longrightarrow> length t < length s"
  by (auto simp: dec_iff enc_nonempty)

lemma dec_empty: "dec [] \<noteq> (Some x, t)"
  by (auto simp: dec_iff enc_nonempty)

lemma concat_enc_inject:
  assumes "\<forall>x \<in> set xs. valid x" and "\<forall>y \<in> set ys. valid y"
    and "concat (map enc xs) = concat (map enc ys)"
  shows "xs = ys"
  using assms
proof (induction xs arbitrary: ys)
  case Nil
  then show ?case by (cases ys) (auto simp: enc_nonempty)
next
  case (Cons x xs)
  have "ys \<noteq> []" using Cons.prems(1,3) enc_nonempty [of x] by auto
  then obtain y ys' where ys: "ys = y # ys'" by (cases ys) auto
  with Cons.prems have "enc x @ concat (map enc xs) = enc y @ concat (map enc ys')"
    using Cons.prems(3) ys by simp
  moreover have "valid x" and "valid y" using Cons.prems ys by simp_all
  ultimately have eq: "x = y" "concat (map enc xs) = concat (map enc ys')"
    using enc_prefix_free by blast+
  have "xs = ys'" using Cons.prems ys eq(2) by (intro Cons.IH) simp_all
  with eq(1) ys show ?case by simp
qed

end

end
