(* ===== verification/Byte_Order.thy ===== *)
theory Byte_Order
  imports Byte_Prelude
begin

text \<open>
  The byte swaps of \<open>crypto/internal.h\<close>, in the portable form of lines 946 to 958 (the
  compiler builtins of the other branches are specified to do the same). A swap is an
  involution, and the big-endian bytes of a swapped word are the reversed bytes of the
  word: this is how the little-endian readers and writers use it.
\<close>

definition CRYPTO_bswap2 :: "u16 \<Rightarrow> u16" where
  "CRYPTO_bswap2 x = drop_bit 8 x OR push_bit 8 x"

definition CRYPTO_bswap4 :: "u32 \<Rightarrow> u32" where
  "CRYPTO_bswap4 x0 =
     (let x = drop_bit 16 x0 OR push_bit 16 x0
      in drop_bit 8 (x AND 0xff00ff00) OR push_bit 8 (x AND 0x00ff00ff))"

definition CRYPTO_bswap8 :: "u64 \<Rightarrow> u64" where
  "CRYPTO_bswap8 x =
     ucast (CRYPTO_bswap4 (ucast (drop_bit 32 x))) OR
     push_bit 32 (ucast (CRYPTO_bswap4 (ucast x)))"

lemma bswap2_bswap2 [simp]: "CRYPTO_bswap2 (CRYPTO_bswap2 v) = v"
proof (rule bit_word_eqI)
  fix n show "bit (CRYPTO_bswap2 (CRYPTO_bswap2 v)) n = bit v n"
    by (cases "n < 8") (auto simp: CRYPTO_bswap2_def bit_simps dest: bit_imp_le_length)
qed

lemma be_bytes_bswap2: "be_bytes 2 (ucast (CRYPTO_bswap2 v)) = rev (be_bytes 2 (ucast v))"
  by (auto simp: be_bytes_numeral CRYPTO_bswap2_def bit_simps intro!: bit_word_eqI)

lemma less_32_cases:
  "n < 32 \<Longrightarrow> n \<in> {0, 1, 2, 3, 4, 5, 6, 7, 8, 9, 10, 11, 12, 13, 14, 15,
     16, 17, 18, 19, 20, 21, 22, 23, 24, 25, 26, 27, 28, 29, 30, 31 :: nat}"
  by (simp, presburger)

lemma bit_bswap4: "n < 32 \<Longrightarrow> bit (CRYPTO_bswap4 v) n = bit v (8 * (3 - n div 8) + n mod 8)"
  by (drule less_32_cases) (elim insertE emptyE; simp add: CRYPTO_bswap4_def Let_def bit_simps flip: numeral_2_eq_2)

lemma bswap4_bswap4 [simp]: "CRYPTO_bswap4 (CRYPTO_bswap4 v) = v"
proof (rule bit_word_eqI)
  fix n assume "n < LENGTH(32)"
  then have n: "n < 32" by simp
  show "bit (CRYPTO_bswap4 (CRYPTO_bswap4 v)) n = bit v n"
    using less_32_cases [OF n] by (elim insertE emptyE; simp add: bit_bswap4 flip: numeral_2_eq_2)
qed

lemma be_bytes_bswap4: "be_bytes 4 (ucast (CRYPTO_bswap4 v)) = rev (be_bytes 4 (ucast v))"
proof -
  have "ucast (drop_bit (8 * i) (ucast (CRYPTO_bswap4 v) :: u64)) =
        (ucast (drop_bit (8 * (3 - i)) (ucast v :: u64)) :: u8)" if "i < 4" for i
  proof (rule bit_word_eqI)
    fix n assume "n < LENGTH(8)"
    then show "bit (ucast (drop_bit (8 * i) (ucast (CRYPTO_bswap4 v) :: u64)) :: u8) n =
        bit (ucast (drop_bit (8 * (3 - i)) (ucast v :: u64)) :: u8) n"
      using that by (auto simp: bit_simps bit_bswap4)
  qed
  from this [of 0] this [of 1] this [of 2] this [of 3] show ?thesis
    by (simp add: be_bytes_numeral)
qed

lemma bswap8_bswap8 [simp]: "CRYPTO_bswap8 (CRYPTO_bswap8 v) = v"
proof -
  have 1: "ucast (drop_bit 32 (ucast a OR push_bit 32 (ucast b :: u64))) = b"
    and 2: "ucast (ucast a OR push_bit 32 (ucast b :: u64)) = a" for a b :: u32
    by (rule bit_word_eqI; auto simp: bit_simps)+
  show ?thesis
    unfolding CRYPTO_bswap8_def 1 2 by (rule bit_word_eqI) (auto simp: bit_simps)
qed

lemma be_bytes_8: "be_bytes 8 v = be_bytes 4 (drop_bit 32 v) @ be_bytes 4 v"
  by (simp add: be_bytes_numeral)

lemma be_bytes_4_ucast: "be_bytes 4 (ucast (ucast v :: u32)) = be_bytes 4 v"
  by (auto simp: be_bytes_numeral bit_simps intro!: bit_word_eqI)

lemma be_bytes_bswap8: "be_bytes 8 (CRYPTO_bswap8 v) = rev (be_bytes 8 v)"
proof -
  have hi: "be_bytes 4 (drop_bit 32 (ucast a OR push_bit 32 (ucast b :: u64))) = be_bytes 4 (ucast b)"
    and lo: "be_bytes 4 (ucast a OR push_bit 32 (ucast b :: u64)) = be_bytes 4 (ucast a)" for a b :: u32
    by (auto simp: be_bytes_numeral bit_simps intro!: bit_word_eqI)
  show ?thesis
    unfolding be_bytes_8 CRYPTO_bswap8_def hi lo be_bytes_bswap4 be_bytes_4_ucast by simp
qed

end
