(* ===== verification/Cbs.thy ===== *)
theory Cbs
  imports Codec Byte_Order
begin

text \<open>
  The byte-string reader of \<open>crypto/bytestring/cbs.c\<close> (lines 29 to 259) and the memory
  helpers it calls. A \<open>CBS\<close> is a pointer into a buffer it never writes and a length:
  the model keeps the bytes it still covers. A getter returns the value (or \<open>None\<close>
  where the C function returns zero) with the reader after the call.
\<close>

type_synonym cbs = bytes

section \<open>Helpers of mem.c and internal.h\<close>

definition OPENSSL_isdigit :: "u8 \<Rightarrow> bool" where
  "OPENSSL_isdigit c \<longleftrightarrow> 48 \<le> c \<and> c \<le> 57"

definition OPENSSL_isalpha :: "u8 \<Rightarrow> bool" where
  "OPENSSL_isalpha c \<longleftrightarrow> (97 \<le> c \<and> c \<le> 122) \<or> (65 \<le> c \<and> c \<le> 90)"

fun OPENSSL_memchr :: "bytes \<Rightarrow> u8 \<Rightarrow> nat option" where
  "OPENSSL_memchr [] c = None"
| "OPENSSL_memchr (b # bs) c =
     (if b = c then Some 0 else map_option Suc (OPENSSL_memchr bs c))"

text \<open>C's \<open>memcmp\<close> on buffers of one size; only the sign of its result has a meaning.\<close>

fun OPENSSL_memcmp :: "bytes \<Rightarrow> bytes \<Rightarrow> int" where
  "OPENSSL_memcmp (a # as) (b # bs) = (if a = b then OPENSSL_memcmp as bs else if a < b then - 1 else 1)"
| "OPENSSL_memcmp _ _ = 0"

text \<open>The constant-time comparison: the loop ORs the differences of all positions.\<close>

fun memcmp_loop :: "u8 \<Rightarrow> bytes \<Rightarrow> bytes \<Rightarrow> u8" where
  "memcmp_loop x (a # as) (b # bs) = memcmp_loop (x OR (a XOR b)) as bs"
| "memcmp_loop x _ _ = x"

definition CRYPTO_memcmp :: "bytes \<Rightarrow> bytes \<Rightarrow> nat \<Rightarrow> int" where
  "CRYPTO_memcmp a b len = uint (memcmp_loop 0 (take len a) (take len b))"

fun OPENSSL_strnlen :: "bytes \<Rightarrow> nat \<Rightarrow> nat" where
  "OPENSSL_strnlen s 0 = 0"
| "OPENSSL_strnlen [] (Suc len) = 0"
| "OPENSSL_strnlen (c # s) (Suc len) = (if c = 0 then 0 else Suc (OPENSSL_strnlen s len))"

text \<open>
  Allocations can fail. \<open>alloc_ok n\<close> tells whether a request for \<open>n\<close> bytes succeeds.
  A null pointer is \<open>None\<close>.
\<close>

definition OPENSSL_memdup :: "(nat \<Rightarrow> bool) \<Rightarrow> bytes \<Rightarrow> bytes option" where
  "OPENSSL_memdup alloc_ok data =
     (if data = [] then None else if alloc_ok (length data) then Some data else None)"

definition OPENSSL_strndup :: "(nat \<Rightarrow> bool) \<Rightarrow> bytes \<Rightarrow> nat \<Rightarrow> bytes option" where
  "OPENSSL_strndup alloc_ok str len =
     (let size = OPENSSL_strnlen str len; alloc_size = size_add size 1
      in if alloc_size < size then None
         else if alloc_ok alloc_size then Some (take size str @ [0]) else None)"

section \<open>The reader\<close>

definition CBS_init :: "bytes \<Rightarrow> nat \<Rightarrow> cbs" where
  "CBS_init data len = take len data"

definition cbs_get :: "nat \<Rightarrow> (cbs, bytes) action" where
  "cbs_get n cbs = (if length cbs < n then (None, cbs) else (Some (take n cbs), drop n cbs))"

definition CBS_skip :: "nat \<Rightarrow> (cbs, unit) action" where
  "CBS_skip len = and_then (cbs_get len) (\<lambda>_. ret ())"

definition CBS_data :: "cbs \<Rightarrow> bytes" where
  "CBS_data cbs = cbs"

definition CBS_len :: "cbs \<Rightarrow> nat" where
  "CBS_len cbs = length cbs"

definition CBS_stow :: "(nat \<Rightarrow> bool) \<Rightarrow> cbs \<Rightarrow> (bytes option \<times> nat) option" where
  "CBS_stow alloc_ok cbs =
     (if CBS_len cbs = 0 then Some (None, 0)
      else case OPENSSL_memdup alloc_ok cbs of
             None \<Rightarrow> None
           | Some p \<Rightarrow> Some (Some p, CBS_len cbs))"

definition CBS_strdup :: "(nat \<Rightarrow> bool) \<Rightarrow> cbs \<Rightarrow> bytes option" where
  "CBS_strdup alloc_ok cbs = OPENSSL_strndup alloc_ok cbs (CBS_len cbs)"

definition CBS_contains_zero_byte :: "cbs \<Rightarrow> bool" where
  "CBS_contains_zero_byte cbs \<longleftrightarrow> OPENSSL_memchr cbs 0 \<noteq> None"

definition CBS_mem_equal :: "cbs \<Rightarrow> bytes \<Rightarrow> bool" where
  "CBS_mem_equal cbs data =
     (if length data \<noteq> CBS_len cbs then False
      else CRYPTO_memcmp cbs data (length data) = 0)"

definition cbs_get_u :: "nat \<Rightarrow> (cbs, u64) action" where
  "cbs_get_u len = and_then (cbs_get len) (\<lambda>data. ret (be_fold 0 data))"

definition CBS_get_u8 :: "(cbs, u8) action" where
  "CBS_get_u8 = and_then (cbs_get 1) (\<lambda>v. ret (v ! 0))"

definition CBS_get_u16 :: "(cbs, u16) action" where
  "CBS_get_u16 = and_then (cbs_get_u 2) (\<lambda>v. ret (ucast v))"

definition CBS_get_u16le :: "(cbs, u16) action" where
  "CBS_get_u16le = and_then CBS_get_u16 (\<lambda>v. ret (CRYPTO_bswap2 v))"

definition CBS_get_u24 :: "(cbs, u32) action" where
  "CBS_get_u24 = and_then (cbs_get_u 3) (\<lambda>v. ret (ucast v))"

definition CBS_get_u32 :: "(cbs, u32) action" where
  "CBS_get_u32 = and_then (cbs_get_u 4) (\<lambda>v. ret (ucast v))"

definition CBS_get_u32le :: "(cbs, u32) action" where
  "CBS_get_u32le = and_then CBS_get_u32 (\<lambda>v. ret (CRYPTO_bswap4 v))"

definition CBS_get_u64 :: "(cbs, u64) action" where
  "CBS_get_u64 = cbs_get_u 8"

definition CBS_get_u64le :: "(cbs, u64) action" where
  "CBS_get_u64le = and_then (cbs_get_u 8) (\<lambda>v. ret (CRYPTO_bswap8 v))"

definition CBS_get_last_u8 :: "(cbs, u8) action" where
  "CBS_get_last_u8 cbs =
     (if CBS_len cbs = 0 then (None, cbs)
      else (Some (cbs ! (CBS_len cbs - 1)), take (CBS_len cbs - 1) cbs))"

definition CBS_get_bytes :: "nat \<Rightarrow> (cbs, cbs) action" where
  "CBS_get_bytes len = and_then (cbs_get len) (\<lambda>v. ret (CBS_init v len))"

definition CBS_copy_bytes :: "nat \<Rightarrow> (cbs, bytes) action" where
  "CBS_copy_bytes len = and_then (cbs_get len) (\<lambda>v. ret v)"

definition cbs_get_length_prefixed :: "nat \<Rightarrow> (cbs, cbs) action" where
  "cbs_get_length_prefixed len_len =
     and_then (cbs_get_u len_len) (\<lambda>len. CBS_get_bytes (unat len))"

definition CBS_get_u8_length_prefixed :: "(cbs, cbs) action" where
  "CBS_get_u8_length_prefixed = cbs_get_length_prefixed 1"

definition CBS_get_u16_length_prefixed :: "(cbs, cbs) action" where
  "CBS_get_u16_length_prefixed = cbs_get_length_prefixed 2"

definition CBS_get_u24_length_prefixed :: "(cbs, cbs) action" where
  "CBS_get_u24_length_prefixed = cbs_get_length_prefixed 3"

definition CBS_get_until_first :: "u8 \<Rightarrow> (cbs, cbs) action" where
  "CBS_get_until_first c cbs =
     (case OPENSSL_memchr (CBS_data cbs) c of
        None \<Rightarrow> (None, cbs)
      | Some split \<Rightarrow> CBS_get_bytes split cbs)"

text \<open>
  The loop of \<open>CBS_get_u64_decimal\<close>: \<open>v\<close> and \<open>seen_digit\<close> are its variables. A digit is
  consumed before it is checked, so a rejected digit is not given back.
\<close>

fun u64_decimal_loop :: "u64 \<Rightarrow> bool \<Rightarrow> (cbs, u64) action" where
  "u64_decimal_loop v seen_digit [] = (if seen_digit then Some v else None, [])"
| "u64_decimal_loop v seen_digit (c # cbs) =
     (if \<not> OPENSSL_isdigit c then (if seen_digit then Some v else None, c # cbs)
      else if (v = 0 \<and> seen_digit) \<or>
              v > UINT64_MAX div 10 \<or>
              v * 10 > UINT64_MAX - ucast (c - 48)
           then (None, cbs)
           else u64_decimal_loop (v * 10 + ucast (c - 48)) True cbs)"

definition CBS_get_u64_decimal :: "(cbs, u64) action" where
  "CBS_get_u64_decimal = u64_decimal_loop 0 False"

section \<open>What the getters consume\<close>

lemma snd_cbs_get: "snd (cbs_get n s) = (if length s < n then s else drop n s)"
  by (simp add: cbs_get_def)

lemma suffix_and_then:
  assumes "suffix (snd (m s)) s" and "\<And>x s'. suffix (snd (f x s')) s'"
  shows "suffix (snd (and_then m f s)) s"
proof (cases "m s")
  case (Pair r s')
  show ?thesis
  proof (cases r)
    case None
    with Pair assms(1) show ?thesis by simp
  next
    case (Some x)
    with Pair have "and_then m f s = f x s'" by simp
    moreover have "suffix s' s" using assms(1) Pair by simp
    ultimately show ?thesis using assms(2) [of x s'] by (simp add: suffix_order.trans)
  qed
qed

lemma suffix_ret: "suffix (snd (ret x s)) s"
  by (simp add: ret_def)

lemma suffix_cbs_get: "suffix (snd (cbs_get n s)) s"
  by (simp add: snd_cbs_get suffix_drop)

lemmas [consumes_intros] = suffix_and_then suffix_ret suffix_cbs_get

lemma suffix_CBS_get_bytes: "suffix (snd (CBS_get_bytes n s)) s"
  unfolding CBS_get_bytes_def by (intro consumes_intros)

lemma suffix_cbs_get_u: "suffix (snd (cbs_get_u n s)) s"
  unfolding cbs_get_u_def by (intro consumes_intros)

lemma suffix_CBS_get_u8: "suffix (snd (CBS_get_u8 s)) s"
  unfolding CBS_get_u8_def by (intro consumes_intros)

lemma suffix_CBS_skip: "suffix (snd (CBS_skip n s)) s"
  unfolding CBS_skip_def by (intro consumes_intros)

lemmas [consumes_intros] =
  suffix_CBS_get_bytes suffix_cbs_get_u suffix_CBS_get_u8 suffix_CBS_skip

lemma suffix_u64_decimal_loop: "suffix (snd (u64_decimal_loop v seen s)) s"
  by (induction v seen s rule: u64_decimal_loop.induct) (auto intro: suffix_ConsI)

interpretation rd_bytes: reader "CBS_get_bytes n" for n
  by unfold_locales (rule suffix_CBS_get_bytes)

interpretation rd_decimal: reader CBS_get_u64_decimal
  by unfold_locales (simp add: CBS_get_u64_decimal_def suffix_u64_decimal_loop)

section \<open>Fixed-width integers\<close>

lemma cbs_get_eq_Some:
  "cbs_get n s = (Some p, t) \<longleftrightarrow> length p = n \<and> s = p @ t"
  by (auto simp: cbs_get_def)

lemma cbs_get_append [simp]: "length p = n \<Longrightarrow> cbs_get n (p @ t) = (Some p, t)"
  by (simp add: cbs_get_eq_Some)

lemma cbs_get_u_eq_Some:
  assumes "n \<le> 8"
  shows "cbs_get_u n s = (Some v, t) \<longleftrightarrow> drop_bit (8 * n) v = 0 \<and> s = be_bytes n v @ t"
proof
  assume "cbs_get_u n s = (Some v, t)"
  then obtain p where p: "length p = n" "s = p @ t" "v = be_fold 0 p"
    by (auto simp: cbs_get_u_def cbs_get_eq_Some)
  with assms be_fold_small [of p n] show "drop_bit (8 * n) v = 0 \<and> s = be_bytes n v @ t"
    by simp
next
  assume "drop_bit (8 * n) v = 0 \<and> s = be_bytes n v @ t"
  with assms show "cbs_get_u n s = (Some v, t)"
    by (auto simp: cbs_get_u_def cbs_get_eq_Some intro!: exI [of _ "be_bytes n v"])
qed

lemma cbs_get_u_be_bytes [simp]:
  "n \<le> 8 \<Longrightarrow> drop_bit (8 * n) v = 0 \<Longrightarrow> cbs_get_u n (be_bytes n v @ t) = (Some v, t)"
  by (simp add: cbs_get_u_eq_Some)

lemma CBS_get_u8_simps [simp]:
  "CBS_get_u8 [] = (None, [])"
  "CBS_get_u8 (b # s) = (Some b, s)"
  by (simp_all add: CBS_get_u8_def cbs_get_def and_then_def ret_def)

lemma CBS_get_u8_eq_Some [simp]: "CBS_get_u8 s = (Some b, t) \<longleftrightarrow> s = b # t"
  by (cases s) auto

text \<open>Every fixed-width getter is a codec for the big-endian (or reversed) bytes of its word.\<close>

lemma CBS_get_u16_eq_Some:
  "CBS_get_u16 s = (Some v, t) \<longleftrightarrow> s = be_bytes 2 (ucast v) @ t"
proof
  assume "CBS_get_u16 s = (Some v, t)"
  then obtain w where "drop_bit 16 w = 0" "s = be_bytes 2 w @ t" "v = ucast w"
    by (auto simp: CBS_get_u16_def cbs_get_u_eq_Some)
  then show "s = be_bytes 2 (ucast v) @ t" using ucast_narrow [where 'a = 16, of w] by simp
next
  assume "s = be_bytes 2 (ucast v) @ t"
  then show "CBS_get_u16 s = (Some v, t)"
    by (simp add: CBS_get_u16_def drop_bit_ucast_up ret_def)
qed

lemma CBS_get_u32_eq_Some:
  "CBS_get_u32 s = (Some v, t) \<longleftrightarrow> s = be_bytes 4 (ucast v) @ t"
proof
  assume "CBS_get_u32 s = (Some v, t)"
  then obtain w where "drop_bit 32 w = 0" "s = be_bytes 4 w @ t" "v = ucast w"
    by (auto simp: CBS_get_u32_def cbs_get_u_eq_Some)
  then show "s = be_bytes 4 (ucast v) @ t" using ucast_narrow [where 'a = 32, of w] by simp
next
  assume "s = be_bytes 4 (ucast v) @ t"
  then show "CBS_get_u32 s = (Some v, t)"
    by (simp add: CBS_get_u32_def drop_bit_ucast_up ret_def)
qed

lemma CBS_get_u24_eq_Some:
  "CBS_get_u24 s = (Some v, t) \<longleftrightarrow> drop_bit 24 v = 0 \<and> s = be_bytes 3 (ucast v) @ t"
proof
  assume "CBS_get_u24 s = (Some v, t)"
  then obtain w where w: "drop_bit 24 w = 0" "s = be_bytes 3 w @ t" "v = ucast w"
    by (auto simp: CBS_get_u24_def cbs_get_u_eq_Some)
  have "drop_bit 32 w = 0" "drop_bit 24 v = 0"
    using bit_drop_bit_zero [OF w(1)] w(3) by (auto intro!: bit_word_eqI simp: bit_simps)
  with w show "drop_bit 24 v = 0 \<and> s = be_bytes 3 (ucast v) @ t"
    using ucast_narrow [where 'a = 32, of w] by simp
next
  assume v: "drop_bit 24 v = 0 \<and> s = be_bytes 3 (ucast v) @ t"
  then have "drop_bit 24 (ucast v :: u64) = 0"
    using bit_drop_bit_zero [of 24 v] by (auto intro!: bit_word_eqI simp: bit_simps)
  with v show "CBS_get_u24 s = (Some v, t)"
    by (simp add: CBS_get_u24_def ret_def)
qed

lemma CBS_get_u64_eq_Some:
  "CBS_get_u64 s = (Some v, t) \<longleftrightarrow> s = be_bytes 8 v @ t"
proof -
  have "drop_bit 64 v = 0" by (rule bit_word_eqI) (simp add: bit_simps)
  then show ?thesis by (simp add: CBS_get_u64_def cbs_get_u_eq_Some)
qed

lemma CBS_get_u16le_eq_Some:
  "CBS_get_u16le s = (Some v, t) \<longleftrightarrow> s = rev (be_bytes 2 (ucast v)) @ t"
  by (auto simp: CBS_get_u16le_def CBS_get_u16_eq_Some be_bytes_bswap2
      intro!: exI [of _ "CRYPTO_bswap2 v"])

lemma CBS_get_u32le_eq_Some:
  "CBS_get_u32le s = (Some v, t) \<longleftrightarrow> s = rev (be_bytes 4 (ucast v)) @ t"
  by (auto simp: CBS_get_u32le_def CBS_get_u32_eq_Some be_bytes_bswap4
      intro!: exI [of _ "CRYPTO_bswap4 v"])

lemma CBS_get_u64le_eq_Some:
  "CBS_get_u64le s = (Some v, t) \<longleftrightarrow> s = rev (be_bytes 8 v) @ t"
  using CBS_get_u64_eq_Some
  by (auto simp: CBS_get_u64le_def CBS_get_u64_def be_bytes_bswap8
      intro!: exI [of _ "CRYPTO_bswap8 v"])

lemmas cbs_int_simps =
  CBS_get_u16_eq_Some CBS_get_u24_eq_Some CBS_get_u32_eq_Some CBS_get_u64_eq_Some
  CBS_get_u16le_eq_Some CBS_get_u32le_eq_Some CBS_get_u64le_eq_Some

lemma codecI:
  assumes "\<And>s x t. dec s = (Some x, t) \<longleftrightarrow> valid x \<and> s = enc x @ t"
    and "\<And>x. valid x \<Longrightarrow> enc x \<noteq> []"
  shows "codec_nonempty valid enc dec"
  using assms by unfold_locales auto

lemma be_bytes_nonempty [simp]: "0 < n \<Longrightarrow> be_bytes n v \<noteq> []"
  using be_bytes_length [of n v] by (metis length_0_conv less_numeral_extra(3))

interpretation u8: codec_nonempty "\<lambda>_. True" "\<lambda>b. [b]" CBS_get_u8
  by (rule codecI) auto

interpretation u16: codec_nonempty "\<lambda>_. True" "\<lambda>v. be_bytes 2 (ucast v)" CBS_get_u16
  by (rule codecI) (auto simp: cbs_int_simps)

interpretation u24: codec_nonempty "\<lambda>v. drop_bit 24 v = 0" "\<lambda>v. be_bytes 3 (ucast v)" CBS_get_u24
  by (rule codecI) (auto simp: cbs_int_simps)

interpretation u32: codec_nonempty "\<lambda>_. True" "\<lambda>v. be_bytes 4 (ucast v)" CBS_get_u32
  by (rule codecI) (auto simp: cbs_int_simps)

interpretation u64: codec_nonempty "\<lambda>_. True" "be_bytes 8" CBS_get_u64
  by (rule codecI) (auto simp: cbs_int_simps)

interpretation u16le: codec_nonempty "\<lambda>_. True" "\<lambda>v. rev (be_bytes 2 (ucast v))" CBS_get_u16le
  by (rule codecI) (auto simp: cbs_int_simps)

interpretation u32le: codec_nonempty "\<lambda>_. True" "\<lambda>v. rev (be_bytes 4 (ucast v))" CBS_get_u32le
  by (rule codecI) (auto simp: cbs_int_simps)

interpretation u64le: codec_nonempty "\<lambda>_. True" "\<lambda>v. rev (be_bytes 8 v)" CBS_get_u64le
  by (rule codecI) (auto simp: cbs_int_simps)

section \<open>Strings\<close>

lemma CBS_get_bytes_eq_Some [simp]:
  "CBS_get_bytes n s = (Some p, t) \<longleftrightarrow> length p = n \<and> s = p @ t"
  by (auto simp: CBS_get_bytes_def cbs_get_eq_Some CBS_init_def)

lemma CBS_get_bytes_append [simp]: "length p = n \<Longrightarrow> CBS_get_bytes n (p @ t) = (Some p, t)"
  by simp

lemma CBS_skip_eq_Some [simp]:
  "CBS_skip n s = (Some u, t) \<longleftrightarrow> n \<le> length s \<and> t = drop n s"
  by (auto simp: CBS_skip_def cbs_get_def and_then_def ret_def)

text \<open>Length-prefixed strings, with a prefix of \<open>k\<close> bytes.\<close>

definition length_prefixed :: "nat \<Rightarrow> bytes \<Rightarrow> bytes" where
  "length_prefixed k p = be_bytes k (of_nat (length p)) @ p"

lemma drop_bit_of_nat_small:
  assumes "m < 2 ^ k" and "k < 64"
  shows "drop_bit k (of_nat m :: u64) = 0" and "unat (of_nat m :: u64) = m"
proof -
  have "(2 :: nat) ^ k \<le> 2 ^ 64" using assms(2) by (intro power_increasing) auto
  then have "m < 2 ^ 64" using assms(1) by (rule less_le_trans [rotated])
  then show u: "unat (of_nat m :: u64) = m" by (simp add: unat_of_nat)
  then have "drop_bit k (unat (of_nat m :: u64)) = 0"
    using assms(1) by (simp add: drop_bit_eq_div)
  then have "unat (drop_bit k (of_nat m :: u64)) = 0" by (simp only: unat_drop_bit_eq)
  then show "drop_bit k (of_nat m :: u64) = 0" by (simp add: unat_eq_0)
qed

lemma unat_less_of_drop_bit:
  assumes "drop_bit k (w :: u64) = 0"
  shows "unat w < 2 ^ k"
proof -
  have "drop_bit k (unat w) = 0" by (simp only: assms unat_drop_bit_eq [symmetric] unsigned_0)
  then show ?thesis by (simp add: drop_bit_eq_div div_eq_0_iff)
qed

lemma cbs_get_length_prefixed_eq_Some:
  assumes "k \<le> 7"
  shows "cbs_get_length_prefixed k s = (Some p, t) \<longleftrightarrow>
    length p < 256 ^ k \<and> s = length_prefixed k p @ t"
proof
  assume "cbs_get_length_prefixed k s = (Some p, t)"
  then obtain w where w: "drop_bit (8 * k) w = 0" "s = be_bytes k w @ p @ t" "length p = unat w"
    using assms by (auto simp: cbs_get_length_prefixed_def cbs_get_u_eq_Some)
  have "unat w < 256 ^ k" using unat_less_of_drop_bit [OF w(1)] by (simp add: power_mult)
  with w show "length p < 256 ^ k \<and> s = length_prefixed k p @ t"
    by (simp add: length_prefixed_def)
next
  assume p: "length p < 256 ^ k \<and> s = length_prefixed k p @ t"
  then have "length p < 2 ^ (8 * k)" by (simp add: power_mult)
  note small = drop_bit_of_nat_small [OF this]
  show "cbs_get_length_prefixed k s = (Some p, t)"
    using p assms small
    by (auto simp: cbs_get_length_prefixed_def cbs_get_u_eq_Some length_prefixed_def
        intro!: exI [of _ "of_nat (length p)"])
qed

interpretation lp1: codec_nonempty "\<lambda>p. length p < 256 ^ 1" "length_prefixed 1" CBS_get_u8_length_prefixed
  by (rule codecI)
    (simp_all add: CBS_get_u8_length_prefixed_def cbs_get_length_prefixed_eq_Some length_prefixed_def)

interpretation lp2: codec_nonempty "\<lambda>p. length p < 256 ^ 2" "length_prefixed 2" CBS_get_u16_length_prefixed
  by (rule codecI)
    (simp_all add: CBS_get_u16_length_prefixed_def cbs_get_length_prefixed_eq_Some length_prefixed_def)

interpretation lp3: codec_nonempty "\<lambda>p. length p < 256 ^ 3" "length_prefixed 3" CBS_get_u24_length_prefixed
  by (rule codecI)
    (simp_all add: CBS_get_u24_length_prefixed_def cbs_get_length_prefixed_eq_Some length_prefixed_def)

lemma memchr_Some:
  "OPENSSL_memchr s c = Some i \<longleftrightarrow> i < length s \<and> s ! i = c \<and> c \<notin> set (take i s)"
proof (induction s arbitrary: i)
  case Nil
  then show ?case by simp
next
  case (Cons b s)
  then show ?case by (cases i) auto
qed

lemma memchr_None: "OPENSSL_memchr s c = None \<longleftrightarrow> c \<notin> set s"
  by (induction s) auto

lemma CBS_get_until_first_eq_Some:
  "CBS_get_until_first c s = (Some p, t) \<longleftrightarrow> (\<exists>u. s = p @ t \<and> t = c # u \<and> c \<notin> set p)"
proof
  assume "CBS_get_until_first c s = (Some p, t)"
  then obtain i where i: "OPENSSL_memchr s c = Some i" "length p = i" "s = p @ t"
    by (auto simp: CBS_get_until_first_def CBS_data_def split: option.splits)
  then have "i < length s" "s ! i = c" "c \<notin> set (take i s)" by (simp_all add: memchr_Some)
  with i show "\<exists>u. s = p @ t \<and> t = c # u \<and> c \<notin> set p"
    by (cases t) auto
next
  assume "\<exists>u. s = p @ t \<and> t = c # u \<and> c \<notin> set p"
  then obtain u where u: "s = p @ c # u" "t = c # u" "c \<notin> set p" by auto
  then have "OPENSSL_memchr s c = Some (length p)" by (simp add: memchr_Some)
  with u show "CBS_get_until_first c s = (Some p, t)"
    by (simp add: CBS_get_until_first_def CBS_data_def)
qed

lemma word_xor_eq_0 [simp]: "a XOR b = 0 \<longleftrightarrow> a = (b :: 'a :: len word)"
proof
  assume e: "a XOR b = 0"
  show "a = b"
  proof (rule bit_word_eqI)
    fix n
    have "\<not> bit (a XOR b) n" by (simp add: e)
    then show "bit a n = bit b n" by (simp add: bit_xor_iff)
  qed
qed simp

lemma memcmp_loop_0:
  "length a = length b \<Longrightarrow> memcmp_loop x a b = 0 \<longleftrightarrow> x = 0 \<and> a = b"
proof (induction x a b rule: memcmp_loop.induct)
  case (1 x a as b bs)
  then show ?case by (auto simp: or_eq_0_iff)
qed auto

lemma CBS_mem_equal_iff: "CBS_mem_equal s d \<longleftrightarrow> s = d"
proof (cases "length d = length s")
  case True
  have "uint (memcmp_loop 0 s d) = 0 \<longleftrightarrow> memcmp_loop 0 s d = 0"
    by (simp add: uint_0_iff)
  with True show ?thesis
    by (simp add: CBS_mem_equal_def CBS_len_def CRYPTO_memcmp_def memcmp_loop_0)
qed (auto simp: CBS_mem_equal_def CBS_len_def)

end
