(* ===== verification/Cbs_Asn1.thy ===== *)
theory Cbs_Asn1
  imports Cbs
begin

text \<open>
  The ASN.1 part of the reader, \<open>crypto/bytestring/cbs.c\<close> lines 260 to 680: tags,
  DER and BER element headers, and the typed getters built on them.
\<close>

section \<open>Base-128 integers and tags\<close>

type_synonym asn1_tag = u32

abbreviation CBS_ASN1_CONSTRUCTED :: asn1_tag where "CBS_ASN1_CONSTRUCTED \<equiv> 0x20000000"
abbreviation CBS_ASN1_TAG_NUMBER_MASK :: asn1_tag where "CBS_ASN1_TAG_NUMBER_MASK \<equiv> 0x1fffffff"
abbreviation CBS_ASN1_BOOLEAN :: asn1_tag where "CBS_ASN1_BOOLEAN \<equiv> 0x1"
abbreviation CBS_ASN1_INTEGER :: asn1_tag where "CBS_ASN1_INTEGER \<equiv> 0x2"
abbreviation CBS_ASN1_OCTETSTRING :: asn1_tag where "CBS_ASN1_OCTETSTRING \<equiv> 0x4"

fun base128_loop :: "u64 \<Rightarrow> (cbs, u64) action" where
  "base128_loop v [] = (None, [])"
| "base128_loop v (b # cbs) =
     (if drop_bit (64 - 7) v \<noteq> 0 then (None, cbs)
      else if v = 0 \<and> b = 0x80 then (None, cbs)
      else let v' = push_bit 7 v OR ucast (b AND 0x7f)
           in if b AND 0x80 \<noteq> 0 then base128_loop v' cbs else (Some v', cbs))"

definition parse_base128_integer :: "(cbs, u64) action" where
  "parse_base128_integer = base128_loop 0"

text \<open>The class and constructed bits of the first octet, and the number that follows them.\<close>

definition tag_leading_bits :: "u8 \<Rightarrow> asn1_tag" where
  "tag_leading_bits tag_byte = push_bit 24 (ucast tag_byte AND 0xe0)"

definition parse_tag_number :: "u8 \<Rightarrow> (cbs, asn1_tag) action" where
  "parse_tag_number tag_byte =
     (if tag_byte AND 0x1f = 0x1f
      then and_then parse_base128_integer (\<lambda>v.
             if v > ucast CBS_ASN1_TAG_NUMBER_MASK \<or> v < 0x1f then fail
             else ret (ucast v))
      else ret (ucast (tag_byte AND 0x1f)))"

definition parse_asn1_tag :: "(cbs, asn1_tag) action" where
  "parse_asn1_tag =
     and_then CBS_get_u8 (\<lambda>tag_byte.
       and_then (parse_tag_number tag_byte) (\<lambda>tag_number.
         let tag = tag_leading_bits tag_byte OR tag_number
         in if tag AND NOT CBS_ASN1_CONSTRUCTED = 0 then fail else ret tag))"

section \<open>Elements\<close>

text \<open>
  The output parameters of \<open>cbs_get_any_asn1_element\<close>: the element with its header, the
  tag, the length of the header, and, in BER mode, whether a BER-only form was used and
  whether the length is indefinite.
\<close>

record element =
  el_bytes :: cbs
  el_tag :: asn1_tag
  el_header_len :: nat
  el_ber_found :: bool
  el_indefinite :: bool

text \<open>
  The length octets, after the first one (\<open>length_byte\<close>) has been read from \<open>header\<close>:
  the total length of the element, the length of its header, and the two BER flags.
\<close>

definition parse_asn1_length ::
  "bool \<Rightarrow> asn1_tag \<Rightarrow> nat \<Rightarrow> u8 \<Rightarrow> cbs \<Rightarrow> (nat \<times> nat \<times> bool \<times> bool) option" where
  "parse_asn1_length ber_ok tag header_len length_byte header =
     (if length_byte AND 0x80 = 0
      then Some (unat length_byte + header_len, header_len, False, False)
      else
        let num_bytes = unat (length_byte AND 0x7f) in
        if ber_ok \<and> tag AND CBS_ASN1_CONSTRUCTED \<noteq> 0 \<and> num_bytes = 0
        then Some (header_len, header_len, True, True)
        else if num_bytes = 0 \<or> num_bytes > 4 then None
        else case cbs_get_u num_bytes header of (None, _) \<Rightarrow> None | (Some len64, _) \<Rightarrow>
          if len64 < 128 \<and> \<not> ber_ok then None
          else if drop_bit ((num_bytes - 1) * 8) len64 = 0 \<and> \<not> ber_ok then None
          else
            let len = unat len64 in
            if size_add (size_add len header_len) num_bytes < len then None
            else Some (len + (header_len + num_bytes), header_len + num_bytes,
                       len64 < 128 \<or> drop_bit ((num_bytes - 1) * 8) len64 = 0, False))"

text \<open>The header is parsed on a copy: a failure leaves the reader where it was.\<close>

definition cbs_get_any_asn1_element :: "bool \<Rightarrow> (cbs, element) action" where
  "cbs_get_any_asn1_element ber_ok cbs =
     (case parse_asn1_tag cbs of (None, _) \<Rightarrow> (None, cbs) | (Some tag, header) \<Rightarrow>
      case CBS_get_u8 header of (None, _) \<Rightarrow> (None, cbs) | (Some length_byte, header) \<Rightarrow>
      let header_len = CBS_len cbs - CBS_len header in
      case parse_asn1_length ber_ok tag header_len length_byte header of
        None \<Rightarrow> (None, cbs)
      | Some (len, header_len, ber_found, indefinite) \<Rightarrow>
          and_then (CBS_get_bytes len) (\<lambda>out.
            ret \<lparr>el_bytes = out, el_tag = tag, el_header_len = header_len,
                 el_ber_found = ber_found, el_indefinite = indefinite\<rparr>) cbs)"

definition CBS_get_any_asn1_element :: "(cbs, element) action" where
  "CBS_get_any_asn1_element = cbs_get_any_asn1_element False"

definition CBS_get_any_ber_asn1_element :: "(cbs, element) action" where
  "CBS_get_any_ber_asn1_element = cbs_get_any_asn1_element True"

text \<open>A getter that runs on a copy of the reader: only its result is used.\<close>

definition on_copy :: "(cbs, 'a) action \<Rightarrow> cbs \<Rightarrow> 'a option" where
  "on_copy m cbs = fst (m cbs)"

definition CBS_get_any_asn1 :: "(cbs, cbs \<times> asn1_tag) action" where
  "CBS_get_any_asn1 =
     and_then CBS_get_any_asn1_element (\<lambda>el.
       case CBS_skip (el_header_len el) (el_bytes el) of
         (None, _) \<Rightarrow> fail
       | (Some _, out) \<Rightarrow> ret (out, el_tag el))"

definition cbs_get_asn1 :: "asn1_tag \<Rightarrow> bool \<Rightarrow> (cbs, cbs) action" where
  "cbs_get_asn1 tag_value skip_header =
     and_then CBS_get_any_asn1_element (\<lambda>el.
       if el_tag el \<noteq> tag_value then fail
       else if skip_header then
         (case CBS_skip (el_header_len el) (el_bytes el) of
            (None, _) \<Rightarrow> fail
          | (Some _, out) \<Rightarrow> ret out)
       else ret (el_bytes el))"

definition CBS_get_asn1 :: "asn1_tag \<Rightarrow> (cbs, cbs) action" where
  "CBS_get_asn1 tag_value = cbs_get_asn1 tag_value True"

definition CBS_get_asn1_element :: "asn1_tag \<Rightarrow> (cbs, cbs) action" where
  "CBS_get_asn1_element tag_value = cbs_get_asn1 tag_value False"

definition CBS_peek_asn1_tag :: "cbs \<Rightarrow> asn1_tag \<Rightarrow> bool" where
  "CBS_peek_asn1_tag cbs tag_value =
     (case parse_asn1_tag cbs of
        (None, _) \<Rightarrow> False
      | (Some actual_tag, _) \<Rightarrow> tag_value = actual_tag)"

section \<open>Integers and booleans\<close>

text \<open>\<open>None\<close> for an invalid INTEGER, otherwise \<open>Some is_negative\<close>.\<close>

definition CBS_is_valid_asn1_integer :: "cbs \<Rightarrow> bool option" where
  "CBS_is_valid_asn1_integer cbs =
     (case CBS_get_u8 cbs of (None, _) \<Rightarrow> None | (Some first_byte, copy) \<Rightarrow>
      let is_negative = (first_byte AND 0x80 \<noteq> 0) in
      case CBS_get_u8 copy of (None, _) \<Rightarrow> Some is_negative | (Some second_byte, _) \<Rightarrow>
      if (first_byte = 0x00 \<and> second_byte AND 0x80 = 0) \<or>
         (first_byte = 0xff \<and> second_byte AND 0x80 \<noteq> 0) then None
      else Some is_negative)"

definition CBS_is_unsigned_asn1_integer :: "cbs \<Rightarrow> bool" where
  "CBS_is_unsigned_asn1_integer cbs = (CBS_is_valid_asn1_integer cbs = Some False)"

fun uint64_loop :: "u64 \<Rightarrow> bytes \<Rightarrow> u64 option" where
  "uint64_loop out [] = Some out"
| "uint64_loop out (b # data) =
     (if drop_bit 56 out \<noteq> 0 then None else uint64_loop (push_bit 8 out OR ucast b) data)"

definition CBS_get_asn1_uint64 :: "(cbs, u64) action" where
  "CBS_get_asn1_uint64 =
     and_then (CBS_get_asn1 CBS_ASN1_INTEGER) (\<lambda>bytes.
       if \<not> CBS_is_unsigned_asn1_integer bytes then fail
       else case uint64_loop 0 bytes of None \<Rightarrow> fail | Some out \<Rightarrow> ret out)"

text \<open>
  \<open>sign_extend\<close> is the byte array of the little-endian machine: the contents reversed
  over a fill of sign bytes. \<open>memcpy\<close> into the \<open>int64_t\<close> reads it low byte first.
\<close>

definition sign_extend_bytes :: "bool \<Rightarrow> bytes \<Rightarrow> bytes" where
  "sign_extend_bytes is_negative data =
     rev data @ replicate (8 - length data) (if is_negative then 0xff else 0)"

definition load_le64 :: "bytes \<Rightarrow> u64" where
  "load_le64 bs = be_fold 0 (rev bs)"

definition CBS_get_asn1_int64 :: "(cbs, u64) action" where
  "CBS_get_asn1_int64 =
     and_then (CBS_get_asn1 CBS_ASN1_INTEGER) (\<lambda>bytes.
       case CBS_is_valid_asn1_integer bytes of
         None \<Rightarrow> fail
       | Some is_negative \<Rightarrow>
           if CBS_len bytes > 8 then fail
           else ret (load_le64 (sign_extend_bytes is_negative bytes)))"

definition CBS_get_asn1_bool :: "(cbs, bool) action" where
  "CBS_get_asn1_bool =
     and_then (CBS_get_asn1 CBS_ASN1_BOOLEAN) (\<lambda>bytes.
       if CBS_len bytes \<noteq> 1 then fail
       else let value = bytes ! 0 in
         if value \<noteq> 0 \<and> value \<noteq> 0xff then fail else ret (value \<noteq> 0))"

section \<open>Optional fields\<close>

text \<open>\<open>None\<close> inside the result stands for \<open>*out_present = 0\<close>.\<close>

definition CBS_get_optional_asn1 :: "asn1_tag \<Rightarrow> (cbs, cbs option) action" where
  "CBS_get_optional_asn1 tag cbs =
     (if CBS_peek_asn1_tag cbs tag
      then and_then (CBS_get_asn1 tag) (\<lambda>out. ret (Some out)) cbs
      else (Some None, cbs))"

definition CBS_get_optional_asn1_octet_string :: "asn1_tag \<Rightarrow> (cbs, cbs \<times> bool) action" where
  "CBS_get_optional_asn1_octet_string tag =
     and_then (CBS_get_optional_asn1 tag) (\<lambda>child.
       case child of
         None \<Rightarrow> ret ([], False)
       | Some child \<Rightarrow>
           (case CBS_get_asn1 CBS_ASN1_OCTETSTRING child of
              (None, _) \<Rightarrow> fail
            | (Some out, child) \<Rightarrow> if CBS_len child \<noteq> 0 then fail else ret (out, True)))"

definition CBS_get_optional_asn1_uint64 :: "asn1_tag \<Rightarrow> u64 \<Rightarrow> (cbs, u64) action" where
  "CBS_get_optional_asn1_uint64 tag default_value =
     and_then (CBS_get_optional_asn1 tag) (\<lambda>child.
       case child of
         None \<Rightarrow> ret default_value
       | Some child \<Rightarrow>
           (case CBS_get_asn1_uint64 child of
              (None, _) \<Rightarrow> fail
            | (Some out, child) \<Rightarrow> if CBS_len child \<noteq> 0 then fail else ret out))"

definition CBS_get_optional_asn1_bool :: "asn1_tag \<Rightarrow> bool \<Rightarrow> (cbs, bool) action" where
  "CBS_get_optional_asn1_bool tag default_value =
     and_then (CBS_get_optional_asn1 tag) (\<lambda>child.
       case child of
         None \<Rightarrow> ret default_value
       | Some child \<Rightarrow>
           (case CBS_get_asn1 CBS_ASN1_BOOLEAN child of
              (None, _) \<Rightarrow> fail
            | (Some child2, child) \<Rightarrow>
                if CBS_len child2 \<noteq> 1 \<or> CBS_len child \<noteq> 0 then fail
                else let boolean = child2 ! 0 in
                  if boolean = 0 then ret False
                  else if boolean = 0xff then ret True
                  else fail))"

section \<open>Bit strings and object identifiers\<close>

definition CBS_is_valid_asn1_bitstring :: "cbs \<Rightarrow> bool" where
  "CBS_is_valid_asn1_bitstring cbs =
     (case CBS_get_u8 cbs of (None, _) \<Rightarrow> False | (Some num_unused_bits, in_) \<Rightarrow>
      if num_unused_bits > 7 then False
      else if num_unused_bits = 0 then True
      else case CBS_get_last_u8 in_ of (None, _) \<Rightarrow> False | (Some last_byte, _) \<Rightarrow>
        last_byte AND (push_bit (unat num_unused_bits) 1 - 1) = 0)"

definition CBS_asn1_bitstring_has_bit :: "cbs \<Rightarrow> nat \<Rightarrow> bool" where
  "CBS_asn1_bitstring_has_bit cbs bit_index =
     (if \<not> CBS_is_valid_asn1_bitstring cbs then False
      else let byte_num = bit_index div 8 + 1; bit_num = 7 - bit_index mod 8
           in byte_num < CBS_len cbs \<and> (cbs ! byte_num) AND push_bit bit_num 1 \<noteq> 0)"

fun oid_loop :: "u8 \<Rightarrow> cbs \<Rightarrow> bool" where
  "oid_loop prev [] = (prev AND 0x80 = 0)"
| "oid_loop prev (v # copy) =
     (if prev AND 0x80 = 0 \<and> v = 0x80 then False else oid_loop v copy)"

definition CBS_is_valid_asn1_oid :: "cbs \<Rightarrow> bool" where
  "CBS_is_valid_asn1_oid cbs = (if CBS_len cbs = 0 then False else oid_loop 0 cbs)"

end
