(* ===== verification/Der_Elements.thy ===== *)
theory Der_Elements
  imports Cbs_Asn1 Codec
begin

text \<open>
  The DER element format as an encoding (\<open>base128_bytes\<close>, \<open>tag_bytes\<close>, \<open>der_length\<close>,
  \<open>der_element\<close>) and the proof that the parsing functions of \<open>Cbs_Asn1\<close> accept exactly
  the encodings: base-128 integers and tags are instances of the \<open>codec\<close> interface, and
  the strict reader of elements returns an element if and only if the input starts with
  its unique DER encoding.
\<close>


lemma and_0x7f [simp]: "x AND 0x7f = take_bit 7 (x :: 'a :: len word)"
  by (simp add: take_bit_eq_mask mask_eq_exp_minus_1)

lemma and_exp_eq_0: "x AND 2 ^ k = 0 \<longleftrightarrow> \<not> bit (x :: 'a :: len word) k"
proof
  assume e: "x AND 2 ^ k = 0"
  then have "\<not> bit (x AND 2 ^ k) k" by simp
  then show "\<not> bit x k" using bit_imp_le_length [of x k] by (auto simp: bit_and_iff bit_exp_iff)
next
  assume "\<not> bit x k"
  then show "x AND 2 ^ k = 0" by (intro bit_word_eqI) (auto simp: bit_and_iff bit_exp_iff)
qed

lemma and_0x80 [simp]: "x AND 0x80 = 0 \<longleftrightarrow> \<not> bit (x :: 'a :: len word) 7"
  using and_exp_eq_0 [of x 7] by simp

text \<open>The simplifier moves the bits of word numerals to the integers.\<close>

lemma bit_int_128 [simp]: "bit (128 :: int) n \<longleftrightarrow> n = 7"
  using bit_exp_iff [of 7 n, where 'a = int] by simp

lemma take_bit_eq_0D: "take_bit m (x :: 'a :: len word) = 0 \<Longrightarrow> n < m \<Longrightarrow> \<not> bit x n"
  by (metis bit_0_eq bit_take_bit_iff bot_apply bot_bool_def)

lemma eq_0x80_iff: "b = (0x80 :: u8) \<longleftrightarrow> bit b 7 \<and> take_bit 7 b = 0"
proof
  assume h: "bit b 7 \<and> take_bit 7 b = 0"
  show "b = 0x80"
  proof (rule bit_word_eqI)
    fix n assume "n < LENGTH(8)"
    then show "bit b n = bit (0x80 :: u8) n"
      using h take_bit_eq_0D [of 7 b n] by (cases "n = 7") auto
  qed
qed simp

section \<open>Base-128\<close>

text \<open>The bytes before the last one of a base-128 integer: all carry the continuation bit.\<close>

function base128_high :: "u64 \<Rightarrow> bytes" where
  "base128_high v =
     (if v = 0 then [] else base128_high (drop_bit 7 v) @ [take_bit 7 (ucast v) OR 0x80])"
  by pat_completeness auto
termination
proof (relation "measure unat")
  fix v :: u64 assume "v \<noteq> 0"
  then have "0 < unat v" by (simp add: unat_gt_0)
  moreover have "unat (drop_bit 7 v) = unat v div 128"
    by (subst unat_drop_bit_eq) (simp add: drop_bit_eq_div)
  ultimately show "(drop_bit 7 v, v) \<in> measure unat" by simp
qed simp

declare base128_high.simps [simp del]

definition base128_bytes :: "u64 \<Rightarrow> bytes" where
  "base128_bytes v = base128_high (drop_bit 7 v) @ [take_bit 7 (ucast v)]"

lemma base128_high_0 [simp]: "base128_high 0 = []"
  by (subst base128_high.simps) simp

lemma base128_high_step:
  "v \<noteq> 0 \<Longrightarrow> base128_high v = base128_high (drop_bit 7 v) @ [take_bit 7 (ucast v) OR 0x80]"
  by (subst base128_high.simps) simp

text \<open>One turn of the reading loop, undone.\<close>

lemma base128_step_low: "take_bit 7 (ucast (push_bit 7 v OR ucast (take_bit 7 (b :: u8)) :: u64)) = take_bit 7 b"
  by (rule bit_word_eqI) (auto simp: bit_simps)

lemma base128_step_high:
  assumes "drop_bit 57 v = 0"
  shows "drop_bit 7 (push_bit 7 v OR ucast (take_bit 7 (b :: u8)) :: u64) = v"
proof (rule bit_word_eqI)
  fix n assume "n < LENGTH(64)"
  with bit_drop_bit_zero [OF assms, of n]
  show "bit (drop_bit 7 (push_bit 7 v OR ucast (take_bit 7 b))) n = bit v n"
    by (cases "57 \<le> n") (auto simp: bit_simps)
qed

lemma base128_step_join: "push_bit 7 (drop_bit 7 v) OR ucast (take_bit 7 (ucast (v :: u64) :: u8)) = v"
proof (rule bit_word_eqI)
  fix n assume "n < LENGTH(64)"
  then show "bit (push_bit 7 (drop_bit 7 v) OR ucast (take_bit 7 (ucast v :: u8))) n = bit v n"
    by (cases "n < 7") (auto simp: bit_simps)
qed

lemma continuation_byte: "bit b 7 \<Longrightarrow> take_bit 7 b OR 0x80 = (b :: u8)"
proof (rule bit_word_eqI)
  fix n assume "bit b 7" and "n < LENGTH(8)"
  then show "bit (take_bit 7 b OR 0x80) n = bit b n"
    by (cases "n = 7") (auto simp: bit_or_iff bit_take_bit_iff)
qed

lemma continuation_bits:
  "bit (take_bit 7 b OR 0x80 :: u8) 7" "take_bit 7 (take_bit 7 b OR 0x80 :: u8) = take_bit 7 b"
  by (auto simp: bit_or_iff bit_take_bit_iff intro!: bit_word_eqI)

lemma base128_loop_high: "base128_loop 0 (base128_high w @ s) = base128_loop w s"
proof (induction w arbitrary: s rule: base128_high.induct)
  case (1 w)
  show ?case
  proof (cases "w = 0")
    case True
    then show ?thesis by simp
  next
    case False
    let ?b = "take_bit 7 (ucast w) OR 0x80 :: u8"
    note b = continuation_bits [of "ucast w"]
    have nz: "\<not> (drop_bit 7 w = 0 \<and> ?b = 0x80)"
    proof
      assume h: "drop_bit 7 w = 0 \<and> ?b = 0x80"
      then have "take_bit 7 (ucast w) = (0 :: u8)" using b eq_0x80_iff by metis
      with h base128_step_join [of w] False show False by simp
    qed
    have d: "drop_bit 57 (drop_bit 7 w) = 0"
      by (rule bit_word_eqI) (simp add: bit_simps)
    have "base128_loop 0 (base128_high w @ s) = base128_loop (drop_bit 7 w) (?b # s)"
      using 1 [OF False] False by (simp add: base128_high_step)
    also have "\<dots> = base128_loop w s"
      using b nz d base128_step_join [of w] by (auto simp: Let_def)
    finally show ?thesis .
  qed
qed

lemma parse_base128_bytes [simp]: "parse_base128_integer (base128_bytes v @ s) = (Some v, s)"
proof -
  have d: "drop_bit 57 (drop_bit 7 v) = 0"
    by (rule bit_word_eqI) (simp add: bit_simps)
  have t: "take_bit 7 (ucast v) \<noteq> (0x80 :: u8)" "\<not> bit (take_bit 7 (ucast v) :: u8) 7"
    using eq_0x80_iff [of "take_bit 7 (ucast v)"] by (auto simp: bit_take_bit_iff)
  show ?thesis
    using d t base128_step_join [of v]
    by (simp add: parse_base128_integer_def base128_bytes_def base128_loop_high)
qed

lemma base128_loop_sound:
  assumes "base128_loop v s = (Some w, t)"
  shows "base128_high v @ s = base128_bytes w @ t"
  using assms
proof (induction v s rule: base128_loop.induct)
  case (1 v)
  then show ?case by simp
next
  case (2 v b s)
  let ?v = "push_bit 7 v OR ucast (take_bit 7 b) :: u64"
  have ok: "drop_bit 57 v = 0" "\<not> (v = 0 \<and> b = 0x80)"
    using "2.prems" by (auto split: if_splits)
  note hi = base128_step_high [OF ok(1), of b] and lo = base128_step_low [of v b]
  show ?case
  proof (cases "bit b 7")
    case True
    have "?v \<noteq> 0"
    proof
      assume z: "?v = 0"
      then have "v = 0" using hi by simp
      moreover have "take_bit 7 b = 0" using lo z by simp
      ultimately show False using ok(2) True by (simp add: eq_0x80_iff)
    qed
    then have "base128_high ?v = base128_high v @ [b]"
      using hi lo continuation_byte [OF True] by (simp add: base128_high_step)
    moreover have "base128_high ?v @ s = base128_bytes w @ t"
      using 2 ok True by (auto simp: Let_def)
    ultimately show ?thesis by simp
  next
    case False
    with "2.prems" ok have "w = ?v" "t = s" by (auto simp: Let_def)
    moreover have "take_bit 7 b = b"
      using False by (intro bit_word_eqI) (auto simp: bit_take_bit_iff less_Suc_eq_le le_less numeral_eq_Suc)
    ultimately show ?thesis using hi lo by (simp add: base128_bytes_def)
  qed
qed

lemma parse_base128_integer_eq_Some:
  "parse_base128_integer s = (Some v, t) \<longleftrightarrow> s = base128_bytes v @ t"
  using base128_loop_sound [of 0 s v t] parse_base128_bytes [of v t]
  unfolding parse_base128_integer_def by auto

interpretation base128: codec_nonempty "\<lambda>_. True" base128_bytes parse_base128_integer
  by (rule codecI) (auto simp: parse_base128_integer_eq_Some base128_bytes_def)


section \<open>Tags\<close>

definition valid_tag :: "asn1_tag \<Rightarrow> bool" where
  "valid_tag tag \<longleftrightarrow> tag AND NOT CBS_ASN1_CONSTRUCTED \<noteq> 0"

text \<open>The identifier octets of a tag, as \<open>CBB_add_asn1\<close> writes them.\<close>

definition tag_class :: "asn1_tag \<Rightarrow> u8" where
  "tag_class tag = ucast (drop_bit 24 tag) AND 0xe0"

definition tag_bytes :: "asn1_tag \<Rightarrow> bytes" where
  "tag_bytes tag =
     (let tag_bits = tag_class tag;
          tag_number = tag AND CBS_ASN1_TAG_NUMBER_MASK
      in if tag_number \<ge> 0x1f then (tag_bits OR 0x1f) # base128_bytes (ucast tag_number)
         else [tag_bits OR ucast tag_number])"

lemma and_0x1f [simp]: "x AND 0x1f = take_bit 5 (x :: 'a :: len word)"
  by (simp add: take_bit_eq_mask mask_eq_exp_minus_1)

lemma and_tag_number_mask [simp]: "x AND CBS_ASN1_TAG_NUMBER_MASK = take_bit 29 x"
  by (simp add: take_bit_eq_mask mask_eq_exp_minus_1)

lemma bit_int_224: "bit (224 :: int) n \<longleftrightarrow> 5 \<le> n \<and> n < 8"
proof -
  have "(224 :: int) = push_bit 5 (mask 3)" by (simp add: push_bit_eq_mult mask_eq_exp_minus_1)
  then show ?thesis by (simp only: bit_push_bit_iff bit_mask_iff) auto
qed

lemma bit_int_31: "bit (31 :: int) n \<longleftrightarrow> n < 5"
proof -
  have "(31 :: int) = mask 5" by (simp add: mask_eq_exp_minus_1)
  then show ?thesis by (simp only: bit_mask_iff) auto
qed


lemma bit_int_3758096384: "bit (3758096384 :: int) n \<longleftrightarrow> 29 \<le> n \<and> n < 32"
proof -
  have "(3758096384 :: int) = push_bit 29 (mask 3)" by (simp add: push_bit_eq_mult mask_eq_exp_minus_1)
  then show ?thesis by (simp only: bit_push_bit_iff bit_mask_iff) auto
qed

lemma bit_tag_leading_bits: "bit (tag_leading_bits b) n \<longleftrightarrow> 29 \<le> n \<and> n < 32 \<and> bit b (n - 24)"
  by (auto simp: tag_leading_bits_def bit_simps bit_int_3758096384)

lemma bit_tag_class: "bit (tag_class tag) n \<longleftrightarrow> 5 \<le> n \<and> n < 8 \<and> bit tag (n + 24)"
  by (auto simp: tag_class_def bit_simps bit_int_224 add.commute)

lemma no_high_bits: "take_bit k (w :: 'a :: len word) = w \<Longrightarrow> k \<le> i \<Longrightarrow> \<not> bit w i"
  by (metis bit_take_bit_iff not_le)

text \<open>A tag is its class and constructed bits over 29 bits of number.\<close>

lemma tag_parts:
  assumes "take_bit 29 n = n"
  shows "take_bit 29 (tag_leading_bits b OR n) = n"
    and "tag_class (tag_leading_bits b OR n) = b AND 0xe0"
proof -
  note n = no_high_bits [OF assms]
  show "take_bit 29 (tag_leading_bits b OR n) = n"
  proof (rule bit_word_eqI)
    fix i
    show "bit (take_bit 29 (tag_leading_bits b OR n)) i = bit n i"
      using n [of i] by (cases "29 \<le> i") (auto simp: bit_take_bit_iff bit_or_iff bit_tag_leading_bits)
  qed
  show "tag_class (tag_leading_bits b OR n) = b AND 0xe0"
  proof (rule bit_word_eqI)
    fix i
    show "bit (tag_class (tag_leading_bits b OR n)) i = bit (b AND 0xe0) i"
      using n [of "i + 24"]
      by (auto simp: bit_tag_class bit_simps bit_tag_leading_bits bit_int_224)
  qed
qed

lemma tag_leading_bits_or: "tag_leading_bits (tag_class tag OR c) OR take_bit 29 tag = tag"
  if "take_bit 5 c = c" for c :: u8
proof (rule bit_word_eqI)
  fix n assume "n < LENGTH(32)"
  then show "bit (tag_leading_bits (tag_class tag OR c) OR take_bit 29 tag) n = bit tag n"
    using no_high_bits [OF that, of "n - 24"]
    by (cases "n < 29") (auto simp: bit_simps bit_tag_leading_bits bit_tag_class)
qed

lemma low_bits_of_first: "take_bit 5 (tag_class tag OR c) = take_bit 5 (c :: u8)"
  by (rule bit_word_eqI) (auto simp: bit_simps bit_tag_class)

lemma byte_of_parts: "x AND 0xe0 OR take_bit 5 x = (x :: u8)"
proof (rule bit_word_eqI)
  fix n assume "n < LENGTH(8)"
  then show "bit (x AND 0xe0 OR take_bit 5 x) n = bit x n"
    by (cases "n < 5") (auto simp: bit_simps bit_int_224)
qed

lemma unat_u64_lt: "unat (v :: u64) < 2 ^ 64"
  using unsigned_less [of v] by simp

lemma bit_7_iff: "bit b 7 \<longleftrightarrow> 128 \<le> unat (b :: u8)"
proof -
  have "bit b 7 \<longleftrightarrow> bit (unat b) 7" by (simp add: bit_unsigned_iff)
  also have "\<dots> \<longleftrightarrow> odd (unat b div 128)" by (simp add: bit_iff_odd)
  also have "\<dots> \<longleftrightarrow> 128 \<le> unat b"
  proof (cases "128 \<le> unat b")
    case True
    then have "unat b div 128 = 1" using unat_u8_lt [of b] by simp
    with True show ?thesis by simp
  qed simp
  finally show ?thesis .
qed

lemma unat_eqI: "unat a = unat b \<Longrightarrow> a = (b :: 'a :: len word)"
  by (rule unsigned_word_eqI)

lemma take_bit_self: "unat w < 2 ^ k \<Longrightarrow> take_bit k w = (w :: 'a :: len word)"
  by (rule unat_eqI, subst unsigned_take_bit_eq) (rule take_bit_nat_eq_self)

lemma take_bit_29_iff: "take_bit 29 (n :: u32) = n \<longleftrightarrow> unat n \<le> 0x1fffffff"
proof
  assume "take_bit 29 n = n"
  then have "take_bit 29 (unat n) = unat n" by (simp only: unsigned_take_bit_eq [symmetric])
  then show "unat n \<le> 0x1fffffff" using take_bit_nat_less_exp [of 29 "unat n"] by simp
qed (rule take_bit_self, simp)

lemma unat_ucast_down:
  "unat (w :: 'b :: len word) < 2 ^ LENGTH('a) \<Longrightarrow> unat (ucast w :: 'a :: len word) = unat w"
  by (simp add: unsigned_ucast_eq take_bit_nat_eq_self)

lemma parse_tag_number_eq_Some:
  "parse_tag_number b s = (Some n, t) \<longleftrightarrow>
     (if take_bit 5 b = 0x1f
      then 0x1f \<le> unat n \<and> take_bit 29 n = n \<and> s = base128_bytes (ucast n) @ t
      else n = ucast (take_bit 5 b) \<and> s = t)"
proof (cases "take_bit 5 b = 0x1f")
  case True
  show ?thesis
  proof
    assume "parse_tag_number b s = (Some n, t)"
    with True obtain w where w: "s = base128_bytes w @ t" "\<not> w > 0x1fffffff" "\<not> w < 0x1f" "n = ucast w"
      by (auto simp: parse_tag_number_def parse_base128_integer_eq_Some split: if_splits)
    then have "unat w \<le> 0x1fffffff" "0x1f \<le> unat w" by (simp_all add: word_less_nat_alt)
    moreover from this have "unat n = unat w" using w(4) by (simp add: unat_ucast_down)
    moreover from this have "ucast n = w" by (intro unat_eqI) simp
    ultimately show "if take_bit 5 b = 0x1f
      then 0x1f \<le> unat n \<and> take_bit 29 n = n \<and> s = base128_bytes (ucast n) @ t
      else n = ucast (take_bit 5 b) \<and> s = t"
      using True w by (simp add: take_bit_29_iff)
  next
    assume "if take_bit 5 b = 0x1f
      then 0x1f \<le> unat n \<and> take_bit 29 n = n \<and> s = base128_bytes (ucast n) @ t
      else n = ucast (take_bit 5 b) \<and> s = t"
    with True have n: "0x1f \<le> unat n" "unat n \<le> 0x1fffffff" "s = base128_bytes (ucast n) @ t"
      by (simp_all add: take_bit_29_iff)
    then have "\<not> (ucast n :: u64) > 0x1fffffff" "\<not> (ucast n :: u64) < 0x1f"
      by (simp_all add: word_less_nat_alt)
    with True n show "parse_tag_number b s = (Some n, t)"
      by (auto simp: parse_tag_number_def parse_base128_integer_eq_Some)
  qed
qed (auto simp: parse_tag_number_def)

lemma unat_take_bit_29: "unat (take_bit 29 (n :: u32)) \<le> 0x1fffffff"
  using take_bit_29_iff [of "take_bit 29 n"] by simp

lemma parse_asn1_tagI:
  assumes "s = b # s'" and "parse_tag_number b s' = (Some n, t)"
    and "tag_leading_bits b OR n = tag" and "valid_tag tag"
  shows "parse_asn1_tag s = (Some tag, t)"
  unfolding parse_asn1_tag_def using assms
  by (auto simp: and_then_def ret_def valid_tag_def)

lemma parse_asn1_tag_eq_Some:
  "parse_asn1_tag s = (Some tag, t) \<longleftrightarrow> valid_tag tag \<and> s = tag_bytes tag @ t"
proof
  assume "parse_asn1_tag s = (Some tag, t)"
  then obtain b s' n where s: "s = b # s'" and tag: "tag = tag_leading_bits b OR n"
    and v: "valid_tag tag" and n: "parse_tag_number b s' = (Some n, t)"
    by (auto simp: parse_asn1_tag_def Let_def valid_tag_def split: if_splits)
  have n29: "take_bit 29 n = n"
    using n take_bit_29_iff [of n] unat_u8_lt [of "take_bit 5 b"]
    by (auto simp: parse_tag_number_eq_Some split: if_splits)
  show "valid_tag tag \<and> s = tag_bytes tag @ t"
  proof (cases "take_bit 5 b = 0x1f")
    case True
    with n tag n29 s v show ?thesis using tag_parts [OF n29, of b] byte_of_parts [of b]
      by (auto simp: tag_bytes_def parse_tag_number_eq_Some word_le_nat_alt)
  next
    case False
    then have nb: "n = ucast (take_bit 5 b)" "s' = t"
      using n by (auto simp: parse_tag_number_eq_Some)
    have "unat (take_bit 5 b) < 32" using take_bit_nat_less_exp [of 5 "unat b"] by (simp add: unsigned_take_bit_eq)
    moreover have "unat (take_bit 5 b) \<noteq> 31"
      using False unat_eqI [of "take_bit 5 b" 31] by auto
    ultimately have "\<not> n \<ge> 0x1f" using nb by (simp add: word_le_nat_alt)
    then show ?thesis using tag_parts [OF n29, of b] byte_of_parts [of b] tag nb s v
      by (simp add: tag_bytes_def)
  qed
next
  assume h: "valid_tag tag \<and> s = tag_bytes tag @ t"
  let ?n = "take_bit 29 tag"
  show "parse_asn1_tag s = (Some tag, t)"
  proof (cases "?n \<ge> 0x1f")
    case True
    then have "parse_tag_number (tag_class tag OR 0x1f) (base128_bytes (ucast ?n) @ t) = (Some ?n, t)"
      unfolding parse_tag_number_eq_Some low_bits_of_first by (simp add: word_le_nat_alt)
    moreover have "tag_leading_bits (tag_class tag OR 0x1f) OR ?n = tag"
      by (rule tag_leading_bits_or) simp
    moreover have "s = (tag_class tag OR 0x1f) # base128_bytes (ucast ?n) @ t"
      using h True by (simp add: tag_bytes_def Let_def)
    ultimately show ?thesis using h by (intro parse_asn1_tagI) auto
  next
    case False
    then have n31: "unat ?n < 31" by (simp add: word_le_nat_alt)
    then have u: "unat (ucast ?n :: u8) = unat ?n" by (simp add: unat_ucast_down)
    have t5: "take_bit 5 (ucast ?n :: u8) = ucast ?n"
      using n31 u by (intro take_bit_self) simp
    have "ucast (ucast ?n :: u8) = ?n" using u by (intro unat_eqI) simp
    moreover have "ucast ?n \<noteq> (0x1f :: u8)" using u n31 by auto
    ultimately have "parse_tag_number (tag_class tag OR ucast ?n) t = (Some ?n, t)"
      unfolding parse_tag_number_eq_Some low_bits_of_first t5 by simp
    moreover have "tag_leading_bits (tag_class tag OR ucast ?n) OR ?n = tag"
      using t5 by (rule tag_leading_bits_or)
    moreover have "s = (tag_class tag OR ucast ?n) # t"
      using h False by (simp add: tag_bytes_def Let_def)
    ultimately show ?thesis using h by (intro parse_asn1_tagI) auto
  qed
qed

interpretation tag: codec_nonempty valid_tag tag_bytes parse_asn1_tag
  by (rule codecI) (auto simp: parse_asn1_tag_eq_Some tag_bytes_def Let_def)


section \<open>Definite lengths\<close>

definition der_length :: "nat \<Rightarrow> bytes" where
  "der_length n =
     (if n > 0xffffff then 0x84 # be_bytes 4 (of_nat n)
      else if n > 0xffff then 0x83 # be_bytes 3 (of_nat n)
      else if n > 0xff then 0x82 # be_bytes 2 (of_nat n)
      else if n > 0x7f then 0x81 # be_bytes 1 (of_nat n)
      else [of_nat n])"

lemma der_length_long:
  assumes "k \<in> {1, 2, 3, 4}" and "128 \<le> n" and "256 ^ (k - 1) \<le> n" and "n < 256 ^ k"
  shows "der_length n = of_nat (128 + k) # be_bytes k (of_nat n)"
  using assms by (auto simp: der_length_def)

lemma der_length_cases:
  assumes "n < 2 ^ 32"
  obtains (short) "n < 128" and "der_length n = [of_nat n]"
  | (long) k where "k \<in> {1, 2, 3, 4}" and "128 \<le> n" and "256 ^ (k - 1) \<le> n" and "n < 256 ^ k"
      and "der_length n = of_nat (128 + k) # be_bytes k (of_nat n)"
proof (cases "n < 128")
  case True
  then show ?thesis using short by (simp add: der_length_def)
next
  case False
  define k :: nat where
    "k = (if n \<le> 0xff then 1 else if n \<le> 0xffff then 2 else if n \<le> 0xffffff then 3 else 4)"
  have k: "k \<in> {1, 2, 3, 4}" "256 ^ (k - 1) \<le> n" "n < 256 ^ k"
    using assms False by (auto simp: k_def)
  show ?thesis using long [OF k(1) _ k(2,3)] der_length_long [OF k(1) _ k(2,3)] False by simp
qed

lemma der_length_nonempty [simp]: "der_length n \<noteq> []"
  by (simp add: der_length_def)

lemma der_length_bound: "length (der_length n) \<le> 5"
  by (simp add: der_length_def)

lemma base128_high_length:
  "unat v < 128 ^ k \<Longrightarrow> length (base128_high v) \<le> k"
proof (induction k arbitrary: v)
  case 0
  then have "v = 0" by (simp add: unat_eq_0)
  then show ?case by simp
next
  case (Suc k)
  have "unat (drop_bit 7 v) = unat v div 128"
    by (subst unat_drop_bit_eq) (simp add: drop_bit_eq_div)
  then have "unat (drop_bit 7 v) < 128 ^ k" using Suc.prems by (simp add: less_mult_imp_div_less mult.commute)
  then have "length (base128_high (drop_bit 7 v)) \<le> k" by (rule Suc.IH)
  then show ?case by (cases "v = 0") (simp_all add: base128_high_step)
qed

lemma tag_bytes_length: "length (tag_bytes tag) \<le> 12"
proof -
  have "unat (drop_bit 7 v) < 128 ^ 10" for v :: u64
    using unat_u64_lt [of "drop_bit 7 v"] by simp
  then have "length (base128_bytes v) \<le> 11" for v
    unfolding base128_bytes_def using base128_high_length by simp
  then show ?thesis by (simp add: tag_bytes_def Let_def)
qed

lemma low_bits_7: "bit b 7 \<Longrightarrow> of_nat (128 + unat (take_bit 7 b)) = (b :: u8)"
proof -
  assume b: "bit b 7"
  have "b = take_bit 7 b + 128"
    using continuation_byte [OF b] disjunctive_add_eq_or [of "take_bit 7 b" 128] 
    by (auto simp: bit_take_bit_iff)
  then show ?thesis by (simp add: add.commute)
qed

lemma first_length_byte:
  assumes "k < 128"
  shows "bit (of_nat (128 + k) :: u8) 7" and "unat (take_bit 7 (of_nat (128 + k) :: u8)) = k"
proof -
  have u: "unat (of_nat (128 + k) :: u8) = 128 + k" using assms by (simp add: unat_of_nat del: of_nat_add)
  show "unat (take_bit 7 (of_nat (128 + k) :: u8)) = k"
    using assms by (subst unsigned_take_bit_eq) (simp only: u, simp add: take_bit_eq_mod)
  show "bit (of_nat (128 + k) :: u8) 7"
    using u unfolding bit_7_iff by simp
qed


section \<open>Definite-length elements\<close>

definition der_header :: "asn1_tag \<Rightarrow> nat \<Rightarrow> bytes" where
  "der_header tag len = tag_bytes tag @ der_length len"

definition der_element :: "asn1_tag \<Rightarrow> bytes \<Rightarrow> bytes" where
  "der_element tag contents = der_header tag (length contents) @ contents"

definition strict_element :: "asn1_tag \<Rightarrow> bytes \<Rightarrow> element" where
  "strict_element tag contents =
     \<lparr>el_bytes = der_element tag contents, el_tag = tag,
      el_header_len = length (der_header tag (length contents)),
      el_ber_found = False, el_indefinite = False\<rparr>"

lemma header_no_overflow:
  assumes "len < 2 ^ 32" and "k \<le> 4"
  shows "\<not> size_add (size_add len (length (tag_bytes tag) + 1)) k < len"
  using assms tag_bytes_length [of tag] by (simp add: SIZE_MAX_def)

lemma parse_length_short [simp]:
  "n < 128 \<Longrightarrow> parse_asn1_length ber tag hl (of_nat n) h = Some (n + hl, hl, False, False)"
  by (simp add: parse_asn1_length_def bit_7_iff unat_of_nat)

lemma parse_length_long:
  assumes "k \<in> {1, 2, 3, 4}" and "128 \<le> n" and "256 ^ (k - 1) \<le> n" and "n < 256 ^ k"
    and "hl \<le> 13"
  shows "parse_asn1_length ber tag hl (of_nat (128 + k)) (be_bytes k (of_nat n) @ t) =
    Some (n + (hl + k), hl + k, False, False)"
proof -
  have k: "k \<le> 8" "k < 128" "k \<noteq> 0" "\<not> k > 4" "k \<le> 4" using assms(1) by auto
  have "n < 2 ^ (8 * k)" using assms(4) by (simp add: power_mult)
  then have w: "drop_bit (8 * k) (of_nat n :: u64) = 0" "unat (of_nat n :: u64) = n"
    using drop_bit_of_nat_small [of n "8 * k"] k by auto
  have "\<not> (of_nat n :: u64) < 128" using assms w by (simp add: word_less_nat_alt)
  moreover have "drop_bit ((k - 1) * 8) (of_nat n :: u64) \<noteq> 0"
  proof
    assume "drop_bit ((k - 1) * 8) (of_nat n :: u64) = 0"
    then have "n < 2 ^ ((k - 1) * 8)" using unat_less_of_drop_bit w by fastforce
    moreover have "(2 :: nat) ^ ((k - 1) * 8) = 256 ^ (k - 1)" by (subst mult.commute) (simp add: power_mult)
    ultimately show False using assms(3) by simp
  qed
  moreover have "(256 :: nat) ^ k \<le> 256 ^ 4" using k by (intro power_increasing) auto
  then have "\<not> size_add (size_add n hl) k < n"
    using assms(4,5) k by (simp add: SIZE_MAX_def)
  moreover note w k first_length_byte [OF k(2)]
  ultimately show ?thesis
    by (simp add: parse_asn1_length_def Let_def del: of_nat_add)
qed

lemma parse_length_complete:
  assumes "n < 2 ^ 32" and "hl \<le> 13"
  shows "\<exists>b bs. der_length n = b # bs \<and>
    parse_asn1_length ber tag hl b (bs @ t) = Some (n + (hl + length bs), hl + length bs, False, False)"
  using assms(1)
  by (cases rule: der_length_cases) (simp_all add: parse_length_long assms(2) del: of_nat_add)

lemma parse_length_sound:
  assumes "parse_asn1_length False tag hl b h = Some (len, hl', ber, ind)"
    and "len \<le> hl + length h"
  shows "\<exists>n bs h'. n < 2 ^ 32 \<and> der_length n = b # bs \<and> h = bs @ h' \<and>
    len = n + (hl + length bs) \<and> hl' = hl + length bs \<and> \<not> ber \<and> \<not> ind"
proof (cases "bit b 7")
  case False
  then have "der_length (unat b) = [b]" by (simp add: der_length_def bit_7_iff)
  with False assms show ?thesis using unat_u8_lt [of b]
    by (intro exI [of _ "unat b"]) (auto simp: parse_asn1_length_def)
next
  case True
  define k where "k = unat (take_bit 7 b)"
  have p: "parse_asn1_length False tag hl b h =
    (if k = 0 \<or> k > 4 then None
     else case cbs_get_u k h of (None, _) \<Rightarrow> None | (Some len64, _) \<Rightarrow>
       if len64 < 128 then None
       else if drop_bit ((k - 1) * 8) len64 = 0 then None
       else if size_add (size_add (unat len64) hl) k < unat len64 then None
       else Some (unat len64 + (hl + k), hl + k,
                  len64 < 128 \<or> drop_bit ((k - 1) * 8) len64 = 0, False))"
    using True unfolding parse_asn1_length_def Let_def k_def and_0x7f not_False_eq_True simp_thms by simp
  have k: "k \<noteq> 0" "k \<le> 4" using assms(1) unfolding p by (simp_all split: if_splits)
  obtain o' h' where c: "cbs_get_u k h = (o', h')" by (cases "cbs_get_u k h")
  obtain w where "o' = Some w" using assms(1) k unfolding p c by (cases o') simp_all
  then have g: "cbs_get_u k h = (Some w, h')" using c by simp
  have w: "\<not> w < 128" "drop_bit ((k - 1) * 8) w \<noteq> 0"
    and r: "len = unat w + (hl + k)" "hl' = hl + k" "\<not> ber" "\<not> ind"
    using assms(1) k unfolding p g by (simp_all split: if_splits)
  from g k have d: "drop_bit (8 * k) w = 0" and h: "h = be_bytes k w @ h'"
    by (simp_all add: cbs_get_u_eq_Some)
  have lo: "256 ^ (k - 1) \<le> unat w"
  proof (rule ccontr)
    assume "\<not> 256 ^ (k - 1) \<le> unat w"
    then have "unat w < 2 ^ ((k - 1) * 8)" by (subst mult.commute) (simp add: power_mult)
    then have "drop_bit ((k - 1) * 8) (unat w) = 0" by (simp add: drop_bit_eq_div)
    then have "unat (drop_bit ((k - 1) * 8) w) = 0" by (simp only: unat_drop_bit_eq)
    with w(2) show False by (simp add: unat_eq_0)
  qed
  have hi: "unat w < 256 ^ k" using unat_less_of_drop_bit [OF d] by (simp add: power_mult)
  have "(256 :: nat) ^ k \<le> 256 ^ 4" using k by (intro power_increasing) auto
  with hi have small: "unat w < 2 ^ 32" by simp
  have "k \<in> {1, 2, 3, 4}" using k by auto
  then have "der_length (unat w) = of_nat (128 + k) # be_bytes k w"
    using der_length_long [OF _ _ lo hi] w(1) by (simp add: word_less_nat_alt)
  moreover have "of_nat (128 + k) = b" unfolding k_def by (rule low_bits_7 [OF True])
  ultimately show ?thesis using small r h
    by (intro exI [of _ "unat w"] exI [of _ "be_bytes k w"] exI [of _ h']) simp
qed

lemma element_eq_Some:
  "cbs_get_any_asn1_element ber s = (Some el, t) \<longleftrightarrow>
    (\<exists>b h len. parse_asn1_tag s = (Some (el_tag el), b # h) \<and>
      parse_asn1_length ber (el_tag el) (length s - length h) b h =
        Some (len, el_header_len el, el_ber_found el, el_indefinite el) \<and>
      el_bytes el = take len s \<and> t = drop len s \<and> len \<le> length s)"
proof (cases "parse_asn1_tag s")
  case (Pair r header)
  show ?thesis
  proof (cases "\<exists>tag b h. r = Some tag \<and> header = b # h")
    case False
    then have "fst (cbs_get_any_asn1_element ber s) = None"
      by (cases r; cases header) (simp_all add: cbs_get_any_asn1_element_def Pair)
    then have "cbs_get_any_asn1_element ber s \<noteq> (Some el, t)" by (metis fst_conv option.distinct(1))
    with False show ?thesis unfolding Pair by blast
  next
    case True
    then obtain tag b h where r: "r = Some tag" and hd: "header = b # h" by blast
    show ?thesis
    proof (cases "parse_asn1_length ber tag (length s - length h) b h")
      case None
      then show ?thesis
        by (auto simp: cbs_get_any_asn1_element_def Pair r hd CBS_len_def)
    next
      case (Some q)
      obtain len hl ber_found ind where q: "q = (len, hl, ber_found, ind)" by (cases q)
      have "cbs_get_any_asn1_element ber s =
        and_then (CBS_get_bytes len) (\<lambda>out. ret \<lparr>el_bytes = out, el_tag = tag, el_header_len = hl,
          el_ber_found = ber_found, el_indefinite = ind\<rparr>) s"
        using Some by (simp add: cbs_get_any_asn1_element_def Pair r hd q CBS_len_def)
      moreover have "\<And>p. s = p @ t \<Longrightarrow> take (length p) s = p" by simp
      moreover have "len \<le> length s \<Longrightarrow> s = take len s @ drop len s" by simp
      ultimately show ?thesis using Some
        unfolding Pair r hd by (cases el) (auto simp: q CBS_get_bytes_eq_Some)
    qed
  qed
qed

lemma strict_element_complete:
  assumes "valid_tag tag" and "length c < 2 ^ 32"
  shows "cbs_get_any_asn1_element False (der_element tag c @ t) = (Some (strict_element tag c), t)"
proof -
  from parse_length_complete [OF assms(2), of "length (tag_bytes tag) + 1" False tag "c @ t"]
  obtain b bs where b: "der_length (length c) = b # bs"
    "parse_asn1_length False tag (length (tag_bytes tag) + 1) b (bs @ c @ t) =
      Some (length c + (length (tag_bytes tag) + 1 + length bs), length (tag_bytes tag) + 1 + length bs, False, False)"
    using tag_bytes_length [of tag] by auto
  show ?thesis
    unfolding element_eq_Some
    using b assms(1)
    by (intro exI [of _ b] exI [of _ "bs @ c @ t"] exI [of _ "length (der_element tag c)"])
      (simp add: strict_element_def der_element_def der_header_def parse_asn1_tag_eq_Some)
qed

lemma strict_element_sound:
  assumes "cbs_get_any_asn1_element False s = (Some el, t)"
  shows "\<exists>tag c. valid_tag tag \<and> length c < 2 ^ 32 \<and> s = der_element tag c @ t \<and> el = strict_element tag c"
proof -
  from assms obtain b h len where tag: "parse_asn1_tag s = (Some (el_tag el), b # h)"
    and len: "parse_asn1_length False (el_tag el) (length s - length h) b h =
        Some (len, el_header_len el, el_ber_found el, el_indefinite el)"
    and el: "el_bytes el = take len s" "t = drop len s" "len \<le> length s"
    unfolding element_eq_Some by blast
  let ?tag = "el_tag el"
  have vt: "valid_tag ?tag" and s: "s = tag_bytes ?tag @ b # h"
    using tag by (simp_all add: parse_asn1_tag_eq_Some)
  then have hl: "length s - length h = length (tag_bytes ?tag) + 1" by simp
  obtain n bs h' where n: "n < 2 ^ 32" "der_length n = b # bs" "h = bs @ h'"
    "len = n + (length (tag_bytes ?tag) + 1 + length bs)"
    "el_header_len el = length (tag_bytes ?tag) + 1 + length bs" "\<not> el_ber_found el" "\<not> el_indefinite el"
    using parse_length_sound [OF len [unfolded hl]] el(3) s by auto
  have nl: "n \<le> length h'" using el(3) s n by simp
  have c: "length (take n h') = n" using nl by simp
  have "s = der_element ?tag (take n h') @ t"
    using s n el nl by (simp add: der_element_def der_header_def)
  moreover have "el = strict_element ?tag (take n h')"
    using s n el nl by (cases el) (simp add: strict_element_def der_element_def der_header_def)
  ultimately show ?thesis using vt n(1) c by (intro exI [of _ ?tag] exI [of _ "take n h'"]) simp
qed

lemma CBS_get_any_asn1_element_eq_Some:
  "CBS_get_any_asn1_element s = (Some el, t) \<longleftrightarrow>
    (\<exists>tag c. valid_tag tag \<and> length c < 2 ^ 32 \<and> s = der_element tag c @ t \<and> el = strict_element tag c)"
  using strict_element_sound strict_element_complete
  unfolding CBS_get_any_asn1_element_def by blast

end
