(* ===== verification/Der_Values.thy ===== *)
theory Der_Values
  imports Der_Elements
begin

text \<open>
  The typed getters of \<open>cbs.c\<close> against what DER means: an INTEGER denotes the signed
  value of its contents and has exactly one encoding, a BOOLEAN is \<open>00\<close> or \<open>ff\<close>, an
  optional field is consumed if and only if its tag comes next, a BIT STRING has no
  one-bits in its unused tail.
\<close>

section \<open>Elements with a known tag\<close>

lemma der_element_length: "length (der_header tag (length c)) \<le> length (der_element tag c)"
  by (simp add: der_element_def)

lemma drop_header [simp]: "drop (length (der_header tag (length c))) (der_element tag c) = c"
  by (simp add: der_element_def)

lemma skip_header [simp]:
  "CBS_skip (el_header_len (strict_element tag c)) (el_bytes (strict_element tag c)) = (Some (), c)"
  by (simp add: strict_element_def CBS_skip_eq_Some der_element_def)

lemma strict_element_sel [simp]:
  "el_tag (strict_element tag c) = tag" "el_bytes (strict_element tag c) = der_element tag c"
  by (simp_all add: strict_element_def)

lemma and_then_any_asn1_element:
  "and_then CBS_get_any_asn1_element f s = (Some y, u) \<longleftrightarrow>
    (\<exists>tag c t. valid_tag tag \<and> length c < 2 ^ 32 \<and> s = der_element tag c @ t \<and>
      f (strict_element tag c) t = (Some y, u))"
  unfolding and_then_eq_Some CBS_get_any_asn1_element_eq_Some by blast

lemma skip_header_case:
  "(case CBS_skip (el_header_len (strict_element tag c)) (der_element tag c) of
      (None, _) \<Rightarrow> fail | (Some _, out) \<Rightarrow> g out) = g c"
  by (subst skip_header [unfolded strict_element_sel]) simp

lemma CBS_get_any_asn1_eq_Some:
  "CBS_get_any_asn1 s = (Some (c, tag), t) \<longleftrightarrow>
     valid_tag tag \<and> length c < 2 ^ 32 \<and> s = der_element tag c @ t"
  unfolding CBS_get_any_asn1_def and_then_any_asn1_element strict_element_sel skip_header_case ret_eq_Some
  by auto

definition valid_element :: "asn1_tag \<Rightarrow> bytes \<Rightarrow> bool" where
  "valid_element tag c \<longleftrightarrow> valid_tag tag \<and> length c < 2 ^ 32"

lemma CBS_get_asn1_eq_Some:
  "CBS_get_asn1 tag s = (Some c, t) \<longleftrightarrow> valid_element tag c \<and> s = der_element tag c @ t"
proof -
  have "CBS_get_asn1 tag s = (Some c, t) \<longleftrightarrow> (\<exists>tag' c' t'. valid_tag tag' \<and> length c' < 2 ^ 32 \<and>
      s = der_element tag' c' @ t' \<and> tag' = tag \<and> c = c' \<and> t = t')"
    unfolding CBS_get_asn1_def cbs_get_asn1_def and_then_any_asn1_element strict_element_sel skip_header_case
    by (intro ex_cong1 conj_cong refl) (simp split: if_splits)
  then show ?thesis by (auto simp: valid_element_def)
qed

interpretation asn1: codec_nonempty "valid_element tag" "der_element tag" "CBS_get_asn1 tag" for tag
proof
  show "CBS_get_asn1 tag (der_element tag c @ s) = (Some c, s)" if "valid_element tag c" for c s
    using that by (simp add: CBS_get_asn1_eq_Some)
  show "valid_element tag c \<and> s = der_element tag c @ t" if "CBS_get_asn1 tag s = (Some c, t)" for s c t
    using that by (simp add: CBS_get_asn1_eq_Some)
  show "der_element tag c \<noteq> []" if "valid_element tag c" for c
    using that tag.enc_nonempty by (auto simp: der_element_def der_header_def valid_element_def)
qed

lemma CBS_get_asn1_element_eq_Some:
  "CBS_get_asn1_element tag s = (Some e, t) \<longleftrightarrow>
    (\<exists>c. valid_element tag c \<and> e = der_element tag c \<and> s = e @ t)"
proof -
  have "CBS_get_asn1_element tag s = (Some e, t) \<longleftrightarrow> (\<exists>tag' c' t'. valid_tag tag' \<and> length c' < 2 ^ 32 \<and>
      s = der_element tag' c' @ t' \<and> tag' = tag \<and> e = der_element tag' c' \<and> t = t')"
    unfolding CBS_get_asn1_element_def cbs_get_asn1_def and_then_any_asn1_element strict_element_sel
    by (intro ex_cong1 conj_cong refl) (simp split: if_splits)
  then show ?thesis by (auto simp: valid_element_def)
qed

section \<open>Integers\<close>

definition signed_of_be :: "bytes \<Rightarrow> int" where
  "signed_of_be bs = int (nat_of_be bs) - (if bs \<noteq> [] \<and> bit (hd bs) 7 then 256 ^ length bs else 0)"

definition minimal_integer :: "bytes \<Rightarrow> bool" where
  "minimal_integer bs \<longleftrightarrow> CBS_is_valid_asn1_integer bs \<noteq> None"

lemma nat_of_be_Cons: "nat_of_be (b # bs) = unat b * 256 ^ length bs + nat_of_be bs"
proof (induction bs rule: rev_induct)
  case Nil
  then show ?case by (simp add: nat_of_be_def)
next
  case (snoc x bs)
  have "nat_of_be (b # bs @ [x]) = nat_of_be (b # bs) * 256 + unat x"
    using nat_of_be_snoc [of "b # bs" x] by simp
  then show ?case using snoc by (simp add: algebra_simps)
qed

lemma int_nat_of_be_bound: "int (nat_of_be bs) < 256 ^ length bs"
proof -
  have "int (nat_of_be bs) < int (256 ^ length bs)"
    using nat_of_be_bound [of bs] by (simp only: of_nat_less_iff)
  then show ?thesis by simp
qed

lemma nat_of_be_inject:
  assumes "length bs = length cs" and "nat_of_be bs = nat_of_be cs"
  shows "bs = cs"
  using assms
proof (induction bs arbitrary: cs rule: rev_induct)
  case Nil
  then show ?case by simp
next
  case (snoc b bs)
  then obtain ds d where cs: "cs = ds @ [d]" by (metis length_0_conv neq_Nil_conv rev_exhaust snoc_eq_iff_butlast)
  have e: "nat_of_be bs * 256 + unat b = nat_of_be ds * 256 + unat d" using snoc.prems by (simp add: cs)
  then have 1: "nat_of_be bs = nat_of_be ds"
    using unat_u8_lt [of b] unat_u8_lt [of d] by linarith
  with e have "unat b = unat d" by simp
  with 1 show ?case using snoc cs by (simp add: unat_eqI)
qed

lemma valid_asn1_integer_cases:
  "CBS_is_valid_asn1_integer [] = None"
  "CBS_is_valid_asn1_integer [b] = Some (bit b 7)"
  "CBS_is_valid_asn1_integer (b # c # bs) =
    (if b = 0 \<and> \<not> bit c 7 \<or> b = 0xff \<and> bit c 7 then None else Some (bit b 7))"
  by (simp_all add: CBS_is_valid_asn1_integer_def Let_def)

lemma valid_asn1_integer_sign:
  "CBS_is_valid_asn1_integer bs = Some neg \<longleftrightarrow> minimal_integer bs \<and> bs \<noteq> [] \<and> neg = bit (hd bs) 7"
  by (cases bs rule: remdups_adj.cases)
    (auto simp: minimal_integer_def valid_asn1_integer_cases simp del: bit_7_iff)

lemma signed_of_be_Cons:
  "signed_of_be (b # bs) = (int (unat b) - (if bit b 7 then 256 else 0)) * 256 ^ length bs + int (nat_of_be bs)"
  by (simp add: signed_of_be_def nat_of_be_Cons algebra_simps)

text \<open>The range of the integers with \<open>n\<close> minimal octets.\<close>

lemma signed_of_be_range:
  assumes "bs \<noteq> []"
  shows "- (128 * 256 ^ (length bs - 1)) \<le> signed_of_be bs" and "signed_of_be bs < 128 * 256 ^ (length bs - 1)"
proof -
  obtain b cs where bs: "bs = b # cs" using assms by (cases bs) auto
  define k where "k = int (unat b) - (if bit b 7 then 256 else 0)"
  define P where "P = (256 :: int) ^ length cs"
  have k: "- 128 \<le> k" "k + 1 \<le> 128" using unat_u8_lt [of b] by (auto simp: k_def bit_7_iff simp del: of_nat_unat)
  have P: "0 < P" "int (nat_of_be cs) < P" using int_nat_of_be_bound [of cs] by (simp_all add: P_def)
  have v: "signed_of_be bs = k * P + int (nat_of_be cs)" by (simp add: bs signed_of_be_Cons k_def P_def)
  have "- 128 * P \<le> k * P" "(k + 1) * P \<le> 128 * P" using k P(1) by (intro mult_right_mono; simp)+
  moreover have "(k + 1) * P = k * P + P" by (simp add: algebra_simps)
  moreover have "256 ^ (length bs - 1) = P" by (simp add: bs P_def)
  ultimately show "- (128 * 256 ^ (length bs - 1)) \<le> signed_of_be bs" "signed_of_be bs < 128 * 256 ^ (length bs - 1)"
    using v P by linarith+
qed

lemma minimal_integer_range:
  assumes "minimal_integer bs" and "2 \<le> length bs"
  shows "signed_of_be bs < - (128 * 256 ^ (length bs - 2)) \<or> 128 * 256 ^ (length bs - 2) \<le> signed_of_be bs"
proof -
  obtain b c cs where bs: "bs = b # c # cs" using assms(2) by (cases bs rule: remdups_adj.cases) auto
  define k where "k = int (unat b) - (if bit b 7 then 256 else 0)"
  define P where "P = (256 :: int) ^ length cs"
  define r where "r = int (nat_of_be (c # cs))"
  have P: "0 < P" by (simp add: P_def)
  have r: "0 \<le> r" "r < 256 * P" using int_nat_of_be_bound [of "c # cs"] by (simp_all add: P_def r_def)
  have v: "signed_of_be bs = k * 256 * P + r" by (simp add: bs signed_of_be_Cons k_def P_def r_def)
  have rc: "r = int (unat c) * P + int (nat_of_be cs)" by (simp add: r_def nat_of_be_Cons P_def)
  have top: "bit c 7 \<longleftrightarrow> 128 * P \<le> r"
  proof
    assume "bit c 7"
    then have "128 * P \<le> int (unat c) * P" using P by (intro mult_right_mono) (simp_all add: bit_7_iff del: of_nat_unat)
    then show "128 * P \<le> r" using rc by simp
  next
    assume h: "128 * P \<le> r"
    show "bit c 7"
    proof (rule ccontr)
      assume "\<not> bit c 7"
      then have "(int (unat c) + 1) * P \<le> 128 * P" using P by (intro mult_right_mono) (simp_all add: bit_7_iff del: of_nat_unat)
      moreover have "int (nat_of_be cs) < P" using int_nat_of_be_bound [of cs] by (simp add: P_def)
      moreover have "(int (unat c) + 1) * P = int (unat c) * P + P" by (simp only: algebra_simps)
      ultimately show False using h rc by linarith
    qed
  qed
  have b: "b = 0 \<longleftrightarrow> k = 0" "b = 0xff \<longleftrightarrow> k = - 1"
    using unat_u8_lt [of b] by (auto simp: k_def bit_7_iff unat_eq_0 intro!: unat_eqI split: if_splits simp del: of_nat_unat)
  have "\<not> (k = 0 \<and> r < 128 * P)" "\<not> (k = - 1 \<and> 128 * P \<le> r)"
    using assms(1) top b by (auto simp: minimal_integer_def bs valid_asn1_integer_cases split: if_splits)
  moreover have "1 \<le> k \<Longrightarrow> 1 * (256 * P) \<le> k * (256 * P)" "k \<le> - 2 \<Longrightarrow> k * (256 * P) \<le> - 2 * (256 * P)"
    using P by (intro mult_right_mono; simp)+
  moreover have "k = 0 \<Longrightarrow> signed_of_be bs = r" "k = - 1 \<Longrightarrow> signed_of_be bs = r - 256 * P"
    "signed_of_be bs = k * (256 * P) + r" using v by simp_all
  moreover have "k = 0 \<or> k = - 1 \<or> 1 \<le> k \<or> k \<le> - 2" by linarith
  moreover have "256 ^ (length bs - 2) = P" by (simp add: bs P_def)
  ultimately show ?thesis using r P by linarith
qed

text \<open>An integer has only one minimal encoding.\<close>

lemma minimal_integer_unique:
  assumes "minimal_integer bs" "minimal_integer cs" "signed_of_be bs = signed_of_be cs"
  shows "bs = cs"
proof -
  have len: "length y \<le> length x" if "minimal_integer x" "minimal_integer y" "signed_of_be x = signed_of_be y" for x y
  proof (rule ccontr)
    assume "\<not> length y \<le> length x"
    moreover have "x \<noteq> []" using that(1) by (auto simp: minimal_integer_def valid_asn1_integer_cases)
    ultimately have l: "length x - 1 \<le> length y - 2" "2 \<le> length y" "x \<noteq> []" by (cases x; auto)+
    then have "(256 :: int) ^ (length x - 1) \<le> 256 ^ (length y - 2)" by (intro power_increasing) auto
    then show False
      using signed_of_be_range [OF l(3)] minimal_integer_range [OF that(2) l(2)] that(3) by linarith
  qed
  have l: "length bs = length cs" using len [OF assms] len [OF assms(2,1) assms(3) [symmetric]] by simp
  have "int (nat_of_be bs) = int (nat_of_be cs)"
  proof -
    define P where "P = (256 :: int) ^ length cs"
    have "0 \<le> int (nat_of_be bs)" "int (nat_of_be bs) < P" "0 \<le> int (nat_of_be cs)" "int (nat_of_be cs) < P"
      using int_nat_of_be_bound [of bs] int_nat_of_be_bound [of cs] by (simp_all add: P_def l)
    then show ?thesis using assms(3) by (auto simp: signed_of_be_def l P_def [symmetric] split: if_splits)
  qed
  then show ?thesis using nat_of_be_inject [OF l] by simp
qed

text \<open>The shortest octets in two's complement with their value.\<close>

definition shortest_integer :: "bytes \<Rightarrow> bool" where
  "shortest_integer bs \<longleftrightarrow>
     bs \<noteq> [] \<and> (\<forall>cs. cs \<noteq> [] \<and> signed_of_be cs = signed_of_be bs \<longrightarrow> length bs \<le> length cs)"

lemma minimal_integer_shortest: "minimal_integer bs \<longleftrightarrow> shortest_integer bs"
proof
  assume m: "minimal_integer bs"
  have "length bs \<le> length cs" if cs: "cs \<noteq> []" "signed_of_be cs = signed_of_be bs" for cs
  proof (rule ccontr)
    assume "\<not> length bs \<le> length cs"
    then have l: "length cs - 1 \<le> length bs - 2" "2 \<le> length bs" using cs(1) by (cases cs; auto)+
    then have "(256 :: int) ^ (length cs - 1) \<le> 256 ^ (length bs - 2)" by (intro power_increasing) auto
    then show False
      using signed_of_be_range [OF cs(1)] minimal_integer_range [OF m l(2)] cs(2) by linarith
  qed
  moreover have "bs \<noteq> []" using m by (auto simp: minimal_integer_def valid_asn1_integer_cases)
  ultimately show "shortest_integer bs" by (simp add: shortest_integer_def)
next
  assume s: "shortest_integer bs"
  show "minimal_integer bs"
  proof (rule ccontr)
    assume "\<not> minimal_integer bs"
    then obtain b c cs where bs: "bs = b # c # cs" and r: "b = 0 \<and> \<not> bit c 7 \<or> b = 0xff \<and> bit c 7"
      using s by (cases bs rule: remdups_adj.cases)
        (auto simp: shortest_integer_def minimal_integer_def valid_asn1_integer_cases split: if_splits)
    have "signed_of_be (c # cs) = signed_of_be bs"
    proof -
      have "unat (0xff :: u8) = 255" by simp
      then have "int (unat b) - (if bit b 7 then 256 else 0) = (if bit c 7 then - 1 else 0)"
        using r by (auto simp: bit_7_iff)
      then show ?thesis by (simp add: bs signed_of_be_Cons nat_of_be_Cons algebra_simps del: bit_7_iff)
    qed
    then show False using s unfolding shortest_integer_def by (metis bs impossible_Cons le_refl list.distinct(1))
  qed
qed

lemma nonneg_iff: "bs \<noteq> [] \<Longrightarrow> 0 \<le> signed_of_be bs \<longleftrightarrow> \<not> bit (hd bs) 7"
  using int_nat_of_be_bound [of bs] by (auto simp: signed_of_be_def simp del: bit_7_iff)

lemma uint64_loop_eq:
  "uint64_loop r bs = (let n = unat r * 256 ^ length bs + nat_of_be bs in
     if n < 2 ^ 64 then Some (of_nat n) else None)"
proof (induction bs arbitrary: r)
  case Nil
  then show ?case using unat_u64_lt [of r] by (simp add: Let_def)
next
  case (Cons b bs)
  have eq: "(unat r * 256 + unat b) * 256 ^ length bs + nat_of_be bs = unat r * 256 ^ length (b # bs) + nat_of_be (b # bs)"
    by (simp add: nat_of_be_Cons algebra_simps)
  show ?case
  proof (cases "drop_bit 56 r = 0")
    case True
    then have "unat r < 2 ^ 56" using unat_less_of_drop_bit by blast
    then have "unat (push_bit 8 r OR ucast b) = unat r * 256 + unat b" by (rule unat_byte_step)
    with True eq show ?thesis by (simp add: Cons.IH)
  next
    case False
    have "2 ^ 56 \<le> unat r"
    proof (rule ccontr)
      assume "\<not> 2 ^ 56 \<le> unat r"
      then have "drop_bit 56 (unat r) = 0" by (simp add: drop_bit_eq_div)
      then have "unat (drop_bit 56 r) = 0" by (simp only: unat_drop_bit_eq)
      with False show False by (simp add: unat_eq_0)
    qed
    then have "2 ^ 56 * 256 \<le> unat r * (256 * 256 ^ length bs)" by (intro mult_mono) auto
    then have "\<not> unat r * 256 ^ length (b # bs) + nat_of_be (b # bs) < 2 ^ 64" by simp
    with False show ?thesis by (simp only: uint64_loop.simps if_True simp_thms) (simp add: Let_def)
  qed
qed


lemma nat_of_be_replicate_0: "nat_of_be (replicate k 0 @ bs) = nat_of_be bs"
  by (induction k) (simp_all add: nat_of_be_Cons)

lemma nat_of_be_replicate_ff:
  "int (nat_of_be (replicate k 0xff @ bs)) = 256 ^ (k + length bs) - 256 ^ length bs + int (nat_of_be bs)"
proof (induction k)
  case (Suc k)
  have "nat_of_be (replicate (Suc k) 0xff @ bs) = 255 * 256 ^ (k + length bs) + nat_of_be (replicate k 0xff @ bs)"
    by (simp add: nat_of_be_Cons)
  then show ?case using Suc by simp
qed simp

lemma sint_u64: "sint (w :: u64) = int (unat w) - (if 2 ^ 63 \<le> unat w then 2 ^ 64 else 0)"
proof -
  define k where "k = int (unat w)"
  have "int (unat w) < int (2 ^ 64)" using unat_u64_lt [of w] by (simp only: of_nat_less_iff)
  then have k: "0 \<le> k" "k < 2 ^ 64" by (simp_all add: k_def)
  have b: "bit k 63 \<longleftrightarrow> 2 ^ 63 \<le> k"
  proof -
    have "k div 2 ^ 63 \<le> 1" using zdiv_mono1 [of k "2 ^ 64 - 1" "2 ^ 63"] k by simp
    moreover have "0 \<le> k div 2 ^ 63" using k by simp
    ultimately have "k div 2 ^ 63 = 0 \<or> k div 2 ^ 63 = 1" by linarith
    then have "odd (k div 2 ^ 63) \<longleftrightarrow> 1 \<le> k div 2 ^ 63" by auto
    then show ?thesis using le_div_iff_mult_le_int [of "2 ^ 63" 1 k] by (simp add: bit_iff_odd)
  qed
  have "sint w = signed_take_bit 63 k"
    by (simp add: sint_uint k_def)
  also have "\<dots> = take_bit 64 k - 2 ^ 64 * of_bool (bit k 63)"
    using signed_take_bit_eq_take_bit_minus [of 63 k] by simp
  also have "take_bit 64 k = k" using k by (simp add: take_bit_int_eq_self)
  finally have "sint w = k - (if 2 ^ 63 \<le> k then 2 ^ 64 else 0)" unfolding b by simp
  moreover have "(2 ^ 63 \<le> k) = (2 ^ 63 \<le> unat w)"
    by (simp only: k_def of_nat_le_iff [symmetric, where 'a = int] of_nat_power of_nat_numeral)
  ultimately show ?thesis by (simp only: k_def)
qed

lemma int64_value:
  assumes "bs \<noteq> []" and "length bs \<le> 8"
  shows "sint (load_le64 (sign_extend_bytes (bit (hd bs) 7) bs)) = signed_of_be bs"
proof -
  define k where "k = 8 - length bs"
  define neg where "neg = bit (hd bs) 7"
  have l: "k + length bs = 8" using assms(2) by (simp add: k_def)
  define ext :: bytes where "ext = replicate k (if neg then 0xff else 0) @ bs"
  have "length ext = 8" using l by (simp add: ext_def)
  then have u: "unat (load_le64 (sign_extend_bytes neg bs)) = nat_of_be ext"
    by (simp add: load_le64_def sign_extend_bytes_def ext_def k_def unat_be_fold)
  have e: "int (nat_of_be ext) = (if neg then 2 ^ 64 - 256 ^ length bs else 0) + int (nat_of_be bs)"
    using nat_of_be_replicate_ff [of k bs] nat_of_be_replicate_0 [of k bs] by (simp add: ext_def l)
  obtain b cs where bs: "bs = b # cs" using assms(1) by (cases bs) auto
  define P where "P = (256 :: int) ^ length cs"
  have P: "0 < P" "256 ^ length bs = 256 * P" "P \<le> 256 ^ 7"
    using assms(2) power_increasing [of "length cs" 7 "256 :: int"] by (simp_all add: P_def bs)
  have r: "neg \<longleftrightarrow> \<not> 0 \<le> signed_of_be bs" "- (128 * P) \<le> signed_of_be bs" "signed_of_be bs < 128 * P"
    using nonneg_iff [OF assms(1)] signed_of_be_range [OF assms(1)] by (simp_all add: neg_def P_def bs)
  have s: "signed_of_be bs = int (nat_of_be bs) - (if neg then 256 * P else 0)"
    using assms(1) P(2) by (simp add: signed_of_be_def neg_def)
  have "(2 ^ 63 \<le> nat_of_be ext) = (2 ^ 63 \<le> int (nat_of_be ext))"
    by (simp only: of_nat_le_iff [symmetric, where 'a = int] of_nat_power of_nat_numeral)
  also have "\<dots> = neg"
  proof (cases neg)
    case True
    then have "int (nat_of_be ext) = 2 ^ 64 + signed_of_be bs" using e s P(2) by simp
    then show ?thesis using True r P(3) by simp
  next
    case False
    then have "int (nat_of_be ext) = signed_of_be bs" using e s by simp
    then show ?thesis using False r P(3) by simp
  qed
  finally have big: "(2 ^ 63 \<le> nat_of_be ext) = neg" .
  have "int (nat_of_be ext) - (if neg then 2 ^ 64 else 0) = signed_of_be bs"
    using e s P(2) by (cases neg) simp_all
  then show ?thesis unfolding sint_u64 neg_def [symmetric] u big .
qed


lemma minimal_small:
  assumes "minimal_integer bs" and "- (2 ^ 63) \<le> signed_of_be bs" and "signed_of_be bs < 2 ^ 63"
  shows "length bs \<le> 8"
proof (rule ccontr)
  assume c: "\<not> length bs \<le> 8"
  then have "(256 :: int) ^ 7 \<le> 256 ^ (length bs - 2)" by (intro power_increasing) auto
  then show False using minimal_integer_range [OF assms(1)] c assms(2,3) by simp
qed

lemma unsigned_asn1_integer_iff:
  "CBS_is_unsigned_asn1_integer bs \<longleftrightarrow> minimal_integer bs \<and> 0 \<le> signed_of_be bs"
proof (cases "bs = []")
  case False
  then show ?thesis
    by (auto simp: CBS_is_unsigned_asn1_integer_def valid_asn1_integer_sign nonneg_iff simp del: bit_7_iff)
qed (simp add: CBS_is_unsigned_asn1_integer_def minimal_integer_def valid_asn1_integer_cases)

lemma CBS_get_asn1_uint64_eq_Some:
  "CBS_get_asn1_uint64 s = (Some w, t) \<longleftrightarrow>
    (\<exists>bs. valid_element CBS_ASN1_INTEGER bs \<and> s = der_element CBS_ASN1_INTEGER bs @ t \<and>
      minimal_integer bs \<and> signed_of_be bs = int (unat w))"
proof -
  have step: "(if \<not> CBS_is_unsigned_asn1_integer bs then fail
      else case uint64_loop 0 bs of None \<Rightarrow> fail | Some out \<Rightarrow> ret out) u = (Some w, t) \<longleftrightarrow>
    u = t \<and> minimal_integer bs \<and> signed_of_be bs = int (unat w)" for bs and u :: cbs
  proof (cases "minimal_integer bs \<and> 0 \<le> signed_of_be bs")
    case False
    then show ?thesis by (auto simp: unsigned_asn1_integer_iff)
  next
    case True
    then have "bs \<noteq> []" by (auto simp: minimal_integer_def valid_asn1_integer_cases)
    then have v: "signed_of_be bs = int (nat_of_be bs)"
      using True nonneg_iff by (simp add: signed_of_be_def)
    have w: "nat_of_be bs = unat w \<longleftrightarrow> nat_of_be bs < 2 ^ 64 \<and> w = of_nat (nat_of_be bs)"
      using unat_u64_lt [of w] by (auto simp: unat_of_nat take_bit_nat_eq_self intro!: unat_eqI)
    have "(if \<not> CBS_is_unsigned_asn1_integer bs then fail
        else case uint64_loop 0 bs of None \<Rightarrow> fail | Some out \<Rightarrow> ret out) u =
      (if nat_of_be bs < 2 ^ 64 then ret (of_nat (nat_of_be bs)) u else (fail :: (cbs, u64) action) u)"
      using True by (simp add: unsigned_asn1_integer_iff uint64_loop_eq Let_def)
    then show ?thesis using True w by (simp only: v of_nat_eq_iff simp_thms split: if_splits) auto
  qed
  show ?thesis
    unfolding CBS_get_asn1_uint64_def and_then_eq_Some CBS_get_asn1_eq_Some step by blast
qed

lemma CBS_get_asn1_int64_eq_Some:
  "CBS_get_asn1_int64 s = (Some w, t) \<longleftrightarrow>
    (\<exists>bs. valid_element CBS_ASN1_INTEGER bs \<and> s = der_element CBS_ASN1_INTEGER bs @ t \<and>
      minimal_integer bs \<and> signed_of_be bs = sint w)"
proof -
  have step: "(case CBS_is_valid_asn1_integer bs of None \<Rightarrow> fail | Some is_negative \<Rightarrow>
        if CBS_len bs > 8 then fail else ret (load_le64 (sign_extend_bytes is_negative bs))) u = (Some w, t) \<longleftrightarrow>
    u = t \<and> minimal_integer bs \<and> signed_of_be bs = sint w" (is "?l \<longleftrightarrow> ?r") for bs and u :: cbs
  proof (cases "minimal_integer bs")
    case False
    then show ?thesis by (simp add: minimal_integer_def)
  next
    case True
    then have ne: "bs \<noteq> []" by (auto simp: minimal_integer_def valid_asn1_integer_cases)
    then have v: "CBS_is_valid_asn1_integer bs = Some (bit (hd bs) 7)"
      using True valid_asn1_integer_sign by blast
    show ?thesis
    proof (cases "length bs \<le> 8")
      case True
      have "w = load_le64 (sign_extend_bytes (bit (hd bs) 7) bs) \<longleftrightarrow> signed_of_be bs = sint w"
        using int64_value [OF ne True] by (metis signed_word_eqI)
      then show ?thesis using True \<open>minimal_integer bs\<close> by (simp add: v CBS_len_def del: bit_7_iff) blast
    next
      case False
      have "signed_of_be bs \<noteq> sint w"
        using minimal_small [OF \<open>minimal_integer bs\<close>] False sint_ge [of w] sint_lt [of w] by auto
      then show ?thesis using False by (simp add: v CBS_len_def)
    qed
  qed
  show ?thesis
    unfolding CBS_get_asn1_int64_def and_then_eq_Some CBS_get_asn1_eq_Some step by blast
qed

section \<open>Booleans\<close>

definition bool_octet :: "bool \<Rightarrow> u8" where
  "bool_octet b = (if b then 0xff else 0)"

lemma CBS_get_asn1_bool_eq_Some:
  "CBS_get_asn1_bool s = (Some b, t) \<longleftrightarrow> s = der_element CBS_ASN1_BOOLEAN [bool_octet b] @ t"
proof -
  have step: "(if CBS_len bs \<noteq> 1 then fail
       else let value = bs ! 0 in
         if value \<noteq> 0 \<and> value \<noteq> 0xff then fail else ret (value \<noteq> 0)) u = (Some b, t) \<longleftrightarrow>
      u = t \<and> bs = [bool_octet b]" for bs and u :: cbs
    by (cases bs rule: remdups_adj.cases) (auto simp: CBS_len_def bool_octet_def Let_def split: if_splits)
  have "valid_element CBS_ASN1_BOOLEAN [bool_octet b]" by (simp add: valid_element_def valid_tag_def)
  then show ?thesis
    unfolding CBS_get_asn1_bool_def and_then_eq_Some CBS_get_asn1_eq_Some step by blast
qed

section \<open>Optional fields\<close>

definition next_tag :: "bytes \<Rightarrow> asn1_tag option" where
  "next_tag s = fst (parse_asn1_tag s)"

lemma peek_iff: "CBS_peek_asn1_tag s tag \<longleftrightarrow> next_tag s = Some tag"
  by (auto simp: CBS_peek_asn1_tag_def next_tag_def split: prod.splits option.splits)

lemma next_tag_element:
  "valid_tag tag \<Longrightarrow> next_tag (der_element tag c @ t) = Some tag"
  using tag.dec_enc [of tag] by (simp add: next_tag_def der_element_def der_header_def)

lemma CBS_get_optional_asn1_eq_Some:
  "CBS_get_optional_asn1 tag s = (Some r, t) \<longleftrightarrow>
    (case r of None \<Rightarrow> next_tag s \<noteq> Some tag \<and> t = s
     | Some c \<Rightarrow> valid_element tag c \<and> s = der_element tag c @ t)"
proof (cases "next_tag s = Some tag")
  case True
  then show ?thesis
    by (auto simp: CBS_get_optional_asn1_def peek_iff CBS_get_asn1_eq_Some split: option.splits)
next
  case False
  then show ?thesis using next_tag_element [of tag]
    by (auto simp: CBS_get_optional_asn1_def peek_iff valid_element_def split: option.splits)
qed


text \<open>An explicitly tagged field: absent, or the tag around exactly one inner value.\<close>

lemma optional_field_eq_Some:
  assumes "\<And>c u. f (Some c) u = (Some y, t) \<longleftrightarrow> u = t \<and> inner c = (Some y', [] :: cbs)"
    and "\<And>u. f None u = (Some y, t) \<longleftrightarrow> u = t \<and> d"
  shows "and_then (CBS_get_optional_asn1 tag) f s = (Some y, t) \<longleftrightarrow>
    (if next_tag s \<noteq> Some tag then t = s \<and> d
     else \<exists>c. valid_element tag c \<and> s = der_element tag c @ t \<and> inner c = (Some y', []))"
proof -
  have "and_then (CBS_get_optional_asn1 tag) f s = (Some y, t) \<longleftrightarrow>
    (next_tag s \<noteq> Some tag \<and> t = s \<and> d) \<or>
    (\<exists>c. valid_element tag c \<and> s = der_element tag c @ t \<and> inner c = (Some y', []))"
    unfolding and_then_eq_Some CBS_get_optional_asn1_eq_Some
    by (subst split_option_ex) (auto simp: assms)
  then show ?thesis using next_tag_element [of tag] by (auto simp: valid_element_def)
qed

lemma CBS_get_optional_asn1_uint64_eq_Some:
  "CBS_get_optional_asn1_uint64 tag d s = (Some w, t) \<longleftrightarrow>
    (if next_tag s \<noteq> Some tag then t = s \<and> w = d
     else \<exists>c. valid_element tag c \<and> s = der_element tag c @ t \<and> CBS_get_asn1_uint64 c = (Some w, []))"
  unfolding CBS_get_optional_asn1_uint64_def
  by (rule optional_field_eq_Some) (auto simp: CBS_len_def split: prod.splits option.splits)

lemma CBS_get_optional_asn1_octet_string_eq_Some:
  "CBS_get_optional_asn1_octet_string tag s = (Some (out, present), t) \<longleftrightarrow>
    (if next_tag s \<noteq> Some tag then t = s \<and> out = [] \<and> \<not> present
     else \<exists>c. valid_element tag c \<and> s = der_element tag c @ t \<and>
       (if present then CBS_get_asn1 CBS_ASN1_OCTETSTRING c else (None, [])) = (Some out, []))"
  unfolding CBS_get_optional_asn1_octet_string_def
  by (rule optional_field_eq_Some) (auto simp: CBS_len_def split: prod.splits option.splits)

lemma CBS_get_optional_asn1_bool_eq_Some:
  "CBS_get_optional_asn1_bool tag d s = (Some b, t) \<longleftrightarrow>
    (if next_tag s \<noteq> Some tag then t = s \<and> b = d
     else \<exists>c. valid_element tag c \<and> s = der_element tag c @ t \<and> CBS_get_asn1_bool c = (Some b, []))"
proof -
  have v: "valid_element CBS_ASN1_BOOLEAN [x]" for x by (simp add: valid_element_def valid_tag_def)
  have inner: "(case CBS_get_asn1 CBS_ASN1_BOOLEAN c of (None, _) \<Rightarrow> fail
      | (Some child2, child) \<Rightarrow>
          if CBS_len child2 \<noteq> 1 \<or> CBS_len child \<noteq> 0 then fail
          else let boolean = child2 ! 0 in
            if boolean = 0 then ret False else if boolean = 0xff then ret True else fail) u = (Some b, t) \<longleftrightarrow>
    u = t \<and> CBS_get_asn1_bool c = (Some b, [])" for c and u :: cbs
  proof (cases "\<exists>x. CBS_get_asn1 CBS_ASN1_BOOLEAN c = (Some [x], [])")
    case True
    then obtain x where x: "CBS_get_asn1 CBS_ASN1_BOOLEAN c = (Some [x], [])" by blast
    then have "c = der_element CBS_ASN1_BOOLEAN [x]" by (simp add: CBS_get_asn1_eq_Some)
    then have "CBS_get_asn1_bool c = (Some b, []) \<longleftrightarrow> x = bool_octet b"
      using asn1.enc_inject [of CBS_ASN1_BOOLEAN "[x]" "[bool_octet b]"] v
      by (simp add: CBS_get_asn1_bool_eq_Some)
    then show ?thesis by (auto simp: x CBS_len_def bool_octet_def Let_def)
  next
    case False
    have "CBS_get_asn1_bool c \<noteq> (Some b, [])"
      using False asn1.dec_enc_whole [OF v [of "bool_octet b"]] by (auto simp: CBS_get_asn1_bool_eq_Some)
    moreover have "CBS_len child2 \<noteq> 1 \<or> CBS_len child \<noteq> 0"
      if "CBS_get_asn1 CBS_ASN1_BOOLEAN c = (Some child2, child)" for child2 child
      using False that by (cases child2 rule: remdups_adj.cases) (auto simp: CBS_len_def)
    ultimately show ?thesis by (auto split: prod.splits option.splits)
  qed
  show ?thesis
    unfolding CBS_get_optional_asn1_bool_def
    by (rule optional_field_eq_Some) (use inner in auto)
qed

section \<open>Bit strings\<close>

lemma and_low_mask: "x AND (push_bit k 1 - 1) = take_bit k (x :: 'a :: len word)"
  by (simp add: take_bit_eq_mask mask_eq_exp_minus_1)

text \<open>The bits of a BIT STRING, most significant bit of the first octet first.\<close>

definition bitstring_bit :: "bytes \<Rightarrow> nat \<Rightarrow> bool" where
  "bitstring_bit bs i \<longleftrightarrow> i < 8 * length bs \<and> bit (bs ! (i div 8)) (7 - i mod 8)"

lemma valid_bitstring_iff:
  "CBS_is_valid_asn1_bitstring s \<longleftrightarrow> (\<exists>n bs. s = n # bs \<and> unat n \<le> 7 \<and> (n \<noteq> 0 \<longrightarrow> bs \<noteq> []) \<and>
     (\<forall>i. 8 * length bs \<le> i + unat n \<longrightarrow> \<not> bitstring_bit bs i))"
proof (cases s)
  case Nil
  then show ?thesis by (simp add: CBS_is_valid_asn1_bitstring_def)
next
  case (Cons n bs)
  show ?thesis
  proof (cases "n = 0 \<or> unat n > 7 \<or> bs = []")
    case True
    then show ?thesis
      by (auto simp: Cons CBS_is_valid_asn1_bitstring_def word_less_nat_alt bitstring_bit_def CBS_get_last_u8_def CBS_len_def)
  next
    case False
    then obtain cs b where bs: "bs = cs @ [b]" by (cases bs rule: rev_cases) auto
    have l: "CBS_get_last_u8 bs = (Some b, cs)" by (simp add: bs CBS_get_last_u8_def CBS_len_def)
    have lhs: "CBS_is_valid_asn1_bitstring s \<longleftrightarrow> take_bit (unat n) b = 0"
      using False l by (simp add: Cons CBS_is_valid_asn1_bitstring_def word_less_nat_alt word_le_nat_alt and_low_mask del: push_bit_of_1)
    have "take_bit (unat n) b = 0 \<longleftrightarrow> (\<forall>j < unat n. \<not> bit b j)"
    proof
      assume "\<forall>j < unat n. \<not> bit b j"
      then show "take_bit (unat n) b = 0" by (intro bit_word_eqI) (simp add: bit_take_bit_iff)
    qed (simp add: take_bit_eq_0D)
    also have "\<dots> \<longleftrightarrow> (\<forall>i. 8 * length bs \<le> i + unat n \<longrightarrow> \<not> bitstring_bit bs i)"
    proof (intro iffI allI impI notI)
      fix i assume a: "\<forall>j < unat n. \<not> bit b j" "8 * length bs \<le> i + unat n" "bitstring_bit bs i"
      then have i: "i < 8 * length cs + 8" "8 * length cs \<le> i" using False by (auto simp: bitstring_bit_def bs)
      define r where "r = i - 8 * length cs"
      have r: "i = 8 * length cs + r" "r < 8" using i by (simp_all add: r_def)
      then have d: "i div 8 = length cs" "i mod 8 = r" by simp_all
      have k: "7 - r < unat n" using a(2) r by (simp add: bs)
      have "bit b (7 - r)" using a(3) d by (simp add: bitstring_bit_def bs)
      with k show False using a(1) by blast
    next
      fix j assume a: "\<forall>i. 8 * length bs \<le> i + unat n \<longrightarrow> \<not> bitstring_bit bs i" "j < unat n" "bit b j"
      define i where "i = 8 * length cs + (7 - j)"
      have j: "j < 8" using a(2) False by simp
      obtain r where r: "r = 7 - j" by blast
      then have "i = 8 * length cs + r" "r < 8" "7 - r = j" using j by (simp_all add: i_def)
      then have "i div 8 = length cs" "7 - i mod 8 = j" by simp_all
      then have "bitstring_bit bs i" using a(3) j by (simp add: bitstring_bit_def bs i_def)
      moreover have "8 * length bs \<le> i + unat n" using j a(2) by (simp add: i_def bs)
      ultimately show False using a(1) by blast
    qed
    finally show ?thesis using lhs False by (simp add: Cons)
  qed
qed

lemma bitstring_has_bit_iff:
  "CBS_asn1_bitstring_has_bit s i \<longleftrightarrow> CBS_is_valid_asn1_bitstring s \<and> bitstring_bit (tl s) i"
proof (cases "CBS_is_valid_asn1_bitstring s")
  case True
  then obtain n bs where s: "s = n # bs" using valid_bitstring_iff by blast
  have "i div 8 < length bs \<longleftrightarrow> i < 8 * length bs" by (simp add: less_mult_imp_div_less div_less_iff_less_mult mult.commute)
  then show ?thesis using True and_exp_eq_0 [of "bs ! (i div 8)" "7 - i mod 8"]
    by (auto simp: CBS_asn1_bitstring_has_bit_def Let_def s CBS_len_def bitstring_bit_def push_bit_of_1)
qed (simp add: CBS_asn1_bitstring_has_bit_def)


section \<open>Properties\<close>

lemma integer_element_iff:
  "valid_element CBS_ASN1_INTEGER bs \<and> s = der_element CBS_ASN1_INTEGER bs @ t \<and> minimal_integer bs \<and> P \<longleftrightarrow>
    shortest_integer bs \<and> P \<and> length bs < 2 ^ 32 \<and> s = [0x02] @ der_length (length bs) @ bs @ t"
proof -
  have "tag_bytes CBS_ASN1_INTEGER = [0x02]" by code_simp
  then show ?thesis
    by (auto simp: valid_element_def valid_tag_def der_element_def der_header_def minimal_integer_shortest)
qed

text \<open>C1: \<open>CBS_get_any_asn1\<close> succeeds exactly on an input that starts with the DER encoding of
  an element: a tag that is not the reserved tag, the shortest length, the contents. It
  returns the contents and the tag and moves just past the element, so each element is read
  from exactly one encoding.\<close>

theorem get_any_asn1_exact:
  "CBS_get_any_asn1 s = (Some (c, tag), t) \<longleftrightarrow>
     valid_tag tag \<and> length c < 2 ^ 32 \<and> s = tag_bytes tag @ der_length (length c) @ c @ t"
  unfolding CBS_get_any_asn1_eq_Some by (simp add: der_element_def der_header_def)

text \<open>\<open>CBS_get_asn1_uint64\<close> succeeds exactly on a DER INTEGER whose contents are the minimal
  two's complement form of a number from 0 to \<open>2^64 - 1\<close>, and returns that number; no two
  inputs give the same number and the same rest.\<close>

theorem get_asn1_uint64_exact:
  "(CBS_get_asn1_uint64 s = (Some w, t) \<longleftrightarrow>
     (\<exists>bs. shortest_integer bs \<and> signed_of_be bs = int (unat w) \<and> length bs < 2 ^ 32 \<and>
       s = [0x02] @ der_length (length bs) @ bs @ t)) \<and>
   (CBS_get_asn1_uint64 s = (Some w, t) \<and> CBS_get_asn1_uint64 s' = (Some w, t) \<longrightarrow> s = s')"
proof -
  have "bs = cs" if "shortest_integer bs" "shortest_integer cs"
    "signed_of_be bs = int (unat w)" "signed_of_be cs = int (unat w)" for bs cs
    using that by (intro minimal_integer_unique) (simp_all add: minimal_integer_shortest)
  then show ?thesis unfolding CBS_get_asn1_uint64_eq_Some integer_element_iff by blast
qed

theorem get_asn1_uint64_exact_witness:
  "CBS_get_asn1_uint64 [0x02, 0x02, 0x00, 0xff, 0x05] = (Some 255, [0x05]) \<and>
   CBS_get_asn1_uint64 [0x02, 0x02, 0x00, 0x7f] \<noteq> (Some 127, [])"
proof -
  have a: "CBS_get_asn1_uint64 [0x02, 0x02, 0x00, 0xff, 0x05] = (Some 255, [0x05])" by code_simp
  have b: "CBS_get_asn1_uint64 [0x02, 0x01, 0x7f] = (Some 127, [])" by code_simp
  from get_asn1_uint64_exact [of "[0x02, 0x01, 0x7f]" 127 "[]" "[0x02, 0x02, 0x00, 0x7f]"] b
  have "CBS_get_asn1_uint64 [0x02, 0x02, 0x00, 0x7f] \<noteq> (Some 127, [])" by auto
  with a show ?thesis by simp
qed

text \<open>C2: \<open>CBS_get_asn1_int64\<close>, which sign-extends the contents into a byte array and copies it
  over the \<open>int64_t\<close>, succeeds exactly on a DER INTEGER from \<open>-2^63\<close> to \<open>2^63 - 1\<close>, whose contents
  are the shortest octets with this value in two's complement, and returns the value.\<close>

theorem get_asn1_int64_exact:
  "CBS_get_asn1_int64 s = (Some w, t) \<longleftrightarrow>
     (\<exists>bs. shortest_integer bs \<and> signed_of_be bs = sint w \<and> length bs < 2 ^ 32 \<and>
       s = [0x02] @ der_length (length bs) @ bs @ t)"
  unfolding CBS_get_asn1_int64_eq_Some integer_element_iff by (rule refl)

text \<open>A field with an explicit tag and a default: if the tag does not come next, nothing is
  read and the default is returned; if it does, the field must hold exactly one INTEGER (or
  BOOLEAN) and nothing after it.\<close>

theorem optional_fields_exact:
  "(CBS_get_optional_asn1_uint64 tag d s = (Some w, t) \<longleftrightarrow>
     (if fst (parse_asn1_tag s) \<noteq> Some tag then t = s \<and> w = d
      else \<exists>c. CBS_get_asn1 tag s = (Some c, t) \<and> CBS_get_asn1_uint64 c = (Some w, []))) \<and>
   (CBS_get_optional_asn1_bool tag e s = (Some b, t) \<longleftrightarrow>
     (if fst (parse_asn1_tag s) \<noteq> Some tag then t = s \<and> b = e
      else \<exists>c. CBS_get_asn1 tag s = (Some c, t) \<and> CBS_get_asn1_bool c = (Some b, [])))"
  unfolding CBS_get_optional_asn1_uint64_eq_Some CBS_get_optional_asn1_bool_eq_Some next_tag_def
    CBS_get_asn1_eq_Some conj_assoc by (rule conjI; rule refl)

text \<open>\<open>CBS_asn1_bitstring_has_bit\<close> reads the bit with the given index, counted from the most
  significant bit of the first octet, of a valid BIT STRING, and returns zero for every index
  in its unused tail or past its end.\<close>

theorem bitstring_has_bit_exact:
  "CBS_asn1_bitstring_has_bit (n # bs) i \<longleftrightarrow>
    CBS_is_valid_asn1_bitstring (n # bs) \<and> i + unat n < 8 * length bs \<and> bit (bs ! (i div 8)) (7 - i mod 8)"
proof (cases "CBS_is_valid_asn1_bitstring (n # bs)")
  case True
  then have "\<forall>i. 8 * length bs \<le> i + unat n \<longrightarrow> \<not> bitstring_bit bs i"
    using valid_bitstring_iff [of "n # bs"] by auto
  then show ?thesis using True unfolding bitstring_has_bit_iff list.sel
    by (auto simp: bitstring_bit_def not_le [symmetric])
qed (simp add: bitstring_has_bit_iff)

end
