(* ===== verification/Const_Time.thy ===== *)
theory Const_Time
  imports Der_Values
begin

text \<open>
  Constant-time primitives (\<open>crypto/internal.h\<close> lines 378 to 517): comparisons of machine
  words without branches, whose result is a mask of ones or zeros, and the selection by a
  mask. The value barrier only keeps the compiler from seeing through the mask; it is the
  identity.
\<close>

section \<open>Definitions\<close>

type_synonym crypto_word_t = u64

abbreviation CONSTTIME_TRUE_W :: crypto_word_t where "CONSTTIME_TRUE_W \<equiv> - 1"
abbreviation CONSTTIME_FALSE_W :: crypto_word_t where "CONSTTIME_FALSE_W \<equiv> 0"

definition value_barrier_w :: "crypto_word_t \<Rightarrow> crypto_word_t" where
  "value_barrier_w a = a"

definition constant_time_msb_w :: "crypto_word_t \<Rightarrow> crypto_word_t" where
  "constant_time_msb_w a = 0 - drop_bit 63 a"

definition constant_time_lt_w :: "crypto_word_t \<Rightarrow> crypto_word_t \<Rightarrow> crypto_word_t" where
  "constant_time_lt_w a b = constant_time_msb_w (a XOR ((a XOR b) OR ((a - b) XOR a)))"

definition constant_time_lt_8 :: "crypto_word_t \<Rightarrow> crypto_word_t \<Rightarrow> u8" where
  "constant_time_lt_8 a b = ucast (constant_time_lt_w a b)"

definition constant_time_ge_w :: "crypto_word_t \<Rightarrow> crypto_word_t \<Rightarrow> crypto_word_t" where
  "constant_time_ge_w a b = NOT (constant_time_lt_w a b)"

definition constant_time_ge_8 :: "crypto_word_t \<Rightarrow> crypto_word_t \<Rightarrow> u8" where
  "constant_time_ge_8 a b = ucast (constant_time_ge_w a b)"

definition constant_time_is_zero_w :: "crypto_word_t \<Rightarrow> crypto_word_t" where
  "constant_time_is_zero_w a = constant_time_msb_w (NOT a AND (a - 1))"

definition constant_time_is_zero_8 :: "crypto_word_t \<Rightarrow> u8" where
  "constant_time_is_zero_8 a = ucast (constant_time_is_zero_w a)"

definition constant_time_eq_w :: "crypto_word_t \<Rightarrow> crypto_word_t \<Rightarrow> crypto_word_t" where
  "constant_time_eq_w a b = constant_time_is_zero_w (a XOR b)"

definition constant_time_eq_8 :: "crypto_word_t \<Rightarrow> crypto_word_t \<Rightarrow> u8" where
  "constant_time_eq_8 a b = ucast (constant_time_eq_w a b)"

text \<open>An \<open>int\<close> has 32 bits and is sign-extended to a \<open>crypto_word_t\<close>.\<close>

definition constant_time_eq_int :: "u32 \<Rightarrow> u32 \<Rightarrow> crypto_word_t" where
  "constant_time_eq_int a b = constant_time_eq_w (scast a) (scast b)"

definition constant_time_eq_int_8 :: "u32 \<Rightarrow> u32 \<Rightarrow> u8" where
  "constant_time_eq_int_8 a b = constant_time_eq_8 (scast a) (scast b)"

definition constant_time_select_w :: "crypto_word_t \<Rightarrow> crypto_word_t \<Rightarrow> crypto_word_t \<Rightarrow> crypto_word_t" where
  "constant_time_select_w m a b =
     (let m = value_barrier_w m in (m AND a) OR (NOT m AND b))"

definition constant_time_select_8 :: "crypto_word_t \<Rightarrow> u8 \<Rightarrow> u8 \<Rightarrow> u8" where
  "constant_time_select_8 m a b =
     (let m = ucast (value_barrier_w m) in (m AND a) OR (NOT m AND b))"

definition constant_time_select_int :: "crypto_word_t \<Rightarrow> u32 \<Rightarrow> u32 \<Rightarrow> u32" where
  "constant_time_select_int m a b = ucast (constant_time_select_w m (scast a) (scast b))"

section \<open>What they compute\<close>

lemma bit_63_iff: "bit (w :: u64) 63 \<longleftrightarrow> 2 ^ 63 \<le> unat w"
proof -
  have "bit w 63 \<longleftrightarrow> bit (unat w) 63" by (simp add: bit_unsigned_iff)
  also have "\<dots> \<longleftrightarrow> odd (unat w div 2 ^ 63)" by (simp only: bit_iff_odd)
  also have "\<dots> \<longleftrightarrow> 2 ^ 63 \<le> unat w"
  proof -
    define k where "k = unat w"
    have "k < 2 ^ 64" using unat_u64_lt [of w] by (simp add: k_def)
    then have "k div 2 ^ 63 < 2" by (simp add: less_mult_imp_div_less)
    then have "k div 2 ^ 63 = 0 \<or> k div 2 ^ 63 = 1" by linarith
    then have "odd (k div 2 ^ 63) \<longleftrightarrow> k div 2 ^ 63 \<noteq> 0" by auto
    also have "\<dots> \<longleftrightarrow> 2 ^ 63 \<le> k" by (simp add: div_eq_0_iff not_less)
    finally show ?thesis by (simp only: k_def)
  qed
  finally show ?thesis .
qed

lemma msb_w_eq: "constant_time_msb_w a = (if bit a 63 then - 1 else 0)"
proof -
  have "drop_bit 63 a = (if bit a 63 then 1 else 0)"
  proof (rule bit_word_eqI)
    fix n assume "n < LENGTH(64)"
    show "bit (drop_bit 63 a) n = bit (if bit a 63 then 1 else 0 :: u64) n"
      by (cases "n = 0") (auto simp: bit_drop_bit_eq bit_1_iff dest: bit_imp_le_length)
  qed
  then show ?thesis by (simp add: constant_time_msb_w_def)
qed

lemma bit_63_sub:
  assumes "bit a 63 \<longleftrightarrow> bit (b :: u64) 63"
  shows "bit (a - b) 63 \<longleftrightarrow> a < b"
proof (cases "a < b")
  case True
  then have l: "unat a < unat b" by (simp add: word_less_nat_alt)
  define x y where "x = unat a" and "y = unat b"
  have xy: "x < y" "x < 2 ^ 64" "y < 2 ^ 64" "2 ^ 63 \<le> x \<longleftrightarrow> 2 ^ 63 \<le> y"
    using l assms unat_u64_lt [of a] unat_u64_lt [of b] by (simp_all add: x_def y_def bit_63_iff)
  have "unat (a - b) = x + 2 ^ 64 - y"
    using l xy by (simp add: unat_sub_if' x_def y_def)
  then have "2 ^ 63 \<le> unat (a - b)" using xy by (cases "2 ^ 63 \<le> x"; simp)
  then show ?thesis using True by (simp add: bit_63_iff)
next
  case False
  then have l: "unat b \<le> unat a" by (simp add: word_less_nat_alt)
  define x y where "x = unat a" and "y = unat b"
  have xy: "y \<le> x" "x < 2 ^ 64" "2 ^ 63 \<le> x \<longleftrightarrow> 2 ^ 63 \<le> y"
    using l assms unat_u64_lt [of a] by (simp_all add: x_def y_def bit_63_iff)
  have "unat (a - b) = x - y" using l by (simp add: unat_sub_if' x_def y_def)
  then have "\<not> 2 ^ 63 \<le> unat (a - b)" using xy by (cases "2 ^ 63 \<le> x"; simp)
  then show ?thesis using False by (simp add: bit_63_iff)
qed

lemma lt_w_eq [simp]: "constant_time_lt_w a b = (if a < b then - 1 else 0)"
proof -
  have "bit (a XOR ((a XOR b) OR ((a - b) XOR a))) 63 \<longleftrightarrow> a < b"
  proof (cases "bit a 63 \<longleftrightarrow> bit b 63")
    case True
    then show ?thesis using bit_63_sub [OF True] by (auto simp: bit_xor_iff bit_or_iff)
  next
    case False
    then have "a < b \<longleftrightarrow> bit b 63"
      by (auto simp: bit_63_iff word_less_nat_alt)
    then show ?thesis using False by (auto simp: bit_xor_iff bit_or_iff)
  qed
  then show ?thesis by (simp add: constant_time_lt_w_def msb_w_eq)
qed

lemma is_zero_w_eq [simp]: "constant_time_is_zero_w a = (if a = 0 then - 1 else 0)"
proof -
  have "bit (NOT a AND (a - 1)) 63 \<longleftrightarrow> a = 0"
  proof (cases "a = 0")
    case False
    then have "unat (a - 1) = unat a - 1" by (simp add: unat_minus_one)
    moreover have "unat a < 2 ^ 64" by (rule unat_u64_lt)
    ultimately have "bit (a - 1) 63 \<longrightarrow> bit a 63" unfolding bit_63_iff by (simp, linarith)
    then show ?thesis using False by (simp add: bit_and_iff bit_not_iff, blast)
  qed simp
  then show ?thesis by (simp add: constant_time_is_zero_w_def msb_w_eq)
qed

lemma eq_w_eq [simp]: "constant_time_eq_w a b = (if a = b then - 1 else 0)"
  by (simp add: constant_time_eq_w_def)

lemma ge_w_eq [simp]: "constant_time_ge_w a b = (if b \<le> a then - 1 else 0)"
  by (auto simp: constant_time_ge_w_def not_less)

lemma ucast_all_ones [simp]: "(ucast (- 1 :: u64) :: u8) = - 1"
  by (rule bit_word_eqI) (simp add: bit_simps)

lemma ucast_scast: "(ucast (scast c :: u64) :: u32) = c"
proof (rule bit_word_eqI)
  fix n assume "n < LENGTH(32)"
  then show "bit (ucast (scast c :: u64) :: u32) n = bit c n"
    by (cases "n = 31") (auto simp: bit_simps min_def)
qed

lemma masks_8 [simp]:
  "constant_time_lt_8 a b = (if a < b then - 1 else 0)"
  "constant_time_ge_8 a b = (if b \<le> a then - 1 else 0)"
  "constant_time_is_zero_8 a = (if a = 0 then - 1 else 0)"
  "constant_time_eq_8 a b = (if a = b then - 1 else 0)"
  by (simp_all add: constant_time_lt_8_def constant_time_ge_8_def constant_time_is_zero_8_def constant_time_eq_8_def)

lemma scast_inject: "(scast (a :: u32) :: u64) = scast b \<longleftrightarrow> a = b"
proof
  assume "(scast a :: u64) = scast b"
  then have "(ucast (scast a :: u64) :: u32) = ucast (scast b :: u64)" by simp
  then show "a = b" by (simp only: ucast_scast)
qed simp

lemma select_w_eq [simp]: "constant_time_select_w (if c then - 1 else 0) a b = (if c then a else b)"
  by (simp add: constant_time_select_w_def value_barrier_w_def)

lemma select_8_eq [simp]: "constant_time_select_8 (if c then - 1 else 0) a b = (if c then a else b)"
  by (simp add: constant_time_select_8_def value_barrier_w_def)

section \<open>Properties\<close>

text \<open>the branch-free comparisons: for all machine words the results are all ones where the
  comparison holds and zero where it does not, also where the subtraction wraps around, and
  the selection by such a mask picks its first or its second argument.\<close>

theorem constant_time_masks:
  "constant_time_lt_w a b = (if a < b then - 1 else 0) \<and>
   constant_time_ge_w a b = (if a \<ge> b then - 1 else 0) \<and>
   constant_time_eq_w a b = (if a = b then - 1 else 0) \<and>
   constant_time_eq_int c d = (if c = d then - 1 else 0) \<and>
   constant_time_select_w (constant_time_lt_w a b) x y = (if a < b then x else y) \<and>
   constant_time_select_8 (constant_time_eq_w a b) u v = (if a = b then u else v) \<and>
   constant_time_select_int (constant_time_eq_w a b) i j = (if a = b then i else j)"
  by (simp add: constant_time_eq_int_def scast_inject constant_time_select_int_def ucast_scast)

end
