(* ===== verification/Base64.thy ===== *)
theory Base64
  imports Const_Time
begin

text \<open>
  Base64 (\<open>crypto/base64/base64.c\<close>), definitions. A character is its byte. A function that
  writes to \<open>out\<close> returns the list of the bytes it wrote there, in order, beside the result
  and the output length. The context is \<open>EVP_ENCODE_CTX\<close> of \<open>base64.h\<close>: a block buffer of 48
  bytes of which the first \<open>data_used\<close> are valid.
\<close>

section \<open>Characters\<close>

definition constant_time_lt_args_8 :: "u8 \<Rightarrow> u8 \<Rightarrow> u8" where
  "constant_time_lt_args_8 a b = ucast (constant_time_msb_w (ucast a - ucast b))"

definition constant_time_in_range_8 :: "u8 \<Rightarrow> u8 \<Rightarrow> u8 \<Rightarrow> u8" where
  "constant_time_in_range_8 a lo hi =
     (let a = a - lo in constant_time_lt_args_8 a (hi - lo + 1))"

text \<open>The characters the code names.\<close>

abbreviation char_plus :: u8 where "char_plus \<equiv> 0x2B"
abbreviation char_slash :: u8 where "char_slash \<equiv> 0x2F"
abbreviation char_0 :: u8 where "char_0 \<equiv> 0x30"
abbreviation char_9 :: u8 where "char_9 \<equiv> 0x39"
abbreviation char_equals :: u8 where "char_equals \<equiv> 0x3D"
abbreviation char_upper_A :: u8 where "char_upper_A \<equiv> 0x41"
abbreviation char_upper_Z :: u8 where "char_upper_Z \<equiv> 0x5A"
abbreviation char_lower_a :: u8 where "char_lower_a \<equiv> 0x61"
abbreviation char_lower_z :: u8 where "char_lower_z \<equiv> 0x7A"
abbreviation char_newline :: u8 where "char_newline \<equiv> 0x0A"
abbreviation char_return :: u8 where "char_return \<equiv> 0x0D"
abbreviation char_tab :: u8 where "char_tab \<equiv> 0x09"
abbreviation char_space :: u8 where "char_space \<equiv> 0x20"

definition conv_bin2ascii :: "u8 \<Rightarrow> u8" where
  "conv_bin2ascii a =
     (let a = a AND 0x3F;
          r = constant_time_select_8 (ucast (constant_time_eq_8 (ucast a) 62)) char_plus char_slash;
          r = constant_time_select_8 (ucast (constant_time_lt_args_8 a 62)) (a - 52 + char_0) r;
          r = constant_time_select_8 (ucast (constant_time_lt_args_8 a 52)) (a - 26 + char_lower_a) r
      in constant_time_select_8 (ucast (constant_time_lt_args_8 a 26)) (a + char_upper_A) r)"

definition base64_ascii_to_bin :: "u8 \<Rightarrow> u8" where
  "base64_ascii_to_bin a =
     (let is_upper = constant_time_in_range_8 a char_upper_A char_upper_Z;
          is_lower = constant_time_in_range_8 a char_lower_a char_lower_z;
          is_digit = constant_time_in_range_8 a char_0 char_9;
          is_plus = constant_time_eq_8 (ucast a) (ucast char_plus);
          is_slash = constant_time_eq_8 (ucast a) (ucast char_slash);
          is_equals = constant_time_eq_8 (ucast a) (ucast char_equals);
          r = 0;
          r = r OR (is_upper AND (a - char_upper_A));
          r = r OR (is_lower AND (a - char_lower_a + 26));
          r = r OR (is_digit AND (a - char_0 + 52));
          r = r OR (is_plus AND 62);
          r = r OR (is_slash AND 63);
          is_valid = is_upper OR is_lower OR is_digit OR is_plus OR is_slash OR is_equals
      in r OR NOT is_valid)"

section \<open>Blocks\<close>

definition EVP_EncodedLength :: "nat \<Rightarrow> nat option" where
  "EVP_EncodedLength len =
     (if size_add len 2 < len then None
      else
        let len = size_add len 2 div 3 in
        if size_mul len 4 div 4 \<noteq> len then None
        else
          let len = size_mul len 4 in
          if size_add len 1 < len then None else Some (size_add len 1))"

text \<open>
  The loop of \<open>EVP_EncodeBlock\<close> over the source, with the characters it writes. The result
  is what was written, the final NUL included, and the length without it.
\<close>

definition encode_group :: "u32 \<Rightarrow> bytes" where
  "encode_group l =
     [conv_bin2ascii (ucast (drop_bit 18 l)), conv_bin2ascii (ucast (drop_bit 12 l)),
      conv_bin2ascii (ucast (drop_bit 6 l)), conv_bin2ascii (ucast l)]"

fun encode_block_loop :: "bytes \<Rightarrow> bytes" where
  "encode_block_loop [] = []"
| "encode_block_loop [a] =
     (let l = push_bit 16 (ucast a) :: u32
      in [conv_bin2ascii (ucast (drop_bit 18 l)), conv_bin2ascii (ucast (drop_bit 12 l)),
          char_equals, char_equals])"
| "encode_block_loop [a, b] =
     (let l = push_bit 16 (ucast a) OR push_bit 8 (ucast b) :: u32
      in [conv_bin2ascii (ucast (drop_bit 18 l)), conv_bin2ascii (ucast (drop_bit 12 l)),
          conv_bin2ascii (ucast (drop_bit 6 l)), char_equals])"
| "encode_block_loop (a # b # c # rest) =
     encode_group (push_bit 16 (ucast a) OR push_bit 8 (ucast b) OR ucast c) @
     encode_block_loop rest"

definition EVP_EncodeBlock :: "bytes \<Rightarrow> bytes \<times> nat" where
  "EVP_EncodeBlock src =
     (let written = encode_block_loop src in (written @ [0], length written))"

definition EVP_DecodedLength :: "nat \<Rightarrow> nat option" where
  "EVP_DecodedLength len = (if len mod 4 \<noteq> 0 then None else Some (len div 4 * 3))"

text \<open>One quad: \<open>None\<close> on error, else the bytes it stands for.\<close>

definition quad_padding_pattern :: "u8 \<Rightarrow> u8 \<Rightarrow> u8 \<Rightarrow> u8 \<Rightarrow> nat" where
  "quad_padding_pattern a b c d =
     of_bool (a = char_equals) * 8 + of_bool (b = char_equals) * 4 +
     of_bool (c = char_equals) * 2 + of_bool (d = char_equals)"

fun base64_decode_quad :: "bytes \<Rightarrow> bytes option" where
  "base64_decode_quad (i0 # i1 # i2 # i3 # _) =
     (let a = base64_ascii_to_bin i0; b = base64_ascii_to_bin i1;
          c = base64_ascii_to_bin i2; d = base64_ascii_to_bin i3
      in if a = 0xFF \<or> b = 0xFF \<or> c = 0xFF \<or> d = 0xFF then None
         else
           let v = push_bit 18 (ucast a) OR push_bit 12 (ucast b) OR push_bit 6 (ucast c) OR
                   ucast d :: u32;
               p = quad_padding_pattern i0 i1 i2 i3
           in if p = 0 then Some [ucast (drop_bit 16 v), ucast (drop_bit 8 v), ucast v]
              else if p = 1 then Some [ucast (drop_bit 16 v), ucast (drop_bit 8 v)]
              else if p = 3 then Some [ucast (drop_bit 16 v)]
              else None)"
| "base64_decode_quad _ = None"

text \<open>
  The loop of \<open>EVP_DecodeBase64\<close> over the quads: the bytes written so far are returned on
  both paths. A short quad before the last one is an error after its bytes are written.
\<close>

function decode_base64_loop :: "bytes \<Rightarrow> bytes \<times> bool" where
  "decode_base64_loop cin =
     (if cin = [] then ([], True)
      else case base64_decode_quad cin of
        None \<Rightarrow> ([], False)
      | Some q \<Rightarrow>
          if length q \<noteq> 3 \<and> length cin \<noteq> 4 then (q, False)
          else (let (rest, ok) = decode_base64_loop (drop 4 cin) in (q @ rest, ok)))"
  by auto
termination by (relation "measure length") auto

text \<open>The result: what was written, then the output length and success.\<close>

definition EVP_DecodeBase64 :: "nat \<Rightarrow> bytes \<Rightarrow> bytes \<times> nat \<times> bool" where
  "EVP_DecodeBase64 max_out cin =
     (if length cin mod 4 \<noteq> 0 then ([], 0, False)
      else case EVP_DecodedLength (length cin) of
        None \<Rightarrow> ([], 0, False)
      | Some max_len \<Rightarrow>
          if max_out < max_len then ([], 0, False)
          else
            let (written, ok) = decode_base64_loop cin
            in if ok then (written, length written, True) else (written, 0, False))"

definition is_blank :: "u8 \<Rightarrow> bool" where
  "is_blank c \<longleftrightarrow> c = char_space \<or> c = char_tab"

definition is_base64_space :: "u8 \<Rightarrow> bool" where
  "is_base64_space c \<longleftrightarrow>
     c = char_space \<or> c = char_tab \<or> c = char_return \<or> c = char_newline"

text \<open>The padding with zeros up to a multiple of three.\<close>

definition pad_to_multiple_of_3 :: "bytes \<Rightarrow> bytes" where
  "pad_to_multiple_of_3 dst = dst @ replicate ((3 - length dst mod 3) mod 3) 0"

text \<open>\<open>Inr\<close> what \<open>dst\<close> holds on success, its length being the return value; \<open>Inl\<close> what was
  written before the error, which returns -1.\<close>

definition EVP_DecodeBlock :: "bytes \<Rightarrow> bytes + bytes" where
  "EVP_DecodeBlock src =
     (let src = dropWhile is_blank src;
          src = rev (dropWhile is_base64_space (rev src))
      in case EVP_DecodedLength (length src) of
           None \<Rightarrow> Inl []
         | Some dst_len \<Rightarrow>
             if INT_MAX < dst_len then Inl []
             else case EVP_DecodeBase64 dst_len src of
               (written, _, False) \<Rightarrow> Inl written
             | (written, dst_len, True) \<Rightarrow> Inr (pad_to_multiple_of_3 written))"

section \<open>Streams\<close>

record evp_encode_ctx =
  data_used :: nat
  ctx_data :: bytes
  eof_seen :: bool
  error_encountered :: bool

definition sizeof_data :: nat where "sizeof_data = 48"

definition EVP_EncodeInit :: evp_encode_ctx where
  "EVP_EncodeInit = \<lparr>data_used = 0, ctx_data = replicate sizeof_data 0,
     eof_seen = False, error_encountered = False\<rparr>"

definition EVP_ENCODE_CTX_new :: "(nat \<Rightarrow> bool) \<Rightarrow> evp_encode_ctx option" where
  "EVP_ENCODE_CTX_new alloc_ok =
     (if alloc_ok 56 then Some EVP_EncodeInit else None)"

text \<open>\<open>memcpy(&buf[pos], src, n)\<close> for a copy that stays inside the buffer.\<close>

definition memcpy_at :: "bytes \<Rightarrow> nat \<Rightarrow> bytes \<Rightarrow> bytes" where
  "memcpy_at buf pos src = take pos buf @ src @ drop (pos + length src) buf"

text \<open>
  The loop over whole blocks. It returns \<open>None\<close> for the characters when the running tot
  wraps around, with what is left of the input.
\<close>

function encode_lines :: "nat \<Rightarrow> bytes \<Rightarrow> bytes \<times> bytes \<times> nat option" where
  "encode_lines tot cin =
     (if length cin < sizeof_data then ([], cin, Some tot)
      else
        let (block, encoded) = EVP_EncodeBlock (take sizeof_data cin);
            line = take encoded block @ [char_newline];
            tot' = size_add tot (encoded + 1)
        in if tot' < tot then (line, drop sizeof_data cin, None)
           else let (out, rest, t) = encode_lines tot' (drop sizeof_data cin)
                in (line @ out, rest, t))"
  by auto
termination by (relation "measure (length \<circ> snd)") (auto simp: sizeof_data_def)

text \<open>The context, what was written to \<open>out\<close> before the final NUL, and \<open>*out_len\<close>.\<close>

definition EVP_EncodeUpdate :: "evp_encode_ctx \<Rightarrow> bytes \<Rightarrow> evp_encode_ctx \<times> bytes \<times> nat" where
  "EVP_EncodeUpdate ctx cin =
     (if cin = [] then (ctx, [], 0)
      else if sizeof_data - data_used ctx > length cin then
        (ctx\<lparr>ctx_data := memcpy_at (ctx_data ctx) (data_used ctx) cin,
             data_used := data_used ctx + length cin\<rparr>, [], 0)
      else
        let todo = sizeof_data - data_used ctx;
            (ctx, cin, out, tot) =
              (if data_used ctx \<noteq> 0
               then
                 let ctx' = ctx\<lparr>ctx_data := memcpy_at (ctx_data ctx) (data_used ctx) (take todo cin)\<rparr>;
                     (block, encoded) = EVP_EncodeBlock (ctx_data ctx')
                 in (ctx'\<lparr>data_used := 0\<rparr>, drop todo cin,
                     take encoded block @ [char_newline], encoded + 1)
               else (ctx, cin, [], 0));
            (lines, rest, t) = encode_lines tot cin
        in case t of
             None \<Rightarrow> (ctx, out @ lines, 0)
           | Some tot \<Rightarrow>
               let ctx = (if rest \<noteq> [] then ctx\<lparr>ctx_data := memcpy_at (ctx_data ctx) 0 rest\<rparr> else ctx);
                   ctx = ctx\<lparr>data_used := length rest\<rparr>;
                   tot = (if INT_MAX < tot then 0 else tot)
               in (ctx, out @ lines, tot))"

definition EVP_EncodeFinal :: "evp_encode_ctx \<Rightarrow> evp_encode_ctx \<times> bytes \<times> nat" where
  "EVP_EncodeFinal ctx =
     (if data_used ctx = 0 then (ctx, [], 0)
      else
        let (block, encoded) = EVP_EncodeBlock (take (data_used ctx) (ctx_data ctx))
        in (ctx\<lparr>data_used := 0\<rparr>, take encoded block @ [char_newline], encoded + 1))"

definition EVP_DecodeInit :: evp_encode_ctx where
  "EVP_DecodeInit = \<lparr>data_used = 0, ctx_data = replicate sizeof_data 0,
     eof_seen = False, error_encountered = False\<rparr>"

text \<open>
  The loop of \<open>EVP_DecodeUpdate\<close>: the context, the bytes written and whether the loop ran to
  its end.
\<close>

fun decode_update_loop :: "evp_encode_ctx \<Rightarrow> bytes \<Rightarrow> evp_encode_ctx \<times> bytes \<times> bool" where
  "decode_update_loop ctx [] = (ctx, [], True)"
| "decode_update_loop ctx (c # cs) =
     (if is_base64_space c then decode_update_loop ctx cs
      else if eof_seen ctx then (ctx\<lparr>error_encountered := True\<rparr>, [], False)
      else
        let ctx = ctx\<lparr>ctx_data := (ctx_data ctx)[data_used ctx := c],
                      data_used := data_used ctx + 1\<rparr>
        in if data_used ctx = 4 then
             case base64_decode_quad (ctx_data ctx) of
               None \<Rightarrow> (ctx\<lparr>error_encountered := True\<rparr>, [], False)
             | Some q \<Rightarrow>
                 let ctx = ctx\<lparr>data_used := 0\<rparr>;
                     ctx = (if length q < 3 then ctx\<lparr>eof_seen := True\<rparr> else ctx);
                     (ctx, out, ok) = decode_update_loop ctx cs
                 in (ctx, q @ out, ok)
           else decode_update_loop ctx cs)"

text \<open>The context, the bytes written, \<open>*out_len\<close> and the return value.\<close>

definition EVP_DecodeUpdate ::
  "evp_encode_ctx \<Rightarrow> bytes \<Rightarrow> evp_encode_ctx \<times> bytes \<times> nat \<times> int" where
  "EVP_DecodeUpdate ctx cin =
     (if error_encountered ctx then (ctx, [], 0, - 1)
      else
        let (ctx, out, ok) = decode_update_loop ctx cin
        in if \<not> ok then (ctx, out, 0, - 1)
           else if INT_MAX < length out then (ctx\<lparr>error_encountered := True\<rparr>, out, 0, - 1)
           else (ctx, out, length out, if eof_seen ctx then 0 else 1))"

definition EVP_DecodeFinal :: "evp_encode_ctx \<Rightarrow> int" where
  "EVP_DecodeFinal ctx = (if error_encountered ctx \<or> data_used ctx \<noteq> 0 then - 1 else 1)"

declare decode_base64_loop.simps [simp del]
declare encode_lines.simps [simp del]

end
