(* ===== verification/Cbb.thy ===== *)
theory Cbb
  imports Cbs_Asn1 Byte_Order
begin

text \<open>
  The builder, \<open>crypto/bytestring/cbb.c\<close>. A tree of CBBs that write to one buffer is one
  state: the buffer and the chain of open children, outermost first. A handle is the depth
  of a CBB in the chain, 0 for the root; a handle deeper than the chain stands for a child
  that has been flushed, whose \<open>base\<close> is NULL. \<open>base_buf\<close> holds the \<open>len\<close> valid bytes.

  The environment of a call says which allocations succeed and what uninitialised memory
  holds; every statement is for all environments, which may differ from call to call.
\<close>

section \<open>State\<close>

record cbb_env =
  alloc_ok :: "nat \<Rightarrow> bool"
  uninit :: "nat \<Rightarrow> u8"

record cbb_child =
  ch_offset :: nat
  ch_pending_len_len :: nat
  ch_pending_is_asn1 :: bool

record cbb =
  base_buf :: bytes
  base_cap :: nat
  base_can_resize :: bool
  base_error :: bool
  open_children :: "cbb_child list"

type_synonym handle = nat

abbreviation base_len :: "cbb \<Rightarrow> nat" where "base_len s \<equiv> length (base_buf s)"

definition is_stale :: "handle \<Rightarrow> cbb \<Rightarrow> bool" where
  "is_stale h s \<longleftrightarrow> length (open_children s) < h"

definition cbb_init :: "bytes \<Rightarrow> nat \<Rightarrow> bool \<Rightarrow> cbb" where
  "cbb_init buf cap can_resize =
     \<lparr>base_buf = buf, base_cap = cap, base_can_resize = can_resize, base_error = False, open_children = []\<rparr>"

definition CBB_init :: "cbb_env \<Rightarrow> nat \<Rightarrow> cbb option" where
  "CBB_init env initial_capacity =
     (if initial_capacity > 0 \<and> \<not> alloc_ok env initial_capacity then None
      else Some (cbb_init [] initial_capacity True))"

definition CBB_init_fixed :: "nat \<Rightarrow> cbb" where
  "CBB_init_fixed len = cbb_init [] len False"

section \<open>The buffer\<close>

definition cbb_set_error :: "cbb \<Rightarrow> cbb" where
  "cbb_set_error s = s\<lparr>base_error := True\<rparr>"

definition cbb_buffer_reserve :: "cbb_env \<Rightarrow> nat \<Rightarrow> (cbb, unit) action" where
  "cbb_buffer_reserve env len s =
     (let newlen = size_add (base_len s) len in
      if newlen < base_len s then (None, cbb_set_error s)
      else if newlen > base_cap s then
        if \<not> base_can_resize s then (None, cbb_set_error s)
        else
          let newcap = size_mul (base_cap s) 2;
              newcap = (if newcap < base_cap s \<or> newcap < newlen then newlen else newcap)
          in if \<not> alloc_ok env newcap then (None, cbb_set_error s)
             else (Some (), s\<lparr>base_cap := newcap\<rparr>)
      else (Some (), s))"

definition cbb_buffer_add :: "cbb_env \<Rightarrow> nat \<Rightarrow> (cbb, unit) action" where
  "cbb_buffer_add env len =
     and_then (cbb_buffer_reserve env len) (\<lambda>_ s.
       (Some (), s\<lparr>base_buf := base_buf s @ map (uninit env) [base_len s..<base_len s + len]\<rparr>))"

text \<open>Overwriting the bytes from an index on: \<open>memcpy\<close>, \<open>memset\<close> and single stores.\<close>

definition cbb_store :: "nat \<Rightarrow> bytes \<Rightarrow> cbb \<Rightarrow> cbb" where
  "cbb_store i bs s = s\<lparr>base_buf := take i (base_buf s) @ bs @ drop (i + length bs) (base_buf s)\<rparr>"

definition cbb_on_error :: "handle \<Rightarrow> cbb \<Rightarrow> cbb" where
  "cbb_on_error h s = s\<lparr>base_error := True, open_children := take h (open_children s)\<rparr>"

section \<open>Flushing\<close>

text \<open>The number of length octets and the first of them, for a pending ASN.1 length.\<close>

definition asn1_length_octets :: "nat \<Rightarrow> (nat \<times> u8) option" where
  "asn1_length_octets len =
     (if len > 0xfffffffe then None
      else if len > 0xffffff then Some (5, 0x80 OR 4)
      else if len > 0xffff then Some (4, 0x80 OR 3)
      else if len > 0xff then Some (3, 0x80 OR 2)
      else if len > 0x7f then Some (2, 0x80 OR 1)
      else Some (1, of_nat len))"

text \<open>
  Once the grandchildren are flushed, the length prefix of one child is written. For an
  ASN.1 child the contents first move along to make space for a long length; \<open>len\<close> is then
  what the loop still has to store, in \<open>pending_len_len\<close> bytes from \<open>offset\<close>.
\<close>

definition flush_prefix :: "nat \<Rightarrow> nat \<Rightarrow> nat \<Rightarrow> (cbb, unit) action" where
  "flush_prefix offset pending_len_len len s =
     (case be_split pending_len_len (of_nat len) of
        (bs, rest) \<Rightarrow> if rest \<noteq> 0 then (None, cbb_store offset bs s)
                      else (Some (), cbb_store offset bs s))"

definition flush_asn1 :: "cbb_env \<Rightarrow> nat \<Rightarrow> nat \<Rightarrow> nat \<Rightarrow> (cbb, unit) action" where
  "flush_asn1 env offset child_start len s =
     (case asn1_length_octets len of None \<Rightarrow> (None, s) | Some (len_len, initial_length_byte) \<Rightarrow>
      let extra_bytes = len_len - 1;
          contents = take len (drop child_start (base_buf s))
      in and_then
           (if len_len \<noteq> 1 then
              and_then (cbb_buffer_add env extra_bytes) (\<lambda>_ s.
                (Some (), cbb_store (child_start + extra_bytes) contents s))
            else ret ())
           (\<lambda>_ s. flush_prefix (offset + 1) extra_bytes (if len_len = 1 then 0 else len)
                    (cbb_store offset [initial_length_byte] s)) s)"

definition flush_child :: "cbb_env \<Rightarrow> cbb_child \<Rightarrow> (cbb, unit) action" where
  "flush_child env child s =
     (let child_start = size_add (ch_offset child) (ch_pending_len_len child) in
      if child_start < ch_offset child \<or> base_len s < child_start then (None, s)
      else
        let len = base_len s - child_start in
        if ch_pending_is_asn1 child then flush_asn1 env (ch_offset child) child_start len s
        else flush_prefix (ch_offset child) (ch_pending_len_len child) len s)"

text \<open>The recursion of \<open>CBB_flush\<close> over the children of a CBB, innermost first.\<close>

fun flush_children :: "cbb_env \<Rightarrow> cbb_child list \<Rightarrow> (cbb, unit) action" where
  "flush_children env [] s = (Some (), s)"
| "flush_children env (child # grandchildren) s =
     (case and_then (flush_children env grandchildren) (\<lambda>_. flush_child env child) s of
        (None, s) \<Rightarrow> (None, cbb_set_error s)
      | (Some _, s) \<Rightarrow> (Some (), s))"

definition CBB_flush :: "cbb_env \<Rightarrow> handle \<Rightarrow> (cbb, unit) action" where
  "CBB_flush env h s =
     (if is_stale h s \<or> base_error s then (None, s)
      else case flush_children env (drop h (open_children s)) s of
        (r, s) \<Rightarrow> (r, s\<lparr>open_children := take h (open_children s)\<rparr>))"

text \<open>
  \<open>CBB_finish\<close> hands the buffer to the caller; \<open>no_outputs\<close> says that \<open>out_data\<close> or
  \<open>out_len\<close> is NULL. The released \<open>CBB\<close> may not be used again.
\<close>

definition CBB_finish :: "cbb_env \<Rightarrow> handle \<Rightarrow> bool \<Rightarrow> (cbb, bytes) action" where
  "CBB_finish env h no_outputs =
     (if h \<noteq> 0 then fail
      else and_then (CBB_flush env h) (\<lambda>_ s.
        if base_can_resize s \<and> no_outputs then (None, s) else (Some (base_buf s), s)))"

text \<open>The bytes written through a CBB so far, which must have no open child.\<close>

definition cbb_contents_start :: "handle \<Rightarrow> cbb \<Rightarrow> nat" where
  "cbb_contents_start h s =
     (if h = 0 then 0
      else ch_offset (open_children s ! (h - 1)) + ch_pending_len_len (open_children s ! (h - 1)))"

definition CBB_data :: "handle \<Rightarrow> cbb \<Rightarrow> bytes" where
  "CBB_data h s = drop (cbb_contents_start h s) (base_buf s)"

definition CBB_len :: "handle \<Rightarrow> cbb \<Rightarrow> nat" where
  "CBB_len h s = base_len s - cbb_contents_start h s"

section \<open>Children\<close>

definition cbb_add_child :: "cbb_env \<Rightarrow> nat \<Rightarrow> bool \<Rightarrow> (cbb, unit) action" where
  "cbb_add_child env len_len is_asn1 s =
     (let offset = base_len s in
      and_then (cbb_buffer_add env len_len) (\<lambda>_ s.
        let s = cbb_store offset (replicate len_len 0) s
        in (Some (), s\<lparr>open_children := open_children s @
             [\<lparr>ch_offset = offset, ch_pending_len_len = len_len, ch_pending_is_asn1 = is_asn1\<rparr>]\<rparr>)) s)"

definition cbb_add_length_prefixed :: "cbb_env \<Rightarrow> handle \<Rightarrow> nat \<Rightarrow> (cbb, unit) action" where
  "cbb_add_length_prefixed env h len_len =
     and_then (CBB_flush env h) (\<lambda>_. cbb_add_child env len_len False)"

definition CBB_add_u8_length_prefixed :: "cbb_env \<Rightarrow> handle \<Rightarrow> (cbb, unit) action" where
  "CBB_add_u8_length_prefixed env h = cbb_add_length_prefixed env h 1"

definition CBB_add_u16_length_prefixed :: "cbb_env \<Rightarrow> handle \<Rightarrow> (cbb, unit) action" where
  "CBB_add_u16_length_prefixed env h = cbb_add_length_prefixed env h 2"

definition CBB_add_u24_length_prefixed :: "cbb_env \<Rightarrow> handle \<Rightarrow> (cbb, unit) action" where
  "CBB_add_u24_length_prefixed env h = cbb_add_length_prefixed env h 3"

definition CBB_discard_child :: "handle \<Rightarrow> cbb \<Rightarrow> cbb" where
  "CBB_discard_child h s =
     (if h < length (open_children s)
      then s\<lparr>base_buf := take (ch_offset (open_children s ! h)) (base_buf s),
             open_children := take h (open_children s)\<rparr>
      else s)"

section \<open>Bytes and integers\<close>

text \<open>\<open>CBB_add_space\<close> returns a pointer to the new bytes; the writer stores into them next.\<close>

definition CBB_add_space :: "cbb_env \<Rightarrow> handle \<Rightarrow> nat \<Rightarrow> (cbb, nat) action" where
  "CBB_add_space env h len =
     and_then (CBB_flush env h) (\<lambda>_ s.
       and_then (cbb_buffer_add env len) (\<lambda>_. ret (base_len s)) s)"

definition CBB_add_bytes :: "cbb_env \<Rightarrow> handle \<Rightarrow> bytes \<Rightarrow> (cbb, unit) action" where
  "CBB_add_bytes env h data =
     and_then (CBB_add_space env h (length data)) (\<lambda>out s. (Some (), cbb_store out data s))"

definition CBB_add_zeros :: "cbb_env \<Rightarrow> handle \<Rightarrow> nat \<Rightarrow> (cbb, unit) action" where
  "CBB_add_zeros env h len =
     and_then (CBB_add_space env h len) (\<lambda>out s. (Some (), cbb_store out (replicate len 0) s))"

definition CBB_reserve :: "cbb_env \<Rightarrow> handle \<Rightarrow> nat \<Rightarrow> (cbb, unit) action" where
  "CBB_reserve env h len =
     and_then (CBB_flush env h) (\<lambda>_. cbb_buffer_reserve env len)"

text \<open>\<open>written\<close>: the bytes the caller stored in the reserved space before the call.\<close>

definition CBB_did_write :: "handle \<Rightarrow> bytes \<Rightarrow> (cbb, unit) action" where
  "CBB_did_write h written s =
     (let newlen = size_add (base_len s) (length written) in
      if h < length (open_children s) \<or> newlen < base_len s \<or> newlen > base_cap s then (None, s)
      else (Some (), s\<lparr>base_buf := base_buf s @ written\<rparr>))"

definition cbb_add_u :: "cbb_env \<Rightarrow> handle \<Rightarrow> u64 \<Rightarrow> nat \<Rightarrow> (cbb, unit) action" where
  "cbb_add_u env h v len_len =
     and_then (CBB_add_space env h len_len) (\<lambda>out s.
       case be_split len_len v of (bytes, rest) \<Rightarrow>
         let s = cbb_store out bytes s
         in if rest \<noteq> 0 then (None, cbb_on_error h s) else (Some (), s))"

definition CBB_add_u8 :: "cbb_env \<Rightarrow> handle \<Rightarrow> u8 \<Rightarrow> (cbb, unit) action" where
  "CBB_add_u8 env h value = cbb_add_u env h (ucast value) 1"

definition CBB_add_u16 :: "cbb_env \<Rightarrow> handle \<Rightarrow> u16 \<Rightarrow> (cbb, unit) action" where
  "CBB_add_u16 env h value = cbb_add_u env h (ucast value) 2"

definition CBB_add_u16le :: "cbb_env \<Rightarrow> handle \<Rightarrow> u16 \<Rightarrow> (cbb, unit) action" where
  "CBB_add_u16le env h value = CBB_add_u16 env h (CRYPTO_bswap2 value)"

definition CBB_add_u24 :: "cbb_env \<Rightarrow> handle \<Rightarrow> u32 \<Rightarrow> (cbb, unit) action" where
  "CBB_add_u24 env h value = cbb_add_u env h (ucast value) 3"

definition CBB_add_u32 :: "cbb_env \<Rightarrow> handle \<Rightarrow> u32 \<Rightarrow> (cbb, unit) action" where
  "CBB_add_u32 env h value = cbb_add_u env h (ucast value) 4"

definition CBB_add_u32le :: "cbb_env \<Rightarrow> handle \<Rightarrow> u32 \<Rightarrow> (cbb, unit) action" where
  "CBB_add_u32le env h value = CBB_add_u32 env h (CRYPTO_bswap4 value)"

definition CBB_add_u64 :: "cbb_env \<Rightarrow> handle \<Rightarrow> u64 \<Rightarrow> (cbb, unit) action" where
  "CBB_add_u64 env h value = cbb_add_u env h value 8"

definition CBB_add_u64le :: "cbb_env \<Rightarrow> handle \<Rightarrow> u64 \<Rightarrow> (cbb, unit) action" where
  "CBB_add_u64le env h value = CBB_add_u64 env h (CRYPTO_bswap8 value)"

section \<open>Tags\<close>

text \<open>The number of base-128 groups, and the loop that writes them from the highest down.\<close>

function base128_groups :: "u64 \<Rightarrow> nat" where
  "base128_groups copy = (if copy > 0 then Suc (base128_groups (drop_bit 7 copy)) else 0)"
  by pat_completeness auto

termination
proof (relation "measure unat")
  fix copy :: u64
  assume "copy > 0"
  then have "0 < unat copy" by (simp add: word_less_nat_alt)
  moreover have "unat (drop_bit 7 copy) = unat copy div 128"
    by (subst unat_drop_bit_eq) (simp add: drop_bit_eq_div)
  ultimately show "(drop_bit 7 copy, copy) \<in> measure unat" by simp
qed simp

declare base128_groups.simps [simp del]

fun add_base128_loop :: "cbb_env \<Rightarrow> handle \<Rightarrow> u64 \<Rightarrow> nat \<Rightarrow> (cbb, unit) action" where
  "add_base128_loop env h v 0 = ret ()"
| "add_base128_loop env h v (Suc i) =
     (let byte = ucast (drop_bit (7 * i) v) AND 0x7f;
          byte = (if i \<noteq> 0 then byte OR 0x80 else byte)
      in and_then (CBB_add_u8 env h byte) (\<lambda>_. add_base128_loop env h v i))"

definition add_base128_integer :: "cbb_env \<Rightarrow> handle \<Rightarrow> u64 \<Rightarrow> (cbb, unit) action" where
  "add_base128_integer env h v =
     (let len_len = base128_groups v in add_base128_loop env h v (if len_len = 0 then 1 else len_len))"

definition CBB_add_asn1 :: "cbb_env \<Rightarrow> handle \<Rightarrow> asn1_tag \<Rightarrow> (cbb, unit) action" where
  "CBB_add_asn1 env h tag =
     and_then (CBB_flush env h) (\<lambda>_.
       let tag_bits = ucast (drop_bit 24 tag) AND 0xe0;
           tag_number = tag AND CBS_ASN1_TAG_NUMBER_MASK
       in and_then
            (if tag_number \<ge> 0x1f then
               and_then (CBB_add_u8 env h (tag_bits OR 0x1f)) (\<lambda>_.
                 add_base128_integer env h (ucast tag_number))
             else CBB_add_u8 env h (tag_bits OR ucast tag_number))
            (\<lambda>_. cbb_add_child env 1 True))"

end
