(* ===== verification/Cbs_Decimal.thy ===== *)
theory Cbs_Decimal
  imports Cbs
begin

text \<open>
  Decimal integers: what \<open>snprintf("%" PRIu64)\<close> prints and what
  \<open>CBS_get_u64_decimal\<close> (\<open>crypto/bytestring/cbs.c\<close>) accepts. The reader takes exactly
  the printed numerals: no empty input, no leading zero, no value above \<open>UINT64_MAX\<close>.
\<close>

section \<open>Printing\<close>

fun decimal :: "nat \<Rightarrow> bytes" where
  "decimal n = (if n < 10 then [of_nat (48 + n)] else decimal (n div 10) @ [of_nat (48 + n mod 10)])"

declare decimal.simps [simp del]

definition digit_val :: "u8 \<Rightarrow> nat" where
  "digit_val c = unat c - 48"

definition decimal_val :: "bytes \<Rightarrow> nat" where
  "decimal_val ds = foldl (\<lambda>a c. a * 10 + digit_val c) 0 ds"

lemma decimal_val_Nil [simp]: "decimal_val [] = 0"
  by (simp add: decimal_val_def)

lemma decimal_val_snoc [simp]: "decimal_val (ds @ [c]) = decimal_val ds * 10 + digit_val c"
  by (simp add: decimal_val_def)

lemma decimal_val_Cons: "decimal_val (c # ds) = digit_val c * 10 ^ length ds + decimal_val ds"
proof (induction ds rule: rev_induct)
  case Nil
  then show ?case by (simp add: decimal_val_def)
next
  case (snoc x ds)
  have "decimal_val (c # ds @ [x]) = decimal_val (c # ds) * 10 + digit_val x"
    using decimal_val_snoc [of "c # ds" x] by simp
  with snoc show ?case by (simp add: algebra_simps)
qed

lemma digit_char:
  assumes "k < 10"
  shows "OPENSSL_isdigit (of_nat (48 + k))" and "digit_val (of_nat (48 + k)) = k"
proof -
  have "unat (of_nat (48 + k) :: u8) = 48 + k"
    using assms by (simp add: unat_of_nat del: of_nat_add)
  then show "OPENSSL_isdigit (of_nat (48 + k))" "digit_val (of_nat (48 + k)) = k"
    using assms by (simp_all add: OPENSSL_isdigit_def digit_val_def word_le_nat_alt)
qed

lemma isdigit_unat: "OPENSSL_isdigit c \<longleftrightarrow> 48 \<le> unat c \<and> unat c \<le> 57"
  by (simp add: OPENSSL_isdigit_def word_le_nat_alt)

lemma digit_val_less: "OPENSSL_isdigit c \<Longrightarrow> digit_val c < 10"
  by (auto simp: isdigit_unat digit_val_def)

lemma digit_char_val: "OPENSSL_isdigit c \<Longrightarrow> of_nat (48 + digit_val c) = c"
  by (simp add: isdigit_unat digit_val_def)

lemma decimal_digits: "\<forall>c \<in> set (decimal n). OPENSSL_isdigit c"
proof (induction n rule: decimal.induct)
  case (1 n)
  then show ?case
    by (subst decimal.simps) (auto simp del: of_nat_add intro: digit_char)
qed

lemma decimal_val_decimal [simp]: "decimal_val (decimal n) = n"
proof (induction n rule: decimal.induct)
  case (1 n)
  show ?case
  proof (cases "n < 10")
    case True
    then show ?thesis
      by (subst decimal.simps) (simp del: of_nat_add add: decimal_val_def digit_char)
  next
    case False
    then show ?thesis using 1
      by (subst decimal.simps) (simp del: of_nat_add add: digit_char)
  qed
qed

lemma decimal_nonempty [simp]: "decimal n \<noteq> []"
  by (subst decimal.simps) simp

lemma decimal_length_pos [simp]: "0 < length (decimal n)"
  by simp

text \<open>Digit strings without a leading zero are exactly the decimal numerals.\<close>

lemma decimal_decimal_val:
  assumes "ds \<noteq> []" and "\<forall>c \<in> set ds. OPENSSL_isdigit c" and "hd ds = 48 \<Longrightarrow> length ds = 1"
  shows "decimal (decimal_val ds) = ds"
  using assms
proof (induction ds rule: rev_induct)
  case Nil
  then show ?case by simp
next
  case (snoc c ds)
  have c: "OPENSSL_isdigit c" using snoc.prems by simp
  show ?case
  proof (cases "ds = []")
    case True
    have "decimal (digit_val c) = [c]"
      using digit_val_less [OF c] digit_char_val [OF c]
      by (subst decimal.simps) simp
    with True show ?thesis by (simp add: decimal_val_def)
  next
    case False
    then obtain h t where ds: "ds = h # t" by (cases ds) auto
    have nz: "h \<noteq> 48" using snoc.prems(3) ds by auto
    have h: "OPENSSL_isdigit h" using snoc.prems ds by simp
    have "unat h \<noteq> 48"
    proof
      assume "unat h = 48"
      then have "unat h = unat (48 :: u8)" by simp
      then have "h = 48" by (rule unsigned_word_eqI)
      with nz show False by simp
    qed
    then have "0 < digit_val h"
      using h by (auto simp: isdigit_unat digit_val_def)
    then have "0 < decimal_val ds" by (simp add: ds decimal_val_Cons)
    moreover have "decimal (decimal_val ds) = ds"
      using snoc False nz ds by auto
    ultimately show ?thesis
      using digit_val_less [OF c] digit_char_val [OF c]
      by (subst decimal.simps) simp
  qed
qed

text \<open>One accepted digit: the guards of the loop are exactly "no overflow".\<close>

lemma decimal_step_guard:
  assumes "OPENSSL_isdigit c"
  shows "(v > UINT64_MAX div 10 \<or> v * 10 > UINT64_MAX - ucast (c - 48)) \<longleftrightarrow>
         2 ^ 64 \<le> unat v * 10 + digit_val c"
    and "unat v * 10 + digit_val c < 2 ^ 64 \<Longrightarrow>
         unat (v * 10 + ucast (c - 48)) = unat v * 10 + digit_val c"
proof -
  have d: "unat (ucast (c - 48) :: u64) = digit_val c"
    using assms by (simp add: isdigit_unat digit_val_def unat_sub word_le_nat_alt)
  have d9: "digit_val c \<le> 9" using digit_val_less [OF assms] by simp
  have m: "unat (UINT64_MAX - ucast (c - 48)) = 2 ^ 64 - 1 - digit_val c"
    using d d9 by (subst unat_sub) (simp_all add: word_le_nat_alt)
  have q: "unat (UINT64_MAX div 10) = (2 ^ 64 - 1) div 10"
    by (simp add: unat_div_distrib)
  show "(v > UINT64_MAX div 10 \<or> v * 10 > UINT64_MAX - ucast (c - 48)) \<longleftrightarrow>
         2 ^ 64 \<le> unat v * 10 + digit_val c"
  proof (cases "unat v \<le> (2 ^ 64 - 1) div 10")
    case True
    then have "unat (v * 10) = unat v * 10" by (simp add: unat_word_ariths)
    with True d9 m q show ?thesis by (auto simp: word_less_nat_alt)
  next
    case False
    with q show ?thesis by (auto simp: word_less_nat_alt)
  qed
  show "unat v * 10 + digit_val c < 2 ^ 64 \<Longrightarrow>
         unat (v * 10 + ucast (c - 48)) = unat v * 10 + digit_val c"
    using d by (simp add: unat_word_ariths)
qed

definition stops_digits :: "bytes \<Rightarrow> bool" where
  "stops_digits t \<longleftrightarrow> t = [] \<or> \<not> OPENSSL_isdigit (hd t)"

lemma u64_decimal_loop_sound:
  assumes "u64_decimal_loop v seen s = (Some w, t)"
  shows "\<exists>ds. s = ds @ t \<and> (\<forall>c \<in> set ds. OPENSSL_isdigit c) \<and> stops_digits t \<and>
    unat w = unat v * 10 ^ length ds + decimal_val ds \<and> (seen \<or> ds \<noteq> []) \<and>
    (seen \<and> v = 0 \<longrightarrow> ds = []) \<and> (v = 0 \<and> ds \<noteq> [] \<and> hd ds = 48 \<longrightarrow> length ds = 1)"
  using assms
proof (induction v seen s rule: u64_decimal_loop.induct)
  case (1 v seen)
  then show ?case by (auto simp: stops_digits_def split: if_splits)
next
  case (2 v seen c s)
  show ?case
  proof (cases "OPENSSL_isdigit c")
    case False
    with 2 show ?thesis by (auto simp: stops_digits_def split: if_splits)
  next
    case True
    let ?v = "v * 10 + ucast (c - 48)"
    have acc: "\<not> (v = 0 \<and> seen)" "\<not> (v > UINT64_MAX div 10 \<or> v * 10 > UINT64_MAX - ucast (c - 48))"
      and rest: "u64_decimal_loop ?v True s = (Some w, t)"
      using 2(2) True by (auto split: if_splits)
    from acc(2) have val: "unat ?v = unat v * 10 + digit_val c"
      using decimal_step_guard [OF True, of v] by auto
    from 2(1) [OF _ _ rest] True acc obtain ds where ds:
      "s = ds @ t" "\<forall>c \<in> set ds. OPENSSL_isdigit c" "stops_digits t"
      "unat w = unat ?v * 10 ^ length ds + decimal_val ds" "?v = 0 \<longrightarrow> ds = []"
      by auto
    have "unat w = unat v * 10 ^ length (c # ds) + decimal_val (c # ds)"
      using ds(4) val by (simp add: decimal_val_Cons algebra_simps)
    moreover have "length (c # ds) = 1" if "v = 0" "c = 48"
    proof -
      have "?v = 0" using that by simp
      with ds(5) show ?thesis by simp
    qed
    ultimately show ?thesis
      using ds True acc by (intro exI [of _ "c # ds"]) auto
  qed
qed

lemma u64_decimal_loop_complete:
  assumes "\<forall>c \<in> set ds. OPENSSL_isdigit c" and "stops_digits t"
    and "unat v * 10 ^ length ds + decimal_val ds < 2 ^ 64"
    and "seen \<or> ds \<noteq> []" and "seen \<and> v = 0 \<longrightarrow> ds = []"
    and "v = 0 \<and> ds \<noteq> [] \<and> hd ds = 48 \<longrightarrow> length ds = 1"
  shows "u64_decimal_loop v seen (ds @ t) =
    (Some (of_nat (unat v * 10 ^ length ds + decimal_val ds)), t)"
  using assms
proof (induction ds arbitrary: v seen)
  case Nil
  then show ?case by (cases t) (auto simp: stops_digits_def)
next
  case (Cons c ds)
  let ?v = "v * 10 + ucast (c - 48)"
  have c: "OPENSSL_isdigit c" using Cons.prems by simp
  have "unat v * 10 + digit_val c \<le> (unat v * 10 + digit_val c) * 10 ^ length ds"
    by simp
  also have "\<dots> \<le> unat v * 10 ^ length (c # ds) + decimal_val (c # ds)"
    by (simp add: decimal_val_Cons algebra_simps)
  finally have small: "unat v * 10 + digit_val c < 2 ^ 64" using Cons.prems(3) by linarith
  note val = decimal_step_guard(2) [OF c small]
  have sum: "unat ?v * 10 ^ length ds + decimal_val ds =
    unat v * 10 ^ length (c # ds) + decimal_val (c # ds)"
    by (simp add: val decimal_val_Cons algebra_simps)
  have z: "?v = 0 \<longrightarrow> ds = []"
  proof
    assume "?v = 0"
    then have "unat v = 0" "digit_val c = 0" using val by simp_all
    then have "v = 0" "c = 48" using digit_char_val [OF c] by (simp_all add: unat_eq_0)
    with Cons.prems(6) show "ds = []" by simp
  qed
  have "hd ds = 48 \<and> ?v = 0 \<longrightarrow> ds = []" using z by simp
  then have "u64_decimal_loop ?v True (ds @ t) =
    (Some (of_nat (unat ?v * 10 ^ length ds + decimal_val ds)), t)"
    using Cons.prems z sum by (intro Cons.IH) auto
  moreover have "\<not> (v > UINT64_MAX div 10 \<or> v * 10 > UINT64_MAX - ucast (c - 48))"
    using decimal_step_guard(1) [OF c, of v] small by auto
  moreover have "\<not> (v = 0 \<and> seen)" using Cons.prems(5) by auto
  ultimately show ?case using c sum by simp
qed

lemma hd_decimal: "0 < n \<Longrightarrow> hd (decimal n) \<noteq> 48"
proof (induction n rule: decimal.induct)
  case (1 n)
  show ?case
  proof (cases "n < 10")
    case True
    have "digit_val (of_nat (48 + n)) = n" using True by (rule digit_char)
    then have "of_nat (48 + n) \<noteq> (48 :: u8)" using 1(2) by (auto simp: digit_val_def)
    with True show ?thesis by (subst decimal.simps) (simp del: of_nat_add)
  next
    case False
    with 1 show ?thesis by (subst decimal.simps) simp
  qed
qed

lemma decimal_0 [simp]: "decimal 0 = [48]"
  by (subst decimal.simps) simp

lemma CBS_get_u64_decimal_eq_Some:
  "CBS_get_u64_decimal s = (Some v, t) \<longleftrightarrow> s = decimal (unat v) @ t \<and> stops_digits t"
proof
  assume "CBS_get_u64_decimal s = (Some v, t)"
  then obtain ds where "s = ds @ t" "\<forall>c \<in> set ds. OPENSSL_isdigit c" "stops_digits t"
    "unat v = decimal_val ds" "ds \<noteq> []" "hd ds = 48 \<longrightarrow> length ds = 1"
    unfolding CBS_get_u64_decimal_def using u64_decimal_loop_sound by fastforce
  then show "s = decimal (unat v) @ t \<and> stops_digits t"
    by (simp add: decimal_decimal_val)
next
  assume s: "s = decimal (unat v) @ t \<and> stops_digits t"
  have "hd (decimal (unat v)) = 48 \<longrightarrow> length (decimal (unat v)) = 1"
    using hd_decimal [of "unat v"] by (cases "unat v = 0") auto
  then have "u64_decimal_loop 0 False (decimal (unat v) @ t) = (Some (of_nat (unat v)), t)"
    using s u64_decimal_loop_complete [of "decimal (unat v)" t 0 False] decimal_digits
       unsigned_less [of v]
    by auto
  then show "CBS_get_u64_decimal s = (Some v, t)"
    using s by (simp add: CBS_get_u64_decimal_def)
qed
end
