(* ===== verification/Comparator.thy ===== *)
theory Comparator
  imports Byte_Prelude "HOL-Library.Multiset"
begin

text \<open>
  Comparison functions in the style of C: negative, zero or positive. A \<open>comparator\<close> orders
  its arguments; the sorting and searching routines that take one are proved correct once,
  for every comparator.
\<close>

section \<open>The contract\<close>

locale comparator =
  fixes cmp :: "'a \<Rightarrow> 'a \<Rightarrow> int"
  assumes opposite: "cmp x y < 0 \<longleftrightarrow> 0 < cmp y x"
    and transitive: "cmp x y \<le> 0 \<Longrightarrow> cmp y z \<le> 0 \<Longrightarrow> cmp x z \<le> 0"
begin

lemma same [simp]: "cmp x x = 0"
  using opposite [of x x] by linarith

lemma total: "cmp x y \<le> 0 \<or> cmp y x \<le> 0"
  using opposite [of y x] by linarith

lemma positive_iff: "0 < cmp x y \<longleftrightarrow> \<not> cmp x y \<le> 0"
  by linarith

lemma zero_iff: "cmp x y = 0 \<longleftrightarrow> cmp x y \<le> 0 \<and> cmp y x \<le> 0"
  using opposite [of x y] opposite [of y x] by linarith

lemma zero_sym: "cmp x y = 0 \<longleftrightarrow> cmp y x = 0"
  by (auto simp: zero_iff)

lemma not_less_trans: "cmp x y \<le> 0 \<Longrightarrow> cmp y z < 0 \<Longrightarrow> cmp x z < 0"
  using transitive [of z x y] opposite [of x z] opposite [of y z] by (meson linorder_not_le)

lemma less_le_trans: "cmp x y < 0 \<Longrightarrow> cmp y z \<le> 0 \<Longrightarrow> cmp x z < 0"
  using transitive [of y z x] opposite [of x z] opposite [of x y] by (meson linorder_not_le)

definition ordered :: "'a list \<Rightarrow> bool" where
  "ordered xs \<longleftrightarrow> sorted_wrt (\<lambda>x y. cmp x y \<le> 0) xs"

lemma ordered_simps [simp]:
  "ordered []" "ordered (x # xs) \<longleftrightarrow> (\<forall>y \<in> set xs. cmp x y \<le> 0) \<and> ordered xs"
  by (simp_all add: ordered_def)

lemma ordered_append:
  "ordered (xs @ ys) \<longleftrightarrow> ordered xs \<and> ordered ys \<and> (\<forall>x \<in> set xs. \<forall>y \<in> set ys. cmp x y \<le> 0)"
  by (simp add: ordered_def sorted_wrt_append)

end

locale strict_comparator = comparator +
  assumes zero_eq: "cmp x y = 0 \<Longrightarrow> x = y"
begin

text \<open>There is only one way to order the elements of a list.\<close>

lemma ordered_unique:
  "mset xs = mset ys \<Longrightarrow> ordered xs \<Longrightarrow> ordered ys \<Longrightarrow> xs = ys"
proof (induction xs arbitrary: ys)
  case (Cons x xs)
  then obtain y zs where ys: "ys = y # zs" by (cases ys) auto
  have "set (x # xs) = set (y # zs)" using Cons.prems(1) ys by (metis set_mset_mset)
  moreover have "\<forall>z \<in> set (x # xs). cmp x z \<le> 0" "\<forall>z \<in> set (y # zs). cmp y z \<le> 0"
    using Cons.prems(2,3) ys by auto
  ultimately have "cmp x y \<le> 0" "cmp y x \<le> 0" by (metis list.set_intros(1))+
  then have "cmp x y = 0" by (simp add: zero_iff)
  then have "x = y" by (rule zero_eq)
  then show ?case using Cons ys by simp
qed simp

end

section \<open>The sort of the C library\<close>

text \<open>\<open>qsort\<close> of the C library, as an insertion sort by the comparison function.\<close>

fun qsort_insert :: "('a \<Rightarrow> 'a \<Rightarrow> int) \<Rightarrow> 'a \<Rightarrow> 'a list \<Rightarrow> 'a list" where
  "qsort_insert cmp x [] = [x]"
| "qsort_insert cmp x (y # ys) = (if cmp x y \<le> 0 then x # y # ys else y # qsort_insert cmp x ys)"

definition qsort :: "('a \<Rightarrow> 'a \<Rightarrow> int) \<Rightarrow> 'a list \<Rightarrow> 'a list" where
  "qsort cmp xs = foldr (qsort_insert cmp) xs []"

lemma mset_qsort_insert [simp]: "mset (qsort_insert cmp x xs) = add_mset x (mset xs)"
  by (induction xs) auto

lemma mset_qsort [simp]: "mset (qsort cmp xs) = mset xs"
  by (induction xs) (simp_all add: qsort_def)

lemma qsort_simps [simp]: "qsort cmp [] = []" "qsort cmp (x # xs) = qsort_insert cmp x (qsort cmp xs)"
  by (simp_all add: qsort_def)

lemma set_qsort_insert [simp]: "set (qsort_insert cmp x xs) = insert x (set xs)"
  by (induction xs) auto

context comparator
begin

lemma ordered_qsort_insert: "ordered xs \<Longrightarrow> ordered (qsort_insert cmp x xs)"
proof (induction xs)
  case (Cons y ys)
  show ?case
  proof (cases "cmp x y \<le> 0")
    case True
    then show ?thesis using Cons.prems transitive by auto
  next
    case False
    then have "cmp y x \<le> 0" using total by blast
    then show ?thesis using False Cons by auto
  qed
qed simp

lemma ordered_qsort: "ordered (qsort cmp xs)"
  by (induction xs) (auto intro: ordered_qsort_insert)

end

text \<open>Where equal means identical, the result does not depend on how the library sorts.\<close>

context strict_comparator
begin

lemma qsort_unique: "mset ys = mset xs \<Longrightarrow> ordered ys \<Longrightarrow> qsort cmp xs = ys"
  using ordered_unique [OF _ ordered_qsort] by simp

end

end
