(* ===== verification/Cbb_Asn1.thy ===== *)
theory Cbb_Asn1
  imports Cbb Cbs_Decimal Der_Values Comparator
begin

text \<open>
  The ASN.1 operations of the builder (\<open>crypto/bytestring/cbb.c\<close> lines 495 to 718) and the
  conversion of object identifiers to text (\<open>cbs.c\<close> lines 692 to 767), which builds its
  result with a CBB.
\<close>

section \<open>Integers, octet strings, booleans\<close>

text \<open>The label \<open>err\<close>: whatever failed, the CBB is locked into the error state.\<close>

definition or_error :: "handle \<Rightarrow> (cbb, 'a) action \<Rightarrow> (cbb, 'a) action" where
  "or_error h m s = (case m s of (None, s) \<Rightarrow> (None, cbb_on_error h s) | (Some x, s) \<Rightarrow> (Some x, s))"

text \<open>The loop over the eight bytes of \<open>value\<close>; the result is \<open>started\<close>.\<close>

fun add_uint64_loop :: "cbb_env \<Rightarrow> handle \<Rightarrow> u64 \<Rightarrow> bool \<Rightarrow> nat list \<Rightarrow> (cbb, bool) action" where
  "add_uint64_loop env child value started [] = ret started"
| "add_uint64_loop env child value started (i # is) =
     (let byte = ucast (drop_bit (8 * (7 - i)) value) :: u8 in
      if \<not> started \<and> byte = 0 then add_uint64_loop env child value started is
      else and_then (if \<not> started \<and> byte AND 0x80 \<noteq> 0 then CBB_add_u8 env child 0 else ret ()) (\<lambda>_.
           and_then (CBB_add_u8 env child byte) (\<lambda>_.
             add_uint64_loop env child value True is)))"

definition CBB_add_asn1_uint64_with_tag :: "cbb_env \<Rightarrow> handle \<Rightarrow> u64 \<Rightarrow> asn1_tag \<Rightarrow> (cbb, unit) action" where
  "CBB_add_asn1_uint64_with_tag env h value tag =
     and_then
       (or_error h
         (and_then (CBB_add_asn1 env h tag) (\<lambda>_.
          and_then (add_uint64_loop env (Suc h) value False [0, 1, 2, 3, 4, 5, 6, 7]) (\<lambda>started.
            if \<not> started then CBB_add_u8 env (Suc h) 0 else ret ()))))
       (\<lambda>_. CBB_flush env h)"

definition CBB_add_asn1_uint64 :: "cbb_env \<Rightarrow> handle \<Rightarrow> u64 \<Rightarrow> (cbb, unit) action" where
  "CBB_add_asn1_uint64 env h value = CBB_add_asn1_uint64_with_tag env h value CBS_ASN1_INTEGER"

text \<open>\<open>bytes\<close> is the \<open>int64_t\<close> as it lies in memory, low byte first.\<close>

fun int64_start :: "bytes \<Rightarrow> nat \<Rightarrow> nat" where
  "int64_start bytes 0 = 0"
| "int64_start bytes (Suc start) =
     (if bytes ! Suc start = 0xff \<and> bytes ! start AND 0x80 \<noteq> 0 then int64_start bytes start else Suc start)"

fun add_bytes_down :: "cbb_env \<Rightarrow> handle \<Rightarrow> bytes \<Rightarrow> nat \<Rightarrow> (cbb, unit) action" where
  "add_bytes_down env child bytes 0 = ret ()"
| "add_bytes_down env child bytes (Suc i) =
     and_then (CBB_add_u8 env child (bytes ! i)) (\<lambda>_. add_bytes_down env child bytes i)"

definition CBB_add_asn1_int64_with_tag :: "cbb_env \<Rightarrow> handle \<Rightarrow> u64 \<Rightarrow> asn1_tag \<Rightarrow> (cbb, unit) action" where
  "CBB_add_asn1_int64_with_tag env h value tag =
     (if 0 \<le> sint value then CBB_add_asn1_uint64_with_tag env h value tag
      else
        let bytes = rev (be_bytes 8 value); start = int64_start bytes 7
        in and_then
             (or_error h
               (and_then (CBB_add_asn1 env h tag) (\<lambda>_. add_bytes_down env (Suc h) bytes (Suc start))))
             (\<lambda>_. CBB_flush env h))"

definition CBB_add_asn1_int64 :: "cbb_env \<Rightarrow> handle \<Rightarrow> u64 \<Rightarrow> (cbb, unit) action" where
  "CBB_add_asn1_int64 env h value = CBB_add_asn1_int64_with_tag env h value CBS_ASN1_INTEGER"

definition CBB_add_asn1_octet_string :: "cbb_env \<Rightarrow> handle \<Rightarrow> bytes \<Rightarrow> (cbb, unit) action" where
  "CBB_add_asn1_octet_string env h data =
     or_error h
       (and_then (CBB_add_asn1 env h CBS_ASN1_OCTETSTRING) (\<lambda>_.
        and_then (CBB_add_bytes env (Suc h) data) (\<lambda>_. CBB_flush env h)))"

definition CBB_add_asn1_bool :: "cbb_env \<Rightarrow> handle \<Rightarrow> bool \<Rightarrow> (cbb, unit) action" where
  "CBB_add_asn1_bool env h value =
     or_error h
       (and_then (CBB_add_asn1 env h CBS_ASN1_BOOLEAN) (\<lambda>_.
        and_then (CBB_add_u8 env (Suc h) (if value then 0xff else 0)) (\<lambda>_. CBB_flush env h)))"

section \<open>Object identifiers from text\<close>

definition parse_dotted_decimal :: "(cbs, u64) action" where
  "parse_dotted_decimal =
     and_then CBS_get_u64_decimal (\<lambda>out cbs.
       case CBS_get_u8 cbs of
         (None, cbs) \<Rightarrow> (Some out, cbs)
       | (Some dot, cbs) \<Rightarrow> if dot = 0x2E \<and> CBS_len cbs > 0 then (Some out, cbs) else (None, cbs))"

lemma parse_dotted_decimal_shortens:
  assumes "parse_dotted_decimal cbs = (Some a, cbs')"
  shows "length cbs' < length cbs"
proof -
  from assms obtain v t where d: "CBS_get_u64_decimal cbs = (Some v, t)"
    and c: "(case CBS_get_u8 t of (None, cbs) \<Rightarrow> (Some v, cbs)
      | (Some dot, cbs) \<Rightarrow> if dot = 0x2E \<and> CBS_len cbs > 0 then (Some v, cbs) else (None, cbs)) = (Some a, cbs')"
    by (auto simp: parse_dotted_decimal_def)
  have l: "length cbs' \<le> length t" using c by (cases t) (auto split: if_splits)
  from d have "length t < length cbs"
    unfolding CBS_get_u64_decimal_eq_Some using decimal_nonempty by auto
  with l show ?thesis by simp
qed

function oid_components_loop :: "cbb_env \<Rightarrow> handle \<Rightarrow> cbs \<Rightarrow> (cbb, unit) action" where
  "oid_components_loop env h cbs s =
     (if CBS_len cbs > 0 then
        case parse_dotted_decimal cbs of (None, _) \<Rightarrow> (None, s) | (Some a, cbs') \<Rightarrow>
        case add_base128_integer env h a s of (None, s) \<Rightarrow> (None, s) | (Some _, s) \<Rightarrow>
        oid_components_loop env h cbs' s
      else (Some (), s))"
  by pat_completeness auto

termination
  by (relation "measure (\<lambda>(env, h, cbs, s). length cbs)")
    (auto dest!: parse_dotted_decimal_shortens [OF sym])

declare oid_components_loop.simps [simp del]

definition CBB_add_asn1_oid_from_text :: "cbb_env \<Rightarrow> handle \<Rightarrow> bytes \<Rightarrow> (cbb, unit) action" where
  "CBB_add_asn1_oid_from_text env h text =
     and_then (CBB_flush env h) (\<lambda>_ s.
       case parse_dotted_decimal text of (None, _) \<Rightarrow> (None, s) | (Some a, cbs) \<Rightarrow>
       case parse_dotted_decimal cbs of (None, _) \<Rightarrow> (None, s) | (Some b, cbs) \<Rightarrow>
       if a > 2 \<or> (a < 2 \<and> b > 39) \<or> b > UINT64_MAX - 80 then (None, s)
       else and_then (add_base128_integer env h (40 * a + b)) (\<lambda>_. oid_components_loop env h cbs) s)"

section \<open>Object identifiers to text\<close>

definition add_decimal :: "cbb_env \<Rightarrow> handle \<Rightarrow> u64 \<Rightarrow> (cbb, unit) action" where
  "add_decimal env h v = CBB_add_bytes env h (decimal (unat v))"

lemma base128_loop_shortens: "base128_loop w cbs = (Some v, t) \<Longrightarrow> length t < length cbs"
  by (induction w cbs rule: base128_loop.induct) (auto simp: Let_def split: if_splits)

function oid_text_loop :: "cbb_env \<Rightarrow> cbs \<Rightarrow> (cbb, unit) action" where
  "oid_text_loop env copy s =
     (if CBS_len copy \<noteq> 0 then
        case parse_base128_integer copy of (None, _) \<Rightarrow> (None, s) | (Some v, copy') \<Rightarrow>
        case and_then (CBB_add_u8 env 0 0x2E) (\<lambda>_. add_decimal env 0 v) s of
          (None, s) \<Rightarrow> (None, s)
        | (Some _, s) \<Rightarrow> oid_text_loop env copy' s
      else (Some (), s))"
  by pat_completeness auto

termination
  by (relation "measure (\<lambda>(env, copy, s). length copy)")
    (auto simp: parse_base128_integer_def dest!: base128_loop_shortens [OF sym])

declare oid_text_loop.simps [simp del]

text \<open>The returned string, without its terminator; \<open>None\<close> for NULL.\<close>

definition CBS_asn1_oid_to_text :: "cbb_env \<Rightarrow> cbs \<Rightarrow> bytes option" where
  "CBS_asn1_oid_to_text env cbs =
     (case CBB_init env 32 of None \<Rightarrow> None | Some cbb \<Rightarrow>
      case parse_base128_integer cbs of (None, _) \<Rightarrow> None | (Some v, copy) \<Rightarrow>
      map_option butlast (fst (
        and_then
          (if v \<ge> 80 then
             and_then (CBB_add_bytes env 0 [0x32, 0x2E]) (\<lambda>_. add_decimal env 0 (v - 80))
           else
             and_then (add_decimal env 0 (v div 40)) (\<lambda>_.
             and_then (CBB_add_u8 env 0 0x2E) (\<lambda>_. add_decimal env 0 (v mod 40))))
          (\<lambda>_. and_then (oid_text_loop env copy) (\<lambda>_.
               and_then (CBB_add_u8 env 0 0) (\<lambda>_. CBB_finish env 0 False)))
          cbb)))"

section \<open>SET OF\<close>

definition compare_set_of_element :: "cbs \<Rightarrow> cbs \<Rightarrow> int" where
  "compare_set_of_element a b =
     (let a_len = CBS_len a; b_len = CBS_len b;
          min_len = (if a_len < b_len then a_len else b_len);
          ret = OPENSSL_memcmp (take min_len a) (take min_len b)
      in if ret \<noteq> 0 then ret
         else if a_len = b_len then 0
         else if a_len < b_len then - 1 else 1)"

lemma der_element_nonempty: "valid_tag tag \<Longrightarrow> der_element tag c \<noteq> []"
  using tag.enc_nonempty by (auto simp: der_element_def der_header_def)

lemma element_shortens: "CBS_get_any_asn1_element s = (Some el, t) \<Longrightarrow> length t < length s"
  using der_element_nonempty by (auto simp: CBS_get_any_asn1_element_eq_Some)

text \<open>The elements the contents consist of; both loops of the code run over them.\<close>

function parse_elements :: "cbs \<Rightarrow> cbs list option" where
  "parse_elements cbs =
     (if CBS_len cbs = 0 then Some []
      else case CBS_get_any_asn1_element cbs of (None, _) \<Rightarrow> None | (Some el, cbs') \<Rightarrow>
        map_option ((#) (el_bytes el)) (parse_elements cbs'))"
  by pat_completeness auto

termination
  by (relation "measure length")
    (auto dest!: element_shortens [OF sym])

declare parse_elements.simps [simp del]

definition CBB_flush_asn1_set_of :: "cbb_env \<Rightarrow> handle \<Rightarrow> (cbb, unit) action" where
  "CBB_flush_asn1_set_of env h =
     and_then (CBB_flush env h) (\<lambda>_ s.
       case parse_elements (CBB_data h s) of None \<Rightarrow> (None, s) | Some children \<Rightarrow>
       if length children < 2 then (Some (), s)
       else if \<not> alloc_ok env (CBB_len h s) \<or> \<not> alloc_ok env (size_mul (length children) 16) then (None, s)
       else (Some (), cbb_store (cbb_contents_start h s)
                        (concat (qsort compare_set_of_element children)) s))"

end
