(* ===== verification/Cbb_Spec.thy ===== *)
theory Cbb_Spec
  imports Cbb Der_Values
begin

text \<open>
  What the builder promises, and the proof that \<open>Cbb\<close> keeps it. The specification is a
  stack of frames: the bytes of the root and, for each open child, its kind of length
  prefix and the bytes written through it. \<open>represents\<close> relates a state of the code to a
  stack; each operation of the code is shown to be the operation of the stack.
\<close>

section \<open>The specification\<close>

datatype pfx = Fixed nat | Asn1

type_synonym frames = "(pfx \<times> bytes) list"

fun plen :: "pfx \<Rightarrow> nat" where
  "plen (Fixed n) = n"
| "plen Asn1 = 1"

text \<open>A length prefix around finished contents; \<open>None\<close> if the length does not fit.\<close>

fun enclose :: "pfx \<Rightarrow> bytes \<Rightarrow> bytes option" where
  "enclose (Fixed n) x = (if length x < 256 ^ n then Some (be_bytes n (of_nat (length x)) @ x) else None)"
| "enclose Asn1 x = (if length x \<le> 0xfffffffe then Some (der_length (length x) @ x) else None)"

fun close :: "frames \<Rightarrow> bytes option" where
  "close [] = Some []"
| "close ((p, c) # fs) = (case close fs of None \<Rightarrow> None | Some t \<Rightarrow> enclose p (c @ t))"

text \<open>Flushing the CBB at depth \<open>h\<close> closes the frames above it into its contents.\<close>

fun flush_at :: "nat \<Rightarrow> bytes \<Rightarrow> frames \<Rightarrow> (bytes \<times> frames) option" where
  "flush_at 0 r fs = map_option (\<lambda>e. (r @ e, [])) (close fs)"
| "flush_at (Suc h) r [] = None"
| "flush_at (Suc h) r ((p, c) # fs) = map_option (\<lambda>(c', fs'). (r, (p, c') # fs')) (flush_at h c fs)"

fun append_top :: "bytes \<Rightarrow> frames \<Rightarrow> bytes \<Rightarrow> bytes \<times> frames" where
  "append_top r [] x = (r @ x, [])"
| "append_top r ((p, c) # fs) x = (case append_top c fs x of (c', fs') \<Rightarrow> (r, (p, c') # fs'))"

section \<open>The representation\<close>

fun pending :: "frames \<Rightarrow> bytes" where
  "pending [] = []"
| "pending ((p, c) # fs) = replicate (plen p) 0 @ c @ pending fs"

fun chain :: "nat \<Rightarrow> frames \<Rightarrow> cbb_child list" where
  "chain k [] = []"
| "chain k ((p, c) # fs) =
     \<lparr>ch_offset = k, ch_pending_len_len = plen p, ch_pending_is_asn1 = (p = Asn1)\<rparr> #
     chain (k + plen p + length c) fs"

definition wf_cbb :: "cbb \<Rightarrow> bool" where
  "wf_cbb s \<longleftrightarrow> base_len s \<le> base_cap s \<and> base_cap s \<le> SIZE_MAX"

definition represents :: "cbb \<Rightarrow> bytes \<Rightarrow> frames \<Rightarrow> bool" where
  "represents s r fs \<longleftrightarrow> wf_cbb s \<and> \<not> base_error s \<and> base_buf s = r @ pending fs \<and>
     open_children s = chain (length r) fs \<and> (\<forall>p \<in> fst ` set fs. plen p \<le> 8)"

lemma pending_append: "pending (fs @ gs) = pending fs @ pending gs"
  by (induction fs rule: pending.induct) auto

lemma chain_length [simp]: "length (chain k fs) = length fs"
  by (induction k fs rule: chain.induct) auto

lemma chain_shift: "chain (k + m) fs = map (\<lambda>ch. ch\<lparr>ch_offset := k + ch_offset ch\<rparr>) (chain m fs)"
proof (induction fs arbitrary: m)
  case (Cons f fs)
  then show ?case by (cases f) (simp add: add.assoc)
qed simp

lemma drop_chain: "drop h (chain (length r) fs) = chain (length (r @ pending (take h fs))) (drop h fs)"
proof (induction h arbitrary: r fs)
  case (Suc h)
  show ?case
  proof (cases fs)
    case (Cons f gs)
    obtain p c where f: "f = (p, c)" by (cases f)
    show ?thesis using Suc [of "r @ replicate (plen p) 0 @ c" gs] by (simp add: Cons f add.assoc)
  qed simp
qed simp

lemma flush_at_close:
  "flush_at h r fs = Some (r', fs') \<Longrightarrow> \<exists>e. h \<le> length fs \<and> close (drop h fs) = Some e \<and>
     r' @ pending fs' = r @ pending (take h fs) @ e \<and> chain (length r') fs' = take h (chain (length r) fs) \<and>
     map fst fs' = map fst (take h fs)"
proof (induction h r fs arbitrary: r' fs' rule: flush_at.induct)
  case (3 h r p c fs)
  then obtain c' gs where g: "flush_at h c fs = Some (c', gs)" "r' = r" "fs' = (p, c') # gs" by auto
  from 3(1) [OF g(1)] obtain e where e: "h \<le> length fs" "close (drop h fs) = Some e"
    "c' @ pending gs = c @ pending (take h fs) @ e" "chain (length c') gs = take h (chain (length c) fs)"
    "map fst gs = map fst (take h fs)"
    by blast
  have "chain (length r + plen p + length c') gs = take h (chain (length r + plen p + length c) fs)"
    using e(4) by (simp add: chain_shift take_map)
  then show ?case using e g by simp
qed auto

lemma flush_at_defined:
  "h \<le> length fs \<Longrightarrow> (\<exists>q. flush_at h r fs = Some q) \<longleftrightarrow> (\<exists>e. close (drop h fs) = Some e)"
proof (induction h r fs rule: flush_at.induct)
  case (3 h r p c fs)
  then show ?case by auto
qed auto


section \<open>The buffer\<close>

text \<open>What an operation may change besides the bytes: the capacity.\<close>

definition same_chain :: "cbb \<Rightarrow> cbb \<Rightarrow> bool" where
  "same_chain s s' \<longleftrightarrow> open_children s' = open_children s \<and> base_error s' = base_error s \<and>
     base_can_resize s' = base_can_resize s \<and> (\<not> base_can_resize s \<longrightarrow> base_cap s' = base_cap s)"

lemma same_chain_refl [simp]: "same_chain s s"
  by (simp add: same_chain_def)

lemma same_chain_trans [trans]: "same_chain s s' \<Longrightarrow> same_chain s' s'' \<Longrightarrow> same_chain s s''"
  by (auto simp: same_chain_def)

lemma cbb_store_sel [simp]:
  "open_children (cbb_store i bs s) = open_children s" "base_error (cbb_store i bs s) = base_error s"
  "base_can_resize (cbb_store i bs s) = base_can_resize s" "base_cap (cbb_store i bs s) = base_cap s"
  "base_buf (cbb_store i bs s) = take i (base_buf s) @ bs @ drop (i + length bs) (base_buf s)"
  by (simp_all add: cbb_store_def)

text \<open>Every allocation succeeds and \<open>n\<close> bytes in all are within the limit of the buffer.\<close>

definition room_for :: "cbb_env \<Rightarrow> cbb \<Rightarrow> nat \<Rightarrow> bool" where
  "room_for env s n \<longleftrightarrow> (if base_can_resize s then n \<le> SIZE_MAX \<and> (\<forall>m \<le> SIZE_MAX. alloc_ok env m) else n \<le> base_cap s)"

lemma room_for_mono: "room_for env s n \<Longrightarrow> m \<le> n \<Longrightarrow> room_for env s m"
  by (auto simp: room_for_def)

lemma room_for_same_chain: "same_chain s s' \<Longrightarrow> room_for env s' n = room_for env s n"
  by (auto simp: room_for_def same_chain_def)

lemma size_mul_le: "size_mul a b \<le> SIZE_MAX"
  by (simp add: size_mul_def SIZE_MAX_def less_Suc_eq_le [symmetric])

lemma size_add_exact_of_ge:
  assumes "\<not> size_add a b < a" and "a \<le> SIZE_MAX" and "b \<le> SIZE_MAX"
  shows "size_add a b = a + b" and "a + b \<le> SIZE_MAX"
  using size_add_overflow_iff [OF assms(2,3)] assms(1) by auto

lemma cbb_buffer_reserve_Some:
  assumes "cbb_buffer_reserve env n s = (Some u, s')" and "wf_cbb s" and "n \<le> SIZE_MAX"
  shows "base_buf s' = base_buf s \<and> base_len s + n \<le> base_cap s' \<and> base_cap s' \<le> SIZE_MAX \<and>
    same_chain s s'"
proof -
  have b: "base_len s \<le> SIZE_MAX" using assms(2) by (simp add: wf_cbb_def)
  have "\<not> size_add (base_len s) n < base_len s"
    using assms(1) by (auto simp: cbb_buffer_reserve_def Let_def split: if_splits)
  note e = size_add_exact_of_ge [OF this b assms(3)]
  show ?thesis
    using assms(1,2) e size_mul_le [of "base_cap s" 2]
    by (auto simp: cbb_buffer_reserve_def Let_def wf_cbb_def same_chain_def split: if_splits)
qed

lemma cbb_buffer_reserve_room:
  assumes "room_for env s (base_len s + n)" and "wf_cbb s"
  shows "\<exists>s'. cbb_buffer_reserve env n s = (Some (), s')"
  using assms size_mul_le [of "base_cap s" 2]
  by (auto simp: cbb_buffer_reserve_def Let_def room_for_def wf_cbb_def split: if_splits)

lemma cbb_buffer_add_Some:
  assumes "cbb_buffer_add env n s = (Some u, s')" and "wf_cbb s" and "n \<le> SIZE_MAX"
  shows "\<exists>junk. length junk = n \<and> base_buf s' = base_buf s @ junk \<and> wf_cbb s' \<and> same_chain s s'"
proof -
  from assms(1) obtain s1 where r: "cbb_buffer_reserve env n s = (Some (), s1)"
    and s': "s' = s1\<lparr>base_buf := base_buf s1 @ map (uninit env) [base_len s1..<base_len s1 + n]\<rparr>"
    by (auto simp: cbb_buffer_add_def)
  from cbb_buffer_reserve_Some [OF r assms(2,3)] show ?thesis by (auto simp: s' wf_cbb_def same_chain_def)
qed

lemma cbb_buffer_add_room:
  assumes "room_for env s (base_len s + n)" and "wf_cbb s"
  shows "\<exists>s'. cbb_buffer_add env n s = (Some (), s')"
  using cbb_buffer_reserve_room [OF assms] by (auto simp: cbb_buffer_add_def)

section \<open>Flushing one child\<close>

lemma flush_prefix_spec:
  assumes "base_buf s = r @ z @ x" and "length z = n" and "len < 2 ^ 64" and "n \<le> 8"
  shows "flush_prefix (length r) n len s = (if len < 256 ^ n then Some () else None,
    cbb_store (length r) (be_bytes n (of_nat len)) s)"
proof -
  have "drop_bit (8 * n) (of_nat len :: u64) = 0 \<longleftrightarrow> len < 256 ^ n"
  proof
    assume "drop_bit (8 * n) (of_nat len :: u64) = 0"
    from unat_less_of_drop_bit [OF this] show "len < 256 ^ n"
      using assms(3) by (simp add: unat_of_nat take_bit_nat_eq_self power_mult)
  next
    assume "len < 256 ^ n"
    then have "len < 2 ^ (8 * n)" by (simp add: power_mult)
    then show "drop_bit (8 * n) (of_nat len :: u64) = 0"
      using drop_bit_of_nat_small [of len "8 * n"] assms(4)
      by (cases "n = 8") (auto intro!: bit_word_eqI simp: bit_drop_bit_eq)
  qed
  then show ?thesis by (simp add: flush_prefix_def be_split_eq)
qed


lemma der_length_octets:
  assumes "n \<le> 0xfffffffe"
  obtains k where "asn1_length_octets n = Some (k + 1, hd (der_length n))"
    and "k \<le> 4" and "der_length n = hd (der_length n) # be_bytes k (of_nat (if k = 0 then 0 else n))"
    and "k \<noteq> 0 \<longrightarrow> n < 256 ^ k"
proof -
  have "(\<exists>k. asn1_length_octets n = Some (k + 1, hd (der_length n)) \<and> k \<le> 4 \<and>
    der_length n = hd (der_length n) # be_bytes k (of_nat (if k = 0 then 0 else n)) \<and> (k \<noteq> 0 \<longrightarrow> n < 256 ^ k))"
  proof -
    consider "n > 0xffffff" | "n > 0xffff" "n \<le> 0xffffff" | "n > 0xff" "n \<le> 0xffff" | "n > 0x7f" "n \<le> 0xff" | "n \<le> 0x7f"
      by linarith
    then show ?thesis
    proof cases
      case 1 then show ?thesis using assms by (intro exI [of _ 4]) (simp add: asn1_length_octets_def der_length_def)
    next
      case 2 then show ?thesis by (intro exI [of _ 3]) (simp add: asn1_length_octets_def der_length_def)
    next
      case 3 then show ?thesis by (intro exI [of _ 2]) (simp add: asn1_length_octets_def der_length_def)
    next
      case 4 then show ?thesis by (intro exI [of _ 1]) (simp add: asn1_length_octets_def der_length_def)
    next
      case 5 then show ?thesis by (intro exI [of _ 0]) (simp add: asn1_length_octets_def der_length_def)
    qed
  qed
  then show thesis using that by blast
qed

lemma asn1_length_octets_None: "asn1_length_octets n = None \<longleftrightarrow> \<not> n \<le> 0xfffffffe"
  by (simp add: asn1_length_octets_def)

lemma same_chain_store [simp]: "same_chain s (cbb_store i bs s)"
  by (simp add: same_chain_def)

lemma wf_cbb_store: "wf_cbb s \<Longrightarrow> i + length bs \<le> base_len s \<Longrightarrow> wf_cbb (cbb_store i bs s)"
  by (simp add: wf_cbb_def)

lemma flush_asn1_eq:
  assumes "asn1_length_octets len = Some (k + 1, b)" and "take len (drop child_start (base_buf s)) = x"
  shows "flush_asn1 env offset child_start len s =
    and_then (if k \<noteq> 0 then and_then (cbb_buffer_add env k) (\<lambda>_ s.
        (Some (), cbb_store (child_start + k) x s)) else ret ())
      (\<lambda>_ s. flush_prefix (offset + 1) k (if k = 0 then 0 else len) (cbb_store offset [b] s)) s"
proof -
  have "k + 1 - 1 = k" "(k + 1 = 1) = (k = 0)" "(k + 1 \<noteq> 1) = (k \<noteq> 0)" by simp_all
  then show ?thesis unfolding flush_asn1_def assms(1) Let_def option.case prod.case assms(2) by presburger
qed

lemma flush_asn1_Some:
  assumes "flush_asn1 env (length r) (length r + 1) (length x) s = (Some u, s')"
    and "base_buf s = r @ [z] @ x" and "wf_cbb s"
  shows "enclose Asn1 x = Some (der_length (length x) @ x) \<and> base_buf s' = r @ der_length (length x) @ x \<and>
    wf_cbb s' \<and> same_chain s s'"
proof -
  have le: "length x \<le> 0xfffffffe"
    using assms(1) asn1_length_octets_None [of "length x"] by (auto simp: flush_asn1_def)
  then obtain k where k: "asn1_length_octets (length x) = Some (k + 1, hd (der_length (length x)))" "k \<le> 4"
    "der_length (length x) = hd (der_length (length x)) # be_bytes k (of_nat (if k = 0 then 0 else length x))"
    "k \<noteq> 0 \<longrightarrow> length x < 256 ^ k" by (rule der_length_octets)
  define b where "b = hd (der_length (length x))"
  have cont: "take (length x) (drop (length r + 1) (base_buf s)) = x" by (simp add: assms(2))
  obtain s1 where s1: "(if k \<noteq> 0 then and_then (cbb_buffer_add env k) (\<lambda>_ s.
      (Some (), cbb_store (length r + 1 + k) x s)) else ret ()) s = (Some (), s1)"
    and s': "flush_prefix (length r + 1) k (if k = 0 then 0 else length x) (cbb_store (length r) [b] s1) = (Some u, s')"
    using assms(1) unfolding flush_asn1_eq [OF k(1) cont] b_def [symmetric] and_then_eq_Some by auto
  have "\<exists>y. length y = k + 1 \<and> base_buf s1 = r @ y @ x \<and> wf_cbb s1 \<and> same_chain s s1"
  proof (cases "k = 0")
    case True
    then show ?thesis using s1 assms(2,3) by (intro exI [of _ "[z]"]) simp
  next
    case False
    then obtain s0 where s0: "cbb_buffer_add env k s = (Some (), s0)" "s1 = cbb_store (length r + 1 + k) x s0"
      using s1 by auto
    from cbb_buffer_add_Some [OF s0(1) assms(3)] k(2) obtain junk where
      j: "length junk = k" "base_buf s0 = base_buf s @ junk" "wf_cbb s0" "same_chain s s0" by (auto simp: SIZE_MAX_def)
    have "base_buf s1 = r @ take (k + 1) (z # x @ junk) @ x"
      using j(1) by (simp add: s0(2) j(2) assms(2))
    moreover have "wf_cbb s1" unfolding s0(2) using j by (intro wf_cbb_store) (simp_all add: assms(2))
    moreover have "same_chain s s1" using j(4) s0(2) by (simp add: same_chain_def)
    ultimately show ?thesis using j(1) by (intro exI [of _ "take (k + 1) (z # x @ junk)"]) simp
  qed
  then obtain y where y: "length y = k + 1" "base_buf s1 = r @ y @ x" "wf_cbb s1" "same_chain s s1" by blast
  obtain y0 ys where ys: "y = y0 # ys" "length ys = k" using y(1) by (cases y) auto
  define s2 where "s2 = cbb_store (length r) [b] s1"
  have s2: "base_buf s2 = (r @ [b]) @ ys @ x" using y(2) by (simp add: s2_def ys)
  have "flush_prefix (length (r @ [b])) k (if k = 0 then 0 else length x) s2 = (Some u, s')"
    using s' by (simp add: s2_def)
  moreover have "(if k = 0 then 0 else length x) < 2 ^ 64" using le by simp
  ultimately have "s' = cbb_store (length (r @ [b])) (be_bytes k (of_nat (if k = 0 then 0 else length x))) s2"
    using flush_prefix_spec [OF s2 ys(2), of "if k = 0 then 0 else length x"] k(2) by (simp split: if_splits)
  then have "base_buf s' = r @ (b # be_bytes k (of_nat (if k = 0 then 0 else length x))) @ x" 
    and "same_chain s2 s'" and "wf_cbb s2 \<longrightarrow> wf_cbb s'"
    using s2 ys(2) by (simp_all add: wf_cbb_def)
  moreover have "wf_cbb s2" unfolding s2_def using y by (intro wf_cbb_store) simp_all
  moreover have "same_chain s s2" using y(4) by (simp add: s2_def same_chain_def)
  ultimately show ?thesis using le same_chain_trans [of s s2 s'] k(3) by (simp add: b_def)
qed


lemma flush_asn1_room:
  assumes "length x \<le> 0xfffffffe" and "base_buf s = r @ [z] @ x" and "wf_cbb s"
    and "room_for env s (length r + length (der_length (length x)) + length x)"
  shows "\<exists>s'. flush_asn1 env (length r) (length r + 1) (length x) s = (Some (), s')"
proof -
  obtain k where k: "asn1_length_octets (length x) = Some (k + 1, hd (der_length (length x)))" "k \<le> 4"
    "der_length (length x) = hd (der_length (length x)) # be_bytes k (of_nat (if k = 0 then 0 else length x))"
    "k \<noteq> 0 \<longrightarrow> length x < 256 ^ k" using assms(1) by (rule der_length_octets)
  define b where "b = hd (der_length (length x))"
  have cont: "take (length x) (drop (length r + 1) (base_buf s)) = x" by (simp add: assms(2))
  have "length (der_length (length x)) = k + 1" by (subst k(3)) simp
  then have room: "room_for env s (base_len s + k)" using assms(4) by (simp add: assms(2) add.commute add.left_commute)
  have "\<exists>s1. (if k \<noteq> 0 then and_then (cbb_buffer_add env k) (\<lambda>_ s.
      (Some (), cbb_store (length r + 1 + k) x s)) else ret ()) s = (Some (), s1)"
    using cbb_buffer_add_room [OF room assms(3)] by auto
  then obtain s1 where s1: "(if k \<noteq> 0 then and_then (cbb_buffer_add env k) (\<lambda>_ s.
      (Some (), cbb_store (length r + 1 + k) x s)) else ret ()) s = (Some (), s1)" by blast
  have "fst (flush_prefix (length r + 1) k (if k = 0 then 0 else length x) (cbb_store (length r) [b] s1)) = Some ()"
  proof -
    have l: "(if k = 0 then 0 else length x) < 256 ^ k" using k(4) by simp
    then have "(if k = 0 then 0 else length x) < 2 ^ (8 * k)" by (simp only: power_mult) simp
    then have "drop_bit (8 * k) (of_nat (if k = 0 then 0 else length x) :: u64) = 0"
      using drop_bit_of_nat_small [of "if k = 0 then 0 else length x" "8 * k"] k(2) by linarith
    then show ?thesis unfolding flush_prefix_def be_split_eq by (simp only: prod.case simp_thms if_False fst_conv)
  qed
  then obtain s' where "flush_prefix (length r + 1) k (if k = 0 then 0 else length x) (cbb_store (length r) [b] s1) = (Some (), s')"
    by (metis prod.collapse)
  then show ?thesis using s1 unfolding flush_asn1_eq [OF k(1) cont] b_def [symmetric] and_then_eq_Some by auto
qed

definition child_of :: "nat \<Rightarrow> pfx \<Rightarrow> cbb_child" where
  "child_of k p = \<lparr>ch_offset = k, ch_pending_len_len = plen p, ch_pending_is_asn1 = (p = Asn1)\<rparr>"

lemma flush_child_eq:
  assumes "base_buf s = r @ replicate (plen p) 0 @ x" and "wf_cbb s" and "plen p \<le> 8"
  shows "flush_child env (child_of (length r) p) s =
    (if p = Asn1 then flush_asn1 env (length r) (length r + 1) (length x) s
     else flush_prefix (length r) (plen p) (length x) s)"
proof -
  have "length r + plen p \<le> SIZE_MAX" using assms(1,2) by (simp add: wf_cbb_def)
  then have "size_add (length r) (plen p) = length r + plen p" by simp
  then show ?thesis using assms(1) by (auto simp: flush_child_def child_of_def Let_def)
qed

lemma flush_child_Some:
  assumes "flush_child env (child_of (length r) p) s = (Some u, s')"
    and "base_buf s = r @ replicate (plen p) 0 @ x" and "wf_cbb s" and "plen p \<le> 8"
  shows "\<exists>e. enclose p x = Some e \<and> base_buf s' = r @ e \<and> wf_cbb s' \<and> same_chain s s'"
proof (cases p)
  case Asn1
  with assms have "flush_asn1 env (length r) (length r + 1) (length x) s = (Some u, s')"
    using flush_child_eq [OF assms(2-4)] by simp
  from flush_asn1_Some [OF this, of 0] assms(2,3) Asn1 show ?thesis by simp
next
  case (Fixed n)
  have l: "length x < 2 ^ 64" using assms(2,3) by (simp add: wf_cbb_def SIZE_MAX_def)
  have b: "base_buf s = r @ replicate n 0 @ x" and n: "n \<le> 8" using assms(2,4) Fixed by simp_all
  from assms(1) have f: "flush_prefix (length r) n (length x) s = (Some u, s')"
    using flush_child_eq [OF assms(2-4)] Fixed by simp
  note spec = flush_prefix_spec [OF b _ l n]
  have s': "length x < 256 ^ n" "s' = cbb_store (length r) (be_bytes n (of_nat (length x))) s"
    using f spec by (simp_all split: if_splits)
  moreover have "wf_cbb s'" unfolding s'(2) using assms(3) b by (intro wf_cbb_store) simp_all
  ultimately show ?thesis using b by (simp add: Fixed same_chain_def)
qed

lemma flush_child_room:
  assumes "enclose p x = Some e" and "base_buf s = r @ replicate (plen p) 0 @ x" and "wf_cbb s"
    and "plen p \<le> 8" and "room_for env s (length r + length e)"
  shows "\<exists>s'. flush_child env (child_of (length r) p) s = (Some (), s')"
proof (cases p)
  case Asn1
  then have e: "length x \<le> 0xfffffffe" "e = der_length (length x) @ x"
    using assms(1) by (simp_all split: if_splits)
  have "base_buf s = r @ [0] @ x" using assms(2) Asn1 by simp
  from flush_asn1_room [OF e(1) this assms(3)] assms(5) e(2)
  have "\<exists>s'. flush_asn1 env (length r) (length r + 1) (length x) s = (Some (), s')" by (simp add: add.assoc)
  then show ?thesis using flush_child_eq [OF assms(2-4), of env] Asn1 by simp
next
  case (Fixed n)
  have l: "length x < 2 ^ 64" using assms(2,3) by (simp add: wf_cbb_def SIZE_MAX_def)
  have b: "base_buf s = r @ replicate n 0 @ x" and n: "n \<le> 8" using assms(2,4) Fixed by simp_all
  show ?thesis using flush_prefix_spec [OF b _ l n] assms(1) flush_child_eq [OF assms(2-4), of env] Fixed
    by (simp split: if_splits)
qed

section \<open>Flushing a chain\<close>

lemma chain_Cons: "chain k ((p, c) # fs) = child_of k p # chain (k + plen p + length c) fs"
  by (simp add: child_of_def)

declare chain.simps(2) [simp del]

lemma enclose_length: "enclose p x = Some e \<Longrightarrow> length x \<le> length e"
  by (cases p) (auto split: if_splits)

lemma flush_children_Some:
  assumes "flush_children env (chain (length r) fs) s = (Some u, s')"
    and "base_buf s = r @ pending fs" and "wf_cbb s" and "\<forall>p \<in> fst ` set fs. plen p \<le> 8"
  shows "\<exists>e. close fs = Some e \<and> base_buf s' = r @ e \<and> wf_cbb s' \<and> same_chain s s'"
  using assms
proof (induction fs arbitrary: r s s' u)
  case Nil
  then show ?case by simp
next
  case (Cons f fs)
  obtain p c where f: "f = (p, c)" by (cases f)
  let ?r = "r @ replicate (plen p) 0 @ c"
  from Cons.prems(1) obtain s1 where s1: "flush_children env (chain (length ?r) fs) s = (Some (), s1)"
    and c: "flush_child env (child_of (length r) p) s1 = (Some (), s')"
    by (auto simp: f chain_Cons add.assoc split: prod.splits option.splits)
  have b: "base_buf s = ?r @ pending fs" using Cons.prems(2) by (simp add: f)
  from Cons.IH [OF s1 b Cons.prems(3)] Cons.prems(4) obtain t where
    t: "close fs = Some t" "base_buf s1 = ?r @ t" "wf_cbb s1" "same_chain s s1" by auto
  have "base_buf s1 = r @ replicate (plen p) 0 @ (c @ t)" using t(2) by simp
  from flush_child_Some [OF c this t(3)] Cons.prems(4) f obtain e where
    "enclose p (c @ t) = Some e" "base_buf s' = r @ e" "wf_cbb s'" "same_chain s1 s'" by auto
  then show ?case using t same_chain_trans by (auto simp: f)
qed

lemma flush_children_room:
  assumes "close fs = Some e" and "room_for env s (length r + length e)"
    and "base_buf s = r @ pending fs" and "wf_cbb s" and "\<forall>p \<in> fst ` set fs. plen p \<le> 8"
  shows "\<exists>s'. flush_children env (chain (length r) fs) s = (Some (), s')"
  using assms
proof (induction fs arbitrary: r s e)
  case Nil
  then show ?case by simp
next
  case (Cons f fs)
  obtain p c where f: "f = (p, c)" by (cases f)
  let ?r = "r @ replicate (plen p) 0 @ c"
  from Cons.prems(1) obtain t where t: "close fs = Some t" "enclose p (c @ t) = Some e"
    by (auto simp: f split: option.splits)
  have b: "base_buf s = ?r @ pending fs" using Cons.prems(3) by (simp add: f)
  have pl: "plen p + length (c @ t) \<le> length e"
    using t(2) by (cases p) (auto simp: der_length_def split: if_splits)
  have room: "room_for env s (length ?r + length t)"
    using Cons.prems(2) pl by (elim room_for_mono) simp
  from Cons.IH [OF t(1) room b Cons.prems(4)] Cons.prems(5) obtain s1 where
    s1: "flush_children env (chain (length ?r) fs) s = (Some (), s1)" by auto
  from flush_children_Some [OF s1 b Cons.prems(4)] Cons.prems(5) t(1) have
    q: "base_buf s1 = ?r @ t" "wf_cbb s1" "same_chain s s1" by auto
  have "base_buf s1 = r @ replicate (plen p) 0 @ (c @ t)" using q(1) by simp
  moreover have "plen p \<le> 8" using Cons.prems(5) f by simp
  moreover have "room_for env s1 (length r + length e)" using Cons.prems(2) room_for_same_chain [OF q(3)] by blast
  ultimately obtain s' where "flush_child env (child_of (length r) p) s1 = (Some (), s')"
    using flush_child_room [OF t(2) _ q(2)] by blast
  then have "flush_children env (chain (length r) (f # fs)) s = (Some (), s')"
    using s1 by (simp add: f chain_Cons add.assoc)
  then show ?case by blast
qed


section \<open>Refinement\<close>

definition same_limit :: "cbb \<Rightarrow> cbb \<Rightarrow> bool" where
  "same_limit s s' \<longleftrightarrow> base_can_resize s' = base_can_resize s \<and> (\<not> base_can_resize s \<longrightarrow> base_cap s' = base_cap s)"

lemma same_limit_trans [trans]: "same_limit s s' \<Longrightarrow> same_limit s' s'' \<Longrightarrow> same_limit s s''"
  by (auto simp: same_limit_def)

lemma room_for_same_limit: "same_limit s s' \<Longrightarrow> room_for env s' n = room_for env s n"
  by (auto simp: room_for_def same_limit_def)

lemma same_chain_limit: "same_chain s s' \<Longrightarrow> same_limit s s'"
  by (simp add: same_chain_def same_limit_def)

lemma CBB_flush_refines:
  assumes "represents s r fs" and "h \<le> length fs" and "CBB_flush env h s = (Some u, s')"
  shows "\<exists>r' fs'. flush_at h r fs = Some (r', fs') \<and> represents s' r' fs' \<and> length fs' = h \<and>
    same_limit s s'"
proof -
  note rep = assms(1) [unfolded represents_def]
  have st: "\<not> is_stale h s" using assms(2) rep by (simp add: is_stale_def)
  let ?r = "r @ pending (take h fs)"
  obtain s1 where f: "flush_children env (chain (length ?r) (drop h fs)) s = (Some (), s1)"
    and s': "s' = s1\<lparr>open_children := take h (open_children s1)\<rparr>"
    using assms(3) st rep drop_chain [of h r fs]
    by (auto simp: CBB_flush_def split: prod.splits)
  have "pending fs = pending (take h fs) @ pending (drop h fs)" by (simp flip: pending_append)
  then have b: "base_buf s = ?r @ pending (drop h fs)" using rep by simp
  have small: "\<forall>p \<in> fst ` set (drop h fs). plen p \<le> 8" using rep by (auto dest: in_set_dropD)
  from flush_children_Some [OF f b] rep small obtain e where
    e: "close (drop h fs) = Some e" "base_buf s1 = ?r @ e" "wf_cbb s1" "same_chain s s1" by auto
  obtain r' fs' where q: "flush_at h r fs = Some (r', fs')"
    using flush_at_defined [OF assms(2), of r] e(1) by fastforce
  from flush_at_close [OF q] e(1) have
    c: "r' @ pending fs' = ?r @ e" "chain (length r') fs' = take h (chain (length r) fs)"
      "map fst fs' = map fst (take h fs)" by auto
  have "open_children s' = chain (length r') fs'"
    using c(2) e(4) rep by (simp add: s' same_chain_def)
  moreover have "\<forall>p \<in> fst ` set fs'. plen p \<le> 8"
  proof -
    have "fst ` set fs' \<subseteq> fst ` set fs" using c(3) set_take_subset [of h fs] by (metis image_mono list.set_map)
    then show ?thesis using rep by blast
  qed
  ultimately have "represents s' r' fs'"
    using e c(1) rep by (simp add: represents_def s' wf_cbb_def same_chain_def)
  moreover have "length fs' = h" using c(3) assms(2) by (metis length_map length_take min_absorb2)
  moreover have "same_limit s s'" using same_chain_limit [OF e(4)] by (simp add: s' same_limit_def)
  ultimately show ?thesis using q by blast
qed

lemma CBB_flush_progress:
  assumes "represents s r fs" and "flush_at h r fs = Some (r', fs')" and "h \<le> length fs"
    and "room_for env s (length r' + length (pending fs'))"
  shows "\<exists>s'. CBB_flush env h s = (Some (), s')"
proof -
  note rep = assms(1) [unfolded represents_def]
  let ?r = "r @ pending (take h fs)"
  from flush_at_close [OF assms(2)] obtain e where
    e: "close (drop h fs) = Some e" "r' @ pending fs' = r @ pending (take h fs) @ e" by blast
  have "pending fs = pending (take h fs) @ pending (drop h fs)" by (simp flip: pending_append)
  then have b: "base_buf s = ?r @ pending (drop h fs)" using rep by simp
  have small: "\<forall>p \<in> fst ` set (drop h fs). plen p \<le> 8" using rep by (auto dest: in_set_dropD)
  have "length r' + length (pending fs') = length ?r + length e"
    using e(2) by (metis append.assoc length_append)
  then have "\<exists>s'. flush_children env (chain (length ?r) (drop h fs)) s = (Some (), s')"
    using flush_children_room [OF e(1) _ b] rep small assms(4) by auto
  then show ?thesis using rep assms(3) drop_chain [of h r fs]
    by (auto simp: CBB_flush_def is_stale_def)
qed

section \<open>Operations that append\<close>

definition write_at :: "nat \<Rightarrow> bytes \<Rightarrow> frames \<Rightarrow> bytes \<Rightarrow> (bytes \<times> frames) option" where
  "write_at h r fs x = map_option (\<lambda>(r', fs'). append_top r' fs' x) (flush_at h r fs)"

lemma append_top_props:
  "append_top r fs x = (r', fs') \<Longrightarrow> r' @ pending fs' = r @ pending fs @ x \<and> length fs' = length fs \<and>
     map fst fs' = map fst fs \<and> chain k fs' = chain k fs \<and> chain (length r') fs' = chain (length r) fs"
proof (induction r fs x arbitrary: r' fs' k rule: append_top.induct)
  case (2 r p c fs x)
  then obtain c' gs where g: "append_top c fs x = (c', gs)" "r' = r" "fs' = (p, c') # gs"
    by (auto split: prod.splits)
  from "2.IH" [OF g(1)] have "chain (length c') gs = chain (length c) fs" and
    "c' @ pending gs = c @ pending fs @ x" "length gs = length fs" "map fst gs = map fst fs" by blast+
  then show ?case using g by (simp add: chain_Cons chain_shift)
qed auto

lemma append_top_append: "append_top r fs x = (r', fs') \<Longrightarrow> append_top r' fs' y = append_top r fs (x @ y)"
  by (induction r fs x arbitrary: r' fs' rule: append_top.induct) (auto split: prod.splits)

lemma flush_at_self: "length fs = h \<Longrightarrow> flush_at h r fs = Some (r, fs)"
  by (induction h r fs rule: flush_at.induct) auto

lemma flush_at_length: "flush_at h r fs = Some (r', fs') \<Longrightarrow> length fs' = h"
  using flush_at_close [of h r fs r' fs'] by (metis length_map length_take min_absorb2)

lemma write_at_SomeE:
  assumes "write_at h r fs x = Some (r', fs')"
  obtains r1 fs1 where "flush_at h r fs = Some (r1, fs1)" and "append_top r1 fs1 x = (r', fs')"
  using assms by (cases "flush_at h r fs") (auto simp: write_at_def)

lemma write_at_SomeI: "flush_at h r fs = Some (r1, fs1) \<Longrightarrow> write_at h r fs x = Some (append_top r1 fs1 x)"
  by (simp add: write_at_def)

lemma write_at_length: "write_at h r fs x = Some (r', fs') \<Longrightarrow> length fs' = h"
  by (elim write_at_SomeE) (simp add: append_top_props flush_at_length)

lemma write_at_seq:
  assumes "write_at h r fs x = Some (r', fs')"
  shows "write_at h r' fs' y = write_at h r fs (x @ y)"
proof -
  obtain r1 fs1 where 1: "flush_at h r fs = Some (r1, fs1)" "append_top r1 fs1 x = (r', fs')"
    using assms by (rule write_at_SomeE)
  show ?thesis
    using write_at_SomeI [OF 1(1), of "x @ y"] append_top_append [OF 1(2), of y]
      write_at_SomeI [OF flush_at_self [OF write_at_length [OF assms]], where r = r' and x = y] by simp
qed

lemma append_top_Nil: "append_top r fs [] = (r, fs)"
  by (induction r fs "[] :: bytes" rule: append_top.induct) auto

lemma write_at_Nil: "write_at h r fs [] = flush_at h r fs"
  by (simp add: write_at_def append_top_Nil case_prod_beta' option.map_ident)

definition total :: "bytes \<Rightarrow> frames \<Rightarrow> nat" where
  "total r fs = length r + length (pending fs)"

lemma total_eq: "r' @ pending fs' = r @ pending fs @ x \<Longrightarrow> total r' fs' = total r fs + length x"
  unfolding total_def by (metis add.assoc length_append)

lemma total_write_at:
  assumes "write_at h r fs x = Some (r', fs')" and "write_at h r fs (x @ y) = Some (r'', fs'')"
  shows "total r'' fs'' = total r' fs' + length y"
proof -
  have "write_at h r' fs' y = Some (r'', fs'')" using write_at_seq [OF assms(1)] assms(2) by simp
  then have "append_top r' fs' y = (r'', fs'')"
    using write_at_SomeI [OF flush_at_self [OF write_at_length [OF assms(1)]], where r = r' and x = y] by simp
  then show ?thesis using append_top_props total_eq by blast
qed

text \<open>
  The contract of an operation that writes \<open>x\<close> to the CBB at depth \<open>h\<close>: it flushes, it
  appends exactly \<open>x\<close>, and it succeeds whenever the lengths fit their prefixes, the bytes
  fit the buffer and memory can be had.
\<close>

locale appender =
  fixes op :: "cbb_env \<Rightarrow> (cbb, unit) action" and h :: handle and x :: bytes
  assumes sound: "represents s r fs \<Longrightarrow> h \<le> length fs \<Longrightarrow> op env s = (Some (), s') \<Longrightarrow>
      \<exists>r' fs'. write_at h r fs x = Some (r', fs') \<and> represents s' r' fs' \<and> same_limit s s'"
    and progress: "represents s r fs \<Longrightarrow> h \<le> length fs \<Longrightarrow> write_at h r fs x = Some (r', fs') \<Longrightarrow>
      room_for env s (total r' fs') \<Longrightarrow> \<exists>s'. op env s = (Some (), s')"
begin

lemma exact:
  assumes "represents s r fs" and "h \<le> length fs" and "write_at h r fs x = Some (r', fs')"
    and "room_for env s (total r' fs')"
  shows "\<exists>s'. op env s = (Some (), s') \<and> represents s' r' fs' \<and> same_limit s s'"
  using progress [OF assms] sound [OF assms(1,2)] assms(3) by fastforce

lemma fails: "represents s r fs \<Longrightarrow> h \<le> length fs \<Longrightarrow> write_at h r fs x = None \<Longrightarrow> fst (op env s) = None"
  using sound [of s r fs env] by (cases "op env s"; cases "fst (op env s)") auto

end

lemma appender_seq:
  assumes "appender op1 h x" and "appender op2 h y"
  shows "appender (\<lambda>env. and_then (op1 env) (\<lambda>_. op2 env)) h (x @ y)"
proof
  fix s r fs env s'
  assume rep: "represents s r fs" "h \<le> length fs" and op: "and_then (op1 env) (\<lambda>_. op2 env) s = (Some (), s')"
  from op obtain s1 where s1: "op1 env s = (Some (), s1)" "op2 env s1 = (Some (), s')" by auto
  from appender.sound [OF assms(1) rep s1(1)] obtain r1 fs1 where
    1: "write_at h r fs x = Some (r1, fs1)" "represents s1 r1 fs1" "same_limit s s1" by blast
  have "h \<le> length fs1" using write_at_length [OF 1(1)] by simp
  from appender.sound [OF assms(2) 1(2) this s1(2)] 1 write_at_seq [OF 1(1)] same_limit_trans
  show "\<exists>r' fs'. write_at h r fs (x @ y) = Some (r', fs') \<and> represents s' r' fs' \<and> same_limit s s'"
    by fastforce
next
  fix s r fs env r' fs'
  assume rep: "represents s r fs" "h \<le> length fs" and w: "write_at h r fs (x @ y) = Some (r', fs')"
    and room: "room_for env s (total r' fs')"
  obtain r1 fs1 where 1: "write_at h r fs x = Some (r1, fs1)"
    using w by (fastforce simp: write_at_def)
  have t: "total r1 fs1 \<le> total r' fs'" using total_write_at [OF 1 w] by simp
  from appender.exact [OF assms(1) rep 1 room_for_mono [OF room t]] obtain s1 where
    s1: "op1 env s = (Some (), s1)" "represents s1 r1 fs1" "same_limit s s1" by blast
  have "h \<le> length fs1" using write_at_length [OF 1] by simp
  moreover have "write_at h r1 fs1 y = Some (r', fs')" using write_at_seq [OF 1] w by simp
  moreover have "room_for env s1 (total r' fs')" using room room_for_same_limit [OF s1(3)] by simp
  ultimately obtain s' where "op2 env s1 = (Some (), s')"
    using appender.exact [OF assms(2) s1(2)] by blast
  then show "\<exists>s'. and_then (op1 env) (\<lambda>_. op2 env) s = (Some (), s')" using s1(1) by auto
qed


section \<open>Bytes and integers\<close>

definition put :: "cbb_env \<Rightarrow> handle \<Rightarrow> bytes \<Rightarrow> (cbb, unit) action" where
  "put env h x = and_then (CBB_flush env h) (\<lambda>_ s.
     and_then (cbb_buffer_add env (length x)) (\<lambda>_ s'. (Some (), cbb_store (base_len s) x s')) s)"

lemma represents_total: "represents s r fs \<Longrightarrow> base_len s = total r fs"
  by (simp add: represents_def total_def)

lemma represents_append:
  assumes "represents s r fs" and "base_buf s' = base_buf s @ x" and "wf_cbb s'" and "same_chain s s'"
    and "append_top r fs x = (r', fs')"
  shows "represents s' r' fs'"
proof -
  note p = append_top_props [OF assms(5)]
  have "fst ` set fs' = fst ` set fs" using p by (metis list.set_map)
  then have "\<forall>p \<in> fst ` set fs'. plen p \<le> 8"
    using assms(1) by (simp add: represents_def)
  moreover have "open_children s' = chain (length r) fs"
    using assms(1,4) by (simp add: represents_def same_chain_def)
  then have "open_children s' = chain (length r') fs'" using p [of 0] by (simp only:)
  moreover have "base_buf s' = r @ pending fs @ x" using assms(1,2) by (simp add: represents_def)
  then have "base_buf s' = r' @ pending fs'" using p [of 0] by (simp only:)
  ultimately show ?thesis using assms by (simp add: represents_def same_chain_def)
qed

lemma buffer_add_represents:
  assumes "represents s r fs" and "cbb_buffer_add env (length x) s = (Some (), s')" and "length x \<le> SIZE_MAX"
    and "append_top r fs x = (r', fs')"
  shows "represents (cbb_store (base_len s) x s') r' fs'" and "same_limit s (cbb_store (base_len s) x s')"
proof -
  have "wf_cbb s" using assms(1) by (simp add: represents_def)
  from cbb_buffer_add_Some [OF assms(2) this assms(3)] obtain junk where
    j: "length junk = length x" "base_buf s' = base_buf s @ junk" "wf_cbb s'" "same_chain s s'" by blast
  then have "base_buf (cbb_store (base_len s) x s') = base_buf s @ x" by simp
  moreover have "wf_cbb (cbb_store (base_len s) x s')" using j by (intro wf_cbb_store) simp_all
  moreover have "same_chain s (cbb_store (base_len s) x s')" using j by (simp add: same_chain_def)
  ultimately show "represents (cbb_store (base_len s) x s') r' fs'" "same_limit s (cbb_store (base_len s) x s')"
    using represents_append assms(1,4) same_chain_limit by blast+
qed

lemma put_appender:
  assumes "length x \<le> SIZE_MAX"
  shows "appender (\<lambda>env. put env h x) h x"
proof
  fix s r fs env s'
  assume rep: "represents s r fs" "h \<le> length fs" and op: "put env h x s = (Some (), s')"
  then obtain s1 s2 where f: "CBB_flush env h s = (Some (), s1)"
    and a: "cbb_buffer_add env (length x) s1 = (Some (), s2)" and s': "s' = cbb_store (base_len s1) x s2"
    by (auto simp: put_def)
  from CBB_flush_refines [OF rep f] obtain r1 fs1 where
    1: "flush_at h r fs = Some (r1, fs1)" "represents s1 r1 fs1" "same_limit s s1" by blast
  obtain r' fs' where t: "append_top r1 fs1 x = (r', fs')" by (metis surj_pair)
  show "\<exists>r' fs'. write_at h r fs x = Some (r', fs') \<and> represents s' r' fs' \<and> same_limit s s'"
    using buffer_add_represents [OF 1(2) a assms t] write_at_SomeI [OF 1(1), of x] t s' same_limit_trans [OF 1(3)]
    by auto
next
  fix s r fs env r' fs'
  assume rep: "represents s r fs" "h \<le> length fs" and w: "write_at h r fs x = Some (r', fs')"
    and room: "room_for env s (total r' fs')"
  obtain r1 fs1 where 1: "flush_at h r fs = Some (r1, fs1)" "append_top r1 fs1 x = (r', fs')"
    using w by (rule write_at_SomeE)
  then have t: "total r' fs' = total r1 fs1 + length x" using append_top_props total_eq by blast
  then have "room_for env s (length r1 + length (pending fs1))" using room by (elim room_for_mono) (simp add: total_def)
  from CBB_flush_progress [OF rep(1) 1(1) rep(2) this] obtain s1 where f: "CBB_flush env h s = (Some (), s1)" by blast
  from CBB_flush_refines [OF rep f] 1(1) have q: "represents s1 r1 fs1" "same_limit s s1" by auto
  then have "room_for env s1 (base_len s1 + length x)"
    using room t room_for_same_limit [OF q(2)] by (simp add: represents_total [OF q(1)])
  from cbb_buffer_add_room [OF this] q(1) obtain s2 where "cbb_buffer_add env (length x) s1 = (Some (), s2)"
    by (auto simp: represents_def)
  then show "\<exists>s'. put env h x s = (Some (), s')" using f by (simp add: put_def)
qed

lemma CBB_add_bytes_put: "CBB_add_bytes env h data = put env h data"
  by (rule ext) (auto simp: CBB_add_bytes_def CBB_add_space_def put_def and_then_def ret_def
      split: prod.splits option.splits)

lemma CBB_add_zeros_put: "CBB_add_zeros env h n = put env h (replicate n 0)"
  by (rule ext) (auto simp: CBB_add_zeros_def CBB_add_space_def put_def and_then_def ret_def
      split: prod.splits option.splits)

lemma cbb_add_u_put:
  "drop_bit (8 * n) v = 0 \<Longrightarrow> cbb_add_u env h v n = put env h (be_bytes n v)"
  by (rule ext) (auto simp: cbb_add_u_def CBB_add_space_def put_def and_then_def ret_def be_split_eq Let_def
      split: prod.splits option.splits)

lemma add_bytes_appender: "length data \<le> SIZE_MAX \<Longrightarrow> appender (\<lambda>env. CBB_add_bytes env h data) h data"
  unfolding CBB_add_bytes_put by (rule put_appender)

lemma add_u_appender:
  "drop_bit (8 * n) v = 0 \<Longrightarrow> n \<le> 8 \<Longrightarrow> appender (\<lambda>env. cbb_add_u env h v n) h (be_bytes n v)"
  by (simp only: cbb_add_u_put) (rule put_appender, simp add: SIZE_MAX_def)

interpretation add_u8: appender "\<lambda>env. CBB_add_u8 env h v" h "[v]" for h v
  using add_u_appender [of 1 "ucast v :: u64" h] drop_bit_ucast_up [of 8 v]
  by (simp add: CBB_add_u8_def be_bytes_Suc)

interpretation add_u16: appender "\<lambda>env. CBB_add_u16 env h v" h "be_bytes 2 (ucast v)" for h v
  using add_u_appender [of 2 "ucast v :: u64" h] drop_bit_ucast_up [of 16 v] by (simp add: CBB_add_u16_def)

interpretation add_u32: appender "\<lambda>env. CBB_add_u32 env h v" h "be_bytes 4 (ucast v)" for h v
  using add_u_appender [of 4 "ucast v :: u64" h] drop_bit_ucast_up [of 32 v] by (simp add: CBB_add_u32_def)

interpretation add_u64: appender "\<lambda>env. CBB_add_u64 env h v" h "be_bytes 8 v" for h v
  using add_u_appender [of 8 v h] by (simp add: CBB_add_u64_def drop_bit_ucast_up [of 64 v])

section \<open>Opening a child\<close>

definition open_at :: "nat \<Rightarrow> bytes \<Rightarrow> frames \<Rightarrow> bytes \<Rightarrow> pfx \<Rightarrow> (bytes \<times> frames) option" where
  "open_at h r fs pre p = map_option (\<lambda>(r', fs'). (r', fs' @ [(p, [])])) (write_at h r fs pre)"

locale opener =
  fixes op :: "cbb_env \<Rightarrow> (cbb, unit) action" and h :: handle and pre :: bytes and p :: pfx
  assumes sound: "represents s r fs \<Longrightarrow> h \<le> length fs \<Longrightarrow> op env s = (Some (), s') \<Longrightarrow>
      \<exists>r' fs'. open_at h r fs pre p = Some (r', fs') \<and> represents s' r' fs' \<and> same_limit s s'"
    and progress: "represents s r fs \<Longrightarrow> h \<le> length fs \<Longrightarrow> open_at h r fs pre p = Some (r', fs') \<Longrightarrow>
      room_for env s (total r' fs') \<Longrightarrow> \<exists>s'. op env s = (Some (), s')"
begin

lemma exact:
  assumes "represents s r fs" and "h \<le> length fs" and "open_at h r fs pre p = Some (r', fs')"
    and "room_for env s (total r' fs')"
  shows "\<exists>s'. op env s = (Some (), s') \<and> represents s' r' fs' \<and> same_limit s s'"
  using progress [OF assms] sound [OF assms(1,2)] assms(3) by fastforce

end


lemma cbb_add_child_represents:
  assumes "represents s r fs" and "cbb_add_child env (plen p) (p = Asn1) s = (Some (), s')" and "plen p \<le> 8"
    and "append_top r fs [] = (r, fs)"
  shows "represents s' r (fs @ [(p, [])])" and "same_limit s s'"
proof -
  note rep = assms(1) [unfolded represents_def]
  from assms(2) obtain s1 where a: "cbb_buffer_add env (plen p) s = (Some (), s1)"
    and s': "s' = (cbb_store (base_len s) (replicate (plen p) 0) s1)\<lparr>open_children := open_children s1 @
       [\<lparr>ch_offset = base_len s, ch_pending_len_len = plen p, ch_pending_is_asn1 = (p = Asn1)\<rparr>]\<rparr>"
    by (auto simp: cbb_add_child_def Let_def)
  from cbb_buffer_add_Some [OF a] rep assms(3) obtain junk where
    j: "length junk = plen p" "base_buf s1 = base_buf s @ junk" "wf_cbb s1" "same_chain s s1"
    by (auto simp: SIZE_MAX_def)
  have "chain (length r) (fs @ [(p, [])]) = chain (length r) fs @ [child_of (base_len s) p]"
  proof -
    have "chain k (fs @ [(p, [])]) = chain k fs @ [child_of (k + length (pending fs)) p]" for k
      by (induction k fs rule: chain.induct) (auto simp: chain_Cons add.assoc)
    then show ?thesis using rep by simp
  qed
  then have "open_children s' = chain (length r) (fs @ [(p, [])])"
    using j(4) rep by (simp add: s' same_chain_def child_of_def)
  moreover have "base_buf s' = r @ pending (fs @ [(p, [])])" using j rep by (simp add: s' pending_append)
  moreover have "wf_cbb s'" using j by (simp add: s' wf_cbb_def)
  ultimately show "represents s' r (fs @ [(p, [])])" using j(4) rep assms(3) by (simp add: represents_def s' same_chain_def)
  show "same_limit s s'" using j(4) by (simp add: s' same_limit_def same_chain_def)
qed

lemma cbb_add_child_room:
  assumes "represents s r fs" and "room_for env s (total r (fs @ [(p, [])]))"
  shows "\<exists>s'. cbb_add_child env (plen p) (p = Asn1) s = (Some (), s')"
proof -
  have "wf_cbb s" using assms(1) by (simp add: represents_def)
  moreover have "total r (fs @ [(p, [])]) = base_len s + plen p"
    using represents_total [OF assms(1)] by (simp add: total_def pending_append)
  ultimately obtain s1 where "cbb_buffer_add env (plen p) s = (Some (), s1)"
    using cbb_buffer_add_room [of env s "plen p"] assms(2) by auto
  then show ?thesis by (simp add: cbb_add_child_def Let_def)
qed

text \<open>Writing the tag, then opening the child: the two steps of every operation that opens one.\<close>

lemma opener_seq:
  assumes "appender op1 h pre" and "plen p \<le> 8"
  shows "opener (\<lambda>env. and_then (op1 env) (\<lambda>_. cbb_add_child env (plen p) (p = Asn1))) h pre p"
proof
  fix s r fs env s'
  assume rep: "represents s r fs" "h \<le> length fs"
    and op: "and_then (op1 env) (\<lambda>_. cbb_add_child env (plen p) (p = Asn1)) s = (Some (), s')"
  from op obtain s1 where s1: "op1 env s = (Some (), s1)" "cbb_add_child env (plen p) (p = Asn1) s1 = (Some (), s')"
    by auto
  from appender.sound [OF assms(1) rep s1(1)] obtain r1 fs1 where
    1: "write_at h r fs pre = Some (r1, fs1)" "represents s1 r1 fs1" "same_limit s s1" by blast
  note c = cbb_add_child_represents [OF 1(2) s1(2) assms(2) append_top_Nil]
  show "\<exists>r' fs'. open_at h r fs pre p = Some (r', fs') \<and> represents s' r' fs' \<and> same_limit s s'"
    using 1 c same_limit_trans by (auto simp: open_at_def)
next
  fix s r fs env r' fs'
  assume rep: "represents s r fs" "h \<le> length fs" and w: "open_at h r fs pre p = Some (r', fs')"
    and room: "room_for env s (total r' fs')"
  from w obtain fs1 where 1: "write_at h r fs pre = Some (r', fs1)" "fs' = fs1 @ [(p, [])]"
    by (auto simp: open_at_def)
  have "room_for env s (total r' fs1)" using room by (elim room_for_mono) (simp add: 1(2) total_def pending_append)
  from appender.exact [OF assms(1) rep 1(1) this] obtain s1 where
    s1: "op1 env s = (Some (), s1)" "represents s1 r' fs1" "same_limit s s1" by blast
  have "room_for env s1 (total r' (fs1 @ [(p, [])]))" using room room_for_same_limit [OF s1(3)] 1(2) by simp
  from cbb_add_child_room [OF s1(2) this] s1(1)
  show "\<exists>s'. and_then (op1 env) (\<lambda>_. cbb_add_child env (plen p) (p = Asn1)) s = (Some (), s')" by auto
qed

lemma flush_appender: "appender (\<lambda>env. CBB_flush env h) h []"
proof
  show "\<exists>r' fs'. write_at h r fs [] = Some (r', fs') \<and> represents s' r' fs' \<and> same_limit s s'"
    if "represents s r fs" "h \<le> length fs" "CBB_flush env h s = (Some (), s')" for s r fs env s'
    using CBB_flush_refines [OF that] by (auto simp: write_at_Nil)
  show "\<exists>s'. CBB_flush env h s = (Some (), s')"
    if "represents s r fs" "h \<le> length fs" "write_at h r fs [] = Some (r', fs')" "room_for env s (total r' fs')"
    for s r fs env r' fs'
    using CBB_flush_progress [of s r fs h r' fs' env] that by (simp add: write_at_Nil total_def)
qed

lemma length_prefixed_opener:
  "n \<le> 8 \<Longrightarrow> opener (\<lambda>env. cbb_add_length_prefixed env h n) h [] (Fixed n)"
  using opener_seq [OF flush_appender, of "Fixed n" h] by (simp add: cbb_add_length_prefixed_def)

interpretation u8_child: opener "\<lambda>env. CBB_add_u8_length_prefixed env h" h "[]" "Fixed 1" for h
  using length_prefixed_opener [of 1 h] by (simp add: CBB_add_u8_length_prefixed_def)

interpretation u16_child: opener "\<lambda>env. CBB_add_u16_length_prefixed env h" h "[]" "Fixed 2" for h
  using length_prefixed_opener [of 2 h] by (simp add: CBB_add_u16_length_prefixed_def)

interpretation u24_child: opener "\<lambda>env. CBB_add_u24_length_prefixed env h" h "[]" "Fixed 3" for h
  using length_prefixed_opener [of 3 h] by (simp add: CBB_add_u24_length_prefixed_def)

end
