(* ===== verification/Der_Builder.thy ===== *)
theory Der_Builder
  imports Cbb_Asn1 Cbb_Spec
begin

text \<open>
  The ASN.1 operations of the builder write DER: each is an instance of the \<open>appender\<close> or
  \<open>opener\<close> contract for the encoding that the reader accepts, so that what is written is
  read back. Also here: object identifiers between text and DER, and the canonical order of
  a SET OF.
\<close>

section \<open>Composition\<close>

lemma appender_cong:
  assumes "appender op1 h x"
    and "\<And>env s s'. op2 env s = (Some (), s') \<longleftrightarrow> op1 env s = (Some (), s')"
  shows "appender op2 h x"
  using assms unfolding appender_def by simp

lemma or_error_eq_Some [simp]: "or_error h m s = (Some x, s') \<longleftrightarrow> m s = (Some x, s')"
  by (auto simp: or_error_def split: prod.splits option.splits)

lemma or_error_seq: "and_then (or_error h m) f s = (Some x, s') \<longleftrightarrow> and_then m f s = (Some x, s')"
  by simp

lemma or_error_appender: "appender op h x \<Longrightarrow> appender (\<lambda>env. or_error h (op env)) h x"
  by (erule appender_cong) simp

lemma flush_at_last:
  "length fs = h \<Longrightarrow> flush_at h r (fs @ [(p, y)]) = map_option (append_top r fs) (enclose p y)"
proof (induction h r fs rule: flush_at.induct)
  case (1 r fs)
  then show ?case by (auto split: option.splits)
next
  case (3 h r q c fs)
  then show ?case by (auto simp: option.map_comp comp_def case_prod_beta')
qed simp

lemma write_at_last:
  "length fs = h \<Longrightarrow> write_at (Suc h) r (fs @ [(p, [])]) y = Some (r, fs @ [(p, y)])"
proof -
  assume h: "length fs = h"
  have "append_top r (fs @ [(p, [])]) y = (r, fs @ [(p, y)])"
    by (induction r fs y rule: append_top.induct) simp_all
  then show ?thesis using flush_at_self [of "fs @ [(p, [])]" "Suc h" r] h by (simp add: write_at_def)
qed

text \<open>A child opened, written to once more and flushed is one write of the enclosed bytes.\<close>

lemma enclosed_appender:
  assumes op: "opener op h pre p" and body: "appender body (Suc h) y" and e: "enclose p y = Some e"
  shows "appender (\<lambda>env. and_then (op env) (\<lambda>_. and_then (body env) (\<lambda>_. CBB_flush env h))) h (pre @ e)"
proof
  fix s r fs env s'
  assume rep: "represents s r fs" "h \<le> length fs"
    and run: "and_then (op env) (\<lambda>_. and_then (body env) (\<lambda>_. CBB_flush env h)) s = (Some (), s')"
  from run obtain s1 s2 where s: "op env s = (Some (), s1)" "body env s1 = (Some (), s2)"
    "CBB_flush env h s2 = (Some (), s')" by auto
  from opener.sound [OF op rep s(1)] obtain r1 fs1 where
    1: "write_at h r fs pre = Some (r1, fs1)" "represents s1 r1 (fs1 @ [(p, [])])" "same_limit s s1"
    by (auto simp: open_at_def)
  have l: "length fs1 = h" by (rule write_at_length [OF 1(1)])
  from appender.sound [OF body 1(2) _ s(2)] l write_at_last [OF l, of r1 p y] have
    2: "represents s2 r1 (fs1 @ [(p, y)])" "same_limit s1 s2" by auto
  from CBB_flush_refines [OF 2(1) _ s(3)] l obtain r' fs' where
    3: "flush_at h r1 (fs1 @ [(p, y)]) = Some (r', fs')" "represents s' r' fs'" "same_limit s2 s'" by auto
  have "append_top r1 fs1 e = (r', fs')" using 3(1) flush_at_last [OF l] e by simp
  then have "write_at h r1 fs1 e = Some (r', fs')"
    using write_at_SomeI [OF flush_at_self [OF l], where x = e and r = r1] by simp
  then have "write_at h r fs (pre @ e) = Some (r', fs')" using write_at_seq [OF 1(1)] by simp
  then show "\<exists>r' fs'. write_at h r fs (pre @ e) = Some (r', fs') \<and> represents s' r' fs' \<and> same_limit s s'"
    using 3(2) same_limit_trans [OF same_limit_trans [OF 1(3) 2(2)] 3(3)] by blast
next
  fix s r fs env r' fs'
  assume rep: "represents s r fs" "h \<le> length fs" and w: "write_at h r fs (pre @ e) = Some (r', fs')"
    and room: "room_for env s (total r' fs')"
  obtain r1 fs1 where 1: "write_at h r fs pre = Some (r1, fs1)"
    using w by (fastforce simp: write_at_def)
  have l: "length fs1 = h" by (rule write_at_length [OF 1])
  have op1: "open_at h r fs pre p = Some (r1, fs1 @ [(p, [])])" using 1 by (simp add: open_at_def)
  have pl: "plen p + length y \<le> length e" using e by (cases p) (auto simp: der_length_def split: if_splits)
  have t: "total r' fs' = total r1 fs1 + length e" by (rule total_write_at [OF 1 w])
  have t1: "total r1 (fs1 @ [(p, c)]) = total r1 fs1 + plen p + length c" for c
    by (simp add: total_def pending_append)
  have "room_for env s (total r1 (fs1 @ [(p, [])]))" using pl t t1 by (intro room_for_mono [OF room]) simp
  from opener.exact [OF op rep op1 this] obtain s1 where
    s1: "op env s = (Some (), s1)" "represents s1 r1 (fs1 @ [(p, [])])" "same_limit s s1" by blast
  have room1: "room_for env s1 (total r' fs')" using room room_for_same_limit [OF s1(3)] by simp
  have "room_for env s1 (total r1 (fs1 @ [(p, y)]))" using pl t t1 by (intro room_for_mono [OF room1]) simp
  with appender.exact [OF body s1(2) _ write_at_last [OF l]] l obtain s2 where
    s2: "body env s1 = (Some (), s2)" "represents s2 r1 (fs1 @ [(p, y)])" "same_limit s1 s2" by auto
  have room2: "room_for env s2 (total r' fs')" using room1 room_for_same_limit [OF s2(3)] by simp
  have "write_at h r1 fs1 e = Some (r', fs')" using write_at_seq [OF 1] w by simp
  then have "append_top r1 fs1 e = (r', fs')"
    using write_at_SomeI [OF flush_at_self [OF l], where x = e and r = r1] by simp
  then have "flush_at h r1 (fs1 @ [(p, y)]) = Some (r', fs')" using flush_at_last [OF l] e by simp
  from CBB_flush_progress [OF s2(2) this _ room2 [unfolded total_def]] l obtain s' where
    "CBB_flush env h s2 = (Some (), s')" by auto
  then show "\<exists>s'. and_then (op env) (\<lambda>_. and_then (body env) (\<lambda>_. CBB_flush env h)) s = (Some (), s')"
    using s1(1) s2(1) by auto
qed

text \<open>Bytes written one at a time.\<close>

fun add_list :: "cbb_env \<Rightarrow> handle \<Rightarrow> bytes \<Rightarrow> (cbb, unit) action" where
  "add_list env h [] = ret ()"
| "add_list env h (b # bs) = and_then (CBB_add_u8 env h b) (\<lambda>_. add_list env h bs)"

lemma add_list_append: "add_list env h (xs @ ys) = and_then (add_list env h xs) (\<lambda>_. add_list env h ys)"
  by (induction xs) (simp_all add: and_then_assoc)

lemma add_list_appender: "bs \<noteq> [] \<Longrightarrow> appender (\<lambda>env. add_list env h bs) h bs"
proof (induction bs)
  case (Cons b bs)
  show ?case
  proof (cases "bs = []")
    case True
    then show ?thesis using add_u8.appender_axioms [where v = b and h = h] by simp
  next
    case False
    then show ?thesis using appender_seq [OF add_u8.appender_axioms [where v = b and h = h] Cons.IH] by simp
  qed
qed simp

section \<open>Base-128 integers and tags\<close>

fun base128_digits :: "u64 \<Rightarrow> nat \<Rightarrow> bytes" where
  "base128_digits v 0 = []"
| "base128_digits v (Suc i) =
     (let byte = take_bit 7 (ucast (drop_bit (7 * i) v)) in (if i \<noteq> 0 then byte OR 0x80 else byte) # base128_digits v i)"

lemma add_base128_loop_list: "add_base128_loop env h v n = add_list env h (base128_digits v n)"
  by (induction n) (simp_all add: Let_def)

lemma base128_digits_step:
  "base128_digits v (Suc n) = map (\<lambda>b. b OR 0x80) (base128_digits (drop_bit 7 v) n) @ [take_bit 7 (ucast v)]"
proof (induction n)
  case (Suc n)
  have "base128_digits v (Suc (Suc n)) = (take_bit 7 (ucast (drop_bit (7 * Suc n) v)) OR 0x80) # base128_digits v (Suc n)"
    by (simp add: Let_def)
  then show ?case using Suc by (simp add: Let_def or.assoc add.commute)
qed simp

lemma or_0x80_idem: "(b OR 0x80) OR 0x80 = b OR (0x80 :: u8)"
  by (simp add: or.assoc)

lemma base128_high_digits: "base128_high w = map (\<lambda>b. b OR 0x80) (base128_digits w (base128_groups w))"
proof (induction w rule: base128_high.induct)
  case (1 w)
  show ?case
  proof (cases "w = 0")
    case True
    then show ?thesis by (simp add: base128_groups.simps [of 0])
  next
    case False
    then have g: "base128_groups w = Suc (base128_groups (drop_bit 7 w))"
      by (subst base128_groups.simps) (simp add: word_gt_0)
    show ?thesis unfolding base128_high_step [OF False] g base128_digits_step 1 [OF False]
      by (simp add: or_0x80_idem comp_def)
  qed
qed

lemma base128_digits_groups:
  "base128_digits v (if base128_groups v = 0 then 1 else base128_groups v) = base128_bytes v"
proof (cases "v = 0")
  case True
  then show ?thesis by (simp add: base128_groups.simps [of 0] base128_bytes_def)
next
  case False
  then have g: "base128_groups v = Suc (base128_groups (drop_bit 7 v))"
    by (subst base128_groups.simps) (simp add: word_gt_0)
  have n: "(Suc (base128_groups (drop_bit 7 v)) = 0) = False" by simp
  show ?thesis unfolding g n if_False base128_digits_step base128_bytes_def base128_high_digits ..
qed

lemma base128_bytes_nonempty [simp]: "base128_bytes v \<noteq> []"
  by (simp add: base128_bytes_def)

lemma add_base128_list: "add_base128_integer env h v = add_list env h (base128_bytes v)"
  by (simp only: add_base128_integer_def Let_def add_base128_loop_list base128_digits_groups)

interpretation add_base128: appender "\<lambda>env. add_base128_integer env h v" h "base128_bytes v" for h v
  unfolding add_base128_list by (rule add_list_appender) simp

lemma tag_list:
  "(if tag_number \<ge> 0x1f then
      and_then (CBB_add_u8 env h (tag_bits OR 0x1f)) (\<lambda>_. add_base128_integer env h (ucast tag_number))
    else CBB_add_u8 env h (tag_bits OR ucast tag_number)) =
   add_list env h (if tag_number \<ge> 0x1f then (tag_bits OR 0x1f) # base128_bytes (ucast tag_number)
     else [tag_bits OR ucast (tag_number :: asn1_tag)])"
  by (simp add: add_base128_list)

interpretation asn1_child: opener "\<lambda>env. CBB_add_asn1 env h tag" h "tag_bytes tag" Asn1 for h tag
proof -
  have "CBB_add_asn1 env h tag = and_then (and_then (CBB_flush env h) (\<lambda>_. add_list env h (tag_bytes tag)))
      (\<lambda>_. cbb_add_child env (plen Asn1) (Asn1 = Asn1))" for env
    by (simp add: CBB_add_asn1_def Let_def tag_list tag_bytes_def tag_class_def and_then_assoc)
  moreover have "tag_bytes tag \<noteq> []" by (simp add: tag_bytes_def Let_def)
  then have "appender (\<lambda>env. and_then (CBB_flush env h) (\<lambda>_. add_list env h (tag_bytes tag))) h ([] @ tag_bytes tag)"
    by (intro appender_seq flush_appender add_list_appender)
  from opener_seq [OF this, of Asn1]
  have "opener (\<lambda>env. and_then (and_then (CBB_flush env h) (\<lambda>_. add_list env h (tag_bytes tag)))
      (\<lambda>_. cbb_add_child env (plen Asn1) (Asn1 = Asn1))) h (tag_bytes tag) Asn1" by simp
  ultimately show "opener (\<lambda>env. CBB_add_asn1 env h tag) h (tag_bytes tag) Asn1" by simp
qed

text \<open>An ASN.1 element written as a child.\<close>

lemma element_appender:
  assumes "appender body (Suc h) c" and "length c \<le> 0xfffffffe"
  shows "appender (\<lambda>env. and_then (CBB_add_asn1 env h tag) (\<lambda>_. and_then (body env) (\<lambda>_. CBB_flush env h)))
    h (der_element tag c)"
  using enclosed_appender [OF asn1_child.opener_axioms assms(1), of "der_length (length c) @ c"] assms(2)
  by (simp add: der_element_def der_header_def)

section \<open>Integers\<close>

text \<open>The contents of the INTEGER for an unsigned value, from its big-endian bytes.\<close>

fun uint_contents :: "bytes \<Rightarrow> bytes" where
  "uint_contents [] = [0]"
| "uint_contents (b # bs) = (if b = 0 then uint_contents bs else if b AND 0x80 \<noteq> 0 then 0 # b # bs else b # bs)"

lemma uint_contents_nonempty [simp]: "uint_contents bs \<noteq> []"
  by (induction bs) auto

lemma add_uint64_loop_started:
  "add_uint64_loop env h v True is =
    and_then (add_list env h (map (\<lambda>i. ucast (drop_bit (8 * (7 - i)) v)) is)) (\<lambda>_. ret True)"
  by (induction "is") (simp_all add: Let_def and_then_assoc)

lemma add_uint64_loop_list:
  "and_then (add_uint64_loop env h v False is) (\<lambda>started. if \<not> started then CBB_add_u8 env h 0 else ret ()) =
    add_list env h (uint_contents (map (\<lambda>i. ucast (drop_bit (8 * (7 - i)) v)) is))"
  by (induction "is") (simp_all add: Let_def and_then_assoc add_uint64_loop_started)

lemma top_bit_iff: "b AND 0x80 \<noteq> 0 \<longleftrightarrow> bit (b :: u8) 7"
  using and_exp_eq_0_iff_not_bit [of b 7] by (simp del: bit_7_iff)

lemma signed_of_be_small: "\<not> bit b 7 \<Longrightarrow> signed_of_be (b # bs) = int (nat_of_be (b # bs))"
  by (simp add: signed_of_be_def)

lemma uint_contents_value:
  "minimal_integer (uint_contents bs) \<and> signed_of_be (uint_contents bs) = int (nat_of_be bs)"
proof (induction bs)
  case Nil
  then show ?case by (simp add: minimal_integer_def valid_asn1_integer_cases signed_of_be_def nat_of_be_Cons)
next
  case (Cons b bs)
  show ?case
  proof (cases "b = 0")
    case True
    then show ?thesis using Cons by (simp add: nat_of_be_Cons)
  next
    case False
    have ff: "b = 0xff \<Longrightarrow> bit b 7" by simp
    show ?thesis
    proof (cases "bit b 7")
      case True
      then show ?thesis using False
        by (simp add: top_bit_iff minimal_integer_def valid_asn1_integer_cases signed_of_be_Cons nat_of_be_Cons del: bit_7_iff)
    next
      case nb: False
      then have "b \<noteq> 0xff" using ff by blast
      then have "minimal_integer (b # bs)" using False
        by (cases bs) (simp_all add: minimal_integer_def valid_asn1_integer_cases)
      then show ?thesis using False nb signed_of_be_small [OF nb] by (simp add: top_bit_iff del: bit_7_iff)
    qed
  qed
qed

lemma uint_contents_length: "length (uint_contents bs) \<le> Suc (length bs)"
  by (induction bs) auto

lemma nat_of_be_bytes: "nat_of_be (be_bytes 8 v) = unat v"
proof -
  have "drop_bit (8 * 8) v = 0" by (rule bit_word_eqI) (simp add: bit_drop_bit_eq)
  then have "be_fold 0 (be_bytes 8 v) = v" by (intro be_fold_be_bytes) simp_all
  then show ?thesis using unat_be_fold [of "be_bytes 8 v"] by simp
qed

lemma be_bytes_8_map: "map (\<lambda>i. ucast (drop_bit (8 * (7 - i)) v)) [0, 1, 2, 3, 4, 5, 6, 7] = be_bytes 8 v"
  by (simp add: be_bytes_numeral)

text \<open>Negative values: superfluous leading \<open>ff\<close> octets are dropped.\<close>

fun strip_ff :: "bytes \<Rightarrow> bytes" where
  "strip_ff (b # c # bs) = (if b = 0xff \<and> bit c 7 then strip_ff (c # bs) else b # c # bs)"
| "strip_ff bs = bs"

lemma strip_ff_value:
  "bs \<noteq> [] \<Longrightarrow> bit (hd bs) 7 \<Longrightarrow> minimal_integer (strip_ff bs) \<and> signed_of_be (strip_ff bs) = signed_of_be bs \<and>
    strip_ff bs \<noteq> [] \<and> length (strip_ff bs) \<le> length bs"
proof (induction bs rule: strip_ff.induct)
  case (1 b c bs)
  show ?case
  proof (cases "b = 0xff \<and> bit c 7")
    case True
    have ff: "unat (0xff :: u8) = 255" "bit (0xff :: u8) 7" by simp_all
    have "signed_of_be (0xff # c # bs) = (255 - 256) * 256 ^ length (c # bs) + int (nat_of_be (c # bs))"
      by (simp only: signed_of_be_Cons ff if_True of_nat_numeral)
    also have "\<dots> = signed_of_be (c # bs)" using True
      by (simp add: signed_of_be_Cons nat_of_be_Cons algebra_simps del: bit_7_iff)
    finally have "signed_of_be (0xff # c # bs) = signed_of_be (c # bs)" .
    then show ?thesis using True 1 by (simp del: bit_7_iff)
  next
    case False
    then have "b \<noteq> 0" using 1(3) by auto
    then have "minimal_integer (b # c # bs)" using False
      by (simp add: minimal_integer_def valid_asn1_integer_cases del: bit_7_iff)
    moreover have "strip_ff (b # c # bs) = b # c # bs" using False by (simp only: strip_ff.simps if_False)
    ultimately show ?thesis by simp
  qed
qed (auto simp: minimal_integer_def valid_asn1_integer_cases)

lemma add_bytes_down_list: "n \<le> length bs \<Longrightarrow> add_bytes_down env h bs n = add_list env h (rev (take n bs))"
  by (induction n) (simp_all add: take_Suc_conv_app_nth)

lemma int64_start_strip:
  "n < length bs \<Longrightarrow> rev (take (Suc (int64_start bs n)) bs) = strip_ff (rev (take (Suc n) bs))"
proof (induction n)
  case 0
  then show ?case by (cases bs) auto
next
  case (Suc n)
  then have t: "rev (take (Suc (Suc n)) bs) = bs ! Suc n # bs ! n # rev (take n bs)"
    "rev (take (Suc n) bs) = bs ! n # rev (take n bs)"
    by (simp_all add: take_Suc_conv_app_nth)
  show ?case using Suc unfolding t(1) by (simp add: t(2) top_bit_iff take_Suc_conv_app_nth del: bit_7_iff)
qed

lemma int64_start_le: "int64_start bs n \<le> n"
  by (induction n) auto

lemma add_int64_list:
  "add_bytes_down env h (rev (be_bytes 8 v)) (Suc (int64_start (rev (be_bytes 8 v)) 7)) =
    add_list env h (strip_ff (be_bytes 8 v))"
proof -
  have "Suc (int64_start (rev (be_bytes 8 v)) 7) \<le> length (rev (be_bytes 8 v))"
    using int64_start_le [of "rev (be_bytes 8 v)" 7] by simp
  note add_bytes_down_list [OF this, of env h]
  moreover have "rev (take (Suc (int64_start (rev (be_bytes 8 v)) 7)) (rev (be_bytes 8 v))) =
    strip_ff (rev (take 8 (rev (be_bytes 8 v))))"
    using int64_start_strip [of 7 "rev (be_bytes 8 v)"] by simp
  ultimately show ?thesis by simp
qed

text \<open>Each operation for a value writes one element.\<close>

lemma add_uint64_appender:
  "appender (\<lambda>env. CBB_add_asn1_uint64_with_tag env h v tag) h (der_element tag (uint_contents (be_bytes 8 v)))"
proof (rule appender_cong [OF element_appender [OF add_list_appender [OF uint_contents_nonempty]]])
  show "length (uint_contents (be_bytes 8 v)) \<le> 0xfffffffe"
    using uint_contents_length [of "be_bytes 8 v"] by simp
  fix env s s'
  have b: "and_then (add_uint64_loop env (Suc h) v False [0, 1, 2, 3, 4, 5, 6, 7])
      (\<lambda>started. if \<not> started then CBB_add_u8 env (Suc h) 0 else ret ()) =
    add_list env (Suc h) (uint_contents (be_bytes 8 v))"
    unfolding add_uint64_loop_list be_bytes_8_map ..
  show "CBB_add_asn1_uint64_with_tag env h v tag s = (Some (), s') \<longleftrightarrow>
    and_then (CBB_add_asn1 env h tag)
     (\<lambda>_. and_then (add_list env (Suc h) (uint_contents (be_bytes 8 v))) (\<lambda>_. CBB_flush env h)) s = (Some (), s')"
    unfolding CBB_add_asn1_uint64_with_tag_def or_error_seq b unfolding and_then_assoc by (rule refl)
qed

definition int_contents :: "u64 \<Rightarrow> bytes" where
  "int_contents v = (if 0 \<le> sint v then uint_contents (be_bytes 8 v) else strip_ff (be_bytes 8 v))"

lemma hd_be_bytes: "bit (hd (be_bytes 8 v)) 7 \<longleftrightarrow> bit v 63"
proof -
  have "hd (be_bytes 8 v) = ucast (drop_bit 56 v)" by (simp add: be_bytes_numeral)
  then have "bit (hd (be_bytes 8 v)) 7 = bit (ucast (drop_bit 56 v) :: u8) 7" by (simp only:)
  also have "\<dots> = bit v 63" by (simp add: bit_simps del: bit_7_iff)
  finally show ?thesis .
qed

lemma sint_nonneg_iff: "0 \<le> sint v \<longleftrightarrow> \<not> bit v 63" for v :: u64
  using bit_last_iff [of v] by auto

lemma int_contents_value:
  "minimal_integer (int_contents v) \<and> signed_of_be (int_contents v) = sint v \<and> int_contents v \<noteq> [] \<and>
    length (int_contents v) \<le> 9"
proof (cases "0 \<le> sint v")
  case True
  have "int (unat v) < int (2 ^ 64)" using unat_u64_lt [of v] by (simp only: of_nat_less_iff)
  then have "sint v = int (unat v)" using True sint_u64 [of v] by (simp split: if_splits)
  then show ?thesis using True uint_contents_value [of "be_bytes 8 v"] uint_contents_length [of "be_bytes 8 v"]
    by (simp add: int_contents_def nat_of_be_bytes)
next
  case False
  let ?b = "be_bytes 8 v"
  have ne: "?b \<noteq> []" by (simp add: be_bytes_numeral)
  have b: "bit (hd ?b) 7" using False sint_nonneg_iff hd_be_bytes by blast
  have "signed_of_be ?b = int (unat v) - 2 ^ 64" using ne b by (simp add: signed_of_be_def nat_of_be_bytes del: bit_7_iff)
  also have "\<dots> = sint v" using False sint_u64 [of v] by (simp split: if_splits)
  finally show ?thesis using False strip_ff_value [OF ne b] by (simp add: int_contents_def)
qed

lemma add_int64_appender:
  "appender (\<lambda>env. CBB_add_asn1_int64_with_tag env h v tag) h (der_element tag (int_contents v))"
proof (cases "0 \<le> sint v")
  case True
  then show ?thesis using add_uint64_appender [of h v tag]
    by (simp add: CBB_add_asn1_int64_with_tag_def int_contents_def)
next
  case False
  have c: "int_contents v \<noteq> []" "length (int_contents v) \<le> 0xfffffffe" using int_contents_value [of v] by simp_all
  show ?thesis
  proof (rule appender_cong [OF element_appender [OF add_list_appender [OF c(1)] c(2)]])
    fix env s s'
    show "CBB_add_asn1_int64_with_tag env h v tag s = (Some (), s') \<longleftrightarrow>
      and_then (CBB_add_asn1 env h tag)
       (\<lambda>_. and_then (add_list env (Suc h) (int_contents v)) (\<lambda>_. CBB_flush env h)) s = (Some (), s')"
      using False unfolding CBB_add_asn1_int64_with_tag_def int_contents_def Let_def add_int64_list
      by (simp only: if_False or_error_seq and_then_assoc)
  qed
qed

lemma add_octet_string_appender:
  "length data \<le> 0xfffffffe \<Longrightarrow>
    appender (\<lambda>env. CBB_add_asn1_octet_string env h data) h (der_element CBS_ASN1_OCTETSTRING data)"
  unfolding CBB_add_asn1_octet_string_def
  by (intro or_error_appender element_appender add_bytes_appender) (simp_all add: SIZE_MAX_def)

lemma add_bool_appender:
  "appender (\<lambda>env. CBB_add_asn1_bool env h b) h (der_element CBS_ASN1_BOOLEAN [bool_octet b])"
  unfolding CBB_add_asn1_bool_def bool_octet_def
  by (intro or_error_appender element_appender add_u8.appender_axioms) simp

section \<open>Whole builds\<close>

text \<open>How the library is used: a growable CBB, the calls, \<open>CBB_finish\<close>.\<close>

definition build :: "cbb_env \<Rightarrow> nat \<Rightarrow> (cbb_env \<Rightarrow> (cbb, unit) action) \<Rightarrow> bytes option" where
  "build env n op =
     (case CBB_init env n of None \<Rightarrow> None
      | Some s \<Rightarrow> fst (and_then (op env) (\<lambda>_. CBB_finish env 0 False) s))"

lemma CBB_init_represents:
  "CBB_init env n = Some s \<Longrightarrow> n \<le> SIZE_MAX \<Longrightarrow> represents s [] [] \<and> base_can_resize s"
  by (auto simp: CBB_init_def cbb_init_def represents_def wf_cbb_def split: if_splits)

lemma represents_flat: "represents s r [] \<Longrightarrow> base_buf s = r"
  by (simp add: represents_def)

lemma build_Some:
  assumes "build env n op = Some out" and "n \<le> SIZE_MAX"
    and sound: "\<And>s s'. represents s [] [] \<Longrightarrow> op env s = (Some (), s') \<Longrightarrow> \<exists>r fs. R r fs \<and> represents s' r fs"
  shows "\<exists>r fs e. R r fs \<and> close fs = Some e \<and> out = r @ e"
proof -
  from assms(1) obtain s s2 where i: "CBB_init env n = Some s"
    and r: "and_then (op env) (\<lambda>_. CBB_finish env 0 False) s = (Some out, s2)"
    unfolding build_def by (cases "CBB_init env n") (auto simp: prod_eq_iff)
  from r obtain s1 where s1: "op env s = (Some (), s1)" "CBB_finish env 0 False s1 = (Some out, s2)" by auto
  have rep: "represents s [] []" using CBB_init_represents [OF i assms(2)] by simp
  from sound [OF rep s1(1)] obtain r1 fs1 where 1: "R r1 fs1" "represents s1 r1 fs1" by blast
  from s1(2) have f: "CBB_flush env 0 s1 = (Some (), s2)" "out = base_buf s2"
    by (auto simp: CBB_finish_def)
  from CBB_flush_refines [OF 1(2) _ f(1)] obtain e where
    "close fs1 = Some e" "represents s2 (r1 @ e) []" by auto
  then show ?thesis using 1(1) f(2) represents_flat by blast
qed

lemma build_exact:
  assumes "appender op 0 x" and "n \<le> SIZE_MAX"
  shows "build env n op \<in> {None, Some x}"
    and "\<lbrakk>\<forall>m \<le> SIZE_MAX. alloc_ok env m; length x \<le> SIZE_MAX\<rbrakk> \<Longrightarrow> build env n op = Some x"
proof -
  have w: "write_at 0 [] [] x = Some (x, [])" by (simp add: write_at_def)
  have eq: "out = x" if "build env n op = Some out" for out
  proof -
    have "\<exists>r fs. (r = x \<and> fs = []) \<and> represents s' r fs"
      if "represents s [] []" "op env s = (Some (), s')" for s s'
      using appender.sound [OF assms(1) that(1) _ that(2)] w by auto
    from build_Some [OF that assms(2), of "\<lambda>r fs. r = x \<and> fs = []", OF this] show ?thesis by auto
  qed
  then show "build env n op \<in> {None, Some x}" by (cases "build env n op") auto
  assume a: "\<forall>m \<le> SIZE_MAX. alloc_ok env m" and l: "length x \<le> SIZE_MAX"
  obtain s where i: "CBB_init env n = Some s" using a assms(2) by (auto simp: CBB_init_def)
  note rep = CBB_init_represents [OF i assms(2)]
  have room: "room_for env s (total x [])" using a l rep by (simp add: room_for_def total_def)
  from appender.exact [OF assms(1) _ _ w room] rep obtain s1 where
    s1: "op env s = (Some (), s1)" "represents s1 x []" "same_limit s s1" by auto
  have "room_for env s1 (length x + length (pending []))"
    using room room_for_same_limit [OF s1(3)] by (simp add: total_def)
  from CBB_flush_progress [OF s1(2) _ _ this, of 0] obtain s2 where "CBB_flush env 0 s1 = (Some (), s2)" by auto
  then have "\<exists>out. build env n op = Some out" using i s1(1) by (simp add: build_def CBB_finish_def)
  then show "build env n op = Some x" using eq by blast
qed

section \<open>Trees of children\<close>

text \<open>
  A message as a tree: bytes, or a child with its kind of length prefix around a sequence.
  Its serialisation is \<open>None\<close> if some contents are too long for their prefix.
\<close>

datatype child_kind = U8 | U16 | U24 | Element asn1_tag

datatype message = Bytes bytes | Child child_kind "message list"

fun kind_pfx :: "child_kind \<Rightarrow> pfx" where
  "kind_pfx U8 = Fixed 1"
| "kind_pfx U16 = Fixed 2"
| "kind_pfx U24 = Fixed 3"
| "kind_pfx (Element tag) = Asn1"

fun kind_tag :: "child_kind \<Rightarrow> bytes" where
  "kind_tag (Element tag) = tag_bytes tag"
| "kind_tag _ = []"

fun open_child :: "cbb_env \<Rightarrow> handle \<Rightarrow> child_kind \<Rightarrow> (cbb, unit) action" where
  "open_child env h U8 = CBB_add_u8_length_prefixed env h"
| "open_child env h U16 = CBB_add_u16_length_prefixed env h"
| "open_child env h U24 = CBB_add_u24_length_prefixed env h"
| "open_child env h (Element tag) = CBB_add_asn1 env h tag"

fun serialize :: "message \<Rightarrow> bytes option"
  and serialize_all :: "message list \<Rightarrow> bytes option" where
  "serialize (Bytes b) = Some b"
| "serialize (Child k ms) =
     (case serialize_all ms of None \<Rightarrow> None
      | Some c \<Rightarrow> map_option ((@) (kind_tag k)) (enclose (kind_pfx k) c))"
| "serialize_all [] = Some []"
| "serialize_all (m # ms) =
     (case serialize m of None \<Rightarrow> None | Some x \<Rightarrow> map_option ((@) x) (serialize_all ms))"

text \<open>The calls that write it.\<close>

fun write_message :: "cbb_env \<Rightarrow> handle \<Rightarrow> message \<Rightarrow> (cbb, unit) action"
  and write_messages :: "cbb_env \<Rightarrow> handle \<Rightarrow> message list \<Rightarrow> (cbb, unit) action" where
  "write_message env h (Bytes b) = CBB_add_bytes env h b"
| "write_message env h (Child k ms) =
     and_then (open_child env h k) (\<lambda>_. and_then (write_messages env (Suc h) ms) (\<lambda>_. CBB_flush env h))"
| "write_messages env h [] = CBB_flush env h"
| "write_messages env h (m # ms) = and_then (write_message env h m) (\<lambda>_. write_messages env h ms)"

fun leaves :: "message \<Rightarrow> bytes set" where
  "leaves (Bytes b) = {b}"
| "leaves (Child k ms) = (\<Union>m \<in> set ms. leaves m)"

lemma child_opener: "opener (\<lambda>env. open_child env h k) h (kind_tag k) (kind_pfx k)"
proof (cases k)
  case U8 then show ?thesis using u8_child.opener_axioms by simp
next
  case U16 then show ?thesis using u16_child.opener_axioms by simp
next
  case U24 then show ?thesis using u24_child.opener_axioms by simp
next
  case (Element tag) then show ?thesis using asn1_child.opener_axioms by simp
qed

text \<open>An operation that writes the given bytes, or cannot succeed.\<close>

definition never :: "(cbb_env \<Rightarrow> (cbb, unit) action) \<Rightarrow> handle \<Rightarrow> bool" where
  "never op h \<longleftrightarrow> (\<forall>env s r fs. represents s r fs \<longrightarrow> h \<le> length fs \<longrightarrow> fst (op env s) = None)"

definition writes :: "(cbb_env \<Rightarrow> (cbb, unit) action) \<Rightarrow> handle \<Rightarrow> bytes option \<Rightarrow> bool" where
  "writes op h x = (case x of None \<Rightarrow> never op h | Some x \<Rightarrow> appender op h x)"

lemma never_left: "never op1 h \<Longrightarrow> never (\<lambda>env. and_then (op1 env) (f env)) h"
  by (auto simp: never_def and_then_def split: prod.splits option.splits) (metis fst_conv option.distinct(1))

lemma never_right:
  assumes "appender op1 h x" and "never op2 h"
  shows "never (\<lambda>env. and_then (op1 env) (\<lambda>_. op2 env)) h"
  unfolding never_def
proof (intro allI impI)
  fix env s r fs
  assume rep: "represents s r fs" "h \<le> length fs"
  show "fst (and_then (op1 env) (\<lambda>_. op2 env) s) = None"
  proof (cases "op1 env s")
    case (Pair a s1)
    show ?thesis
    proof (cases a)
      case None
      then show ?thesis using Pair by simp
    next
      case (Some u)
      then obtain r1 fs1 where 1: "write_at h r fs x = Some (r1, fs1)" "represents s1 r1 fs1"
        using appender.sound [OF assms(1) rep] Pair by fastforce
      have "h \<le> length fs1" using write_at_length [OF 1(1)] by simp
      then have "fst (op2 env s1) = None" using assms(2) 1(2) by (simp add: never_def)
      then show ?thesis using Pair Some by simp
    qed
  qed
qed

lemma build_never:
  assumes "never op 0" and "n \<le> SIZE_MAX"
  shows "build env n op = None"
proof (cases "CBB_init env n")
  case (Some s)
  then have "fst (op env s) = None"
    using CBB_init_represents [OF Some assms(2)] assms(1) unfolding never_def by (metis le0)
  then show ?thesis using Some by (cases "op env s") (simp add: build_def)
qed (simp add: build_def)

lemma writes_seq:
  assumes "writes op1 h x" and "writes op2 h y"
  shows "writes (\<lambda>env. and_then (op1 env) (\<lambda>_. op2 env)) h
    (case x of None \<Rightarrow> None | Some x \<Rightarrow> map_option ((@) x) y)"
  using assms never_left [of op1 h "\<lambda>env _. op2 env"] never_right [of op1 h _ op2] appender_seq [of op1 h _ op2]
  by (cases x; cases y) (auto simp: writes_def)

lemma writes_enclosed:
  assumes op: "opener op h pre p" and body: "writes body (Suc h) y"
  shows "writes (\<lambda>env. and_then (op env) (\<lambda>_. and_then (body env) (\<lambda>_. CBB_flush env h))) h
    (case y of None \<Rightarrow> None | Some y \<Rightarrow> map_option ((@) pre) (enclose p y))"
proof (cases "\<exists>c e. y = Some c \<and> enclose p c = Some e")
  case True
  then show ?thesis using enclosed_appender [OF op] body by (auto simp: writes_def)
next
  case False
  have "fst (and_then (op env) (\<lambda>_. and_then (body env) (\<lambda>_. CBB_flush env h)) s) = None"
    if rep: "represents s r fs" "h \<le> length fs" for env s r fs
  proof (rule ccontr)
    assume "fst (and_then (op env) (\<lambda>_. and_then (body env) (\<lambda>_. CBB_flush env h)) s) \<noteq> None"
    then obtain s' where "and_then (op env) (\<lambda>_. and_then (body env) (\<lambda>_. CBB_flush env h)) s = (Some (), s')"
      by (cases "and_then (op env) (\<lambda>_. and_then (body env) (\<lambda>_. CBB_flush env h)) s") auto
    then obtain s1 s2 where s: "op env s = (Some (), s1)" "body env s1 = (Some (), s2)"
      "CBB_flush env h s2 = (Some (), s')" by auto
    from opener.sound [OF op rep s(1)] obtain r1 fs1 where
      1: "write_at h r fs pre = Some (r1, fs1)" "represents s1 r1 (fs1 @ [(p, [])])"
      by (auto simp: open_at_def)
    have l: "length fs1 = h" by (rule write_at_length [OF 1(1)])
    show False
    proof (cases y)
      case None
      then have "never body (Suc h)" using body by (simp add: writes_def)
      moreover have "Suc h \<le> length (fs1 @ [(p, [])])" using l by simp
      ultimately have "fst (body env s1) = None" using 1(2) unfolding never_def by blast
      then show False using s(2) by simp
    next
      case (Some c)
      then have "appender body (Suc h) c" using body by (simp add: writes_def)
      from appender.sound [OF this 1(2) _ s(2)] l write_at_last [OF l, of r1 p c] have
        2: "represents s2 r1 (fs1 @ [(p, c)])" by auto
      from CBB_flush_refines [OF 2 _ s(3)] l flush_at_last [OF l, of r1 p c] False Some show False by auto
    qed
  qed
  then have "never (\<lambda>env. and_then (op env) (\<lambda>_. and_then (body env) (\<lambda>_. CBB_flush env h))) h"
    by (simp add: never_def)
  moreover have "(case y of None \<Rightarrow> None | Some y \<Rightarrow> map_option ((@) pre) (enclose p y)) = None"
    using False by (auto split: option.splits)
  ultimately show ?thesis by (simp add: writes_def)
qed

lemma write_messages_writes:
  assumes "\<And>m. m \<in> set ms \<Longrightarrow> writes (\<lambda>env. write_message env h m) h (serialize m)"
  shows "writes (\<lambda>env. write_messages env h ms) h (serialize_all ms)"
  using assms
proof (induction ms)
  case Nil
  then show ?case using flush_appender by (simp add: writes_def)
next
  case (Cons m ms)
  then show ?case using writes_seq [of "\<lambda>env. write_message env h m" h _ "\<lambda>env. write_messages env h ms"] by simp
qed

lemma write_message_writes:
  "\<forall>b \<in> leaves m. length b \<le> SIZE_MAX \<Longrightarrow> writes (\<lambda>env. write_message env h m) h (serialize m)"
proof (induction m arbitrary: h)
  case (Bytes b)
  then show ?case using add_bytes_appender [of b h] by (simp add: writes_def)
next
  case (Child k ms)
  then have "writes (\<lambda>env. write_messages env (Suc h) ms) (Suc h) (serialize_all ms)"
    by (intro write_messages_writes) auto
  then show ?case using writes_enclosed [OF child_opener [of h k], of "\<lambda>env. write_messages env (Suc h) ms"] by simp
qed

section \<open>Properties\<close>

text \<open>C7: a message of any nesting, written through children with one-, two- and three-byte
  length prefixes and ASN.1 lengths, comes out as its serialisation, in which every prefix is
  the exact length of its contents. When some contents do not fit their prefix the build
  fails, and it fails for no other reason than memory.\<close>

theorem build_message_exact:
  assumes "\<forall>b \<in> leaves m. length b \<le> SIZE_MAX" and "n \<le> SIZE_MAX"
  shows "case serialize m of
      None \<Rightarrow> build env n (\<lambda>env. write_message env 0 m) = None
    | Some x \<Rightarrow> build env n (\<lambda>env. write_message env 0 m) \<in> {None, Some x} \<and>
        (length x \<le> SIZE_MAX \<and> (\<forall>k \<le> SIZE_MAX. alloc_ok env k) \<longrightarrow>
          build env n (\<lambda>env. write_message env 0 m) = Some x)"
proof (cases "serialize m")
  case None
  have "never (\<lambda>env. write_message env 0 m) 0" using write_message_writes [OF assms(1), of 0] None by (simp add: writes_def)
  then show ?thesis using build_never [OF _ assms(2)] None by simp
next
  case (Some x)
  then have "appender (\<lambda>env. write_message env 0 m) 0 x" using write_message_writes [OF assms(1), of 0] by (simp add: writes_def)
  then show ?thesis using build_exact [of "\<lambda>env. write_message env 0 m" x n env] assms(2) Some by simp
qed

theorem build_message_exact_witness:
  "build \<lparr>alloc_ok = \<lambda>_. True, uninit = \<lambda>_. 0xaa\<rparr> 0
     (\<lambda>env. write_message env 0 (Child U16 [Child U8 [Bytes [1, 2]], Child (Element CBS_ASN1_OCTETSTRING) [Bytes [3]]])) =
   Some [0, 6, 2, 1, 2, 4, 1, 3]"
proof -
  let ?m = "Child U16 [Child U8 [Bytes [1, 2]], Child (Element CBS_ASN1_OCTETSTRING) [Bytes [3]]]"
  have t: "tag_bytes CBS_ASN1_OCTETSTRING = [4]" by code_simp
  have s: "serialize ?m = Some [0, 6, 2, 1, 2, 4, 1, 3]"
    by (simp add: be_bytes_Suc numeral_2_eq_2 [symmetric] be_bytes_numeral der_length_def t)
  have l: "\<forall>b \<in> leaves ?m. length b \<le> SIZE_MAX" by (simp add: SIZE_MAX_def)
  from build_message_exact [OF l, of 0 "\<lparr>alloc_ok = \<lambda>_. True, uninit = \<lambda>_. 0xaa\<rparr>"] show ?thesis
    unfolding s by (simp add: SIZE_MAX_def)
qed

text \<open>C8: \<open>CBB_add_asn1_int64\<close> writes an INTEGER that \<open>CBS_get_asn1_int64\<close> reads back as the
  same value, for all \<open>2^64\<close> values, whatever follows it; it fails only when memory runs
  out.\<close>

theorem asn1_int64_roundtrip:
  assumes "n \<le> SIZE_MAX"
  shows "\<exists>x. build env n (\<lambda>env. CBB_add_asn1_int64 env 0 v) \<in> {None, Some x} \<and>
    ((\<forall>k \<le> SIZE_MAX. alloc_ok env k) \<longrightarrow> build env n (\<lambda>env. CBB_add_asn1_int64 env 0 v) = Some x) \<and>
    length x \<le> 11 \<and> (\<forall>t. CBS_get_asn1_int64 (x @ t) = (Some v, t))"
proof -
  let ?x = "der_element CBS_ASN1_INTEGER (int_contents v)"
  have t: "tag_bytes CBS_ASN1_INTEGER = [0x02]" by code_simp
  have v: "valid_element CBS_ASN1_INTEGER (int_contents v)"
    using int_contents_value [of v] by (simp add: valid_element_def valid_tag_def)
  have "CBS_get_asn1_int64 (?x @ t) = (Some v, t)" for t
    using v int_contents_value [of v] by (simp only: CBS_get_asn1_int64_eq_Some) blast
  moreover have l: "length ?x \<le> 11"
    using int_contents_value [of v] by (simp add: der_element_def der_header_def t der_length_def)
  moreover have "length ?x \<le> SIZE_MAX" using l by (simp add: SIZE_MAX_def)
  ultimately show ?thesis
    using build_exact [OF add_int64_appender [of 0 v CBS_ASN1_INTEGER] assms, of env]
    unfolding CBB_add_asn1_int64_def by blast
qed

theorem asn1_int64_roundtrip_witness:
  "\<exists>x. build \<lparr>alloc_ok = \<lambda>_. True, uninit = \<lambda>_. 0\<rparr> 16 (\<lambda>env. CBB_add_asn1_int64 env 0 (- 129)) = Some x \<and>
    CBS_get_asn1_int64 x = (Some (- 129), [])"
proof -
  have "(16 :: nat) \<le> SIZE_MAX" by (simp add: SIZE_MAX_def)
  from asn1_int64_roundtrip [OF this, of "\<lparr>alloc_ok = \<lambda>_. True, uninit = \<lambda>_. 0\<rparr>" "- 129"] obtain x where
    "build \<lparr>alloc_ok = \<lambda>_. True, uninit = \<lambda>_. 0\<rparr> 16 (\<lambda>env. CBB_add_asn1_int64 env 0 (- 129)) = Some x"
    "\<forall>t. CBS_get_asn1_int64 (x @ t) = (Some (- 129), t)" by auto
  then show ?thesis by (metis append_Nil2)
qed

end
