(* ===== verification/Unicode.thy ===== *)
theory Unicode
  imports Der_Builder
begin

text \<open>
  Code points in byte strings (\<open>crypto/bytestring/unicode.c\<close>): the four encodings that the
  string types of ASN.1 use. Each reader with its writer is a codec: the reader accepts the
  encodings of valid code points that the writer produces, and nothing else.
\<close>

section \<open>Definitions\<close>

definition is_valid_code_point :: "u32 \<Rightarrow> bool" where
  "is_valid_code_point v \<longleftrightarrow>
     \<not> (v > 0x10ffff \<or>
        v AND 0xfffe = 0xfffe \<or>
        (v \<ge> 0xfdd0 \<and> v \<le> 0xfdef) \<or>
        (v \<ge> 0xd800 \<and> v \<le> 0xdfff))"

definition BOTTOM_BITS :: "nat \<Rightarrow> u8" where
  "BOTTOM_BITS n = push_bit n 1 - 1"

definition TOP_BITS :: "nat \<Rightarrow> u8" where
  "TOP_BITS n = NOT (BOTTOM_BITS (8 - n))"

text \<open>The loop over the \<open>len\<close> continuation bytes.\<close>

fun utf8_tail :: "nat \<Rightarrow> u32 \<Rightarrow> (cbs, u32) action" where
  "utf8_tail 0 v = ret v"
| "utf8_tail (Suc len) v =
     and_then CBS_get_u8 (\<lambda>c.
       if c AND TOP_BITS 2 \<noteq> TOP_BITS 1 then fail
       else utf8_tail len (push_bit 6 v OR ucast (c AND BOTTOM_BITS 6)))"

definition utf8_multibyte :: "u32 \<Rightarrow> nat \<Rightarrow> u32 \<Rightarrow> (cbs, u32) action" where
  "utf8_multibyte v len lower_bound =
     and_then (utf8_tail len v) (\<lambda>v.
       if \<not> is_valid_code_point v \<or> v < lower_bound then fail else ret v)"

definition CBS_get_utf8 :: "(cbs, u32) action" where
  "CBS_get_utf8 =
     and_then CBS_get_u8 (\<lambda>c.
       if c \<le> 0x7f then ret (ucast c)
       else if c AND TOP_BITS 3 = TOP_BITS 2 then utf8_multibyte (ucast (c AND BOTTOM_BITS 5)) 1 0x80
       else if c AND TOP_BITS 4 = TOP_BITS 3 then utf8_multibyte (ucast (c AND BOTTOM_BITS 4)) 2 0x800
       else if c AND TOP_BITS 5 = TOP_BITS 4 then utf8_multibyte (ucast (c AND BOTTOM_BITS 3)) 3 0x10000
       else fail)"

definition CBS_get_latin1 :: "(cbs, u32) action" where
  "CBS_get_latin1 = and_then CBS_get_u8 (\<lambda>c. ret (ucast c))"

definition CBS_get_ucs2_be :: "(cbs, u32) action" where
  "CBS_get_ucs2_be =
     and_then CBS_get_u16 (\<lambda>c. if \<not> is_valid_code_point (ucast c) then fail else ret (ucast c))"

definition CBS_get_utf32_be :: "(cbs, u32) action" where
  "CBS_get_utf32_be =
     and_then CBS_get_u32 (\<lambda>out. if is_valid_code_point out then ret out else fail)"

definition CBB_get_utf8_len :: "u32 \<Rightarrow> nat" where
  "CBB_get_utf8_len u =
     (if u \<le> 0x7f then 1 else if u \<le> 0x7ff then 2 else if u \<le> 0xffff then 3 else 4)"

definition CBB_add_utf8 :: "cbb_env \<Rightarrow> handle \<Rightarrow> u32 \<Rightarrow> (cbb, unit) action" where
  "CBB_add_utf8 env h u =
     (if \<not> is_valid_code_point u then fail
      else if u \<le> 0x7f then CBB_add_u8 env h (ucast u)
      else if u \<le> 0x7ff then
        and_then (CBB_add_u8 env h (TOP_BITS 2 OR ucast (drop_bit 6 u))) (\<lambda>_.
        CBB_add_u8 env h (TOP_BITS 1 OR (ucast u AND BOTTOM_BITS 6)))
      else if u \<le> 0xffff then
        and_then (CBB_add_u8 env h (TOP_BITS 3 OR ucast (drop_bit 12 u))) (\<lambda>_.
        and_then (CBB_add_u8 env h (TOP_BITS 1 OR (ucast (drop_bit 6 u) AND BOTTOM_BITS 6))) (\<lambda>_.
        CBB_add_u8 env h (TOP_BITS 1 OR (ucast u AND BOTTOM_BITS 6))))
      else if u \<le> 0x10ffff then
        and_then (CBB_add_u8 env h (TOP_BITS 4 OR ucast (drop_bit 18 u))) (\<lambda>_.
        and_then (CBB_add_u8 env h (TOP_BITS 1 OR (ucast (drop_bit 12 u) AND BOTTOM_BITS 6))) (\<lambda>_.
        and_then (CBB_add_u8 env h (TOP_BITS 1 OR (ucast (drop_bit 6 u) AND BOTTOM_BITS 6))) (\<lambda>_.
        CBB_add_u8 env h (TOP_BITS 1 OR (ucast u AND BOTTOM_BITS 6)))))
      else fail)"

definition CBB_add_latin1 :: "cbb_env \<Rightarrow> handle \<Rightarrow> u32 \<Rightarrow> (cbb, unit) action" where
  "CBB_add_latin1 env h u = (if u \<le> 0xff then CBB_add_u8 env h (ucast u) else fail)"

definition CBB_add_ucs2_be :: "cbb_env \<Rightarrow> handle \<Rightarrow> u32 \<Rightarrow> (cbb, unit) action" where
  "CBB_add_ucs2_be env h u = (if u \<le> 0xffff \<and> is_valid_code_point u then CBB_add_u16 env h (ucast u) else fail)"

definition CBB_add_utf32_be :: "cbb_env \<Rightarrow> handle \<Rightarrow> u32 \<Rightarrow> (cbb, unit) action" where
  "CBB_add_utf32_be env h u = (if is_valid_code_point u then CBB_add_u32 env h u else fail)"

section \<open>Lead and continuation bytes\<close>

lemma u8_eq_bits:
  "c = (d :: u8) \<longleftrightarrow> (bit c 0 \<longleftrightarrow> bit d 0) \<and> (bit c 1 \<longleftrightarrow> bit d 1) \<and> (bit c 2 \<longleftrightarrow> bit d 2) \<and> (bit c 3 \<longleftrightarrow> bit d 3) \<and>
    (bit c 4 \<longleftrightarrow> bit d 4) \<and> (bit c 5 \<longleftrightarrow> bit d 5) \<and> (bit c 6 \<longleftrightarrow> bit d 6) \<and> (bit c 7 \<longleftrightarrow> bit d 7)"
proof
  assume a: "(bit c 0 \<longleftrightarrow> bit d 0) \<and> (bit c 1 \<longleftrightarrow> bit d 1) \<and> (bit c 2 \<longleftrightarrow> bit d 2) \<and> (bit c 3 \<longleftrightarrow> bit d 3) \<and>
    (bit c 4 \<longleftrightarrow> bit d 4) \<and> (bit c 5 \<longleftrightarrow> bit d 5) \<and> (bit c 6 \<longleftrightarrow> bit d 6) \<and> (bit c 7 \<longleftrightarrow> bit d 7)"
  show "c = d"
  proof (rule bit_word_eqI)
    fix n assume "n < LENGTH(8)"
    then have "n \<in> {0, 1, 2, 3, 4, 5, 6, 7}" by auto
    then show "bit c n = bit d n" using a by (elim insertE emptyE) (simp_all del: bit_7_iff)
  qed
qed simp

lemma ascii_iff: "c \<le> 0x7f \<longleftrightarrow> \<not> bit (c :: u8) 7"
  by (simp add: bit_7_iff word_le_nat_alt not_le) linarith

definition cont :: "u32 \<Rightarrow> u8" where
  "cont w = TOP_BITS 1 OR (ucast w AND BOTTOM_BITS 6)"

lemma bits_consts:
  "TOP_BITS 1 = 0x80" "TOP_BITS (Suc 0) = 0x80" "TOP_BITS 2 = 0xc0" "TOP_BITS 3 = 0xe0" "TOP_BITS 4 = 0xf0" "TOP_BITS 5 = 0xf8"
  "BOTTOM_BITS 6 = 0x3f" "BOTTOM_BITS 5 = 0x1f" "BOTTOM_BITS 4 = 0xf" "BOTTOM_BITS 3 = 7"
  by code_simp+

lemma cont_byte:
  "(c AND 0xc0 = 0x80) = (c = 0x80 OR (c AND 0x3f)) \<and> (0x80 OR (c AND 0x3f)) AND 0xc0 = 0x80 \<and>
   (0x80 OR (c AND 0x3f)) AND 0x3f = c AND (0x3f :: u8)"
  by (simp add: u8_eq_bits bit_and_iff bit_or_iff del: bit_7_iff)

lemma lead_byte_2:
  "(\<not> c \<le> 0x7f \<and> c AND 0xe0 = 0xc0) = (c = 0xc0 OR (c AND 0x1f)) \<and>
   (let x = 0xc0 OR (c AND 0x1f) in (\<not> x \<le> 0x7f \<and> x AND 0xe0 = 0xc0) \<and> x AND 0x1f = c AND (0x1f :: u8))"
  unfolding ascii_iff Let_def
  by (auto simp add: u8_eq_bits bit_and_iff bit_or_iff bit_take_bit_iff simp del: bit_7_iff)

lemma lead_byte_3:
  "(\<not> c \<le> 0x7f \<and> c AND 0xe0 \<noteq> 0xc0 \<and> c AND 0xf0 = 0xe0) = (c = 0xe0 OR (c AND 0xf)) \<and>
   (let x = 0xe0 OR (c AND 0xf) in (\<not> x \<le> 0x7f \<and> x AND 0xe0 \<noteq> 0xc0 \<and> x AND 0xf0 = 0xe0) \<and> x AND 0xf = c AND (0xf :: u8))"
  unfolding ascii_iff Let_def
  by (auto simp add: u8_eq_bits bit_and_iff bit_or_iff bit_take_bit_iff simp del: bit_7_iff)

lemma lead_byte_4:
  "(\<not> c \<le> 0x7f \<and> c AND 0xe0 \<noteq> 0xc0 \<and> c AND 0xf0 \<noteq> 0xe0 \<and> c AND 0xf8 = 0xf0) = (c = 0xf0 OR (c AND 7)) \<and>
   (let x = 0xf0 OR (c AND 7) in (\<not> x \<le> 0x7f \<and> x AND 0xe0 \<noteq> 0xc0 \<and> x AND 0xf0 \<noteq> 0xe0 \<and> x AND 0xf8 = 0xf0) \<and> x AND 7 = c AND (7 :: u8))"
  unfolding ascii_iff Let_def
  by (auto simp add: u8_eq_bits bit_and_iff bit_or_iff bit_take_bit_iff simp del: bit_7_iff)

lemma cont_step:
  assumes "drop_bit 26 v = 0"
  shows "x = push_bit 6 v OR ucast (c AND 0x3f :: u8) \<and> c AND 0xc0 = 0x80 \<longleftrightarrow> drop_bit 6 x = (v :: u32) \<and> c = cont x"
proof -
  have m: "c AND 0x3f = take_bit 6 c" for c :: u8
    using and_low_mask [of c 6] by simp
  have low: "take_bit 6 (ucast (push_bit 6 v OR ucast (take_bit 6 c)) :: u8) = take_bit 6 c" for c :: u8
    by (rule bit_word_eqI) (auto simp: bit_simps)
  have high: "drop_bit 6 (push_bit 6 v OR ucast (take_bit 6 c)) = v" for c :: u8
  proof (rule bit_word_eqI)
    fix n assume n: "n < LENGTH(32)"
    show "bit (drop_bit 6 (push_bit 6 v OR ucast (take_bit 6 c))) n = bit v n"
      using bit_drop_bit_zero [OF assms, of n] by (cases "n < 26") (auto simp: bit_simps)
  qed
  have join: "push_bit 6 (drop_bit 6 x) OR ucast (take_bit 6 (ucast x :: u8)) = x" for x :: u32
  proof (rule bit_word_eqI)
    fix n assume n: "n < LENGTH(32)"
    show "bit (push_bit 6 (drop_bit 6 x) OR ucast (take_bit 6 (ucast x :: u8))) n = bit x n"
      using n by (cases "n < 6") (auto simp: bit_simps)
  qed
  note cb = cont_byte [unfolded m]
  show ?thesis
    unfolding cont_def bits_consts m
  proof
    assume a: "x = push_bit 6 v OR ucast (take_bit 6 c) \<and> c AND 0xc0 = 0x80"
    then have "take_bit 6 (ucast x :: u8) = take_bit 6 c" using low by simp
    then show "drop_bit 6 x = v \<and> c = 0x80 OR take_bit 6 (ucast x)" using a high cb [of c] by simp
  next
    assume a: "drop_bit 6 x = v \<and> c = 0x80 OR take_bit 6 (ucast x)"
    then have "take_bit 6 c = take_bit 6 (ucast x :: u8)" "c AND 0xc0 = 0x80" using cb [of "ucast x"] by simp_all
    then show "x = push_bit 6 v OR ucast (take_bit 6 c) \<and> c AND 0xc0 = 0x80" using a join [of x] by simp
  qed
qed

fun conts :: "nat \<Rightarrow> u32 \<Rightarrow> bytes" where
  "conts 0 w = []"
| "conts (Suc n) w = cont (drop_bit (6 * n) w) # conts n w"

lemma drop_bit_mono_0: "drop_bit m (v :: 'a :: len word) = 0 \<Longrightarrow> m \<le> n \<Longrightarrow> drop_bit n v = 0"
  by (rule bit_word_eqI) (simp add: bit_drop_bit_eq bit_drop_bit_zero)

lemma utf8_tail_eq_Some:
  assumes "drop_bit (32 - 6 * n) v = 0" and "6 * n \<le> 32"
  shows "utf8_tail n v s = (Some w, t) \<longleftrightarrow> drop_bit (6 * n) w = v \<and> s = conts n w @ t"
  using assms
proof (induction n arbitrary: v s)
  case 0
  then show ?case by auto
next
  case (Suc n)
  have 26: "drop_bit 26 v = 0" using Suc.prems by (intro drop_bit_mono_0 [OF Suc.prems(1)]) simp
  have small: "drop_bit (32 - 6 * n) (push_bit 6 v OR ucast (c AND 0x3f :: u8)) = 0" for c
  proof (rule bit_word_eqI)
    fix k assume "k < LENGTH(32)"
    have "\<not> bit (c AND 0x3f) (32 - 6 * n + k)"
      using Suc.prems(2) and_low_mask [of c 6] by (simp add: bit_take_bit_iff)
    moreover have "\<not> bit v (32 - 6 * n + k - 6)" using Suc.prems by (intro bit_drop_bit_zero [OF Suc.prems(1)]) simp
    ultimately show "bit (drop_bit (32 - 6 * n) (push_bit 6 v OR ucast (c AND 0x3f))) k = bit 0 k"
      by (auto simp: bit_simps)
  qed
  have n: "6 * n \<le> 32" using Suc.prems by simp
  have "utf8_tail (Suc n) v s = (Some w, t) \<longleftrightarrow>
    (\<exists>c u. s = c # u \<and> c AND 0xc0 = 0x80 \<and> utf8_tail n (push_bit 6 v OR ucast (c AND 0x3f)) u = (Some w, t))"
    by (auto simp: bits_consts split: if_splits)
  also have "\<dots> \<longleftrightarrow> (\<exists>c u. s = c # u \<and> (drop_bit (6 * n) w = push_bit 6 v OR ucast (c AND 0x3f) \<and> c AND 0xc0 = 0x80) \<and>
      u = conts n w @ t)"
    unfolding Suc.IH [OF small n] by blast
  also have "\<dots> \<longleftrightarrow> drop_bit (6 * Suc n) w = v \<and> s = conts (Suc n) w @ t"
    unfolding cont_step [OF 26] by (auto simp: add.commute)
  finally show ?case .
qed

section \<open>The encodings\<close>

definition utf8_bytes :: "u32 \<Rightarrow> bytes" where
  "utf8_bytes u =
     (if u \<le> 0x7f then [ucast u]
      else if u \<le> 0x7ff then (0xc0 OR ucast (drop_bit 6 u)) # conts 1 u
      else if u \<le> 0xffff then (0xe0 OR ucast (drop_bit 12 u)) # conts 2 u
      else (0xf0 OR ucast (drop_bit 18 u)) # conts 3 u)"

lemma drop_bit_0_iff: "drop_bit n (w :: 'a :: len word) = 0 \<longleftrightarrow> unat w < 2 ^ n"
proof -
  have "drop_bit n w = 0 \<longleftrightarrow> unat (drop_bit n w) = 0" by (simp add: unat_eq_0)
  also have "\<dots> \<longleftrightarrow> drop_bit n (unat w) = 0" by (simp only: unat_drop_bit_eq)
  also have "\<dots> \<longleftrightarrow> unat w < 2 ^ n" by (simp add: drop_bit_eq_div div_eq_0_iff)
  finally show ?thesis .
qed

lemma narrow: "drop_bit 8 d = 0 \<Longrightarrow> ucast (ucast (d :: u32) :: u8) = d"
  using ucast_narrow [where 'a = 8, of d] by simp

text \<open>The lead byte holds the high bits.\<close>

lemma lead_small:
  assumes "k \<le> 8" and "n + k \<le> 32"
  shows "drop_bit n w = ucast (take_bit k (c :: u8)) \<longleftrightarrow> unat (w :: u32) < 2 ^ (n + k) \<and> take_bit k c = ucast (drop_bit n w)"
proof
  assume e: "drop_bit n w = ucast (take_bit k c)"
  have "drop_bit (n + k) w = 0"
  proof (rule bit_word_eqI)
    fix i
    have "bit (drop_bit (n + k) w) i = bit (drop_bit n w) (k + i)" by (simp add: bit_drop_bit_eq ac_simps)
    then show "bit (drop_bit (n + k) w) i = bit 0 i" by (simp add: e bit_simps)
  qed
  then show "unat w < 2 ^ (n + k) \<and> take_bit k c = ucast (drop_bit n w)"
    by (simp add: drop_bit_0_iff e)
next
  assume a: "unat w < 2 ^ (n + k) \<and> take_bit k c = ucast (drop_bit n w)"
  then have "drop_bit (n + k) w = 0" by (simp add: drop_bit_0_iff)
  then have "drop_bit (8 + n) w = 0" using assms by (elim drop_bit_mono_0) simp
  then have "drop_bit 8 (drop_bit n w) = 0" by (simp only: drop_bit_drop_bit)
  then have "ucast (ucast (drop_bit n w) :: u8) = drop_bit n w" by (rule narrow)
  then show "drop_bit n w = ucast (take_bit k c)" using a by (simp only:)
qed

lemma masks:
  "c AND 0x1f = take_bit 5 (c :: u8)" "c AND 0xf = take_bit 4 c" "c AND 7 = take_bit 3 c"
  using and_low_mask [of c 5] and_low_mask [of c 4] and_low_mask [of c 3] by simp_all

lemma utf8_multibyte_eq_Some:
  assumes "k \<le> 8" and "32 = 6 * n + m" and "k \<le> m"
  shows "utf8_multibyte (ucast (take_bit k (c :: u8))) n low s = (Some w, t) \<longleftrightarrow>
    is_valid_code_point w \<and> low \<le> w \<and> unat w < 2 ^ (6 * n + k) \<and>
    take_bit k c = ucast (drop_bit (6 * n) w) \<and> s = conts n w @ t"
proof -
  have small: "drop_bit (32 - 6 * n) (ucast (take_bit k c) :: u32) = 0"
    using assms by (intro bit_word_eqI) (auto simp: bit_simps)
  have n: "6 * n \<le> 32" "6 * n + k \<le> 32" using assms by simp_all
  show ?thesis
    unfolding utf8_multibyte_def and_then_eq_Some utf8_tail_eq_Some [OF small n(1)]
      lead_small [OF assms(1) n(2)]
    by (auto simp: not_less split: if_splits)
qed

lemma valid_code_point_le: "is_valid_code_point w \<Longrightarrow> unat w \<le> 0x10ffff"
  by (simp add: is_valid_code_point_def not_less word_le_nat_alt)

lemma take_bit_lead:
  assumes "unat (w :: u32) < 2 ^ (n + k)" and "k \<le> 8" and "n + k \<le> 32"
  shows "take_bit k (ucast (drop_bit n w) :: u8) = ucast (drop_bit n w)"
  using lead_small [OF assms(2,3), of w "ucast (drop_bit n w)"]
proof -
  have "drop_bit (n + k) w = 0" using assms(1) by (simp add: drop_bit_0_iff)
  then have b: "\<not> bit w (n + j)" if "k \<le> j" for j using bit_drop_bit_zero [of "n + k" w "n + j"] that by simp
  show ?thesis
  proof (rule bit_word_eqI)
    fix j assume "j < LENGTH(8)"
    then show "bit (take_bit k (ucast (drop_bit n w) :: u8)) j = bit (ucast (drop_bit n w) :: u8) j"
      using b [of j] by (cases "j < k") (simp_all add: bit_simps)
  qed
qed

text \<open>One lead byte cls: the bytes read are those of a code point in the range of the class.\<close>

lemma multibyte_class:
  assumes size: "k \<le> 8" "32 = 6 * n + m" "k \<le> m"
    and cls: "\<And>c. P c \<longleftrightarrow> c = b OR take_bit k c" "\<And>x. P (b OR take_bit k x)"
      "\<And>x. take_bit k (b OR take_bit k x) = take_bit k x"
  shows "P c \<and> utf8_multibyte (ucast (take_bit k (c :: u8))) n low u = (Some w, t) \<longleftrightarrow>
    is_valid_code_point w \<and> low \<le> w \<and> unat w < 2 ^ (6 * n + k) \<and>
    c # u = (b OR ucast (drop_bit (6 * n) w)) # conts n w @ t"
  unfolding utf8_multibyte_eq_Some [OF size]
proof (intro iffI conjI; elim conjE)
  assume a: "P c" "take_bit k c = ucast (drop_bit (6 * n) w)" "u = conts n w @ t"
  then show "c # u = (b OR ucast (drop_bit (6 * n) w)) # conts n w @ t" using cls(1) [of c] by simp
next
  assume a: "unat w < 2 ^ (6 * n + k)" "c # u = (b OR ucast (drop_bit (6 * n) w)) # conts n w @ t"
  have "take_bit k (ucast (drop_bit (6 * n) w) :: u8) = ucast (drop_bit (6 * n) w)"
    using a(1) size by (intro take_bit_lead) simp_all
  then have "c = b OR take_bit k (ucast (drop_bit (6 * n) w))" using a(2) by simp
  then show "P c" "take_bit k c = ucast (drop_bit (6 * n) w)" "u = conts n w @ t"
    using a(2) cls(2,3) [of "ucast (drop_bit (6 * n) w)"]
      \<open>take_bit k (ucast (drop_bit (6 * n) w) :: u8) = ucast (drop_bit (6 * n) w)\<close> by simp_all
qed simp_all

lemma CBS_get_utf8_eq_Some:
  "CBS_get_utf8 s = (Some w, t) \<longleftrightarrow> is_valid_code_point w \<and> s = utf8_bytes w @ t"
proof (cases s)
  case Nil
  have "utf8_bytes w \<noteq> []" by (simp add: utf8_bytes_def)
  then show ?thesis by (simp add: Nil CBS_get_utf8_def and_then_def)
next
  case (Cons c u)
  have one: "ucast c = w \<and> c \<le> 0x7f \<longleftrightarrow> w \<le> 0x7f \<and> c = ucast w" for w :: u32
  proof
    assume "ucast c = w \<and> c \<le> 0x7f"
    then show "w \<le> 0x7f \<and> c = ucast w" by (auto simp: word_le_nat_alt)
  next
    assume a: "w \<le> 0x7f \<and> c = ucast w"
    then have "unat w < 2 ^ 8" by (simp add: word_le_nat_alt)
    then have e: "ucast c = w" using a narrow [of w] by (simp add: drop_bit_0_iff)
    then have "unat c = unat w" by auto
    then show "ucast c = w \<and> c \<le> 0x7f" using a e by (simp add: word_le_nat_alt)
  qed
  have ascii: "is_valid_code_point w" if "w \<le> 0x7f" for w
  proof -
    have "w AND 0xfffe \<le> w" by (rule word_and_le2)
    then have "unat (w AND 0xfffe) \<le> 0x7f" using that by (simp add: word_le_nat_alt)
    then have "w AND 0xfffe \<noteq> 0xfffe" by auto
    then show ?thesis using that by (simp add: is_valid_code_point_def word_le_nat_alt word_less_nat_alt)
  qed
  have c2: "(\<not> c \<le> 0x7f \<and> c AND 0xe0 = 0xc0) \<and> utf8_multibyte (ucast (c AND 0x1f)) 1 0x80 u = (Some w, t) \<longleftrightarrow>
      is_valid_code_point w \<and> 0x80 \<le> w \<and> unat w < 2 ^ 11 \<and> c # u = (0xc0 OR ucast (drop_bit 6 w)) # conts 1 w @ t"
    using multibyte_class [of 5 1 26 "\<lambda>c. \<not> c \<le> 0x7f \<and> c AND 0xe0 = 0xc0" "0xc0" c "0x80" u w t]
      lead_byte_2 [unfolded masks Let_def] unfolding masks by simp
  have c3: "(\<not> c \<le> 0x7f \<and> c AND 0xe0 \<noteq> 0xc0 \<and> c AND 0xf0 = 0xe0) \<and>
        utf8_multibyte (ucast (c AND 0xf)) 2 0x800 u = (Some w, t) \<longleftrightarrow>
      is_valid_code_point w \<and> 0x800 \<le> w \<and> unat w < 2 ^ 16 \<and> c # u = (0xe0 OR ucast (drop_bit 12 w)) # conts 2 w @ t"
    using multibyte_class [of 4 2 20 "\<lambda>c. \<not> c \<le> 0x7f \<and> c AND 0xe0 \<noteq> 0xc0 \<and> c AND 0xf0 = 0xe0" "0xe0" c "0x800" u w t]
      lead_byte_3 [unfolded masks Let_def] unfolding masks by simp
  have c4: "(\<not> c \<le> 0x7f \<and> c AND 0xe0 \<noteq> 0xc0 \<and> c AND 0xf0 \<noteq> 0xe0 \<and> c AND 0xf8 = 0xf0) \<and>
        utf8_multibyte (ucast (c AND 7)) 3 0x10000 u = (Some w, t) \<longleftrightarrow>
      is_valid_code_point w \<and> 0x10000 \<le> w \<and> unat w < 2 ^ 21 \<and> c # u = (0xf0 OR ucast (drop_bit 18 w)) # conts 3 w @ t"
    using multibyte_class [of 3 3 14 "\<lambda>c. \<not> c \<le> 0x7f \<and> c AND 0xe0 \<noteq> 0xc0 \<and> c AND 0xf0 \<noteq> 0xe0 \<and> c AND 0xf8 = 0xf0"
        "0xf0" c "0x10000" u w t]
      lead_byte_4 [unfolded masks Let_def] unfolding masks by simp
  have "CBS_get_utf8 s = (Some w, t) \<longleftrightarrow> (c \<le> 0x7f \<and> ucast c = w \<and> u = t) \<or>
      ((\<not> c \<le> 0x7f \<and> c AND 0xe0 = 0xc0) \<and> utf8_multibyte (ucast (c AND 0x1f)) 1 0x80 u = (Some w, t)) \<or>
      ((\<not> c \<le> 0x7f \<and> c AND 0xe0 \<noteq> 0xc0 \<and> c AND 0xf0 = 0xe0) \<and>
        utf8_multibyte (ucast (c AND 0xf)) 2 0x800 u = (Some w, t)) \<or>
      ((\<not> c \<le> 0x7f \<and> c AND 0xe0 \<noteq> 0xc0 \<and> c AND 0xf0 \<noteq> 0xe0 \<and> c AND 0xf8 = 0xf0) \<and>
        utf8_multibyte (ucast (c AND 7)) 3 0x10000 u = (Some w, t))"
    by (simp add: Cons CBS_get_utf8_def bits_consts) blast
  also have "\<dots> \<longleftrightarrow> is_valid_code_point w \<and> s = utf8_bytes w @ t"
    unfolding c2 c3 c4 using one [of w] ascii [of w] valid_code_point_le [of w]
    by (auto simp: Cons utf8_bytes_def word_le_nat_alt)
  finally show ?thesis .
qed

lemma utf8_bytes_nonempty [simp]: "utf8_bytes u \<noteq> []"
  by (simp add: utf8_bytes_def)

lemma CBS_get_ucs2_be_eq_Some:
  "CBS_get_ucs2_be s = (Some w, t) \<longleftrightarrow> (is_valid_code_point w \<and> w \<le> 0xffff) \<and> s = be_bytes 2 (ucast w) @ t"
proof -
  have "w \<le> 0xffff \<longleftrightarrow> (\<exists>c :: u16. w = ucast c)" for w :: u32
  proof
    assume "w \<le> 0xffff"
    then have "unat w < 2 ^ 16" by (simp add: word_le_nat_alt)
    then have "drop_bit 16 w = 0" by (simp only: drop_bit_0_iff)
    then have "w = ucast (ucast w :: u16)" using ucast_narrow [where 'a = 16, of w] by simp
    then show "\<exists>c :: u16. w = ucast c" ..
  next
    assume "\<exists>c :: u16. w = ucast c"
    then obtain c :: u16 where "w = ucast c" ..
    moreover have "unat c < 2 ^ LENGTH(16)" by (rule unsigned_less)
    ultimately show "w \<le> 0xffff" by (simp add: word_le_nat_alt)
  qed
  moreover have "ucast (ucast c :: u32) = (ucast c :: u64)" for c :: u16
    by (rule bit_word_eqI) (auto simp: bit_simps dest: bit_imp_le_length)
  ultimately show ?thesis by (auto simp: CBS_get_ucs2_be_def CBS_get_u16_eq_Some split: if_splits)
qed

interpretation utf8: codec_nonempty is_valid_code_point utf8_bytes CBS_get_utf8
  by (rule codecI) (auto simp: CBS_get_utf8_eq_Some)

interpretation latin1: codec_nonempty "\<lambda>u. u \<le> 0xff" "\<lambda>u. [ucast u]" CBS_get_latin1
proof (rule codecI)
  show "CBS_get_latin1 s = (Some u, t) \<longleftrightarrow> u \<le> 0xff \<and> s = [ucast u] @ t" for s u t
  proof
    assume "CBS_get_latin1 s = (Some u, t)"
    then obtain c where "s = c # t" "u = ucast c" by (auto simp: CBS_get_latin1_def)
    then show "u \<le> 0xff \<and> s = [ucast u] @ t" using unat_u8_lt [of c] by (simp add: word_le_nat_alt)
  next
    assume a: "u \<le> 0xff \<and> s = [ucast u] @ t"
    then have "unat u < 2 ^ 8" by (simp add: word_le_nat_alt)
    then have "ucast (ucast u :: u8) = u" by (intro narrow) (simp add: drop_bit_0_iff)
    then show "CBS_get_latin1 s = (Some u, t)" using a by (simp add: CBS_get_latin1_def)
  qed
qed simp

interpretation ucs2: codec_nonempty "\<lambda>u. is_valid_code_point u \<and> u \<le> 0xffff" "\<lambda>u. be_bytes 2 (ucast u)" CBS_get_ucs2_be
  by (rule codecI) (simp_all add: CBS_get_ucs2_be_eq_Some)

interpretation utf32: codec_nonempty is_valid_code_point "\<lambda>u. be_bytes 4 (ucast u)" CBS_get_utf32_be
  by (rule codecI) (auto simp: CBS_get_utf32_be_def CBS_get_u32_eq_Some split: if_splits)

section \<open>Writing\<close>

lemma conts_list:
  "add_list env h (conts 1 u) = CBB_add_u8 env h (cont u)"
  "add_list env h (conts 2 u) = and_then (CBB_add_u8 env h (cont (drop_bit 6 u))) (\<lambda>_. CBB_add_u8 env h (cont u))"
  "add_list env h (conts 3 u) = and_then (CBB_add_u8 env h (cont (drop_bit 12 u))) (\<lambda>_.
     and_then (CBB_add_u8 env h (cont (drop_bit 6 u))) (\<lambda>_. CBB_add_u8 env h (cont u)))"
  by (simp_all add: numeral_2_eq_2 numeral_3_eq_3)

lemma add_utf8_list:
  "is_valid_code_point u \<Longrightarrow> CBB_add_utf8 env h u = add_list env h (utf8_bytes u)"
  using valid_code_point_le [of u]
  by (simp add: CBB_add_utf8_def utf8_bytes_def conts_list [unfolded One_nat_def] cont_def [unfolded One_nat_def] bits_consts word_le_nat_alt)

lemma add_utf8_writes:
  "writes (\<lambda>env. CBB_add_utf8 env h u) h (if is_valid_code_point u then Some (utf8_bytes u) else None)"
  using add_list_appender [of "utf8_bytes u" h]
  by (simp add: writes_def never_def add_utf8_list) (simp add: CBB_add_utf8_def fail_def)

lemma utf8_len: "is_valid_code_point u \<Longrightarrow> CBB_get_utf8_len u = length (utf8_bytes u)"
  by (simp add: CBB_get_utf8_len_def utf8_bytes_def numeral_2_eq_2 numeral_3_eq_3)

section \<open>Characters and their UTF-8 forms as numbers\<close>

text \<open>The numbers that stand for characters: up to \<open>0x10ffff\<close>, without the surrogates and the
  noncharacters of Unicode; and the UTF-8 form of RFC 3629, digits to base 64.\<close>

definition character :: "nat \<Rightarrow> bool" where
  "character c \<longleftrightarrow> c \<le> 0x10ffff \<and> c \<notin> {0xd800..0xdfff} \<and> c \<notin> {0xfdd0..0xfdef} \<and> c mod 0x10000 < 0xfffe"

definition utf8_form :: "nat \<Rightarrow> nat list" where
  "utf8_form c =
     (if c < 0x80 then [c]
      else if c < 0x800 then [0xc0 + c div 64, 0x80 + c mod 64]
      else if c < 0x10000 then [0xe0 + c div 64 ^ 2, 0x80 + c div 64 mod 64, 0x80 + c mod 64]
      else [0xf0 + c div 64 ^ 3, 0x80 + c div 64 ^ 2 mod 64, 0x80 + c div 64 mod 64, 0x80 + c mod 64])"

lemma and_fffe: "v AND 0xfffe = (0xfffe :: u32) \<longleftrightarrow> 0xfffe \<le> unat v mod 0x10000"
proof -
  define n where "n = unat v"
  have "n AND 0xfffe = 2 * (n div 2 AND 0x7fff)" by (subst and_rec) simp
  also have "n div 2 AND 0x7fff = n div 2 mod 2 ^ 15"
    using take_bit_eq_mask [of 15 "n div 2"] by (simp add: take_bit_eq_mod mask_eq_exp_minus_1)
  finally have a: "n AND 0xfffe = 2 * (n div 2 mod 0x8000)" by simp
  have m: "n mod 0x10000 = 2 * (n div 2 mod 0x8000) + n mod 2" using mod_mult2_eq [of n 2 "0x8000"] by simp
  have "v AND 0xfffe = 0xfffe \<longleftrightarrow> n AND 0xfffe = 0xfffe" by (simp add: n_def word_unat_eq_iff unsigned_and_eq)
  also have "\<dots> \<longleftrightarrow> 0xfffe \<le> n mod 0x10000"
  proof -
    have "2 * q = 0xfffe \<longleftrightarrow> 0xfffe \<le> 2 * q + r" if "q < 0x8000" "r < 2" for q r :: nat
      using that by presburger
    then show ?thesis unfolding a m by simp
  qed
  finally show ?thesis by (simp add: n_def)
qed

lemma valid_code_point_iff: "is_valid_code_point v \<longleftrightarrow> character (unat v)"
  unfolding is_valid_code_point_def character_def and_fffe
  by (auto simp: word_le_nat_alt word_less_nat_alt not_less)

lemma or_take:
  assumes "take_bit k a = 0"
  shows "unat (a OR take_bit k b :: u8) = unat a + unat b mod 2 ^ k"
proof -
  have "a AND take_bit k b = 0"
    using assms by (auto simp: bit_eq_iff bit_simps)
  then have "a OR take_bit k b = a + take_bit k b" by (simp add: disjunctive_add_eq_or)
  moreover have "unat (a OR take_bit k b) = unat a OR unat (take_bit k b)" by (rule unsigned_or_eq)
  moreover have "unat a AND unat (take_bit k b) = 0"
    using \<open>a AND take_bit k b = 0\<close> by (metis unsigned_0 unsigned_and_eq)
  moreover have "unat (take_bit k b) = unat b mod 2 ^ k"
    by (simp only: unsigned_take_bit_eq) (simp add: take_bit_eq_mod)
  ultimately show ?thesis by (simp add: disjunctive_add_eq_or [symmetric])
qed

lemma unat_ucast_u8: "unat (ucast (w :: u32) :: u8) = unat w mod 256"
  by (simp add: unsigned_ucast_eq take_bit_eq_mod)

lemma unat_cont: "unat (cont w) = 0x80 + unat w mod 64"
proof -
  have "cont w = 0x80 OR take_bit 6 (ucast w)"
    using and_low_mask [of "ucast w :: u8" 6] by (simp add: cont_def bits_consts)
  moreover have "take_bit 6 (0x80 :: u8) = 0" by code_simp
  ultimately show ?thesis using or_take [of 6 "0x80" "ucast w"] by (simp add: unat_ucast_u8 mod_mod_cancel)
qed

lemma unat_lead:
  assumes "unat w < 2 ^ k" "k \<le> 8" "take_bit k a = (0 :: u8)"
  shows "unat (a OR ucast w) = unat a + unat (w :: u32)"
proof -
  have "(2 :: nat) ^ k \<le> 2 ^ 8" using assms(2) by (intro power_increasing) simp_all
  then have w: "unat (ucast w :: u8) = unat w" using assms(1) by (simp add: unat_ucast_u8)
  then have "take_bit k (ucast w :: u8) = ucast w" using assms(1)
    by (intro word_unat_eq_iff [THEN iffD2]) (simp add: unsigned_take_bit_eq take_bit_nat_eq_self)
  then show ?thesis using or_take [OF assms(3), of "ucast w"] w assms(1) by simp
qed

lemma utf8_bytes_form:
  assumes "is_valid_code_point u"
  shows "map unat (utf8_bytes u) = utf8_form (unat u)"
proof -
  have d: "unat (drop_bit n u) = unat u div 2 ^ n" for n
    unfolding unat_drop_bit_eq by (rule drop_bit_eq_div)
  have l: "unat u \<le> 0x10ffff" using assms by (rule valid_code_point_le)
  have t: "take_bit 5 (0xc0 :: u8) = 0" "take_bit 4 (0xe0 :: u8) = 0" "take_bit 3 (0xf0 :: u8) = 0" by code_simp+
  have c: "conts 1 u = [cont u]" "conts 2 u = [cont (drop_bit 6 u), cont u]"
    "conts 3 u = [cont (drop_bit 12 u), cont (drop_bit 6 u), cont u]"
    by (simp_all add: eval_nat_numeral)
  consider "unat u < 0x80" | "0x80 \<le> unat u" "unat u < 0x800" | "0x800 \<le> unat u" "unat u < 0x10000"
    | "0x10000 \<le> unat u" by linarith
  then show ?thesis
  proof cases
    case 1
    then show ?thesis by (simp add: utf8_bytes_def utf8_form_def word_le_nat_alt unat_ucast_u8)
  next
    case 2
    then show ?thesis using unat_lead [of "drop_bit 6 u" 5 "0xc0"] t(1)
      by (simp add: utf8_bytes_def utf8_form_def word_le_nat_alt unat_cont d c)
  next
    case 3
    then show ?thesis using unat_lead [of "drop_bit 12 u" 4 "0xe0"] t(2)
      by (simp add: utf8_bytes_def utf8_form_def word_le_nat_alt unat_cont d c)
  next
    case 4
    then show ?thesis using unat_lead [of "drop_bit 18 u" 3 "0xf0"] t(3) l
      by (simp add: utf8_bytes_def utf8_form_def word_le_nat_alt unat_cont d c)
  qed
qed

lemma utf8_len_form: "CBB_get_utf8_len u = length (utf8_form (unat u))"
  by (auto simp: CBB_get_utf8_len_def utf8_form_def word_le_nat_alt)

section \<open>Properties\<close>

text \<open>C12: \<open>CBS_get_utf8\<close> accepts exactly the UTF-8 form of RFC 3629, which is the shortest, of a character: a
  number up to \<open>0x10ffff\<close> that is neither a surrogate nor a noncharacter. \<open>CBB_add_utf8\<close>, memory permitting,
  writes the same form and refuses the same numbers, and \<open>CBB_get_utf8_len\<close> is the length of the form.\<close>

theorem utf8_roundtrip:
  assumes "n \<le> SIZE_MAX" and "\<forall>k \<le> SIZE_MAX. alloc_ok env k"
  shows "(CBS_get_utf8 s = (Some u, t) \<longleftrightarrow>
      character (unat u) \<and> (\<exists>x. map unat x = utf8_form (unat u) \<and> s = x @ t)) \<and>
    (build env n (\<lambda>env. CBB_add_utf8 env 0 u) = Some x \<longleftrightarrow>
      character (unat u) \<and> map unat x = utf8_form (unat u)) \<and>
    CBB_get_utf8_len u = length (utf8_form (unat u))"
proof -
  have x: "map unat x = utf8_form (unat u) \<longleftrightarrow> x = utf8_bytes u" if "is_valid_code_point u" for x
    unfolding utf8_bytes_form [OF that, symmetric] by (rule inj_map_eq_map [OF injI]) (rule unat_eqI)
  have "build env n (\<lambda>env. CBB_add_utf8 env 0 u) = (if is_valid_code_point u then Some (utf8_bytes u) else None)"
  proof (cases "is_valid_code_point u")
    case True
    then have "appender (\<lambda>env. CBB_add_utf8 env 0 u) 0 (utf8_bytes u)"
      using add_utf8_writes [of 0 u] by (simp add: writes_def)
    moreover have "length (utf8_bytes u) \<le> 4"
      using utf8_len [OF True] by (auto simp: CBB_get_utf8_len_def split: if_splits)
    ultimately show ?thesis using build_exact(2) [OF _ assms] True by (simp add: SIZE_MAX_def)
  next
    case False
    then have "never (\<lambda>env. CBB_add_utf8 env 0 u) 0" using add_utf8_writes [of 0 u] by (simp add: writes_def)
    from build_never [OF this assms(1)] show ?thesis using False by simp
  qed
  then show ?thesis
    using x by (auto simp: CBS_get_utf8_eq_Some utf8_len_form valid_code_point_iff [symmetric])
qed

theorem utf8_roundtrip_witness:
  "build \<lparr>alloc_ok = \<lambda>_. True, uninit = \<lambda>_. 0\<rparr> 4 (\<lambda>env. CBB_add_utf8 env 0 0x20ac) = Some [0xe2, 0x82, 0xac] \<and>
   CBS_get_utf8 [0xe2, 0x82, 0xac, 0x41] = (Some 0x20ac, [0x41]) \<and> CBS_get_utf8 [0xed, 0xa0, 0x80] \<noteq> (Some 0xd800, [])"
proof -
  have c: "character (unat (0x20ac :: u32))" "map unat [0xe2, 0x82, 0xac :: u8] = utf8_form (unat (0x20ac :: u32))"
    "\<not> character (unat (0xd800 :: u32))"
    by (simp_all add: character_def utf8_form_def)
  have n: "(4 :: nat) \<le> SIZE_MAX" by (simp add: SIZE_MAX_def)
  note r = utf8_roundtrip [OF n, of "\<lparr>alloc_ok = \<lambda>_. True, uninit = \<lambda>_. 0\<rparr>"]
  have "[0xe2, 0x82, 0xac, 0x41] = [0xe2, 0x82, 0xac] @ [0x41 :: u8]" by simp
  then show ?thesis
    using r [of _ "0x20ac" _ "[0xe2, 0x82, 0xac]"] r [of "[0xed, 0xa0, 0x80]" "0xd800" "[]"] c
    by (metis cbb_env.select_convs(1))
qed

end
