(* ===== verification/Base64_Text.thy ===== *)
theory Base64_Text
  imports Base64 Unicode
begin

text \<open>
  Base64, theorems. The reference is RFC 4648 over bit strings: the bits of the input in
  groups of six, each group an index into the alphabet, and \<open>=\<close> up to a multiple of four
  characters; for the streams, a line break after every 48 bytes of input.
\<close>

section \<open>Characters\<close>

lemma lt_args_8_eq [simp]: "constant_time_lt_args_8 a b = (if a < b then - 1 else 0)"
proof -
  have "(ucast a :: u64) < ucast b \<longleftrightarrow> a < b" by (simp add: word_less_nat_alt)
  then show ?thesis
    by (simp add: constant_time_lt_args_8_def msb_w_eq bit_63_sub bit_unsigned_iff)
qed

lemma in_range_8_eq:
  assumes "lo \<le> hi" and "hi - lo \<noteq> - 1"
  shows "constant_time_in_range_8 a lo hi = (if lo \<le> a \<and> a \<le> hi then - 1 else 0)"
proof -
  have "1 + (hi - lo) \<noteq> 0"
    using assms(2) unfolding eq_neg_iff_add_eq_0 by (subst add.commute)
  from unatSuc [OF this] have "unat (hi - lo + 1) = Suc (unat (hi - lo))"
    by (simp only: add.commute)
  then have "unat (hi - lo + 1) = unat hi - unat lo + 1"
    using assms(1) by (simp add: unat_sub)
  moreover have "unat (a - lo) = (if lo \<le> a then unat a - unat lo else unat a + 256 - unat lo)"
    by (simp add: unat_sub_if' word_le_nat_alt)
  ultimately have "a - lo < hi - lo + 1 \<longleftrightarrow> lo \<le> a \<and> a \<le> hi"
    using assms(1) unat_u8_lt [of hi] unat_u8_lt [of lo] unat_u8_lt [of a]
    by (auto simp: word_less_nat_alt word_le_nat_alt)
  then show ?thesis by (simp add: constant_time_in_range_8_def)
qed

lemma select_8_of_8 [simp]:
  "constant_time_select_8 (ucast (if c then - 1 else 0 :: u8)) a b = (if c then a else b)"
  by (simp add: constant_time_select_8_def value_barrier_w_def Let_def)

lemma ucast_u64_eq_iff: "(ucast (a :: u8) :: u64) = ucast b \<longleftrightarrow> a = b"
proof
  assume "(ucast a :: u64) = ucast b"
  then have "unat (ucast a :: u64) = unat (ucast b :: u64)" by (rule arg_cong)
  then show "a = b" by (simp add: word_unat_eq_iff)
qed simp

lemma conv_bin2ascii_eq:
  "conv_bin2ascii a =
     (let a = a AND 0x3F in
      if a < 26 then a + char_upper_A else if a < 52 then a - 26 + char_lower_a
      else if a < 62 then a - 52 + char_0 else if a = 62 then char_plus else char_slash)"
proof -
  have 62: "(62 :: u64) = ucast (62 :: u8)" by simp
  show ?thesis
    unfolding conv_bin2ascii_def Let_def 62 masks_8 ucast_u64_eq_iff lt_args_8_eq select_8_of_8
    by (rule refl)
qed

lemma mask_and_if [simp]: "(if c then - 1 else 0) AND w = (if c then w else (0 :: 'a :: len word))"
  by simp

lemma base64_ascii_to_bin_eq:
  "base64_ascii_to_bin a =
     (if char_upper_A \<le> a \<and> a \<le> char_upper_Z then a - char_upper_A
      else if char_lower_a \<le> a \<and> a \<le> char_lower_z then a - char_lower_a + 26
      else if char_0 \<le> a \<and> a \<le> char_9 then a - char_0 + 52
      else if a = char_plus then 62 else if a = char_slash then 63
      else if a = char_equals then 0 else 0xFF)"
proof -
  define u l d where "u \<longleftrightarrow> char_upper_A \<le> a \<and> a \<le> char_upper_Z"
    and "l \<longleftrightarrow> char_lower_a \<le> a \<and> a \<le> char_lower_z"
    and "d \<longleftrightarrow> char_0 \<le> a \<and> a \<le> char_9"
  have masks: "constant_time_in_range_8 a char_upper_A char_upper_Z = (if u then - 1 else 0)"
    "constant_time_in_range_8 a char_lower_a char_lower_z = (if l then - 1 else 0)"
    "constant_time_in_range_8 a char_0 char_9 = (if d then - 1 else 0)"
    unfolding u_def l_def d_def by (rule in_range_8_eq; simp)+
  have excl: "\<not> (u \<and> l)" "\<not> (u \<and> d)" "\<not> (l \<and> d)"
    "u \<or> l \<or> d \<longrightarrow> a \<noteq> char_plus \<and> a \<noteq> char_slash \<and> a \<noteq> char_equals"
    by (auto simp: u_def l_def d_def word_le_nat_alt)
  have distinct: "char_plus \<noteq> char_slash" "char_plus \<noteq> char_equals" "char_slash \<noteq> char_equals"
    by simp_all
  show ?thesis
    unfolding base64_ascii_to_bin_def Let_def masks masks_8 ucast_u64_eq_iff u_def [symmetric]
      l_def [symmetric] d_def [symmetric]
    using excl distinct
    by (cases u; cases l; cases d; cases "a = char_plus"; cases "a = char_slash";
        cases "a = char_equals") simp_all
qed

text \<open>Table 1 of RFC 4648.\<close>

definition base64_alphabet :: bytes where
  "base64_alphabet = map of_nat ([65..<91] @ [97..<123] @ [48..<58] @ [43, 47])"

lemma alphabet_length [simp]: "length base64_alphabet = 64"
  by (simp add: base64_alphabet_def)

lemma alphabet_all:
  "list_all (\<lambda>k. let c = base64_alphabet ! k; w = of_nat k in
       (if w < 26 then w + char_upper_A else if w < 52 then w - 26 + char_lower_a
        else if w < 62 then w - 52 + char_0 else if w = 62 then char_plus else char_slash) = c \<and>
       (if char_upper_A \<le> c \<and> c \<le> char_upper_Z then c - char_upper_A
        else if char_lower_a \<le> c \<and> c \<le> char_lower_z then c - char_lower_a + 26
        else if char_0 \<le> c \<and> c \<le> char_9 then c - char_0 + 52
        else if c = char_plus then 62 else if c = char_slash then 63
        else if c = char_equals then 0 else 0xFF) = w \<and> c \<noteq> char_equals \<and> \<not> is_base64_space c) [0..<64]"
  by code_simp

lemma and_3F_eq: "w AND 0x3F = take_bit 6 (w :: u8)"
  by (simp add: u8_eq_bits bit_simps del: bit_7_iff)

lemma sextet_lt [simp]: "unat (w AND 0x3F :: u8) < 64"
  using take_bit_nat_less_exp [of 6 "unat w"] by (simp add: and_3F_eq unsigned_take_bit_eq)

lemma alphabet_step:
  assumes "k < 64"
  shows "conv_bin2ascii (of_nat k) = base64_alphabet ! k"
    and "base64_ascii_to_bin (base64_alphabet ! k) = of_nat k"
    and "base64_alphabet ! k \<noteq> char_equals"
    and "\<not> is_base64_space (base64_alphabet ! k)"
proof -
  have k: "(of_nat k :: u8) AND 0x3F = of_nat k"
    using assms by (simp add: and_3F_eq take_bit_of_nat take_bit_nat_eq_self)
  have "k \<in> set [0..<64]" using assms by simp
  with alphabet_all [unfolded list_all_iff] show
    "conv_bin2ascii (of_nat k) = base64_alphabet ! k"
    "base64_ascii_to_bin (base64_alphabet ! k) = of_nat k"
    "base64_alphabet ! k \<noteq> char_equals"
    "\<not> is_base64_space (base64_alphabet ! k)"
    unfolding conv_bin2ascii_eq base64_ascii_to_bin_eq Let_def k by blast+
qed

lemma conv_bin2ascii_nth: "conv_bin2ascii w = base64_alphabet ! unat (w AND 0x3F)"
proof -
  have "conv_bin2ascii w = conv_bin2ascii (of_nat (unat (w AND 0x3F)))"
    by (simp add: conv_bin2ascii_eq)
  then show ?thesis by (simp only: alphabet_step sextet_lt)
qed

lemma ascii_to_bin_conv [simp]: "base64_ascii_to_bin (conv_bin2ascii w) = w AND 0x3F"
  by (simp add: conv_bin2ascii_nth alphabet_step(2))

lemma conv_not_equals [simp]: "conv_bin2ascii w \<noteq> char_equals"
  and conv_not_space [simp]: "\<not> is_base64_space (conv_bin2ascii w)"
  by (simp_all add: conv_bin2ascii_nth alphabet_step(3,4))

section \<open>The reference encoding\<close>

definition bits_of_byte :: "u8 \<Rightarrow> bool list" where
  "bits_of_byte b = map (bit b) [7, 6, 5, 4, 3, 2, 1, 0]"

definition value_of_bits :: "bool list \<Rightarrow> nat" where
  "value_of_bits bs = foldl (\<lambda>n b. 2 * n + of_bool b) 0 bs"

fun sextets :: "bool list \<Rightarrow> bool list list" where
  "sextets [] = []"
| "sextets (b # bs) = take 6 (b # bs @ replicate 5 False) # sextets (drop 5 bs)"

definition rfc4648_encode :: "bytes \<Rightarrow> bytes" where
  "rfc4648_encode bs =
     (let cs = map (\<lambda>g. base64_alphabet ! value_of_bits g) (sextets (concat (map bits_of_byte bs)))
      in cs @ replicate ((4 - length cs mod 4) mod 4) char_equals)"

lemma value_of_bits_horner: "value_of_bits bs = horner_sum of_bool 2 (rev bs)"
proof -
  have "foldl (\<lambda>n b. 2 * n + of_bool b) m bs = horner_sum of_bool 2 (rev bs) + 2 ^ length bs * m" for m :: nat
    by (induction bs arbitrary: m) (simp_all add: horner_sum_append algebra_simps)
  from this [of 0] show ?thesis by (simp add: value_of_bits_def)
qed

lemma value_of_low_bits:
  "value_of_bits [bit w 5, bit w 4, bit w 3, bit w 2, bit w 1, bit w 0] = unat (w AND 0x3F :: u8)"
proof -
  have "rev [bit w 5, bit w 4, bit w 3, bit w 2, bit w 1, bit w 0] = map (bit (unat w)) [0..<6]"
    by (simp add: upt_rec bit_unsigned_iff numeral_eq_Suc)
  then show ?thesis
    by (simp only: value_of_bits_horner horner_sum_bit_eq_take_bit and_3F_eq unsigned_take_bit_eq)
qed

lemma value_of_byte: "of_nat (value_of_bits (bits_of_byte w)) = w"
proof -
  have "rev (bits_of_byte w) = map (bit (unat w)) [0..<8]"
    by (simp add: bits_of_byte_def upt_rec bit_unsigned_iff numeral_eq_Suc)
  then have "value_of_bits (bits_of_byte w) = take_bit 8 (unat w)"
    by (simp only: value_of_bits_horner horner_sum_bit_eq_take_bit)
  also have "\<dots> = unat w" by (rule take_bit_nat_eq_self) (use unat_u8_lt [of w] in simp)
  finally show ?thesis by simp
qed

lemma conv_bin2ascii_bits:
  "conv_bin2ascii w =
     base64_alphabet ! value_of_bits [bit w 5, bit w 4, bit w 3, bit w 2, bit w 1, bit w 0]"
  by (simp only: value_of_low_bits conv_bin2ascii_nth)

abbreviation bits_char :: "bool list \<Rightarrow> u8" where
  "bits_char g \<equiv> base64_alphabet ! value_of_bits g"

lemma sextets_step [simp]:
  "sextets (b5 # b4 # b3 # b2 # b1 # b0 # rest) = [b5, b4, b3, b2, b1, b0] # sextets rest"
  by simp

declare sextets.simps(2) [simp del]

lemma encode_group_bits:
  "encode_group l =
     [bits_char [bit l 23, bit l 22, bit l 21, bit l 20, bit l 19, bit l 18],
      bits_char [bit l 17, bit l 16, bit l 15, bit l 14, bit l 13, bit l 12],
      bits_char [bit l 11, bit l 10, bit l 9, bit l 8, bit l 7, bit l 6],
      bits_char [bit l 5, bit l 4, bit l 3, bit l 2, bit l 1, bit l 0]]"
  by (simp add: encode_group_def conv_bin2ascii_bits bit_ucast_iff bit_drop_bit_eq del: bit_7_iff)

definition word_of_three :: "u8 \<Rightarrow> u8 \<Rightarrow> u8 \<Rightarrow> u32" where
  "word_of_three a b c = push_bit 16 (ucast a) OR push_bit 8 (ucast b) OR ucast c"

lemma bit_word_of_three:
  "bit (word_of_three a b c) n =
     (if n < 8 then bit c n else if n < 16 then bit b (n - 8) else if n < 24 then bit a (n - 16) else False)"
  by (auto simp: word_of_three_def bit_simps)

lemma encode_group_three:
  "encode_group (word_of_three a b c) =
     [bits_char [bit a 7, bit a 6, bit a 5, bit a 4, bit a 3, bit a 2],
      bits_char [bit a 1, bit a 0, bit b 7, bit b 6, bit b 5, bit b 4],
      bits_char [bit b 3, bit b 2, bit b 1, bit b 0, bit c 7, bit c 6],
      bits_char [bit c 5, bit c 4, bit c 3, bit c 2, bit c 1, bit c 0]]"
  by (simp add: encode_group_bits bit_word_of_three del: bit_7_iff)

lemma encode_block_loop_short:
  "encode_block_loop [a] = take 2 (encode_group (word_of_three a 0 0)) @ [char_equals, char_equals]"
  "encode_block_loop [a, b] = take 3 (encode_group (word_of_three a b 0)) @ [char_equals]"
  "encode_block_loop (a # b # c # rest) = encode_group (word_of_three a b c) @ encode_block_loop rest"
  by (simp_all add: encode_group_def word_of_three_def Let_def)

lemma rfc4648_step:
  "rfc4648_encode (a # b # c # rest) = encode_group (word_of_three a b c) @ rfc4648_encode rest"
  by (simp add: rfc4648_encode_def bits_of_byte_def encode_group_three Let_def del: bit_7_iff)

lemma sextets_end:
  "sextets [b1, b0] = [[b1, b0, False, False, False, False]]"
  "sextets [b3, b2, b1, b0] = [[b3, b2, b1, b0, False, False]]"
  by (simp_all add: sextets.simps(2) numeral_eq_Suc)

lemma rfc4648_short:
  "rfc4648_encode [] = []"
  "rfc4648_encode [a] = take 2 (encode_group (word_of_three a 0 0)) @ [char_equals, char_equals]"
  "rfc4648_encode [a, b] = take 3 (encode_group (word_of_three a b 0)) @ [char_equals]"
  by (simp_all add: rfc4648_encode_def bits_of_byte_def encode_group_three Let_def sextets_end
      numeral_2_eq_2 del: bit_7_iff)

lemma encode_block_loop_rfc4648: "encode_block_loop bs = rfc4648_encode bs"
  by (induction bs rule: encode_block_loop.induct)
    (simp_all only: encode_block_loop.simps(1) encode_block_loop_short rfc4648_step rfc4648_short)

lemma length_encode_group [simp]: "length (encode_group l) = 4"
  by (simp add: encode_group_def)

lemma length_encode_block_loop: "length (encode_block_loop bs) = (length bs + 2) div 3 * 4"
proof (induction bs rule: encode_block_loop.induct)
  case (4 a b c rest)
  have "length (a # b # c # rest) + 2 = 3 + (length rest + 2)" by simp
  then have "(length (a # b # c # rest) + 2) div 3 = 1 + (length rest + 2) div 3"
    by (simp only: div_add_self1)
  with 4 show ?case by (simp add: Let_def)
qed (simp_all add: Let_def)

section \<open>The reference decoding\<close>

definition position_of :: "u8 \<Rightarrow> nat" where
  "position_of c = length (takeWhile (\<lambda>x. x \<noteq> c) base64_alphabet)"

definition bits_of_char :: "u8 \<Rightarrow> bool list" where
  "bits_of_char c = map (bit (position_of c)) [5, 4, 3, 2, 1, 0]"

fun octets :: "bool list \<Rightarrow> bytes" where
  "octets (b7 # b6 # b5 # b4 # b3 # b2 # b1 # b0 # rest) =
     of_nat (value_of_bits [b7, b6, b5, b4, b3, b2, b1, b0]) # octets rest"
| "octets _ = []"

text \<open>Groups of four characters of the alphabet, with one or two \<open>=\<close> in place of the last ones.\<close>

definition base64_body :: "bytes \<Rightarrow> bytes" where
  "base64_body s = takeWhile (\<lambda>c. c \<noteq> char_equals) s"

definition base64_text :: "bytes \<Rightarrow> bool" where
  "base64_text s \<longleftrightarrow>
     length s mod 4 = 0 \<and> (\<forall>c \<in> set (base64_body s). c \<in> set base64_alphabet) \<and>
     (\<exists>n \<in> {0, 1, 2}. s = base64_body s @ replicate n char_equals)"

definition base64_value :: "bytes \<Rightarrow> bytes" where
  "base64_value s = octets (concat (map bits_of_char (base64_body s)))"

lemma position_all:
  "list_all (\<lambda>k. position_of (base64_alphabet ! k) = k) [0..<64]"
  by code_simp

lemma in_alphabet_E:
  assumes "c \<in> set base64_alphabet"
  obtains "position_of c < 64" and "c = base64_alphabet ! position_of c"
    and "base64_ascii_to_bin c = of_nat (position_of c)" and "c \<noteq> char_equals"
    and "\<not> is_base64_space c"
proof -
  obtain k where k: "k < 64" "c = base64_alphabet ! k" using assms by (auto simp: in_set_conv_nth)
  moreover have "position_of c = k" using position_all k by (simp add: list_all_iff)
  ultimately show thesis using alphabet_step [OF k(1)] that by simp
qed

lemma mem_of_nat_range:
  assumes "h \<le> 256"
  shows "c \<in> of_nat ` {l..<h} \<longleftrightarrow> l \<le> unat (c :: u8) \<and> unat c < h"
proof
  assume "c \<in> of_nat ` {l..<h}"
  then obtain k where k: "c = of_nat k" "l \<le> k" "k < h" by auto
  then have "unat c = k" using assms by (simp add: unat_of_nat)
  with k show "l \<le> unat c \<and> unat c < h" by simp
next
  assume "l \<le> unat c \<and> unat c < h"
  then show "c \<in> of_nat ` {l..<h}" by (intro image_eqI [of _ _ "unat c"]) auto
qed

lemma in_alphabet_iff:
  "c \<in> set base64_alphabet \<longleftrightarrow>
     char_upper_A \<le> c \<and> c \<le> char_upper_Z \<or> char_lower_a \<le> c \<and> c \<le> char_lower_z \<or>
     char_0 \<le> c \<and> c \<le> char_9 \<or> c = char_plus \<or> c = char_slash"
proof -
  have "c \<in> set base64_alphabet \<longleftrightarrow>
      c \<in> of_nat ` {65..<91} \<or> c \<in> of_nat ` {97..<123} \<or> c \<in> of_nat ` {48..<58} \<or>
      c = char_plus \<or> c = char_slash"
    by (simp only: base64_alphabet_def set_map set_append set_upt image_Un Un_iff list.set
        image_insert image_empty insert_iff empty_iff) simp
  also have "\<dots> \<longleftrightarrow> 65 \<le> unat c \<and> unat c < 91 \<or> 97 \<le> unat c \<and> unat c < 123 \<or>
      48 \<le> unat c \<and> unat c < 58 \<or> c = char_plus \<or> c = char_slash"
    by (simp only: mem_of_nat_range [of 91] mem_of_nat_range [of 123] mem_of_nat_range [of 58])
  finally show ?thesis by (simp add: word_le_nat_alt less_Suc_eq_le [symmetric])
qed

lemma ascii_to_bin_invalid: "base64_ascii_to_bin c = 0xFF \<longleftrightarrow> c \<notin> set base64_alphabet \<and> c \<noteq> char_equals"
proof (cases "c \<in> set base64_alphabet")
  case True
  then obtain "position_of c < 64" "base64_ascii_to_bin c = of_nat (position_of c)"
    by (rule in_alphabet_E)
  then have "unat (base64_ascii_to_bin c) < 64" by (simp add: unat_of_nat)
  then have "base64_ascii_to_bin c \<noteq> 0xFF" by auto
  with True show ?thesis by simp
next
  case False
  then show ?thesis by (auto simp: base64_ascii_to_bin_eq in_alphabet_iff)
qed

definition word_of_quad :: "u8 \<Rightarrow> u8 \<Rightarrow> u8 \<Rightarrow> u8 \<Rightarrow> u32" where
  "word_of_quad a b c d =
     push_bit 18 (ucast a) OR push_bit 12 (ucast b) OR push_bit 6 (ucast c) OR ucast d"

lemma bit_of_sextet: "bit (of_nat k :: u8) n \<longleftrightarrow> n < 6 \<and> bit k n" if "k < 64"
proof -
  have "take_bit 6 k = k" using that by (simp add: take_bit_nat_eq_self)
  then have "bit k n \<longleftrightarrow> n < 6 \<and> bit k n" by (metis bit_take_bit_iff)
  then show ?thesis by (auto simp: bit_of_nat_iff)
qed

lemma bit_word_of_quad:
  assumes "i < 64" and "j < 64" and "k < 64" and "l < 64"
  shows "bit (word_of_quad (of_nat i) (of_nat j) (of_nat k) (of_nat l)) n =
    (if n < 6 then bit l n else if n < 12 then bit k (n - 6) else if n < 18 then bit j (n - 12)
     else if n < 24 then bit i (n - 18) else False)"
  using assms
  by (auto simp: word_of_quad_def bit_or_iff bit_push_bit_iff bit_ucast_iff bit_of_sextet)

lemma octet_eqI: "bits_of_byte w = bs \<Longrightarrow> w = of_nat (value_of_bits bs)"
  using value_of_byte [of w] by simp

lemma quad_octets:
  assumes "i < 64" and "j < 64" and "k < 64" and "l < 64"
  defines "v \<equiv> word_of_quad (of_nat i) (of_nat j) (of_nat k) (of_nat l)"
  shows "ucast (drop_bit 16 v) = (of_nat (value_of_bits [bit i 5, bit i 4, bit i 3, bit i 2, bit i 1, bit i 0, bit j 5, bit j 4]) :: u8)"
    and "ucast (drop_bit 8 v) = (of_nat (value_of_bits [bit j 3, bit j 2, bit j 1, bit j 0, bit k 5, bit k 4, bit k 3, bit k 2]) :: u8)"
    and "ucast v = (of_nat (value_of_bits [bit k 1, bit k 0, bit l 5, bit l 4, bit l 3, bit l 2, bit l 1, bit l 0]) :: u8)"
  by (rule octet_eqI; simp add: bits_of_byte_def bit_ucast_iff bit_drop_bit_eq v_def bit_word_of_quad assms(1-4) del: bit_7_iff)+

end
