(* ===== verification/Base64_Spec.thy ===== *)
theory Base64_Spec
  imports Base64_Text
begin

text \<open>
  Base64, theorems: blocks and streams against the reference of \<open>Base64_Text\<close>.
\<close>

section \<open>Quads\<close>

abbreviation in_alphabet :: "u8 \<Rightarrow> bool" where
  "in_alphabet c \<equiv> c \<in> set base64_alphabet"

abbreviation chars_value :: "bytes \<Rightarrow> bytes" where
  "chars_value cs \<equiv> octets (concat (map bits_of_char cs))"

lemma ascii_to_bin_equals [simp]: "base64_ascii_to_bin char_equals = 0"
  by (simp add: base64_ascii_to_bin_eq)

lemma equals_not_in_alphabet [simp]: "\<not> in_alphabet char_equals"
  by (auto elim: in_alphabet_E)

lemma in_alphabet_bin:
  "in_alphabet c \<Longrightarrow>
     position_of c < 64 \<and> base64_ascii_to_bin c = of_nat (position_of c) \<and> c \<noteq> char_equals \<and>
     (of_nat (position_of c) :: u8) \<noteq> 0xFF"
  by (metis in_alphabet_E ascii_to_bin_invalid)

lemma decode_quad_eq:
  "base64_decode_quad (i0 # i1 # i2 # i3 # r) =
     (if in_alphabet i0 \<and> in_alphabet i1 \<and> in_alphabet i2 \<and> in_alphabet i3
      then Some (chars_value [i0, i1, i2, i3])
      else if in_alphabet i0 \<and> in_alphabet i1 \<and> in_alphabet i2 \<and> i3 = char_equals
      then Some (chars_value [i0, i1, i2])
      else if in_alphabet i0 \<and> in_alphabet i1 \<and> i2 = char_equals \<and> i3 = char_equals
      then Some (chars_value [i0, i1])
      else None)" (is "_ = ?rhs")
proof -
  let ?valid = "\<lambda>c. in_alphabet c \<or> c = char_equals"
  show ?thesis
  proof (cases "?valid i0 \<and> ?valid i1 \<and> ?valid i2 \<and> ?valid i3")
    case False
    then show ?thesis by (auto simp: ascii_to_bin_invalid)
  next
    case True
    define k where "k = (\<lambda>c. if in_alphabet c then position_of c else 0)"
    have k: "?valid c \<Longrightarrow> base64_ascii_to_bin c = of_nat (k c) \<and> (of_nat (k c) :: u8) \<noteq> 0xFF \<and> k c < 64" for c
      using in_alphabet_bin [of c] by (auto simp: k_def)
    have bits: "in_alphabet c \<Longrightarrow> bits_of_char c = map (bit (k c)) [5, 4, 3, 2, 1, 0]" for c
      by (simp add: bits_of_char_def k_def)
    define v where "v = word_of_quad (of_nat (k i0)) (of_nat (k i1)) (of_nat (k i2)) (of_nat (k i3))"
    define p where "p = quad_padding_pattern i0 i1 i2 i3"
    have quad: "base64_decode_quad (i0 # i1 # i2 # i3 # r) =
        (if p = 0 then Some [ucast (drop_bit 16 v), ucast (drop_bit 8 v), ucast v]
         else if p = 1 then Some [ucast (drop_bit 16 v), ucast (drop_bit 8 v)]
         else if p = 3 then Some [ucast (drop_bit 16 v)] else None)"
      using True k [of i0] k [of i1] k [of i2] k [of i3]
      by (simp add: p_def v_def word_of_quad_def Let_def)
    have v: "k i0 < 64" "k i1 < 64" "k i2 < 64" "k i3 < 64" using True k by blast+
    note octs = quad_octets [OF v, folded v_def]
    show ?thesis
      unfolding quad octs p_def quad_padding_pattern_def
      using True
      by (cases "i0 = char_equals"; cases "i1 = char_equals"; cases "i2 = char_equals";
          cases "i3 = char_equals") (simp_all add: bits)
  qed
qed

section \<open>Texts\<close>

lemma base64_text_iff:
  "base64_text s \<longleftrightarrow>
     (\<exists>body n. s = body @ replicate n char_equals \<and> (\<forall>c \<in> set body. in_alphabet c) \<and> n \<in> {0, 1, 2} \<and>
        length s mod 4 = 0)" (is "_ \<longleftrightarrow> ?rhs")
proof
  assume "base64_text s"
  then show ?rhs unfolding base64_text_def by (elim conjE bexE) (intro exI conjI; assumption)
next
  assume ?rhs
  then obtain body n where s: "s = body @ replicate n char_equals" "\<forall>c \<in> set body. in_alphabet c"
    "n \<in> {0, 1, 2}" "length s mod 4 = 0" by (elim exE conjE)
  have "base64_body s = body @ takeWhile (\<lambda>c. c \<noteq> char_equals) (replicate n char_equals)"
    unfolding s(1) base64_body_def using s(2) by (intro takeWhile_append2) auto
  then have "base64_body s = body" by (cases n) simp_all
  with s show "base64_text s" unfolding base64_text_def by simp
qed

lemma base64_text_Nil [simp]: "base64_text []" "base64_value [] = []"
  by (simp_all add: base64_text_iff base64_value_def base64_body_def)

lemma base64_body_whole:
  "\<forall>c \<in> set cs. in_alphabet c \<Longrightarrow> base64_body (cs @ s) = cs @ base64_body s"
  unfolding base64_body_def by (rule takeWhile_append2) auto

lemma octets_quad:
  "chars_value (a # b # c # d # rest) = chars_value [a, b, c, d] @ chars_value rest"
  by (simp add: bits_of_char_def)

lemma text_quad:
  assumes "in_alphabet a" "in_alphabet b" "in_alphabet c" "in_alphabet d"
  shows "base64_text (a # b # c # d # r) \<longleftrightarrow> base64_text r"
    and "base64_value (a # b # c # d # r) = chars_value [a, b, c, d] @ base64_value r"
proof -
  have body: "base64_body (a # b # c # d # r) = a # b # c # d # base64_body r"
    using base64_body_whole [of "[a, b, c, d]" r] assms by simp
  show "base64_text (a # b # c # d # r) \<longleftrightarrow> base64_text r"
    using assms by (auto simp: base64_text_def body)
  show "base64_value (a # b # c # d # r) = chars_value [a, b, c, d] @ base64_value r"
    unfolding base64_value_def body by (rule octets_quad)
qed

lemma text_padded:
  assumes "\<not> (in_alphabet a \<and> in_alphabet b \<and> in_alphabet c \<and> in_alphabet d)"
  shows "base64_text (a # b # c # d # r) \<longleftrightarrow>
    in_alphabet a \<and> in_alphabet b \<and> (in_alphabet c \<or> c = char_equals) \<and> d = char_equals \<and> r = []"
    (is "_ \<longleftrightarrow> ?rhs")
proof
  assume "base64_text (a # b # c # d # r)"
  then obtain body n where s: "a # b # c # d # r = body @ replicate n char_equals"
    "\<forall>c \<in> set body. in_alphabet c" "n \<in> {0, 1, 2}" "length (a # b # c # d # r) mod 4 = 0"
    unfolding base64_text_iff by (elim exE conjE)
  have n: "n = 0 \<or> n = 1 \<or> n = 2" using s(3) by auto
  have len: "length body + n = length r + 4" using arg_cong [OF s(1), of length] by simp
  have "length body < 4"
  proof (rule ccontr)
    assume "\<not> length body < 4"
    then have "take 4 (a # b # c # d # r) = take 4 body" by (simp only: s(1) take_append) simp
    then have "[a, b, c, d] = take 4 body" by simp
    then have "set [a, b, c, d] \<subseteq> set body" by (simp only: set_take_subset)
    with s(2) assms show False by auto
  qed
  moreover have "length r mod 4 = 0" using s(4) by simp
  ultimately have "r = []" using len n by auto
  with s n show ?rhs
    using len assms by (auto simp: length_Suc_conv numeral_eq_Suc)
next
  assume ?rhs
  then show "base64_text (a # b # c # d # r)"
    unfolding base64_text_iff
    by (intro exI [of _ "if in_alphabet c then [a, b, c] else [a, b]"]
        exI [of _ "if in_alphabet c then 1 else 2"]) (auto simp: numeral_eq_Suc)
qed

lemma mod_4_cases:
  assumes "length s mod 4 = 0"
  obtains "s = []" | a b c d r where "s = a # b # c # d # r" and "length r mod 4 = 0"
proof (cases "s = []")
  case False
  then have "4 \<le> length s" using assms by (cases "length s < 4") auto
  then obtain a b c d r where "s = a # b # c # d # r"
    by (auto simp: Suc_le_length_iff numeral_eq_Suc)
  with assms that(2) show ?thesis by simp
qed (use that in simp)

lemma length_chars_value [simp]:
  "length (chars_value [a, b]) = 1" "length (chars_value [a, b, c]) = 2"
  "length (chars_value [a, b, c, d]) = 3"
  by (simp_all add: bits_of_char_def)

lemma decode_base64_loop_text:
  assumes "length s mod 4 = 0"
  shows "(base64_text s \<longrightarrow> decode_base64_loop s = (base64_value s, True)) \<and>
         (\<not> base64_text s \<longrightarrow> \<not> snd (decode_base64_loop s))"
  using assms
proof (induction s rule: length_induct)
  case (1 s)
  from 1(2) show ?case
  proof (cases rule: mod_4_cases)
    case 1
    then show ?thesis by (simp add: decode_base64_loop.simps)
  next
    case (2 a b c d r)
    note loop = decode_base64_loop.simps [of s, unfolded 2(1) decode_quad_eq]
    show ?thesis
    proof (cases "in_alphabet a \<and> in_alphabet b \<and> in_alphabet c \<and> in_alphabet d")
      case True
      have "decode_base64_loop s =
          (let (rest, ok) = decode_base64_loop r in (chars_value [a, b, c, d] @ rest, ok))"
        unfolding 2(1) loop using True by (simp del: concat.simps octets.simps list.map)
      then show ?thesis
        using 1(1)[rule_format, of r] 2 True text_quad [of a b c d r]
        by (auto simp: case_prod_beta simp del: concat.simps octets.simps list.map)
    next
      case False
      show ?thesis
        unfolding 2(1) text_padded [OF False] loop using False
        by (auto simp: base64_value_def base64_body_def decode_base64_loop.simps [of "[]"]
            simp del: concat.simps octets.simps list.map)
    qed
  qed
qed

lemma decode_base64_eq:
  "if base64_text s \<and> length s div 4 * 3 \<le> max_out
   then EVP_DecodeBase64 max_out s = (base64_value s, length (base64_value s), True)
   else snd (EVP_DecodeBase64 max_out s) = (0, False)"
proof (cases "length s mod 4 = 0")
  case True
  then show ?thesis
    using decode_base64_loop_text [OF True]
    by (auto simp: EVP_DecodeBase64_def EVP_DecodedLength_def split: prod.splits)
next
  case False
  then have "\<not> base64_text s" by (simp add: base64_text_def)
  with False show ?thesis by (simp add: EVP_DecodeBase64_def)
qed

text \<open>C15: one-shot decoding. \<open>EVP_DecodeBase64\<close> succeeds exactly on a text of whole quads over
  the alphabet with at most two \<open>=\<close> at the end and with room for the unpadded size, and then
  writes the bytes of RFC 4648 and their number; otherwise the output length is zero.\<close>

theorem decode_base64_exact:
  "if base64_text s \<and> length s div 4 * 3 \<le> max_out
   then EVP_DecodeBase64 max_out s = (base64_value s, length (base64_value s), True)
   else snd (EVP_DecodeBase64 max_out s) = (0, False)"
  by (rule decode_base64_eq)

section \<open>Encoding, then decoding\<close>

lemma in_alphabet_conv [simp]: "in_alphabet (conv_bin2ascii w)"
  by (simp add: conv_bin2ascii_nth)

lemma bits_of_char_conv [simp]: "bits_of_char (conv_bin2ascii w) = map (bit w) [5, 4, 3, 2, 1, 0]"
proof -
  define k where "k = position_of (conv_bin2ascii w)"
  have k: "of_nat k = w AND 0x3F" "k < 64"
    using in_alphabet_bin [OF in_alphabet_conv, of w] by (simp_all add: k_def)
  have "unat (w AND 0x3F) = unat (of_nat k :: u8)" by (simp only: k(1))
  also have "\<dots> = k" using k(2) by (simp add: unat_of_nat)
  finally have "unat (w AND 0x3F) = position_of (conv_bin2ascii w)" by (simp only: k_def)
  then have "bit (position_of (conv_bin2ascii w)) n = bit (w AND 0x3F) n" for n
    by (simp only: bit_unsigned_iff flip: \<open>unat (w AND 0x3F) = position_of (conv_bin2ascii w)\<close>) simp
  then show ?thesis by (simp add: bits_of_char_def and_3F_eq bit_take_bit_iff)
qed

lemma chars_value_group:
  "chars_value (encode_group (word_of_three a b c)) = [a, b, c]"
  "chars_value (take 3 (encode_group (word_of_three a b 0))) = [a, b]"
  "chars_value (take 2 (encode_group (word_of_three a 0 0))) = [a]"
  by (simp_all add: encode_group_def bit_word_of_three bit_ucast_iff bit_drop_bit_eq
      value_of_byte [unfolded bits_of_byte_def, simplified] del: bit_7_iff)

lemma encode_group_E:
  obtains x y z w where "encode_group l = [x, y, z, w]" and "in_alphabet x" and "in_alphabet y"
    and "in_alphabet z" and "in_alphabet w"
  using that by (simp add: encode_group_def)

lemma base64_roundtrip:
  "base64_text (encode_block_loop bs) \<and> base64_value (encode_block_loop bs) = bs"
proof (induction bs rule: encode_block_loop.induct)
  case 1
  then show ?case by simp
next
  case (2 a)
  obtain x y z w where g: "encode_group (word_of_three a 0 0) = [x, y, z, w]"
    "in_alphabet x" "in_alphabet y" by (rule encode_group_E)
  then show ?case
    using chars_value_group(3) [of a] text_padded [of x y char_equals char_equals "[]"]
    by (simp add: encode_block_loop_short base64_value_def base64_body_def del: encode_block_loop.simps)
      auto
next
  case (3 a b)
  obtain x y z w where g: "encode_group (word_of_three a b 0) = [x, y, z, w]"
    "in_alphabet x" "in_alphabet y" "in_alphabet z" by (rule encode_group_E)
  then show ?case
    using chars_value_group(2) [of a b] text_padded [of x y z char_equals "[]"]
    by (simp add: encode_block_loop_short base64_value_def base64_body_def del: encode_block_loop.simps)
      auto
next
  case (4 a b c rest)
  obtain x y z w where g: "encode_group (word_of_three a b c) = [x, y, z, w]"
    "in_alphabet x" "in_alphabet y" "in_alphabet z" "in_alphabet w" by (rule encode_group_E)
  have "chars_value [x, y, z, w] = [a, b, c]" using chars_value_group(1) [of a b c] g(1) by (simp only:)
  then show ?case
    using 4 text_quad [OF g(2-5), of "encode_block_loop rest"] unfolding encode_block_loop_short(3) g(1)
    by simp
qed

text \<open>C14: block encoding. \<open>EVP_EncodeBlock\<close> writes the RFC 4648 text of its input and a NUL and
  returns the length of the text; \<open>EVP_EncodedLength\<close> is exactly the number of bytes written,
  and it fails exactly when that number is no \<open>size_t\<close>.\<close>

theorem encode_block_exact:
  assumes "length src \<le> SIZE_MAX"
  defines "cs \<equiv> rfc4648_encode src"
  shows "EVP_EncodeBlock src = (cs @ [0], length cs) \<and>
         EVP_EncodedLength (length src) = (if length cs < SIZE_MAX then Some (length cs + 1) else None)"
proof -
  define n where "n = length src"
  have n: "n < 2 ^ 64" using assms(1) by (simp add: n_def SIZE_MAX_def)
  have len: "length cs = (n + 2) div 3 * 4"
    using length_encode_block_loop [of src] by (simp add: cs_def n_def encode_block_loop_rfc4648)
  have "EVP_EncodedLength n = (if length cs < SIZE_MAX then Some (length cs + 1) else None)"
  proof (cases "n + 2 \<le> SIZE_MAX")
    case False
    then have "size_add n 2 < n" using n by (subst size_add_overflow_iff) (auto simp: SIZE_MAX_def)
    then show ?thesis using False by (simp add: EVP_EncodedLength_def len SIZE_MAX_def)
  next
    case True
    define k where "k = (n + 2) div 3"
    have k: "k < 2 ^ 63" using True by (simp add: k_def SIZE_MAX_def div_less_iff_less_mult)
    have lenk: "length cs = k * 4" by (simp only: len k_def)
    have "size_add n 2 = n + 2" using True by (rule size_add_exact)
    then have E: "EVP_EncodedLength n =
        (if size_mul k 4 div 4 \<noteq> k then None
         else if size_add (size_mul k 4) 1 < size_mul k 4 then None else Some (size_add (size_mul k 4) 1))"
      unfolding EVP_EncodedLength_def Let_def by (simp add: k_def)
    show ?thesis
    proof (cases "k < 2 ^ 62")
      case True
      then have "size_mul k 4 = k * 4" by (simp add: size_mul_def)
      moreover have "size_add (k * 4) 1 = k * 4 + 1"
        using True by (intro size_add_exact) (simp add: SIZE_MAX_def)
      ultimately show ?thesis using True by (simp add: E lenk SIZE_MAX_def)
    next
      case False
      then have "size_mul k 4 = k * 4 - 2 ^ 64" using k
        by (simp add: size_mul_def mod_if [of "k * 4"])
      moreover have "(k * 4 - 2 ^ 64) div 4 \<noteq> k" using False by simp
      ultimately show ?thesis using False by (simp add: E lenk SIZE_MAX_def)
    qed
  qed
  then show ?thesis
    by (simp add: EVP_EncodeBlock_def cs_def n_def encode_block_loop_rfc4648 Let_def)
qed

text \<open>what is encoded as a block is decoded to the same bytes, by \<open>EVP_DecodeBase64\<close> into a
  buffer of \<open>EVP_DecodedLength\<close>, and by \<open>EVP_DecodeBlock\<close> also with blanks before and white space
  after it, then padded with zeros to a multiple of three.\<close>

theorem base64_block_roundtrip:
  assumes "length src < 2 ^ 30" and "\<forall>c \<in> set before. is_blank c" and "\<forall>c \<in> set behind. is_base64_space c"
  defines "cs \<equiv> butlast (fst (EVP_EncodeBlock src))"
  shows "EVP_DecodeBase64 (the (EVP_DecodedLength (length cs))) cs = (src, length src, True) \<and>
         EVP_DecodeBlock (before @ cs @ behind) = Inr (pad_to_multiple_of_3 src)"
proof -
  have cs: "cs = encode_block_loop src" by (simp add: cs_def EVP_EncodeBlock_def Let_def)
  have len: "length cs = (length src + 2) div 3 * 4" by (simp add: cs length_encode_block_loop)
  have enc: "base64_text cs" "base64_value cs = src" using base64_roundtrip [of src] by (simp_all add: cs)
  have one: "EVP_DecodeBase64 ((length src + 2) div 3 * 3) cs = (src, length src, True)"
    using decode_base64_eq [of cs "(length src + 2) div 3 * 3"] enc by (simp add: len)
  have no_space: "\<forall>c \<in> set cs. \<not> is_base64_space c"
  proof
    fix c assume "c \<in> set cs"
    then have "in_alphabet c \<or> c = char_equals"
      using enc(1) by (auto simp: base64_text_iff)
    then show "\<not> is_base64_space c" by (auto elim: in_alphabet_E simp: is_base64_space_def)
  qed
  have 1: "dropWhile is_blank (before @ cs @ behind) = dropWhile is_blank (cs @ behind)"
    using assms(2) by (simp add: dropWhile_append2)
  have 2: "rev (dropWhile is_base64_space (rev (dropWhile is_blank (cs @ behind)))) = cs"
  proof (cases "cs = []")
    case True
    have "\<forall>c \<in> set (dropWhile is_blank behind). is_base64_space c"
      using assms(3) by (meson set_dropWhileD)
    then show ?thesis using True by (simp add: dropWhile_eq_Nil_conv)
  next
    case False
    then obtain c cs' where c: "cs = c # cs'" by (cases cs) auto
    then have "\<not> is_blank c" using no_space by (auto simp: is_blank_def is_base64_space_def)
    then have "dropWhile is_blank (cs @ behind) = cs @ behind" by (simp add: c)
    moreover have "dropWhile is_base64_space (rev cs) = rev cs"
      using no_space False by (cases "rev cs") (auto simp: dropWhile_eq_self_iff)
    moreover have "dropWhile is_base64_space (rev behind @ rev cs) = dropWhile is_base64_space (rev cs)"
      using assms(3) by (intro dropWhile_append2) simp
    ultimately show ?thesis by simp
  qed
  have "(length src + 2) div 3 * 3 \<le> INT_MAX" using assms(1) by (simp add: INT_MAX_def)
  then show ?thesis
    using one unfolding EVP_DecodeBlock_def Let_def 1 2 by (simp add: EVP_DecodedLength_def len)
qed

lemma base64_block_roundtrip_witness:
  "EVP_DecodeBlock ([char_space] @ butlast (fst (EVP_EncodeBlock [0xCA, 0xFE])) @ [char_newline]) =
     Inr [0xCA, 0xFE, 0]"
  using base64_block_roundtrip [of "[0xCA, 0xFE]" "[char_space]" "[char_newline]"]
  by (simp add: is_blank_def is_base64_space_def pad_to_multiple_of_3_def)

lemma encode_block_exact_witness:
  "EVP_EncodedLength 2 = Some (length (rfc4648_encode [0xCA, 0xFE]) + 1) \<and>
   fst (EVP_EncodeBlock [0xCA, 0xFE]) = rfc4648_encode [0xCA, 0xFE] @ [0]"
  using encode_block_exact [of "[0xCA, 0xFE]"] length_encode_block_loop [of "[0xCA, 0xFE]"]
  by (simp add: SIZE_MAX_def encode_block_loop_rfc4648) (simp add: numeral_2_eq_2)

end
