(* ===== verification/Base64_Stream.thy ===== *)
theory Base64_Stream
  imports Base64_Spec
begin

text \<open>
  Base64 streams: \<open>EVP_EncodeUpdate\<close> and \<open>EVP_DecodeUpdate\<close> over any division of the data into
  chunks. The block buffer is abstracted to the bytes that wait in it.
\<close>

declare base64_decode_quad.simps [simp del]

section \<open>The buffer\<close>

definition pending :: "evp_encode_ctx \<Rightarrow> bytes" where
  "pending ctx = take (data_used ctx) (ctx_data ctx)"

definition encode_ctx_ok :: "evp_encode_ctx \<Rightarrow> bool" where
  "encode_ctx_ok ctx \<longleftrightarrow> length (ctx_data ctx) = sizeof_data \<and> data_used ctx < sizeof_data"

lemma memcpy_at_length [simp]:
  "pos + length src \<le> length buf \<Longrightarrow> length (memcpy_at buf pos src) = length buf"
  by (simp add: memcpy_at_def)

lemma take_memcpy_at [simp]:
  "pos \<le> length buf \<Longrightarrow> n = pos + length src \<Longrightarrow> take n (memcpy_at buf pos src) = take pos buf @ src"
  by (simp add: memcpy_at_def)

lemma memcpy_at_full:
  "pos \<le> length buf \<Longrightarrow> pos + length src = length buf \<Longrightarrow> memcpy_at buf pos src = take pos buf @ src"
  by (simp add: memcpy_at_def)

section \<open>Encoding\<close>

text \<open>One line for every 48 bytes, the last one shorter.\<close>

function base64_lines :: "bytes \<Rightarrow> bytes" where
  "base64_lines bs =
     (if bs = [] then []
      else rfc4648_encode (take sizeof_data bs) @ [char_newline] @ base64_lines (drop sizeof_data bs))"
  by auto
termination by (relation "measure length") (auto simp: sizeof_data_def)

declare base64_lines.simps [simp del]

lemma base64_lines_Nil [simp]: "base64_lines [] = []"
  by (simp add: base64_lines.simps)

lemma base64_lines_last:
  "0 < length bs \<Longrightarrow> length bs \<le> sizeof_data \<Longrightarrow> base64_lines bs = rfc4648_encode bs @ [char_newline]"
  by (subst base64_lines.simps) auto

lemma base64_lines_block:
  "length bs = sizeof_data \<Longrightarrow> base64_lines (bs @ cs) = rfc4648_encode bs @ [char_newline] @ base64_lines cs"
  by (subst base64_lines.simps) (auto simp: sizeof_data_def)

definition whole :: "nat \<Rightarrow> nat" where
  "whole n = n div sizeof_data * sizeof_data"

lemma whole_step [simp]:
  "(sizeof_data + n) div sizeof_data = Suc (n div sizeof_data)"
  "whole (sizeof_data + n) = sizeof_data + whole n"
  by (simp_all add: whole_def sizeof_data_def div_add_self1)

lemma base64_lines_split:
  "base64_lines (take (whole (length bs)) bs) @ base64_lines (drop (whole (length bs)) bs @ cs) =
     base64_lines (bs @ cs)"
proof (induction bs rule: length_induct)
  case (1 bs)
  show ?case
  proof (cases "length bs < sizeof_data")
    case True
    then show ?thesis by (simp add: whole_def)
  next
    case False
    define b r where "b = take sizeof_data bs" and "r = drop sizeof_data bs"
    have bs: "bs = b @ r" "length b = sizeof_data" using False by (simp_all add: b_def r_def)
    then have w: "whole (length bs) = sizeof_data + whole (length r)"
      by simp
    have "length r < length bs" using bs by (simp add: sizeof_data_def)
    then show ?thesis
      using 1 bs(2) by (simp add: w base64_lines_block) (simp add: bs(1) base64_lines_block)
  qed
qed

lemma encode_lines_eq:
  assumes "tot + 65 * (length cin div sizeof_data) \<le> SIZE_MAX"
  shows "encode_lines tot cin =
     (base64_lines (take (whole (length cin)) cin), drop (whole (length cin)) cin,
      Some (tot + 65 * (length cin div sizeof_data)))"
  using assms
proof (induction cin arbitrary: tot rule: length_induct)
  case (1 cin)
  show ?case
  proof (cases "length cin < sizeof_data")
    case True
    then show ?thesis by (simp add: encode_lines.simps whole_def)
  next
    case False
    define b r where "b = take sizeof_data cin" and "r = drop sizeof_data cin"
    have cin: "cin = b @ r" "length b = sizeof_data" using False by (simp_all add: b_def r_def)
    have w: "whole (length cin) = sizeof_data + whole (length r)"
      "length cin div sizeof_data = Suc (length r div sizeof_data)"
      using cin by simp_all
    have len: "length (rfc4648_encode b) = 64"
      using length_encode_block_loop [of b] cin(2) by (simp add: sizeof_data_def encode_block_loop_rfc4648)
    have tot: "size_add tot 65 = tot + 65"
      using 1(2) w(2) by (intro size_add_exact) simp
    have "encode_lines (tot + 65) r =
        (base64_lines (take (whole (length r)) r), drop (whole (length r)) r,
         Some (tot + 65 + 65 * (length r div sizeof_data)))"
      using 1(2) w(2) cin by (intro 1(1)[rule_format]) (simp_all add: sizeof_data_def)
    then show ?thesis
      using False tot len cin w
      by (simp add: encode_lines.simps [of tot "b @ r"] EVP_EncodeBlock_def encode_block_loop_rfc4648
          base64_lines_block Let_def)
  qed
qed

lemma length_lines_whole:
  "length bs = k * sizeof_data \<Longrightarrow> length (base64_lines bs) = 65 * k"
proof (induction k arbitrary: bs)
  case (Suc k)
  define b r where "b = take sizeof_data bs" and "r = drop sizeof_data bs"
  have bs: "bs = b @ r" "length b = sizeof_data" "length r = k * sizeof_data"
    using Suc.prems by (simp_all add: b_def r_def)
  have "length (rfc4648_encode b) = 64"
    using length_encode_block_loop [of b] bs(2) by (simp add: sizeof_data_def encode_block_loop_rfc4648)
  then show ?case using Suc.IH [OF bs(3)] bs(2) by (simp add: bs(1) base64_lines_block)
qed simp

lemma encode_update_eq:
  assumes ok: "encode_ctx_ok ctx" and bound: "length cin < 2 ^ 63"
  defines "w \<equiv> whole (data_used ctx + length cin)"
  obtains ctx' out n where "EVP_EncodeUpdate ctx cin = (ctx', out, n)"
    and "encode_ctx_ok ctx'"
    and "out = base64_lines (take w (pending ctx @ cin))"
    and "pending ctx' = drop w (pending ctx @ cin)"
    and "n = (if INT_MAX < length out then 0 else length out)"
proof -
  have len: "length (pending ctx) = data_used ctx" using ok by (simp add: encode_ctx_ok_def pending_def)
  consider (none) "cin = []" | (small) "cin \<noteq> []" "data_used ctx + length cin < sizeof_data"
    | (large) "cin \<noteq> []" "sizeof_data \<le> data_used ctx + length cin" by linarith
  then show thesis
  proof cases
    case none
    then have "w = 0" using ok by (simp add: w_def whole_def encode_ctx_ok_def)
    with none ok show thesis by (intro that [of ctx "[]" 0]) (simp_all add: EVP_EncodeUpdate_def)
  next
    case small
    define ctx' where "ctx' = ctx\<lparr>ctx_data := memcpy_at (ctx_data ctx) (data_used ctx) cin,
        data_used := data_used ctx + length cin\<rparr>"
    have "w = 0" using small by (simp add: w_def whole_def)
    moreover have "length cin < sizeof_data - data_used ctx" using small by linarith
    then have "EVP_EncodeUpdate ctx cin = (ctx', [], 0)"
      using small(1) by (simp add: EVP_EncodeUpdate_def ctx'_def)
    ultimately show thesis using ok small
      by (intro that [of ctx' "[]" 0]) (auto simp: ctx'_def encode_ctx_ok_def pending_def)
  next
    case large
    define todo where "todo = sizeof_data - data_used ctx"
    define ctx1 where "ctx1 = (if data_used ctx = 0 then ctx
      else ctx\<lparr>ctx_data := memcpy_at (ctx_data ctx) (data_used ctx) (take todo cin), data_used := 0\<rparr>)"
    define cin1 where "cin1 = (if data_used ctx = 0 then cin else drop todo cin)"
    define b where "b = (if data_used ctx = 0 then [] else pending ctx @ take todo cin)"
    define rest where "rest = drop (whole (length cin1)) cin1"
    define ctx' where "ctx' = (if rest \<noteq> [] then ctx1\<lparr>ctx_data := memcpy_at (ctx_data ctx1) 0 rest\<rparr>
      else ctx1)\<lparr>data_used := length rest\<rparr>"
    define lines where "lines = base64_lines (take (whole (length cin1)) cin1)"
    have todo: "todo \<le> length cin" "data_used ctx + todo = sizeof_data"
      using large ok by (auto simp: todo_def encode_ctx_ok_def)
    have b: "pending ctx @ cin = b @ cin1" "length b = (if data_used ctx = 0 then 0 else sizeof_data)"
      using todo len by (auto simp: b_def cin1_def pending_def)
    have w: "w = length b + whole (length cin1)"
      using arg_cong [OF b(1), of length] len b(2) by (simp add: w_def)
    have len64: "length b = sizeof_data \<Longrightarrow> length (rfc4648_encode b) = 64"
      using length_encode_block_loop [of b] by (simp add: sizeof_data_def encode_block_loop_rfc4648)
    have "length cin1 \<le> length cin" by (simp add: cin1_def)
    then have "length cin1 < 2 ^ 63" using bound by (rule le_less_trans)
    then have "65 + 65 * (length cin1 div sizeof_data) \<le> SIZE_MAX"
      by (simp add: SIZE_MAX_def sizeof_data_def)
    then have el: "encode_lines t cin1 = (lines, rest, Some (t + 65 * (length cin1 div sizeof_data)))"
      if "t \<le> 65" for t
      using that unfolding lines_def rest_def by (intro encode_lines_eq) simp
    have out: "base64_lines (take w (b @ cin1)) = base64_lines b @ lines"
      using b(2) by (cases "data_used ctx = 0")
        (simp_all add: w lines_def base64_lines_block base64_lines_last sizeof_data_def)
    have "length lines = 65 * (length cin1 div sizeof_data)"
      unfolding lines_def by (intro length_lines_whole) (simp add: whole_def)
    moreover have "length (base64_lines b) = (if data_used ctx = 0 then 0 else 65)"
      using b(2) len64 by (cases "data_used ctx = 0") (simp_all add: base64_lines_last sizeof_data_def)
    moreover have "memcpy_at (ctx_data ctx) (data_used ctx) (take todo cin) = b" if "data_used ctx \<noteq> 0"
      using that ok todo by (simp add: b_def pending_def encode_ctx_ok_def memcpy_at_full)
    moreover have "base64_lines b = rfc4648_encode b @ [char_newline]" if "data_used ctx \<noteq> 0"
      using that b(2) by (intro base64_lines_last) (simp_all add: sizeof_data_def)
    moreover have "\<not> length cin < sizeof_data - data_used ctx" using large by linarith
    ultimately have upd: "EVP_EncodeUpdate ctx cin = (ctx', base64_lines b @ lines,
        if INT_MAX < length (base64_lines b @ lines) then 0 else length (base64_lines b @ lines))"
      using large(1) el [of 0] el [of 65] len64 b(2)
      by (cases "data_used ctx = 0")
        (simp_all add: EVP_EncodeUpdate_def EVP_EncodeBlock_def encode_block_loop_rfc4648 Let_def
          cin1_def ctx1_def ctx'_def b_def flip: todo_def)
    have rest: "length rest < sizeof_data"
      by (simp add: rest_def whole_def sizeof_data_def flip: minus_mod_eq_div_mult)
    have data: "length (ctx_data ctx1) = sizeof_data"
      using ok todo by (simp add: ctx1_def encode_ctx_ok_def)
    show thesis
    proof (rule that [OF upd])
      show "encode_ctx_ok ctx'" using rest data by (simp add: encode_ctx_ok_def ctx'_def)
      show "base64_lines b @ lines = base64_lines (take w (pending ctx @ cin))"
        unfolding b(1) out ..
      show "pending ctx' = drop w (pending ctx @ cin)"
        unfolding b(1) w using rest data by (simp add: pending_def ctx'_def rest_def)
    qed simp
  qed
qed

text \<open>What a caller gets who passes the chunks one by one and then finishes.\<close>

fun encode_stream :: "evp_encode_ctx \<Rightarrow> bytes list \<Rightarrow> bytes" where
  "encode_stream ctx [] = (let (_, out, _) = EVP_EncodeFinal ctx in out)"
| "encode_stream ctx (c # cs) =
     (let (ctx', out, _) = EVP_EncodeUpdate ctx c in out @ encode_stream ctx' cs)"

lemma encode_final_eq:
  assumes "encode_ctx_ok ctx"
  shows "(let (_, out, _) = EVP_EncodeFinal ctx in out) = base64_lines (pending ctx)"
  using assms
  by (auto simp: EVP_EncodeFinal_def EVP_EncodeBlock_def encode_block_loop_rfc4648 Let_def
      base64_lines_last pending_def encode_ctx_ok_def sizeof_data_def)

lemma encode_stream_from:
  assumes "encode_ctx_ok ctx" and "\<forall>c \<in> set chunks. length c < 2 ^ 63"
  shows "encode_stream ctx chunks = base64_lines (pending ctx @ concat chunks)"
  using assms
proof (induction chunks arbitrary: ctx)
  case Nil
  then show ?case using encode_final_eq by simp
next
  case (Cons c cs)
  let ?w = "whole (data_used ctx + length c)"
  from Cons.prems obtain ctx' out n where upd: "EVP_EncodeUpdate ctx c = (ctx', out, n)"
    "encode_ctx_ok ctx'" "out = base64_lines (take ?w (pending ctx @ c))"
    "pending ctx' = drop ?w (pending ctx @ c)"
    by (auto elim: encode_update_eq)
  have "length (pending ctx @ c) = data_used ctx + length c"
    using Cons.prems(1) by (simp add: pending_def encode_ctx_ok_def)
  then have "encode_stream ctx (c # cs) = base64_lines ((pending ctx @ c) @ concat cs)"
    using Cons.IH [OF upd(2)] Cons.prems(2) base64_lines_split [of "pending ctx @ c" "concat cs"]
    by (simp add: upd)
  then show ?case by simp
qed

lemma encode_init_ok [simp]: "encode_ctx_ok EVP_EncodeInit" "pending EVP_EncodeInit = []"
  by (simp_all add: encode_ctx_ok_def EVP_EncodeInit_def pending_def sizeof_data_def)

text \<open>C16: stream encoding. However the input is divided into calls of \<open>EVP_EncodeUpdate\<close>, what
  these and \<open>EVP_EncodeFinal\<close> write together is the RFC 4648 text of the whole input in lines of
  48 bytes.\<close>

theorem encode_stream_exact:
  assumes "\<forall>c \<in> set chunks. length c < 2 ^ 63"
  shows "encode_stream EVP_EncodeInit chunks = base64_lines (concat chunks)"
  using encode_stream_from [OF encode_init_ok(1) assms] by simp

lemma encode_stream_exact_witness:
  "encode_stream EVP_EncodeInit [[1], [], replicate 50 7] = base64_lines (1 # replicate 50 7)"
  using encode_stream_exact [of "[[1], [], replicate 50 7]"] by simp

text \<open>The context between the calls: \<open>EVP_EncodeUpdate\<close> keeps fewer than 48 bytes back, which
  are the end of the input so far, and reports the number of bytes it wrote, or zero where that
  is no \<open>int\<close>.\<close>

theorem encode_update_invariant:
  assumes "encode_ctx_ok ctx" and "length cin < 2 ^ 63"
  shows "(case EVP_EncodeUpdate ctx cin of (ctx', out, n) \<Rightarrow>
     encode_ctx_ok ctx' \<and> suffix (pending ctx') (pending ctx @ cin) \<and>
     length (pending ctx') = (data_used ctx + length cin) mod 48 \<and>
     n = (if INT_MAX < length out then 0 else length out) \<and>
     length out = 65 * ((data_used ctx + length cin) div 48))"
proof -
  let ?k = "data_used ctx + length cin"
  obtain ctx' out n where upd: "EVP_EncodeUpdate ctx cin = (ctx', out, n)"
    "encode_ctx_ok ctx'" "out = base64_lines (take (whole ?k) (pending ctx @ cin))"
    "pending ctx' = drop (whole ?k) (pending ctx @ cin)"
    "n = (if INT_MAX < length out then 0 else length out)"
    using encode_update_eq [OF assms] .
  have len: "length (pending ctx @ cin) = ?k"
    using assms(1) by (simp add: pending_def encode_ctx_ok_def)
  have "whole ?k \<le> ?k" by (simp add: whole_def)
  then have "length out = 65 * (?k div sizeof_data)"
    unfolding upd(3) using len
    by (intro length_lines_whole) (simp add: length_take min_absorb2 whole_def del: take_append length_append)
  moreover have "length (pending ctx') = ?k mod 48"
    unfolding upd(4) using len by (simp add: whole_def sizeof_data_def flip: minus_mod_eq_div_mult)
  moreover have "suffix (pending ctx') (pending ctx @ cin)" unfolding upd(4) by (rule suffix_drop)
  ultimately show ?thesis using upd(2,5) by (simp add: upd(1) sizeof_data_def)
qed

lemma encode_update_invariant_witness:
  "encode_ctx_ok (fst (EVP_EncodeUpdate EVP_EncodeInit [1, 2, 3]))"
  using encode_update_invariant [of EVP_EncodeInit "[1, 2, 3]"] by (simp add: case_prod_beta)

section \<open>Decoding\<close>

lemma decode_loop_filter:
  "decode_update_loop ctx cs = decode_update_loop ctx (filter (\<lambda>c. \<not> is_base64_space c) cs)"
  by (induction ctx cs rule: decode_update_loop.induct) (auto simp: Let_def split: option.splits)

lemma decode_loop_append:
  "decode_update_loop ctx (xs @ ys) =
     (case decode_update_loop ctx xs of
        (ctx', out, True) \<Rightarrow> (case decode_update_loop ctx' ys of (ctx'', out', ok) \<Rightarrow> (ctx'', out @ out', ok))
      | (ctx', out, False) \<Rightarrow> (ctx', out, False))"
  by (induction ctx xs rule: decode_update_loop.induct)
    (auto simp: Let_def split: option.splits prod.splits bool.splits)

definition decode_ctx_ok :: "evp_encode_ctx \<Rightarrow> bool" where
  "decode_ctx_ok ctx \<longleftrightarrow> length (ctx_data ctx) = sizeof_data \<and> data_used ctx < 4 \<and> \<not> error_encountered ctx"

lemma decode_quad_length: "base64_decode_quad q = Some out \<Longrightarrow> length out \<le> 3 \<and> 1 \<le> length out"
  by (cases q rule: base64_decode_quad.cases) (auto simp: base64_decode_quad.simps Let_def split: if_splits)

text \<open>The loop keeps the context in order and writes at most three bytes for every full quad.\<close>

lemma decode_loop_ok:
  assumes "decode_ctx_ok ctx" and "decode_update_loop ctx cs = (ctx', out, ok)"
  shows "length out \<le> 3 * ((data_used ctx + length cs) div 4) \<and> (ok \<longrightarrow> decode_ctx_ok ctx') \<and>
    (\<not> ok \<longrightarrow> error_encountered ctx')"
  using assms
proof (induction cs arbitrary: ctx ctx' out ok)
  case (Cons c cs)
  define ctx1 where "ctx1 = ctx\<lparr>ctx_data := (ctx_data ctx)[data_used ctx := c], data_used := data_used ctx + 1\<rparr>"
  have mono: "(data_used ctx + length cs) div 4 \<le> (data_used ctx + length (c # cs)) div 4"
    by (intro div_le_mono) simp
  consider (space) "is_base64_space c" | (eof) "\<not> is_base64_space c" "eof_seen ctx"
    | (more) "\<not> is_base64_space c" "\<not> eof_seen ctx" "data_used ctx + 1 \<noteq> 4"
    | (bad) "\<not> is_base64_space c" "\<not> eof_seen ctx" "data_used ctx + 1 = 4"
        "base64_decode_quad (ctx_data ctx1) = None"
    | (quad) q where "\<not> is_base64_space c" "\<not> eof_seen ctx" "data_used ctx + 1 = 4"
        "base64_decode_quad (ctx_data ctx1) = Some q" by fastforce
  then show ?case
  proof cases
    case space
    then have "decode_update_loop ctx cs = (ctx', out, ok)" using Cons.prems(2) by simp
    from Cons.IH [OF Cons.prems(1) this] have IH:
      "length out \<le> 3 * ((data_used ctx + length cs) div 4)"
      "(ok \<longrightarrow> decode_ctx_ok ctx') \<and> (\<not> ok \<longrightarrow> error_encountered ctx')" by (rule conjunct1, rule conjunct2)
    have "length out \<le> 3 * ((data_used ctx + length (c # cs)) div 4)" using IH(1) mono by linarith
    then show ?thesis using IH(2) by (rule conjI)
  next
    case eof
    then show ?thesis using Cons.prems by auto
  next
    case more
    then have "decode_ctx_ok ctx1" using Cons.prems(1) by (simp add: decode_ctx_ok_def ctx1_def)
    moreover have "decode_update_loop ctx1 cs = (ctx', out, ok)"
      using more Cons.prems(2) by (simp add: ctx1_def)
    ultimately show ?thesis using Cons.IH [of ctx1] by (simp add: ctx1_def)
  next
    case bad
    then show ?thesis using Cons.prems(2) by (auto simp: ctx1_def)
  next
    case quad
    define ctx2 where "ctx2 = (if length q < 3 then ctx1\<lparr>data_used := 0, eof_seen := True\<rparr> else ctx1\<lparr>data_used := 0\<rparr>)"
    obtain c' o' where loop: "decode_update_loop ctx2 cs = (c', o', ok)" "ctx' = c'" "out = q @ o'"
      using quad Cons.prems(2) by (auto simp: ctx1_def ctx2_def Let_def split: prod.splits if_splits)
    have "decode_ctx_ok ctx2" using Cons.prems(1) by (simp add: decode_ctx_ok_def ctx1_def ctx2_def)
    moreover have "data_used ctx2 = 0" by (simp add: ctx2_def)
    moreover have "length q \<le> 3" using decode_quad_length [OF quad(4)] by simp
    moreover have "(data_used ctx + length (c # cs)) div 4 = Suc (length cs div 4)" using quad(3) by simp
    ultimately show ?thesis using Cons.IH [OF _ loop(1)] by (simp add: loop(2,3))
  qed
qed auto

text \<open>One character, seen through the abstraction.\<close>

lemma pending_store:
  "data_used ctx < length (ctx_data ctx) \<Longrightarrow>
     take (Suc (data_used ctx)) ((ctx_data ctx)[data_used ctx := c]) = pending ctx @ [c]"
  by (simp add: take_Suc_conv_app_nth pending_def)

lemma decode_quad_take: "base64_decode_quad (take 4 data) = base64_decode_quad data"
  by (cases data rule: base64_decode_quad.cases) (simp_all add: base64_decode_quad.simps numeral_eq_Suc)

lemma decode_loop_more:
  assumes "decode_ctx_ok ctx" "\<not> is_base64_space c" "\<not> eof_seen ctx" "data_used ctx < 3"
  obtains ctx' where "decode_ctx_ok ctx'" "\<not> eof_seen ctx'" "data_used ctx' = Suc (data_used ctx)"
    "pending ctx' = pending ctx @ [c]" "\<And>cs. decode_update_loop ctx (c # cs) = decode_update_loop ctx' cs"
proof
  let ?ctx = "ctx\<lparr>ctx_data := (ctx_data ctx)[data_used ctx := c], data_used := data_used ctx + 1\<rparr>"
  show "decode_ctx_ok ?ctx" "\<not> eof_seen ?ctx" "data_used ?ctx = Suc (data_used ctx)"
    using assms by (simp_all add: decode_ctx_ok_def)
  show "pending ?ctx = pending ctx @ [c]"
    using assms pending_store [of ctx c] by (simp add: pending_def decode_ctx_ok_def sizeof_data_def)
  show "decode_update_loop ctx (c # cs) = decode_update_loop ?ctx cs" for cs
    using assms by simp
qed

lemma decode_loop_full:
  assumes "decode_ctx_ok ctx" "\<not> is_base64_space c" "\<not> eof_seen ctx" "data_used ctx = 3"
  defines "quad \<equiv> base64_decode_quad (pending ctx @ [c])"
  obtains ctx' where "decode_ctx_ok ctx'" "data_used ctx' = 0"
    "eof_seen ctx' \<longleftrightarrow> (\<exists>q. quad = Some q \<and> length q < 3)"
    "\<forall>cs. quad = None \<longrightarrow> \<not> snd (snd (decode_update_loop ctx (c # cs)))"
    "\<forall>q cs. quad = Some q \<longrightarrow> decode_update_loop ctx (c # cs) =
       (case decode_update_loop ctx' cs of (c', out, ok) \<Rightarrow> (c', q @ out, ok))"
proof
  let ?ctx = "ctx\<lparr>ctx_data := (ctx_data ctx)[3 := c], data_used := 0,
      eof_seen := (\<exists>q. quad = Some q \<and> length q < 3)\<rparr>"
  have quad: "base64_decode_quad ((ctx_data ctx)[3 := c]) = quad"
    using assms pending_store [of ctx c] decode_quad_take [of "(ctx_data ctx)[3 := c]"]
    by (simp add: decode_ctx_ok_def sizeof_data_def)
  show "decode_ctx_ok ?ctx" "data_used ?ctx = 0" "eof_seen ?ctx \<longleftrightarrow> (\<exists>q. quad = Some q \<and> length q < 3)"
    using assms(1) by (simp_all add: decode_ctx_ok_def)
  show "\<forall>cs. quad = None \<longrightarrow> \<not> snd (snd (decode_update_loop ctx (c # cs)))"
    using assms(2-4) quad by (simp add: Let_def)
  have eof: "ctx\<lparr>ctx_data := d, data_used := 0\<rparr> = ctx\<lparr>ctx_data := d, data_used := 0, eof_seen := False\<rparr>" for d
    using assms(3) by simp
  show "\<forall>q cs. quad = Some q \<longrightarrow> decode_update_loop ctx (c # cs) =
       (case decode_update_loop ?ctx cs of (c', out, ok) \<Rightarrow> (c', q @ out, ok))"
    using assms(2-4) quad by (simp add: Let_def eof [symmetric])
qed

lemma decode_loop_after_eof:
  "\<forall>c \<in> set cs. \<not> is_base64_space c \<Longrightarrow> eof_seen ctx \<Longrightarrow>
     snd (snd (decode_update_loop ctx cs)) \<longleftrightarrow> cs = []"
  by (cases cs) auto

lemma quad_short_iff:
  "(\<exists>q. base64_decode_quad [a, b, c, d] = Some q \<and> length q < 3) \<longleftrightarrow>
     base64_text [a, b, c, d] \<and> \<not> (in_alphabet a \<and> in_alphabet b \<and> in_alphabet c \<and> in_alphabet d)"
proof (cases "in_alphabet a \<and> in_alphabet b \<and> in_alphabet c \<and> in_alphabet d")
  case True
  then show ?thesis by (simp add: decode_quad_eq del: concat.simps octets.simps list.map)
next
  case False
  show ?thesis unfolding text_padded [OF False] decode_quad_eq using False
    by (simp del: concat.simps octets.simps list.map) blast
qed

lemma quad_some_iff: "base64_decode_quad [a, b, c, d] = Some q \<longleftrightarrow> base64_text [a, b, c, d] \<and> q = base64_value [a, b, c, d]"
proof -
  have "decode_base64_loop [a, b, c, d] =
      (case base64_decode_quad [a, b, c, d] of None \<Rightarrow> ([], False) | Some q \<Rightarrow> (q, True))"
    by (auto simp: decode_base64_loop.simps [of "[a, b, c, d]"] decode_base64_loop.simps [of "[]"]
        split: option.split)
  then show ?thesis
    using decode_base64_loop_text [of "[a, b, c, d]"] by (cases "base64_decode_quad [a, b, c, d]") auto
qed

lemma decode_loop_text:
  assumes "decode_ctx_ok ctx" "data_used ctx = 0" "\<not> eof_seen ctx"
    and "\<forall>c \<in> set s. \<not> is_base64_space c"
    and "decode_update_loop ctx s = (ctx', out, ok)"
  shows "(ok \<and> data_used ctx' = 0 \<longleftrightarrow> base64_text s) \<and> (base64_text s \<longrightarrow> out = base64_value s)"
  using assms
proof (induction s arbitrary: ctx ctx' out ok rule: length_induct)
  case (1 s)
  note prems = 1(2-6) and IH = 1(1)[rule_format]
  have p0: "pending ctx = []" using prems(2) by (simp add: pending_def)
  consider "s = []" | a where "s = [a]" | a b where "s = [a, b]" | a b c where "s = [a, b, c]"
    | a b c d r where "s = a # b # c # d # r"
    by (metis neq_Nil_conv)
  then show ?case
  proof cases
    case 1
    then show ?thesis using prems by simp
  next
    case (2 a)
    then show ?thesis using prems by (auto simp: base64_text_def)
  next
    case (3 a b)
    then show ?thesis using prems by (auto simp: base64_text_def)
  next
    case (4 a b c)
    then show ?thesis using prems by (auto simp: base64_text_def)
  next
    case (5 a b c d r)
    have sp: "\<not> is_base64_space a" "\<not> is_base64_space b" "\<not> is_base64_space c" "\<not> is_base64_space d"
      "\<forall>c \<in> set r. \<not> is_base64_space c" using prems(4) 5 by simp_all
    obtain c1 where c1: "decode_ctx_ok c1" "\<not> eof_seen c1" "data_used c1 = 1" "pending c1 = [a]"
      "\<And>cs. decode_update_loop ctx (a # cs) = decode_update_loop c1 cs"
      by (rule decode_loop_more [OF prems(1) sp(1) prems(3)]) (use prems(2) p0 in auto)
    obtain c2 where c2: "decode_ctx_ok c2" "\<not> eof_seen c2" "data_used c2 = 2" "pending c2 = [a, b]"
      "\<And>cs. decode_update_loop c1 (b # cs) = decode_update_loop c2 cs"
      by (rule decode_loop_more [OF c1(1) sp(2) c1(2)]) (use c1 in auto)
    obtain c3 where c3: "decode_ctx_ok c3" "\<not> eof_seen c3" "data_used c3 = 3" "pending c3 = [a, b, c]"
      "\<And>cs. decode_update_loop c2 (c # cs) = decode_update_loop c3 cs"
      by (rule decode_loop_more [OF c2(1) sp(3) c2(2)]) (use c2 in auto)
    have quad: "base64_decode_quad (pending c3 @ [d]) = base64_decode_quad [a, b, c, d]" by (simp add: c3(4))
    obtain c4 where c4: "decode_ctx_ok c4" "data_used c4 = 0"
      "eof_seen c4 \<longleftrightarrow> (\<exists>q. base64_decode_quad [a, b, c, d] = Some q \<and> length q < 3)"
      "\<forall>r. base64_decode_quad [a, b, c, d] = None \<longrightarrow> \<not> snd (snd (decode_update_loop c3 (d # r)))"
      "\<forall>q r. base64_decode_quad [a, b, c, d] = Some q \<longrightarrow> decode_update_loop c3 (d # r) =
         (case decode_update_loop c4 r of (c', out, ok) \<Rightarrow> (c', q @ out, ok))"
      by (rule decode_loop_full [OF c3(1) sp(4) c3(2,3), unfolded quad])
    have whole: "decode_update_loop ctx s = decode_update_loop c3 (d # r)" by (simp only: 5 c1(5) c2(5) c3(5))
    define alph where "alph \<longleftrightarrow> in_alphabet a \<and> in_alphabet b \<and> in_alphabet c \<and> in_alphabet d"
    have text_s: "base64_text s \<longleftrightarrow> base64_text [a, b, c, d] \<and> (if alph then base64_text r else r = [])"
      using text_quad(1) [of a b c d r] text_quad(1) [of a b c d "[]"]
        text_padded [of a b c d r] text_padded [of a b c d "[]"] by (auto simp: 5 alph_def)
    show ?thesis
    proof (cases "base64_decode_quad [a, b, c, d]")
      case None
      then have "\<not> snd (snd (decode_update_loop ctx s))" using c4(4) unfolding whole by blast
      then have "\<not> ok" by (simp add: prems(5))
      moreover have "\<not> base64_text s" using None quad_some_iff [of a b c d "base64_value [a, b, c, d]"] by (auto simp: text_s)
      ultimately show ?thesis by blast
    next
      case (Some q)
      then have q: "base64_text [a, b, c, d]" "q = base64_value [a, b, c, d]" by (simp_all add: quad_some_iff)
      obtain o' where o': "decode_update_loop c4 r = (ctx', o', ok)" "out = q @ o'"
        using prems(5) unfolding whole c4(5) [rule_format, OF Some] by (auto split: prod.splits)
      show ?thesis
      proof (cases alph)
        case True
        then have "\<not> eof_seen c4" by (simp add: c4(3) quad_short_iff alph_def)
        moreover have "length r < length s" by (simp add: 5)
        ultimately have "(ok \<and> data_used ctx' = 0 \<longleftrightarrow> base64_text r) \<and> (base64_text r \<longrightarrow> o' = base64_value r)"
          using c4(1,2) sp(5) o'(1) by (intro IH) simp_all
        moreover have "base64_value s = q @ base64_value r"
          using True text_quad(2) [of a b c d r] text_quad(2) [of a b c d "[]"] by (simp add: 5 alph_def q(2))
        ultimately show ?thesis using True by (simp add: text_s q(1) o'(2))
      next
        case False
        then have "eof_seen c4" using q(1) by (simp add: c4(3) quad_short_iff alph_def)
        then have "ok \<longleftrightarrow> r = []" using decode_loop_after_eof [OF sp(5)] o'(1) by fastforce
        moreover have "r = [] \<Longrightarrow> ctx' = c4 \<and> o' = []" using o'(1) by simp
        moreover have "base64_text s \<longleftrightarrow> r = []" using False q(1) by (simp add: text_s)
        ultimately show ?thesis using c4(2) by (auto simp: q(2) o'(2)) (simp add: 5)
      qed
    qed
  qed
qed

text \<open>What a caller gets who passes the chunks one by one, stops at an error, and finishes.\<close>

fun decode_stream :: "evp_encode_ctx \<Rightarrow> bytes list \<Rightarrow> bytes option" where
  "decode_stream ctx [] = (if EVP_DecodeFinal ctx = 1 then Some [] else None)"
| "decode_stream ctx (c # cs) =
     (let (ctx', out, n, r) = EVP_DecodeUpdate ctx c
      in if r < 0 then None else map_option ((@) (take n out)) (decode_stream ctx' cs))"

lemma decode_stream_loop:
  assumes "decode_ctx_ok ctx" and "\<forall>c \<in> set chunks. length c \<le> INT_MAX"
  shows "decode_stream ctx chunks =
    (case decode_update_loop ctx (concat chunks) of
       (ctx', out, ok) \<Rightarrow> if ok \<and> data_used ctx' = 0 then Some out else None)"
  using assms
proof (induction chunks arbitrary: ctx)
  case Nil
  then show ?case by (simp add: EVP_DecodeFinal_def decode_ctx_ok_def)
next
  case (Cons c cs)
  obtain ctx' out ok where loop: "decode_update_loop ctx c = (ctx', out, ok)" by (rule prod_cases3)
  note inv = decode_loop_ok [OF Cons.prems(1) loop]
  have "(data_used ctx + length c) div 4 \<le> (3 + INT_MAX) div 4"
    using Cons.prems by (intro div_le_mono) (simp add: decode_ctx_ok_def)
  also have "3 * ((3 + INT_MAX) div 4) \<le> INT_MAX" by (simp add: INT_MAX_def)
  finally have small: "length out \<le> INT_MAX" using inv by linarith
  show ?case
  proof (cases ok)
    case False
    then show ?thesis using Cons.prems(1) by (simp add: EVP_DecodeUpdate_def loop decode_loop_append decode_ctx_ok_def)
  next
    case True
    have "EVP_DecodeUpdate ctx c = (ctx', out, length out, if eof_seen ctx' then 0 else 1)"
      using True small Cons.prems(1) by (simp add: EVP_DecodeUpdate_def loop decode_ctx_ok_def)
    then show ?thesis using Cons.IH [of ctx'] Cons.prems(2) inv True
      by (simp add: decode_loop_append loop split: prod.splits)
  qed
qed

lemma decode_init_ok [simp]: "decode_ctx_ok EVP_DecodeInit" "data_used EVP_DecodeInit = 0" "\<not> eof_seen EVP_DecodeInit"
  by (simp_all add: decode_ctx_ok_def EVP_DecodeInit_def)

definition without_space :: "bytes \<Rightarrow> bytes" where
  "without_space s = filter (\<lambda>c. \<not> is_base64_space c) s"

lemma decode_stream_text:
  assumes "\<forall>c \<in> set chunks. length c \<le> INT_MAX"
  shows "decode_stream EVP_DecodeInit chunks =
    (if base64_text (without_space (concat chunks)) then Some (base64_value (without_space (concat chunks))) else None)"
proof -
  let ?s = "without_space (concat chunks)"
  obtain ctx' out ok where loop: "decode_update_loop EVP_DecodeInit ?s = (ctx', out, ok)" by (rule prod_cases3)
  have "\<forall>c \<in> set ?s. \<not> is_base64_space c" by (simp add: without_space_def)
  from decode_loop_text [OF decode_init_ok this loop] show ?thesis
    using decode_stream_loop [OF decode_init_ok(1) assms] loop
    by (simp add: decode_loop_filter [of _ "concat chunks"] without_space_def)
qed

lemma decode_base64_text:
  "EVP_DecodeBase64 (length s div 4 * 3) s =
     (if base64_text s then (base64_value s, length (base64_value s), True)
      else (fst (EVP_DecodeBase64 (length s div 4 * 3) s), 0, False))"
proof (cases "length s mod 4 = 0")
  case True
  with decode_base64_loop_text [OF this] show ?thesis
    by (auto simp: EVP_DecodeBase64_def EVP_DecodedLength_def split: prod.splits)
qed (simp add: EVP_DecodeBase64_def base64_text_def)

text \<open>C17: stream decoding. However the text is divided into calls of \<open>EVP_DecodeUpdate\<close>, these and
  \<open>EVP_DecodeFinal\<close> all succeed exactly when the text without its white space is one that
  \<open>EVP_DecodeBase64\<close> accepts in one call, and then what they write together is what that call
  writes.\<close>

theorem decode_stream_exact:
  assumes "\<forall>c \<in> set chunks. length c \<le> INT_MAX"
  shows "decode_stream EVP_DecodeInit chunks =
    (let s = without_space (concat chunks)
     in case EVP_DecodeBase64 (length s div 4 * 3) s of
          (written, _, True) \<Rightarrow> Some written | (_, _, False) \<Rightarrow> None)"
  unfolding decode_stream_text [OF assms] Let_def by (subst decode_base64_text) simp

lemma decode_stream_exact_witness:
  "decode_stream EVP_DecodeInit [[0x51, 0x51], [0x3D], [0x0A, 0x3D]] = Some [0x41]"
proof -
  have "encode_block_loop [0x41] = [0x51, 0x51, 0x3D, 0x3D]" by code_simp
  then have "base64_text [0x51, 0x51, 0x3D, 0x3D] \<and> base64_value [0x51, 0x51, 0x3D, 0x3D] = [0x41]"
    using base64_roundtrip [of "[0x41]"] by simp
  then show ?thesis
    using decode_stream_exact [of "[[0x51, 0x51], [0x3D], [0x0A, 0x3D]]"]
      decode_base64_loop_text [of "[0x51, 0x51, 0x3D, 0x3D]"]
    by (simp add: INT_MAX_def without_space_def is_base64_space_def EVP_DecodeBase64_def EVP_DecodedLength_def)
qed

text \<open>errors. When \<open>EVP_DecodeUpdate\<close> returns -1, the output length is zero and every later
  call fails: \<open>EVP_DecodeUpdate\<close> writes nothing and \<open>EVP_DecodeFinal\<close> returns -1 too.\<close>

theorem decode_error_final:
  assumes "decode_ctx_ok ctx" and "EVP_DecodeUpdate ctx cin = (ctx', out, n, - 1)"
  shows "n = 0 \<and> EVP_DecodeUpdate ctx' cin' = (ctx', [], 0, - 1) \<and> EVP_DecodeFinal ctx' = - 1"
proof -
  obtain c o' ok where loop: "decode_update_loop ctx cin = (c, o', ok)" by (rule prod_cases3)
  have "n = 0 \<and> error_encountered ctx'"
    using assms decode_loop_ok [OF assms(1) loop]
    by (auto simp: EVP_DecodeUpdate_def loop decode_ctx_ok_def split: if_splits)
  then show ?thesis by (simp add: EVP_DecodeUpdate_def EVP_DecodeFinal_def)
qed

lemma decode_error_final_witness:
  "EVP_DecodeFinal (fst (EVP_DecodeUpdate EVP_DecodeInit [0x51, 0x51, 0x51, 0x2A])) = - 1"
proof -
  have "snd (snd (snd (EVP_DecodeUpdate EVP_DecodeInit [0x51, 0x51, 0x51, 0x2A]))) = - 1" by code_simp
  then obtain ctx' out n where "EVP_DecodeUpdate EVP_DecodeInit [0x51, 0x51, 0x51, 0x2A] = (ctx', out, n, - 1)"
    by (metis prod.collapse)
  then show ?thesis using decode_error_final [OF decode_init_ok(1)] by (metis fst_conv)
qed

section \<open>Encoding, then decoding\<close>

lemma encode_block_loop_append:
  "length xs mod 3 = 0 \<Longrightarrow> encode_block_loop (xs @ ys) = encode_block_loop xs @ encode_block_loop ys"
  by (induction xs rule: encode_block_loop.induct) auto

lemma no_space_encoded: "without_space (encode_block_loop bs) = encode_block_loop bs"
  unfolding without_space_def
  by (induction bs rule: encode_block_loop.induct) (simp_all add: Let_def encode_group_def is_base64_space_def [of char_equals])

lemma without_space_lines: "without_space (base64_lines bs) = encode_block_loop bs"
proof (induction bs rule: length_induct)
  case (1 bs)
  show ?case
  proof (cases "bs = []")
    case False
    have "encode_block_loop bs = encode_block_loop (take sizeof_data bs) @ encode_block_loop (drop sizeof_data bs)"
    proof (cases "length bs < sizeof_data")
      case False
      then have "length (take sizeof_data bs) mod 3 = 0" by (simp add: sizeof_data_def)
      from encode_block_loop_append [OF this, of "drop sizeof_data bs"] show ?thesis by simp
    qed simp
    moreover have "without_space (base64_lines (drop sizeof_data bs)) = encode_block_loop (drop sizeof_data bs)"
      using 1 False by (simp add: sizeof_data_def)
    moreover have "is_base64_space char_newline" by (simp add: is_base64_space_def)
    ultimately show ?thesis
      using False no_space_encoded [of "take sizeof_data bs"]
      by (subst base64_lines.simps) (simp add: without_space_def flip: encode_block_loop_rfc4648)
  qed (simp add: without_space_def)
qed

text \<open>C18: end to end. What is encoded as a stream, divided in any way, and decoded as a stream,
  divided in any other way, is what it was.\<close>

theorem base64_stream_roundtrip:
  assumes "\<forall>c \<in> set chunks. length c < 2 ^ 63" and "\<forall>c \<in> set received. length c \<le> INT_MAX"
    and "concat received = encode_stream EVP_EncodeInit chunks"
  shows "decode_stream EVP_DecodeInit received = Some (concat chunks)"
proof -
  have "encode_stream EVP_EncodeInit chunks = base64_lines (concat chunks)"
    using encode_stream_from [OF encode_init_ok(1) assms(1)] by simp
  then have "without_space (concat received) = encode_block_loop (concat chunks)"
    by (simp add: assms(3) without_space_lines)
  then show ?thesis using decode_stream_text [OF assms(2)] base64_roundtrip [of "concat chunks"] by simp
qed

lemma base64_stream_roundtrip_witness:
  "decode_stream EVP_DecodeInit
     [encode_stream EVP_EncodeInit [[0xCA], [0xFE, 0]]] = Some [0xCA, 0xFE, 0]"
proof -
  have "length (encode_stream EVP_EncodeInit [[0xCA], [0xFE, 0]]) \<le> INT_MAX"
    using encode_stream_from [OF encode_init_ok(1), of "[[0xCA], [0xFE, 0]]"]
      length_encode_block_loop [of "[0xCA, 0xFE, 0]"]
    by (simp add: base64_lines_last sizeof_data_def INT_MAX_def encode_block_loop_rfc4648)
  then show ?thesis
    using base64_stream_roundtrip [of "[[0xCA], [0xFE, 0]]" "[encode_stream EVP_EncodeInit [[0xCA], [0xFE, 0]]]"]
    by simp
qed

end
