(* ===== verification/Ber.thy ===== *)
theory Ber
  imports Der_Builder
begin

text \<open>
  Conversion of BER to DER (\<open>crypto/bytestring/ber.c\<close>, \<open>asn1_compat.c\<close>): the walk that looks
  for indefinite lengths and constructed strings, the conversion, which reads from a CBS and
  writes through nested children of a CBB, and implicitly tagged strings.
\<close>

section \<open>Finding BER\<close>

abbreviation kMaxDepth :: nat where "kMaxDepth \<equiv> 128"

definition is_constructed :: "asn1_tag \<Rightarrow> bool" where
  "is_constructed tag \<longleftrightarrow> tag AND CBS_ASN1_CONSTRUCTED \<noteq> 0"

definition is_string_type :: "asn1_tag \<Rightarrow> bool" where
  "is_string_type tag \<longleftrightarrow> tag AND NOT CBS_ASN1_CONSTRUCTED \<in>
     {0x4, 0xc, 0x12, 0x13, 0x14, 0x15, 0x16, 0x19, 0x1a, 0x1b, 0x1c, 0x1e}"

lemma suffix_element: "suffix (snd (cbs_get_any_asn1_element ber s)) s"
  unfolding cbs_get_any_asn1_element_def Let_def
  by (auto intro!: suffix_and_then suffix_CBS_get_bytes suffix_ret split: prod.splits option.splits)

text \<open>Every element is longer than its header and leaves less to read.\<close>

lemma parse_length_header:
  "parse_asn1_length ber tag hl b h = Some (len, hl', bf, ind) \<Longrightarrow> hl \<le> hl' \<and> hl' \<le> len"
  by (auto simp: parse_asn1_length_def Let_def split: if_splits prod.splits option.splits)

lemma ber_element_shortens:
  assumes "cbs_get_any_asn1_element ber s = (Some el, t)"
  shows "length t + length (el_bytes el) = length s" and "0 < el_header_len el"
    and "el_header_len el \<le> length (el_bytes el)" and "s = el_bytes el @ t"
proof -
  from assms obtain b h len where p: "parse_asn1_tag s = (Some (el_tag el), b # h)"
    "parse_asn1_length ber (el_tag el) (length s - length h) b h =
        Some (len, el_header_len el, el_ber_found el, el_indefinite el)"
    and el: "el_bytes el = take len s" "t = drop len s" "len \<le> length s"
    unfolding element_eq_Some by blast
  have "length s = length (tag_bytes (el_tag el)) + Suc (length h)" using p(1) by (simp add: parse_asn1_tag_eq_Some)
  then have "0 < length s - length h" by simp
  then show "length t + length (el_bytes el) = length s" "0 < el_header_len el"
    "el_header_len el \<le> length (el_bytes el)" "s = el_bytes el @ t"
    using parse_length_header [OF p(2)] el by auto
qed

lemma contents_shorten:
  assumes "CBS_get_any_ber_asn1_element s = (Some el, t)"
    and "CBS_skip (el_header_len el) (el_bytes el) = (Some u, contents)"
  shows "length contents < length s"
  using ber_element_shortens [of True s el t] assms
  by (auto simp: CBS_get_any_ber_asn1_element_def)

lemma rest_shortens:
  "CBS_get_any_ber_asn1_element s = (Some el, t) \<Longrightarrow> length t < length s"
  using ber_element_shortens [of True s el t] by (auto simp: CBS_get_any_ber_asn1_element_def)

function cbs_find_ber :: "nat \<Rightarrow> cbs \<Rightarrow> bool option" where
  "cbs_find_ber depth cbs =
     (if depth > kMaxDepth then None
      else if CBS_len cbs = 0 then Some False
      else case CBS_get_any_ber_asn1_element cbs of (None, _) \<Rightarrow> None | (Some el, rest) \<Rightarrow>
        if el_ber_found el then Some True
        else if is_constructed (el_tag el) then
          if is_string_type (el_tag el) then Some True
          else case CBS_skip (el_header_len el) (el_bytes el) of (None, _) \<Rightarrow> None | (Some _, contents) \<Rightarrow>
            (case cbs_find_ber (depth + 1) contents of
               None \<Rightarrow> None
             | Some True \<Rightarrow> Some True
             | Some False \<Rightarrow> cbs_find_ber depth rest)
        else cbs_find_ber depth rest)"
  by pat_completeness auto

termination
  by (relation "measure (\<lambda>(depth, cbs). length cbs)") (auto dest: rest_shortens [OF sym] contents_shorten [OF sym sym])

declare cbs_find_ber.simps [simp del]

section \<open>Converting\<close>

definition cbs_get_eoc :: "(cbs, unit) action" where
  "cbs_get_eoc cbs =
     (if CBS_len cbs \<ge> 2 \<and> CBS_data cbs ! 0 = 0 \<and> CBS_data cbs ! 1 = 0 then CBS_skip 2 cbs else (None, cbs))"

text \<open>
  The result of a call: success, what is left to read, the builder. The code counts the depth
  up to \<open>kMaxDepth\<close>; here \<open>levels\<close> counts what is left of it, so that the recursion is
  structural. \<open>convert_element\<close> is the body of the loop after the element has been read,
  \<open>rec\<close> the recursive call; \<open>out\<close> is the depth of the CBB written to.
\<close>

type_synonym convert = "cbs \<Rightarrow> handle \<Rightarrow> asn1_tag \<Rightarrow> bool \<Rightarrow> cbb \<Rightarrow> unit option \<times> cbs \<times> cbb"

definition to_string :: "asn1_tag \<Rightarrow> bool" where
  "to_string tag \<longleftrightarrow> is_constructed tag \<and> is_string_type tag"

definition out_tag_of :: "asn1_tag \<Rightarrow> asn1_tag" where
  "out_tag_of tag = (if to_string tag then tag AND NOT CBS_ASN1_CONSTRUCTED else tag)"

definition child_string_tag_of :: "asn1_tag \<Rightarrow> asn1_tag \<Rightarrow> asn1_tag" where
  "child_string_tag_of string_tag tag = (if string_tag = 0 \<and> to_string tag then out_tag_of tag else string_tag)"

definition convert_body :: "cbb_env \<Rightarrow> convert \<Rightarrow> handle \<Rightarrow> asn1_tag \<Rightarrow> element \<Rightarrow> cbs \<Rightarrow> cbb \<Rightarrow>
    unit option \<times> cbs \<times> cbb" where
  "convert_body env rec out_contents child_string_tag el cin s =
     (if el_indefinite el then rec cin out_contents child_string_tag True s
      else case CBS_skip (el_header_len el) (el_bytes el) of (None, _) \<Rightarrow> (None, cin, s) | (Some _, contents) \<Rightarrow>
        if is_constructed (el_tag el) then
          case rec contents out_contents child_string_tag False s of (r, _, s) \<Rightarrow> (r, cin, s)
        else case CBB_add_bytes env out_contents contents s of (r, s) \<Rightarrow> (r, cin, s))"

definition convert_element :: "cbb_env \<Rightarrow> convert \<Rightarrow> handle \<Rightarrow> asn1_tag \<Rightarrow> element \<Rightarrow> cbs \<Rightarrow> cbb \<Rightarrow>
    unit option \<times> cbs \<times> cbb" where
  "convert_element env rec out string_tag el cin s =
     (if string_tag \<noteq> 0 \<and> el_tag el AND NOT CBS_ASN1_CONSTRUCTED \<noteq> string_tag then (None, cin, s)
      else case (if string_tag \<noteq> 0 then ret () else CBB_add_asn1 env out (out_tag_of (el_tag el))) s of
        (None, s) \<Rightarrow> (None, cin, s)
      | (Some _, s) \<Rightarrow>
        case convert_body env rec (if string_tag \<noteq> 0 then out else Suc out)
               (child_string_tag_of string_tag (el_tag el)) el cin s of
          (None, cin, s) \<Rightarrow> (None, cin, s)
        | (Some _, cin, s) \<Rightarrow> case CBB_flush env out s of (r, s) \<Rightarrow> (r, cin, s))"

text \<open>The loop; each turn reads at least two octets, so it takes fewer turns than there are octets.\<close>

fun convert_loop :: "cbb_env \<Rightarrow> convert \<Rightarrow> nat \<Rightarrow> convert" where
  "convert_loop env rec 0 cin out string_tag looking_for_eoc s = (None, cin, s)"
| "convert_loop env rec (Suc turns) cin out string_tag looking_for_eoc s =
     (if CBS_len cin = 0 then (if looking_for_eoc then None else Some (), cin, s)
      else if looking_for_eoc \<and> fst (cbs_get_eoc cin) \<noteq> None then (Some (), snd (cbs_get_eoc cin), s)
      else case CBS_get_any_ber_asn1_element cin of (None, cin) \<Rightarrow> (None, cin, s) | (Some el, cin) \<Rightarrow>
        case convert_element env rec out string_tag el cin s of
          (None, cin, s) \<Rightarrow> (None, cin, s)
        | (Some _, cin, s) \<Rightarrow> convert_loop env rec turns cin out string_tag looking_for_eoc s)"

fun cbs_convert_ber :: "cbb_env \<Rightarrow> nat \<Rightarrow> convert" where
  "cbs_convert_ber env 0 cin out string_tag looking_for_eoc s = (None, cin, s)"
| "cbs_convert_ber env (Suc levels) cin out string_tag looking_for_eoc s =
     convert_loop env (cbs_convert_ber env levels) (Suc (length cin)) cin out string_tag looking_for_eoc s"

text \<open>
  The results are \<open>out\<close> and whether it is in a buffer of its own (\<open>out_storage\<close> is not NULL);
  on failure \<open>in\<close> may have moved.
\<close>

definition CBS_asn1_ber_to_der :: "cbb_env \<Rightarrow> (cbs, cbs \<times> bool) action" where
  "CBS_asn1_ber_to_der env cin =
     (case cbs_find_ber 0 cin of
        None \<Rightarrow> (None, cin)
      | Some False \<Rightarrow> and_then CBS_get_any_asn1_element (\<lambda>el. ret (el_bytes el, False)) cin
      | Some True \<Rightarrow>
        case CBB_init env (CBS_len cin) of None \<Rightarrow> (None, cin) | Some cbb \<Rightarrow>
        case cbs_convert_ber env (kMaxDepth + 1) cin 0 0 False cbb of
          (None, cin, _) \<Rightarrow> (None, cin)
        | (Some _, cin, cbb) \<Rightarrow>
          case CBB_finish env 0 False cbb of (None, _) \<Rightarrow> (None, cin) | (Some data, _) \<Rightarrow> (Some (data, True), cin))"

section \<open>Implicitly tagged strings\<close>

function implicit_chunks :: "cbb_env \<Rightarrow> asn1_tag \<Rightarrow> cbs \<Rightarrow> (cbb, unit) action" where
  "implicit_chunks env inner_tag child result =
     (if CBS_len child > 0 then
        case CBS_get_asn1 inner_tag child of (None, _) \<Rightarrow> (None, result) | (Some chunk, child) \<Rightarrow>
        case CBB_add_bytes env 0 chunk result of
          (None, result) \<Rightarrow> (None, result)
        | (Some _, result) \<Rightarrow> implicit_chunks env inner_tag child result
      else (Some (), result))"
  by pat_completeness auto

termination
  by (relation "measure (\<lambda>(env, inner_tag, child, result). length child)")
    (auto dest: asn1.dec_shortens [OF sym])

declare implicit_chunks.simps [simp del]

definition CBS_get_asn1_implicit_string ::
  "cbb_env \<Rightarrow> asn1_tag \<Rightarrow> asn1_tag \<Rightarrow> (cbs, cbs \<times> bool) action" where
  "CBS_get_asn1_implicit_string env outer_tag inner_tag cin =
     (if CBS_peek_asn1_tag cin outer_tag then
        and_then (CBS_get_asn1 outer_tag) (\<lambda>out. ret (out, False)) cin
      else case CBB_init env (CBS_len cin) of None \<Rightarrow> (None, cin) | Some result \<Rightarrow>
        and_then (CBS_get_asn1 (outer_tag OR CBS_ASN1_CONSTRUCTED)) (\<lambda>child cin.
          case and_then (implicit_chunks env inner_tag child) (\<lambda>_. CBB_finish env 0 False) result of
            (None, _) \<Rightarrow> (None, cin)
          | (Some data, _) \<Rightarrow> (Some (data, True), cin)) cin)"

section \<open>Handing the result to an \<open>i2d\<close> caller\<close>

text \<open>
  \<open>outp\<close> is NULL, points to NULL, or points to a buffer; the result is the length, or -1,
  and what \<open>*outp\<close> received: the buffer itself, or a copy of its bytes.
\<close>

datatype i2d_out = Outp_null | Outp_to_null | Outp_to_buffer

datatype i2d_effect = Nothing_stored | Buffer_given bytes | Bytes_copied bytes

definition CBB_finish_i2d :: "cbb_env \<Rightarrow> i2d_out \<Rightarrow> cbb \<Rightarrow> int \<times> i2d_effect" where
  "CBB_finish_i2d env outp cbb =
     (case fst (CBB_finish env 0 False cbb) of
        None \<Rightarrow> (- 1, Nothing_stored)
      | Some der \<Rightarrow>
          if length der > INT_MAX then (- 1, Nothing_stored)
          else (int (length der),
                case outp of Outp_null \<Rightarrow> Nothing_stored
                | Outp_to_null \<Rightarrow> Buffer_given der
                | Outp_to_buffer \<Rightarrow> Bytes_copied der))"

end
