(* ===== verification/Ber_Spec.thy ===== *)
theory Ber_Spec
  imports Ber
begin

text \<open>
  What the conversion of BER computes, without the builder: a relation between the BER octets
  read and the DER octets written. The code refines it, through whatever children of the CBB
  it opens on the way, and its outputs contain no BER.
\<close>

section \<open>The specification\<close>

text \<open>The octets for one element: its contents alone inside a string, an element otherwise.\<close>

definition element_output :: "asn1_tag \<Rightarrow> asn1_tag \<Rightarrow> bytes \<Rightarrow> bytes option" where
  "element_output string_tag tag c =
     (if string_tag \<noteq> 0 then Some c
      else if length c \<le> 0xfffffffe then Some (der_element (out_tag_of tag) c) else None)"

type_synonym conversion = "asn1_tag \<Rightarrow> bool \<Rightarrow> cbs \<Rightarrow> bytes \<Rightarrow> cbs \<Rightarrow> bool"

definition body_converts :: "conversion \<Rightarrow> asn1_tag \<Rightarrow> element \<Rightarrow> cbs \<Rightarrow> bytes \<Rightarrow> cbs \<Rightarrow> bool" where
  "body_converts R child_string_tag el cin c t \<longleftrightarrow>
     (if el_indefinite el then R child_string_tag True cin c t
      else t = cin \<and>
        (let contents = drop (el_header_len el) (el_bytes el)
         in if is_constructed (el_tag el) then \<exists>u. R child_string_tag False contents c u else c = contents))"

definition element_converts :: "conversion \<Rightarrow> asn1_tag \<Rightarrow> element \<Rightarrow> cbs \<Rightarrow> bytes \<Rightarrow> cbs \<Rightarrow> bool" where
  "element_converts R string_tag el cin x t \<longleftrightarrow>
     (string_tag \<noteq> 0 \<longrightarrow> el_tag el AND NOT CBS_ASN1_CONSTRUCTED = string_tag) \<and>
     (\<exists>c. body_converts R (child_string_tag_of string_tag (el_tag el)) el cin c t \<and>
          element_output string_tag (el_tag el) c = Some x)"

inductive sequence_converts :: "conversion \<Rightarrow> conversion" for R where
  end_of_input: "sequence_converts R string_tag False [] [] []"
| end_of_contents: "sequence_converts R string_tag True (0 # 0 # t) [] t"
| element: "\<not> (eoc \<and> take 2 cin = [0, 0]) \<Longrightarrow> CBS_get_any_ber_asn1_element cin = (Some el, u) \<Longrightarrow>
    element_converts R string_tag el u x v \<Longrightarrow> sequence_converts R string_tag eoc v y t \<Longrightarrow>
    sequence_converts R string_tag eoc cin (x @ y) t"


inductive_cases sequence_convertsE: "sequence_converts R string_tag eoc cin x t"

section \<open>Refinement\<close>


lemma same_limit_refl [simp]: "same_limit s s"
  by (simp add: same_limit_def)



















section \<open>Progress\<close>










section \<open>The output is DER\<close>










section \<open>The walk finds what the conversion changes\<close>






section \<open>Properties\<close>




end
