(* ===== verification/Buf_Mem.thy ===== *)
theory Buf_Mem
  imports Cbb
begin

text \<open>
  Growing buffers, \<open>crypto/buf/buf.c\<close>. \<open>bm_data\<close> is the allocation, \<open>None\<close> for NULL, and
  \<open>bm_start\<close> the place in it where the pointer \<open>data\<close> stands: 0 except in a read-only memory
  BIO, which moves the pointer along a buffer of the caller. The environment of a call is that
  of the builder: which allocations succeed, and what uninitialised memory holds.
\<close>

record buf_mem =
  bm_length :: nat
  bm_data :: "bytes option"
  bm_start :: nat
  bm_max :: nat

text \<open>\<open>memcpy\<close> and \<open>memset\<close> into an allocation.\<close>

definition mem_store :: "nat \<Rightarrow> bytes \<Rightarrow> bytes \<Rightarrow> bytes" where
  "mem_store i bs xs = take i xs @ bs @ drop (i + length bs) xs"

definition mem_bytes :: "buf_mem \<Rightarrow> bytes" where
  "mem_bytes b = (case bm_data b of None \<Rightarrow> [] | Some d \<Rightarrow> take (bm_length b) (drop (bm_start b) d))"

definition sizeof_buf_mem :: nat where "sizeof_buf_mem = 24"

definition BUF_MEM_new :: "cbb_env \<Rightarrow> buf_mem option" where
  "BUF_MEM_new env =
     (if alloc_ok env sizeof_buf_mem then Some \<lparr>bm_length = 0, bm_data = None, bm_start = 0, bm_max = 0\<rparr>
      else None)"

definition mem_realloc :: "cbb_env \<Rightarrow> bytes option \<Rightarrow> nat \<Rightarrow> bytes option" where
  "mem_realloc env data new_size =
     (if \<not> alloc_ok env new_size then None
      else let old = (case data of None \<Rightarrow> [] | Some d \<Rightarrow> d)
           in Some (take new_size old @ map (uninit env) [length old..<new_size]))"

definition BUF_MEM_reserve :: "cbb_env \<Rightarrow> nat \<Rightarrow> buf_mem \<Rightarrow> bool \<times> buf_mem" where
  "BUF_MEM_reserve env cap b =
     (if bm_max b \<ge> cap then (True, b)
      else let n = size_add cap 3 in
        if n < cap then (False, b)
        else let n = n div 3; alloc_size = size_mul n 4 in
          if alloc_size div 4 \<noteq> n then (False, b)
          else (case mem_realloc env (bm_data b) alloc_size of
                  None \<Rightarrow> (False, b)
                | Some new_buf \<Rightarrow> (True, b\<lparr>bm_data := Some new_buf, bm_max := alloc_size\<rparr>)))"

definition mem_write_at :: "nat \<Rightarrow> bytes \<Rightarrow> buf_mem \<Rightarrow> buf_mem" where
  "mem_write_at i bs b = b\<lparr>bm_data := map_option (mem_store (bm_start b + i) bs) (bm_data b)\<rparr>"

definition BUF_MEM_grow :: "cbb_env \<Rightarrow> nat \<Rightarrow> buf_mem \<Rightarrow> nat \<times> buf_mem" where
  "BUF_MEM_grow env len b =
     (case BUF_MEM_reserve env len b of
        (False, b) \<Rightarrow> (0, b)
      | (True, b) \<Rightarrow>
          (len, (if bm_length b < len then mem_write_at (bm_length b) (replicate (len - bm_length b) 0) b
                 else b)\<lparr>bm_length := len\<rparr>))"

definition BUF_MEM_grow_clean :: "cbb_env \<Rightarrow> nat \<Rightarrow> buf_mem \<Rightarrow> nat \<times> buf_mem" where
  "BUF_MEM_grow_clean = BUF_MEM_grow"

definition BUF_MEM_append :: "cbb_env \<Rightarrow> bytes \<Rightarrow> buf_mem \<Rightarrow> bool \<times> buf_mem" where
  "BUF_MEM_append env bs b =
     (if bs = [] then (True, b)
      else let new_len = size_add (bm_length b) (length bs) in
        if new_len < length bs then (False, b)
        else (case BUF_MEM_reserve env new_len b of
                (False, b) \<Rightarrow> (False, b)
              | (True, b) \<Rightarrow> (True, (mem_write_at (bm_length b) bs b)\<lparr>bm_length := new_len\<rparr>)))"

section \<open>The invariant\<close>

definition wf_buf_mem :: "buf_mem \<Rightarrow> bool" where
  "wf_buf_mem b \<longleftrightarrow> bm_length b \<le> bm_max b \<and> bm_start b = 0 \<and> bm_max b \<le> SIZE_MAX
     \<and> (case bm_data b of None \<Rightarrow> bm_max b = 0 | Some d \<Rightarrow> length d = bm_max b)"

lemma length_mem_store [simp]: "i + length bs \<le> length xs \<Longrightarrow> length (mem_store i bs xs) = length xs"
  by (simp add: mem_store_def)

lemma take_mem_store [simp]: "i \<le> length xs \<Longrightarrow> take i (mem_store i bs xs) = take i xs"
  by (simp add: mem_store_def)

lemma take_mem_store_end [simp]:
  "i \<le> length xs \<Longrightarrow> take (i + length bs) (mem_store i bs xs) = take i xs @ bs"
  by (simp add: mem_store_def)

lemma BUF_MEM_new_wf: "BUF_MEM_new env = Some b \<Longrightarrow> wf_buf_mem b \<and> mem_bytes b = []"
  by (auto simp: BUF_MEM_new_def wf_buf_mem_def mem_bytes_def split: if_splits)

text \<open>A capacity that is granted suffices, and the contents stay.\<close>

lemma BUF_MEM_reserve_ok:
  assumes "wf_buf_mem b" and "cap \<le> SIZE_MAX" and "BUF_MEM_reserve env cap b = (ok, b')"
  shows "wf_buf_mem b' \<and> mem_bytes b' = mem_bytes b \<and> bm_length b' = bm_length b \<and> (ok \<longrightarrow> cap \<le> bm_max b')"
proof (cases "cap \<le> bm_max b \<or> \<not> ok")
  case True
  with assms show ?thesis
    by (auto simp: BUF_MEM_reserve_def Let_def split: if_splits option.splits)
next
  case False
  define n where "n = size_add cap 3 div 3"
  from assms(3) False obtain d where
    r: "\<not> size_add cap 3 < cap" "size_mul n 4 div 4 = n" "mem_realloc env (bm_data b) (size_mul n 4) = Some d"
      "b' = b\<lparr>bm_data := Some d, bm_max := size_mul n 4\<rparr>"
    by (auto simp: BUF_MEM_reserve_def Let_def n_def split: if_splits option.splits)
  have sum: "size_add cap 3 = cap + 3"
    using r(1) size_add_overflow_iff [OF assms(2), of 3] by (simp add: SIZE_MAX_def)
  have n4: "size_mul n 4 = n * 4"
  proof -
    have "n * 4 mod 2 ^ 64 div 4 < 2 ^ 62" by (rule less_mult_imp_div_less) simp
    with r(2) have "n < 2 ^ 62" by (simp add: size_mul_def)
    then show ?thesis by (simp add: size_mul_def)
  qed
  have "cap \<le> n * 4" unfolding n_def sum by presburger
  moreover have "n * 4 \<le> SIZE_MAX" using n4 by (simp add: size_mul_def SIZE_MAX_def)
  ultimately show ?thesis
    using assms(1) r(3,4) n4 False
    by (auto simp: wf_buf_mem_def mem_bytes_def mem_realloc_def Let_def split: option.splits if_splits)
qed

lemma mem_bytes_length: "wf_buf_mem b \<Longrightarrow> length (mem_bytes b) = bm_length b"
  by (auto simp: wf_buf_mem_def mem_bytes_def split: option.splits)

lemma mem_write_at_end:
  assumes "wf_buf_mem b" and "bm_length b + length bs \<le> bm_max b" and "b' = (mem_write_at (bm_length b) bs b)\<lparr>bm_length := bm_length b + length bs\<rparr>"
  shows "wf_buf_mem b' \<and> mem_bytes b' = mem_bytes b @ bs"
  using assms by (auto simp: wf_buf_mem_def mem_bytes_def mem_write_at_def split: option.splits)

lemma mem_truncate:
  assumes "wf_buf_mem b" and "len \<le> bm_length b"
  shows "wf_buf_mem (b\<lparr>bm_length := len\<rparr>) \<and> mem_bytes (b\<lparr>bm_length := len\<rparr>) = take len (mem_bytes b)"
  using assms by (auto simp: wf_buf_mem_def mem_bytes_def min_absorb1 split: option.splits)

lemma BUF_MEM_append_ok:
  assumes "wf_buf_mem b" and "length bs \<le> SIZE_MAX" and "BUF_MEM_append env bs b = (ok, b')"
  shows "wf_buf_mem b' \<and> mem_bytes b' = mem_bytes b @ (if ok then bs else [])"
proof (cases "bs = []")
  case True
  with assms show ?thesis by (auto simp: BUF_MEM_append_def)
next
  case False
  let ?n = "size_add (bm_length b) (length bs)"
  have len: "bm_length b \<le> SIZE_MAX" using assms(1) by (auto simp: wf_buf_mem_def)
  show ?thesis
  proof (cases "?n < length bs")
    case True
    with assms False show ?thesis by (auto simp: BUF_MEM_append_def Let_def)
  next
    case no_wrap: False
    obtain ok' b1 where r: "BUF_MEM_reserve env ?n b = (ok', b1)" by fastforce
    have n: "?n = bm_length b + length bs"
      using no_wrap size_add_overflow_iff [OF assms(2) len] by (simp add: size_add_def add.commute SIZE_MAX_def)
    have "?n \<le> SIZE_MAX" by (simp add: size_add_def SIZE_MAX_def)
    note b1 = BUF_MEM_reserve_ok [OF assms(1) this r]
    show ?thesis
    proof (cases ok')
      case True
      with assms(3) r no_wrap False have
        "ok" "b' = (mem_write_at (bm_length b1) bs b1)\<lparr>bm_length := bm_length b1 + length bs\<rparr>"
        using b1 n by (auto simp: BUF_MEM_append_def Let_def)
      with b1 n True mem_write_at_end [of b1 bs b'] show ?thesis by simp
    next
      case no: False
      with assms(3) r no_wrap False b1 show ?thesis by (auto simp: BUF_MEM_append_def Let_def)
    qed
  qed
qed

lemma BUF_MEM_grow_ok:
  assumes "wf_buf_mem b" and "len \<le> SIZE_MAX" and "BUF_MEM_grow env len b = (n, b')"
  shows "wf_buf_mem b' \<and> (n = len \<and> mem_bytes b' = take len (mem_bytes b) @ replicate (len - bm_length b) 0
      \<or> n = 0 \<and> mem_bytes b' = mem_bytes b)"
proof -
  obtain ok b1 where r: "BUF_MEM_reserve env len b = (ok, b1)" by fastforce
  note b1 = BUF_MEM_reserve_ok [OF assms(1,2) r]
  consider "\<not> ok" | "ok" "bm_length b < len" | "ok" "len \<le> bm_length b" by fastforce
  then show ?thesis
  proof cases
    case 1
    with assms(3) r b1 show ?thesis by (auto simp: BUF_MEM_grow_def)
  next
    case 2
    with assms(3) r b1 have "n = len" "b' = (mem_write_at (bm_length b1) (replicate (len - bm_length b1) 0) b1)
        \<lparr>bm_length := bm_length b1 + length (replicate (len - bm_length b1) (0 :: u8))\<rparr>"
      by (auto simp: BUF_MEM_grow_def)
    with b1 2 mem_write_at_end [of b1 "replicate (len - bm_length b1) 0" b'] mem_bytes_length [OF assms(1)]
    show ?thesis by simp
  next
    case 3
    with assms(3) r b1 have "n = len" "b' = b1\<lparr>bm_length := len\<rparr>"
      by (auto simp: BUF_MEM_grow_def)
    with b1 3 mem_truncate [of b1 len] show ?thesis by simp
  qed
qed

end
