(* ===== verification/Bio_Store.thy ===== *)
theory Bio_Store
  imports Buf_Mem
begin

text \<open>
  The store of BIOs: \<open>struct bio_st\<close> of \<open>bio.h\<close>, the state \<open>bio_bio_st\<close> of one half of a pair
  and the flags of \<open>crypto/bio/bio.c\<close>. A BIO is known by its address, because the two halves
  of a pair point to each other and a chain shares its members. \<open>ptr\<close> owns the state of a pair
  and refers to a \<open>BUF_MEM\<close> by its address, because callers may hold that address too.

  An operation returns its result and the new store, or \<open>None\<close> if it never returns.
\<close>

section \<open>Data\<close>

record bio_bio_st =
  peer :: "nat option"
  closed :: bool
  bp_len :: nat
  bp_offset :: nat
  bp_size :: nat
  bp_buf :: "bytes option"
  request :: nat

datatype bio_method = methods_biop | mem_method

datatype bio_ptr = Null_ptr | Pair_ptr (the_pair: bio_bio_st) | Mem_ptr (the_mem: nat)

record bio =
  meth :: bio_method
  bio_init :: bool
  bio_shutdown :: int
  bio_flags :: u32
  retry_reason :: int
  bio_num :: int
  references :: u32
  bio_ptr :: bio_ptr
  next_bio :: "nat option"
  num_read :: nat
  num_write :: nat

record bio_store =
  bios :: "nat \<Rightarrow> bio option"
  buf_mems :: "nat \<Rightarrow> buf_mem option"
  next_address :: nat

type_synonym 'a io = "bio_store \<Rightarrow> ('a \<times> bio_store) option"

section \<open>Access\<close>

definition bio_at :: "bio_store \<Rightarrow> nat \<Rightarrow> bio" where
  "bio_at h b = the (bios h b)"

definition set_bio :: "nat \<Rightarrow> bio \<Rightarrow> bio_store \<Rightarrow> bio_store" where
  "set_bio b x h = h\<lparr>bios := (bios h)(b := Some x)\<rparr>"

definition upd_bio :: "nat \<Rightarrow> (bio \<Rightarrow> bio) \<Rightarrow> bio_store \<Rightarrow> bio_store" where
  "upd_bio b f h = set_bio b (f (bio_at h b)) h"

definition pair_at :: "bio_store \<Rightarrow> nat \<Rightarrow> bio_bio_st" where
  "pair_at h b = the_pair (bio_ptr (bio_at h b))"

definition upd_pair :: "nat \<Rightarrow> (bio_bio_st \<Rightarrow> bio_bio_st) \<Rightarrow> bio_store \<Rightarrow> bio_store" where
  "upd_pair b f h = upd_bio b (bio_ptr_update (\<lambda>_. Pair_ptr (f (pair_at h b)))) h"

definition mem_at :: "bio_store \<Rightarrow> nat \<Rightarrow> buf_mem" where
  "mem_at h b = the (buf_mems h (the_mem (bio_ptr (bio_at h b))))"

definition set_mem :: "nat \<Rightarrow> buf_mem \<Rightarrow> bio_store \<Rightarrow> bio_store" where
  "set_mem b m h = h\<lparr>buf_mems := (buf_mems h)(the_mem (bio_ptr (bio_at h b)) := Some m)\<rparr>"

lemma bio_at_set_bio [simp]: "bio_at (set_bio b x h) c = (if c = b then x else bio_at h c)"
  by (simp add: bio_at_def set_bio_def)

lemma bios_set_bio [simp]: "bios (set_bio b x h) = (bios h)(b := Some x)"
  by (simp add: set_bio_def)

lemma buf_mems_set_bio [simp]: "buf_mems (set_bio b x h) = buf_mems h"
  by (simp add: set_bio_def)

lemma bio_at_upd_bio [simp]: "bio_at (upd_bio b f h) c = (if c = b then f (bio_at h b) else bio_at h c)"
  by (simp add: upd_bio_def)

lemma bios_upd_bio [simp]: "bios (upd_bio b f h) = (bios h)(b := Some (f (bio_at h b)))"
  by (simp add: upd_bio_def)

lemma buf_mems_upd_bio [simp]: "buf_mems (upd_bio b f h) = buf_mems h"
  by (simp add: upd_bio_def)

lemma bio_at_upd_pair [simp]:
  "bio_at (upd_pair b f h) c =
     (if c = b then (bio_at h b)\<lparr>bio_ptr := Pair_ptr (f (pair_at h b))\<rparr> else bio_at h c)"
  by (simp add: upd_pair_def)

lemma pair_at_upd_pair [simp]: "pair_at (upd_pair b f h) c = (if c = b then f (pair_at h b) else pair_at h c)"
  by (simp add: pair_at_def)

lemma bios_upd_pair [simp]:
  "bios (upd_pair b f h) = (bios h)(b := Some ((bio_at h b)\<lparr>bio_ptr := Pair_ptr (f (pair_at h b))\<rparr>))"
  by (simp add: upd_pair_def)

section \<open>Conversions\<close>

text \<open>Between \<open>size_t\<close> and the signed types, as the casts do it.\<close>

definition to_long :: "nat \<Rightarrow> int" where
  "to_long n = (if n < 2 ^ 63 then int n else int n - 2 ^ 64)"

definition to_int :: "int \<Rightarrow> int" where
  "to_int n = (n + 2 ^ 31) mod 2 ^ 32 - 2 ^ 31"

definition to_size :: "int \<Rightarrow> nat" where
  "to_size n = nat (n mod 2 ^ 64)"

definition size_sub :: "nat \<Rightarrow> nat \<Rightarrow> nat" where
  "size_sub a b = (if b \<le> a then a - b else a + 2 ^ 64 - b)"

lemma to_size_to_long [simp]: "n \<le> SIZE_MAX \<Longrightarrow> to_size (to_long n) = n"
  by (auto simp: to_size_def to_long_def SIZE_MAX_def mod_pos_pos_trivial zmod_trivial_iff)

lemma to_int_exact [simp]: "- (2 ^ 31) \<le> n \<Longrightarrow> n < 2 ^ 31 \<Longrightarrow> to_int n = n"
  by (simp add: to_int_def)

section \<open>Reference counts\<close>

text \<open>
  \<open>crypto/refcount.c\<close>, for one thread: a count that has reached the maximum stays there, and
  releasing a count of zero aborts the program, which is \<open>None\<close>.
\<close>

definition CRYPTO_REFCOUNT_MAX :: u32 where "CRYPTO_REFCOUNT_MAX = 0xffffffff"

definition CRYPTO_refcount_inc :: "u32 \<Rightarrow> u32" where
  "CRYPTO_refcount_inc count = (if count \<noteq> CRYPTO_REFCOUNT_MAX then count + 1 else count)"

definition CRYPTO_refcount_dec_and_test_zero :: "u32 \<Rightarrow> (bool \<times> u32) option" where
  "CRYPTO_refcount_dec_and_test_zero count =
     (if count = 0 then None
      else if count = CRYPTO_REFCOUNT_MAX then Some (False, count)
      else Some (count - 1 = 0, count - 1))"

section \<open>Flags\<close>

definition BIO_FLAGS_READ :: u32 where "BIO_FLAGS_READ = 0x01"
definition BIO_FLAGS_WRITE :: u32 where "BIO_FLAGS_WRITE = 0x02"
definition BIO_FLAGS_IO_SPECIAL :: u32 where "BIO_FLAGS_IO_SPECIAL = 0x04"
definition BIO_FLAGS_RWS :: u32 where
  "BIO_FLAGS_RWS = BIO_FLAGS_READ OR BIO_FLAGS_WRITE OR BIO_FLAGS_IO_SPECIAL"
definition BIO_FLAGS_SHOULD_RETRY :: u32 where "BIO_FLAGS_SHOULD_RETRY = 0x08"
definition BIO_FLAGS_MEM_RDONLY :: u32 where "BIO_FLAGS_MEM_RDONLY = 0x200"

definition BIO_set_flags :: "u32 \<Rightarrow> bio \<Rightarrow> bio" where
  "BIO_set_flags flags b = b\<lparr>bio_flags := bio_flags b OR flags\<rparr>"

definition BIO_test_flags :: "u32 \<Rightarrow> bio \<Rightarrow> u32" where
  "BIO_test_flags flags b = bio_flags b AND flags"

definition BIO_should_read :: "bio \<Rightarrow> u32" where
  "BIO_should_read b = BIO_test_flags BIO_FLAGS_READ b"

definition BIO_should_write :: "bio \<Rightarrow> u32" where
  "BIO_should_write b = BIO_test_flags BIO_FLAGS_WRITE b"

definition BIO_should_retry :: "bio \<Rightarrow> u32" where
  "BIO_should_retry b = BIO_test_flags BIO_FLAGS_SHOULD_RETRY b"

definition BIO_should_io_special :: "bio \<Rightarrow> u32" where
  "BIO_should_io_special b = BIO_test_flags BIO_FLAGS_IO_SPECIAL b"

definition BIO_get_retry_reason :: "bio \<Rightarrow> int" where
  "BIO_get_retry_reason b = retry_reason b"

definition BIO_set_retry_reason :: "int \<Rightarrow> bio \<Rightarrow> bio" where
  "BIO_set_retry_reason reason b = b\<lparr>retry_reason := reason\<rparr>"

definition BIO_clear_flags :: "u32 \<Rightarrow> bio \<Rightarrow> bio" where
  "BIO_clear_flags flags b = b\<lparr>bio_flags := bio_flags b AND NOT flags\<rparr>"

definition BIO_set_retry_read :: "bio \<Rightarrow> bio" where
  "BIO_set_retry_read b = b\<lparr>bio_flags := bio_flags b OR (BIO_FLAGS_READ OR BIO_FLAGS_SHOULD_RETRY)\<rparr>"

definition BIO_set_retry_write :: "bio \<Rightarrow> bio" where
  "BIO_set_retry_write b = b\<lparr>bio_flags := bio_flags b OR (BIO_FLAGS_WRITE OR BIO_FLAGS_SHOULD_RETRY)\<rparr>"

definition BIO_set_retry_special :: "bio \<Rightarrow> bio" where
  "BIO_set_retry_special b = b\<lparr>bio_flags := bio_flags b OR (BIO_FLAGS_READ OR BIO_FLAGS_IO_SPECIAL)\<rparr>"

definition kRetryFlags :: u32 where
  "kRetryFlags = BIO_FLAGS_RWS OR BIO_FLAGS_SHOULD_RETRY"

definition BIO_get_retry_flags :: "bio \<Rightarrow> u32" where
  "BIO_get_retry_flags b = bio_flags b AND kRetryFlags"

definition BIO_clear_retry_flags :: "bio \<Rightarrow> bio" where
  "BIO_clear_retry_flags b = b\<lparr>bio_flags := bio_flags b AND NOT kRetryFlags, retry_reason := 0\<rparr>"

definition BIO_copy_next_retry :: "nat \<Rightarrow> bio_store \<Rightarrow> bio_store" where
  "BIO_copy_next_retry b h =
     (let nx = bio_at h (the (next_bio (bio_at h b)))
      in upd_bio b (\<lambda>x. (BIO_set_flags (BIO_get_retry_flags nx) (BIO_clear_retry_flags x))
                          \<lparr>retry_reason := retry_reason nx\<rparr>) h)"

lemmas bio_flag_defs = BIO_FLAGS_READ_def BIO_FLAGS_WRITE_def BIO_FLAGS_IO_SPECIAL_def BIO_FLAGS_RWS_def
  BIO_FLAGS_SHOULD_RETRY_def kRetryFlags_def

section \<open>Control requests\<close>

text \<open>
  The argument of a request is a pointer: to another BIO, to a \<open>BUF_MEM\<close>, or to the place
  where the request leaves a pointer. What it leaves there is part of the result.
\<close>

datatype ctrl_arg = No_arg | Bio_arg nat | Buf_arg nat | Out_arg

datatype ctrl_out = No_out | Data_out "bytes option" | Buf_out nat

definition BIO_CTRL_RESET :: int where "BIO_CTRL_RESET = 1"
definition BIO_CTRL_EOF :: int where "BIO_CTRL_EOF = 2"
definition BIO_CTRL_INFO :: int where "BIO_CTRL_INFO = 3"
definition BIO_CTRL_GET_CLOSE :: int where "BIO_CTRL_GET_CLOSE = 8"
definition BIO_CTRL_SET_CLOSE :: int where "BIO_CTRL_SET_CLOSE = 9"
definition BIO_CTRL_PENDING :: int where "BIO_CTRL_PENDING = 10"
definition BIO_CTRL_FLUSH :: int where "BIO_CTRL_FLUSH = 11"
definition BIO_CTRL_WPENDING :: int where "BIO_CTRL_WPENDING = 13"
definition BIO_C_SET_BUF_MEM :: int where "BIO_C_SET_BUF_MEM = 114"
definition BIO_C_GET_BUF_MEM_PTR :: int where "BIO_C_GET_BUF_MEM_PTR = 115"
definition BIO_C_SET_BUF_MEM_EOF_RETURN :: int where "BIO_C_SET_BUF_MEM_EOF_RETURN = 130"
definition BIO_C_GET_WRITE_BUF_SIZE :: int where "BIO_C_GET_WRITE_BUF_SIZE = 137"
definition BIO_C_GET_WRITE_GUARANTEE :: int where "BIO_C_GET_WRITE_GUARANTEE = 140"
definition BIO_C_GET_READ_REQUEST :: int where "BIO_C_GET_READ_REQUEST = 141"
definition BIO_C_SHUTDOWN_WR :: int where "BIO_C_SHUTDOWN_WR = 142"
definition BIO_C_RESET_READ_REQUEST :: int where "BIO_C_RESET_READ_REQUEST = 147"

lemmas ctrl_cmd_defs = BIO_CTRL_RESET_def BIO_CTRL_EOF_def BIO_CTRL_INFO_def
  BIO_CTRL_GET_CLOSE_def BIO_CTRL_SET_CLOSE_def BIO_CTRL_PENDING_def BIO_CTRL_FLUSH_def
  BIO_CTRL_WPENDING_def BIO_C_SET_BUF_MEM_def BIO_C_GET_BUF_MEM_PTR_def
  BIO_C_SET_BUF_MEM_EOF_RETURN_def BIO_C_GET_WRITE_BUF_SIZE_def BIO_C_GET_WRITE_GUARANTEE_def
  BIO_C_GET_READ_REQUEST_def BIO_C_SHUTDOWN_WR_def BIO_C_RESET_READ_REQUEST_def

end
