(* ===== verification/Bio_Pair.thy ===== *)
theory Bio_Pair
  imports Bio_Store
begin

text \<open>
  The method of a BIO pair, \<open>crypto/bio/pair.c\<close>: each half owns a ring buffer with what was
  written to it, and is read through the other half. Pointers to data are not NULL; assertions
  of the code are not repeated in the definitions and are proved of them instead.
\<close>

section \<open>The ring buffer\<close>

text \<open>
  The loops of \<open>bio_read\<close> and \<open>bio_write\<close>. Whether they end depends on the state: a chunk may
  be empty, so that the recursion is only partial. The writing loop returns the buffer.
\<close>

partial_function (option) bio_read_loop :: "nat \<Rightarrow> bio_bio_st \<Rightarrow> (bytes \<times> bio_bio_st) option" where
  "bio_read_loop rest p =
     (let chunk = (if size_add (bp_offset p) rest \<le> bp_size p then rest else bp_size p - bp_offset p);
          out = take chunk (drop (bp_offset p) (the (bp_buf p)));
          p = p\<lparr>bp_len := bp_len p - chunk\<rparr>;
          p = (if bp_len p \<noteq> 0
               then p\<lparr>bp_offset := (if bp_offset p + chunk = bp_size p then 0 else bp_offset p + chunk)\<rparr>
               else p\<lparr>bp_offset := 0\<rparr>)
      in if rest - chunk \<noteq> 0
         then Option.bind (bio_read_loop (rest - chunk) p) (\<lambda>r. Some (out @ fst r, snd r))
         else Some (out, p))"

partial_function (option) bio_write_loop :: "bytes \<Rightarrow> bio_bio_st \<Rightarrow> bio_bio_st option" where
  "bio_write_loop src p =
     (let write_offset = size_add (bp_offset p) (bp_len p);
          write_offset = (if write_offset \<ge> bp_size p then write_offset - bp_size p else write_offset);
          chunk = (if size_add write_offset (length src) \<le> bp_size p then length src
                   else bp_size p - write_offset);
          p = p\<lparr>bp_buf := map_option (mem_store write_offset (take chunk src)) (bp_buf p),
                bp_len := bp_len p + chunk\<rparr>
      in if length src - chunk \<noteq> 0 then bio_write_loop (drop chunk src) p else Some p)"

section \<open>The operations\<close>

definition bio_read :: "nat \<Rightarrow> nat \<Rightarrow> (int \<times> bytes) io" where
  "bio_read b sz h =
     (let h = upd_bio b BIO_clear_retry_flags h in
      if \<not> bio_init (bio_at h b) then Some ((0, []), h)
      else let pb = the (peer (pair_at h b));
               h = upd_pair pb (request_update (\<lambda>_. 0)) h;
               p = pair_at h pb in
        if sz = 0 then Some ((0, []), h)
        else if bp_len p = 0 then
          if closed p then Some ((0, []), h)
          else Some ((- 1, []),
            upd_pair pb (request_update (\<lambda>_. if sz \<le> bp_size p then sz else bp_size p))
              (upd_bio b BIO_set_retry_read h))
        else let sz = (if bp_len p < sz then bp_len p else sz) in
          Option.bind (bio_read_loop sz p)
            (\<lambda>r. Some ((to_int (int sz), fst r), upd_pair pb (\<lambda>_. snd r) h)))"

definition bio_write :: "nat \<Rightarrow> bytes \<Rightarrow> int io" where
  "bio_write b src h =
     (let h = upd_bio b BIO_clear_retry_flags h in
      if \<not> bio_init (bio_at h b) \<or> src = [] then Some (0, h)
      else let h = upd_pair b (request_update (\<lambda>_. 0)) h; p = pair_at h b in
        if closed p then Some (- 1, h)
        else if bp_len p = bp_size p then Some (- 1, upd_bio b BIO_set_retry_write h)
        else let num = (if length src > bp_size p - bp_len p then bp_size p - bp_len p else length src) in
          Option.bind (bio_write_loop (take num src) p)
            (\<lambda>p. Some (to_int (int num), upd_pair b (\<lambda>_. p) h)))"

definition sizeof_bio_bio_st :: nat where "sizeof_bio_bio_st = 56"

definition bio_new :: "cbb_env \<Rightarrow> nat \<Rightarrow> bio_store \<Rightarrow> bool \<times> bio_store" where
  "bio_new env b h =
     (if \<not> alloc_ok env sizeof_bio_bio_st then (False, h)
      else (True, upd_bio b (bio_ptr_update (\<lambda>_. Pair_ptr
             \<lparr>peer = None, closed = False, bp_len = 0, bp_offset = 0, bp_size = 17 * 1024, bp_buf = None,
              request = 0\<rparr>)) h))"

definition bio_destroy_pair :: "nat \<Rightarrow> bio_store \<Rightarrow> bio_store" where
  "bio_destroy_pair b h =
     (if bio_ptr (bio_at h b) = Null_ptr then h
      else (case peer (pair_at h b) of
         None \<Rightarrow> h
       | Some pb \<Rightarrow>
           let unlink = (\<lambda>c h. upd_bio c (bio_init_update (\<lambda>_. False))
                  (upd_pair c (\<lambda>p. p\<lparr>peer := None, bp_len := 0, bp_offset := 0\<rparr>) h))
           in unlink b (unlink pb h)))"

text \<open>The state of the half and its buffer are released with the BIO, which the caller frees.\<close>

definition bio_free :: "nat \<Rightarrow> bio_store \<Rightarrow> bio_store" where
  "bio_free b h = (if peer (pair_at h b) \<noteq> None then bio_destroy_pair b h else h)"

definition alloc_ring :: "cbb_env \<Rightarrow> nat \<Rightarrow> bio_bio_st \<Rightarrow> bool \<times> bio_bio_st" where
  "alloc_ring env writebuf_len p =
     (if bp_buf p \<noteq> None then (True, p)
      else let p = (if writebuf_len \<noteq> 0 then p\<lparr>bp_size := writebuf_len\<rparr> else p) in
        if \<not> alloc_ok env (bp_size p) then (False, p)
        else (True, p\<lparr>bp_buf := Some (map (uninit env) [0..<bp_size p]), bp_len := 0, bp_offset := 0\<rparr>))"

definition bio_make_pair :: "cbb_env \<Rightarrow> nat \<Rightarrow> nat \<Rightarrow> nat \<Rightarrow> nat \<Rightarrow> bio_store \<Rightarrow> bool \<times> bio_store" where
  "bio_make_pair env bio1 bio2 writebuf1_len writebuf2_len h =
     (if peer (pair_at h bio1) \<noteq> None \<or> peer (pair_at h bio2) \<noteq> None then (False, h)
      else let r1 = alloc_ring env writebuf1_len (pair_at h bio1); h = upd_pair bio1 (\<lambda>_. snd r1) h in
        if \<not> fst r1 then (False, h)
        else let r2 = alloc_ring env writebuf2_len (pair_at h bio2); h = upd_pair bio2 (\<lambda>_. snd r2) h in
          if \<not> fst r2 then (False, h)
          else let link = (\<lambda>c d h. upd_bio c (bio_init_update (\<lambda>_. True))
                  (upd_pair c (\<lambda>p. p\<lparr>peer := Some d, closed := False, request := 0\<rparr>) h))
            in (True, link bio2 bio1 (link bio1 bio2 h)))"

definition bio_ctrl :: "nat \<Rightarrow> int \<Rightarrow> int \<Rightarrow> ctrl_arg \<Rightarrow> bio_store \<Rightarrow> (int \<times> ctrl_out) \<times> bio_store" where
  "bio_ctrl b cmd num arg h =
     (let p = pair_at h b; result = (\<lambda>n. ((n, No_out), h)) in
      if cmd = BIO_C_GET_WRITE_BUF_SIZE then result (to_long (bp_size p))
      else if cmd = BIO_C_GET_WRITE_GUARANTEE then
        result (if peer p = None \<or> closed p then 0 else to_long (size_sub (bp_size p) (bp_len p)))
      else if cmd = BIO_C_GET_READ_REQUEST then result (to_long (request p))
      else if cmd = BIO_C_RESET_READ_REQUEST then ((1, No_out), upd_pair b (request_update (\<lambda>_. 0)) h)
      else if cmd = BIO_C_SHUTDOWN_WR then ((1, No_out), upd_pair b (closed_update (\<lambda>_. True)) h)
      else if cmd = BIO_CTRL_GET_CLOSE then result (bio_shutdown (bio_at h b))
      else if cmd = BIO_CTRL_SET_CLOSE then ((1, No_out), upd_bio b (bio_shutdown_update (\<lambda>_. to_int num)) h)
      else if cmd = BIO_CTRL_PENDING then
        result (case peer p of Some pb \<Rightarrow> to_long (bp_len (pair_at h pb)) | None \<Rightarrow> 0)
      else if cmd = BIO_CTRL_WPENDING then result (if bp_buf p \<noteq> None then to_long (bp_len p) else 0)
      else if cmd = BIO_CTRL_FLUSH then result 1
      else if cmd = BIO_CTRL_EOF then
        result (case arg of
            Bio_arg other \<Rightarrow> if bp_len (pair_at h other) = 0 \<and> closed (pair_at h other) then 1 else 0
          | _ \<Rightarrow> 1)
      else result 0)"

section \<open>The ring as a queue\<close>

definition ring :: "bio_bio_st \<Rightarrow> bytes" where
  "ring p = take (bp_len p) (drop (bp_offset p) (the (bp_buf p)) @ the (bp_buf p))"

definition wf_ring :: "bio_bio_st \<Rightarrow> bool" where
  "wf_ring p \<longleftrightarrow> (\<exists>buf. bp_buf p = Some buf \<and> length buf = bp_size p)
     \<and> bp_len p \<le> bp_size p \<and> bp_offset p < bp_size p \<and> 2 * bp_size p \<le> SIZE_MAX"

lemma length_ring: "wf_ring p \<Longrightarrow> length (ring p) = bp_len p"
  by (auto simp: ring_def wf_ring_def)

text \<open>Reading takes the bytes at the front of the queue, in one round or in two.\<close>

lemma ring_drop_no_wrap:
  assumes "wf_ring p" and "n \<le> bp_len p" and "bp_offset p + n \<le> bp_size p"
  shows "take n (drop (bp_offset p) (the (bp_buf p))) = take n (ring p)"
  using assms by (auto simp: ring_def wf_ring_def min_absorb1)

definition ring_advance :: "nat \<Rightarrow> bio_bio_st \<Rightarrow> bio_bio_st" where
  "ring_advance n p = p\<lparr>bp_len := bp_len p - n, bp_offset :=
     (if bp_len p \<le> n then 0 else if bp_offset p + n = bp_size p then 0 else bp_offset p + n)\<rparr>"

lemma ring_advance:
  assumes "wf_ring p" and "n \<le> bp_len p" and "bp_offset p + n \<le> bp_size p"
  shows "wf_ring (ring_advance n p)" "ring (ring_advance n p) = drop n (ring p)"
proof -
  from assms show "wf_ring (ring_advance n p)"
    by (auto simp: wf_ring_def ring_advance_def)
  from assms show "ring (ring_advance n p) = drop n (ring p)"
    by (cases "bp_offset p + n = bp_size p")
      (auto simp: wf_ring_def ring_advance_def ring_def drop_take add.commute
        intro!: arg_cong [where f = "\<lambda>k. take k x" for x])
qed

lemma bio_read_loop_step:
  assumes "wf_ring p" and "rest \<le> bp_len p"
  shows "bio_read_loop rest p =
    (let n = min rest (bp_size p - bp_offset p) in
     if rest - n \<noteq> 0
     then Option.bind (bio_read_loop (rest - n) (ring_advance n p)) (\<lambda>r. Some (take n (ring p) @ fst r, snd r))
     else Some (take n (ring p), ring_advance n p))"
proof -
  define n where "n = min rest (bp_size p - bp_offset p)"
  have "size_add (bp_offset p) rest = bp_offset p + rest"
    using assms by (intro size_add_exact) (auto simp: wf_ring_def)
  then have chunk: "(if size_add (bp_offset p) rest \<le> bp_size p then rest else bp_size p - bp_offset p) = n"
    using assms(1) by (auto simp: wf_ring_def n_def)
  have taken: "take n (drop (bp_offset p) (the (bp_buf p))) = take n (ring p)"
    using assms by (intro ring_drop_no_wrap) (auto simp: wf_ring_def n_def)
  have "bio_read_loop rest p =
    (if rest - n \<noteq> 0
     then Option.bind (bio_read_loop (rest - n) (ring_advance n p)) (\<lambda>r. Some (take n (ring p) @ fst r, snd r))
     else Some (take n (ring p), ring_advance n p))"
    unfolding bio_read_loop.simps [of rest p] chunk taken Let_def ring_advance_def by simp
  then show ?thesis by (simp add: n_def Let_def)
qed

lemma bio_read_loop_once:
  assumes "wf_ring p" and "rest \<le> bp_len p" and "bp_offset p + rest \<le> bp_size p"
  shows "bio_read_loop rest p = Some (take rest (ring p), ring_advance rest p)"
  using assms(3) by (subst bio_read_loop_step [OF assms(1,2)]) (simp add: min_absorb1 Let_def)

lemma bio_read_loop_exact:
  assumes "wf_ring p" and "rest \<le> bp_len p"
  obtains p' where "bio_read_loop rest p = Some (take rest (ring p), p')" and "wf_ring p'"
    and "ring p' = drop rest (ring p)" and "p' = p\<lparr>bp_len := bp_len p - rest, bp_offset := bp_offset p'\<rparr>"
proof (cases "bp_offset p + rest \<le> bp_size p")
  case True
  from bio_read_loop_once [OF assms True] ring_advance [OF assms True] show thesis by (rule that) (simp add: ring_advance_def)
next
  case False
  define n where "n = bp_size p - bp_offset p"
  have n: "n \<le> bp_len p" "bp_offset p + n \<le> bp_size p" "0 < n" "n < rest"
    using False assms by (auto simp: n_def wf_ring_def)
  define q where "q = ring_advance n p"
  note q = ring_advance [OF assms(1) n(1,2), folded q_def]
  have frame: "bp_len q = bp_len p - n" "bp_offset q = 0" "bp_size q = bp_size p"
    using n assms by (simp_all add: q_def ring_advance_def n_def)
  have rest: "rest - n \<le> bp_len q" "bp_offset q + (rest - n) \<le> bp_size q"
    using assms n frame by (auto simp: wf_ring_def)
  note second = bio_read_loop_once [OF q(1) rest]
  have "bio_read_loop rest p = Some (take n (ring p) @ take (rest - n) (ring q), ring_advance (rest - n) q)"
    using n by (subst bio_read_loop_step [OF assms]) (simp add: n_def [symmetric] Let_def min_absorb2 second q_def [symmetric])
  moreover have "take n (ring p) @ take (rest - n) (ring q) = take rest (ring p)"
    using n by (simp add: q(2) flip: take_add)
  ultimately have "bio_read_loop rest p = Some (take rest (ring p), ring_advance (rest - n) q)" by simp
  from this ring_advance(1) [OF q(1) rest] show thesis
  proof (rule that)
    from n show "ring (ring_advance (rest - n) q) = drop rest (ring p)"
      by (simp add: ring_advance(2) [OF q(1) rest] q(2))
    from n show "ring_advance (rest - n) q =
        p\<lparr>bp_len := bp_len p - rest, bp_offset := bp_offset (ring_advance (rest - n) q)\<rparr>"
      by (simp add: ring_advance_def q_def)
  qed
qed

text \<open>Writing appends to the queue, in one round or in two.\<close>

definition ring_append :: "bytes \<Rightarrow> bio_bio_st \<Rightarrow> bio_bio_st" where
  "ring_append bs p = (let i = bp_offset p + bp_len p; i = (if i \<ge> bp_size p then i - bp_size p else i)
     in p\<lparr>bp_buf := map_option (mem_store i bs) (bp_buf p), bp_len := bp_len p + length bs\<rparr>)"

definition ring_room :: "bio_bio_st \<Rightarrow> nat" where
  "ring_room p = (let i = bp_offset p + bp_len p in if i \<ge> bp_size p then 2 * bp_size p - i else bp_size p - i)"

lemma ring_append:
  assumes "wf_ring p" and "bp_len p + length bs \<le> bp_size p" and "length bs \<le> ring_room p"
  shows "wf_ring (ring_append bs p)" "ring (ring_append bs p) = ring p @ bs"
proof -
  obtain buf where buf: "bp_buf p = Some buf" "length buf = bp_size p" using assms(1) by (auto simp: wf_ring_def)
  from assms buf show "wf_ring (ring_append bs p)"
    by (auto simp: wf_ring_def ring_append_def ring_room_def Let_def)
  show "ring (ring_append bs p) = ring p @ bs"
  proof (cases "bp_offset p + bp_len p < bp_size p")
    case True
    let ?i = "bp_offset p + bp_len p"
    have "drop (bp_offset p) (mem_store ?i bs buf)
        = take (bp_len p) (drop (bp_offset p) buf) @ bs @ drop (?i + length bs) buf"
      using True buf by (simp add: mem_store_def take_drop add.commute)
    with True buf assms show ?thesis
      by (simp add: ring_def ring_append_def wf_ring_def Let_def)
  next
    case False
    let ?i = "bp_offset p + bp_len p - bp_size p"
    have i: "?i + length bs \<le> bp_offset p" using assms False by (auto simp: wf_ring_def)
    then have "drop (bp_offset p) (mem_store ?i bs buf) = drop (bp_offset p) buf"
      using buf assms by (simp add: mem_store_def wf_ring_def)
    moreover have "take (?i + length bs) (mem_store ?i bs buf) = take ?i buf @ bs"
      using i buf assms by (simp add: wf_ring_def)
    ultimately show ?thesis
      using False buf assms i by (simp add: ring_def ring_append_def wf_ring_def Let_def ac_simps)
  qed
qed

lemma bio_write_loop_step:
  assumes "wf_ring p" and "bp_len p + length src \<le> bp_size p"
  shows "bio_write_loop src p =
    (let n = min (length src) (ring_room p) in
     if length src - n \<noteq> 0 then bio_write_loop (drop n src) (ring_append (take n src) p)
     else Some (ring_append (take n src) p))"
proof -
  define n where "n = min (length src) (ring_room p)"
  define i where "i = (if bp_size p \<le> bp_offset p + bp_len p then bp_offset p + bp_len p - bp_size p
    else bp_offset p + bp_len p)"
  have sum: "size_add (bp_offset p) (bp_len p) = bp_offset p + bp_len p"
    using assms by (intro size_add_exact) (auto simp: wf_ring_def)
  have "size_add i (length src) = i + length src"
    using assms by (intro size_add_exact) (auto simp: wf_ring_def i_def)
  then have chunk: "(if size_add i (length src) \<le> bp_size p then length src else bp_size p - i) = n"
    using assms by (auto simp: wf_ring_def n_def i_def ring_room_def Let_def)
  have "bio_write_loop src p =
    (if length src - n \<noteq> 0 then bio_write_loop (drop n src) (ring_append (take n src) p)
     else Some (ring_append (take n src) p))"
    unfolding bio_write_loop.simps [of src p] sum Let_def i_def [symmetric] chunk ring_append_def
    by (simp add: n_def min_absorb2 add.commute)
  then show ?thesis by (simp add: n_def Let_def)
qed

lemma bio_write_loop_once:
  assumes "wf_ring p" and "bp_len p + length src \<le> bp_size p" and "length src \<le> ring_room p"
  shows "bio_write_loop src p = Some (ring_append src p)"
  using assms(3) by (subst bio_write_loop_step [OF assms(1,2)]) (simp add: min_absorb1 Let_def)

lemma bio_write_loop_exact:
  assumes "wf_ring p" and "bp_len p + length src \<le> bp_size p"
  obtains p' where "bio_write_loop src p = Some p'" and "wf_ring p'" and "ring p' = ring p @ src"
    and "p' = p\<lparr>bp_buf := bp_buf p', bp_len := bp_len p + length src\<rparr>"
proof (cases "length src \<le> ring_room p")
  case True
  note bio_write_loop_once [OF assms True] ring_append [OF assms True]
  then show thesis by (rule that) (simp add: ring_append_def Let_def)
next
  case False
  define n where "n = ring_room p"
  define q where "q = ring_append (take n src) p"
  have n: "n < length src" "length (take n src) = n" using False by (simp_all add: n_def)
  have "bp_len p + length (take n src) \<le> bp_size p" "length (take n src) \<le> ring_room p"
    using n assms(2) by (simp_all add: n_def)
  note q = ring_append [OF assms(1) this, folded q_def]
  have frame: "bp_len q = bp_len p + n" "bp_size q = bp_size p" "bp_offset q = bp_offset p"
    using n by (simp_all add: q_def ring_append_def Let_def)
  have rest: "bp_len q + length (drop n src) \<le> bp_size q" "length (drop n src) \<le> ring_room q"
    using n assms frame by (auto simp: wf_ring_def n_def ring_room_def Let_def split: if_splits)
  have "bio_write_loop src p = Some (ring_append (drop n src) q)"
    using n False by (subst bio_write_loop_step [OF assms])
      (simp add: n_def [symmetric] Let_def min_absorb2 bio_write_loop_once [OF q(1) rest] q_def [symmetric])
  from this ring_append(1) [OF q(1) rest] show thesis
  proof (rule that)
    show "ring (ring_append (drop n src) q) = ring p @ src"
      by (simp add: ring_append(2) [OF q(1) rest] q(2))
    from n show "ring_append (drop n src) q =
        p\<lparr>bp_buf := bp_buf (ring_append (drop n src) q), bp_len := bp_len p + length src\<rparr>"
      by (simp add: ring_append_def q_def Let_def)
  qed
qed

end
