(* ===== verification/Bio_Mem.thy ===== *)
theory Bio_Mem
  imports Bio_Store
begin

text \<open>
  The method of a memory BIO, \<open>crypto/bio/bio_mem.c\<close>: a \<open>BUF_MEM\<close> that writes append to and
  reads take the front of; a read-only one moves along a buffer of the caller. The bytes a read
  leaves in the output are part of the result. Pointers to data are not NULL.
\<close>

section \<open>The operations\<close>

definition mem_new :: "cbb_env \<Rightarrow> nat \<Rightarrow> bio_store \<Rightarrow> bool \<times> bio_store" where
  "mem_new env b h =
     (case BUF_MEM_new env of
        None \<Rightarrow> (False, h)
      | Some m \<Rightarrow>
          let a = next_address h;
              h = h\<lparr>buf_mems := (buf_mems h)(a := Some m), next_address := a + 1\<rparr>
          in (True, upd_bio b (\<lambda>x. x\<lparr>bio_shutdown := 1, bio_init := True, bio_num := - 1, bio_ptr := Mem_ptr a\<rparr>) h))"

text \<open>The data of a read-only BIO belongs to the caller; the \<open>BUF_MEM\<close> itself is released.\<close>

definition mem_free :: "nat \<Rightarrow> bio_store \<Rightarrow> bio_store" where
  "mem_free b h =
     (let x = bio_at h b in
      if bio_shutdown x = 0 \<or> \<not> bio_init x \<or> bio_ptr x = Null_ptr then h
      else upd_bio b (bio_ptr_update (\<lambda>_. Null_ptr))
             (h\<lparr>buf_mems := (buf_mems h)(the_mem (bio_ptr x) := None)\<rparr>))"

definition mem_read :: "nat \<Rightarrow> int \<Rightarrow> bio_store \<Rightarrow> (int \<times> bytes) \<times> bio_store" where
  "mem_read b outl h =
     (let h = upd_bio b BIO_clear_retry_flags h in
      if outl \<le> 0 then ((0, []), h)
      else let m = mem_at h b;
               n = (if outl > int (bm_length m) then int (bm_length m) else outl) in
        if n > 0 then
          let k = nat n;
              data = the (bm_data m);
              out = take k (drop (bm_start m) data);
              m1 = m\<lparr>bm_length := bm_length m - k\<rparr>;
              m2 = (if bio_flags (bio_at h b) AND BIO_FLAGS_MEM_RDONLY \<noteq> 0
                    then m1\<lparr>bm_start := bm_start m + k\<rparr>
                    else mem_write_at 0 (take (bm_length m - k) (drop (bm_start m + k) data)) m1)
          in ((n, out), set_mem b m2 h)
        else if bm_length m = 0 then
          let n = bio_num (bio_at h b)
          in ((n, []), if n \<noteq> 0 then upd_bio b BIO_set_retry_read h else h)
        else ((n, []), h))"

definition mem_write :: "cbb_env \<Rightarrow> nat \<Rightarrow> bytes \<Rightarrow> bio_store \<Rightarrow> int \<times> bio_store" where
  "mem_write env b src h =
     (let h = upd_bio b BIO_clear_retry_flags h in
      if src = [] then (0, h)
      else if bio_flags (bio_at h b) AND BIO_FLAGS_MEM_RDONLY \<noteq> 0 then (- 1, h)
      else (case BUF_MEM_append env src (mem_at h b) of
              (False, m) \<Rightarrow> (- 1, set_mem b m h)
            | (True, m) \<Rightarrow> (int (length src), set_mem b m h)))"

definition line_length :: "bytes \<Rightarrow> int \<Rightarrow> int" where
  "line_length bs n = (case OPENSSL_memchr bs 0x0a of Some i \<Rightarrow> int i + 1 | None \<Rightarrow> n)"

definition mem_gets :: "nat \<Rightarrow> int \<Rightarrow> bio_store \<Rightarrow> (int \<times> bytes) \<times> bio_store" where
  "mem_gets b sz h =
     (let h = upd_bio b BIO_clear_retry_flags h in
      if sz \<le> 0 then ((0, []), h)
      else let m = mem_at h b;
               n = (if sz - 1 > int (bm_length m) then int (bm_length m) else sz - 1);
               line = (case bm_data m of None \<Rightarrow> [] | Some data \<Rightarrow> take (nat n) (drop (bm_start m) data));
               r = mem_read b (line_length line n) h
           in if fst (fst r) \<ge> 0 then ((fst (fst r), snd (fst r) @ [0]), snd r) else r)"

definition mem_ctrl :: "nat \<Rightarrow> int \<Rightarrow> int \<Rightarrow> ctrl_arg \<Rightarrow> bio_store \<Rightarrow> (int \<times> ctrl_out) \<times> bio_store" where
  "mem_ctrl b cmd num arg h =
     (let m = mem_at h b; rdonly = bio_flags (bio_at h b) AND BIO_FLAGS_MEM_RDONLY \<noteq> 0 in
      if cmd = BIO_CTRL_RESET then
        ((1, No_out),
         if bm_data m = None then h
         else if rdonly then
           set_mem b (m\<lparr>bm_start := bm_start m - (bm_max m - bm_length m), bm_length := bm_max m\<rparr>) h
         else set_mem b ((mem_write_at 0 (replicate (bm_max m) 0) m)\<lparr>bm_length := 0\<rparr>) h)
      else if cmd = BIO_CTRL_EOF then ((if bm_length m = 0 then 1 else 0, No_out), h)
      else if cmd = BIO_C_SET_BUF_MEM_EOF_RETURN then ((1, No_out), upd_bio b (bio_num_update (\<lambda>_. to_int num)) h)
      else if cmd = BIO_CTRL_INFO then
        ((to_long (bm_length m),
          if arg = Out_arg then Data_out (map_option (drop (bm_start m)) (bm_data m)) else No_out), h)
      else if cmd = BIO_C_SET_BUF_MEM then
        ((1, No_out), upd_bio b (\<lambda>x. x\<lparr>bio_shutdown := to_int num,
            bio_ptr := (case arg of Buf_arg a \<Rightarrow> Mem_ptr a | _ \<Rightarrow> Null_ptr)\<rparr>) (mem_free b h))
      else if cmd = BIO_C_GET_BUF_MEM_PTR then
        ((1, if arg = Out_arg then Buf_out (the_mem (bio_ptr (bio_at h b))) else No_out), h)
      else if cmd = BIO_CTRL_GET_CLOSE then ((bio_shutdown (bio_at h b), No_out), h)
      else if cmd = BIO_CTRL_SET_CLOSE then ((1, No_out), upd_bio b (bio_shutdown_update (\<lambda>_. to_int num)) h)
      else if cmd = BIO_CTRL_WPENDING then ((0, No_out), h)
      else if cmd = BIO_CTRL_PENDING then ((to_long (bm_length m), No_out), h)
      else if cmd = BIO_CTRL_FLUSH then ((1, No_out), h)
      else ((0, No_out), h))"

section \<open>A memory BIO as a byte stream\<close>

definition rdonly :: "bio \<Rightarrow> bool" where
  "rdonly x \<longleftrightarrow> bio_flags x AND BIO_FLAGS_MEM_RDONLY \<noteq> 0"

text \<open>A read-only BIO stands somewhere in its buffer; another owns a buffer it can grow.\<close>

definition wf_rdonly_mem :: "buf_mem \<Rightarrow> bool" where
  "wf_rdonly_mem m \<longleftrightarrow> bm_start m + bm_length m = bm_max m \<and> bm_max m \<le> SIZE_MAX
     \<and> (case bm_data m of None \<Rightarrow> bm_max m = 0 | Some d \<Rightarrow> bm_max m \<le> length d)"

definition mem_bio :: "bio_store \<Rightarrow> nat \<Rightarrow> bool" where
  "mem_bio h b \<longleftrightarrow> (\<exists>x a m. bios h b = Some x \<and> meth x = mem_method \<and> bio_init x \<and> bio_ptr x = Mem_ptr a
     \<and> buf_mems h a = Some m \<and> (if rdonly x then wf_rdonly_mem m else wf_buf_mem m))"

definition mem_content :: "bio_store \<Rightarrow> nat \<Rightarrow> bytes" where
  "mem_content h b = mem_bytes (mem_at h b)"

lemma flags_clear_retry [simp]:
  "bio_flags (BIO_clear_retry_flags x) AND BIO_FLAGS_MEM_RDONLY = bio_flags x AND BIO_FLAGS_MEM_RDONLY"
proof -
  have "NOT kRetryFlags AND BIO_FLAGS_MEM_RDONLY = BIO_FLAGS_MEM_RDONLY" by (simp add: bio_flag_defs BIO_FLAGS_MEM_RDONLY_def)
  then show ?thesis by (simp add: BIO_clear_retry_flags_def and.assoc)
qed

lemma flags_set_retry_read [simp]:
  "bio_flags (BIO_set_retry_read x) AND BIO_FLAGS_MEM_RDONLY = bio_flags x AND BIO_FLAGS_MEM_RDONLY"
proof -
  have "(BIO_FLAGS_READ OR BIO_FLAGS_SHOULD_RETRY) AND BIO_FLAGS_MEM_RDONLY = 0" by (simp add: bio_flag_defs BIO_FLAGS_MEM_RDONLY_def)
  then show ?thesis by (simp add: BIO_set_retry_read_def bit.conj_disj_distrib2)
qed

lemma mem_at_set_mem [simp]: "mem_at (set_mem b m h) b = m"
  by (simp add: mem_at_def set_mem_def bio_at_def)

lemma bio_at_set_mem [simp]: "bio_at (set_mem b m h) c = bio_at h c"
  by (simp add: set_mem_def bio_at_def)

lemma bios_set_mem [simp]: "bios (set_mem b m h) = bios h"
  by (simp add: set_mem_def)

lemma mem_at_upd_bio [simp]:
  "bio_ptr (f (bio_at h b)) = bio_ptr (bio_at h b) \<Longrightarrow> mem_at (upd_bio b f h) b = mem_at h b"
  by (simp add: mem_at_def)

lemma mem_bio_upd_bio [simp]:
  assumes "bio_ptr (f (bio_at h b)) = bio_ptr (bio_at h b)" "meth (f (bio_at h b)) = meth (bio_at h b)"
    "bio_init (f (bio_at h b)) = bio_init (bio_at h b)" "rdonly (f (bio_at h b)) = rdonly (bio_at h b)"
    and "mem_bio h b"
  shows "mem_bio (upd_bio b f h) b"
  using assms by (auto simp: mem_bio_def bio_at_def)

lemma clear_retry_frame [simp]:
  "bio_ptr (BIO_clear_retry_flags x) = bio_ptr x" "meth (BIO_clear_retry_flags x) = meth x"
  "bio_init (BIO_clear_retry_flags x) = bio_init x" "bio_num (BIO_clear_retry_flags x) = bio_num x"
  "rdonly (BIO_clear_retry_flags x) = rdonly x"
  by (simp_all add: rdonly_def) (simp_all add: BIO_clear_retry_flags_def)

lemma set_retry_frame [simp]:
  "bio_ptr (BIO_set_retry_read x) = bio_ptr x" "meth (BIO_set_retry_read x) = meth x"
  "bio_init (BIO_set_retry_read x) = bio_init x" "bio_num (BIO_set_retry_read x) = bio_num x"
  "rdonly (BIO_set_retry_read x) = rdonly x"
  by (simp_all add: rdonly_def) (simp_all add: BIO_set_retry_read_def)

definition wf_mem :: "bool \<Rightarrow> buf_mem \<Rightarrow> bool" where
  "wf_mem ro m \<longleftrightarrow> (if ro then wf_rdonly_mem m else wf_buf_mem m)"

lemma mem_bio_wf: "mem_bio h b \<Longrightarrow> wf_mem (rdonly (bio_at h b)) (mem_at h b)"
  by (auto simp: mem_bio_def mem_at_def bio_at_def wf_mem_def)

lemma mem_bio_set_mem: "mem_bio h b \<Longrightarrow> wf_mem (rdonly (bio_at h b)) m \<Longrightarrow> mem_bio (set_mem b m h) b"
  by (auto simp: mem_bio_def set_mem_def bio_at_def wf_mem_def)

lemma length_mem_content: "mem_bio h b \<Longrightarrow> length (mem_content h b) = bm_length (mem_at h b)"
  by (drule mem_bio_wf)
    (auto simp: mem_content_def wf_mem_def wf_rdonly_mem_def wf_buf_mem_def mem_bytes_def split: option.splits if_splits)

text \<open>Taking bytes from the front, which a writable BIO moves down and a read-only BIO steps over.\<close>

definition mem_take :: "bool \<Rightarrow> nat \<Rightarrow> buf_mem \<Rightarrow> buf_mem" where
  "mem_take ro k m = (let m1 = m\<lparr>bm_length := bm_length m - k\<rparr>
     in if ro then m1\<lparr>bm_start := bm_start m + k\<rparr>
        else mem_write_at 0 (take (bm_length m - k) (drop (bm_start m + k) (the (bm_data m)))) m1)"

lemma mem_take_ok:
  assumes "wf_mem ro m" and "0 < k" and "k \<le> bm_length m"
  shows "wf_mem ro (mem_take ro k m)" "mem_bytes (mem_take ro k m) = drop k (mem_bytes m)"
    "take k (drop (bm_start m) (the (bm_data m))) = take k (mem_bytes m)"
proof -
  have "bm_data m \<noteq> None" using assms
    by (auto simp: wf_mem_def wf_rdonly_mem_def wf_buf_mem_def split: option.splits if_splits)
  then obtain d where d: "bm_data m = Some d" by blast
  from assms d show "wf_mem ro (mem_take ro k m)"
    by (auto simp: mem_take_def Let_def wf_mem_def wf_rdonly_mem_def wf_buf_mem_def mem_write_at_def)
  from assms d show "mem_bytes (mem_take ro k m) = drop k (mem_bytes m)"
    by (auto simp: mem_take_def Let_def wf_mem_def wf_rdonly_mem_def wf_buf_mem_def mem_write_at_def mem_bytes_def
        mem_store_def drop_take add.commute min_absorb2)
  from assms d show "take k (drop (bm_start m) (the (bm_data m))) = take k (mem_bytes m)"
    by (simp add: mem_bytes_def min_absorb1)
qed

lemma mem_read_exact:
  assumes "mem_bio h b" and "mem_read b outl h = ((n, out), h')"
  shows "mem_bio h' b \<and> rdonly (bio_at h' b) = rdonly (bio_at h b) \<and> bio_num (bio_at h' b) = bio_num (bio_at h b)
    \<and> out = take (nat outl) (mem_content h b) \<and> mem_content h' b = drop (nat outl) (mem_content h b)
    \<and> n = (if 0 < outl \<and> mem_content h b = [] then bio_num (bio_at h b) else int (length out))"
proof -
  let ?h = "upd_bio b BIO_clear_retry_flags h"
  have 1: "mem_bio ?h b" "mem_content ?h b = mem_content h b" "mem_at ?h b = mem_at h b"
    using assms(1) by (simp_all add: mem_content_def)
  note len = length_mem_content [OF assms(1)]
  consider "outl \<le> 0" | "0 < outl" "mem_content h b = []" | "0 < outl" "mem_content h b \<noteq> []" by linarith
  then show ?thesis
  proof cases
    case 1
    with assms \<open>mem_bio ?h b\<close> show ?thesis by (auto simp: mem_read_def Let_def mem_content_def)
  next
    case 2
    with assms \<open>mem_bio ?h b\<close> len show ?thesis
      by (auto simp: mem_read_def Let_def mem_content_def split: if_splits)
  next
    case 3
    define k where "k = min (nat outl) (bm_length (mem_at h b))"
    let ?ro = "rdonly (bio_at h b)"
    have k: "0 < k" "k \<le> bm_length (mem_at h b)"
      "(if outl > int (bm_length (mem_at h b)) then int (bm_length (mem_at h b)) else outl) = int k"
      using 3 len by (simp_all add: k_def flip: length_greater_0_conv)
    note t = mem_take_ok [OF mem_bio_wf [OF assms(1)] k(1,2)]
    have r: "mem_read b outl h = ((int k, take k (mem_content h b)), set_mem b (mem_take ?ro k (mem_at h b)) ?h)"
      unfolding mem_read_def Let_def 1(3) k(3) nat_int t(3) mem_take_def rdonly_def mem_content_def
      using 3(1) k(1) by simp
    have eqs: "n = int k" "out = take k (mem_content h b)" "h' = set_mem b (mem_take ?ro k (mem_at h b)) ?h"
      using assms(2) r by simp_all
    have "take k (mem_content h b) = take (nat outl) (mem_content h b)" "drop k (mem_content h b) = drop (nat outl) (mem_content h b)"
      using len by (simp_all add: k_def min_def)
    moreover have "length (take k (mem_content h b)) = k" using k len by simp
    moreover have "mem_bio h' b" unfolding eqs by (intro mem_bio_set_mem 1) (simp add: t(1))
    ultimately show ?thesis using 3 t(2) unfolding eqs by (simp add: mem_content_def)
  qed
qed

lemma mem_write_exact:
  assumes "mem_bio h b" and "length src \<le> SIZE_MAX" and "mem_write env b src h = (n, h')"
  shows "mem_bio h' b \<and> rdonly (bio_at h' b) = rdonly (bio_at h b) \<and> bio_num (bio_at h' b) = bio_num (bio_at h b)
    \<and> (n = int (length src) \<and> mem_content h' b = mem_content h b @ src \<or> n = - 1 \<and> mem_content h' b = mem_content h b)
    \<and> (rdonly (bio_at h b) \<longrightarrow> n = (if src = [] then 0 else - 1))"
proof -
  let ?h = "upd_bio b BIO_clear_retry_flags h"
  have 1: "mem_bio ?h b" "mem_at ?h b = mem_at h b" using assms(1) by simp_all
  show ?thesis
  proof (cases "src = [] \<or> rdonly (bio_at h b)")
    case True
    with 1 assms show ?thesis by (auto simp: mem_write_def Let_def mem_content_def rdonly_def split: if_splits)
  next
    case False
    obtain ok m where m: "BUF_MEM_append env src (mem_at h b) = (ok, m)" by fastforce
    have "wf_buf_mem (mem_at h b)" using mem_bio_wf [OF assms(1)] False by (simp add: wf_mem_def)
    note BUF_MEM_append_ok [OF this assms(2) m]
    moreover have "n = (if ok then int (length src) else - 1)" "h' = set_mem b m ?h"
      using False m assms(3) 1 by (auto simp: mem_write_def Let_def rdonly_def split: bool.splits)
    ultimately show ?thesis using False 1
      by (auto simp: mem_content_def wf_mem_def intro!: mem_bio_set_mem)
  qed
qed

text \<open>A line: up to and including the first newline, or everything.\<close>

fun first_line :: "bytes \<Rightarrow> bytes" where
  "first_line [] = []"
| "first_line (c # cs) = (if c = 0x0a then [c] else c # first_line cs)"

lemma line_length_first_line: "line_length bs (int (length bs)) = int (length (first_line bs))"
  by (induction bs) (auto simp: line_length_def split: option.splits)

lemma first_line_prefix: "take (length (first_line bs)) bs = first_line bs"
  by (induction bs) auto

lemma mem_gets_exact:
  assumes "mem_bio h b" and "mem_gets b sz h = ((n, out), h')" and "0 < sz"
  shows "mem_bio h' b \<and> out = first_line (take (nat (sz - 1)) (mem_content h b)) @ [0]
    \<and> n = int (length (first_line (take (nat (sz - 1)) (mem_content h b))))
    \<and> mem_content h b = first_line (take (nat (sz - 1)) (mem_content h b)) @ mem_content h' b"
proof -
  let ?h = "upd_bio b BIO_clear_retry_flags h"
  have 1: "mem_bio ?h b" "mem_content ?h b = mem_content h b" "mem_at ?h b = mem_at h b"
    using assms(1) by (simp_all add: mem_content_def)
  define s where "s = take (nat (sz - 1)) (mem_content h b)"
  have n: "(if sz - 1 > int (bm_length (mem_at h b)) then int (bm_length (mem_at h b)) else sz - 1) = int (length s)"
    using assms(3) length_mem_content [OF assms(1)] by (auto simp: s_def)
  have s: "(case bm_data (mem_at h b) of None \<Rightarrow> [] | Some data \<Rightarrow> take (length s) (drop (bm_start (mem_at h b)) data)) = s"
    using length_mem_content [OF assms(1)]
    by (auto simp: s_def mem_content_def mem_bytes_def min_def split: option.splits)
  obtain k out' h1 where r: "mem_read b (int (length (first_line s))) ?h = ((k, out'), h1)" by (metis prod.exhaust)
  note e = mem_read_exact [OF 1(1) r, unfolded 1]
  have pre: "take (length (first_line s)) (mem_content h b) = first_line s"
    using first_line_prefix [of s] by (simp add: s_def take_take min_def split: if_splits)
  have "k = int (length (first_line s))"
  proof (cases "mem_content h b = []")
    case True
    with e show ?thesis by (simp add: s_def)
  next
    case False
    with e pre show ?thesis by simp
  qed
  moreover have "out' = first_line s" "mem_content h1 b = drop (length (first_line s)) (mem_content h b)"
    using e pre by simp_all
  moreover have "mem_gets b sz h = (if k \<ge> 0 then ((k, out' @ [0]), h1) else ((k, out'), h1))"
    unfolding mem_gets_def Let_def 1(3) n nat_int s line_length_first_line r
    using assms(3) by simp
  ultimately show ?thesis
    using assms(2) e pre append_take_drop_id [of "length (first_line s)" "mem_content h b"] by (simp add: s_def)
qed

end
