(* ===== verification/Stack.thy ===== *)
theory Stack
  imports Comparator
begin

text \<open>
  Pointer stacks (\<open>crypto/stack/stack.c\<close>), definitions. A pointer to an element is an option,
  \<open>None\<close> for \<open>NULL\<close>, and pointer equality is equality. \<open>sk_data\<close> holds the \<open>num\<close> valid
  pointers, so that \<open>num\<close> is its length; the rest of the allocation has no defined contents.
  A handle is an option too, because every function takes the null handle. The type-erased
  callbacks (\<open>call_cmp_func\<close> and its like) are parameters.
\<close>

section \<open>State\<close>

type_synonym 'p ptr = "'p option"

record ('p, 'c) stack =
  sk_data :: "'p ptr list"
  sk_sorted :: bool
  num_alloc :: nat
  sk_comp :: "'c option"

type_synonym ('p, 'c) stack_handle = "('p, 'c) stack option"

definition kMinSize :: nat where "kMinSize = 4"
definition sizeof_ptr :: nat where "sizeof_ptr = 8"
definition sizeof_stack :: nat where "sizeof_stack = 40"

definition OPENSSL_sk_new :: "(nat \<Rightarrow> bool) \<Rightarrow> 'c option \<Rightarrow> ('p, 'c) stack_handle" where
  "OPENSSL_sk_new alloc_ok cmpf =
     (if \<not> alloc_ok sizeof_stack then None
      else if \<not> alloc_ok (kMinSize * sizeof_ptr) then None
      else Some \<lparr>sk_data = [], sk_sorted = False, num_alloc = kMinSize, sk_comp = cmpf\<rparr>)"

definition OPENSSL_sk_new_null :: "(nat \<Rightarrow> bool) \<Rightarrow> ('p, 'c) stack_handle" where
  "OPENSSL_sk_new_null alloc_ok = OPENSSL_sk_new alloc_ok None"

definition OPENSSL_sk_num :: "('p, 'c) stack_handle \<Rightarrow> nat" where
  "OPENSSL_sk_num h = (case h of None \<Rightarrow> 0 | Some sk \<Rightarrow> length (sk_data sk))"

definition OPENSSL_sk_zero :: "('p, 'c) stack_handle \<Rightarrow> ('p, 'c) stack_handle" where
  "OPENSSL_sk_zero h =
     (case h of None \<Rightarrow> None
      | Some sk \<Rightarrow> if sk_data sk = [] then h else Some (sk\<lparr>sk_data := [], sk_sorted := False\<rparr>))"

definition OPENSSL_sk_value :: "('p, 'c) stack_handle \<Rightarrow> nat \<Rightarrow> 'p ptr" where
  "OPENSSL_sk_value h i =
     (case h of None \<Rightarrow> None
      | Some sk \<Rightarrow> if length (sk_data sk) \<le> i then None else sk_data sk ! i)"

definition OPENSSL_sk_set ::
  "('p, 'c) stack_handle \<Rightarrow> nat \<Rightarrow> 'p ptr \<Rightarrow> 'p ptr \<times> ('p, 'c) stack_handle" where
  "OPENSSL_sk_set h i v =
     (case h of None \<Rightarrow> (None, h)
      | Some sk \<Rightarrow> if length (sk_data sk) \<le> i then (None, h)
                   else (v, Some (sk\<lparr>sk_data := (sk_data sk)[i := v]\<rparr>)))"

text \<open>The elements that are passed to the free function, in order; the stack is gone.\<close>

definition OPENSSL_sk_pop_free_ex :: "('p, 'c) stack_handle \<Rightarrow> 'p list" where
  "OPENSSL_sk_pop_free_ex h =
     (case h of None \<Rightarrow> [] | Some sk \<Rightarrow> [p. Some p \<leftarrow> sk_data sk])"

section \<open>Insertion and deletion\<close>

text \<open>The growth of the allocation: \<open>None\<close> where the sizes overflow, else the new capacity.\<close>

definition sk_grow :: "nat \<Rightarrow> nat option" where
  "sk_grow n =
     (let new_alloc = size_mul n 2;
          alloc_size = size_mul new_alloc sizeof_ptr;
          new_alloc = (if new_alloc < n \<or> alloc_size div sizeof_ptr \<noteq> new_alloc
                       then size_add n 1 else new_alloc);
          alloc_size = size_mul new_alloc sizeof_ptr
      in if new_alloc < n \<or> alloc_size div sizeof_ptr \<noteq> new_alloc then None else Some new_alloc)"

definition sk_reserve :: "(nat \<Rightarrow> bool) \<Rightarrow> ('p, 'c) stack \<Rightarrow> ('p, 'c) stack option" where
  "sk_reserve alloc_ok sk =
     (if num_alloc sk \<le> length (sk_data sk) + 1 then
        (case sk_grow (num_alloc sk) of
           None \<Rightarrow> None
         | Some new_alloc \<Rightarrow>
             if alloc_ok (size_mul new_alloc sizeof_ptr) then Some (sk\<lparr>num_alloc := new_alloc\<rparr>)
             else None)
      else Some sk)"

definition OPENSSL_sk_insert ::
  "(nat \<Rightarrow> bool) \<Rightarrow> ('p, 'c) stack_handle \<Rightarrow> 'p ptr \<Rightarrow> nat \<Rightarrow> nat \<times> ('p, 'c) stack_handle" where
  "OPENSSL_sk_insert alloc_ok h p pos =
     (case h of None \<Rightarrow> (0, h)
      | Some sk \<Rightarrow>
          if INT_MAX \<le> length (sk_data sk) then (0, h)
          else case sk_reserve alloc_ok sk of
            None \<Rightarrow> (0, h)
          | Some sk \<Rightarrow>
              let data =
                (if length (sk_data sk) \<le> pos then sk_data sk @ [p]
                 else take pos (sk_data sk) @ [p] @ drop pos (sk_data sk))
              in (length data, Some (sk\<lparr>sk_data := data, sk_sorted := False\<rparr>)))"

definition OPENSSL_sk_delete ::
  "('p, 'c) stack_handle \<Rightarrow> nat \<Rightarrow> 'p ptr \<times> ('p, 'c) stack_handle" where
  "OPENSSL_sk_delete h pos =
     (case h of None \<Rightarrow> (None, h)
      | Some sk \<Rightarrow>
          if length (sk_data sk) \<le> pos then (None, h)
          else (sk_data sk ! pos,
                Some (sk\<lparr>sk_data := take pos (sk_data sk) @ drop (pos + 1) (sk_data sk)\<rparr>)))"

fun find_index_from :: "('a \<Rightarrow> bool) \<Rightarrow> nat \<Rightarrow> 'a list \<Rightarrow> nat option" where
  "find_index_from P i [] = None"
| "find_index_from P i (x # xs) = (if P x then Some i else find_index_from P (i + 1) xs)"

definition OPENSSL_sk_delete_ptr ::
  "('p, 'c) stack_handle \<Rightarrow> 'p ptr \<Rightarrow> 'p ptr \<times> ('p, 'c) stack_handle" where
  "OPENSSL_sk_delete_ptr h p =
     (case h of None \<Rightarrow> (None, h)
      | Some sk \<Rightarrow>
          case find_index_from (\<lambda>x. x = p) 0 (sk_data sk) of
            None \<Rightarrow> (None, h)
          | Some i \<Rightarrow> OPENSSL_sk_delete h i)"

text \<open>The compaction loop of \<open>OPENSSL_sk_delete_if\<close>: \<open>n\<close> elements are left, \<open>i\<close> is read and
  \<open>new_num\<close> written.\<close>

fun delete_if_loop :: "('a \<Rightarrow> bool) \<Rightarrow> nat \<Rightarrow> nat \<Rightarrow> nat \<Rightarrow> 'a list \<Rightarrow> nat \<times> 'a list" where
  "delete_if_loop f 0 i new_num data = (new_num, data)"
| "delete_if_loop f (Suc n) i new_num data =
     (if \<not> f (data ! i) then delete_if_loop f n (i + 1) (new_num + 1) (data[new_num := data ! i])
      else delete_if_loop f n (i + 1) new_num data)"

definition OPENSSL_sk_delete_if ::
  "('p ptr \<Rightarrow> bool) \<Rightarrow> ('p, 'c) stack_handle \<Rightarrow> ('p, 'c) stack_handle" where
  "OPENSSL_sk_delete_if f h =
     (case h of None \<Rightarrow> None
      | Some sk \<Rightarrow>
          let (new_num, data) = delete_if_loop f (length (sk_data sk)) 0 0 (sk_data sk)
          in Some (sk\<lparr>sk_data := take new_num data\<rparr>))"

definition OPENSSL_sk_shift :: "('p, 'c) stack_handle \<Rightarrow> 'p ptr \<times> ('p, 'c) stack_handle" where
  "OPENSSL_sk_shift h =
     (case h of None \<Rightarrow> (None, h)
      | Some sk \<Rightarrow> if sk_data sk = [] then (None, h) else OPENSSL_sk_delete h 0)"

text \<open>The argument \<open>sk->num\<close> is read before \<open>OPENSSL_sk_insert\<close> tests for the null handle.\<close>

definition OPENSSL_sk_push ::
  "(nat \<Rightarrow> bool) \<Rightarrow> ('p, 'c) stack \<Rightarrow> 'p ptr \<Rightarrow> nat \<times> ('p, 'c) stack_handle" where
  "OPENSSL_sk_push alloc_ok sk p = OPENSSL_sk_insert alloc_ok (Some sk) p (length (sk_data sk))"

definition OPENSSL_sk_pop :: "('p, 'c) stack_handle \<Rightarrow> 'p ptr \<times> ('p, 'c) stack_handle" where
  "OPENSSL_sk_pop h =
     (case h of None \<Rightarrow> (None, h)
      | Some sk \<Rightarrow> if sk_data sk = [] then (None, h)
                   else OPENSSL_sk_delete h (length (sk_data sk) - 1))"

definition OPENSSL_sk_dup :: "(nat \<Rightarrow> bool) \<Rightarrow> ('p, 'c) stack_handle \<Rightarrow> ('p, 'c) stack_handle" where
  "OPENSSL_sk_dup alloc_ok h =
     (case h of None \<Rightarrow> None
      | Some sk \<Rightarrow>
          let size = size_mul sizeof_ptr (num_alloc sk) in
          if \<not> alloc_ok sizeof_stack then None
          else if size = 0 \<or> \<not> alloc_ok size then None
          else Some \<lparr>sk_data = sk_data sk, sk_sorted = sk_sorted sk, num_alloc = num_alloc sk,
                     sk_comp = sk_comp sk\<rparr>)"

section \<open>Search\<close>

definition OPENSSL_sk_is_sorted :: "('p, 'c) stack_handle \<Rightarrow> bool" where
  "OPENSSL_sk_is_sorted h =
     (case h of None \<Rightarrow> True
      | Some sk \<Rightarrow> sk_sorted sk \<or> (sk_comp sk \<noteq> None \<and> length (sk_data sk) < 2))"

function binary_search :: "(nat \<Rightarrow> int) \<Rightarrow> nat \<Rightarrow> nat \<Rightarrow> nat option" where
  "binary_search cmp_at lo hi =
     (if lo < hi then
        let mid = lo + (hi - lo - 1) div 2;
            r = cmp_at mid
        in if 0 < r then binary_search cmp_at (mid + 1) hi
           else if r < 0 then binary_search cmp_at lo mid
           else if hi - lo = 1 then Some mid
           else binary_search cmp_at lo (mid + 1)
      else None)"
  by auto
termination
proof (relation "measure (\<lambda>(_, lo, hi). hi - lo)", goal_cases)
  case (2 cmp_at lo hi mid r)
  then show ?case by (simp, linarith)
next
  case (3 cmp_at lo hi mid r)
  then have "(hi - lo - 1) div 2 < hi - lo" by linarith
  with 3 show ?case by simp
next
  case (4 cmp_at lo hi mid r)
  then have "(hi - lo - 1) div 2 + 1 < hi - lo" by linarith
  with 4 show ?case by simp
qed simp

declare binary_search.simps [simp del]

text \<open>The index that is stored to \<open>*out_index\<close>, or \<open>None\<close> where the function returns zero.\<close>

definition OPENSSL_sk_find ::
  "('c \<Rightarrow> 'p ptr \<Rightarrow> 'p ptr \<Rightarrow> int) \<Rightarrow> ('p, 'c) stack_handle \<Rightarrow> 'p ptr \<Rightarrow> nat option" where
  "OPENSSL_sk_find call_cmp h p =
     (case h of None \<Rightarrow> None
      | Some sk \<Rightarrow>
          (case sk_comp sk of
             None \<Rightarrow> find_index_from (\<lambda>x. x = p) 0 (sk_data sk)
           | Some cmpf \<Rightarrow>
               if p = None then None
               else if \<not> OPENSSL_sk_is_sorted h then
                 find_index_from (\<lambda>x. call_cmp cmpf p x = 0) 0 (sk_data sk)
               else binary_search (\<lambda>i. call_cmp cmpf p (sk_data sk ! i)) 0 (length (sk_data sk))))"

section \<open>Sorting\<close>

definition parent_idx :: "nat \<Rightarrow> nat" where
  "parent_idx idx = (idx - 1) div 2"

definition left_idx :: "nat \<Rightarrow> nat" where
  "left_idx idx = 2 * idx + 1"

definition swap_at :: "nat \<Rightarrow> nat \<Rightarrow> 'a list \<Rightarrow> 'a list" where
  "swap_at i j data = data[i := data ! j, j := data ! i]"

text \<open>The choice of the child to swap with, then the loop.\<close>

definition down_heap_next :: "('a \<Rightarrow> 'a \<Rightarrow> int) \<Rightarrow> 'a list \<Rightarrow> nat \<Rightarrow> nat \<Rightarrow> nat" where
  "down_heap_next cmp data i num =
     (let left = left_idx i;
          next = i;
          next = (if cmp (data ! next) (data ! left) < 0 then left else next);
          right = left + 1
      in if right < num \<and> cmp (data ! next) (data ! right) < 0 then right else next)"

lemma down_heap_next_cases:
  assumes "\<not> num \<le> left_idx i" and "i \<noteq> down_heap_next cmp data i num"
  shows "i < down_heap_next cmp data i num \<and> down_heap_next cmp data i num < num"
  using assms by (auto simp: down_heap_next_def left_idx_def Let_def split: if_splits)

function down_heap :: "('a \<Rightarrow> 'a \<Rightarrow> int) \<Rightarrow> 'a list \<Rightarrow> nat \<Rightarrow> nat \<Rightarrow> 'a list" where
  "down_heap cmp data i num =
     (if num \<le> left_idx i then data
      else let next = down_heap_next cmp data i num
           in if i = next then data else down_heap cmp (swap_at i next data) next num)"
  by auto
termination
  by (relation "measure (\<lambda>(_, _, i, num). num - i)")
    (use down_heap_next_cases in \<open>fastforce simp: Let_def intro!: diff_less_mono2\<close>)+

declare down_heap.simps [simp del]

text \<open>The two loops of \<open>OPENSSL_sk_sort\<close>. The first counts down to zero; the index then wraps
  around, which ends the loop. The second counts down to one.\<close>

fun build_heap :: "('a \<Rightarrow> 'a \<Rightarrow> int) \<Rightarrow> nat \<Rightarrow> nat \<Rightarrow> 'a list \<Rightarrow> 'a list" where
  "build_heap cmp num 0 data = down_heap cmp data 0 num"
| "build_heap cmp num (Suc i) data = build_heap cmp num i (down_heap cmp data (Suc i) num)"

fun remove_max_loop :: "('a \<Rightarrow> 'a \<Rightarrow> int) \<Rightarrow> nat \<Rightarrow> 'a list \<Rightarrow> 'a list" where
  "remove_max_loop cmp 0 data = data"
| "remove_max_loop cmp (Suc i) data =
     remove_max_loop cmp i (down_heap cmp (swap_at 0 (Suc i) data) 0 (Suc i))"

definition OPENSSL_sk_sort ::
  "('c \<Rightarrow> 'p ptr \<Rightarrow> 'p ptr \<Rightarrow> int) \<Rightarrow> ('p, 'c) stack_handle \<Rightarrow> ('p, 'c) stack_handle" where
  "OPENSSL_sk_sort call_cmp h =
     (case h of None \<Rightarrow> None
      | Some sk \<Rightarrow>
          (case sk_comp sk of None \<Rightarrow> h
           | Some cmpf \<Rightarrow>
               if sk_sorted sk then h
               else
                 let num = length (sk_data sk);
                     cmp = call_cmp cmpf;
                     data = (if 2 \<le> num
                             then remove_max_loop cmp (num - 1)
                                    (build_heap cmp num (parent_idx (num - 1)) (sk_data sk))
                             else sk_data sk)
                 in Some (sk\<lparr>sk_data := data, sk_sorted := True\<rparr>)))"

definition OPENSSL_sk_set_cmp_func ::
  "('p, 'c) stack \<Rightarrow> 'c option \<Rightarrow> 'c option \<times> ('p, 'c) stack" where
  "OPENSSL_sk_set_cmp_func sk cmpf =
     (let old = sk_comp sk;
          sk = (if sk_comp sk \<noteq> cmpf then sk\<lparr>sk_sorted := False\<rparr> else sk)
      in (old, sk\<lparr>sk_comp := cmpf\<rparr>))"

text \<open>
  The copy loop: \<open>copy\<close> returns \<open>None\<close> where it fails; then the copies made so far are passed to
  the free function (the second component) and there is no result.
\<close>

fun deep_copy_loop :: "('p \<Rightarrow> 'p option) \<Rightarrow> 'p ptr list \<Rightarrow> 'p ptr list \<Rightarrow> 'p ptr list option \<times> 'p list" where
  "deep_copy_loop copy copied [] = (Some copied, [])"
| "deep_copy_loop copy copied (None # rest) = deep_copy_loop copy (copied @ [None]) rest"
| "deep_copy_loop copy copied (Some p # rest) =
     (case copy p of
        None \<Rightarrow> (None, [q. Some q \<leftarrow> copied])
      | Some q \<Rightarrow> deep_copy_loop copy (copied @ [Some q]) rest)"

definition OPENSSL_sk_deep_copy ::
  "(nat \<Rightarrow> bool) \<Rightarrow> ('p \<Rightarrow> 'p option) \<Rightarrow> ('p, 'c) stack_handle \<Rightarrow> ('p, 'c) stack_handle \<times> 'p list" where
  "OPENSSL_sk_deep_copy alloc_ok copy h =
     (case OPENSSL_sk_dup alloc_ok h of
        None \<Rightarrow> (None, [])
      | Some sk \<Rightarrow>
          (case deep_copy_loop copy [] (sk_data sk) of
             (None, freed) \<Rightarrow> (None, freed)
           | (Some data, _) \<Rightarrow> (Some (sk\<lparr>sk_data := data\<rparr>), [])))"

end
