(* ===== verification/Lhash.thy ===== *)
theory Lhash
  imports Stack
begin

text \<open>
  The chained hash table (\<open>crypto/lhash/lhash.c\<close>) and the hash of byte strings of
  \<open>crypto/mem.c\<close>, definitions. A chain is the list of its items, so that \<open>buckets\<close> is a list of
  lists and \<open>num_buckets\<close> its length. A pointer to the pointer to an item is a bucket and a
  position in its chain, the position past the end standing for the null pointer there. The
  comparison and the hash function are fields of the table, as in the code; the type-erased
  wrappers through which it calls them do nothing but cast.
\<close>

section \<open>Hashing\<close>

text \<open>FNV-1a of 32 bits.\<close>

definition hash32_step :: "u32 \<Rightarrow> u8 \<Rightarrow> u32" where
  "hash32_step h b = (h XOR ucast b) * 16777619"

definition OPENSSL_hash32 :: "bytes \<Rightarrow> u32" where
  "OPENSSL_hash32 data = foldl hash32_step 2166136261 data"

text \<open>\<open>s\<close> is the memory from the start of the string, its NUL included.\<close>

definition OPENSSL_strhash :: "bytes \<Rightarrow> u32" where
  "OPENSSL_strhash s = OPENSSL_hash32 (takeWhile (\<lambda>b. b \<noteq> 0) s)"

section \<open>State\<close>

record 'd lhash_item =
  item_data :: 'd
  item_hash :: u32

record 'd lhash =
  num_items :: nat
  buckets :: "'d lhash_item list list"
  callback_depth :: u32
  lh_comp :: "'d \<Rightarrow> 'd \<Rightarrow> int"
  lh_hash :: "'d \<Rightarrow> u32"

definition kMinNumBuckets :: nat where "kMinNumBuckets = 16"
definition kMaxAverageChainLength :: nat where "kMaxAverageChainLength = 2"
definition kMinAverageChainLength :: nat where "kMinAverageChainLength = 1"
definition sizeof_item :: nat where "sizeof_item = 24"
definition sizeof_lhash :: nat where "sizeof_lhash = 48"

definition OPENSSL_lh_new ::
  "(nat \<Rightarrow> bool) \<Rightarrow> ('d \<Rightarrow> u32) \<Rightarrow> ('d \<Rightarrow> 'd \<Rightarrow> int) \<Rightarrow> 'd lhash option" where
  "OPENSSL_lh_new alloc hash cmp =
     (if \<not> alloc sizeof_lhash then None
      else if \<not> alloc (kMinNumBuckets * sizeof_ptr) then None
      else Some \<lparr>num_items = 0, buckets = replicate kMinNumBuckets [], callback_depth = 0,
                 lh_comp = cmp, lh_hash = hash\<rparr>)"

definition OPENSSL_lh_num_items :: "'d lhash \<Rightarrow> nat" where
  "OPENSSL_lh_num_items lh = num_items lh"

definition num_buckets :: "'d lhash \<Rightarrow> nat" where
  "num_buckets lh = length (buckets lh)"

section \<open>Search\<close>

fun chain_position :: "('d \<Rightarrow> bool) \<Rightarrow> 'd lhash_item list \<Rightarrow> nat" where
  "chain_position f [] = 0"
| "chain_position f (cur # rest) = (if f (item_data cur) then 0 else Suc (chain_position f rest))"

definition get_next_ptr_and_hash :: "'d lhash \<Rightarrow> 'd \<Rightarrow> (nat \<times> nat) \<times> u32" where
  "get_next_ptr_and_hash lh data =
     (let hash = lh_hash lh data;
          i = unat hash mod num_buckets lh
      in ((i, chain_position (\<lambda>x. lh_comp lh x data = 0) (buckets lh ! i)), hash))"

definition get_next_ptr_by_key :: "'d lhash \<Rightarrow> 'k \<Rightarrow> u32 \<Rightarrow> ('k \<Rightarrow> 'd \<Rightarrow> int) \<Rightarrow> nat \<times> nat" where
  "get_next_ptr_by_key lh key key_hash cmp_key =
     (let i = unat key_hash mod num_buckets lh
      in (i, chain_position (\<lambda>x. cmp_key key x = 0) (buckets lh ! i)))"

text \<open>The item a pointer leads to.\<close>

definition item_at :: "'d lhash \<Rightarrow> nat \<times> nat \<Rightarrow> 'd lhash_item option" where
  "item_at lh p =
     (let (i, j) = p; chain = buckets lh ! i
      in if j < length chain then Some (chain ! j) else None)"

definition OPENSSL_lh_retrieve :: "'d lhash \<Rightarrow> 'd \<Rightarrow> 'd option" where
  "OPENSSL_lh_retrieve lh data =
     (let (next_ptr, _) = get_next_ptr_and_hash lh data
      in map_option item_data (item_at lh next_ptr))"

definition OPENSSL_lh_retrieve_key :: "'d lhash \<Rightarrow> 'k \<Rightarrow> u32 \<Rightarrow> ('k \<Rightarrow> 'd \<Rightarrow> int) \<Rightarrow> 'd option" where
  "OPENSSL_lh_retrieve_key lh key key_hash cmp_key =
     map_option item_data (item_at lh (get_next_ptr_by_key lh key key_hash cmp_key))"

section \<open>Resizing\<close>

text \<open>Each item goes to the front of its new chain, bucket by bucket in the old order.\<close>

definition rebucket_item ::
  "nat \<Rightarrow> 'd lhash_item list list \<Rightarrow> 'd lhash_item \<Rightarrow> 'd lhash_item list list" where
  "rebucket_item new_num_buckets new_buckets cur =
     (let new_bucket = unat (item_hash cur) mod new_num_buckets
      in new_buckets[new_bucket := cur # new_buckets ! new_bucket])"

definition lh_rebucket :: "(nat \<Rightarrow> bool) \<Rightarrow> 'd lhash \<Rightarrow> nat \<Rightarrow> 'd lhash" where
  "lh_rebucket alloc lh new_num_buckets =
     (let alloc_size = size_mul sizeof_ptr new_num_buckets
      in if alloc_size div sizeof_ptr \<noteq> new_num_buckets then lh
         else if \<not> alloc alloc_size then lh
         else lh\<lparr>buckets :=
                foldl (foldl (rebucket_item new_num_buckets)) (replicate new_num_buckets []) (buckets lh)\<rparr>)"

definition lh_maybe_resize :: "(nat \<Rightarrow> bool) \<Rightarrow> 'd lhash \<Rightarrow> 'd lhash" where
  "lh_maybe_resize alloc lh =
     (if 0 < callback_depth lh then lh
      else
        let avg_chain_length = num_items lh div num_buckets lh
        in if kMaxAverageChainLength < avg_chain_length then
             let new_num_buckets = size_mul (num_buckets lh) 2
             in if num_buckets lh < new_num_buckets then lh_rebucket alloc lh new_num_buckets else lh
           else if avg_chain_length < kMinAverageChainLength \<and> kMinNumBuckets < num_buckets lh then
             let new_num_buckets = num_buckets lh div 2;
                 new_num_buckets =
                   (if new_num_buckets < kMinNumBuckets then kMinNumBuckets else new_num_buckets)
             in lh_rebucket alloc lh new_num_buckets
           else lh)"

section \<open>Insertion, deletion, iteration\<close>

text \<open>The replacement of a chain.\<close>

definition update_chain ::
  "nat \<Rightarrow> ('d lhash_item list \<Rightarrow> 'd lhash_item list) \<Rightarrow> 'd lhash \<Rightarrow> 'd lhash" where
  "update_chain i f lh = lh\<lparr>buckets := (buckets lh)[i := f (buckets lh ! i)]\<rparr>"

text \<open>Success, \<open>*old_data\<close>, and the table.\<close>

definition OPENSSL_lh_insert ::
  "(nat \<Rightarrow> bool) \<Rightarrow> 'd lhash \<Rightarrow> 'd \<Rightarrow> bool \<times> 'd option \<times> 'd lhash" where
  "OPENSSL_lh_insert alloc lh data =
     (let ((i, j), hash) = get_next_ptr_and_hash lh data
      in case item_at lh (i, j) of
           Some item \<Rightarrow>
             (True, Some (item_data item),
              update_chain i (\<lambda>chain. chain[j := item\<lparr>item_data := data\<rparr>]) lh)
         | None \<Rightarrow>
             if \<not> alloc sizeof_item then (False, None, lh)
             else
               let item = \<lparr>item_data = data, item_hash = hash\<rparr>;
                   lh = update_chain i (\<lambda>chain. take j chain @ [item]) lh;
                   lh = lh\<lparr>num_items := num_items lh + 1\<rparr>
               in (True, None, lh_maybe_resize alloc lh))"

definition OPENSSL_lh_delete :: "(nat \<Rightarrow> bool) \<Rightarrow> 'd lhash \<Rightarrow> 'd \<Rightarrow> 'd option \<times> 'd lhash" where
  "OPENSSL_lh_delete alloc lh data =
     (let ((i, j), _) = get_next_ptr_and_hash lh data
      in case item_at lh (i, j) of
           None \<Rightarrow> (None, lh)
         | Some item \<Rightarrow>
             let lh = update_chain i (\<lambda>chain. take j chain @ drop (Suc j) chain) lh;
                 lh = lh\<lparr>num_items := num_items lh - 1\<rparr>
             in (Some (item_data item), lh_maybe_resize alloc lh))"

text \<open>
  The iteration with a callback that keeps its own state \<open>'s\<close> and leaves the table alone. The
  depth saturates at \<open>UINT_MAX\<close>.
\<close>

definition OPENSSL_lh_doall_arg ::
  "(nat \<Rightarrow> bool) \<Rightarrow> ('d \<Rightarrow> 's \<Rightarrow> 's) \<Rightarrow> 'd lhash option \<Rightarrow> 's \<Rightarrow> 's \<times> 'd lhash option" where
  "OPENSSL_lh_doall_arg alloc func h arg =
     (case h of None \<Rightarrow> (arg, None)
      | Some lh \<Rightarrow>
          let lh = (if callback_depth lh < - 1 then lh\<lparr>callback_depth := callback_depth lh + 1\<rparr> else lh);
              arg = fold (\<lambda>chain arg. fold (\<lambda>cur arg. func (item_data cur) arg) chain arg) (buckets lh) arg;
              lh = (if callback_depth lh < - 1 then lh\<lparr>callback_depth := callback_depth lh - 1\<rparr> else lh)
          in (arg, Some (lh_maybe_resize alloc lh)))"

end
