(* ===== verification/Der_Set.thy ===== *)
theory Der_Set
  imports Der_Builder
begin

text \<open>
  The canonical order of a SET OF: the comparison of two elements is the lexicographic order
  of their octets, and \<open>CBB_flush_asn1_set_of\<close> replaces the contents by the same elements in
  that order.
\<close>

section \<open>The comparison\<close>

lemma compare_set_of_simps [simp]:
  "compare_set_of_element [] [] = 0"
  "compare_set_of_element [] (b # bs) = - 1"
  "compare_set_of_element (a # as) [] = 1"
  by (simp_all add: compare_set_of_element_def Let_def CBS_len_def)

lemma compare_set_of_Cons [simp]:
  "compare_set_of_element (a # as) (b # bs) =
    (if a = b then compare_set_of_element as bs else if a < b then - 1 else 1)"
  by (simp add: compare_set_of_element_def Let_def CBS_len_def min_def)

interpretation set_of: strict_comparator compare_set_of_element
proof
  fix x y z :: cbs
  show "compare_set_of_element x y < 0 \<longleftrightarrow> 0 < compare_set_of_element y x"
    by (induction x y rule: list_induct2') auto
  show "compare_set_of_element x z \<le> 0" if "compare_set_of_element x y \<le> 0" "compare_set_of_element y z \<le> 0"
    using that
  proof (induction x y arbitrary: z rule: list_induct2')
    case (4 a as b bs)
    then show ?case by (cases z) (auto split: if_splits)
  next
    case (3 b bs)
    then show ?case by (cases z) auto
  qed (cases z, auto)
  show "x = y" if "compare_set_of_element x y = 0"
    using that by (induction x y rule: list_induct2') (auto split: if_splits)
qed

text \<open>The comparison is the lexicographic order of the octets.\<close>

lemma compare_set_of_lexordp: "compare_set_of_element x y \<le> 0 \<longleftrightarrow> lexordp_eq x y"
  by (induction x y rule: list_induct2') auto

section \<open>The elements of the contents\<close>

lemma parse_elements_eq_Some:
  "parse_elements s = Some els \<longleftrightarrow>
    s = concat els \<and> (\<forall>e \<in> set els. \<exists>tag c. valid_element tag c \<and> e = der_element tag c)"
proof (induction s arbitrary: els rule: length_induct)
  case (1 s)
  have el: "CBS_get_any_asn1_element s = (Some el, t) \<longleftrightarrow>
      (\<exists>tag c. valid_element tag c \<and> el = strict_element tag c \<and> s = der_element tag c @ t)" for el t
    unfolding CBS_get_any_asn1_element_eq_Some valid_element_def by blast
  show ?case
  proof (cases "s = []")
    case True
    have "els = []" if "[] = concat els" "\<forall>e \<in> set els. \<exists>tag c. valid_element tag c \<and> e = der_element tag c"
      using that der_element_nonempty [THEN not_sym] by (cases els) (auto simp: valid_element_def)
    then show ?thesis using True by (subst parse_elements.simps) (auto simp: CBS_len_def)
  next
    case False
    show ?thesis
    proof
      assume "parse_elements s = Some els"
      with False obtain el t rest where p: "CBS_get_any_asn1_element s = (Some el, t)"
        "parse_elements t = Some rest" "els = el_bytes el # rest"
        by (subst (asm) parse_elements.simps) (auto simp: CBS_len_def split: prod.splits option.splits)
      have "length t < length s" by (rule element_shortens [OF p(1)])
      with 1 p(2) have t: "t = concat rest" "\<forall>e \<in> set rest. \<exists>tag c. valid_element tag c \<and> e = der_element tag c" by blast+
      from p(1) obtain tag c where c: "valid_element tag c" "el = strict_element tag c" "s = der_element tag c @ t"
        unfolding el by blast
      then have e: "els = der_element tag c # rest" using p(3) by simp
      have "\<exists>tag' c'. valid_element tag' c' \<and> der_element tag c = der_element tag' c'" using c(1) by blast
      then show "s = concat els \<and> (\<forall>e \<in> set els. \<exists>tag c. valid_element tag c \<and> e = der_element tag c)"
        using t c(3) by (simp add: e)
    next
      assume a: "s = concat els \<and> (\<forall>e \<in> set els. \<exists>tag c. valid_element tag c \<and> e = der_element tag c)"
      then obtain tag c rest where e: "els = der_element tag c # rest" "valid_element tag c" using False
        by (cases els) auto
      have p: "CBS_get_any_asn1_element s = (Some (strict_element tag c), concat rest)"
        unfolding el using a e by auto
      have "length (concat rest) < length s" by (rule element_shortens [OF p])
      then have "parse_elements (concat rest) = Some rest" using 1 a e(1) by simp
      then show "parse_elements s = Some els" using False p e(1)
        by (subst parse_elements.simps) (simp add: CBS_len_def)
    qed
  qed
qed

text \<open>After a flush the contents of the CBB are the end of the buffer.\<close>

lemma contents_start_le:
  assumes "represents s r fs" and "length fs = h"
  shows "cbb_contents_start h s \<le> base_len s"
proof (cases "h = 0")
  case False
  then obtain gs f where fs: "fs = gs @ [f]" using assms(2) by (cases fs rule: rev_cases) auto
  obtain p c where f: "f = (p, c)" by (cases f)
  have l: "length gs = h - 1" using assms(2) fs by simp
  have "chain k (gs @ [(p, c)]) = chain k gs @ [child_of (k + length (pending gs)) p]" for k
    by (induction k gs rule: chain.induct) (auto simp: chain_Cons add.assoc)
  then have "open_children s ! (h - 1) = child_of (length r + length (pending gs)) p"
    using assms(1) l by (simp add: represents_def fs f nth_append)
  then show ?thesis using assms(1) False
    by (simp add: cbb_contents_start_def represents_def fs f child_of_def pending_append)
qed (simp add: cbb_contents_start_def)

section \<open>Properties\<close>

text \<open>C11: when \<open>CBB_flush_asn1_set_of\<close> succeeds, the contents of the CBB, which must be a
  sequence of DER elements, have been replaced by the same elements, each as often as before,
  in the ascending lexicographic order of their octets; what was written before the contents is
  unchanged.\<close>

theorem flush_set_of_sorted:
  assumes "represents s r fs" and "h \<le> length fs" and "CBB_flush_asn1_set_of env h s = (Some (), s')"
  shows "\<exists>s1 pre els els'. CBB_flush env h s = (Some (), s1) \<and>
    base_buf s1 = pre @ concat els \<and> base_buf s' = pre @ concat els' \<and> length pre = cbb_contents_start h s1 \<and>
    open_children s' = open_children s1 \<and> mset els' = mset els \<and>
    (\<forall>e \<in> set els. \<exists>tag c. valid_element tag c \<and> e = der_element tag c) \<and>
    sorted_wrt lexordp_eq els'"
proof -
  from assms(3) obtain s1 els where s1: "CBB_flush env h s = (Some (), s1)"
    and p: "parse_elements (CBB_data h s1) = Some els"
    and s': "length els < 2 \<and> s' = s1 \<or>
      s' = cbb_store (cbb_contents_start h s1) (concat (qsort compare_set_of_element els)) s1"
    by (auto simp: CBB_flush_asn1_set_of_def split: option.splits if_splits)
  from CBB_flush_refines [OF assms(1,2) s1] obtain r1 fs1 where
    "represents s1 r1 fs1" "length fs1 = h" by blast
  note start = contents_start_le [OF this]
  let ?pre = "take (cbb_contents_start h s1) (base_buf s1)"
  let ?els = "qsort compare_set_of_element els"
  have els: "CBB_data h s1 = concat els" "\<forall>e \<in> set els. \<exists>tag c. valid_element tag c \<and> e = der_element tag c"
    using p by (simp_all add: parse_elements_eq_Some)
  then have b: "base_buf s1 = ?pre @ concat els" by (metis CBB_data_def append_take_drop_id)
  have l: "length (concat ?els) = length (concat els)"
    by (metis length_concat mset_map mset_qsort sum_mset_sum_list)
  have o: "sorted_wrt lexordp_eq ?els"
    using set_of.ordered_qsort [of els] by (simp add: set_of.ordered_def compare_set_of_lexordp)
  have "base_buf s' = ?pre @ concat ?els \<and> open_children s' = open_children s1"
    using s'
  proof
    assume "length els < 2 \<and> s' = s1"
    moreover then have "?els = els" by (cases els; cases "tl els") auto
    ultimately show ?thesis using b by simp
  next
    assume "s' = cbb_store (cbb_contents_start h s1) (concat ?els) s1"
    moreover have "drop (cbb_contents_start h s1 + length (concat ?els)) (base_buf s1) = []"
      using l els(1) start by (simp add: CBB_data_def) (metis le_add_diff_inverse length_drop order_refl)
    ultimately show ?thesis by simp
  qed
  then show ?thesis using s1 b els(2) o start
    by (intro exI [of _ s1] exI [of _ ?pre] exI [of _ els] exI [of _ ?els]) simp
qed

theorem flush_set_of_sorted_witness:
  "\<exists>s'. CBB_flush_asn1_set_of \<lparr>alloc_ok = \<lambda>_. True, uninit = \<lambda>_. 0\<rparr> 0 (cbb_init [4, 1, 9, 2, 1, 7] 8 True) = (Some (), s') \<and>
    base_buf s' = [2, 1, 7, 4, 1, 9] \<and> (\<exists>els'. base_buf s' = concat els' \<and> sorted_wrt lexordp_eq els')"
proof -
  let ?e = "\<lparr>alloc_ok = \<lambda>_. True, uninit = \<lambda>_. 0\<rparr>"
  let ?s = "cbb_init [4, 1, 9, 2, 1, 7] 8 True"
  let ?s' = "cbb_init [2, 1, 7, 4, 1, 9] 8 True"
  have t: "tag_bytes CBS_ASN1_OCTETSTRING = [4]" "tag_bytes CBS_ASN1_INTEGER = [2]" by code_simp+
  have "der_element CBS_ASN1_OCTETSTRING [9] = [4, 1, 9]" "der_element CBS_ASN1_INTEGER [7] = [2, 1, 7]"
    by (simp_all add: der_element_def der_header_def der_length_def t)
  moreover have "valid_element CBS_ASN1_OCTETSTRING [9]" "valid_element CBS_ASN1_INTEGER [7]"
    by (simp_all add: valid_element_def valid_tag_def)
  ultimately have p: "parse_elements [4, 1, 9, 2, 1, 7] = Some [[4, 1, 9], [2, 1, 7]]"
    unfolding parse_elements_eq_Some by fastforce
  have f: "CBB_flush_asn1_set_of ?e 0 ?s = (Some (), ?s')"
    by (simp add: CBB_flush_asn1_set_of_def CBB_flush_def is_stale_def cbb_init_def CBB_data_def
        cbb_contents_start_def p cbb_store_def)
  have rep: "represents ?s [4, 1, 9, 2, 1, 7] []"
    by (simp add: represents_def cbb_init_def wf_cbb_def SIZE_MAX_def)
  from flush_set_of_sorted [OF rep _ f] obtain s1 pre els els' where
    r: "CBB_flush ?e 0 ?s = (Some (), s1)" "base_buf ?s' = pre @ concat els'"
      "length pre = cbb_contents_start 0 s1" "sorted_wrt lexordp_eq els'" by auto
  then have "base_buf ?s' = concat els'" by (simp add: cbb_contents_start_def)
  then show ?thesis using f r(4) by (intro exI [of _ ?s']) (auto simp: cbb_init_def)
qed

end
