(* ===== verification/Lhash_Map.thy ===== *)
theory Lhash_Map
  imports Lhash Der_Set
begin

text \<open>
  The hash table as a map: as long as equality of elements is an equivalence that the hash
  respects, the table is a finite map from classes of equal elements to elements.
\<close>

section \<open>Classes of equal elements\<close>

definition key :: "('d \<Rightarrow> 'd \<Rightarrow> int) \<Rightarrow> 'd \<Rightarrow> 'd set" where
  "key cmp x = {y. cmp y x = 0}"

definition keys :: "('d \<Rightarrow> 'd \<Rightarrow> int) \<Rightarrow> 'd lhash_item list \<Rightarrow> 'd set list" where
  "keys cmp items = map (\<lambda>x. key cmp (item_data x)) items"

definition pairs :: "('d \<Rightarrow> 'd \<Rightarrow> int) \<Rightarrow> 'd lhash_item list \<Rightarrow> ('d set \<times> 'd) list" where
  "pairs cmp items = map (\<lambda>x. (key cmp (item_data x), item_data x)) items"

lemma keys_simps [simp]:
  "keys cmp [] = []" "keys cmp (x # xs) = key cmp (item_data x) # keys cmp xs"
  "keys cmp (xs @ ys) = keys cmp xs @ keys cmp ys" "length (keys cmp xs) = length xs"
  by (simp_all add: keys_def)

lemma pairs_simps [simp]:
  "pairs cmp [] = []" "pairs cmp (x # xs) = (key cmp (item_data x), item_data x) # pairs cmp xs"
  "pairs cmp (xs @ ys) = pairs cmp xs @ pairs cmp ys" "map fst (pairs cmp xs) = keys cmp xs"
  by (simp_all add: pairs_def keys_def o_def)

lemma distinct_keys_mset: "mset xs = mset ys \<Longrightarrow> distinct (keys cmp xs) \<longleftrightarrow> distinct (keys cmp ys)"
proof -
  assume "mset xs = mset ys"
  then have "mset (keys cmp xs) = mset (keys cmp ys)" by (simp add: keys_def)
  then show ?thesis by (rule mset_eq_imp_distinct_iff)
qed

lemma map_of_pairs_mset:
  assumes "mset xs = mset ys" and "distinct (keys cmp xs)"
  shows "map_of (pairs cmp xs) = map_of (pairs cmp ys)"
proof -
  have d: "distinct (map fst (pairs cmp xs))" "distinct (map fst (pairs cmp ys))"
    using assms distinct_keys_mset [OF assms(1), of cmp] by simp_all
  have "set (pairs cmp xs) = set (pairs cmp ys)" using mset_eq_setD [OF assms(1)] by (simp add: pairs_def)
  then show ?thesis using map_of_inject_set [OF d] by blast
qed

lemma map_of_pairs_None: "k \<notin> set (keys cmp xs) \<Longrightarrow> map_of (pairs cmp xs) k = None"
  by (simp add: map_of_eq_None_iff flip: set_map)

section \<open>The contract of the callbacks\<close>

locale hash_equality =
  fixes hash :: "'d \<Rightarrow> u32" and cmp :: "'d \<Rightarrow> 'd \<Rightarrow> int"
  assumes eq_refl: "cmp x x = 0"
    and eq_sym: "cmp x y = 0 \<Longrightarrow> cmp y x = 0"
    and eq_trans: "cmp x y = 0 \<Longrightarrow> cmp y z = 0 \<Longrightarrow> cmp x z = 0"
    and hash_eq: "cmp x y = 0 \<Longrightarrow> hash x = hash y"
begin

lemma key_eq_iff: "key cmp x = key cmp y \<longleftrightarrow> cmp x y = 0"
proof
  assume "key cmp x = key cmp y"
  moreover have "x \<in> key cmp x" by (simp add: key_def eq_refl)
  ultimately show "cmp x y = 0" by (simp add: key_def)
next
  assume "cmp x y = 0"
  then show "key cmp x = key cmp y" unfolding key_def using eq_sym eq_trans by blast
qed

text \<open>The search in a chain.\<close>

lemma chain_position_Some:
  assumes "chain_position (\<lambda>x. cmp x d = 0) c < length c"
  shows "\<exists>xs x ys. c = xs @ x # ys \<and> length xs = chain_position (\<lambda>x. cmp x d = 0) c \<and>
    key cmp (item_data x) = key cmp d \<and> key cmp d \<notin> set (keys cmp xs)"
  using assms
proof (induction c)
  case (Cons x c)
  show ?case
  proof (cases "cmp (item_data x) d = 0")
    case True
    then show ?thesis by (intro exI [of _ "[]"] exI [of _ x] exI [of _ c]) (simp add: key_eq_iff)
  next
    case False
    with Cons obtain xs y ys where "c = xs @ y # ys" "length xs = chain_position (\<lambda>x. cmp x d = 0) c"
      "key cmp (item_data y) = key cmp d" "key cmp d \<notin> set (keys cmp xs)" by auto
    with False show ?thesis
      by (intro exI [of _ "x # xs"] exI [of _ y] exI [of _ ys]) (auto simp: key_eq_iff dest: eq_sym)
  qed
qed simp

lemma chain_position_None:
  "\<not> chain_position (\<lambda>x. cmp x d = 0) c < length c \<Longrightarrow>
     chain_position (\<lambda>x. cmp x d = 0) c = length c \<and> key cmp d \<notin> set (keys cmp c)"
  by (induction c) (auto simp: key_eq_iff split: if_splits dest: eq_sym)

end

section \<open>Well-formed tables\<close>

text \<open>Every item is in the bucket of its hash; the other chains hold the rest of the items.\<close>

definition placed :: "'d lhash_item list list \<Rightarrow> bool" where
  "placed bs \<longleftrightarrow> (\<forall>i < length bs. \<forall>x \<in> set (bs ! i). unat (item_hash x) mod length bs = i)"

definition others :: "'d lhash_item list list \<Rightarrow> nat \<Rightarrow> 'd lhash_item list" where
  "others bs i = concat (take i bs) @ concat (drop (Suc i) bs)"

lemma mset_concat_update:
  "i < length bs \<Longrightarrow> mset (concat (bs[i := c])) = mset (c @ others bs i)"
  by (simp add: upd_conv_take_nth_drop others_def)

lemma mset_concat_at: "i < length bs \<Longrightarrow> mset (concat bs) = mset (bs ! i @ others bs i)"
  using mset_concat_update [of i bs "bs ! i"] by simp

lemma in_others:
  assumes "x \<in> set (others bs i)"
  shows "\<exists>j. j < length bs \<and> j \<noteq> i \<and> x \<in> set (bs ! j)"
proof -
  from assms consider c where "c \<in> set (take i bs)" "x \<in> set c" | c where "c \<in> set (drop (Suc i) bs)" "x \<in> set c"
    by (auto simp: others_def)
  then show ?thesis
  proof cases
    case 1
    then obtain j where "j < length (take i bs)" "take i bs ! j = c" by (auto simp: in_set_conv_nth)
    then show ?thesis using 1(2) by (intro exI [of _ j]) auto
  next
    case 2
    then obtain j where "j < length (drop (Suc i) bs)" "drop (Suc i) bs ! j = c" by (auto simp: in_set_conv_nth)
    then show ?thesis using 2(2) by (intro exI [of _ "Suc i + j"]) auto
  qed
qed

lemma placed_others: "placed bs \<Longrightarrow> x \<in> set (others bs i) \<Longrightarrow> unat (item_hash x) mod length bs \<noteq> i"
  using in_others unfolding placed_def by fast

lemma placed_update:
  "placed bs \<Longrightarrow> \<forall>x \<in> set c. unat (item_hash x) mod length bs = i \<Longrightarrow> placed (bs[i := c])"
  unfolding placed_def by (metis length_list_update nth_list_update_eq nth_list_update_neq)

subsection \<open>Redistribution\<close>

lemma rebucket_item_keeps:
  assumes "placed bs" and "0 < length bs"
  shows "placed (rebucket_item (length bs) bs x) \<and> length (rebucket_item (length bs) bs x) = length bs \<and>
    mset (concat (rebucket_item (length bs) bs x)) = add_mset x (mset (concat bs))"
proof -
  let ?i = "unat (item_hash x) mod length bs"
  have i: "?i < length bs" using assms(2) by simp
  have "placed (bs[?i := x # bs ! ?i])"
    using assms(1) i by (intro placed_update) (auto simp: placed_def)
  then show ?thesis using mset_concat_update [OF i] mset_concat_at [OF i]
    by (simp add: rebucket_item_def Let_def)
qed

lemma rebucket_keeps:
  assumes "placed bs" and "0 < length bs"
  shows "placed (foldl (rebucket_item (length bs)) bs xs) \<and>
    length (foldl (rebucket_item (length bs)) bs xs) = length bs \<and>
    mset (concat (foldl (rebucket_item (length bs)) bs xs)) = mset xs + mset (concat bs)"
  using assms
proof (induction xs arbitrary: bs)
  case (Cons x xs)
  then show ?case
    using rebucket_item_keeps [OF Cons.prems, of x] Cons.IH [of "rebucket_item (length bs) bs x"] by simp
qed simp

lemma foldl_foldl_concat: "foldl (foldl f) a xss = foldl f a (concat xss)"
  by (induction xss arbitrary: a) simp_all

lemma rebucket_all:
  assumes "0 < n"
  shows "placed (foldl (foldl (rebucket_item n)) (replicate n []) bs) \<and>
    length (foldl (foldl (rebucket_item n)) (replicate n []) bs) = n \<and>
    mset (concat (foldl (foldl (rebucket_item n)) (replicate n []) bs)) = mset (concat bs)"
proof -
  have "placed (replicate n [])" by (simp add: placed_def)
  then show ?thesis
    using rebucket_keeps [of "replicate n []" "concat bs"] assms unfolding foldl_foldl_concat by simp
qed

section \<open>The table as a map\<close>

definition lh_map :: "'d lhash \<Rightarrow> 'd set \<Rightarrow> 'd option" where
  "lh_map lh = map_of (pairs (lh_comp lh) (concat (buckets lh)))"

definition lh_ok :: "'d lhash \<Rightarrow> bool" where
  "lh_ok lh \<longleftrightarrow>
     hash_equality (lh_hash lh) (lh_comp lh) \<and> kMinNumBuckets \<le> num_buckets lh \<and> placed (buckets lh) \<and>
     (\<forall>x \<in> set (concat (buckets lh)). item_hash x = lh_hash lh (item_data x)) \<and>
     distinct (keys (lh_comp lh) (concat (buckets lh))) \<and>
     num_items lh = length (concat (buckets lh))"

text \<open>The chain that can hold an element, and the rest of the table.\<close>

lemma lh_map_chain:
  fixes lh :: "'d lhash" and d :: 'd
  assumes "lh_ok lh"
  defines "i \<equiv> unat (lh_hash lh d) mod num_buckets lh"
  shows "i < length (buckets lh)"
    and "lh_map lh = map_of (pairs (lh_comp lh) (buckets lh ! i @ others (buckets lh) i))"
    and "distinct (keys (lh_comp lh) (buckets lh ! i @ others (buckets lh) i))"
    and "key (lh_comp lh) d \<notin> set (keys (lh_comp lh) (others (buckets lh) i))"
proof -
  have H: "hash_equality (lh_hash lh) (lh_comp lh)" using assms(1) by (simp add: lh_ok_def)
  have "0 < num_buckets lh" using assms(1) by (simp add: lh_ok_def kMinNumBuckets_def)
  then show i: "i < length (buckets lh)" by (simp add: i_def num_buckets_def)
  have m: "mset (concat (buckets lh)) = mset (buckets lh ! i @ others (buckets lh) i)"
    using i by (rule mset_concat_at)
  show "lh_map lh = map_of (pairs (lh_comp lh) (buckets lh ! i @ others (buckets lh) i))"
    using assms(1) unfolding lh_map_def by (intro map_of_pairs_mset [OF m]) (simp add: lh_ok_def)
  show "distinct (keys (lh_comp lh) (buckets lh ! i @ others (buckets lh) i))"
    using assms(1) distinct_keys_mset [OF m] by (simp add: lh_ok_def)
  show "key (lh_comp lh) d \<notin> set (keys (lh_comp lh) (others (buckets lh) i))"
  proof
    assume "key (lh_comp lh) d \<in> set (keys (lh_comp lh) (others (buckets lh) i))"
    then obtain x where x: "x \<in> set (others (buckets lh) i)" "key (lh_comp lh) d = key (lh_comp lh) (item_data x)"
      by (auto simp: keys_def)
    then have "lh_hash lh d = lh_hash lh (item_data x)"
      using hash_equality.key_eq_iff [OF H] hash_equality.hash_eq [OF H] by blast
    moreover have "x \<in> set (concat (buckets lh))" using mset_eq_setD [OF m] x(1) by auto
    then have "item_hash x = lh_hash lh (item_data x)" using assms(1) unfolding lh_ok_def by blast
    ultimately have "unat (item_hash x) mod length (buckets lh) = i" by (simp add: i_def num_buckets_def)
    then show False using placed_others [OF _ x(1)] assms(1) by (simp add: lh_ok_def)
  qed
qed

definition belongs :: "'d lhash \<Rightarrow> nat \<Rightarrow> 'd lhash_item \<Rightarrow> bool" where
  "belongs lh i x \<longleftrightarrow> item_hash x = lh_hash lh (item_data x) \<and> unat (item_hash x) mod num_buckets lh = i"

text \<open>A table with another chain in place of that one.\<close>

lemma lh_ok_update:
  fixes lh :: "'d lhash" and c :: "'d lhash_item list" and i n :: nat
  assumes "lh_ok lh" and "\<forall>x \<in> set c. belongs lh i x"
    and "i < length (buckets lh)" and "distinct (keys (lh_comp lh) (c @ others (buckets lh) i))"
    and "n = length (c @ others (buckets lh) i)"
  defines "lh' \<equiv> lh\<lparr>buckets := (buckets lh)[i := c], num_items := n\<rparr>"
  shows "lh_ok lh'" and "lh_map lh' = map_of (pairs (lh_comp lh) (c @ others (buckets lh) i))"
proof -
  have m: "mset (concat (buckets lh')) = mset (c @ others (buckets lh) i)"
    using mset_concat_update [OF assms(3)] by (simp add: lh'_def)
  have d: "distinct (keys (lh_comp lh) (concat (buckets lh')))"
    using assms(4) distinct_keys_mset [OF m] by blast
  show "lh_map lh' = map_of (pairs (lh_comp lh) (c @ others (buckets lh) i))"
    using map_of_pairs_mset [OF m d] by (simp add: lh_map_def lh'_def)
  have "set (concat (buckets lh')) = set c \<union> set (others (buckets lh) i)"
    using mset_eq_setD [OF m] by simp
  moreover have "set (others (buckets lh) i) \<subseteq> set (concat (buckets lh))"
    using mset_eq_setD [OF mset_concat_at [OF assms(3)]] by auto
  ultimately have "\<forall>x \<in> set (concat (buckets lh')). item_hash x = lh_hash lh (item_data x)"
    using assms(1,2) unfolding lh_ok_def belongs_def by blast
  moreover have "placed (buckets lh')"
  proof -
    have "placed ((buckets lh)[i := c])"
      using assms(1,2) unfolding lh_ok_def num_buckets_def belongs_def by (intro placed_update; blast)
    then show ?thesis by (simp add: lh'_def)
  qed
  moreover have "length (concat (buckets lh')) = n" using mset_eq_length [OF m] assms(5) by simp
  ultimately show "lh_ok lh'" using assms(1) d by (simp add: lh_ok_def lh'_def num_buckets_def)
qed

lemma lh_rebucket_ok:
  assumes "lh_ok lh" and "kMinNumBuckets \<le> n"
  shows "lh_ok (lh_rebucket alloc lh n) \<and> lh_map (lh_rebucket alloc lh n) = lh_map lh"
proof (cases "lh_rebucket alloc lh n = lh")
  case False
  let ?bs = "foldl (foldl (rebucket_item n)) (replicate n []) (buckets lh)"
  have lh': "lh_rebucket alloc lh n = lh\<lparr>buckets := ?bs\<rparr>"
    using False by (auto simp: lh_rebucket_def Let_def split: if_splits)
  have r: "placed ?bs" "length ?bs = n" "mset (concat ?bs) = mset (concat (buckets lh))"
    using rebucket_all [of n "buckets lh"] assms(2) by (auto simp: kMinNumBuckets_def)
  have d: "distinct (keys (lh_comp lh) (concat ?bs))"
    using assms(1) distinct_keys_mset [OF r(3)] by (simp add: lh_ok_def)
  show ?thesis unfolding lh'
    using assms r(1,2) mset_eq_setD [OF r(3)] mset_eq_length [OF r(3)] d map_of_pairs_mset [OF r(3) d]
    by (simp add: lh_ok_def lh_map_def num_buckets_def)
qed (use assms(1) in simp)

lemma lh_maybe_resize_ok:
  assumes "lh_ok lh"
  shows "lh_ok (lh_maybe_resize alloc lh) \<and> lh_map (lh_maybe_resize alloc lh) = lh_map lh"
proof -
  have "kMinNumBuckets \<le> num_buckets lh" using assms by (simp add: lh_ok_def)
  then show ?thesis
    using assms lh_rebucket_ok [OF assms]
    by (auto simp: lh_maybe_resize_def Let_def)
qed

lemma item_at_split:
  assumes "lh_ok lh" and "get_next_ptr_and_hash lh d = ((i, j), h)"
  shows "h = lh_hash lh d" and "i = unat (lh_hash lh d) mod num_buckets lh"
    and "item_at lh (i, j) = Some x \<Longrightarrow>
       \<exists>xs ys. buckets lh ! i = xs @ x # ys \<and> length xs = j \<and> key (lh_comp lh) (item_data x) = key (lh_comp lh) d \<and>
         key (lh_comp lh) d \<notin> set (keys (lh_comp lh) xs)"
    and "item_at lh (i, j) = None \<Longrightarrow>
       j = length (buckets lh ! i) \<and> key (lh_comp lh) d \<notin> set (keys (lh_comp lh) (buckets lh ! i))"
proof -
  have H: "hash_equality (lh_hash lh) (lh_comp lh)" using assms(1) by (simp add: lh_ok_def)
  show "h = lh_hash lh d" "i = unat (lh_hash lh d) mod num_buckets lh"
    using assms(2) by (auto simp: get_next_ptr_and_hash_def Let_def)
  have j: "j = chain_position (\<lambda>x. lh_comp lh x d = 0) (buckets lh ! i)"
    using assms(2) by (auto simp: get_next_ptr_and_hash_def Let_def)
  show "\<exists>xs ys. buckets lh ! i = xs @ x # ys \<and> length xs = j \<and> key (lh_comp lh) (item_data x) = key (lh_comp lh) d \<and>
      key (lh_comp lh) d \<notin> set (keys (lh_comp lh) xs)" if "item_at lh (i, j) = Some x"
  proof -
    have "j < length (buckets lh ! i)" "buckets lh ! i ! j = x"
      using that by (auto simp: item_at_def Let_def split: if_splits)
    moreover from this obtain xs y ys where "buckets lh ! i = xs @ y # ys" "length xs = j"
      "key (lh_comp lh) (item_data y) = key (lh_comp lh) d" "key (lh_comp lh) d \<notin> set (keys (lh_comp lh) xs)"
      using hash_equality.chain_position_Some [OF H, of d "buckets lh ! i"] unfolding j [symmetric] by blast
    ultimately show ?thesis by (intro exI [of _ xs] exI [of _ ys]) (auto simp: nth_append)
  qed
  show "j = length (buckets lh ! i) \<and> key (lh_comp lh) d \<notin> set (keys (lh_comp lh) (buckets lh ! i))"
    if "item_at lh (i, j) = None"
    using that hash_equality.chain_position_None [OF H, of d "buckets lh ! i"] unfolding j [symmetric]
    by (auto simp: item_at_def Let_def split: if_splits)
qed

lemma lh_retrieve_map:
  assumes "lh_ok lh"
  shows "OPENSSL_lh_retrieve lh d = lh_map lh (key (lh_comp lh) d)"
proof -
  obtain i j h where n: "get_next_ptr_and_hash lh d = ((i, j), h)" by (metis prod.exhaust)
  note at = item_at_split [OF assms n]
  note c = lh_map_chain [OF assms, of d, folded at(2)]
  have r: "OPENSSL_lh_retrieve lh d = map_option item_data (item_at lh (i, j))"
    by (simp add: OPENSSL_lh_retrieve_def n)
  show ?thesis
  proof (cases "item_at lh (i, j)")
    case None
    then show ?thesis using at(4) c(4) by (simp add: r c(2) map_add_def map_of_pairs_None)
  next
    case (Some x)
    from at(3) [OF this] obtain xs ys where "buckets lh ! i = xs @ x # ys"
      "key (lh_comp lh) (item_data x) = key (lh_comp lh) d" "key (lh_comp lh) d \<notin> set (keys (lh_comp lh) xs)" by blast
    then show ?thesis using Some by (simp add: r c(2) map_add_def map_of_pairs_None)
  qed
qed

text \<open>The map after a change of the chain.\<close>

lemma map_of_snoc_chain:
  assumes "k \<notin> set (keys cmp c)" and "k \<notin> set (keys cmp r)" and "k = key cmp (item_data x)"
  shows "map_of (pairs cmp ((c @ [x]) @ r)) = (map_of (pairs cmp (c @ r)))(k \<mapsto> item_data x)"
  using assms map_of_pairs_None [of k cmp c] map_of_pairs_None [of k cmp r]
  by (auto simp: fun_eq_iff map_add_def split: option.splits)

lemma map_of_replace_chain:
  assumes "distinct (keys cmp ((xs @ x # ys) @ r))" and "key cmp (item_data x') = key cmp (item_data x)"
  shows "map_of (pairs cmp ((xs @ x' # ys) @ r)) =
    (map_of (pairs cmp ((xs @ x # ys) @ r)))(key cmp (item_data x) \<mapsto> item_data x')"
  using assms map_of_pairs_None [of "key cmp (item_data x)" cmp xs]
  by (auto simp: fun_eq_iff map_add_def split: option.splits)

lemma map_of_delete_chain:
  assumes "distinct (keys cmp ((xs @ x # ys) @ r))"
  shows "map_of (pairs cmp ((xs @ ys) @ r)) =
    (map_of (pairs cmp ((xs @ x # ys) @ r)))(key cmp (item_data x) := None)"
  using assms map_of_pairs_None [of "key cmp (item_data x)" cmp xs]
    map_of_pairs_None [of "key cmp (item_data x)" cmp ys] map_of_pairs_None [of "key cmp (item_data x)" cmp r]
  by (auto simp: fun_eq_iff map_add_def split: option.splits)

lemma chain_members:
  assumes "lh_ok lh" and "i < length (buckets lh)" and "x \<in> set (buckets lh ! i)"
  shows "belongs lh i x"
proof -
  have "x \<in> set (concat (buckets lh))" using assms(2,3) by auto
  then show ?thesis using assms unfolding lh_ok_def belongs_def placed_def num_buckets_def by blast
qed

lemma lh_num_items_chain:
  "lh_ok lh \<Longrightarrow> i < length (buckets lh) \<Longrightarrow> num_items lh = length (buckets lh ! i @ others (buckets lh) i)"
  using mset_eq_length [OF mset_concat_at] by (simp add: lh_ok_def)

lemma lh_insert_present:
  assumes "lh_ok lh" and "lh_map lh (key (lh_comp lh) d) = Some e"
  obtains lh' where "OPENSSL_lh_insert alloc lh d = (True, Some e, lh')" and "lh_ok lh'"
    and "lh_map lh' = (lh_map lh)(key (lh_comp lh) d \<mapsto> d)"
    and "lh_comp lh' = lh_comp lh" and "lh_hash lh' = lh_hash lh"
proof -
  obtain i j h where n: "get_next_ptr_and_hash lh d = ((i, j), h)" by (metis prod.exhaust)
  note at = item_at_split [OF assms(1) n]
  note c = lh_map_chain [OF assms(1), of d, folded at(2)]
  have "OPENSSL_lh_retrieve lh d = Some e" using assms by (simp add: lh_retrieve_map)
  then obtain x where x: "item_at lh (i, j) = Some x" "item_data x = e"
    by (auto simp: OPENSSL_lh_retrieve_def n)
  from at(3) [OF x(1)] obtain xs ys where ch: "buckets lh ! i = xs @ x # ys" "length xs = j"
    "key (lh_comp lh) (item_data x) = key (lh_comp lh) d" by blast
  let ?x' = "x\<lparr>item_data := d\<rparr>" and ?R = "others (buckets lh) i"
  let ?c = "xs @ ?x' # ys"
  have H: "hash_equality (lh_hash lh) (lh_comp lh)" using assms(1) by (simp add: lh_ok_def)
  have "lh_hash lh (item_data x) = lh_hash lh d"
    using ch(3) hash_equality.key_eq_iff [OF H] hash_equality.hash_eq [OF H] by blast
  moreover have "belongs lh i x" using chain_members [OF assms(1) c(1)] by (simp add: ch(1))
  ultimately have "belongs lh i ?x'" by (auto simp: belongs_def)
  then have mem: "\<forall>y \<in> set ?c. belongs lh i y"
    using chain_members [OF assms(1) c(1)] unfolding ch(1) by auto
  have d: "distinct (keys (lh_comp lh) (?c @ ?R))" using c(3) ch(3) by (simp add: ch(1))
  have nn: "num_items lh = length (?c @ ?R)" using lh_num_items_chain [OF assms(1) c(1)] by (simp add: ch(1))
  note u = lh_ok_update [OF assms(1) mem c(1) d nn]
  let ?lh' = "lh\<lparr>buckets := (buckets lh)[i := ?c], num_items := num_items lh\<rparr>"
  have "OPENSSL_lh_insert alloc lh d = (True, Some e, ?lh')"
    using x ch(1,2) by (simp add: OPENSSL_lh_insert_def n update_chain_def list_update_append)
  moreover have "lh_map ?lh' = (lh_map lh)(key (lh_comp lh) d \<mapsto> d)"
    using map_of_replace_chain [of "lh_comp lh" xs x ys ?R ?x'] c(2,3) ch(3) unfolding u(2) by (simp add: ch(1))
  ultimately show thesis using u(1) by (intro that [of ?lh']) simp_all
qed

lemma lh_insert_absent:
  assumes "lh_ok lh" and "lh_map lh (key (lh_comp lh) d) = None" and "alloc sizeof_item"
  obtains lh1 where "OPENSSL_lh_insert alloc lh d = (True, None, lh_maybe_resize alloc lh1)"
    and "lh_ok lh1" and "lh_map lh1 = (lh_map lh)(key (lh_comp lh) d \<mapsto> d)"
    and "lh_comp lh1 = lh_comp lh" and "lh_hash lh1 = lh_hash lh"
    and "num_items lh1 = Suc (num_items lh)" and "num_buckets lh1 = num_buckets lh"
    and "callback_depth lh1 = callback_depth lh"
proof -
  obtain i j h where n: "get_next_ptr_and_hash lh d = ((i, j), h)" by (metis prod.exhaust)
  note at = item_at_split [OF assms(1) n]
  note c = lh_map_chain [OF assms(1), of d, folded at(2)]
  have "OPENSSL_lh_retrieve lh d = None" using assms by (simp add: lh_retrieve_map)
  then have x: "item_at lh (i, j) = None" by (auto simp: OPENSSL_lh_retrieve_def n)
  note ch = at(4) [OF x]
  let ?x = "\<lparr>item_data = d, item_hash = h\<rparr>" and ?R = "others (buckets lh) i"
  let ?c = "buckets lh ! i @ [?x]"
  have belongs: "belongs lh i ?x" using at(1,2) by (simp add: belongs_def)
  have mem: "\<forall>y \<in> set ?c. belongs lh i y"
    using chain_members [OF assms(1) c(1)] belongs by auto
  have d: "distinct (keys (lh_comp lh) (?c @ ?R))" using c(3,4) ch by auto
  have nn: "Suc (num_items lh) = length (?c @ ?R)" using lh_num_items_chain [OF assms(1) c(1)] by simp
  note u = lh_ok_update [OF assms(1) mem c(1) d nn]
  let ?lh' = "lh\<lparr>buckets := (buckets lh)[i := ?c], num_items := Suc (num_items lh)\<rparr>"
  have "OPENSSL_lh_insert alloc lh d = (True, None, lh_maybe_resize alloc ?lh')"
    using x ch assms(3) by (simp add: OPENSSL_lh_insert_def n update_chain_def Let_def)
  moreover have "lh_map ?lh' = (lh_map lh)(key (lh_comp lh) d \<mapsto> d)"
    unfolding u(2) c(2)
    using map_of_snoc_chain [OF conjunct2 [OF ch] c(4), of ?x] by (simp only: lhash_item.simps)
  moreover have "num_buckets ?lh' = num_buckets lh" by (simp add: num_buckets_def)
  ultimately show thesis using u(1) by (intro that [of ?lh']) simp_all
qed

lemma lh_delete_present:
  assumes "lh_ok lh" and "lh_map lh (key (lh_comp lh) d) = Some e"
  obtains lh1 where "OPENSSL_lh_delete alloc lh d = (Some e, lh_maybe_resize alloc lh1)" and "lh_ok lh1"
    and "lh_map lh1 = (lh_map lh)(key (lh_comp lh) d := None)"
    and "lh_comp lh1 = lh_comp lh" and "lh_hash lh1 = lh_hash lh"
proof -
  obtain i j h where n: "get_next_ptr_and_hash lh d = ((i, j), h)" by (metis prod.exhaust)
  note at = item_at_split [OF assms(1) n]
  note c = lh_map_chain [OF assms(1), of d, folded at(2)]
  have "OPENSSL_lh_retrieve lh d = Some e" using assms by (simp add: lh_retrieve_map)
  then obtain x where x: "item_at lh (i, j) = Some x" "item_data x = e"
    by (auto simp: OPENSSL_lh_retrieve_def n)
  from at(3) [OF x(1)] obtain xs ys where ch: "buckets lh ! i = xs @ x # ys" "length xs = j"
    "key (lh_comp lh) (item_data x) = key (lh_comp lh) d" by blast
  let ?R = "others (buckets lh) i" and ?c = "xs @ ys"
  have mem: "\<forall>y \<in> set ?c. belongs lh i y"
    using chain_members [OF assms(1) c(1)] unfolding ch(1) by auto
  have d: "distinct (keys (lh_comp lh) (?c @ ?R))" using c(3) by (simp add: ch(1))
  have nn: "num_items lh - 1 = length (?c @ ?R)" using lh_num_items_chain [OF assms(1) c(1)] by (simp add: ch(1))
  note u = lh_ok_update [OF assms(1) mem c(1) d nn]
  let ?lh' = "lh\<lparr>buckets := (buckets lh)[i := ?c], num_items := num_items lh - 1\<rparr>"
  have "OPENSSL_lh_delete alloc lh d = (Some e, lh_maybe_resize alloc ?lh')"
    using x ch(1,2) by (simp add: OPENSSL_lh_delete_def n update_chain_def Let_def)
  moreover have "lh_map ?lh' = (lh_map lh)(key (lh_comp lh) d := None)"
    using map_of_delete_chain [of "lh_comp lh" xs x ys ?R] c(2,3) ch(3) unfolding u(2) by (simp add: ch(1))
  ultimately show thesis using u(1) by (intro that [of ?lh']) simp_all
qed

section \<open>The interface of the table\<close>

text \<open>
  A store of elements that are looked up by the class of what they are equal to: what the
  clients of the table rely on. \<open>insert\<close> and \<open>delete\<close> are given with allocations that succeed.
\<close>

locale element_store =
  fixes ok :: "'s \<Rightarrow> bool"
    and abs :: "'s \<Rightarrow> 'k \<Rightarrow> 'd option"
    and class_of :: "'d \<Rightarrow> 'k"
    and retrieve :: "'s \<Rightarrow> 'd \<Rightarrow> 'd option"
    and insert :: "'d \<Rightarrow> 's \<Rightarrow> 's"
    and delete :: "'d \<Rightarrow> 's \<Rightarrow> 's"
    and count :: "'s \<Rightarrow> nat"
  assumes retrieve_abs: "ok s \<Longrightarrow> retrieve s d = abs s (class_of d)"
    and insert_ok: "ok s \<Longrightarrow> ok (insert d s)"
    and insert_abs: "ok s \<Longrightarrow> abs (insert d s) = (abs s)(class_of d \<mapsto> d)"
    and delete_ok: "ok s \<Longrightarrow> ok (delete d s)"
    and delete_abs: "ok s \<Longrightarrow> abs (delete d s) = (abs s)(class_of d := None)"
    and count_abs: "ok s \<Longrightarrow> finite (dom (abs s)) \<and> count s = card (dom (abs s))"
begin

lemma retrieve_insert:
  "ok s \<Longrightarrow> retrieve (insert d s) e = (if class_of e = class_of d then Some d else retrieve s e)"
  by (simp add: retrieve_abs insert_ok insert_abs)

lemma retrieve_delete:
  "ok s \<Longrightarrow> retrieve (delete d s) e = (if class_of e = class_of d then None else retrieve s e)"
  by (simp add: retrieve_abs delete_ok delete_abs)

lemma insert_all:
  "ok s \<Longrightarrow> ok (fold insert ds s) \<and>
     retrieve (fold insert ds s) e =
       (case find (\<lambda>d. class_of d = class_of e) (rev ds) of Some d \<Rightarrow> Some d | None \<Rightarrow> retrieve s e)"
proof (induction ds rule: rev_induct)
  case (snoc d ds)
  then show ?case by (auto simp: retrieve_insert insert_ok)
qed simp

lemma count_insert:
  "ok s \<Longrightarrow> count (insert d s) = (if retrieve s d = None then Suc (count s) else count s)"
  using count_abs [of s] count_abs [of "insert d s"]
  by (auto simp: insert_ok insert_abs retrieve_abs insert_absorb domI domIff)

lemma count_delete:
  "ok s \<Longrightarrow> count (delete d s) = (if retrieve s d = None then count s else count s - 1)"
  using count_abs [of s] count_abs [of "delete d s"]
  by (auto simp: delete_ok delete_abs retrieve_abs domI domIff intro!: arg_cong [where f = card])

end

end
