(* ===== verification/Lhash_Spec.thy ===== *)
theory Lhash_Spec
  imports Lhash_Map
begin

text \<open>
  The hash table, properties: it refines a finite map, its chains stay short, iteration visits
  every element once, and its interface for clients.
\<close>

section \<open>A table of byte strings\<close>

interpretation byte_hash: hash_equality OPENSSL_hash32 compare_set_of_element
proof
  fix x y z :: bytes
  show "compare_set_of_element x x = 0" by (rule set_of.same)
  show "compare_set_of_element y x = 0" if "compare_set_of_element x y = 0"
    using set_of.zero_eq [OF that] by simp
  show "compare_set_of_element x z = 0" if "compare_set_of_element x y = 0" "compare_set_of_element y z = 0"
    using that set_of.zero_eq by blast
  show "OPENSSL_hash32 x = OPENSSL_hash32 y" if "compare_set_of_element x y = 0"
    using set_of.zero_eq [OF that] by simp
qed

definition byte_table :: "bytes lhash" where
  "byte_table = \<lparr>num_items = 0, buckets = replicate kMinNumBuckets [], callback_depth = 0,
     lh_comp = compare_set_of_element, lh_hash = OPENSSL_hash32\<rparr>"

section \<open>Refinement\<close>

lemma lh_map_card:
  assumes "lh_ok lh"
  shows "finite (dom (lh_map lh)) \<and> num_items lh = card (dom (lh_map lh))"
proof -
  let ?ks = "keys (lh_comp lh) (concat (buckets lh))"
  have "dom (lh_map lh) = set ?ks" by (simp add: lh_map_def dom_map_of_conv_image_fst flip: set_map)
  moreover have "card (set ?ks) = length ?ks" using assms by (simp add: lh_ok_def distinct_card)
  ultimately show ?thesis using assms by (simp add: lh_ok_def)
qed

lemma lh_maybe_resize_fields [simp]:
  "lh_comp (lh_maybe_resize alloc lh) = lh_comp lh" "lh_hash (lh_maybe_resize alloc lh) = lh_hash lh"
  "num_items (lh_maybe_resize alloc lh) = num_items lh"
  "callback_depth (lh_maybe_resize alloc lh) = callback_depth lh"
  by (auto simp: lh_maybe_resize_def lh_rebucket_def Let_def)

lemma lh_insert_cases:
  assumes "lh_ok lh" and "OPENSSL_lh_insert alloc lh d = (ok, old, lh')"
  shows "(ok \<longleftrightarrow> OPENSSL_lh_retrieve lh d \<noteq> None \<or> alloc sizeof_item) \<and>
    old = OPENSSL_lh_retrieve lh d \<and> (\<not> ok \<longrightarrow> lh' = lh) \<and>
    (ok \<longrightarrow> lh_ok lh' \<and> lh_comp lh' = lh_comp lh \<and> lh_hash lh' = lh_hash lh \<and>
       lh_map lh' = (lh_map lh)(key (lh_comp lh) d \<mapsto> d))"
proof (cases "lh_map lh (key (lh_comp lh) d)")
  case (Some e)
  from lh_insert_present [OF assms(1) Some] obtain lh1 where "OPENSSL_lh_insert alloc lh d = (True, Some e, lh1)"
    "lh_ok lh1" "lh_map lh1 = (lh_map lh)(key (lh_comp lh) d \<mapsto> d)" "lh_comp lh1 = lh_comp lh" "lh_hash lh1 = lh_hash lh" .
  then show ?thesis using assms Some by (simp add: lh_retrieve_map)
next
  case None
  show ?thesis
  proof (cases "alloc sizeof_item")
    case True
    from lh_insert_absent [of lh d alloc, OF assms(1) None True] obtain lh1 where
      "OPENSSL_lh_insert alloc lh d = (True, None, lh_maybe_resize alloc lh1)" "lh_ok lh1"
      "lh_map lh1 = (lh_map lh)(key (lh_comp lh) d \<mapsto> d)" "lh_comp lh1 = lh_comp lh" "lh_hash lh1 = lh_hash lh" .
    then show ?thesis using assms None True lh_maybe_resize_ok [of lh1 alloc] by (simp add: lh_retrieve_map)
  next
    case False
    obtain i j h where n: "get_next_ptr_and_hash lh d = ((i, j), h)" by (metis prod.exhaust)
    have r: "OPENSSL_lh_retrieve lh d = None" using None by (simp add: lh_retrieve_map [OF assms(1)])
    then have "item_at lh (i, j) = None" by (simp add: OPENSSL_lh_retrieve_def n)
    then show ?thesis using assms(2) False r by (simp add: OPENSSL_lh_insert_def n)
  qed
qed

lemma lh_delete_cases:
  assumes "lh_ok lh" and "OPENSSL_lh_delete alloc lh d = (old, lh')"
  shows "old = OPENSSL_lh_retrieve lh d \<and> lh_ok lh' \<and> lh_comp lh' = lh_comp lh \<and> lh_hash lh' = lh_hash lh \<and>
    lh_map lh' = (lh_map lh)(key (lh_comp lh) d := None)"
proof (cases "lh_map lh (key (lh_comp lh) d)")
  case (Some e)
  from lh_delete_present [OF assms(1) Some] obtain lh1 where
    "OPENSSL_lh_delete alloc lh d = (Some e, lh_maybe_resize alloc lh1)" "lh_ok lh1"
    "lh_map lh1 = (lh_map lh)(key (lh_comp lh) d := None)" "lh_comp lh1 = lh_comp lh" "lh_hash lh1 = lh_hash lh" .
  then show ?thesis using assms Some lh_maybe_resize_ok [of lh1 alloc] by (simp add: lh_retrieve_map)
next
  case None
  obtain i j h where n: "get_next_ptr_and_hash lh d = ((i, j), h)" by (metis prod.exhaust)
  have r: "OPENSSL_lh_retrieve lh d = None" using None by (simp add: lh_retrieve_map [OF assms(1)])
  then have "item_at lh (i, j) = None" by (simp add: OPENSSL_lh_retrieve_def n)
  then show ?thesis using assms r None by (simp add: OPENSSL_lh_delete_def n fun_upd_idem)
qed

lemma lh_new_ok:
  "hash_equality hash cmp \<Longrightarrow> OPENSSL_lh_new alloc hash cmp = Some lh \<Longrightarrow>
     lh_ok lh \<and> lh_map lh = Map.empty \<and> lh_comp lh = cmp \<and> lh_hash lh = hash"
  by (auto simp: OPENSSL_lh_new_def lh_ok_def lh_map_def placed_def num_buckets_def kMinNumBuckets_def
      split: if_splits)

lemma byte_table_ok: "lh_ok byte_table" "lh_map byte_table = Map.empty" "lh_comp byte_table = compare_set_of_element"
  using lh_new_ok [OF byte_hash.hash_equality_axioms, of "\<lambda>_. True" byte_table]
  by (simp_all add: OPENSSL_lh_new_def byte_table_def)

text \<open>C23: the table is a finite map from the classes of equal elements to elements. Retrieval is
  its lookup; insertion returns what it replaces and updates it, failing without a change
  exactly when a new item cannot be allocated; deletion returns what it removes; the count of
  items is the size of the map; and all of them keep the table well-formed, whatever resizing
  they do and whether or not its allocation succeeds.\<close>

theorem lh_refines_map:
  assumes "lh_ok lh"
  shows "OPENSSL_lh_retrieve lh d = lh_map lh (key (lh_comp lh) d) \<and>
    OPENSSL_lh_num_items lh = card (dom (lh_map lh)) \<and>
    (case OPENSSL_lh_insert alloc lh d of (ok, old, lh') \<Rightarrow>
       (ok \<longleftrightarrow> lh_map lh (key (lh_comp lh) d) \<noteq> None \<or> alloc sizeof_item) \<and>
       old = lh_map lh (key (lh_comp lh) d) \<and> lh_ok lh' \<and>
       lh_map lh' = (if ok then (lh_map lh)(key (lh_comp lh) d \<mapsto> d) else lh_map lh)) \<and>
    (case OPENSSL_lh_delete alloc lh d of (old, lh') \<Rightarrow>
       old = lh_map lh (key (lh_comp lh) d) \<and> lh_ok lh' \<and>
       lh_map lh' = (lh_map lh)(key (lh_comp lh) d := None))"
proof -
  obtain ok old lh' where i: "OPENSSL_lh_insert alloc lh d = (ok, old, lh')" by (rule prod_cases3)
  obtain old2 lh2 where d: "OPENSSL_lh_delete alloc lh d = (old2, lh2)" by (rule prod.exhaust)
  show ?thesis
    using lh_insert_cases [OF assms i] lh_delete_cases [OF assms d] assms lh_map_card [OF assms]
    by (auto simp: i d lh_retrieve_map OPENSSL_lh_num_items_def)
qed

lemma lh_refines_map_witness:
  "OPENSSL_lh_retrieve byte_table [1] = None \<and>
   lh_map (snd (snd (OPENSSL_lh_insert (\<lambda>_. True) byte_table [1]))) = [key compare_set_of_element [1] \<mapsto> [1]]"
  using lh_refines_map [OF byte_table_ok(1), of "[1]" "\<lambda>_. True"]
  by (auto simp: byte_table_ok split: prod.splits)

section \<open>Short chains\<close>

text \<open>What the table keeps when its allocations succeed and nothing iterates over it: on average
  less than three items in a bucket.\<close>

definition lh_light :: "'d lhash \<Rightarrow> bool" where
  "lh_light lh \<longleftrightarrow> callback_depth lh = 0 \<and> num_items lh < 3 * num_buckets lh"

lemma lh_rebucket_size:
  assumes "0 < n"
  shows "num_buckets (lh_rebucket (\<lambda>_. True) lh n) =
    (if size_mul sizeof_ptr n div sizeof_ptr \<noteq> n then num_buckets lh else n)"
  using rebucket_all [OF assms, of "buckets lh"] by (simp add: lh_rebucket_def num_buckets_def Let_def)

lemma lh_maybe_resize_light:
  assumes "callback_depth lh = 0" and "num_items lh \<le> 3 * num_buckets lh" and "16 \<le> num_buckets lh"
    and "num_items lh < 2 ^ 60"
  shows "lh_light (lh_maybe_resize (\<lambda>_. True) lh)"
proof -
  define n where "n = num_buckets lh"
  define m where "m = num_items lh"
  have n: "16 \<le> n" and m: "m \<le> 3 * n" "m < 2 ^ 60" using assms by (simp_all add: n_def m_def)
  have avg: "2 < m div n \<longleftrightarrow> m = 3 * n"
    using n m(1) by (auto simp: less_eq_div_iff_mult_less_eq Suc_le_eq [symmetric] numeral_3_eq_3 [symmetric])
  have "m < 3 * num_buckets (lh_maybe_resize (\<lambda>_. True) lh)"
  proof (cases "m = 3 * n")
    case True
    then have big: "size_mul n 2 = 2 * n" "size_mul sizeof_ptr (2 * n) = 8 * (2 * n)"
      using m(2) by (simp_all add: size_mul_def sizeof_ptr_def)
    have "lh_maybe_resize (\<lambda>_. True) lh = lh_rebucket (\<lambda>_. True) lh (2 * n)"
      using assms(1) avg True big n
      by (simp add: lh_maybe_resize_def kMaxAverageChainLength_def Let_def flip: n_def m_def)
    then show ?thesis using lh_rebucket_size [of "2 * n" lh] big n True by (simp add: sizeof_ptr_def)
  next
    case False
    show ?thesis
    proof (cases "m div n < 1 \<and> 16 < n")
      case True
      define k where "k = (if n div 2 < 16 then 16 else n div 2)"
      have "m < n" using True n by (simp add: div_eq_0_iff)
      moreover have "n \<le> 2 * (n div 2) + 1" by linarith
      ultimately have "m < 3 * k" "0 < k" using n by (auto simp: k_def)
      moreover have "lh_maybe_resize (\<lambda>_. True) lh = lh_rebucket (\<lambda>_. True) lh k"
        using assms(1) avg False True
        by (simp add: lh_maybe_resize_def kMaxAverageChainLength_def kMinAverageChainLength_def
            kMinNumBuckets_def k_def Let_def flip: n_def m_def)
      ultimately show ?thesis using lh_rebucket_size [of k lh] \<open>m < n\<close> by (simp add: n_def)
    next
      case no: False
      have "lh_maybe_resize (\<lambda>_. True) lh = lh"
        using avg False no
        by (auto simp: lh_maybe_resize_def kMaxAverageChainLength_def kMinAverageChainLength_def
            kMinNumBuckets_def Let_def simp flip: n_def m_def)
      then show ?thesis using False m(1) by (simp add: n_def)
    qed
  qed
  then show ?thesis using assms(1) by (simp add: lh_light_def m_def)
qed

lemma lh_insert_replaced:
  "OPENSSL_lh_insert alloc lh d = (ok, Some e, lh') \<Longrightarrow>
     num_items lh' = num_items lh \<and> num_buckets lh' = num_buckets lh \<and> callback_depth lh' = callback_depth lh"
  by (auto simp: OPENSSL_lh_insert_def update_chain_def num_buckets_def Let_def split: option.splits prod.splits if_splits)

text \<open>C24: the load. As long as allocations succeed, insertion into a table with fewer than three
  items for each bucket leaves one with fewer than three items for each bucket, however many
  elements are inserted: the array grows in time.\<close>

theorem lh_insert_light:
  assumes "lh_ok lh" and "lh_light lh" and "num_items lh + 1 < 2 ^ 60"
    and "OPENSSL_lh_insert (\<lambda>_. True) lh d = (ok, old, lh')"
  shows "ok \<and> lh_ok lh' \<and> lh_light lh' \<and> kMinNumBuckets \<le> num_buckets lh' \<and>
    OPENSSL_lh_retrieve lh' d = Some d"
proof (cases "lh_map lh (key (lh_comp lh) d)")
  case (Some e)
  then have "OPENSSL_lh_retrieve lh d = Some e" using assms(1) by (simp add: lh_retrieve_map)
  moreover from this have "OPENSSL_lh_insert (\<lambda>_. True) lh d = (ok, Some e, lh')"
    using lh_insert_cases [OF assms(1,4)] assms(4) by simp
  ultimately show ?thesis
    using lh_insert_cases [OF assms(1,4)] lh_insert_replaced [of "\<lambda>_. True" lh d ok e lh'] assms(2)
      lh_retrieve_map [of lh' d] by (auto simp: lh_ok_def lh_light_def)
next
  case None
  from lh_insert_absent [of lh d "\<lambda>_. True", OF assms(1) None TrueI] obtain lh1 where
    1: "OPENSSL_lh_insert (\<lambda>_. True) lh d = (True, None, lh_maybe_resize (\<lambda>_. True) lh1)" "lh_ok lh1"
    "num_items lh1 = Suc (num_items lh)" "num_buckets lh1 = num_buckets lh" "callback_depth lh1 = callback_depth lh" .
  have "lh_light lh'"
    using 1 assms lh_maybe_resize_light [of lh1] by (auto simp: lh_light_def lh_ok_def kMinNumBuckets_def)
  moreover have "ok" using 1 assms(4) by simp
  ultimately show ?thesis using lh_insert_cases [OF assms(1,4)] lh_retrieve_map [of lh' d]
    by (auto simp: lh_ok_def)
qed

lemma lh_insert_light_witness:
  "OPENSSL_lh_retrieve (snd (snd (OPENSSL_lh_insert (\<lambda>_. True) byte_table [1]))) [1] = Some [1]"
proof -
  obtain ok old lh' where i: "OPENSSL_lh_insert (\<lambda>_. True) byte_table [1] = (ok, old, lh')" by (rule prod_cases3)
  have "lh_light byte_table" "num_items byte_table + 1 < 2 ^ 60"
    by (simp_all add: lh_light_def byte_table_def num_buckets_def kMinNumBuckets_def)
  from lh_insert_light [OF byte_table_ok(1) this i] show ?thesis by (simp add: i)
qed

section \<open>Iteration\<close>

text \<open>Iteration. The callback is called once for each element of the table, in the order of the
  buckets, also when the loop may then resize, and the table is the same map afterwards.\<close>

theorem lh_doall_visits:
  assumes "lh_ok lh"
  shows "\<exists>ds lh'. OPENSSL_lh_doall_arg alloc func (Some lh) s = (fold func ds s, Some lh') \<and>
    distinct (map (key (lh_comp lh)) ds) \<and> set ds = ran (lh_map lh) \<and>
    lh_ok lh' \<and> lh_map lh' = lh_map lh"
proof -
  let ?items = "concat (buckets lh)"
  define lh1 where "lh1 = (if callback_depth lh < - 1 then lh\<lparr>callback_depth := callback_depth lh + 1\<rparr> else lh)"
  define lh2 where "lh2 = (if callback_depth lh1 < - 1 then lh1\<lparr>callback_depth := callback_depth lh1 - 1\<rparr> else lh1)"
  have same: "buckets lh2 = buckets lh" "buckets lh1 = buckets lh" by (simp_all add: lh1_def lh2_def)
  have ok: "lh_ok lh2" "lh_map lh2 = lh_map lh"
    using assms by (simp_all add: lh1_def lh2_def lh_ok_def lh_map_def num_buckets_def)
  have fold: "fold (\<lambda>chain arg. fold (\<lambda>cur arg. func (item_data cur) arg) chain arg) bs s =
      fold func (map item_data (concat bs)) s" for bs s
    by (induction bs arbitrary: s) (simp_all add: fold_map o_def)
  have "OPENSSL_lh_doall_arg alloc func (Some lh) s =
      (fold func (map item_data ?items) s, Some (lh_maybe_resize alloc lh2))"
    unfolding OPENSSL_lh_doall_arg_def option.case Let_def lh1_def [symmetric] lh2_def [symmetric] fold same ..
  moreover have d: "distinct (keys (lh_comp lh) ?items)" using assms by (simp add: lh_ok_def)
  then have "distinct (map (key (lh_comp lh)) (map item_data ?items))" by (simp add: keys_def o_def)
  moreover have "set (map item_data ?items) = ran (lh_map lh)"
    using ran_distinct [of "pairs (lh_comp lh) ?items"] d
    by (simp add: lh_map_def) (simp add: pairs_def image_image)
  ultimately show ?thesis using lh_maybe_resize_ok [OF ok(1)] ok(2)
    by (intro exI [of _ "map item_data ?items"] exI [of _ "lh_maybe_resize alloc lh2"] conjI) simp_all
qed

lemma lh_doall_visits_witness:
  "fst (OPENSSL_lh_doall_arg (\<lambda>_. True) (\<lambda>d n. Suc n) (Some byte_table) (0 :: nat)) = 0"
  using lh_doall_visits [OF byte_table_ok(1), of "\<lambda>_. True" "\<lambda>d n. Suc n" 0] by (auto simp: byte_table_ok)

section \<open>The interface\<close>

text \<open>For each hash and comparison that satisfy the contract the table is an element store; the
  clients instantiate this.\<close>

definition lh_with :: "('d \<Rightarrow> u32) \<Rightarrow> ('d \<Rightarrow> 'd \<Rightarrow> int) \<Rightarrow> 'd lhash \<Rightarrow> bool" where
  "lh_with hash cmp lh \<longleftrightarrow> lh_ok lh \<and> lh_hash lh = hash \<and> lh_comp lh = cmp"

definition lh_put :: "(nat \<Rightarrow> bool) \<Rightarrow> 'd \<Rightarrow> 'd lhash \<Rightarrow> 'd lhash" where
  "lh_put alloc d lh = snd (snd (OPENSSL_lh_insert alloc lh d))"

definition lh_remove :: "(nat \<Rightarrow> bool) \<Rightarrow> 'd \<Rightarrow> 'd lhash \<Rightarrow> 'd lhash" where
  "lh_remove alloc d lh = snd (OPENSSL_lh_delete alloc lh d)"

definition lh_usable :: "(nat \<Rightarrow> bool) \<Rightarrow> ('d \<Rightarrow> u32) \<Rightarrow> ('d \<Rightarrow> 'd \<Rightarrow> int) \<Rightarrow> 'd lhash \<Rightarrow> bool" where
  "lh_usable alloc hash cmp lh \<longleftrightarrow> lh_with hash cmp lh \<and> alloc sizeof_item"

lemma lh_put_succeeds:
  assumes "lh_usable alloc hash cmp lh"
  shows "OPENSSL_lh_insert alloc lh d = (True, OPENSSL_lh_retrieve lh d, lh_put alloc d lh)"
proof -
  obtain b old lh' where i: "OPENSSL_lh_insert alloc lh d = (b, old, lh')" by (rule prod_cases3)
  show ?thesis
    using lh_insert_cases [OF _ i] assms by (simp add: i lh_put_def lh_usable_def lh_with_def)
qed

lemma lh_element_store:
  "element_store (lh_usable alloc hash cmp) lh_map (key cmp) OPENSSL_lh_retrieve (lh_put alloc) (lh_remove alloc)
     OPENSSL_lh_num_items"
proof
  fix s :: "'a lhash" and d
  assume w: "lh_usable alloc hash cmp s"
  then have ok: "lh_ok s" "lh_hash s = hash" "lh_comp s = cmp" "alloc sizeof_item"
    by (simp_all add: lh_usable_def lh_with_def)
  obtain old2 lh2 where e: "OPENSSL_lh_delete alloc s d = (old2, lh2)" by (rule prod.exhaust)
  show "OPENSSL_lh_retrieve s d = lh_map s (key cmp d)" using ok by (simp add: lh_retrieve_map)
  show "lh_usable alloc hash cmp (lh_put alloc d s)" "lh_map (lh_put alloc d s) = (lh_map s)(key cmp d \<mapsto> d)"
    using lh_insert_cases [OF ok(1) lh_put_succeeds [OF w]] ok by (simp_all add: lh_usable_def lh_with_def)
  show "lh_usable alloc hash cmp (lh_remove alloc d s)" "lh_map (lh_remove alloc d s) = (lh_map s)(key cmp d := None)"
    using lh_delete_cases [OF ok(1) e] ok by (simp_all add: lh_remove_def e lh_usable_def lh_with_def)
  show "finite (dom (lh_map s)) \<and> OPENSSL_lh_num_items s = card (dom (lh_map s))"
    using lh_map_card [OF ok(1)] by (simp add: OPENSSL_lh_num_items_def)
qed

end
