(* ===== verification/C_String.thy ===== *)
theory C_String
  imports Lhash_Spec
begin

text \<open>
  C strings and the string helpers of \<open>crypto/mem.c\<close> (lines 376 to 467 and 531 to 553). A pointer to a
  string is the memory from there on: the string ends at the first zero byte, or with the list.
  Plain \<open>char\<close> is signed, as on the platforms the application is built for.
\<close>

definition cstr :: "bytes \<Rightarrow> bytes" where
  "cstr s = takeWhile (\<lambda>b. b \<noteq> 0) s"

definition strlen :: "bytes \<Rightarrow> nat" where
  "strlen s = length (cstr s)"

text \<open>C's \<open>strcmp\<close>; only the sign of its result has a meaning.\<close>

definition strcmp :: "bytes \<Rightarrow> bytes \<Rightarrow> int" where
  "strcmp a b = OPENSSL_memcmp (cstr a @ [0]) (cstr b @ [0])"

section \<open>Copies\<close>

text \<open>The copy, up to its terminating zero; \<open>None\<close> for NULL.\<close>

definition OPENSSL_strdup :: "(nat \<Rightarrow> bool) \<Rightarrow> bytes option \<Rightarrow> bytes option" where
  "OPENSSL_strdup alloc s =
     (case s of None \<Rightarrow> None
      | Some s \<Rightarrow> let len = size_add (strlen s) 1 in if alloc len then Some (cstr s) else None)"

text \<open>The loop gives the bytes it copied, the rest of the source, and what is left of the size.\<close>

fun strlcpy_loop :: "bytes \<Rightarrow> nat \<Rightarrow> bytes \<times> bytes \<times> nat" where
  "strlcpy_loop src dst_size =
     (case src of [] \<Rightarrow> ([], [], dst_size)
      | c # src' \<Rightarrow>
          if dst_size > 1 \<and> c \<noteq> 0
          then case strlcpy_loop src' (dst_size - 1) of (copied, rest, left) \<Rightarrow> (c # copied, rest, left)
          else ([], src, dst_size))"

declare strlcpy_loop.simps [simp del]

text \<open>The memory at \<open>dst\<close> afterwards, and the length of the string it tried to create.\<close>

definition OPENSSL_strlcpy :: "bytes \<Rightarrow> bytes \<Rightarrow> nat \<Rightarrow> bytes \<times> nat" where
  "OPENSSL_strlcpy dst src dst_size =
     (case strlcpy_loop src dst_size of (copied, rest, left) \<Rightarrow>
        (if left \<noteq> 0 then copied @ [0] @ drop (Suc (length copied)) dst
         else copied @ drop (length copied) dst,
         length copied + strlen rest))"

fun strlcat_skip :: "bytes \<Rightarrow> nat \<Rightarrow> nat" where
  "strlcat_skip dst 0 = 0"
| "strlcat_skip [] (Suc dst_size) = 0"
| "strlcat_skip (c # dst) (Suc dst_size) = (if c \<noteq> 0 then Suc (strlcat_skip dst dst_size) else 0)"

definition OPENSSL_strlcat :: "bytes \<Rightarrow> bytes \<Rightarrow> nat \<Rightarrow> bytes \<times> nat" where
  "OPENSSL_strlcat dst src dst_size =
     (let l = strlcat_skip dst dst_size
      in case OPENSSL_strlcpy (drop l dst) src (dst_size - l) of (tail, n) \<Rightarrow> (take l dst @ tail, l + n))"

section \<open>Characters\<close>

definition OPENSSL_isxdigit :: "u8 \<Rightarrow> bool" where
  "OPENSSL_isxdigit c \<longleftrightarrow> OPENSSL_isdigit c \<or> (0x61 \<le> c \<and> c \<le> 0x66) \<or> (0x41 \<le> c \<and> c \<le> 0x46)"

definition OPENSSL_fromxdigit :: "u8 \<Rightarrow> u8 option" where
  "OPENSSL_fromxdigit c =
     (if OPENSSL_isdigit c then Some (c - 0x30)
      else if 0x61 \<le> c \<and> c \<le> 0x66 then Some (c - 0x61 + 10)
      else if 0x41 \<le> c \<and> c \<le> 0x46 then Some (c - 0x41 + 10)
      else None)"

definition OPENSSL_isalnum :: "u8 \<Rightarrow> bool" where
  "OPENSSL_isalnum c \<longleftrightarrow> OPENSSL_isalpha c \<or> OPENSSL_isdigit c"

definition OPENSSL_tolower :: "int \<Rightarrow> int" where
  "OPENSSL_tolower c = (if 0x41 \<le> c \<and> c \<le> 0x5A then c + (0x61 - 0x41) else c)"

definition OPENSSL_isspace :: "u8 \<Rightarrow> bool" where
  "OPENSSL_isspace c \<longleftrightarrow> c = 9 \<or> c = 10 \<or> c = 11 \<or> c = 12 \<or> c = 13 \<or> c = 32"

section \<open>Comparison without regard to case\<close>

text \<open>The character at the head of the memory.\<close>

definition char_of_mem :: "bytes \<Rightarrow> int" where
  "char_of_mem s = (case s of [] \<Rightarrow> 0 | c # _ \<Rightarrow> sint c)"

fun OPENSSL_strncasecmp :: "bytes \<Rightarrow> bytes \<Rightarrow> nat \<Rightarrow> int" where
  "OPENSSL_strncasecmp a b 0 = 0"
| "OPENSSL_strncasecmp a b (Suc n) =
     (let aa = OPENSSL_tolower (char_of_mem a); bb = OPENSSL_tolower (char_of_mem b)
      in if aa < bb then - 1
         else if aa > bb then 1
         else if aa = 0 then 0
         else OPENSSL_strncasecmp (tl a) (tl b) n)"

function OPENSSL_strcasecmp :: "bytes \<Rightarrow> bytes \<Rightarrow> int" where
  "OPENSSL_strcasecmp a b =
     (let aa = OPENSSL_tolower (char_of_mem a); bb = OPENSSL_tolower (char_of_mem b)
      in if aa < bb then - 1
         else if aa > bb then 1
         else if aa = 0 then 0
         else OPENSSL_strcasecmp (tl a) (tl b))"
  by auto
termination
  by (relation "measure (\<lambda>(a, b). length a)")
    (auto simp: char_of_mem_def OPENSSL_tolower_def split: list.splits)

declare OPENSSL_strcasecmp.simps [simp del]

section \<open>Lemmas\<close>

lemma cstr_simps [simp]:
  "cstr [] = []" "cstr (c # s) = (if c = 0 then [] else c # cstr s)"
  by (simp_all add: cstr_def)

lemma cstr_zero_free [simp]: "0 \<notin> set (cstr s)"
  using set_takeWhileD [of 0 "\<lambda>b. b \<noteq> 0" s] by (auto simp: cstr_def)

lemma cstr_id: "0 \<notin> set s \<Longrightarrow> cstr s = s"
  by (auto simp: cstr_def takeWhile_eq_all_conv)

lemma cstr_cstr [simp]: "cstr (cstr s) = cstr s"
  by (simp add: cstr_id)

lemma strlen_simps [simp]: "strlen [] = 0" "strlen (c # s) = (if c = 0 then 0 else Suc (strlen s))"
  by (simp_all add: strlen_def)

lemma strlen_cstr [simp]: "strlen (cstr s) = strlen s"
  by (simp add: strlen_def)

lemma strhash_cstr: "OPENSSL_strhash s = OPENSSL_hash32 (cstr s)"
  by (simp add: OPENSSL_strhash_def cstr_def)

lemma memcmp_zero: "length a = length b \<Longrightarrow> OPENSSL_memcmp a b = 0 \<longleftrightarrow> a = b"
  by (induction a b rule: OPENSSL_memcmp.induct) auto

lemma memcmp_terminated:
  "0 \<notin> set x \<Longrightarrow> 0 \<notin> set y \<Longrightarrow> OPENSSL_memcmp (x @ [0]) (y @ [0]) = 0 \<longleftrightarrow> x = y"
proof (induction x arbitrary: y)
  case Nil
  then show ?case by (cases y) auto
next
  case (Cons a x)
  then show ?case by (cases y) auto
qed

lemma strcmp_zero: "strcmp a b = 0 \<longleftrightarrow> cstr a = cstr b"
  by (simp add: strcmp_def memcmp_terminated)

lemma strlcpy_loop_Nil: "strlcpy_loop [] n = ([], [], n)"
  by (subst strlcpy_loop.simps) simp

lemma strlcpy_loop_full: "n \<le> 1 \<Longrightarrow> strlcpy_loop s n = ([], s, n)"
  by (subst strlcpy_loop.simps) (simp split: list.split)

lemma strlcpy_loop_end: "strlcpy_loop (0 # s) n = ([], 0 # s, n)"
  by (subst strlcpy_loop.simps) simp

lemma strlcpy_loop_char:
  "c \<noteq> 0 \<Longrightarrow> strlcpy_loop (c # s) (Suc (Suc m)) =
     (case strlcpy_loop s (Suc m) of (copied, rest, left) \<Rightarrow> (c # copied, rest, left))"
  by (subst strlcpy_loop.simps) simp

lemmas strlcpy_loop_steps = strlcpy_loop_Nil strlcpy_loop_full strlcpy_loop_end strlcpy_loop_char

lemma strlcpy_loop_eq:
  "strlcpy_loop src n =
     (let k = min (n - 1) (strlen src) in (take k (cstr src), drop k src, n - k))"
proof (induction src arbitrary: n)
  case (Cons c src)
  show ?case
  proof (cases "n \<le> 1 \<or> c = 0")
    case False
    define m where "m = n - 2"
    have "n = Suc (Suc m)" using False by (auto simp: m_def)
    then show ?thesis using Cons [of "Suc m"] False by (simp add: strlcpy_loop_steps Let_def)
  qed (auto simp: strlcpy_loop_steps Let_def)
qed (simp add: strlcpy_loop_steps Let_def)

lemma strlen_drop: "k \<le> strlen s \<Longrightarrow> strlen (drop k s) = strlen s - k"
proof (induction s arbitrary: k)
  case (Cons c s)
  then show ?case by (cases k) (auto split: if_splits)
qed simp

text \<open>What the caller gets: the longest prefix that fits, terminated, within the size, and the
  length of the whole string.\<close>

lemma strlcpy_eq:
  "OPENSSL_strlcpy dst src dst_size =
     (if dst_size = 0 then dst
      else take (dst_size - 1) (cstr src) @ [0] @ drop (Suc (min (dst_size - 1) (strlen src))) dst,
      strlen src)"
proof -
  define k where "k = min (dst_size - 1) (strlen src)"
  have k: "k + strlen (drop k src) = strlen src" by (simp add: strlen_drop k_def)
  have t: "take k (cstr src) = take (dst_size - 1) (cstr src)" "length (take k (cstr src)) = k"
    by (simp_all add: strlen_def min_def k_def)
  have l: "strlcpy_loop src dst_size = (take k (cstr src), drop k src, dst_size - k)"
    by (simp add: strlcpy_loop_eq Let_def k_def)
  have d: "Suc (min (dst_size - 1) (strlen src)) = Suc k" by (simp add: k_def)
  have n: "dst_size - k = 0 \<longleftrightarrow> dst_size = 0" by (auto simp: k_def)
  have "k = 0" if "dst_size = 0" using that by (simp add: k_def)
  then show ?thesis
    unfolding OPENSSL_strlcpy_def l prod.case t(2) k n d unfolding t(1)
    by (cases "dst_size = 0") simp_all
qed

lemma strlcpy_length: "dst_size \<le> length dst \<Longrightarrow> length (fst (OPENSSL_strlcpy dst src dst_size)) = length dst"
  by (auto simp: strlcpy_eq strlen_def)

lemma strlcpy_string:
  "0 < dst_size \<Longrightarrow> cstr (fst (OPENSSL_strlcpy dst src dst_size)) = take (dst_size - 1) (cstr src)"
proof -
  assume "0 < dst_size"
  have "cstr (x @ 0 # y) = x" if "0 \<notin> set x" for x y :: bytes using that by (induction x) auto
  moreover have "0 \<notin> set (take (dst_size - 1) (cstr src))" by (meson cstr_zero_free in_set_takeD)
  ultimately show ?thesis using \<open>0 < dst_size\<close> by (simp add: strlcpy_eq)
qed

end
