(* ===== verification/Bio.thy ===== *)
theory Bio
  imports Bio_Pair Bio_Mem C_String
begin

text \<open>
  The functions of \<open>crypto/bio/bio.c\<close> that work on any BIO, with the two methods of the model.
  A \<open>BIO *\<close> that may be NULL is an optional address. Bytes are in the order of the calls: a write
  takes the first \<open>inl\<close> of its source, a read returns what it left in the output.
\<close>

section \<open>Creation, release, chains\<close>

definition BIO_TYPE_MEM :: u32 where "BIO_TYPE_MEM = 1 OR 0x0400"
definition BIO_TYPE_BIO :: u32 where "BIO_TYPE_BIO = 19 OR 0x0400"

fun method_type :: "bio_method \<Rightarrow> u32" where
  "method_type methods_biop = BIO_TYPE_BIO"
| "method_type mem_method = BIO_TYPE_MEM"

definition sizeof_bio :: nat where "sizeof_bio = 72"

definition zero_bio :: "bio_method \<Rightarrow> bio" where
  "zero_bio m = \<lparr>meth = m, bio_init = False, bio_shutdown = 0, bio_flags = 0, retry_reason = 0, bio_num = 0,
     references = 0, bio_ptr = Null_ptr, next_bio = None, num_read = 0, num_write = 0\<rparr>"

definition release_bio :: "nat \<Rightarrow> bio_store \<Rightarrow> bio_store" where
  "release_bio b h = h\<lparr>bios := (bios h)(b := None)\<rparr>"

definition BIO_new :: "cbb_env \<Rightarrow> bio_method \<Rightarrow> bio_store \<Rightarrow> nat option \<times> bio_store" where
  "BIO_new env m h =
     (if \<not> alloc_ok env sizeof_bio then (None, h)
      else let b = next_address h;
               h = set_bio b ((zero_bio m)\<lparr>bio_shutdown := 1, references := 1\<rparr>) (h\<lparr>next_address := b + 1\<rparr>);
               r = (case m of methods_biop \<Rightarrow> bio_new env b h | mem_method \<Rightarrow> mem_new env b h)
           in if fst r then (Some b, snd r) else (None, release_bio b (snd r)))"

definition bio_destroy :: "nat \<Rightarrow> bio_store \<Rightarrow> bio_store" where
  "bio_destroy b h = (case meth (bio_at h b) of methods_biop \<Rightarrow> bio_free b h | mem_method \<Rightarrow> mem_free b h)"

definition BIO_pop :: "nat option \<Rightarrow> bio_store \<Rightarrow> nat option \<times> bio_store" where
  "BIO_pop b h = (case b of None \<Rightarrow> (None, h)
     | Some a \<Rightarrow> (next_bio (bio_at h a), upd_bio a (next_bio_update (\<lambda>_. None)) h))"

partial_function (option) BIO_free :: "nat option \<Rightarrow> bool io" where
  "BIO_free b h =
     (case b of
        None \<Rightarrow> Some (True, h)
      | Some a \<Rightarrow>
          Option.bind (CRYPTO_refcount_dec_and_test_zero (references (bio_at h a))) (\<lambda>r.
            let h = upd_bio a (references_update (\<lambda>_. snd r)) h in
            if \<not> fst r then Some (False, h)
            else let p = BIO_pop (Some a) h
                 in BIO_free (fst p) (release_bio a (bio_destroy a (snd p)))))"

definition BIO_up_ref :: "nat \<Rightarrow> bio_store \<Rightarrow> bio_store" where
  "BIO_up_ref b h = upd_bio b (references_update CRYPTO_refcount_inc) h"

definition BIO_free_all :: "nat option \<Rightarrow> unit io" where
  "BIO_free_all b h = map_option (\<lambda>r. ((), snd r)) (BIO_free b h)"

definition BIO_vfree :: "nat option \<Rightarrow> unit io" where
  "BIO_vfree b h = map_option (\<lambda>r. ((), snd r)) (BIO_free b h)"

partial_function (option) last_bio :: "bio_store \<Rightarrow> nat \<Rightarrow> nat option" where
  "last_bio h b = (case next_bio (bio_at h b) of None \<Rightarrow> Some b | Some c \<Rightarrow> last_bio h c)"

definition BIO_push :: "nat option \<Rightarrow> nat option \<Rightarrow> nat option io" where
  "BIO_push b appended h =
     (case b of
        None \<Rightarrow> Some (None, h)
      | Some a \<Rightarrow> Option.bind (last_bio h a) (\<lambda>c. Some (b, upd_bio c (next_bio_update (\<lambda>_. appended)) h)))"

definition BIO_next :: "nat option \<Rightarrow> bio_store \<Rightarrow> nat option" where
  "BIO_next b h = (case b of None \<Rightarrow> None | Some a \<Rightarrow> next_bio (bio_at h a))"

definition type_matches :: "u32 \<Rightarrow> u32 \<Rightarrow> u32 \<Rightarrow> bool" where
  "type_matches msk type t = (if msk = 0 then t AND type \<noteq> 0 else t = type)"

partial_function (option) find_type_loop :: "bio_store \<Rightarrow> u32 \<Rightarrow> u32 \<Rightarrow> nat \<Rightarrow> nat option option" where
  "find_type_loop h msk type b =
     (if type_matches msk type (method_type (meth (bio_at h b))) then Some (Some b)
      else (case next_bio (bio_at h b) of None \<Rightarrow> Some None | Some c \<Rightarrow> find_type_loop h msk type c))"

definition BIO_find_type :: "nat option \<Rightarrow> u32 \<Rightarrow> bio_store \<Rightarrow> nat option option" where
  "BIO_find_type b type h =
     (case b of None \<Rightarrow> Some None | Some a \<Rightarrow> find_type_loop h (type AND 0xff) type a)"

definition BIO_method_type :: "nat \<Rightarrow> bio_store \<Rightarrow> u32" where
  "BIO_method_type b h = method_type (meth (bio_at h b))"

section \<open>Reading and writing\<close>

definition BIO_read :: "nat option \<Rightarrow> int \<Rightarrow> (int \<times> bytes) io" where
  "BIO_read b len h =
     (case b of
        None \<Rightarrow> Some ((- 2, []), h)
      | Some a \<Rightarrow>
          if \<not> bio_init (bio_at h a) then Some ((- 2, []), h)
          else if len \<le> 0 then Some ((0, []), h)
          else Option.bind
            (case meth (bio_at h a) of
               methods_biop \<Rightarrow> bio_read a (nat len) h
             | mem_method \<Rightarrow> Some (mem_read a len h))
            (\<lambda>r. Some (fst r, if fst (fst r) > 0
                 then upd_bio a (num_read_update (\<lambda>n. size_add n (nat (fst (fst r))))) (snd r) else snd r)))"

text \<open>A pair has no \<open>gets\<close>.\<close>

definition BIO_gets :: "nat option \<Rightarrow> int \<Rightarrow> (int \<times> bytes) io" where
  "BIO_gets b len h =
     (case b of
        None \<Rightarrow> Some ((- 2, []), h)
      | Some a \<Rightarrow>
          (case meth (bio_at h a) of
             methods_biop \<Rightarrow> Some ((- 2, []), h)
           | mem_method \<Rightarrow>
               if \<not> bio_init (bio_at h a) then Some ((- 2, []), h)
               else if len \<le> 0 then Some ((0, []), h)
               else let r = mem_gets a len h
                 in Some (fst r, if fst (fst r) > 0
                      then upd_bio a (num_read_update (\<lambda>n. size_add n (nat (fst (fst r))))) (snd r) else snd r)))"

definition BIO_write :: "cbb_env \<Rightarrow> nat option \<Rightarrow> bytes \<Rightarrow> int \<Rightarrow> int io" where
  "BIO_write env b src inl h =
     (case b of
        None \<Rightarrow> Some (- 2, h)
      | Some a \<Rightarrow>
          if \<not> bio_init (bio_at h a) then Some (- 2, h)
          else if inl \<le> 0 then Some (0, h)
          else Option.bind
            (case meth (bio_at h a) of
               methods_biop \<Rightarrow> bio_write a (take (nat inl) src) h
             | mem_method \<Rightarrow> Some (mem_write env a (take (nat inl) src) h))
            (\<lambda>r. Some (fst r, if fst r > 0
                 then upd_bio a (num_write_update (\<lambda>n. size_add n (nat (fst r)))) (snd r) else snd r)))"

partial_function (option) BIO_write_all :: "cbb_env \<Rightarrow> nat option \<Rightarrow> bytes \<Rightarrow> bool io" where
  "BIO_write_all env b data h =
     (if length data > 0 then
        Option.bind (BIO_write env b data (if length data > INT_MAX then int INT_MAX else int (length data)) h)
          (\<lambda>r. if fst r \<le> 0 then Some (False, snd r)
               else BIO_write_all env b (drop (nat (fst r)) data) (snd r))
      else Some (True, h))"

definition BIO_puts :: "cbb_env \<Rightarrow> nat option \<Rightarrow> bytes \<Rightarrow> int io" where
  "BIO_puts env b s h =
     (let len = strlen s in
      if len > INT_MAX then Some (- 1, h) else BIO_write env b s (int len) h)"

fun indent_loop :: "cbb_env \<Rightarrow> nat option \<Rightarrow> nat \<Rightarrow> bool io" where
  "indent_loop env b 0 h = Some (True, h)"
| "indent_loop env b (Suc n) h =
     Option.bind (BIO_puts env b [0x20, 0] h)
       (\<lambda>r. if fst r \<noteq> 1 then Some (False, snd r) else indent_loop env b n (snd r))"

definition BIO_indent :: "cbb_env \<Rightarrow> nat option \<Rightarrow> nat \<Rightarrow> nat \<Rightarrow> bool io" where
  "BIO_indent env b indent max_indent = indent_loop env b (if indent > max_indent then max_indent else indent)"

section \<open>Control\<close>

definition BIO_ctrl :: "nat option \<Rightarrow> int \<Rightarrow> int \<Rightarrow> ctrl_arg \<Rightarrow> bio_store \<Rightarrow> (int \<times> ctrl_out) \<times> bio_store" where
  "BIO_ctrl b cmd larg arg h =
     (case b of
        None \<Rightarrow> ((0, No_out), h)
      | Some a \<Rightarrow> (case meth (bio_at h a) of
            methods_biop \<Rightarrow> bio_ctrl a cmd larg arg h
          | mem_method \<Rightarrow> mem_ctrl a cmd larg arg h))"

definition ctrl_int :: "nat option \<Rightarrow> int \<Rightarrow> int \<Rightarrow> ctrl_arg \<Rightarrow> bio_store \<Rightarrow> int \<times> bio_store" where
  "ctrl_int b cmd larg arg h = (let r = BIO_ctrl b cmd larg arg h in (to_int (fst (fst r)), snd r))"

definition BIO_flush :: "nat option \<Rightarrow> bio_store \<Rightarrow> int \<times> bio_store" where
  "BIO_flush b = ctrl_int b BIO_CTRL_FLUSH 0 No_arg"

definition BIO_reset :: "nat option \<Rightarrow> bio_store \<Rightarrow> int \<times> bio_store" where
  "BIO_reset b = ctrl_int b BIO_CTRL_RESET 0 No_arg"

definition BIO_eof :: "nat option \<Rightarrow> bio_store \<Rightarrow> int \<times> bio_store" where
  "BIO_eof b = ctrl_int b BIO_CTRL_EOF 0 No_arg"

definition BIO_set_close :: "nat option \<Rightarrow> int \<Rightarrow> bio_store \<Rightarrow> int \<times> bio_store" where
  "BIO_set_close b flag = ctrl_int b BIO_CTRL_SET_CLOSE flag No_arg"

definition BIO_pending :: "nat option \<Rightarrow> bio_store \<Rightarrow> nat" where
  "BIO_pending b h =
     (let r = fst (fst (BIO_ctrl b BIO_CTRL_PENDING 0 No_arg h)) in if r < 0 then 0 else to_size r)"

definition BIO_ctrl_pending :: "nat option \<Rightarrow> bio_store \<Rightarrow> nat" where
  "BIO_ctrl_pending b h = BIO_pending b h"

definition BIO_wpending :: "nat option \<Rightarrow> bio_store \<Rightarrow> nat" where
  "BIO_wpending b h =
     (let r = fst (fst (BIO_ctrl b BIO_CTRL_WPENDING 0 No_arg h)) in if r < 0 then 0 else to_size r)"

definition BIO_number_read :: "nat \<Rightarrow> bio_store \<Rightarrow> nat" where
  "BIO_number_read b h = num_read (bio_at h b)"

definition BIO_number_written :: "nat \<Rightarrow> bio_store \<Rightarrow> nat" where
  "BIO_number_written b h = num_write (bio_at h b)"

text \<open>Neither method has a \<open>callback_ctrl\<close>; \<open>BIO_ptr_ctrl\<close> passes the place for the result.\<close>

definition BIO_callback_ctrl :: "nat option \<Rightarrow> int \<Rightarrow> int" where
  "BIO_callback_ctrl b cmd = 0"

definition BIO_ptr_ctrl :: "nat option \<Rightarrow> int \<Rightarrow> int \<Rightarrow> bio_store \<Rightarrow> ctrl_out option \<times> bio_store" where
  "BIO_ptr_ctrl b cmd larg h =
     (let r = BIO_ctrl b cmd larg Out_arg h in (if fst (fst r) \<le> 0 then None else Some (snd (fst r)), snd r))"

section \<open>Memory BIOs\<close>

text \<open>The \<open>BUF_MEM\<close> of a read-only BIO points at the bytes of the caller.\<close>

definition BIO_new_mem_buf :: "cbb_env \<Rightarrow> bytes option \<Rightarrow> int \<Rightarrow> bio_store \<Rightarrow> nat option \<times> bio_store" where
  "BIO_new_mem_buf env buf len h =
     (if buf = None \<and> len \<noteq> 0 then (None, h)
      else (case BIO_new env mem_method h of
              (None, h) \<Rightarrow> (None, h)
            | (Some b, h) \<Rightarrow>
                let sz = (if len < 0 then strlen (the buf) else nat len);
                    h = set_mem b ((mem_at h b)\<lparr>bm_data := buf, bm_length := sz, bm_max := sz\<rparr>) h
                in (Some b, upd_bio b (\<lambda>x. x\<lparr>bio_flags := bio_flags x OR BIO_FLAGS_MEM_RDONLY, bio_num := 0\<rparr>) h)))"

definition BIO_mem_contents :: "nat \<Rightarrow> bio_store \<Rightarrow> bytes option" where
  "BIO_mem_contents b h =
     (if meth (bio_at h b) \<noteq> mem_method then None else Some (mem_bytes (mem_at h b)))"

definition BIO_get_mem_data :: "nat option \<Rightarrow> bio_store \<Rightarrow> (int \<times> ctrl_out) \<times> bio_store" where
  "BIO_get_mem_data b = BIO_ctrl b BIO_CTRL_INFO 0 Out_arg"

definition BIO_get_mem_ptr :: "nat option \<Rightarrow> bio_store \<Rightarrow> (int \<times> ctrl_out) \<times> bio_store" where
  "BIO_get_mem_ptr b h =
     (let r = BIO_ctrl b BIO_C_GET_BUF_MEM_PTR 0 Out_arg h in ((to_int (fst (fst r)), snd (fst r)), snd r))"

definition BIO_set_mem_buf :: "nat option \<Rightarrow> nat option \<Rightarrow> int \<Rightarrow> bio_store \<Rightarrow> int \<times> bio_store" where
  "BIO_set_mem_buf b m take_ownership =
     ctrl_int b BIO_C_SET_BUF_MEM take_ownership (case m of None \<Rightarrow> No_arg | Some a \<Rightarrow> Buf_arg a)"

definition BIO_set_mem_eof_return :: "nat option \<Rightarrow> int \<Rightarrow> bio_store \<Rightarrow> int \<times> bio_store" where
  "BIO_set_mem_eof_return b eof_value = ctrl_int b BIO_C_SET_BUF_MEM_EOF_RETURN eof_value No_arg"

section \<open>Pairs\<close>

definition BIO_new_bio_pair :: "cbb_env \<Rightarrow> nat \<Rightarrow> nat \<Rightarrow> (nat \<times> nat) option io" where
  "BIO_new_bio_pair env writebuf1_len writebuf2_len h =
     (let r1 = BIO_new env methods_biop h;
          r2 = BIO_new env methods_biop (snd r1);
          failed = (\<lambda>h. Option.bind (BIO_free (fst r1) h)
                      (\<lambda>f. Option.bind (BIO_free (fst r2) (snd f)) (\<lambda>f. Some (None, snd f))))
      in case (fst r1, fst r2) of
           (Some bio1, Some bio2) \<Rightarrow>
             let r = bio_make_pair env bio1 bio2 writebuf1_len writebuf2_len (snd r2)
             in if fst r then Some (Some (bio1, bio2), snd r) else failed (snd r)
         | _ \<Rightarrow> failed (snd r2))"

definition BIO_ctrl_get_read_request :: "nat option \<Rightarrow> bio_store \<Rightarrow> nat" where
  "BIO_ctrl_get_read_request b h = to_size (fst (fst (BIO_ctrl b BIO_C_GET_READ_REQUEST 0 No_arg h)))"

definition BIO_ctrl_get_write_guarantee :: "nat option \<Rightarrow> bio_store \<Rightarrow> nat" where
  "BIO_ctrl_get_write_guarantee b h = to_size (fst (fst (BIO_ctrl b BIO_C_GET_WRITE_GUARANTEE 0 No_arg h)))"

definition BIO_shutdown_wr :: "nat option \<Rightarrow> bio_store \<Rightarrow> int \<times> bio_store" where
  "BIO_shutdown_wr b = ctrl_int b BIO_C_SHUTDOWN_WR 0 No_arg"

end
