(* ===== verification/Bio_Asn1.thy ===== *)
theory Bio_Asn1
  imports Bio
begin

text \<open>
  Reading whole ASN.1 elements from a BIO: \<open>bio_read_all\<close>, \<open>bio_read_full\<close> and
  \<open>BIO_read_asn1\<close> of \<open>crypto/bio/bio.c\<close>. The output of a successful call is its result. The
  end value of a memory BIO is taken to be zero or negative, as \<open>bio.h\<close> asks for.
\<close>

definition kChunkSize :: nat where "kChunkSize = 4096"

definition next_len :: "nat \<Rightarrow> nat \<Rightarrow> nat" where
  "next_len len max_len =
     (let l = size_add len kChunkSize in if l < kChunkSize \<or> l > max_len then max_len else l)"

text \<open>
  The buffer holds \<open>len\<close> bytes, of which \<open>pos\<close> are read. A value that \<open>BIO_read\<close> returns is
  converted to \<open>size_t\<close> and added to \<open>pos\<close>, negative values other than -1 too.
\<close>

partial_function (option) bio_read_all_loop ::
  "cbb_env \<Rightarrow> nat option \<Rightarrow> nat \<Rightarrow> bytes \<Rightarrow> nat \<Rightarrow> nat \<Rightarrow> bytes option io" where
  "bio_read_all_loop env b max_len buf pos len h =
     (if pos = len then Some (None, h)
      else let todo = size_sub len pos; todo = (if todo > INT_MAX then INT_MAX else todo) in
        Option.bind (BIO_read b (int todo) h) (\<lambda>r.
          if fst (fst r) = 0 then Some (Some (take pos buf), snd r)
          else if fst (fst r) = - 1 then Some (None, snd r)
          else let buf = mem_store pos (snd (fst r)) buf; pos = size_add pos (to_size (fst (fst r))) in
            if len < max_len \<and> size_sub len pos < kChunkSize div 2 then
              (case mem_realloc env (Some buf) (next_len len max_len) of
                 None \<Rightarrow> Some (None, snd r)
               | Some buf \<Rightarrow> bio_read_all_loop env b max_len buf pos (next_len len max_len) (snd r))
            else bio_read_all_loop env b max_len buf pos len (snd r)))"

definition bio_read_all :: "cbb_env \<Rightarrow> nat option \<Rightarrow> bytes \<Rightarrow> nat \<Rightarrow> bytes option io" where
  "bio_read_all env b pre max_len h =
     (let len = size_add (length pre) kChunkSize; len = (if len > max_len then max_len else len) in
      if len < length pre then Some (None, h)
      else (case mem_realloc env None len of
              None \<Rightarrow> Some (None, h)
            | Some buf \<Rightarrow> bio_read_all_loop env b max_len (mem_store 0 pre buf) (length pre) len h))"

text \<open>The result of \<open>bio_read_full\<close>: the bytes, or whether the first read returned zero.\<close>

partial_function (option) bio_read_full :: "nat option \<Rightarrow> bool \<Rightarrow> nat \<Rightarrow> (bool + bytes) io" where
  "bio_read_full b first_read len h =
     (if len > 0 then
        let todo = (if len \<le> INT_MAX then len else INT_MAX) in
        Option.bind (BIO_read b (int todo) h) (\<lambda>r.
          if fst (fst r) \<le> 0 then Some (Inl (first_read \<and> fst (fst r) = 0), snd r)
          else Option.bind (bio_read_full b False (size_sub len (nat (fst (fst r)))) (snd r)) (\<lambda>s.
            Some (map_sum id ((@) (snd (fst r))) (fst s), snd s)))
      else Some (Inr [], h))"

fun len32_fold :: "u32 \<Rightarrow> bytes \<Rightarrow> u32" where
  "len32_fold len32 [] = len32"
| "len32_fold len32 (c # cs) = len32_fold (push_bit 8 len32 OR ucast c) cs"

text \<open>The last part: the length is known, the contents follow.\<close>

definition read_contents :: "cbb_env \<Rightarrow> nat option \<Rightarrow> bytes \<Rightarrow> nat \<Rightarrow> nat \<Rightarrow> bytes option io" where
  "read_contents env b header len max_len h =
     (let total_len = size_add len (length header) in
      if total_len < len \<or> total_len > max_len \<or> len > INT_MAX then Some (None, h)
      else if \<not> alloc_ok env total_len then Some (None, h)
      else Option.bind (bio_read_full b True len h) (\<lambda>r.
        case fst r of Inl _ \<Rightarrow> Some (None, snd r) | Inr bs \<Rightarrow> Some (Some (header @ bs), snd r)))"

definition BIO_read_asn1 :: "cbb_env \<Rightarrow> nat option \<Rightarrow> nat \<Rightarrow> bytes option io" where
  "BIO_read_asn1 env b max_len h =
     Option.bind (bio_read_full b True 2 h) (\<lambda>r.
       case fst r of
         Inl eof_on_first_read \<Rightarrow> Some (None, snd r)
       | Inr header \<Rightarrow>
           let tag = header ! 0; length_byte = header ! 1 in
           if tag AND 0x1f = 0x1f then Some (None, snd r)
           else if length_byte AND 0x80 = 0 then
             read_contents env b header (unat length_byte) max_len (snd r)
           else let num_bytes = unat (length_byte AND 0x7f) in
             if tag AND 0x20 \<noteq> 0 \<and> num_bytes = 0 then bio_read_all env b header max_len (snd r)
             else if num_bytes = 0 \<or> num_bytes > 4 then Some (None, snd r)
             else Option.bind (bio_read_full b True num_bytes (snd r)) (\<lambda>s.
               case fst s of
                 Inl _ \<Rightarrow> Some (None, snd s)
               | Inr lens \<Rightarrow>
                   let len32 = len32_fold 0 lens in
                   if len32 < 128 then Some (None, snd s)
                   else if drop_bit ((num_bytes - 1) * 8) len32 = 0 then Some (None, snd s)
                   else read_contents env b (header @ lens) (unat len32) max_len (snd s)))"

end
