(* ===== verification/Bio_Pair_Spec.thy ===== *)
theory Bio_Pair_Spec
  imports Bio
begin

text \<open>
  A BIO pair refines two bounded queues of bytes, one for each direction. An abstract queue has
  a capacity, the bytes in it, whether its writer has closed it, and how many bytes its reader
  last asked for in vain. The same operations on the pair and on the queues give the same
  results, in any order and from both ends.
\<close>

section \<open>Queues\<close>

record pipe =
  cap :: nat
  que :: bytes
  shut :: bool
  wanted :: nat

definition pipe_write :: "bytes \<Rightarrow> pipe \<Rightarrow> int \<times> pipe" where
  "pipe_write bs q =
     (if bs = [] then (0, q)
      else if shut q \<or> length (que q) = cap q then (- 1, q\<lparr>wanted := 0\<rparr>)
      else let n = min (length bs) (cap q - length (que q))
           in (int n, q\<lparr>que := que q @ take n bs, wanted := 0\<rparr>))"

definition pipe_read :: "nat \<Rightarrow> pipe \<Rightarrow> (int \<times> bytes) \<times> pipe" where
  "pipe_read n q =
     (if n = 0 then ((0, []), q)
      else if que q = [] then
        if shut q then ((0, []), q\<lparr>wanted := 0\<rparr>) else ((- 1, []), q\<lparr>wanted := min n (cap q)\<rparr>)
      else ((int (min n (length (que q))), take n (que q)), q\<lparr>que := drop n (que q), wanted := 0\<rparr>))"

definition pipe_room :: "pipe \<Rightarrow> nat" where
  "pipe_room q = (if shut q then 0 else cap q - length (que q))"

section \<open>The states of a connected pair\<close>

definition wf_pair :: "bio_bio_st \<Rightarrow> bool" where
  "wf_pair p \<longleftrightarrow> wf_ring p \<and> (request p = 0 \<or> bp_len p = 0 \<and> request p \<le> bp_size p)"

definition half :: "bio_store \<Rightarrow> nat \<Rightarrow> nat \<Rightarrow> bool" where
  "half h b c \<longleftrightarrow> (\<exists>x p. bios h b = Some x \<and> meth x = methods_biop \<and> bio_init x \<and> bio_ptr x = Pair_ptr p
     \<and> peer p = Some c \<and> wf_pair p)"

definition connected :: "bio_store \<Rightarrow> nat \<Rightarrow> nat \<Rightarrow> bool" where
  "connected h b c \<longleftrightarrow> b \<noteq> c \<and> half h b c \<and> half h c b"

definition pipe_of :: "bio_bio_st \<Rightarrow> pipe" where
  "pipe_of p = \<lparr>cap = bp_size p, que = ring p, shut = closed p, wanted = request p\<rparr>"

definition pipe_at :: "bio_store \<Rightarrow> nat \<Rightarrow> pipe" where
  "pipe_at h b = pipe_of (pair_at h b)"

lemma halfD:
  assumes "half h b c"
  shows "meth (bio_at h b) = methods_biop" "bio_init (bio_at h b)" "peer (pair_at h b) = Some c"
    "wf_pair (pair_at h b)"
  using assms by (auto simp: half_def bio_at_def pair_at_def)

lemma half_upd_bio:
  assumes "meth (f (bio_at h d)) = meth (bio_at h d)" "bio_init (f (bio_at h d)) = bio_init (bio_at h d)"
    "bio_ptr (f (bio_at h d)) = bio_ptr (bio_at h d)" and "half h b c"
  shows "half (upd_bio d f h) b c"
  using assms by (auto simp: half_def bio_at_def)

lemma half_upd_pair:
  assumes "peer (f (pair_at h d)) = peer (pair_at h d)" "wf_pair (pair_at h d) \<Longrightarrow> wf_pair (f (pair_at h d))"
    and "half h b c"
  shows "half (upd_pair d f h) b c"
  using assms by (auto simp: half_def bio_at_def pair_at_def)

lemma pipe_at_upd_bio [simp]:
  "bio_ptr (f (bio_at h d)) = bio_ptr (bio_at h d) \<Longrightarrow> pipe_at (upd_bio d f h) b = pipe_at h b"
  by (simp add: pipe_at_def pair_at_def)

lemma pipe_at_upd_pair [simp]:
  "pipe_at (upd_pair d f h) b = (if b = d then pipe_of (f (pair_at h d)) else pipe_at h b)"
  by (simp add: pipe_at_def)

lemma pair_at_upd_bio [simp]:
  "bio_ptr (f (bio_at h d)) = bio_ptr (bio_at h d) \<Longrightarrow> pair_at (upd_bio d f h) b = pair_at h b"
  by (simp add: pair_at_def)

lemma retry_write_frame [simp]:
  "bio_ptr (BIO_set_retry_write x) = bio_ptr x" "meth (BIO_set_retry_write x) = meth x"
  "bio_init (BIO_set_retry_write x) = bio_init x"
  by (simp_all add: BIO_set_retry_write_def)

lemmas connected_intros = half_upd_bio half_upd_pair

section \<open>Writing and reading\<close>

lemma wf_pair_no_request: "wf_pair p \<Longrightarrow> wf_pair (p\<lparr>request := 0\<rparr>)"
  by (auto simp: wf_pair_def wf_ring_def)

lemma ring_request [simp]: "ring (p\<lparr>request := n\<rparr>) = ring p" "ring (p\<lparr>closed := c\<rparr>) = ring p"
  by (simp_all add: ring_def)

lemma wf_ring_frame [simp]: "wf_ring (p\<lparr>request := n\<rparr>) = wf_ring p" "wf_ring (p\<lparr>closed := c\<rparr>) = wf_ring p"
  by (simp_all add: wf_ring_def)

lemma BIO_write_pair:
  assumes "connected h b c" and "length src \<le> INT_MAX" and "pipe_write src (pipe_at h b) = (n, q)"
  obtains h' where "BIO_write env (Some b) src (int (length src)) h = Some (n, h')" "connected h' b c"
    "pipe_at h' b = q" "pipe_at h' c = pipe_at h c"
proof -
  from assms(1) have halves: "b \<noteq> c" "half h b c" "half h c b" by (simp_all add: connected_def)
  note D = halfD [OF halves(2)]
  define h0 where "h0 = upd_bio b BIO_clear_retry_flags h"
  define p where "p = (pair_at h b)\<lparr>request := 0\<rparr>"
  define h1 where "h1 = upd_pair b (request_update (\<lambda>_. 0)) h0"
  have p: "wf_ring p" "pair_at h1 b = p" "wf_pair p" "peer p = Some c"
    using wf_pair_no_request [OF D(4)] D by (auto simp: p_def h1_def h0_def wf_pair_def)
  have h1: "half h1 b c" "half h1 c b" "pipe_at h1 c = pipe_at h c" "pipe_at h1 b = (pipe_at h b)\<lparr>wanted := 0\<rparr>"
    using halves by (auto simp: h1_def h0_def pipe_at_def pipe_of_def intro!: connected_intros wf_pair_no_request)
  have len: "length (que (pipe_at h b)) = bp_len p" "cap (pipe_at h b) = bp_size p" "shut (pipe_at h b) = closed p"
    using length_ring [OF p(1)] by (simp_all add: pipe_at_def pipe_of_def p_def)
  have init: "bio_init (bio_at h0 b)" using D by (simp add: h0_def)
  have whole: "BIO_write env (Some b) src (int (length src)) h =
    (if src = [] then Some (0, h) else Option.bind (bio_write b src h) (\<lambda>r. Some (fst r, if fst r > 0
       then upd_bio b (num_write_update (\<lambda>n. size_add n (nat (fst r)))) (snd r) else snd r)))"
    using D by (simp add: BIO_write_def)
  consider "src = []" | "src \<noteq> []" "closed p" | "src \<noteq> []" "\<not> closed p" "bp_len p = bp_size p"
    | "src \<noteq> []" "\<not> closed p" "bp_len p \<noteq> bp_size p" by blast
  then show thesis
  proof cases
    case 1
    with assms whole show ?thesis by (intro that [of h]) (simp_all add: pipe_write_def)
  next
    case 2
    then have "bio_write b src h = Some (- 1, h1)"
      unfolding bio_write_def Let_def h0_def [symmetric] h1_def [symmetric] p(2) using init by simp
    with 2 assms(3) whole h1 halves len show ?thesis
      by (intro that [of h1]) (simp_all add: pipe_write_def connected_def)
  next
    case 3
    then have "bio_write b src h = Some (- 1, upd_bio b BIO_set_retry_write h1)"
      unfolding bio_write_def Let_def h0_def [symmetric] h1_def [symmetric] p(2) using init by simp
    with 3 assms(3) whole h1 halves len show ?thesis
      by (intro that [of "upd_bio b BIO_set_retry_write h1"])
        (simp_all add: pipe_write_def connected_def half_upd_bio)
  next
    case 4
    define k where "k = min (length src) (bp_size p - bp_len p)"
    have le: "bp_len p < bp_size p" using 4 p(1) by (auto simp: wf_ring_def)
    with 4 have k: "0 < k" by (simp add: k_def)
    have num: "(if length src > bp_size p - bp_len p then bp_size p - bp_len p else length src) = k"
      by (simp add: k_def)
    have "bp_len p + length (take k src) \<le> bp_size p" using le by (simp add: k_def)
    then obtain p' where p': "bio_write_loop (take k src) p = Some p'" "wf_ring p'" "ring p' = ring p @ take k src"
        "p' = p\<lparr>bp_buf := bp_buf p', bp_len := bp_len p + length (take k src)\<rparr>"
      using bio_write_loop_exact [OF p(1)] by blast
    have p'_frame: "peer p' = Some c" "request p' = 0" "closed p' = closed p" "bp_size p' = bp_size p"
      using p'(4) [THEN arg_cong, of peer] p'(4) [THEN arg_cong, of request]
        p'(4) [THEN arg_cong, of closed] p'(4) [THEN arg_cong, of bp_size] p(4)
      by (simp_all add: p_def)
    have int_k: "to_int (int k) = int k" using assms(2) by (simp add: k_def INT_MAX_def)
    have w: "bio_write b src h = Some (int k, upd_pair b (\<lambda>_. p') h1)"
      unfolding bio_write_def Let_def h0_def [symmetric] h1_def [symmetric] p(2) num
      using 4 init p'(1) int_k by simp
    let ?h = "upd_bio b (num_write_update (\<lambda>n. size_add n k)) (upd_pair b (\<lambda>_. p') h1)"
    have nq: "n = int k" "q = pipe_of p'"
      using assms(3) 4 len p'(3) p'_frame
      by (auto simp: pipe_write_def Let_def k_def pipe_at_def pipe_of_def p_def)
    have "half ?h b c" "half ?h c b"
      using h1 p' p'_frame p by (auto simp: wf_pair_def intro!: connected_intros)
    with 4 whole w k nq halves h1 show ?thesis
      by (intro that [of ?h]) (simp_all add: connected_def)
  qed
qed

lemma BIO_read_pair:
  assumes "connected h b c" and "m \<le> INT_MAX" and "pipe_read m (pipe_at h c) = (r, q)"
  obtains h' where "BIO_read (Some b) (int m) h = Some (r, h')" "connected h' b c"
    "pipe_at h' c = q" "pipe_at h' b = pipe_at h b"
proof -
  from assms(1) have halves: "b \<noteq> c" "half h b c" "half h c b" by (simp_all add: connected_def)
  note D = halfD [OF halves(2)] and E = halfD [OF halves(3)]
  define h0 where "h0 = upd_bio b BIO_clear_retry_flags h"
  define p where "p = (pair_at h c)\<lparr>request := 0\<rparr>"
  define h1 where "h1 = upd_pair c (request_update (\<lambda>_. 0)) h0"
  have p: "wf_ring p" "pair_at h1 c = p" "wf_pair p" "peer p = Some b"
    using wf_pair_no_request [OF E(4)] E by (auto simp: p_def h1_def h0_def wf_pair_def)
  have h1: "half h1 b c" "half h1 c b" "pipe_at h1 b = pipe_at h b" "pipe_at h1 c = (pipe_at h c)\<lparr>wanted := 0\<rparr>"
    using halves by (auto simp: h1_def h0_def pipe_at_def pipe_of_def intro!: connected_intros wf_pair_no_request)
  have ring: "que (pipe_at h c) = ring p" "cap (pipe_at h c) = bp_size p" "shut (pipe_at h c) = closed p"
    by (simp_all add: pipe_at_def pipe_of_def p_def)
  have len: "length (ring p) = bp_len p" using p(1) by (rule length_ring)
  have start: "bio_init (bio_at h0 b)" "the (peer (pair_at h0 b)) = c" using D by (simp_all add: h0_def)
  have whole: "BIO_read (Some b) (int m) h =
    (if m = 0 then Some ((0, []), h) else Option.bind (bio_read b m h) (\<lambda>r. Some (fst r, if fst (fst r) > 0
       then upd_bio b (num_read_update (\<lambda>n. size_add n (nat (fst (fst r))))) (snd r) else snd r)))"
    using D by (simp add: BIO_read_def)
  consider "m = 0" | "m \<noteq> 0" "bp_len p = 0" "closed p" | "m \<noteq> 0" "bp_len p = 0" "\<not> closed p"
    | "m \<noteq> 0" "bp_len p \<noteq> 0" by blast
  then show thesis
  proof cases
    case 1
    with assms whole show ?thesis by (intro that [of h]) (simp_all add: pipe_read_def)
  next
    case 2
    then have "bio_read b m h = Some ((0, []), h1)"
      unfolding bio_read_def Let_def h0_def [symmetric] start(2) h1_def [symmetric] p(2) using start by simp
    with 2 assms(3) whole h1 halves ring len show ?thesis
      by (intro that [of h1]) (auto simp: pipe_read_def connected_def)
  next
    case 3
    let ?h = "upd_pair c (request_update (\<lambda>_. min m (bp_size p))) (upd_bio b BIO_set_retry_read h1)"
    have "bio_read b m h = Some ((- 1, []), ?h)"
      unfolding bio_read_def Let_def h0_def [symmetric] start(2) h1_def [symmetric] p(2)
      using 3 start by (simp add: min_def)
    moreover have "wf_pair (p\<lparr>request := min m (bp_size p)\<rparr>)"
      using 3 p(1) by (simp add: wf_pair_def)
    then have "half ?h b c" "half ?h c b"
      using h1 p(2) by (auto intro!: connected_intros)
    moreover have "q = pipe_of (p\<lparr>request := min m (bp_size p)\<rparr>)" "r = (- 1, [])"
      using 3 assms(3) ring len by (auto simp: pipe_read_def pipe_at_def pipe_of_def p_def)
    ultimately show ?thesis using 3 whole h1 halves p(2)
      by (intro that [of ?h]) (simp_all add: connected_def)
  next
    case 4
    define k where "k = min m (bp_len p)"
    have k: "0 < k" "k \<le> bp_len p" using 4 by (simp_all add: k_def)
    have sz: "(if bp_len p < m then bp_len p else m) = k" by (simp add: k_def)
    obtain p' where p': "bio_read_loop k p = Some (take k (ring p), p')" "wf_ring p'" "ring p' = drop k (ring p)"
        "p' = p\<lparr>bp_len := bp_len p - k, bp_offset := bp_offset p'\<rparr>"
      using bio_read_loop_exact [OF p(1) k(2)] by blast
    have p'_frame: "peer p' = Some b" "request p' = 0" "closed p' = closed p" "bp_size p' = bp_size p"
      using p'(4) [THEN arg_cong, of peer] p'(4) [THEN arg_cong, of request]
        p'(4) [THEN arg_cong, of closed] p'(4) [THEN arg_cong, of bp_size] p(4)
      by (simp_all add: p_def)
    have int_k: "to_int (int k) = int k" using assms(2) by (simp add: k_def INT_MAX_def)
    have w: "bio_read b m h = Some ((int k, take k (ring p)), upd_pair c (\<lambda>_. p') h1)"
      unfolding bio_read_def Let_def h0_def [symmetric] start(2) h1_def [symmetric] p(2) sz
      using 4 start p'(1) int_k by simp
    let ?h = "upd_bio b (num_read_update (\<lambda>n. size_add n k)) (upd_pair c (\<lambda>_. p') h1)"
    have "take m (ring p) = take k (ring p)" "drop m (ring p) = drop k (ring p)"
      using len by (simp_all add: k_def min_def)
    moreover have "ring p \<noteq> []" using 4 len by auto
    ultimately have nq: "r = (int k, take k (ring p))" "q = pipe_of p'"
      using assms(3) 4 ring len p'(3) p'_frame \<open>ring p \<noteq> []\<close>
      by (auto simp: pipe_read_def k_def pipe_of_def simp flip: p_def)
    have "half ?h b c" "half ?h c b"
      using h1 p' p'_frame p by (auto simp: wf_pair_def intro!: connected_intros)
    with 4 whole w k nq halves h1 show ?thesis
      by (intro that [of ?h]) (simp_all add: connected_def)
  qed
qed

section \<open>Control\<close>

lemma connected_sym: "connected h b c \<Longrightarrow> connected h c b"
  by (simp add: connected_def)

lemma pair_bounds:
  assumes "half h b c"
  shows "bp_len (pair_at h b) \<le> bp_size (pair_at h b)" "bp_size (pair_at h b) < 2 ^ 63"
    "request (pair_at h b) \<le> bp_size (pair_at h b)" "bp_buf (pair_at h b) \<noteq> None"
    "length (ring (pair_at h b)) = bp_len (pair_at h b)"
  using halfD(4) [OF assms] length_ring [of "pair_at h b"]
  by (auto simp: wf_pair_def wf_ring_def SIZE_MAX_def)

lemma to_size_small: "n < 2 ^ 63 \<Longrightarrow> to_size (to_long n) = n" "n < 2 ^ 63 \<Longrightarrow> 0 \<le> to_long n"
  by (simp_all add: SIZE_MAX_def) (simp add: to_long_def)

lemma BIO_shutdown_wr_pair:
  assumes "connected h b c"
  shows "\<exists>h'. BIO_shutdown_wr (Some b) h = (1, h') \<and> connected h' b c
    \<and> pipe_at h' b = (pipe_at h b)\<lparr>shut := True\<rparr> \<and> pipe_at h' c = pipe_at h c"
proof -
  from assms have halves: "b \<noteq> c" "half h b c" "half h c b" by (simp_all add: connected_def)
  let ?h = "upd_pair b (closed_update (\<lambda>_. True)) h"
  have "BIO_shutdown_wr (Some b) h = (1, ?h)"
    using halfD [OF halves(2)]
    by (simp add: BIO_shutdown_wr_def ctrl_int_def BIO_ctrl_def bio_ctrl_def Let_def ctrl_cmd_defs)
  moreover have "half ?h b c" "half ?h c b"
    using halves by (auto simp: wf_pair_def intro!: half_upd_pair)
  ultimately show ?thesis using halves
    by (auto simp: connected_def pipe_at_def pipe_of_def)
qed

lemma BIO_pair_counts:
  assumes "connected h b c"
  shows "BIO_ctrl_get_write_guarantee (Some b) h = pipe_room (pipe_at h b)"
    "BIO_ctrl_get_read_request (Some b) h = wanted (pipe_at h b)"
    "BIO_wpending (Some b) h = length (que (pipe_at h b))"
    "BIO_pending (Some b) h = length (que (pipe_at h c))"
proof -
  from assms have halves: "half h b c" "half h c b" by (simp_all add: connected_def)
  note D = halfD [OF halves(1)] and B = pair_bounds [OF halves(1)] and C = pair_bounds [OF halves(2)]
  have lt: "bp_len (pair_at h b) < 2 ^ 63" "bp_len (pair_at h c) < 2 ^ 63" using B C by linarith+
  show "BIO_ctrl_get_write_guarantee (Some b) h = pipe_room (pipe_at h b)"
    using D B by (simp add: BIO_ctrl_get_write_guarantee_def BIO_ctrl_def bio_ctrl_def Let_def ctrl_cmd_defs
        pipe_room_def pipe_at_def pipe_of_def to_size_small(1) size_sub_def) (simp add: to_size_def)
  show "BIO_ctrl_get_read_request (Some b) h = wanted (pipe_at h b)"
    using D B by (simp add: BIO_ctrl_get_read_request_def BIO_ctrl_def bio_ctrl_def Let_def ctrl_cmd_defs
        pipe_at_def pipe_of_def to_size_small(1))
  show "BIO_wpending (Some b) h = length (que (pipe_at h b))"
    using D B to_size_small(2) [OF lt(1)]
    by (simp add: BIO_wpending_def BIO_ctrl_def bio_ctrl_def Let_def ctrl_cmd_defs
        pipe_at_def pipe_of_def to_size_small(1))
  show "BIO_pending (Some b) h = length (que (pipe_at h c))"
    using D C to_size_small(2) [OF lt(2)]
    by (simp add: BIO_pending_def BIO_ctrl_def bio_ctrl_def Let_def ctrl_cmd_defs
        pipe_at_def pipe_of_def to_size_small(1))
qed

section \<open>Sequences of operations\<close>

text \<open>
  An operation names the end it works on: \<open>True\<close> for the first BIO. The result is a number
  and the bytes read.
\<close>

datatype pair_op = Write bool bytes | Read bool nat | Shutdown bool
  | Write_guarantee bool | Read_request bool | Pending bool | Wpending bool

definition endpoint :: "nat \<times> nat \<Rightarrow> bool \<Rightarrow> nat" where
  "endpoint bc s = (if s then fst bc else snd bc)"

fun pair_step :: "cbb_env \<Rightarrow> nat \<times> nat \<Rightarrow> pair_op \<Rightarrow> (int \<times> bytes) io" where
  "pair_step env bc (Write s bs) h =
     map_option (\<lambda>r. ((fst r, []), snd r)) (BIO_write env (Some (endpoint bc s)) bs (int (length bs)) h)"
| "pair_step env bc (Read s n) h = BIO_read (Some (endpoint bc s)) (int n) h"
| "pair_step env bc (Shutdown s) h =
     (case BIO_shutdown_wr (Some (endpoint bc s)) h of (n, h) \<Rightarrow> Some ((n, []), h))"
| "pair_step env bc (Write_guarantee s) h =
     Some ((int (BIO_ctrl_get_write_guarantee (Some (endpoint bc s)) h), []), h)"
| "pair_step env bc (Read_request s) h =
     Some ((int (BIO_ctrl_get_read_request (Some (endpoint bc s)) h), []), h)"
| "pair_step env bc (Pending s) h = Some ((int (BIO_pending (Some (endpoint bc s)) h), []), h)"
| "pair_step env bc (Wpending s) h = Some ((int (BIO_wpending (Some (endpoint bc s)) h), []), h)"

fun pair_run :: "cbb_env \<Rightarrow> nat \<times> nat \<Rightarrow> pair_op list \<Rightarrow> (int \<times> bytes) list io" where
  "pair_run env bc [] h = Some ([], h)"
| "pair_run env bc (op # ops) h =
     Option.bind (pair_step env bc op h) (\<lambda>r.
       Option.bind (pair_run env bc ops (snd r)) (\<lambda>rs. Some (fst r # fst rs, snd rs)))"

text \<open>The same on two queues; \<open>q True\<close> holds what the first end has written.\<close>

fun queues_step :: "pair_op \<Rightarrow> (bool \<Rightarrow> pipe) \<Rightarrow> (int \<times> bytes) \<times> (bool \<Rightarrow> pipe)" where
  "queues_step (Write s bs) q = (case pipe_write bs (q s) of (n, p) \<Rightarrow> ((n, []), q(s := p)))"
| "queues_step (Read s n) q = (case pipe_read n (q (\<not> s)) of (r, p) \<Rightarrow> (r, q((\<not> s) := p)))"
| "queues_step (Shutdown s) q = ((1, []), q(s := (q s)\<lparr>shut := True\<rparr>))"
| "queues_step (Write_guarantee s) q = ((int (pipe_room (q s)), []), q)"
| "queues_step (Read_request s) q = ((int (wanted (q s)), []), q)"
| "queues_step (Pending s) q = ((int (length (que (q (\<not> s)))), []), q)"
| "queues_step (Wpending s) q = ((int (length (que (q s))), []), q)"

fun queues_run :: "pair_op list \<Rightarrow> (bool \<Rightarrow> pipe) \<Rightarrow> (int \<times> bytes) list \<times> (bool \<Rightarrow> pipe)" where
  "queues_run [] q = ([], q)"
| "queues_run (op # ops) q =
     (let r = queues_step op q; rs = queues_run ops (snd r) in (fst r # fst rs, snd rs))"

text \<open>Lengths are of type \<open>int\<close>.\<close>

fun op_int :: "pair_op \<Rightarrow> bool" where
  "op_int (Write s bs) = (length bs \<le> INT_MAX)"
| "op_int (Read s n) = (n \<le> INT_MAX)"
| "op_int _ = True"

definition queues_at :: "bio_store \<Rightarrow> nat \<times> nat \<Rightarrow> bool \<Rightarrow> pipe" where
  "queues_at h bc s = pipe_at h (endpoint bc s)"

definition linked :: "bio_store \<Rightarrow> nat \<times> nat \<Rightarrow> bool" where
  "linked h bc \<longleftrightarrow> connected h (fst bc) (snd bc)"

lemma linked_endpoint: "linked h bc \<longleftrightarrow> connected h (endpoint bc s) (endpoint bc (\<not> s))"
  by (auto simp: linked_def endpoint_def connected_def)

lemma queues_at_upd:
  assumes "pipe_at h' (endpoint bc s) = p" and "pipe_at h' (endpoint bc (\<not> s)) = pipe_at h (endpoint bc (\<not> s))"
  shows "queues_at h' bc = (queues_at h bc)(s := p)"
proof (rule ext)
  fix t show "queues_at h' bc t = ((queues_at h bc)(s := p)) t"
    using assms by (cases "t = s") (auto simp: queues_at_def)
qed

lemma pair_step_refines:
  assumes "linked h bc" and "op_int op"
  shows "\<exists>h'. pair_step env bc op h = Some (fst (queues_step op (queues_at h bc)), h') \<and> linked h' bc
    \<and> queues_at h' bc = snd (queues_step op (queues_at h bc))"
proof (cases op)
  case (Write s bs)
  obtain n p where w: "pipe_write bs (pipe_at h (endpoint bc s)) = (n, p)" by fastforce
  from assms Write have "connected h (endpoint bc s) (endpoint bc (\<not> s))" "length bs \<le> INT_MAX"
    by (simp_all flip: linked_endpoint)
  from BIO_write_pair [OF this w] obtain h' where h':
    "BIO_write env (Some (endpoint bc s)) bs (int (length bs)) h = Some (n, h')"
    "connected h' (endpoint bc s) (endpoint bc (\<not> s))" "pipe_at h' (endpoint bc s) = p"
    "pipe_at h' (endpoint bc (\<not> s)) = pipe_at h (endpoint bc (\<not> s))" .
  with Write w queues_at_upd [OF h'(3,4)] show ?thesis
    by (auto simp: linked_endpoint [of h' bc s] queues_at_def [of h bc s])
next
  case (Read s n)
  obtain r p where w: "pipe_read n (pipe_at h (endpoint bc (\<not> s))) = (r, p)" by fastforce
  from assms Read have "connected h (endpoint bc s) (endpoint bc (\<not> s))" "n \<le> INT_MAX"
    by (simp_all flip: linked_endpoint)
  from BIO_read_pair [OF this w] obtain h' where h':
    "BIO_read (Some (endpoint bc s)) (int n) h = Some (r, h')"
    "connected h' (endpoint bc s) (endpoint bc (\<not> s))" "pipe_at h' (endpoint bc (\<not> s)) = p"
    "pipe_at h' (endpoint bc s) = pipe_at h (endpoint bc s)" .
  with Read w queues_at_upd [of h' bc "\<not> s" p h] show ?thesis
    by (auto simp: linked_endpoint [of h' bc s] queues_at_def [of h bc "\<not> s"])
next
  case (Shutdown s)
  from assms have "connected h (endpoint bc s) (endpoint bc (\<not> s))" by (simp flip: linked_endpoint)
  from BIO_shutdown_wr_pair [OF this] obtain h' where h':
    "BIO_shutdown_wr (Some (endpoint bc s)) h = (1, h')"
    "connected h' (endpoint bc s) (endpoint bc (\<not> s))"
    "pipe_at h' (endpoint bc s) = (pipe_at h (endpoint bc s))\<lparr>shut := True\<rparr>"
    "pipe_at h' (endpoint bc (\<not> s)) = pipe_at h (endpoint bc (\<not> s))" by blast
  with Shutdown queues_at_upd [OF h'(3,4)] show ?thesis
    by (auto simp: linked_endpoint [of h' bc s] queues_at_def [of h bc s])
qed (use assms in \<open>simp_all add: BIO_pair_counts [OF iffD1 [OF linked_endpoint]] queues_at_def\<close>)

lemma pair_run_refines:
  assumes "linked h bc" and "list_all op_int ops"
  shows "\<exists>h'. pair_run env bc ops h = Some (fst (queues_run ops (queues_at h bc)), h') \<and> linked h' bc
    \<and> queues_at h' bc = snd (queues_run ops (queues_at h bc))"
  using assms
proof (induction ops arbitrary: h)
  case Nil
  then show ?case by simp
next
  case (Cons op ops)
  from Cons.prems have "linked h bc" "op_int op" by simp_all
  from pair_step_refines [OF this] obtain h1 where h1:
    "pair_step env bc op h = Some (fst (queues_step op (queues_at h bc)), h1)" "linked h1 bc"
    "queues_at h1 bc = snd (queues_step op (queues_at h bc))" by blast
  from Cons.IH [OF h1(2)] Cons.prems(2) show ?case
    by (auto simp: h1(1) h1(3) Let_def)
qed

section \<open>New pairs\<close>

definition ring_size :: "nat \<Rightarrow> nat" where
  "ring_size n = (if n = 0 then 17 * 1024 else n)"

definition new_half :: bio_bio_st where
  "new_half = \<lparr>peer = None, closed = False, bp_len = 0, bp_offset = 0, bp_size = 17 * 1024, bp_buf = None, request = 0\<rparr>"

definition fresh_bio :: "bio_store \<Rightarrow> nat \<Rightarrow> bool" where
  "fresh_bio h b \<longleftrightarrow> (\<exists>x. bios h b = Some x \<and> meth x = methods_biop \<and> references x = 1 \<and> next_bio x = None
     \<and> (\<exists>p. bio_ptr x = Pair_ptr p \<and> peer p = None))"

lemma BIO_new_biop:
  "BIO_new env methods_biop h =
     (if \<not> alloc_ok env sizeof_bio then (None, h)
      else let h1 = set_bio (next_address h) ((zero_bio methods_biop)\<lparr>bio_shutdown := 1, references := 1\<rparr>)
                 (h\<lparr>next_address := next_address h + 1\<rparr>)
        in if \<not> alloc_ok env sizeof_bio_bio_st then (None, release_bio (next_address h) h1)
           else (Some (next_address h), upd_bio (next_address h) (bio_ptr_update (\<lambda>_. Pair_ptr new_half)) h1))"
  by (simp add: BIO_new_def bio_new_def new_half_def Let_def)

lemma BIO_free_fresh:
  assumes "fresh_bio h b"
  shows "\<exists>h'. BIO_free (Some b) h = Some (True, h') \<and> bios h' = (bios h)(b := None)"
proof -
  from assms obtain x p where x: "bios h b = Some x" "meth x = methods_biop" "references x = 1" "next_bio x = None"
    "bio_ptr x = Pair_ptr p" "peer p = None" by (auto simp: fresh_bio_def)
  have at: "bio_at h b = x" using x by (simp add: bio_at_def)
  show ?thesis
    by (subst BIO_free.simps, subst BIO_free.simps)
      (simp add: at x CRYPTO_refcount_dec_and_test_zero_def CRYPTO_REFCOUNT_MAX_def Let_def BIO_pop_def
        bio_destroy_def bio_free_def pair_at_def release_bio_def)
qed

lemma BIO_free_None: "BIO_free None h = Some (True, h)"
  by (subst BIO_free.simps) simp

definition ready_bio :: "bio_store \<Rightarrow> nat \<Rightarrow> bool" where
  "ready_bio h b \<longleftrightarrow> (\<exists>x. bios h b = Some x \<and> meth x = methods_biop \<and> references x = 1 \<and> next_bio x = None
     \<and> bio_ptr x = Pair_ptr new_half)"

definition new_ring :: "cbb_env \<Rightarrow> nat \<Rightarrow> bio_bio_st" where
  "new_ring env n = new_half\<lparr>bp_size := n, bp_buf := Some (map (uninit env) [0..<n])\<rparr>"

lemma alloc_ring_new:
  "alloc_ring env w new_half =
     (if alloc_ok env (ring_size w) then (True, new_ring env (ring_size w)) else (False, new_half\<lparr>bp_size := ring_size w\<rparr>))"
  by (simp add: alloc_ring_def new_half_def new_ring_def ring_size_def Let_def)

lemma ready_bioD:
  assumes "ready_bio h b"
  shows "pair_at h b = new_half" "meth (bio_at h b) = methods_biop" "references (bio_at h b) = 1"
    "next_bio (bio_at h b) = None"
  using assms by (auto simp: ready_bio_def bio_at_def pair_at_def)

lemma bio_make_pair_new:
  assumes "b \<noteq> c" and "ready_bio h b" and "ready_bio h c" and "w1 < 2 ^ 63" and "w2 < 2 ^ 63"
    and "bio_make_pair env b c w1 w2 h = (ok, h')"
  shows "ok = (alloc_ok env (ring_size w1) \<and> alloc_ok env (ring_size w2))"
    "ok \<Longrightarrow> connected h' b c \<and> pipe_at h' b = \<lparr>cap = ring_size w1, que = [], shut = False, wanted = 0\<rparr>
       \<and> pipe_at h' c = \<lparr>cap = ring_size w2, que = [], shut = False, wanted = 0\<rparr>"
    "\<not> ok \<Longrightarrow> fresh_bio h' b \<and> fresh_bio h' c"
proof -
  note B = ready_bioD [OF assms(2)] and C = ready_bioD [OF assms(3)]
  have np: "peer new_half = None" by (simp add: new_half_def)
  let ?a1 = "alloc_ok env (ring_size w1)" and ?a2 = "alloc_ok env (ring_size w2)"
  define h1 where "h1 = upd_pair b (\<lambda>_. new_ring env (ring_size w1)) h"
  define h2 where "h2 = upd_pair c (\<lambda>_. new_ring env (ring_size w2)) h1"
  define join where "join = (\<lambda>c d h. upd_bio c (bio_init_update (\<lambda>_. True))
    (upd_pair c (\<lambda>p. p\<lparr>peer := Some d, closed := False, request := 0\<rparr>) h))"
  have made: "bio_make_pair env b c w1 w2 h =
    (if \<not> ?a1 then (False, upd_pair b (\<lambda>_. new_half\<lparr>bp_size := ring_size w1\<rparr>) h)
     else if \<not> ?a2 then (False, upd_pair c (\<lambda>_. new_half\<lparr>bp_size := ring_size w2\<rparr>) h1)
     else (True, join c b (join b c h2)))"
    using assms(1) B(1) C(1) by (simp add: bio_make_pair_def np alloc_ring_new Let_def h1_def h2_def join_def)
  show "ok = (?a1 \<and> ?a2)" using assms(6) made by (auto split: if_splits)
  show "fresh_bio h' b \<and> fresh_bio h' c" if "\<not> ok"
  proof -
    have "h' = (if \<not> ?a1 then upd_pair b (\<lambda>_. new_half\<lparr>bp_size := ring_size w1\<rparr>) h
        else upd_pair c (\<lambda>_. new_half\<lparr>bp_size := ring_size w2\<rparr>) h1)"
      using that assms(6) made by (auto split: if_splits)
    with assms(1-3) B C np show ?thesis
      by (auto simp: fresh_bio_def ready_bio_def h1_def bio_at_def new_ring_def)
  qed
  show "connected h' b c \<and> pipe_at h' b = \<lparr>cap = ring_size w1, que = [], shut = False, wanted = 0\<rparr>
       \<and> pipe_at h' c = \<lparr>cap = ring_size w2, que = [], shut = False, wanted = 0\<rparr>" if "ok"
  proof -
    have h': "h' = join c b (join b c h2)" using that assms(6) made by (auto split: if_splits)
    have sizes: "0 < ring_size w1" "0 < ring_size w2" "2 * ring_size w1 \<le> SIZE_MAX" "2 * ring_size w2 \<le> SIZE_MAX"
      using assms(4,5) by (auto simp: ring_size_def SIZE_MAX_def)
    have "half h' b c" "half h' c b"
      using assms(1) B(2) C(2) sizes
      by (auto simp: h' join_def half_def h2_def h1_def wf_pair_def wf_ring_def new_ring_def new_half_def)
    then show ?thesis using assms(1) by (simp add: connected_def)
      (simp add: h' join_def h2_def h1_def pipe_at_def pipe_of_def ring_def new_ring_def new_half_def)
  qed
qed

text \<open>The store after a BIO of a pair has been allocated.\<close>

definition with_new :: "bio_store \<Rightarrow> bio_store" where
  "with_new h = upd_bio (next_address h) (bio_ptr_update (\<lambda>_. Pair_ptr new_half))
     (set_bio (next_address h) ((zero_bio methods_biop)\<lparr>bio_shutdown := 1, references := 1\<rparr>)
       (h\<lparr>next_address := next_address h + 1\<rparr>))"

lemma with_new:
  "next_address (with_new h) = next_address h + 1" "ready_bio (with_new h) (next_address h)"
  "a \<noteq> next_address h \<Longrightarrow> bios (with_new h) a = bios h a"
  "b \<noteq> next_address h \<Longrightarrow> ready_bio (with_new h) b \<longleftrightarrow> ready_bio h b"
  by (auto simp: with_new_def ready_bio_def upd_bio_def set_bio_def bio_at_def zero_bio_def)

lemma BIO_new_ok:
  assumes "alloc_ok env sizeof_bio" and "alloc_ok env sizeof_bio_bio_st"
  shows "BIO_new env methods_biop h = (Some (next_address h), with_new h)"
  using assms by (simp add: BIO_new_biop Let_def with_new_def)

definition new_queues :: "nat \<Rightarrow> nat \<Rightarrow> bool \<Rightarrow> pipe" where
  "new_queues w1 w2 s = \<lparr>cap = ring_size (if s then w1 else w2), que = [], shut = False, wanted = 0\<rparr>"

definition unused_from :: "bio_store \<Rightarrow> nat \<Rightarrow> bool" where
  "unused_from h a \<longleftrightarrow> (\<forall>b \<ge> a. bios h b = None)"

lemma BIO_new_bio_pair_exact:
  assumes "w1 < 2 ^ 63" and "w2 < 2 ^ 63" and "unused_from h (next_address h)"
  shows "\<exists>h'. if alloc_ok env sizeof_bio \<and> alloc_ok env sizeof_bio_bio_st
        \<and> alloc_ok env (ring_size w1) \<and> alloc_ok env (ring_size w2)
      then BIO_new_bio_pair env w1 w2 h = Some (Some (next_address h, next_address h + 1), h')
        \<and> linked h' (next_address h, next_address h + 1)
        \<and> queues_at h' (next_address h, next_address h + 1) = new_queues w1 w2
      else BIO_new_bio_pair env w1 w2 h = Some (None, h') \<and> bios h' = bios h"
proof (cases "alloc_ok env sizeof_bio \<and> alloc_ok env sizeof_bio_bio_st")
  case True
  let ?b = "next_address h"
  define h2 where "h2 = with_new (with_new h)"
  have new: "BIO_new env methods_biop h = (Some ?b, with_new h)"
    "BIO_new env methods_biop (with_new h) = (Some (?b + 1), h2)"
    using True BIO_new_ok [of env] by (simp_all add: with_new(1) h2_def)
  have ready: "ready_bio h2 ?b" "ready_bio h2 (?b + 1)"
    using with_new(2) [of "with_new h"] with_new(2) [of h] by (simp_all add: h2_def with_new(1,4))
  obtain ok h3 where r: "bio_make_pair env ?b (?b + 1) w1 w2 h2 = (ok, h3)" by fastforce
  note made = bio_make_pair_new [OF _ ready assms(1,2) r]
  show ?thesis
  proof (cases ok)
    case True
    then have "BIO_new_bio_pair env w1 w2 h = Some (Some (?b, ?b + 1), h3)"
      by (simp add: BIO_new_bio_pair_def new r [simplified] Let_def)
    moreover have "queues_at h3 (?b, ?b + 1) = new_queues w1 w2" "linked h3 (?b, ?b + 1)"
      using made True by (auto simp: queues_at_def new_queues_def endpoint_def linked_def)
    ultimately show ?thesis using \<open>alloc_ok env sizeof_bio \<and> _\<close> made(1) True by auto
  next
    case False
    from made(3) False have "fresh_bio h3 ?b" "fresh_bio h3 (?b + 1)" by simp_all
    from BIO_free_fresh [OF this(1)] obtain h4 where
      h4: "BIO_free (Some ?b) h3 = Some (True, h4)" "bios h4 = (bios h3)(?b := None)" by blast
    with \<open>fresh_bio h3 (?b + 1)\<close> have "fresh_bio h4 (?b + 1)" by (simp add: fresh_bio_def)
    from BIO_free_fresh [OF this] obtain h5 where
      h5: "BIO_free (Some (?b + 1)) h4 = Some (True, h5)" "bios h5 = (bios h4)(?b + 1 := None)" by blast
    have "BIO_new_bio_pair env w1 w2 h = Some (None, h5)"
      using False h4 h5 by (simp add: BIO_new_bio_pair_def new r [simplified] Let_def)
    moreover have "bios h3 a = bios h2 a" if "a \<noteq> ?b" "a \<noteq> ?b + 1" for a
      using r False that by (auto simp: bio_make_pair_def Let_def split: if_splits)
    then have "bios h5 a = bios h a" for a
      using assms(3) by (simp add: h5(2) h4(2) h2_def with_new unused_from_def)
    then have "bios h5 = bios h" by (rule ext)
    ultimately show ?thesis using \<open>alloc_ok env sizeof_bio \<and> _\<close> made(1) False by auto
  qed
next
  case False
  have same: "\<exists>h1. BIO_new env methods_biop h0 = (None, h1) \<and> bios h1 = bios h0 \<and> unused_from h1 (next_address h1)"
    if "unused_from h0 (next_address h0)" for h0
    using False that by (auto simp: BIO_new_biop release_bio_def set_bio_def unused_from_def fun_upd_idem)
  from same [OF assms(3)] obtain h1 where h1: "BIO_new env methods_biop h = (None, h1)" "bios h1 = bios h"
    "unused_from h1 (next_address h1)" by blast
  from same [OF h1(3)] obtain h2 where h2: "BIO_new env methods_biop h1 = (None, h2)" "bios h2 = bios h1" by blast
  have "BIO_new_bio_pair env w1 w2 h = Some (None, h2)"
    by (simp add: BIO_new_bio_pair_def h1 h2 Let_def BIO_free_None)
  with False h1 h2 show ?thesis by auto
qed

end
