(* ===== verification/Bio_Queue.thy ===== *)
theory Bio_Queue
  imports Bio_Pair_Spec
begin

text \<open>
  What a caller of a BIO pair can rely on: the refinement of two queues from the call that makes
  the pair, the order of the bytes, their delivery, and the promise of the write guarantee.
\<close>

section \<open>Order and delivery in the queues\<close>

text \<open>The bytes an end has written with success, and those it has read.\<close>

fun sent :: "bool \<Rightarrow> pair_op list \<Rightarrow> (int \<times> bytes) list \<Rightarrow> bytes" where
  "sent s (Write t bs # ops) (r # rs) = (if t = s then take (nat (fst r)) bs else []) @ sent s ops rs"
| "sent s (_ # ops) (r # rs) = sent s ops rs"
| "sent s _ _ = []"

fun received :: "bool \<Rightarrow> pair_op list \<Rightarrow> (int \<times> bytes) list \<Rightarrow> bytes" where
  "received s (Read t n # ops) (r # rs) = (if t = s then snd r else []) @ received s ops rs"
| "received s (_ # ops) (r # rs) = received s ops rs"
| "received s _ _ = []"

fun reads :: "bool \<Rightarrow> pair_op list \<Rightarrow> nat" where
  "reads s (Read t n # ops) = (if t = s \<and> 0 < n then 1 else 0) + reads s ops"
| "reads s (_ # ops) = reads s ops"
| "reads s [] = 0"

lemma pipe_write_que:
  "que (snd (pipe_write bs q)) = que q @ take (nat (fst (pipe_write bs q))) bs"
  by (auto simp: pipe_write_def Let_def)

lemma pipe_read_que:
  "que q = snd (fst (pipe_read n q)) @ que (snd (pipe_read n q))"
  by (simp add: pipe_read_def)

lemma sent_Cons: "sent s (op # ops) (r # rs) = sent s [op] [r] @ sent s ops rs"
  by (cases op) auto

lemma received_Cons: "received s (op # ops) (r # rs) = received s [op] [r] @ received s ops rs"
  by (cases op) auto

lemma reads_Cons: "reads s (op # ops) = reads s [op] + reads s ops"
  by (cases op) auto

lemma queues_step_fifo:
  "que (q s) @ sent s [op] [fst (queues_step op q)]
     = received (\<not> s) [op] [fst (queues_step op q)] @ que (snd (queues_step op q) s)"
proof (cases op)
  case (Write t bs)
  then show ?thesis using pipe_write_que [of bs "q t"] by (auto split: prod.splits)
next
  case (Read t n)
  then show ?thesis using pipe_read_que [of "q (\<not> t)" n] by (auto split: prod.splits)
qed (auto split: if_splits)

lemma queues_step_drain:
  assumes "\<forall>bs. Write s bs \<noteq> op"
  shows "length (que (snd (queues_step op q) s)) \<le> length (que (q s)) - reads (\<not> s) [op]"
  using assms by (cases op) (auto simp: pipe_read_def split: prod.splits if_splits)

lemma queues_step_closed: "shut (q s) \<Longrightarrow> shut (snd (queues_step op q) s)"
  by (cases op) (auto simp: pipe_write_def pipe_read_def Let_def split: prod.splits if_splits)

lemma queues_fifo:
  "que (q s) @ sent s ops (fst (queues_run ops q))
     = received (\<not> s) ops (fst (queues_run ops q)) @ que (snd (queues_run ops q) s)"
proof (induction ops arbitrary: q)
  case Nil
  then show ?case by simp
next
  case (Cons op ops)
  let ?q = "snd (queues_step op q)" and ?r = "fst (queues_step op q)" and ?rs = "fst (queues_run ops (snd (queues_step op q)))"
  have "que (q s) @ sent s (op # ops) (?r # ?rs) = (que (q s) @ sent s [op] [?r]) @ sent s ops ?rs"
    by (subst sent_Cons) simp
  also have "\<dots> = received (\<not> s) [op] [?r] @ (que (?q s) @ sent s ops ?rs)"
    unfolding queues_step_fifo by simp
  also have "\<dots> = received (\<not> s) (op # ops) (?r # ?rs) @ que (snd (queues_run ops ?q) s)"
    unfolding Cons.IH by (subst (2) received_Cons) simp
  finally show ?case by (simp add: Let_def)
qed

text \<open>Every read of at least one byte takes one, if there is one.\<close>

lemma queues_drain:
  assumes "\<forall>bs. Write s bs \<notin> set ops"
  shows "length (que (snd (queues_run ops q) s)) \<le> length (que (q s)) - reads (\<not> s) ops"
  using assms
proof (induction ops arbitrary: q)
  case Nil
  then show ?case by simp
next
  case (Cons op ops)
  then have "\<forall>bs. Write s bs \<noteq> op" by auto
  from queues_step_drain [OF this, of q] Cons.IH [of "snd (queues_step op q)"] Cons.prems show ?case
    by (simp add: Let_def reads_Cons [of _ op ops])
qed

lemma queues_closed_stays: "shut (q s) \<Longrightarrow> shut (snd (queues_run ops q) s)"
proof (induction ops arbitrary: q)
  case Nil
  then show ?case by simp
next
  case (Cons op ops)
  have "shut (snd (queues_step op q) s)" using Cons.prems by (rule queues_step_closed)
  from Cons.IH [of "snd (queues_step op q)", OF this] show ?case by (simp add: Let_def)
qed

section \<open>The pair\<close>

text \<open>C35: \<open>BIO_new_bio_pair\<close> always returns. It succeeds exactly when its allocations do, two BIOs,
  their states and two rings of the sizes asked for (17 kB for 0), and a failure leaves no BIO
  behind. From then on, any sequence of operations on the two ends, in any order, returns and
  gives the results of the same operations on two bounded queues that are empty at first.
\<close>

theorem bio_pair_refines_queues:
  assumes "w1 < 2 ^ 63" and "w2 < 2 ^ 63" and "unused_from h (next_address h)" and "list_all op_int ops"
  shows "if alloc_ok env sizeof_bio \<and> alloc_ok env sizeof_bio_bio_st
        \<and> alloc_ok env (ring_size w1) \<and> alloc_ok env (ring_size w2)
    then \<exists>bc h1 h2. BIO_new_bio_pair env w1 w2 h = Some (Some bc, h1)
      \<and> pair_run env' bc ops h1 = Some (fst (queues_run ops (new_queues w1 w2)), h2)
      \<and> linked h2 bc \<and> queues_at h2 bc = snd (queues_run ops (new_queues w1 w2))
    else \<exists>h1. BIO_new_bio_pair env w1 w2 h = Some (None, h1) \<and> bios h1 = bios h"
proof -
  let ?ok = "alloc_ok env sizeof_bio \<and> alloc_ok env sizeof_bio_bio_st
        \<and> alloc_ok env (ring_size w1) \<and> alloc_ok env (ring_size w2)"
  let ?bc = "(next_address h, next_address h + 1)"
  from BIO_new_bio_pair_exact [OF assms(1-3), of env] obtain h1 where
    h1: "if ?ok then BIO_new_bio_pair env w1 w2 h = Some (Some ?bc, h1) \<and> linked h1 ?bc
        \<and> queues_at h1 ?bc = new_queues w1 w2
      else BIO_new_bio_pair env w1 w2 h = Some (None, h1) \<and> bios h1 = bios h" by blast
  show ?thesis
  proof (cases ?ok)
    case True
    with h1 pair_run_refines [OF _ assms(4), of h1 ?bc env'] show ?thesis by auto
  next
    case False
    with h1 show ?thesis by auto
  qed
qed

definition empty_store :: bio_store where
  "empty_store = \<lparr>bios = (\<lambda>_. None), buf_mems = (\<lambda>_. None), next_address = 0\<rparr>"

text \<open>A ring of four bytes: the second write wraps around, the third finds no room.\<close>

definition sample_ops :: "pair_op list" where
  "sample_ops = [Write True [1, 2, 3], Read False 2, Write True [4, 5, 6, 7], Write True [8], Read False 9,
     Read False 5]"

lemma bio_pair_refines_queues_witness:
  "\<exists>bc h1 h2. BIO_new_bio_pair \<lparr>alloc_ok = \<lambda>_. True, uninit = \<lambda>_. 0\<rparr> 4 0 empty_store = Some (Some bc, h1)
    \<and> pair_run \<lparr>alloc_ok = \<lambda>_. True, uninit = \<lambda>_. 0\<rparr> bc sample_ops h1
      = Some ([(3, []), (2, [1, 2]), (3, []), (-1, []), (4, [3, 4, 5, 6]), (-1, [])], h2)"
proof -
  let ?e = "\<lparr>alloc_ok = \<lambda>_. True, uninit = \<lambda>_. 0\<rparr>"
  have run: "fst (queues_run sample_ops (new_queues 4 0))
      = [(3, []), (2, [1, 2]), (3, []), (-1, []), (4, [3, 4, 5, 6]), (-1, [])]"
    by code_simp
  have ops: "list_all op_int sample_ops" by (simp add: sample_ops_def INT_MAX_def)
  have store: "unused_from empty_store (next_address empty_store)" by (simp add: unused_from_def empty_store_def)
  have "alloc_ok ?e n" for n by simp
  with bio_pair_refines_queues [of 4 0, OF _ _ store ops, of ?e ?e] show ?thesis
    unfolding run by auto
qed

text \<open>C36: Bytes arrive in order and none is lost: what one end had written before, followed by what
  it writes with success, is what the other end reads, followed by what is still in the ring.
  Once an end stops writing, so many reads of at least one byte by the other end as bytes are in
  the ring deliver all of them, whatever else happens in between; the next read returns 0 if the
  writer had closed its end.
\<close>

theorem bio_pair_delivers:
  assumes "linked h bc" and "list_all op_int ops"
  shows "\<exists>rs h'. pair_run env bc ops h = Some (rs, h') \<and> linked h' bc
    \<and> que (queues_at h bc s) @ sent s ops rs = received (\<not> s) ops rs @ que (queues_at h' bc s)
    \<and> ((\<forall>bs. Write s bs \<notin> set ops) \<and> length (que (queues_at h bc s)) \<le> reads (\<not> s) ops \<longrightarrow>
        received (\<not> s) ops rs = que (queues_at h bc s)
        \<and> (\<forall>n. 0 < n \<and> n \<le> INT_MAX \<longrightarrow> (\<exists>r h''. BIO_read (Some (endpoint bc (\<not> s))) (int n) h' = Some ((r, []), h'')
             \<and> (shut (queues_at h bc s) \<longrightarrow> r = 0))))"
proof -
  let ?q = "queues_at h bc"
  define rs where "rs = fst (queues_run ops ?q)"
  from pair_run_refines [OF assms] obtain h' where h': "pair_run env bc ops h = Some (rs, h')" "linked h' bc"
    "queues_at h' bc = snd (queues_run ops ?q)" by (auto simp: rs_def)
  have fifo: "que (?q s) @ sent s ops rs = received (\<not> s) ops rs @ que (queues_at h' bc s)"
    unfolding rs_def h'(3) by (rule queues_fifo)
  have sent_nil: "sent s os ts = []" if "\<forall>bs. Write s bs \<notin> set os" for os ts
    using that by (induction s os ts rule: sent.induct) auto
  have "received (\<not> s) ops rs = que (?q s)
        \<and> (\<forall>n. 0 < n \<and> n \<le> INT_MAX \<longrightarrow> (\<exists>r h''. BIO_read (Some (endpoint bc (\<not> s))) (int n) h' = Some ((r, []), h'')
             \<and> (shut (?q s) \<longrightarrow> r = 0)))"
    if "\<forall>bs. Write s bs \<notin> set ops" and "length (que (?q s)) \<le> reads (\<not> s) ops"
  proof (intro conjI allI impI)
    have empty: "que (queues_at h' bc s) = []"
      using queues_drain [OF that(1), of ?q] that(2) by (simp add: h'(3))
    with fifo sent_nil [OF that(1), of rs] show "received (\<not> s) ops rs = que (?q s)" by simp
    fix n assume n: "0 < n \<and> n \<le> INT_MAX"
    obtain r q' where r: "pipe_read n (queues_at h' bc s) = (r, q')" by fastforce
    have r0: "snd r = []" "shut (?q s) \<Longrightarrow> fst r = 0"
      using r n empty queues_closed_stays [of ?q s ops] by (auto simp: pipe_read_def h'(3) split: if_splits)
    have "op_int (Read (\<not> s) n)" using n by simp
    from pair_step_refines [OF h'(2) this] r obtain h'' where
      "BIO_read (Some (endpoint bc (\<not> s))) (int n) h' = Some (r, h'')" by auto
    then show "\<exists>r h''. BIO_read (Some (endpoint bc (\<not> s))) (int n) h' = Some ((r, []), h'')
        \<and> (shut (?q s) \<longrightarrow> r = 0)"
      using r0 by (cases r) auto
  qed
  with h' fifo show ?thesis by blast
qed

text \<open>Two bytes in the ring are read one at a time, while the reader writes as well.\<close>

lemma bio_pair_delivers_witness:
  "\<exists>bc h1 h2 rs h3. BIO_new_bio_pair \<lparr>alloc_ok = \<lambda>_. True, uninit = \<lambda>_. 0\<rparr> 4 0 empty_store = Some (Some bc, h1)
    \<and> pair_run \<lparr>alloc_ok = \<lambda>_. True, uninit = \<lambda>_. 0\<rparr> bc [Write True [1, 2], Shutdown True] h1 = Some ([(2, []), (1, [])], h2)
    \<and> pair_run \<lparr>alloc_ok = \<lambda>_. True, uninit = \<lambda>_. 0\<rparr> bc [Read False 1, Write False [7], Read False 1] h2 = Some (rs, h3)
    \<and> received False [Read False 1, Write False [7], Read False 1] rs = [1, 2]
    \<and> (\<exists>h4. BIO_read (Some (endpoint bc False)) (int 5) h3 = Some ((0, []), h4))"
proof -
  let ?e = "\<lparr>alloc_ok = \<lambda>_. True, uninit = \<lambda>_. 0\<rparr>"
  let ?w = "[Write True [1, 2], Shutdown True]" and ?ops = "[Read False 1, Write False [7], Read False 1]"
  have "unused_from empty_store (next_address empty_store)" by (simp add: unused_from_def empty_store_def)
  from BIO_new_bio_pair_exact [of 4 0, OF _ _ this, of ?e] obtain bc h1 where
    h1: "BIO_new_bio_pair ?e 4 0 empty_store = Some (Some bc, h1)" "linked h1 bc" "queues_at h1 bc = new_queues 4 0"
    by auto
  have run: "queues_run ?w (new_queues 4 0) = ([(2, []), (1, [])], (new_queues 4 0)
      (True := \<lparr>cap = 4, que = [1, 2], shut = True, wanted = 0\<rparr>))"
    by (simp add: new_queues_def ring_size_def pipe_write_def Let_def)
  have "list_all op_int ?w" by (simp add: INT_MAX_def)
  from pair_run_refines [OF h1(2) this, of ?e] obtain h2 where
    h2: "pair_run ?e bc ?w h1 = Some ([(2, []), (1, [])], h2)" "linked h2 bc"
      "queues_at h2 bc True = \<lparr>cap = 4, que = [1, 2], shut = True, wanted = 0\<rparr>"
    unfolding h1(3) run by auto
  have "list_all op_int ?ops" by (simp add: INT_MAX_def)
  from bio_pair_delivers [OF h2(2) this, of ?e True] obtain rs h3 where
    h3: "pair_run ?e bc ?ops h2 = Some (rs, h3)" "received False ?ops rs = [1, 2]"
      "\<forall>n. 0 < n \<and> n \<le> INT_MAX \<longrightarrow> (\<exists>r h''. BIO_read (Some (endpoint bc False)) (int n) h3 = Some ((r, []), h'') \<and> r = 0)"
    unfolding h2(3) by auto
  from h3(3) have "\<exists>h4. BIO_read (Some (endpoint bc False)) (int 5) h3 = Some ((0, []), h4)"
    by (auto simp: INT_MAX_def dest: spec [of _ 5])
  with h1(1) h2(1) h3(1,2) show ?thesis by blast
qed

end
