(* ===== verification/Bio_Der.thy ===== *)
theory Bio_Der
  imports Bio_Stream Der_Elements
begin

text \<open>
  \<open>BIO_read_asn1\<close> on any source: exactly the DER elements with a one-byte tag that fit the
  limits are read, and of an element of indefinite length everything up to the end. The source
  may be a memory BIO or an end of a pair.
\<close>

section \<open>Length octets\<close>

lemma len32_fold_ucast: "len32_fold (ucast w) bs = ucast (be_fold w bs)"
proof (induction bs arbitrary: w)
  case Nil
  then show ?case by simp
next
  case (Cons c cs)
  have "push_bit 8 (ucast w) OR ucast c = (ucast (push_bit 8 w OR ucast c) :: u32)"
    by (rule bit_word_eqI) (auto simp: bit_simps)
  with Cons show ?case by simp
qed

lemma unat_len32:
  assumes "length bs \<le> 4"
  shows "unat (len32_fold 0 bs) = nat_of_be bs" "unat (be_fold 0 bs) = nat_of_be bs"
proof -
  have "nat_of_be bs < 256 ^ length bs" by (rule nat_of_be_bound)
  also have "(256 :: nat) ^ length bs \<le> 256 ^ 4" using assms by (intro power_increasing) auto
  finally have small: "nat_of_be bs < 2 ^ 32" by simp
  show u: "unat (be_fold 0 bs) = nat_of_be bs" using assms by (intro unat_be_fold) simp
  have "unat (ucast (be_fold 0 bs) :: u32) = unat (be_fold 0 bs)"
    using small u by (intro unat_ucast_down) simp
  then show "unat (len32_fold 0 bs) = nat_of_be bs"
    using len32_fold_ucast [of 0 bs] u by simp
qed

lemma drop_bit_zero_iff: "drop_bit n (w :: 'a :: len word) = 0 \<longleftrightarrow> unat w < 2 ^ n"
proof -
  have "drop_bit n w = 0 \<longleftrightarrow> unat (drop_bit n w) = 0" by (simp add: unat_eq_0)
  also have "unat (drop_bit n w) = unat w div 2 ^ n" by (simp only: unat_drop_bit_eq) (simp only: drop_bit_eq_div)
  also have "unat w div 2 ^ n = 0 \<longleftrightarrow> unat w < 2 ^ n" by (simp add: div_eq_0_iff)
  finally show ?thesis .
qed

lemma power_256: "(2 :: nat) ^ ((k - 1) * 8) = 256 ^ (k - 1)" "(2 :: nat) ^ ((k - Suc 0) * 8) = 256 ^ (k - Suc 0)"
  by (subst mult.commute, simp add: power_mult)+

text \<open>The checks of the long form, and what they mean.\<close>

lemma long_length:
  assumes "bit l 7" and "k = unat (take_bit 7 l)" and "k \<noteq> 0" and "k \<le> 4" and "length lens = k"
    and "\<not> len32_fold 0 lens < 128" and "drop_bit ((k - 1) * 8) (len32_fold 0 lens) \<noteq> 0"
  shows "der_length (unat (len32_fold 0 lens)) = l # lens"
proof -
  let ?n = "nat_of_be lens"
  have n: "unat (len32_fold 0 lens) = ?n" "unat (be_fold 0 lens) = ?n"
    using assms(4,5) by (simp_all add: unat_len32)
  have "?n < 256 ^ k" using nat_of_be_bound [of lens] assms(5) by simp
  moreover have "256 ^ (k - 1) \<le> ?n" using assms(7) n by (simp add: drop_bit_zero_iff power_256)
  moreover have "128 \<le> ?n" using assms(6) n by (simp add: word_less_nat_alt)
  moreover have "k \<in> {1, 2, 3, 4}" using assms(3,4) by auto
  ultimately have "der_length ?n = of_nat (128 + k) # be_bytes k (of_nat ?n)"
    by (intro der_length_long)
  moreover have "of_nat ?n = be_fold 0 lens" unfolding n(2) [symmetric] by simp
  moreover have "of_nat (128 + k) = l" unfolding assms(2) using assms(1) by (rule low_bits_7)
  ultimately show ?thesis using n assms(4,5) by simp
qed

lemma long_length_only:
  assumes "der_length n = l # lens" and "n < 2 ^ 32" and "bit l 7" and "k = unat (take_bit 7 l)"
  shows "k \<noteq> 0 \<and> k \<le> 4 \<and> length lens = k \<and> unat (len32_fold 0 lens) = n
    \<and> \<not> len32_fold 0 lens < 128 \<and> drop_bit ((k - 1) * 8) (len32_fold 0 lens) \<noteq> 0"
  using assms(2)
proof (cases rule: der_length_cases)
  case short
  with assms(1,3) show ?thesis by (auto simp: bit_7_iff unat_of_nat)
next
  case (long j)
  then have l: "l = of_nat (128 + j)" "lens = be_bytes j (of_nat n)" using assms(1) by simp_all
  have j: "j < 128" "j \<le> 8" "j \<noteq> 0" "j \<le> 4" using long(1) by auto
  have k: "k = j" using first_length_byte(2) [OF j(1)] by (simp only: assms(4) l)
  have "n < 2 ^ (8 * j)" using long(4) by (simp add: power_mult)
  then have w: "drop_bit (8 * j) (of_nat n :: u64) = 0" "unat (of_nat n :: u64) = n"
    using drop_bit_of_nat_small [of n "8 * j"] j by auto
  then have "be_fold 0 lens = of_nat n" using j l by simp
  then have n: "unat (len32_fold 0 lens) = n"
    using unat_len32 [of lens] j l w(2) by simp
  show ?thesis
    using k j l n long(2,3) by (simp add: drop_bit_zero_iff power_256 word_less_nat_alt)
qed

lemma short_length_only:
  assumes "der_length n = l # lens" and "n < 2 ^ 32" and "\<not> bit l 7"
  shows "lens = [] \<and> n = unat l"
  using assms(2)
proof (cases rule: der_length_cases)
  case short
  with assms(1) show ?thesis by (auto simp: unat_of_nat)
next
  case (long j)
  then have "j < 128" by auto
  with long assms(1,3) first_length_byte(1) [of j] show ?thesis by simp
qed

lemma short_length: "\<not> bit l 7 \<Longrightarrow> der_length (unat l) = [l]"
  by (simp add: bit_7_iff der_length_def)

lemma der_length_unique:
  assumes "der_length m = l # xs" and "der_length n = l # ys" and "xs @ u = ys @ v"
    and "m < 2 ^ 32" and "n < 2 ^ 32"
  shows "m = n \<and> xs = ys"
  using parse_length_complete [OF assms(4), of 1 False 0 u] parse_length_complete [OF assms(5), of 1 False 0 v] assms(1-3)
  by auto

section \<open>Elements\<close>

text \<open>\<open>e\<close> is the element at the front of \<open>s\<close>, within the limits of the reader.\<close>

definition der_unit :: "cbb_env \<Rightarrow> nat \<Rightarrow> bytes \<Rightarrow> bytes \<Rightarrow> bool" where
  "der_unit env max_len e s \<longleftrightarrow> (\<exists>t c rest. e = t # der_length (length c) @ c \<and> s = e @ rest
     \<and> t AND 0x1f \<noteq> 0x1f \<and> length c \<le> INT_MAX \<and> length e \<le> max_len \<and> alloc_ok env (length e))"

definition indefinite_start :: "bytes \<Rightarrow> bool" where
  "indefinite_start s \<longleftrightarrow> (\<exists>t rest. s = t # 0x80 # rest \<and> t AND 0x1f \<noteq> 0x1f \<and> t AND 0x20 \<noteq> 0)"

lemma der_unit_iff:
  assumes "der_length n = l # lens" and "n < 2 ^ 32"
  shows "der_unit env max_len e (t # l # lens @ r) \<longleftrightarrow>
    t AND 0x1f \<noteq> 0x1f \<and> n \<le> length r \<and> n \<le> INT_MAX \<and> n + (length lens + 2) \<le> max_len
      \<and> alloc_ok env (n + (length lens + 2)) \<and> e = t # l # lens @ take n r"
proof
  assume "der_unit env max_len e (t # l # lens @ r)"
  then obtain c rest where c: "e = t # der_length (length c) @ c" "l # lens @ r = der_length (length c) @ c @ rest"
    "t AND 0x1f \<noteq> 0x1f" "length c \<le> INT_MAX" "length e \<le> max_len" "alloc_ok env (length e)"
    by (auto simp: der_unit_def)
  have small: "length c < 2 ^ 32" using c(4) by (simp add: INT_MAX_def)
  from c(2) obtain ys where ys: "der_length (length c) = l # ys" "lens @ r = ys @ c @ rest"
    by (cases "der_length (length c)") auto
  from der_length_unique [OF assms(1) ys(1,2) assms(2) small] ys(2) have "n = length c" "lens = ys" "r = c @ rest" by simp_all
  with c ys(1) show "t AND 0x1f \<noteq> 0x1f \<and> n \<le> length r \<and> n \<le> INT_MAX \<and> n + (length lens + 2) \<le> max_len
      \<and> alloc_ok env (n + (length lens + 2)) \<and> e = t # l # lens @ take n r"
    by (simp add: add.commute)
next
  assume h: "t AND 0x1f \<noteq> 0x1f \<and> n \<le> length r \<and> n \<le> INT_MAX \<and> n + (length lens + 2) \<le> max_len
      \<and> alloc_ok env (n + (length lens + 2)) \<and> e = t # l # lens @ take n r"
  then have "length (take n r) = n" "length e = n + (length lens + 2)"
    "e = t # der_length (length (take n r)) @ take n r" "t # l # lens @ r = e @ drop n r"
    using assms(1) by simp_all
  with h show "der_unit env max_len e (t # l # lens @ r)"
    unfolding der_unit_def by metis
qed

lemma der_unitD:
  assumes "der_unit env max_len e s"
  obtains t l lens n r where "s = t # l # lens @ r" and "der_length n = l # lens" and "n < 2 ^ 32"
proof -
  from assms obtain t c rest where c: "e = t # der_length (length c) @ c" "s = e @ rest" "length c \<le> INT_MAX"
    by (auto simp: der_unit_def)
  obtain l lens where l: "der_length (length c) = l # lens"
    by (cases "der_length (length c)") auto
  have "length c < 2 ^ 32" using c(3) by (simp add: INT_MAX_def)
  with c l show thesis by (intro that [of t l lens "c @ rest" "length c"]) simp_all
qed

context byte_source
begin

lemma read_contents_exact:
  assumes "valid h" and "length header \<le> 6" and "len < 2 ^ 32"
  shows "\<exists>h'. read_contents env (Some b) header len max_len h =
      Some (if len \<le> length (contents h) \<and> len \<le> INT_MAX \<and> len + length header \<le> max_len
              \<and> alloc_ok env (len + length header) then Some (header @ take len (contents h)) else None, h')
    \<and> valid h' \<and> (len \<le> INT_MAX \<and> len + length header \<le> max_len \<and> alloc_ok env (len + length header)
         \<longrightarrow> contents h' = drop len (contents h))"
proof -
  have sum: "size_add len (length header) = len + length header"
    using assms(2,3) by (intro size_add_exact) (simp add: SIZE_MAX_def)
  from read_full_exact [OF assms(1), of True len] obtain eof h' where
    h': "bio_read_full (Some b) True len h =
        Some (if len \<le> length (contents h) then Inr (take len (contents h)) else Inl eof, h')"
      "valid h'" "contents h' = drop len (contents h)" by blast
  show ?thesis
  proof (cases "len \<le> INT_MAX \<and> len + length header \<le> max_len \<and> alloc_ok env (len + length header)")
    case True
    with h' show ?thesis by (cases "len \<le> length (contents h)") (simp_all add: read_contents_def Let_def sum)
  next
    case False
    with assms(1) show ?thesis by (auto simp: read_contents_def Let_def sum)
  qed
qed

text \<open>With the length octets known, reading the contents decides the element.\<close>

lemma read_contents_unit:
  assumes "valid h" and "der_length n = l # lens" and "n < 2 ^ 32" and "t AND 0x1f \<noteq> 0x1f"
  shows "\<exists>r h'. read_contents env (Some b) (t # l # lens) n max_len h = Some (r, h') \<and> valid h'
    \<and> (\<forall>e. r = Some e \<longleftrightarrow> der_unit env max_len e (t # l # lens @ contents h))
    \<and> (\<forall>e. r = Some e \<longrightarrow> t # l # lens @ contents h = e @ contents h')"
proof -
  have "length lens \<le> 4" using der_length_bound [of n] assms(2) by simp
  then have "length (t # l # lens) \<le> 6" by simp
  from read_contents_exact [OF assms(1) this assms(3), of env max_len] obtain h' where
    h': "read_contents env (Some b) (t # l # lens) n max_len h =
      Some (if n \<le> length (contents h) \<and> n \<le> INT_MAX \<and> n + length (t # l # lens) \<le> max_len
              \<and> alloc_ok env (n + length (t # l # lens)) then Some ((t # l # lens) @ take n (contents h)) else None, h')"
      "valid h'" "n \<le> INT_MAX \<and> n + length (t # l # lens) \<le> max_len \<and> alloc_ok env (n + length (t # l # lens))
         \<longrightarrow> contents h' = drop n (contents h)" by blast
  have unit: "der_unit env max_len e (t # l # lens @ contents h) \<longleftrightarrow>
      n \<le> length (contents h) \<and> n \<le> INT_MAX \<and> n + length (t # l # lens) \<le> max_len
        \<and> alloc_ok env (n + length (t # l # lens)) \<and> e = (t # l # lens) @ take n (contents h)" for e
    using assms(4) unfolding der_unit_iff [OF assms(2,3)] by simp
  show ?thesis
    using h' unfolding unit by (intro exI conjI allI) (auto split: if_splits)
qed

lemma BIO_read_asn1_exact:
  assumes "valid h" and "\<not> indefinite_start (contents h)"
  shows "\<exists>r h'. BIO_read_asn1 env (Some b) max_len h = Some (r, h') \<and> valid h'
    \<and> (\<forall>e. r = Some e \<longleftrightarrow> der_unit env max_len e (contents h))
    \<and> (\<forall>e. r = Some e \<longrightarrow> contents h = e @ contents h')"
proof -
  let ?S = "contents h"
  have fails: "\<exists>r h''. Some (None, h') = Some (r, h'') \<and> valid h''
    \<and> (\<forall>e. r = Some e \<longleftrightarrow> der_unit env max_len e ?S) \<and> (\<forall>e. r = Some e \<longrightarrow> ?S = e @ contents h'')"
    if "valid h'" "\<And>e. \<not> der_unit env max_len e ?S" for h'
    using that by simp
  from read_full_exact [OF assms(1), of True 2] obtain eof h1 where
    h1: "bio_read_full (Some b) True 2 h = Some (if 2 \<le> length ?S then Inr (take 2 ?S) else Inl eof, h1)"
      "valid h1" "contents h1 = drop 2 ?S" by blast
  show ?thesis
  proof (cases "2 \<le> length ?S")
    case False
    have "\<not> der_unit env max_len e ?S" for e
    proof
      assume "der_unit env max_len e ?S"
      then obtain t l lens n r where "?S = t # l # lens @ r" by (rule der_unitD)
      with False show False by simp
    qed
    from fails [OF h1(2) this] show ?thesis using False h1(1) by (simp add: BIO_read_asn1_def)
  next
    case True
    then obtain t l R where S: "?S = t # l # R"
      by (metis One_nat_def Suc_1 Suc_le_length_iff)
    have R: "contents h1 = R" using h1(3) S by simp
    have take2: "take 2 ?S = [t, l]" and nths: "[t, l] ! 0 = t" "[t, l] ! 1 = l" by (simp_all add: S)
    have start: "BIO_read_asn1 env (Some b) max_len h =
      (if t AND 0x1f = 0x1f then Some (None, h1)
       else if l AND 0x80 = 0 then read_contents env (Some b) [t, l] (unat l) max_len h1
       else let num_bytes = unat (l AND 0x7f) in
         if t AND 0x20 \<noteq> 0 \<and> num_bytes = 0 then bio_read_all env (Some b) [t, l] max_len h1
         else if num_bytes = 0 \<or> num_bytes > 4 then Some (None, h1)
         else Option.bind (bio_read_full (Some b) True num_bytes h1) (\<lambda>s.
           case fst s of
             Inl _ \<Rightarrow> Some (None, snd s)
           | Inr lens \<Rightarrow>
               let len32 = len32_fold 0 lens in
               if len32 < 128 then Some (None, snd s)
               else if drop_bit ((num_bytes - 1) * 8) len32 = 0 then Some (None, snd s)
               else read_contents env (Some b) ([t, l] @ lens) (unat len32) max_len (snd s)))"
      unfolding BIO_read_asn1_def h1(1) if_P [OF True] take2 bind.bind_lunit prod.sel sum.case nths Let_def by simp
    have units: "t AND 0x1f \<noteq> 0x1f \<and> (\<exists>n lens r. R = lens @ r \<and> der_length n = l # lens \<and> n < 2 ^ 32)"
      if unit: "der_unit env max_len e ?S" for e
    proof -
      from unit obtain t' l' lens n r where "?S = t' # l' # lens @ r" "der_length n = l' # lens" "n < 2 ^ 32"
        by (rule der_unitD)
      with S have eq: "R = lens @ r" "der_length n = l # lens" "n < 2 ^ 32" by simp_all
      with unit S show ?thesis using der_unit_iff [OF eq(2,3), of env max_len e t r] by auto
    qed
    show ?thesis
    proof (cases "t AND 0x1f = 0x1f")
      case True
      with units have "\<not> der_unit env max_len e ?S" for e by blast
      from fails [OF h1(2) this] True show ?thesis by (simp add: start)
    next
      case low: False
      show ?thesis
      proof (cases "bit l 7")
        case False
        have "unat l < 2 ^ 32" using unat_u8_lt [of l] by simp
        note read_contents_unit [OF h1(2) short_length [OF False] this low, of env max_len, unfolded R]
        with False low S show ?thesis by (simp add: start)
      next
        case long: True
        define k where "k = unat (take_bit 7 l)"
        have only: "k \<noteq> 0 \<and> k \<le> 4 \<and> k \<le> length R \<and> \<not> len32_fold 0 (take k R) < 128
            \<and> drop_bit ((k - 1) * 8) (len32_fold 0 (take k R)) \<noteq> 0" if "der_unit env max_len e ?S" for e
        proof -
          from units [OF that] obtain n lens r where eq: "R = lens @ r" "der_length n = l # lens" "n < 2 ^ 32" by blast
          from long_length_only [OF eq(2,3) long k_def] eq(1) show ?thesis by auto
        qed
        have definite: "\<not> (t AND 0x20 \<noteq> 0 \<and> k = 0)"
        proof
          assume z: "t AND 0x20 \<noteq> 0 \<and> k = 0"
          then have "l = 0x80" using long by (simp add: eq_0x80_iff k_def unat_eq_0)
          with z low S assms(2) show False by (auto simp: indefinite_start_def)
        qed
        have start2: "BIO_read_asn1 env (Some b) max_len h =
          (if k = 0 \<or> k > 4 then Some (None, h1)
           else Option.bind (bio_read_full (Some b) True k h1) (\<lambda>s.
             case fst s of
               Inl _ \<Rightarrow> Some (None, snd s)
             | Inr lens \<Rightarrow>
                 let len32 = len32_fold 0 lens in
                 if len32 < 128 then Some (None, snd s)
                 else if drop_bit ((k - 1) * 8) len32 = 0 then Some (None, snd s)
                 else read_contents env (Some b) ([t, l] @ lens) (unat len32) max_len (snd s)))"
          unfolding start Let_def and_0x7f k_def [symmetric] if_not_P [OF definite] using low long by simp
        show ?thesis
        proof (cases "k = 0 \<or> k > 4")
          case True
          with only have "\<not> der_unit env max_len e ?S" for e by fastforce
          from fails [OF h1(2) this] True show ?thesis by (simp add: start2)
        next
          case k: False
          from read_full_exact [OF h1(2), of True k, unfolded R] obtain eof h2 where
            h2: "bio_read_full (Some b) True k h1 = Some (if k \<le> length R then Inr (take k R) else Inl eof, h2)"
              "valid h2" "contents h2 = drop k R" by blast
          let ?w = "len32_fold 0 (take k R)"
          show ?thesis
          proof (cases "k \<le> length R \<and> \<not> ?w < 128 \<and> drop_bit ((k - 1) * 8) ?w \<noteq> 0")
            case False
            with only have "\<not> der_unit env max_len e ?S" for e by blast
            from fails [OF h2(2) this] False k show ?thesis
              by (auto simp: start2 h2(1) Let_def)
          next
            case True
            then have "der_length (unat ?w) = l # take k R"
              using long k by (intro long_length [OF long k_def]) auto
            moreover have "unat ?w < 2 ^ 32" using unsigned_less [of ?w] by simp
            moreover have "t # l # take k R @ contents h2 = ?S" using S h2(3) by simp
            moreover have "BIO_read_asn1 env (Some b) max_len h =
                read_contents env (Some b) (t # l # take k R) (unat ?w) max_len h2"
              using True k by (simp add: start2 h2(1) Let_def)
            ultimately show ?thesis
              using read_contents_unit [OF h2(2) _ _ low, of "unat ?w" l "take k R" env max_len] by simp
          qed
        qed
      qed
    qed
  qed
qed

lemma BIO_read_asn1_indefinite:
  assumes "valid h" and "indefinite_start (contents h)" and "max_len \<le> SIZE_MAX"
    and "\<And>n. alloc_ok env n" and "end_value h \<in> {0, - 1}"
  shows "\<exists>h'. BIO_read_asn1 env (Some b) max_len h =
      Some (if end_value h = 0 \<and> length (contents h) < max_len then Some (contents h) else None, h') \<and> valid h'"
proof -
  let ?S = "contents h"
  from assms(2) obtain t R where S: "?S = t # 0x80 # R" "t AND 0x1f \<noteq> 0x1f" "t AND 0x20 \<noteq> 0"
    by (auto simp: indefinite_start_def)
  from read_full_exact [OF assms(1), of True 2] obtain eof h1 where
    h1: "bio_read_full (Some b) True 2 h = Some (Inr [t, 0x80], h1)"
      "valid h1" "contents h1 = R" "end_value h1 = end_value h" by (auto simp: S(1))
  have "BIO_read_asn1 env (Some b) max_len h = bio_read_all env (Some b) [t, 0x80] max_len h1"
    using S(2,3) by (simp add: BIO_read_asn1_def h1(1) Let_def)
  moreover have "\<exists>h'. bio_read_all env (Some b) [t, 0x80] max_len h1 =
      Some (if end_value h = 0 \<and> length (t # 0x80 # R) < max_len then Some (t # 0x80 # R) else None, h')
    \<and> valid h'"
    using read_all_exact [OF h1(2) _ assms(3,4), of "[t, 0x80]", unfolded append.simps] assms(5)
    unfolding h1(3,4) by (simp add: kChunkSize_def SIZE_MAX_def)
  ultimately show ?thesis unfolding S(1) by simp
qed

end

end
