(* ===== verification/Bio_Theorems.thy ===== *)
theory Bio_Theorems
  imports Bio_Ends
begin

text \<open>
  The properties of the loops over BIOs: \<open>BIO_write_all\<close> returns and tells whether everything
  was written, \<open>BIO_read_asn1\<close> reads exactly one element, an element written at one end of a pair
  is read at the other. The last section shows where the loop of \<open>bio_read_all\<close> does not return.
\<close>

text \<open>C37: \<open>BIO_write_all\<close> on a memory BIO or on an end of a pair always returns. A prefix of the data
  is appended to what the BIO holds, and the result is one exactly when that prefix is all of it.
\<close>

theorem bio_write_all_returns:
  "(mem_bio h b \<longrightarrow> (\<exists>ok h' k. BIO_write_all env (Some b) src h = Some (ok, h') \<and> mem_bio h' b
      \<and> k \<le> length src \<and> mem_content h' b = mem_content h b @ take k src \<and> (ok \<longleftrightarrow> k = length src)))
   \<and> (linked h bc \<longrightarrow> (\<exists>ok h' k. BIO_write_all env (Some (endpoint bc s)) src h = Some (ok, h') \<and> linked h' bc
      \<and> k \<le> length src \<and> que (queues_at h' bc s) = que (queues_at h bc s) @ take k src \<and> (ok \<longleftrightarrow> k = length src)))"
  using mem_sink.write_all_returns [of h b env src] pair_sink.write_all_returns [of h bc env s src] by blast

definition mem_store_with :: "bytes \<Rightarrow> int \<Rightarrow> bio_store" where
  "mem_store_with bs end_value =
     \<lparr>bios = [0 \<mapsto> (zero_bio mem_method)\<lparr>bio_init := True, bio_shutdown := 1, bio_num := end_value,
        references := 1, bio_ptr := Mem_ptr 1\<rparr>],
      buf_mems = [1 \<mapsto> \<lparr>bm_length = length bs, bm_data = Some bs, bm_start = 0, bm_max = length bs\<rparr>],
      next_address = 2\<rparr>"

lemma mem_store_with:
  assumes "length bs \<le> SIZE_MAX"
  shows "mem_bio (mem_store_with bs n) 0" "mem_content (mem_store_with bs n) 0 = bs"
    "bio_num (bio_at (mem_store_with bs n) 0) = n"
  using assms by (auto simp: mem_bio_def mem_content_def mem_at_def bio_at_def mem_store_with_def zero_bio_def rdonly_def
      wf_buf_mem_def mem_bytes_def)

lemma bio_write_all_returns_witness:
  "\<exists>ok h' k. BIO_write_all \<lparr>alloc_ok = \<lambda>_. True, uninit = \<lambda>_. 0\<rparr> (Some 0) [1, 2, 3] (mem_store_with [9] (- 1)) = Some (ok, h')
    \<and> mem_content h' 0 = [9] @ take k [1, 2, 3] \<and> (ok \<longleftrightarrow> k = 3)"
proof -
  have "length [9 :: u8] \<le> SIZE_MAX" by (simp add: SIZE_MAX_def)
  note m = mem_store_with [OF this, of "- 1"]
  from bio_write_all_returns [of "mem_store_with [9] (- 1)" 0 "\<lparr>alloc_ok = \<lambda>_. True, uninit = \<lambda>_. 0\<rparr>" "[1, 2, 3]"] m
  obtain ok h' k where "BIO_write_all \<lparr>alloc_ok = \<lambda>_. True, uninit = \<lambda>_. 0\<rparr> (Some 0) [1, 2, 3] (mem_store_with [9] (- 1)) = Some (ok, h')"
    "mem_content h' 0 = [9] @ take k [1, 2, 3]" "ok \<longleftrightarrow> k = length [1 :: u8, 2, 3]" unfolding m(2) by blast
  then show ?thesis by (intro exI [of _ ok] exI [of _ h'] exI [of _ k]) (simp add: numeral_3_eq_3)
qed

text \<open>C38: \<open>BIO_read_asn1\<close> on a memory BIO reads exactly the DER elements with a one-byte tag other
  than the escape, with contents of at most \<open>INT_MAX\<close> bytes and \<open>max_len\<close> bytes in all, and leaves
  what follows. An element of indefinite length is read up to the end of the BIO if that is an
  end of file and the whole is shorter than \<open>max_len\<close>.
\<close>

theorem bio_read_asn1_exact:
  assumes "mem_bio h b" and "bio_num (bio_at h b) \<in> {0, - 1}" and "max_len \<le> SIZE_MAX" and "\<And>n. alloc_ok env n"
  shows "\<exists>r h'. BIO_read_asn1 env (Some b) max_len h = Some (r, h') \<and> mem_bio h' b
    \<and> (if indefinite_start (mem_content h b)
       then r = (if bio_num (bio_at h b) = 0 \<and> length (mem_content h b) < max_len then Some (mem_content h b) else None)
       else (\<forall>e. r = Some e \<longleftrightarrow> der_unit env max_len e (mem_content h b))
         \<and> (\<forall>e. r = Some e \<longrightarrow> mem_content h b = e @ mem_content h' b))"
proof -
  have valid: "mem_bio h b \<and> bio_num (bio_at h b) \<le> 0" using assms(1,2) by auto
  show ?thesis
  proof (cases "indefinite_start (mem_content h b)")
    case True
    from mem_source.BIO_read_asn1_indefinite [OF valid True assms(3,4,2)] True show ?thesis by auto
  next
    case False
    from mem_source.BIO_read_asn1_exact [OF valid False, of env max_len] False show ?thesis by auto
  qed
qed

text \<open>Two elements, of which the first is read.\<close>

lemma bio_read_asn1_exact_witness:
  "\<exists>h'. BIO_read_asn1 \<lparr>alloc_ok = \<lambda>_. True, uninit = \<lambda>_. 0\<rparr> (Some 0) 100 (mem_store_with [4, 2, 7, 8, 5, 0] 0)
      = Some (Some [4, 2, 7, 8], h') \<and> mem_content h' 0 = [5, 0]"
proof -
  let ?e = "\<lparr>alloc_ok = \<lambda>_. True, uninit = \<lambda>_. 0\<rparr>" and ?s = "[4, 2, 7, 8, 5, 0] :: bytes"
  have "length ?s \<le> SIZE_MAX" by (simp add: SIZE_MAX_def)
  note m = mem_store_with [OF this, of 0]
  have "alloc_ok ?e n" for n by simp
  moreover have "\<not> indefinite_start ?s" by (simp add: indefinite_start_def)
  moreover have "der_unit ?e 100 [4, 2, 7, 8] ?s"
    unfolding der_unit_def
    by (intro exI [of _ 4] exI [of _ "[7, 8]"] exI [of _ "[5, 0]"]) (simp add: der_length_def INT_MAX_def take_bit_eq_mod)
  ultimately show ?thesis
    using bio_read_asn1_exact [OF m(1), of 100 ?e] unfolding m(2,3) by (auto simp: SIZE_MAX_def)
qed

text \<open>C39: An element that one end of an empty pair has written with \<open>BIO_write_all\<close> is what
  \<open>BIO_read_asn1\<close> returns at the other end, and the pair is empty again.
\<close>

theorem asn1_through_pair:
  assumes "linked h bc" and "que (queues_at h bc s) = []" and "der_unit env max_len e e"
    and "BIO_write_all env' (Some (endpoint bc s)) e h = Some (True, h1)"
  shows "\<exists>h2. BIO_read_asn1 env (Some (endpoint bc (\<not> s))) max_len h1 = Some (Some e, h2) \<and> linked h2 bc
    \<and> que (queues_at h2 bc s) = []"
proof -
  from pair_sink.write_all_returns [OF assms(1), of env' s e] assms(2,4) have
    h1: "linked h1 bc" "que (queues_at h1 bc s) = e" by auto
  have definite: "\<not> indefinite_start e"
  proof
    assume "indefinite_start e"
    then obtain t rest where e: "e = t # 0x80 # rest" by (auto simp: indefinite_start_def)
    from assms(3) obtain t' l lens n r where "e = t' # l # lens @ r" "der_length n = l # lens" "n < 2 ^ 32"
      by (rule der_unitD)
    with e have "der_length n = 0x80 # lens" "n < 2 ^ 32" by simp_all
    moreover have "bit (0x80 :: u8) 7" "unat (take_bit 7 (0x80 :: u8)) = 0" by code_simp+
    ultimately show False using long_length_only by metis
  qed
  from pair_source.BIO_read_asn1_exact [OF h1(1), of "\<not> s", unfolded not_not h1(2), OF definite, of env max_len]
  obtain r h2 where
    r: "BIO_read_asn1 env (Some (endpoint bc (\<not> s))) max_len h1 = Some (r, h2)" "linked h2 bc"
      "\<forall>x. r = Some x \<longleftrightarrow> der_unit env max_len x e" "\<forall>x. r = Some x \<longrightarrow> e = x @ que (queues_at h2 bc s)"
    by blast
  from r(3) assms(3) have "r = Some e" by blast
  with r(4) have "e = e @ que (queues_at h2 bc s)" by blast
  then have "que (queues_at h2 bc s) = []" by simp
  with r(1,2) \<open>r = Some e\<close> show ?thesis by blast
qed

text \<open>An OCTET STRING of two bytes through a ring of four.\<close>

lemma asn1_through_pair_witness:
  "\<exists>bc h1 h2 h3. BIO_new_bio_pair \<lparr>alloc_ok = \<lambda>_. True, uninit = \<lambda>_. 0\<rparr> 4 0 empty_store = Some (Some bc, h1)
    \<and> BIO_write_all \<lparr>alloc_ok = \<lambda>_. True, uninit = \<lambda>_. 0\<rparr> (Some (endpoint bc True)) [4, 2, 7, 8] h1 = Some (True, h2)
    \<and> BIO_read_asn1 \<lparr>alloc_ok = \<lambda>_. True, uninit = \<lambda>_. 0\<rparr> (Some (endpoint bc (\<not> True))) 100 h2 = Some (Some [4, 2, 7, 8], h3)"
proof -
  let ?e = "\<lparr>alloc_ok = \<lambda>_. True, uninit = \<lambda>_. 0\<rparr>" and ?s = "[4, 2, 7, 8] :: bytes"
  have "unused_from empty_store (next_address empty_store)" by (simp add: unused_from_def empty_store_def)
  from BIO_new_bio_pair_exact [of 4 0, OF _ _ this, of ?e] obtain bc h1 where
    h1: "BIO_new_bio_pair ?e 4 0 empty_store = Some (Some bc, h1)" "linked h1 bc" "queues_at h1 bc = new_queues 4 0"
    by auto
  have wr: "pipe_write ?s (queues_at h1 bc True) = (4, (queues_at h1 bc True)\<lparr>que := ?s\<rparr>)"
    by (simp add: h1(3) new_queues_def ring_size_def pipe_write_def Let_def)
  have "length ?s \<le> INT_MAX" by (simp add: INT_MAX_def)
  from BIO_write_linked [OF h1(2) this, of ?e True] obtain h2 where
    "BIO_write ?e (Some (endpoint bc True)) ?s (int (length ?s)) h1 = Some (4, h2)"
    unfolding wr by auto
  then have all: "BIO_write_all ?e (Some (endpoint bc True)) ?s h1 = Some (True, h2)"
    by (subst BIO_write_all.simps, subst BIO_write_all.simps) (simp add: INT_MAX_def)
  have empty: "que (queues_at h1 bc True) = []" by (simp add: h1(3) new_queues_def)
  have unit: "der_unit ?e 100 ?s ?s"
    unfolding der_unit_def
    by (intro exI [of _ 4] exI [of _ "[7, 8]"] exI [of _ "[]"]) (simp add: der_length_def INT_MAX_def take_bit_eq_mod)
  from asn1_through_pair [OF h1(2) empty unit all] h1(1) all show ?thesis by blast
qed

section \<open>A read that does not return\<close>

text \<open>
  The loop of \<open>bio_read_all\<close> takes only -1 for an error. When the end value of a memory BIO is
  an even number below -1, the position moves back by it at each round and, past zero, on from the
  end of \<open>size_t\<close>; if one of the position and the length of the buffer is even and the other odd, the
  two never meet.
\<close>

definition moving_back :: "nat option \<Rightarrow> nat \<Rightarrow> nat \<Rightarrow> nat \<Rightarrow> bio_store \<Rightarrow> bool" where
  "moving_back b max_len pos len h \<longleftrightarrow> (\<exists>a. b = Some a \<and> mem_bio h a \<and> bio_num (bio_at h a) < - 1
     \<and> even (bio_num (bio_at h a)) \<and> mem_content h a = []) \<and> len = max_len \<and> odd (len + pos) \<and> pos < 2 ^ 64"

lemma even_to_size: "even n \<Longrightarrow> even (to_size n)"
  by (simp add: to_size_def even_nat_iff dvd_mod_iff)

lemma read_all_loop_stuck:
  assumes "bio_read_all_loop env b max_len buf pos len h = Some y"
  shows "\<not> moving_back b max_len pos len h"
proof (rule bio_read_all_loop.raw_induct [where P = "\<lambda>env b max_len buf pos len h y. \<not> moving_back b max_len pos len h",
      OF _ assms], goal_cases)
  case (1 loop env b max_len buf pos len h y)
  show ?case
  proof
    assume m: "moving_back b max_len pos len h"
    then obtain a where a: "b = Some a" "mem_bio h a" "mem_content h a = []"
      "bio_num (bio_at h a) < - 1" "even (bio_num (bio_at h a))"
      and l: "len = max_len" "odd (len + pos)" "pos < 2 ^ 64" by (auto simp: moving_back_def)
    let ?v = "bio_num (bio_at h a)"
    have ne: "pos \<noteq> len" using l by auto
    define k where "k = (if size_sub len pos > INT_MAX then INT_MAX else size_sub len pos)"
    have "0 < size_sub len pos" using ne l(3) by (auto simp: size_sub_def)
    then have "0 < k" by (simp add: k_def INT_MAX_def)
    from BIO_read_mem [OF a(2) this] a obtain h1 where
      h1: "BIO_read (Some a) (int k) h = Some ((?v, []), h1)" "mem_bio h1 a" "mem_content h1 a = []"
        "bio_num (bio_at h1 a) = ?v" by auto
    define pos' where "pos' = size_add pos (to_size ?v)"
    have pos': "pos' < 2 ^ 64" "odd (len + pos')"
      using l(2) even_to_size [OF a(5)] by (simp_all add: pos'_def size_add_def even_mod_2_iff dvd_mod_iff)
    have "loop env (Some a) max_len (mem_store pos [] buf) pos' len h1 = Some y"
      using 1(2) unfolding if_not_P [OF ne] Let_def k_def [symmetric] a(1) h1(1) bind.bind_lunit prod.sel
        pos'_def [symmetric] using l(1) a(4) by simp
    from 1(1) [OF this] have "\<not> moving_back (Some a) max_len pos' len h1" .
    with h1 pos' l a(4,5) show False by (simp add: moving_back_def)
  qed
qed

text \<open>One read takes what is left in the BIO, when there is room for it.\<close>

lemma read_all_loop_drains:
  assumes "mem_bio h b" and "mem_content h b \<noteq> []" and "pos + length (mem_content h b) < len" and "len \<le> INT_MAX"
  shows "\<exists>h1 buf'. mem_bio h1 b \<and> mem_content h1 b = [] \<and> bio_num (bio_at h1 b) = bio_num (bio_at h b) \<and>
    bio_read_all_loop env (Some b) len buf pos len h =
    bio_read_all_loop env (Some b) len buf' (pos + length (mem_content h b)) len h1"
proof -
  let ?n = "length (mem_content h b)"
  define k where "k = len - pos"
  have k: "0 < k" "?n \<le> k" "k \<le> INT_MAX" using assms(3,4) by (simp_all add: k_def)
  from BIO_read_mem [OF assms(1) k(1)] k(2) assms(2) obtain h1 where
    h1: "BIO_read (Some b) (int k) h = Some ((int ?n, mem_content h b), h1)" "mem_bio h1 b" "mem_content h1 b = []"
      "bio_num (bio_at h1 b) = bio_num (bio_at h b)" by auto
  have size: "size_sub len pos = k" "to_size (int ?n) = ?n" "size_add pos ?n = pos + ?n"
    using assms(3,4) by (simp_all add: k_def size_sub_def to_size_def size_add_def INT_MAX_def nat_mod_distrib)
  show ?thesis
    by (intro exI [of _ h1] exI [of _ "mem_store pos (mem_content h b) buf"] conjI h1(2-4),
        subst bio_read_all_loop.simps)
      (use assms(2,3) k(3) in \<open>simp add: size h1(1) Let_def\<close>)
qed

text \<open>C40: \<open>BIO_read_asn1\<close> does not return on a memory BIO with an element of indefinite length, if the
  BIO's end value is an even number below -1, as \<open>bio.h\<close> allows it to be set, the limit is at
  most 4098, what the BIO holds is shorter than the limit, and of the two lengths one is even and
  the other odd.
\<close>

theorem read_asn1_never_returns:
  assumes "mem_bio h b" and "bio_num (bio_at h b) < - 1" and "even (bio_num (bio_at h b))"
    and "indefinite_start (mem_content h b)" and "length (mem_content h b) < max_len" and "max_len \<le> 4098"
    and "odd (max_len + length (mem_content h b))" and "\<And>n. alloc_ok env n"
  shows "BIO_read_asn1 env (Some b) max_len h = None"
proof -
  obtain t rest where c: "mem_content h b = [t, 0x80] @ rest" and t: "t AND 0x1f \<noteq> 0x1f" "t AND 0x20 \<noteq> 0"
    using assms(4) by (auto simp: indefinite_start_def)
  have valid: "mem_bio h b \<and> bio_num (bio_at h b) \<le> 0" using assms(1,2) by simp
  from mem_source.read_full_exact [OF valid, of True 2] c obtain h1 where
    h1: "bio_read_full (Some b) True 2 h = Some (Inr [t, 0x80], h1)" "mem_bio h1 b" "mem_content h1 b = rest"
      "bio_num (bio_at h1 b) = bio_num (bio_at h b)" by auto
  have "0x80 AND 0x80 \<noteq> (0 :: u8)" "unat (0x80 AND 0x7f :: u8) = 0" by code_simp+
  then have start: "BIO_read_asn1 env (Some b) max_len h = bio_read_all env (Some b) [t, 0x80] max_len h1"
    using t unfolding BIO_read_asn1_def h1(1) by (simp add: Let_def)
  define buf where "buf = mem_store 0 [t, 0x80] (map (uninit env) [0..<max_len])"
  have "size_add 2 kChunkSize = 4098" by (simp add: size_add_def kChunkSize_def)
  then have all: "bio_read_all env (Some b) [t, 0x80] max_len h1 =
      bio_read_all_loop env (Some b) max_len buf 2 max_len h1"
    using assms(5,6,8) c by (auto simp: bio_read_all_def Let_def mem_realloc_def buf_def numeral_2_eq_2)
  have stuck: "bio_read_all_loop env (Some b) max_len buf' pos max_len h' = None"
    if "mem_bio h' b" "mem_content h' b = []" "bio_num (bio_at h' b) = bio_num (bio_at h b)" "pos = length (mem_content h b)"
    for buf' pos h'
  proof -
    have "moving_back (Some b) max_len pos max_len h'"
      using that assms(2,3,5,6,7) by (simp add: moving_back_def)
    then show ?thesis
      using read_all_loop_stuck [of env "Some b" max_len buf' pos max_len h']
      by (cases "bio_read_all_loop env (Some b) max_len buf' pos max_len h'") auto
  qed
  show ?thesis
  proof (cases "rest = []")
    case True
    then show ?thesis using stuck [of h1 2 buf] h1 c by (simp add: start all)
  next
    case False
    then show ?thesis
      using read_all_loop_drains [of h1 b 2 max_len env buf] stuck h1 c assms(5,6) by (auto simp: start all INT_MAX_def)
  qed
qed

text \<open>A SEQUENCE of indefinite length with one NULL and no end, and one that holds nothing.\<close>

lemma read_asn1_never_returns_witness:
  "BIO_read_asn1 \<lparr>alloc_ok = \<lambda>_. True, uninit = \<lambda>_. 0\<rparr> (Some 0) 4097 (mem_store_with [0x30, 0x80, 5, 0] (- 2)) = None \<and>
   BIO_read_asn1 \<lparr>alloc_ok = \<lambda>_. True, uninit = \<lambda>_. 0\<rparr> (Some 0) 3 (mem_store_with [0x30, 0x80] (- 4)) = None"
proof -
  have tag: "0x30 AND 0x1f \<noteq> (0x1f :: u8)" "0x30 AND 0x20 \<noteq> (0 :: u8)" by code_simp+
  have "length [0x30 :: u8, 0x80, 5, 0] \<le> SIZE_MAX" "length [0x30 :: u8, 0x80] \<le> SIZE_MAX" by (simp_all add: SIZE_MAX_def)
  note m = mem_store_with [OF this(1), of "- 2"] mem_store_with [OF this(2), of "- 4"]
  have "indefinite_start (mem_content (mem_store_with [0x30, 0x80, 5, 0] (- 2)) 0)"
    "indefinite_start (mem_content (mem_store_with [0x30, 0x80] (- 4)) 0)"
    using tag by (simp_all add: m indefinite_start_def)
  then show ?thesis
    by (intro conjI read_asn1_never_returns m(1,4)) (simp_all add: m)
qed

end
