(* ===== verification/Cbb_Errors.thy ===== *)
theory Cbb_Errors
  imports Cbb_Asn1 Cbb_Spec Unicode
begin

text \<open>
  Errors of the builder. A call that fails locks the whole tree of CBBs into the error state,
  in which every further call but \<open>CBB_did_write\<close> fails, up to and including \<open>CBB_finish\<close>: a client
  may ignore the results of its calls and look at the last one only. The exceptions are the writers
  that refuse an argument without locking: object identifiers, code points, SET OF, \<open>CBB_did_write\<close>.
\<close>

section \<open>The chain of children\<close>

definition keeps_chain :: "(cbb, 'a) action \<Rightarrow> bool" where
  "keeps_chain op \<longleftrightarrow> (\<forall>s. open_children (snd (op s)) = open_children s)"

named_theorems keeps_intros

lemma keeps_and_then [keeps_intros]:
  assumes "keeps_chain m" and "\<And>x. keeps_chain (f x)"
  shows "keeps_chain (and_then m f)"
  unfolding keeps_chain_def
proof
  fix s
  show "open_children (snd (and_then m f s)) = open_children s"
  proof (cases "m s")
    case (Pair a s1)
    then have "open_children s1 = open_children s" using assms(1) unfolding keeps_chain_def by (metis snd_conv)
    then show ?thesis using Pair assms(2) by (cases a) (simp_all add: keeps_chain_def)
  qed
qed

lemma keeps_ret [keeps_intros]: "keeps_chain (ret x)"
  by (simp add: keeps_chain_def ret_def)

lemma keeps_if [keeps_intros]: "keeps_chain m \<Longrightarrow> keeps_chain m' \<Longrightarrow> keeps_chain (if b then m else m')"
  by simp

lemma keeps_update [keeps_intros]: "(\<And>s. open_children (g s) = open_children s) \<Longrightarrow> keeps_chain (\<lambda>s. (Some x, g s))"
  by (simp add: keeps_chain_def)

lemma keeps_buffer_reserve [keeps_intros]: "keeps_chain (cbb_buffer_reserve env n)"
  by (simp add: keeps_chain_def cbb_buffer_reserve_def Let_def cbb_set_error_def)

lemma keeps_buffer_add [keeps_intros]: "keeps_chain (cbb_buffer_add env n)"
  unfolding cbb_buffer_add_def by (intro keeps_and_then keeps_buffer_reserve keeps_update) simp

lemma keeps_flush_prefix [keeps_intros]: "keeps_chain (flush_prefix i n len)"
  by (auto simp: keeps_chain_def flush_prefix_def split: prod.splits)

lemma keeps_flush_prefix_store: "keeps_chain (\<lambda>s. flush_prefix i n len (cbb_store k bs s))"
  using keeps_flush_prefix [of i n len] by (simp add: keeps_chain_def)

lemma keeps_flush_asn1 [keeps_intros]: "keeps_chain (flush_asn1 env i j len)"
proof (cases "asn1_length_octets len")
  case None
  then show ?thesis by (simp add: keeps_chain_def flush_asn1_def)
next
  case (Some q)
  obtain len_len b where q: "q = (len_len, b)" by (cases q)
  have "keeps_chain (and_then (if len_len \<noteq> 1 then and_then (cbb_buffer_add env (len_len - 1))
      (\<lambda>_ s. (Some (), cbb_store (j + (len_len - 1)) contents s)) else ret ())
    (\<lambda>_ s. flush_prefix (i + 1) (len_len - 1) (if len_len = 1 then 0 else len) (cbb_store i [b] s)))" for contents
    by (intro keeps_and_then keeps_if keeps_ret keeps_buffer_add keeps_update keeps_flush_prefix_store) simp
  then show ?thesis unfolding keeps_chain_def flush_asn1_def Some q option.case prod.case Let_def by blast
qed

lemma keeps_flush_child [keeps_intros]: "keeps_chain (flush_child env c)"
  using keeps_flush_prefix keeps_flush_asn1 by (simp add: keeps_chain_def flush_child_def Let_def)

lemma keeps_flush_children: "keeps_chain (flush_children env cs)"
proof (induction cs)
  case (Cons c cs)
  have k: "keeps_chain (and_then (flush_children env cs) (\<lambda>_. flush_child env c))"
    by (intro keeps_and_then keeps_flush_child Cons)
  show ?case unfolding keeps_chain_def
  proof
    fix s
    have "open_children (snd (and_then (flush_children env cs) (\<lambda>_. flush_child env c) s)) = open_children s"
      using k by (simp add: keeps_chain_def)
    then show "open_children (snd (flush_children env (c # cs) s)) = open_children s"
      by (auto simp: cbb_set_error_def split: prod.splits option.splits)
  qed
qed (simp add: keeps_chain_def)

section \<open>Locking\<close>

definition locks :: "handle \<Rightarrow> (cbb, 'a) action \<Rightarrow> bool" where
  "locks h op \<longleftrightarrow> (\<forall>s. \<not> is_stale h s \<longrightarrow>
     (case op s of (None, s') \<Rightarrow> base_error s' | (Some _, s') \<Rightarrow> \<not> is_stale h s'))"

definition sticks :: "(cbb, 'a) action \<Rightarrow> bool" where
  "sticks op \<longleftrightarrow> (\<forall>s. base_error s \<longrightarrow> (\<exists>s'. op s = (None, s') \<and> base_error s'))"

named_theorems locks_intros

lemma locksD: "locks h m \<Longrightarrow> \<not> is_stale h s \<Longrightarrow> m s = (None, s') \<Longrightarrow> base_error s'"
  by (fastforce simp: locks_def)

lemma locks_stale: "locks h m \<Longrightarrow> \<not> is_stale h s \<Longrightarrow> m s = (Some x, s') \<Longrightarrow> \<not> is_stale h s'"
  by (fastforce simp: locks_def)

lemma locks_and_then [locks_intros]:
  assumes "locks h m" and "\<And>x. locks h (f x)"
  shows "locks h (and_then m f)"
  unfolding locks_def
proof (intro allI impI)
  fix s assume s: "\<not> is_stale h s"
  obtain a s1 where m: "m s = (a, s1)" by fastforce
  show "case and_then m f s of (None, s') \<Rightarrow> base_error s' | (Some _, s') \<Rightarrow> \<not> is_stale h s'"
  proof (cases a)
    case None
    then show ?thesis using m locksD [OF assms(1) s] by simp
  next
    case (Some x)
    then have "\<not> is_stale h s1" using m locks_stale [OF assms(1) s] by simp
    then show ?thesis using assms(2) [of x] m Some by (simp add: locks_def)
  qed
qed

lemma locks_ret [locks_intros]: "locks h (ret x)"
  by (simp add: locks_def ret_def)

lemma locks_if [locks_intros]: "locks h m \<Longrightarrow> locks h m' \<Longrightarrow> locks h (if b then m else m')"
  by simp

lemma locks_of_state: "(\<And>t. locks h (f t)) \<Longrightarrow> locks h (\<lambda>s. f s s)"
  by (simp add: locks_def)

lemma locks_update [locks_intros]: "(\<And>s. open_children (g s) = open_children s) \<Longrightarrow> locks h (\<lambda>s. (Some x, g s))"
  by (simp add: locks_def is_stale_def)

lemma locks_buffer_reserve [locks_intros]: "locks h (cbb_buffer_reserve env n)"
  by (auto simp: locks_def is_stale_def cbb_buffer_reserve_def Let_def cbb_set_error_def)

lemma locks_buffer_add [locks_intros]: "locks h (cbb_buffer_add env n)"
  unfolding cbb_buffer_add_def by (intro locks_intros) simp

lemma flush_children_error: "flush_children env cs s = (None, s') \<Longrightarrow> base_error s'"
  by (cases cs) (auto simp: cbb_set_error_def split: prod.splits option.splits)

lemma locks_flush [locks_intros]: "locks h (CBB_flush env h)"
  unfolding locks_def
proof (intro allI impI)
  fix s :: cbb
  assume s: "\<not> is_stale h s"
  obtain r s1 where f: "flush_children env (drop h (open_children s)) s = (r, s1)" by fastforce
  then have "open_children s1 = open_children s"
    using keeps_flush_children unfolding keeps_chain_def by (metis snd_conv)
  then show "case CBB_flush env h s of (None, s') \<Rightarrow> base_error s' | (Some _, s') \<Rightarrow> \<not> is_stale h s'"
    using s f flush_children_error [of env "drop h (open_children s)" s]
    by (auto simp: CBB_flush_def is_stale_def split: option.splits)
qed

lemma locks_add_space [locks_intros]: "locks h (CBB_add_space env h n)"
  unfolding CBB_add_space_def
  by (intro locks_and_then locks_flush locks_of_state [where f = "\<lambda>t. and_then _ (\<lambda>_. ret (base_len t))"] locks_buffer_add locks_ret)

lemma locks_add_bytes [locks_intros]: "locks h (CBB_add_bytes env h data)" "locks h (CBB_add_zeros env h n)"
  unfolding CBB_add_bytes_def CBB_add_zeros_def by (intro locks_intros; simp)+

lemma locks_reserve [locks_intros]: "locks h (CBB_reserve env h n)"
  unfolding CBB_reserve_def by (intro locks_intros)

lemma locks_add_u [locks_intros]: "locks h (cbb_add_u env h v n)"
  unfolding cbb_add_u_def
  by (intro locks_and_then locks_add_space)
    (auto simp: locks_def is_stale_def cbb_on_error_def Let_def split: prod.splits)

lemma locks_add_u8 [locks_intros]: "locks h (CBB_add_u8 env h b)"
  unfolding CBB_add_u8_def by (rule locks_add_u)

lemma locks_add_child [locks_intros]: "locks h (cbb_add_child env n a)"
proof -
  have l: "locks h (and_then (cbb_buffer_add env n) (\<lambda>_ s. let s = cbb_store k (replicate n 0) s
      in (Some (), s\<lparr>open_children := open_children s @
        [\<lparr>ch_offset = k, ch_pending_len_len = n, ch_pending_is_asn1 = a\<rparr>]\<rparr>)))" for k
    by (intro locks_and_then locks_buffer_add) (simp add: locks_def is_stale_def Let_def)
  show ?thesis unfolding locks_def cbb_add_child_def Let_def
    by (rule allI) (rule l [unfolded locks_def Let_def, THEN spec])
qed

lemma locks_add_length_prefixed [locks_intros]: "locks h (cbb_add_length_prefixed env h n)"
  unfolding cbb_add_length_prefixed_def by (intro locks_and_then locks_flush locks_add_child)

lemma locks_base128 [locks_intros]: "locks h (add_base128_integer env h v)"
proof -
  have "locks h (add_base128_loop env h v n)" for n
    by (induction n) (auto simp: Let_def intro!: locks_and_then locks_ret locks_add_u8)
  then show ?thesis by (simp add: add_base128_integer_def Let_def)
qed

lemma locks_add_asn1 [locks_intros]: "locks h (CBB_add_asn1 env h tag)"
  unfolding CBB_add_asn1_def Let_def
  by (intro locks_and_then locks_flush locks_if locks_add_u8 locks_base128 locks_add_child)

text \<open>An operation that works through a child: on failure it locks explicitly.\<close>

lemma locks_or_error:
  assumes "\<And>s x s'. m s = (Some x, s') \<Longrightarrow> \<not> is_stale h s \<Longrightarrow> \<not> is_stale h s'"
  shows "locks h (or_error h m)"
  unfolding locks_def or_error_def
  by (auto simp: cbb_on_error_def dest: assms split: prod.splits option.splits)

text \<open>Once locked, nothing happens any more.\<close>

lemma sticks_and_then: "sticks m \<Longrightarrow> sticks (and_then m f)"
  unfolding sticks_def by (metis and_then_None)

lemma sticks_flush: "sticks (CBB_flush env h)"
  by (simp add: sticks_def CBB_flush_def)

lemma sticks_or_error: "sticks m \<Longrightarrow> sticks (or_error h m)"
  by (fastforce simp: sticks_def or_error_def cbb_on_error_def)

lemma sticks_add_space: "sticks (CBB_add_space env h n)"
  unfolding CBB_add_space_def by (intro sticks_and_then sticks_flush)

lemma sticks_add_bytes: "sticks (CBB_add_bytes env h data)" "sticks (CBB_add_zeros env h n)"
  unfolding CBB_add_bytes_def CBB_add_zeros_def by (intro sticks_and_then sticks_add_space)+

lemma sticks_reserve: "sticks (CBB_reserve env h n)"
  unfolding CBB_reserve_def by (intro sticks_and_then sticks_flush)

lemma sticks_add_u: "sticks (cbb_add_u env h v n)"
  unfolding cbb_add_u_def by (intro sticks_and_then sticks_add_space)

lemma sticks_children: "sticks (cbb_add_length_prefixed env h n)" "sticks (CBB_add_asn1 env h tag)"
  unfolding cbb_add_length_prefixed_def CBB_add_asn1_def by (intro sticks_and_then sticks_flush)+

section \<open>Sequences of calls\<close>

text \<open>
  The calls of a client and their results, each in whatever environment it meets: every function
  of \<open>cbb.c\<close> and \<open>unicode.c\<close> that changes a CBB, but for initialisation and \<open>CBB_finish\<close>.
  \<open>CBB_add_asn1_uint64\<close> and \<open>CBB_add_asn1_int64\<close> are the cases with the tag of an INTEGER; \<open>CBB_discard_child\<close>
  returns nothing, here success.
\<close>

datatype cbb_call =
    Flush handle | Add_bytes handle bytes | Add_zeros handle nat | Add_space handle nat
  | Reserve handle nat | Did_write handle bytes | Discard_child handle | Add_u8 handle u8
  | Add_u16 handle u16 | Add_u16le handle u16 | Add_u24 handle u32 | Add_u32 handle u32
  | Add_u32le handle u32 | Add_u64 handle u64 | Add_u64le handle u64 | Add_u8_prefixed handle
  | Add_u16_prefixed handle | Add_u24_prefixed handle | Add_asn1 handle asn1_tag
  | Add_uint64 handle u64 asn1_tag | Add_int64 handle u64 asn1_tag | Add_octet_string handle bytes
  | Add_bool handle bool | Add_oid_from_text handle bytes | Flush_set_of handle
  | Add_utf8 handle u32 | Add_latin1 handle u32 | Add_ucs2 handle u32 | Add_utf32 handle u32

fun call_handle :: "cbb_call \<Rightarrow> handle" where
  "call_handle (Flush h) = h"
| "call_handle (Add_bytes h data) = h"
| "call_handle (Add_zeros h n) = h"
| "call_handle (Add_space h n) = h"
| "call_handle (Reserve h n) = h"
| "call_handle (Did_write h data) = h"
| "call_handle (Discard_child h) = h"
| "call_handle (Add_u8 h v) = h"
| "call_handle (Add_u16 h v) = h"
| "call_handle (Add_u16le h v) = h"
| "call_handle (Add_u24 h v) = h"
| "call_handle (Add_u32 h v) = h"
| "call_handle (Add_u32le h v) = h"
| "call_handle (Add_u64 h v) = h"
| "call_handle (Add_u64le h v) = h"
| "call_handle (Add_u8_prefixed h) = h"
| "call_handle (Add_u16_prefixed h) = h"
| "call_handle (Add_u24_prefixed h) = h"
| "call_handle (Add_asn1 h tag) = h"
| "call_handle (Add_uint64 h v tag) = h"
| "call_handle (Add_int64 h v tag) = h"
| "call_handle (Add_octet_string h data) = h"
| "call_handle (Add_bool h b) = h"
| "call_handle (Add_oid_from_text h data) = h"
| "call_handle (Flush_set_of h) = h"
| "call_handle (Add_utf8 h u) = h"
| "call_handle (Add_latin1 h u) = h"
| "call_handle (Add_ucs2 h u) = h"
| "call_handle (Add_utf32 h u) = h"

fun perform :: "cbb_env \<Rightarrow> cbb_call \<Rightarrow> (cbb, unit) action" where
  "perform env (Flush h) = CBB_flush env h"
| "perform env (Add_bytes h data) = CBB_add_bytes env h data"
| "perform env (Add_zeros h n) = CBB_add_zeros env h n"
| "perform env (Add_space h n) = and_then (CBB_add_space env h n) (\<lambda>_. ret ())"
| "perform env (Reserve h n) = CBB_reserve env h n"
| "perform env (Did_write h data) = CBB_did_write h data"
| "perform env (Discard_child h) = (\<lambda>s. (Some (), CBB_discard_child h s))"
| "perform env (Add_u8 h v) = CBB_add_u8 env h v"
| "perform env (Add_u16 h v) = CBB_add_u16 env h v"
| "perform env (Add_u16le h v) = CBB_add_u16le env h v"
| "perform env (Add_u24 h v) = CBB_add_u24 env h v"
| "perform env (Add_u32 h v) = CBB_add_u32 env h v"
| "perform env (Add_u32le h v) = CBB_add_u32le env h v"
| "perform env (Add_u64 h v) = CBB_add_u64 env h v"
| "perform env (Add_u64le h v) = CBB_add_u64le env h v"
| "perform env (Add_u8_prefixed h) = CBB_add_u8_length_prefixed env h"
| "perform env (Add_u16_prefixed h) = CBB_add_u16_length_prefixed env h"
| "perform env (Add_u24_prefixed h) = CBB_add_u24_length_prefixed env h"
| "perform env (Add_asn1 h tag) = CBB_add_asn1 env h tag"
| "perform env (Add_uint64 h v tag) = CBB_add_asn1_uint64_with_tag env h v tag"
| "perform env (Add_int64 h v tag) = CBB_add_asn1_int64_with_tag env h v tag"
| "perform env (Add_octet_string h data) = CBB_add_asn1_octet_string env h data"
| "perform env (Add_bool h b) = CBB_add_asn1_bool env h b"
| "perform env (Add_oid_from_text h data) = CBB_add_asn1_oid_from_text env h data"
| "perform env (Flush_set_of h) = CBB_flush_asn1_set_of env h"
| "perform env (Add_utf8 h u) = CBB_add_utf8 env h u"
| "perform env (Add_latin1 h u) = CBB_add_latin1 env h u"
| "perform env (Add_ucs2 h u) = CBB_add_ucs2_be env h u"
| "perform env (Add_utf32 h u) = CBB_add_utf32_be env h u"

text \<open>The calls whose failure is recorded in the CBB, and those that look at that record.\<close>

fun records_failure :: "cbb_call \<Rightarrow> bool" where
  "records_failure (Did_write h data) \<longleftrightarrow> False"
| "records_failure (Add_oid_from_text h data) \<longleftrightarrow> False"
| "records_failure (Flush_set_of h) \<longleftrightarrow> False"
| "records_failure (Add_utf8 h u) \<longleftrightarrow> character (unat u)"
| "records_failure (Add_latin1 h u) \<longleftrightarrow> unat u < 256"
| "records_failure (Add_ucs2 h u) \<longleftrightarrow> character (unat u) \<and> unat u < 0x10000"
| "records_failure (Add_utf32 h u) \<longleftrightarrow> character (unat u)"
| "records_failure _ \<longleftrightarrow> True"

fun checks_record :: "cbb_call \<Rightarrow> bool" where
  "checks_record (Did_write h data) \<longleftrightarrow> False"
| "checks_record (Discard_child h) \<longleftrightarrow> False"
| "checks_record _ \<longleftrightarrow> True"

inductive cbb_trace :: "cbb \<Rightarrow> (cbb_call \<times> bool) list \<Rightarrow> cbb \<Rightarrow> bool" where
  trace_Nil: "cbb_trace s [] s"
| trace_Cons: "cbb_trace s' tr s'' \<Longrightarrow> \<not> is_stale (call_handle c) s \<Longrightarrow> perform env c s = (r, s') \<Longrightarrow>
    ok = (r \<noteq> None) \<Longrightarrow> cbb_trace s ((c, ok) # tr) s''"

inductive_cases trace_ConsE: "cbb_trace s ((c, ok) # tr) s''"

lemma stale_mono: "is_stale h s \<Longrightarrow> h \<le> h' \<Longrightarrow> is_stale h' s"
  by (simp add: is_stale_def)

lemma flush_not_stale: "CBB_flush env h s = (Some u, s') \<Longrightarrow> \<not> is_stale h s'"
proof -
  assume f: "CBB_flush env h s = (Some u, s')"
  then have "\<not> is_stale h s" by (auto simp: CBB_flush_def)
  then show ?thesis using locks_stale [OF locks_flush _ f] by blast
qed

text \<open>What a call through a child leaves of its parent.\<close>

definition keeps_handle :: "handle \<Rightarrow> (cbb, 'a) action \<Rightarrow> bool" where
  "keeps_handle h op \<longleftrightarrow> (\<forall>s x s'. op s = (Some x, s') \<longrightarrow> \<not> is_stale h s \<longrightarrow> \<not> is_stale h s')"

lemma keeps_handle_locks: "locks h op \<Longrightarrow> keeps_handle h op"
  by (auto simp: keeps_handle_def dest: locks_stale)

lemma keeps_handle_and_then:
  "keeps_handle h m \<Longrightarrow> (\<And>x. keeps_handle h (f x)) \<Longrightarrow> keeps_handle h (and_then m f)"
  unfolding keeps_handle_def by (metis and_then_eq_Some)

lemma keeps_handle_ret: "keeps_handle h (ret x)"
  by (simp add: keeps_handle_def ret_def)

lemma keeps_handle_child: "keeps_handle h (CBB_add_u8 env (Suc h) b)"
  unfolding keeps_handle_def
proof (intro allI impI)
  fix s x s'
  assume a: "CBB_add_u8 env (Suc h) b s = (Some x, s')"
  have "fst (CBB_add_u8 env (Suc h) b s) = None" if "is_stale (Suc h) s"
  proof -
    have "CBB_flush env (Suc h) s = (None, s)" using that by (simp add: CBB_flush_def)
    then show ?thesis by (simp add: CBB_add_u8_def cbb_add_u_def CBB_add_space_def)
  qed
  then have "\<not> is_stale (Suc h) s" unfolding a by (simp only: fst_conv option.distinct) blast
  then have "\<not> is_stale (Suc h) s'" by (rule locks_stale [OF locks_add_u8 _ a])
  then show "\<not> is_stale h s'" using stale_mono [of h s' "Suc h"] by (intro notI) simp
qed

lemma keeps_handle_uint64: "keeps_handle h (add_uint64_loop env (Suc h) v started is)"
  by (induction "is" arbitrary: started)
    (auto simp: Let_def intro!: keeps_handle_and_then keeps_handle_ret keeps_handle_child)

lemma keeps_handle_down: "keeps_handle h (add_bytes_down env (Suc h) bs i)"
  by (induction i) (auto intro!: keeps_handle_and_then keeps_handle_ret keeps_handle_child)

lemma locks_integer:
  assumes "keeps_handle h m"
  shows "locks h (and_then (or_error h m) (\<lambda>_. CBB_flush env h))"
  using assms by (intro locks_and_then locks_or_error locks_flush) (auto simp: keeps_handle_def)

lemma locks_uint64: "locks h (CBB_add_asn1_uint64_with_tag env h v tag)"
  unfolding CBB_add_asn1_uint64_with_tag_def
  by (intro locks_integer keeps_handle_and_then keeps_handle_locks [OF locks_add_asn1] keeps_handle_uint64)
    (auto intro: keeps_handle_child keeps_handle_ret)

lemma locks_int64: "locks h (CBB_add_asn1_int64_with_tag env h v tag)"
  unfolding CBB_add_asn1_int64_with_tag_def Let_def
  by (intro locks_if locks_uint64 locks_integer keeps_handle_and_then keeps_handle_locks [OF locks_add_asn1]
      keeps_handle_down)

lemma locks_utf8: "is_valid_code_point u \<Longrightarrow> locks h (CBB_add_utf8 env h u)"
  using valid_code_point_le [of u]
  by (auto simp: CBB_add_utf8_def word_le_nat_alt intro!: locks_and_then locks_add_u8)

lemma locks_one_unit:
  "unat u < 256 \<Longrightarrow> locks h (CBB_add_latin1 env h u)"
  "character (unat u) \<Longrightarrow> unat u < 0x10000 \<Longrightarrow> locks h (CBB_add_ucs2_be env h u)"
  "character (unat u) \<Longrightarrow> locks h (CBB_add_utf32_be env h u)"
  by (simp_all add: CBB_add_latin1_def CBB_add_ucs2_be_def CBB_add_utf32_be_def CBB_add_u8_def CBB_add_u16_def
      CBB_add_u32_def valid_code_point_iff word_le_nat_alt locks_add_u)

lemma locks_discard: "locks h (\<lambda>s. (Some (), CBB_discard_child h s))"
  by (simp add: locks_def is_stale_def CBB_discard_child_def)

lemmas writer_defs = CBB_add_u8_def CBB_add_u16_def CBB_add_u16le_def CBB_add_u24_def CBB_add_u32_def CBB_add_u32le_def
  CBB_add_u64_def CBB_add_u64le_def CBB_add_u8_length_prefixed_def CBB_add_u16_length_prefixed_def
  CBB_add_u24_length_prefixed_def

lemma locks_octet_string: "locks h (CBB_add_asn1_octet_string env h data)" "locks h (CBB_add_asn1_bool env h b)"
  unfolding CBB_add_asn1_octet_string_def CBB_add_asn1_bool_def
  by (rule locks_or_error; auto simp: and_then_eq_Some dest: flush_not_stale)+

lemma locks_add_space_only: "locks h (and_then (CBB_add_space env h n) (\<lambda>_. ret ()))"
  by (intro locks_and_then locks_add_space locks_ret)

lemmas locks_calls = locks_flush locks_add_bytes locks_add_space_only locks_reserve locks_discard locks_add_u
  locks_add_length_prefixed locks_add_asn1 locks_uint64 locks_int64 locks_octet_string locks_one_unit locks_utf8

lemma perform_locks: "records_failure c \<Longrightarrow> locks (call_handle c) (perform env c)"
  by (cases c) (simp_all add: writer_defs locks_calls valid_code_point_iff)

text \<open>A locked CBB stays locked, and whoever looks at the lock fails.\<close>

lemma sticks_fail: "sticks fail"
  by (simp add: sticks_def fail_def)

lemma sticks_integer: "sticks (and_then (or_error h (and_then (CBB_add_asn1 env h tag) m)) f)"
  by (intro sticks_and_then sticks_or_error sticks_children(2))

lemma sticks_integers: "sticks (CBB_add_asn1_uint64_with_tag env h v tag)" "sticks (CBB_add_asn1_int64_with_tag env h v tag)"
  unfolding CBB_add_asn1_int64_with_tag_def CBB_add_asn1_uint64_with_tag_def Let_def if_distrib [of sticks]
  by (rule sticks_integer) (simp only: sticks_integer split: if_split, simp)

lemma sticks_flush_first: "sticks (CBB_add_asn1_oid_from_text env h text)" "sticks (CBB_flush_asn1_set_of env h)"
  unfolding CBB_add_asn1_oid_from_text_def CBB_flush_asn1_set_of_def by (intro sticks_and_then sticks_flush)+

lemma sticks_utf8: "sticks (CBB_add_utf8 env h u)"
  by (auto simp: CBB_add_utf8_def CBB_add_u8_def intro!: sticks_and_then sticks_add_u sticks_fail)

lemma sticks_one_unit: "sticks (CBB_add_latin1 env h u)" "sticks (CBB_add_ucs2_be env h u)" "sticks (CBB_add_utf32_be env h u)"
  by (simp_all add: CBB_add_latin1_def CBB_add_ucs2_be_def CBB_add_utf32_be_def CBB_add_u8_def CBB_add_u16_def
      CBB_add_u32_def sticks_add_u sticks_fail)

lemma sticks_octet_string: "sticks (CBB_add_asn1_octet_string env h data)" "sticks (CBB_add_asn1_bool env h b)"
  unfolding CBB_add_asn1_octet_string_def CBB_add_asn1_bool_def
  by (intro sticks_or_error sticks_and_then sticks_children)+

lemmas sticks_calls = sticks_flush sticks_add_bytes sticks_and_then [OF sticks_add_space] sticks_reserve sticks_add_u
  sticks_children sticks_integers sticks_octet_string sticks_flush_first sticks_utf8 sticks_one_unit

lemma perform_sticks: "checks_record c \<Longrightarrow> sticks (perform env c)"
  by (cases c) (simp_all add: writer_defs sticks_calls)

lemma perform_keeps_error:
  assumes "base_error s" and "perform env c s = (r, s')"
  shows "base_error s'" and "checks_record c \<Longrightarrow> r = None"
proof -
  show "base_error s'"
  proof (cases "checks_record c")
    case True
    then show ?thesis using perform_sticks [of c env] assms by (fastforce simp: sticks_def)
  next
    case False
    then show ?thesis using assms by (cases c) (auto simp: CBB_did_write_def CBB_discard_child_def Let_def split: if_splits)
  qed
  show "r = None" if "checks_record c"
    using perform_sticks [OF that, of env] assms by (fastforce simp: sticks_def)
qed

lemma trace_error:
  "cbb_trace s tr s' \<Longrightarrow> base_error s \<Longrightarrow> base_error s' \<and> (\<forall>(c, ok) \<in> set tr. checks_record c \<longrightarrow> \<not> ok)"
proof (induction rule: cbb_trace.induct)
  case (trace_Cons s' tr s'' c s env r ok)
  have "base_error s'" "checks_record c \<longrightarrow> \<not> ok"
    using perform_keeps_error [OF trace_Cons.prems trace_Cons.hyps(3)] trace_Cons.hyps(4) by simp_all
  then show ?case using trace_Cons.IH by simp
qed simp

section \<open>Properties\<close>

text \<open>C9: once a call on a CBB or its open children fails for want of memory or because a value does not
  fit its field, all later calls that return a status fail, but for \<open>CBB_did_write\<close>, and \<open>CBB_finish\<close>
  returns no data. The calls are all functions of \<open>cbb.c\<close> and \<open>unicode.c\<close> that change a CBB. Not counted as
  such failures are those of \<open>CBB_did_write\<close>, \<open>CBB_flush_asn1_set_of\<close> and \<open>CBB_add_asn1_oid_from_text\<close>, and the
  refusal of a number that the encoding has no form for.\<close>

theorem cbb_failure_reported:
  assumes "cbb_trace s (tr1 @ (c, False) # tr2) s'" and "records_failure c"
  shows "(\<forall>(d, ok) \<in> set tr2. checks_record d \<longrightarrow> \<not> ok) \<and> fst (CBB_finish env 0 no_outputs s') = None"
proof -
  have "\<exists>t. base_error t \<and> cbb_trace t tr2 s'" using assms(1)
  proof (induction tr1 arbitrary: s)
    case Nil
    then have "cbb_trace s ((c, False) # tr2) s'" by simp
    then obtain t env where "cbb_trace t tr2 s'" "\<not> is_stale (call_handle c) s" "perform env c s = (None, t)"
      by (rule trace_ConsE) (metis (full_types) option.exhaust old.unit.exhaust)
    then show ?case using locksD [OF perform_locks [OF assms(2)]] by blast
  next
    case (Cons a tr1)
    then show ?case by (cases a) (auto elim!: trace_ConsE)
  qed
  then have "base_error s'" "\<forall>(d, ok) \<in> set tr2. checks_record d \<longrightarrow> \<not> ok" using trace_error by blast+
  then show ?thesis by (auto simp: CBB_finish_def CBB_flush_def fail_def and_then_def)
qed

theorem cbb_failure_reported_witness:
  "\<exists>s'. cbb_trace (CBB_init_fixed 1) [(Add_u8 0 7, True), (Add_u8 0 8, False), (Flush 0, False)] s' \<and>
    fst (CBB_finish \<lparr>alloc_ok = \<lambda>_. True, uninit = \<lambda>_. 0\<rparr> 0 False s') = None"
proof -
  let ?e = "\<lparr>alloc_ok = \<lambda>_. True, uninit = \<lambda>_. 0\<rparr>"
  let ?s = "\<lparr>base_buf = [7], base_cap = 1, base_can_resize = False, base_error = False, open_children = []\<rparr>"
  let ?s' = "?s\<lparr>base_error := True\<rparr>"
  note defs = CBB_init_fixed_def cbb_init_def CBB_add_u8_def cbb_add_u_def CBB_add_space_def CBB_flush_def
    is_stale_def cbb_buffer_add_def cbb_buffer_reserve_def cbb_store_def cbb_set_error_def ret_def and_then_def SIZE_MAX_def
    drop_bit_ucast_up [of 8]
  have 1: "perform ?e (Add_u8 0 7) (CBB_init_fixed 1) = (Some (), ?s)" by (simp add: defs)
  have 2: "perform ?e (Add_u8 0 8) ?s = (None, ?s')" by (simp add: defs)
  have 3: "perform ?e (Flush 0) ?s' = (None, ?s')" by (simp add: defs)
  have s: "\<not> is_stale (call_handle c) t" if "call_handle c = 0" for c t using that by (simp add: is_stale_def)
  have "cbb_trace ?s' [(Flush 0, False)] ?s'" by (rule trace_Cons [OF trace_Nil s 3]) simp_all
  then have "cbb_trace ?s [(Add_u8 0 8, False), (Flush 0, False)] ?s'" by (rule trace_Cons [OF _ s 2]) simp_all
  then have "cbb_trace (CBB_init_fixed 1) [(Add_u8 0 7, True), (Add_u8 0 8, False), (Flush 0, False)] ?s'"
    by (rule trace_Cons [OF _ s 1]) simp_all
  then have t: "cbb_trace (CBB_init_fixed 1) ([(Add_u8 0 7, True)] @ (Add_u8 0 8, False) # [(Flush 0, False)]) ?s'" by simp
  from cbb_failure_reported [OF t] t show ?thesis by fastforce
qed

text \<open>\<open>CBB_did_write\<close> does not look: on a locked CBB it succeeds and the bytes are counted.\<close>

lemma did_write_when_locked:
  assumes "base_error s" and "length (open_children s) \<le> h" and "base_len s + length bs \<le> base_cap s" and "base_cap s \<le> SIZE_MAX"
  shows "CBB_did_write h bs s = (Some (), s\<lparr>base_buf := base_buf s @ bs\<rparr>) \<and> base_error (s\<lparr>base_buf := base_buf s @ bs\<rparr>)"
proof -
  have "size_add (base_len s) (length bs) = base_len s + length bs"
    using assms(3,4) by (simp add: size_add_def SIZE_MAX_def)
  then show ?thesis using assms by (simp add: CBB_did_write_def)
qed

end
