(* ===== verification/Posix_Time.thy ===== *)
theory Posix_Time
  imports Byte_Prelude "HOL-Library.Signed_Division"
begin

text \<open>
  \<open>crypto/asn1/posix_time.c\<close>: conversions between \<open>struct tm\<close> and seconds since 1970
  without time zones. C's \<open>int\<close> and \<open>int64_t\<close> values are \<open>int\<close>s here, C's division and
  remainder, which truncate toward zero, are \<open>sdiv\<close> and \<open>smod\<close>. The values stay far
  inside their types: years are at most 9999 when a formula is evaluated, and the
  additions \<open>tm_year + 1900\<close> and \<open>off_day * SECS_PER_DAY + offset_sec\<close>, which C leaves
  undefined when they overflow, are taken as exact.
\<close>

section \<open>Validity\<close>

abbreviation SECS_PER_HOUR :: int where "SECS_PER_HOUR \<equiv> 3600"
abbreviation SECS_PER_DAY :: int where "SECS_PER_DAY \<equiv> 86400"

definition is_valid_date :: "int \<Rightarrow> int \<Rightarrow> int \<Rightarrow> bool" where
  "is_valid_date year month day =
     (if day < 1 \<or> month < 1 \<or> year < 0 \<or> year > 9999 then False
      else if month \<in> {1, 3, 5, 7, 8, 10, 12} then day > 0 \<and> day \<le> 31
      else if month \<in> {4, 6, 9, 11} then day > 0 \<and> day \<le> 30
      else if month = 2 then
        (if (year smod 4 = 0 \<and> year smod 100 \<noteq> 0) \<or> year smod 400 = 0
         then day > 0 \<and> day \<le> 29 else day > 0 \<and> day \<le> 28)
      else False)"

definition is_valid_time :: "int \<Rightarrow> int \<Rightarrow> int \<Rightarrow> bool" where
  "is_valid_time hours minutes seconds =
     (\<not> (hours < 0 \<or> minutes < 0 \<or> seconds < 0 \<or> hours > 23 \<or> minutes > 59 \<or> seconds > 59))"

definition is_valid_epoch_time :: "int \<Rightarrow> bool" where
  "is_valid_epoch_time time = (- 62167219200 \<le> time \<and> time \<le> 253402300799)"

section \<open>The two conversions\<close>

record utc =
  utc_year :: int
  utc_month :: int
  utc_day :: int
  utc_hours :: int
  utc_minutes :: int
  utc_seconds :: int

definition days_from_civil :: "int \<Rightarrow> int \<Rightarrow> int \<Rightarrow> int" where
  "days_from_civil year month day =
     (let year = (if month \<le> 2 then year - 1 else year);
          era = (if year \<ge> 0 then year else year - 399) sdiv 400;
          year_of_era = year - era * 400;
          day_of_year = (153 * (if month > 2 then month - 3 else month + 9) + 2) sdiv 5 + day - 1;
          day_of_era = year_of_era * 365 + year_of_era sdiv 4 - year_of_era sdiv 100 + day_of_year
      in era * 146097 + day_of_era - 719468)"

definition posix_time_from_utc :: "int \<Rightarrow> int \<Rightarrow> int \<Rightarrow> int \<Rightarrow> int \<Rightarrow> int \<Rightarrow> int option" where
  "posix_time_from_utc year month day hours minutes seconds =
     (if \<not> is_valid_date year month day \<or> \<not> is_valid_time hours minutes seconds then None
      else Some (days_from_civil year month day * SECS_PER_DAY + hours * SECS_PER_HOUR +
                 minutes * 60 + seconds))"

text \<open>The calendar part of \<open>utc_from_posix_time\<close>, on days counted from March 1 of year 0.\<close>

definition civil_from_days :: "int \<Rightarrow> int \<times> int \<times> int" where
  "civil_from_days days =
     (let era = (if days > 0 then days else days - 146096) sdiv 146097;
          day_of_era = days - era * 146097;
          year_of_era = (day_of_era - day_of_era sdiv 1460 + day_of_era sdiv 36524 -
                         day_of_era sdiv 146096) sdiv 365;
          out_year = year_of_era + era * 400;
          day_of_year = day_of_era - (365 * year_of_era + year_of_era sdiv 4 - year_of_era sdiv 100);
          month_of_year = (5 * day_of_year + 2) sdiv 153;
          out_month = (if month_of_year < 10 then month_of_year + 3 else month_of_year - 9);
          out_year = (if out_month \<le> 2 then out_year + 1 else out_year);
          out_day = day_of_year - (153 * month_of_year + 2) sdiv 5 + 1
      in (out_year, out_month, out_day))"

definition utc_from_posix_time :: "int \<Rightarrow> utc option" where
  "utc_from_posix_time time =
     (if \<not> is_valid_epoch_time time then None
      else
        let days = time sdiv SECS_PER_DAY;
            leftover_seconds = time smod SECS_PER_DAY;
            (days, leftover_seconds) =
              (if leftover_seconds < 0 then (days - 1, leftover_seconds + SECS_PER_DAY)
               else (days, leftover_seconds));
            (out_year, out_month, out_day) = civil_from_days (days + 719468)
        in Some \<lparr>utc_year = out_year, utc_month = out_month, utc_day = out_day,
                 utc_hours = leftover_seconds sdiv SECS_PER_HOUR,
                 utc_minutes = (leftover_seconds smod SECS_PER_HOUR) sdiv 60,
                 utc_seconds = (leftover_seconds smod SECS_PER_HOUR) smod 60\<rparr>)"

section \<open>Operations on \<open>struct tm\<close>\<close>

record tm =
  tm_sec :: int
  tm_min :: int
  tm_hour :: int
  tm_mday :: int
  tm_mon :: int
  tm_year :: int
  tm_wday :: int
  tm_yday :: int
  tm_isdst :: int

definition tm_zero :: tm where
  "tm_zero = \<lparr>tm_sec = 0, tm_min = 0, tm_hour = 0, tm_mday = 0, tm_mon = 0, tm_year = 0,
              tm_wday = 0, tm_yday = 0, tm_isdst = 0\<rparr>"

text \<open>Writing the six output fields, then \<open>tm_year -= 1900\<close> and \<open>tm_mon -= 1\<close>.\<close>

definition tm_store :: "utc \<Rightarrow> tm \<Rightarrow> tm" where
  "tm_store u t = t\<lparr>tm_year := utc_year u - 1900, tm_mon := utc_month u - 1, tm_mday := utc_day u,
                    tm_hour := utc_hours u, tm_min := utc_minutes u, tm_sec := utc_seconds u\<rparr>"

definition OPENSSL_tm_to_posix :: "tm \<Rightarrow> int option" where
  "OPENSSL_tm_to_posix t =
     posix_time_from_utc (tm_year t + 1900) (tm_mon t + 1) (tm_mday t) (tm_hour t) (tm_min t) (tm_sec t)"

definition OPENSSL_posix_to_tm :: "int \<Rightarrow> (tm, unit) action" where
  "OPENSSL_posix_to_tm time out_tm =
     (case utc_from_posix_time time of
        None \<Rightarrow> (None, tm_zero)
      | Some u \<Rightarrow> (Some (), tm_store u tm_zero))"

text \<open>\<open>time_t\<close> has 32 or 64 bits.\<close>

definition OPENSSL_timegm :: "bool \<Rightarrow> tm \<Rightarrow> int option" where
  "OPENSSL_timegm time_t_is_32 t =
     (case OPENSSL_tm_to_posix t of None \<Rightarrow> None | Some posix_time \<Rightarrow>
      if time_t_is_32 \<and> (posix_time > 2147483647 \<or> posix_time < - 2147483648) then None
      else Some posix_time)"

definition OPENSSL_gmtime :: "int \<Rightarrow> (tm, unit) action" where
  "OPENSSL_gmtime time out_tm = OPENSSL_posix_to_tm time out_tm"

definition OPENSSL_gmtime_adj :: "int \<Rightarrow> int \<Rightarrow> (tm, unit) action" where
  "OPENSSL_gmtime_adj off_day offset_sec t =
     (case OPENSSL_tm_to_posix t of None \<Rightarrow> (None, t) | Some posix_time \<Rightarrow>
      case utc_from_posix_time (posix_time + off_day * SECS_PER_DAY + offset_sec) of
        None \<Rightarrow> (None, t)
      | Some u \<Rightarrow> (Some (), tm_store u t))"

definition OPENSSL_gmtime_diff :: "tm \<Rightarrow> tm \<Rightarrow> (int \<times> int) option" where
  "OPENSSL_gmtime_diff from to =
     (case OPENSSL_tm_to_posix to of None \<Rightarrow> None | Some time_to \<Rightarrow>
      case OPENSSL_tm_to_posix from of None \<Rightarrow> None | Some time_from \<Rightarrow>
      let timediff = time_to - time_from;
          daydiff = timediff sdiv SECS_PER_DAY;
          timediff = timediff smod SECS_PER_DAY
      in if daydiff > 2147483647 \<or> daydiff < - 2147483648 then None
         else Some (daydiff, timediff))"

end
