(* ===== verification/Calendar.thy ===== *)
theory Calendar
  imports Posix_Time
begin

text \<open>
  The Gregorian calendar as a reference (leap years, lengths of years and months, days
  counted one by one since January 1 of year 0) and the proof that the shifted-era
  formulas of \<open>posix_time.c\<close> compute it and are inverse to each other. The two finite
  tables (years of an era, days of a year) are checked by evaluation; the rest of an
  era follows by monotonicity.
\<close>

section \<open>The calendar\<close>

lemma sdiv_nonneg [simp]: "0 \<le> a \<Longrightarrow> 0 < b \<Longrightarrow> a sdiv b = a div (b :: int)"
  by (cases "a = 0") (simp_all add: signed_divide_int_def)

lemma smod_nonneg [simp]: "0 \<le> a \<Longrightarrow> 0 < b \<Longrightarrow> a smod b = a mod (b :: int)"
  by (cases "a = 0") (simp_all add: signed_modulo_int_def sgn_if)

definition leap_year :: "int \<Rightarrow> bool" where
  "leap_year y \<longleftrightarrow> y mod 4 = 0 \<and> y mod 100 \<noteq> 0 \<or> y mod 400 = 0"

definition year_length :: "int \<Rightarrow> int" where
  "year_length y = (if leap_year y then 366 else 365)"

definition month_length :: "int \<Rightarrow> int \<Rightarrow> int" where
  "month_length y m = (if m = 2 then (if leap_year y then 29 else 28)
                       else if m \<in> {4, 6, 9, 11} then 30 else 31)"

text \<open>Days since January 1 of year 0, counted year by year and month by month.\<close>

definition day_number :: "int \<Rightarrow> int \<Rightarrow> int \<Rightarrow> int" where
  "day_number y m d = (\<Sum>k = 0..<y. year_length k) + (\<Sum>k = 1..<m. month_length y k) + (d - 1)"

lemma is_valid_date_iff:
  "is_valid_date y m d \<longleftrightarrow> 0 \<le> y \<and> y \<le> 9999 \<and> 1 \<le> m \<and> m \<le> 12 \<and> 1 \<le> d \<and> d \<le> month_length y m"
proof -
  have "1 \<le> m \<and> m \<le> 12 \<longleftrightarrow> m \<in> {1, 2, 3, 4, 5, 6, 7, 8, 9, 10, 11, 12 :: int}" by (simp, presburger)
  moreover have "0 \<le> y \<Longrightarrow> leap_year y \<longleftrightarrow> (y smod 4 = 0 \<and> y smod 100 \<noteq> 0) \<or> y smod 400 = 0"
    by (simp add: leap_year_def)
  ultimately show ?thesis
    by (auto simp: is_valid_date_def month_length_def)
qed

lemma div_pred:
  assumes "0 < n"
  shows "(y - 1) div n = y div n - (if y mod n = 0 then 1 else (0 :: int))"
proof -
  define q r where "q = y div n" and "r = y mod n"
  have y: "y = n * q + r" and r: "0 \<le> r" "r < n" using assms by (simp_all add: q_def r_def)
  have "(y - 1) div n = (if r = 0 then q - 1 else q)"
    using r by (intro int_div_pos_eq [where r = "if r = 0 then n - 1 else r - 1"])
      (simp_all add: y algebra_simps)
  then show ?thesis by (simp add: q_def r_def)
qed

lemma leap_days_step:
  "(if leap_year y then 1 else 0) =
     (if y mod 4 = 0 then 1 else 0) - (if y mod 100 = 0 then 1 else 0) + (if y mod 400 = 0 then 1 else (0 :: int))"
proof -
  have "4 dvd (100 :: int)" "100 dvd (400 :: int)" by simp_all
  then have "100 dvd y \<longrightarrow> 4 dvd y" "400 dvd y \<longrightarrow> 100 dvd y" by (blast intro: dvd_trans)+
  then show ?thesis unfolding leap_year_def mod_eq_0_iff_dvd by auto
qed

text \<open>The days before March 1 of the year \<open>y\<close>, from March 1 of year 0.\<close>

definition march_days :: "int \<Rightarrow> int" where
  "march_days y = 365 * y + y div 4 - y div 100 + y div 400"

lemma march_days_prev:
  "march_days (y - 1) = march_days y - 365 - (if leap_year y then 1 else 0)"
proof -
  define a b c where "a = (if y mod 4 = 0 then 1 else 0 :: int)"
    and "b = (if y mod 100 = 0 then 1 else 0 :: int)" and "c = (if y mod 400 = 0 then 1 else 0 :: int)"
  have eqs: "(y - 1) div 4 = y div 4 - a" "(y - 1) div 100 = y div 100 - b" "(y - 1) div 400 = y div 400 - c"
    unfolding a_def b_def c_def by (simp_all only: div_pred zero_less_numeral)
  have l: "(if leap_year y then 1 else 0) = a - b + c"
    unfolding a_def b_def c_def by (rule leap_days_step)
  show ?thesis unfolding march_days_def eqs l by (simp add: algebra_simps)
qed

lemma march_days_mono:
  assumes "x \<le> y"
  shows "march_days x \<le> march_days y"
  using assms
proof (induction y rule: int_ge_induct)
  case base
  then show ?case by simp
next
  case (step y)
  then show ?case using march_days_prev [of "y + 1"] by (simp split: if_splits)
qed

lemma march_days_years:
  "0 \<le> y \<Longrightarrow> (\<Sum>k = 0..<y. year_length k) = march_days y + 1 - (if leap_year y then 1 else 0)"
proof (induction y rule: int_ge_induct)
  case base
  then show ?case by (simp add: march_days_def leap_year_def)
next
  case (step y)
  have "{0..<y + 1} = insert y {0..<y}" using step by auto
  then have "(\<Sum>k = 0..<y + 1. year_length k) = year_length y + (\<Sum>k = 0..<y. year_length k)" by simp
  then show ?case using step march_days_prev [of "y + 1"] by (simp add: year_length_def)
qed

text \<open>The count of days before a month, in the shifted year that starts in March.\<close>

lemma months_closed_form:
  assumes "m \<in> {1, 2, 3, 4, 5, 6, 7, 8, 9, 10, 11, 12}"
  shows "(\<Sum>k = 1..<m. month_length y k) =
    (if m \<le> 2 then (153 * (m + 9) + 2) div 5 - 306
     else (153 * (m - 3) + 2) div 5 + 59 + (if leap_year y then 1 else 0))"
proof -
  have eq: "(\<Sum>k = 1..<m. month_length y k) = sum_list (map (month_length y) [1..m - 1])"
    by (subst sum_list_distinct_conv_sum_set) (auto intro!: sum.cong)
  show ?thesis using assms unfolding eq
    by (elim insertE) (simp_all add: upto_rec1 [of 1] upto_rec_numeral month_length_def)
qed

section \<open>From dates to days\<close>

lemma era_split:
  fixes y :: int
  assumes "0 \<le> y - e * 400"
  shows "e * 146097 + ((y - e * 400) * 365 + (y - e * 400) sdiv 4 - (y - e * 400) sdiv 100) =
    march_days y - (y - e * 400) div 400"
proof -
  define w where "w = y - e * 400"
  have y: "y = w + (e * 100) * 4" "y = w + (e * 4) * 100" "y = w + e * 400" by (simp_all add: w_def)
  have "y div 4 = w div 4 + e * 100" by (subst y(1)) simp
  moreover have "y div 100 = w div 100 + e * 4" by (subst y(2)) simp
  moreover have "y div 400 = w div 400 + e" by (subst y(3)) simp
  ultimately have "march_days y = 365 * (w + e * 400) + (w div 4 + e * 100) - (w div 100 + e * 4) + (w div 400 + e)"
    unfolding march_days_def using y(3) by simp
  moreover have "w sdiv 4 = w div 4" "w sdiv 100 = w div 100" using assms by (simp_all add: w_def)
  moreover obtain p q r where "w div 4 = p" "w div 100 = q" "w div 400 = r" by blast
  ultimately show ?thesis unfolding w_def [symmetric] by simp
qed

lemma era_floor:
  assumes "- 1 \<le> y"
  shows "(if y \<ge> 0 then y else y - 399) sdiv 400 = (y :: int) div 400"
proof (cases "y = - 1")
  case True
  then show ?thesis by (simp add: signed_divide_int_def)
next
  case False
  then have "0 \<le> y" using assms by simp
  then show ?thesis by simp
qed

lemma days_from_civil_eq:
  assumes "- 1 \<le> (if m \<le> 2 then y - 1 else y)" and "1 \<le> m" and "m \<le> 12"
  shows "days_from_civil y m d = march_days (if m \<le> 2 then y - 1 else y) +
    (153 * (if m > 2 then m - 3 else m + 9) + 2) div 5 + (d - 1) - 719468"
proof -
  define Y where "Y = (if m \<le> 2 then y - 1 else y)"
  have r: "0 \<le> Y - Y div 400 * 400" "(Y - Y div 400 * 400) div 400 = 0"
    by (simp_all add: minus_div_mult_eq_mod)
  define k where "k = (153 * (if m > 2 then m - 3 else m + 9) + 2) div 5"
  have "0 \<le> 153 * (if m > 2 then m - 3 else m + 9) + 2" using assms by simp
  then have k: "(153 * (if m > 2 then m - 3 else m + 9) + 2) sdiv 5 = k" unfolding k_def by (rule sdiv_nonneg) simp
  have f: "(if 0 \<le> Y then Y else Y - 399) sdiv 400 = Y div 400" using assms(1) by (intro era_floor) (simp add: Y_def)
  define e where "e = Y div 400"
  have "e * 146097 + ((Y - e * 400) * 365 + (Y - e * 400) sdiv 4 - (Y - e * 400) sdiv 100) = march_days Y"
    using era_split [OF r(1)] r(2) unfolding e_def by linarith
  then show ?thesis
    unfolding days_from_civil_def Let_def Y_def [symmetric] f k e_def [symmetric] k_def [symmetric] by linarith
qed

lemma days_from_civil_day_number:
  assumes "is_valid_date y m d"
  shows "days_from_civil y m d = day_number y m d - 719528"
proof -
  have v: "0 \<le> y" "1 \<le> m" "m \<le> 12" using assms by (simp_all add: is_valid_date_iff)
  then have "m \<in> {1, 2, 3, 4, 5, 6, 7, 8, 9, 10, 11, 12}" by (simp, presburger)
  note months_closed_form [OF this, of y] 
  moreover have "days_from_civil y m d = march_days (if m \<le> 2 then y - 1 else y) +
    (153 * (if m > 2 then m - 3 else m + 9) + 2) div 5 + (d - 1) - 719468"
    using v by (intro days_from_civil_eq) auto
  ultimately show ?thesis
    using march_days_years [OF v(1)] march_days_prev [of y] unfolding day_number_def
    by (cases "m \<le> 2") (simp_all only: if_True if_False not_le not_less, simp_all split: if_splits)
qed


section \<open>From days to dates\<close>

text \<open>The days before March 1 of the year \<open>y\<close> of an era of 400 years.\<close>

definition era_days :: "int \<Rightarrow> int" where
  "era_days y = 365 * y + y div 4 - y div 100"

definition era_year :: "int \<Rightarrow> int" where
  "era_year d = d - d div 1460 + d div 36524 - d div 146096"

lemma div_succ:
  "0 < n \<Longrightarrow> (d + 1) div n = d div n + (if (d + 1) mod n = 0 then 1 else (0 :: int))"
  using div_pred [of n "d + 1"] by simp

lemma era_year_step: "era_year d \<le> era_year (d + 1)"
proof -
  have "(36524 :: int) dvd 146096" by simp
  then have "146096 dvd d + 1 \<longrightarrow> 36524 dvd d + 1" by (blast intro: dvd_trans)
  then have "(if (d + 1) mod 146096 = 0 then 1 else 0) \<le> (if (d + 1) mod 36524 = 0 then 1 else (0 :: int))"
    by (simp add: mod_eq_0_iff_dvd)
  moreover have "(if (d + 1) mod 1460 = 0 then 1 else 0) \<le> (1 :: int)" by simp
  moreover have "era_year (d + 1) = era_year d + 1 - (if (d + 1) mod 1460 = 0 then 1 else 0) +
      (if (d + 1) mod 36524 = 0 then 1 else 0) - (if (d + 1) mod 146096 = 0 then 1 else 0)"
    unfolding era_year_def by (simp only: div_succ zero_less_numeral)
  ultimately show ?thesis by linarith
qed

lemma era_year_mono:
  assumes "c \<le> d"
  shows "era_year c \<le> era_year d"
  using assms
proof (induction d rule: int_ge_induct)
  case base
  then show ?case by simp
next
  case (step d)
  then show ?case using era_year_step [of d] by simp
qed

lemma era_table:
  "list_all (\<lambda>y. 365 * y \<le> era_year (era_days y) \<and>
      era_year (era_days (y + 1) - (if y = 399 then 0 else 1)) < 365 * (y + 1)) [0..399]"
  by code_simp


definition era_year_length :: "int \<Rightarrow> int" where
  "era_year_length y = (if y = 399 then 366 else era_days (y + 1) - era_days y)"

lemma era_year_decode:
  assumes "0 \<le> y" and "y < 400" and "0 \<le> e" and "e < era_year_length y"
  shows "era_year (era_days y + e) div 365 = y"
proof -
  have "y \<in> set [0..399]" using assms by simp
  with era_table have t: "365 * y \<le> era_year (era_days y)"
    "era_year (era_days (y + 1) - (if y = 399 then 0 else 1)) < 365 * (y + 1)"
    unfolding list_all_iff by blast+
  have "era_days y + e \<le> era_days (y + 1) - (if y = 399 then 0 else 1)"
    using assms by (simp add: era_year_length_def era_days_def split: if_splits)
  then have "era_year (era_days y + e) \<le> era_year (era_days (y + 1) - (if y = 399 then 0 else 1))"
    by (rule era_year_mono)
  moreover have "era_year (era_days y) \<le> era_year (era_days y + e)"
    using assms by (intro era_year_mono) simp
  ultimately have "365 * y \<le> era_year (era_days y + e)" "era_year (era_days y + e) < 365 * (y + 1)"
    using t by (blast intro: order_trans order.strict_trans1)+
  then show ?thesis
    by (intro int_div_pos_eq [where r = "era_year (era_days y + e) - 365 * y"]) simp_all
qed

lemma era_year_exists:
  assumes "0 \<le> d" and "d < 146097"
  shows "\<exists>y. 0 \<le> y \<and> y < 400 \<and> era_days y \<le> d \<and> d < era_days y + era_year_length y"
proof -
  have below: "d < era_days (int n) \<Longrightarrow> n \<le> 400 \<Longrightarrow>
      \<exists>y. 0 \<le> y \<and> y < 400 \<and> era_days y \<le> d \<and> d < era_days y + era_year_length y" for n
  proof (induction n)
    case 0
    then show ?case using assms by (simp add: era_days_def)
  next
    case (Suc n)
    show ?case
    proof (cases "d < era_days (int n)")
      case True
      then show ?thesis using Suc by simp
    next
      case False
      with Suc.prems show ?thesis
        by (intro exI [of _ "int n"]) (auto simp: era_year_length_def era_days_def add.commute)
    qed
  qed
  show ?thesis
  proof (cases "d = 146096")
    case True
    then show ?thesis by (intro exI [of _ 399]) (simp add: era_days_def era_year_length_def)
  next
    case False
    then show ?thesis using assms by (intro below [of 400]) (simp_all add: era_days_def)
  qed
qed

text \<open>The months of the year that starts in March.\<close>

definition month_start :: "int \<Rightarrow> int" where
  "month_start mp = (153 * mp + 2) div 5"

lemma month_table:
  "list_all (\<lambda>e. let mp = (5 * e + 2) div 153 in
     0 \<le> mp \<and> mp \<le> 11 \<and> month_start mp \<le> e \<and> e < month_start (mp + 1)) [0..365]"
  by code_simp

lemma month_decode:
  assumes "0 \<le> mp" and "mp \<le> 11" and "0 \<le> d" and "d < month_start (mp + 1) - month_start mp"
  shows "(5 * (month_start mp + d) + 2) div 153 = mp"
proof -
  have "list_all (\<lambda>mp. list_all (\<lambda>d. (5 * (month_start mp + d) + 2) div 153 = mp)
      [0..month_start (mp + 1) - month_start mp - 1]) [0..11]"
    by code_simp
  with assms show ?thesis unfolding list_all_iff set_upto by simp
qed


text \<open>A day number taken apart: era, year of the era, month from March, day of the month.\<close>

definition day_split :: "int \<Rightarrow> int \<Rightarrow> int \<Rightarrow> int \<Rightarrow> int \<Rightarrow> bool" where
  "day_split n era yoe mp d \<longleftrightarrow>
     n = era * 146097 + era_days yoe + month_start mp + d - 1 \<and> - 1 \<le> era \<and>
     0 \<le> yoe \<and> yoe < 400 \<and> 0 \<le> mp \<and> mp \<le> 11 \<and> 1 \<le> d \<and>
     d \<le> month_start (mp + 1) - month_start mp \<and> month_start mp + d - 1 < era_year_length yoe"

lemma era_year_length_eq: "0 \<le> y \<Longrightarrow> y < 400 \<Longrightarrow> era_year_length y = year_length (y + 1)"
proof (cases "y = 399")
  case True
  then show ?thesis by (simp add: era_year_length_def year_length_def leap_year_def)
next
  case False
  assume y: "0 \<le> y" "y < 400"
  have "era_days (y + 1) - era_days y = march_days (y + 1) - march_days y"
    using y False by (simp add: era_days_def march_days_def)
  then show ?thesis using march_days_prev [of "y + 1"] False
    by (simp add: era_year_length_def year_length_def)
qed

lemma month_starts:
  "mp \<in> {0..11} \<Longrightarrow> 0 \<le> month_start mp \<and> month_start mp \<le> 337 \<and> 
     month_start (mp + 1) - month_start mp = month_length 1 (if mp < 10 then mp + 3 else mp - 9) + (if mp = 11 then 2 else 0)"
proof -
  assume "mp \<in> {0..11}"
  then have "mp \<in> set [0..11]" by simp
  moreover have "list_all (\<lambda>mp. 0 \<le> month_start mp \<and> month_start mp \<le> 337 \<and> 
     month_start (mp + 1) - month_start mp = month_length 1 (if mp < 10 then mp + 3 else mp - 9) + (if mp = 11 then 2 else 0)) [0..11]"
    by code_simp
  ultimately show ?thesis unfolding list_all_iff by blast
qed

lemma era_floor_days:
  assumes "- 146097 \<le> n"
  shows "(if n > 0 then n else n - 146096) sdiv 146097 = (n :: int) div 146097"
proof (cases "n > 0")
  case True
  then show ?thesis by simp
next
  case False
  have "(n - 146096) sdiv 146097 = - ((146096 - n) div 146097)"
    using False by (simp add: signed_divide_int_def)
  moreover have "n < 0 \<Longrightarrow> (146096 - n) div 146097 = 1 \<and> n div 146097 = - 1"
    using assms by (auto intro: int_div_pos_eq [where r = "- n - 1"] int_div_pos_eq [where r = "n + 146097"])
  ultimately show ?thesis using False by (cases "n = 0") auto
qed

lemma civil_from_days_eq:
  assumes "day_split n era yoe mp d"
  shows "civil_from_days n =
    (yoe + era * 400 + (if mp < 10 then 0 else 1), if mp < 10 then mp + 3 else mp - 9, d)"
proof -
  note a = assms [unfolded day_split_def]
  define e where "e = month_start mp + (d - 1)"
  have e: "0 \<le> e" "e < era_year_length yoe" "0 \<le> 5 * e + 2"
    using a month_starts [of mp] by (simp_all add: e_def)
  have yl: "era_year_length yoe \<le> 366" "yoe = 399 \<or> era_days yoe + era_year_length yoe = era_days (yoe + 1)"
    by (auto simp: era_year_length_def era_days_def)
  have mono: "0 \<le> era_days yoe" "era_days (yoe + 1) \<le> 146096"
    using a by (auto simp: era_days_def)
  have era_399: "era_days 399 + era_year_length 399 = 146097"
    by (simp add: era_year_length_def era_days_def)
  have doe: "0 \<le> era_days yoe + e" "era_days yoe + e < 146097"
    using mono e(1,2) yl era_399 by (auto simp only:)
  have n: "n = 146097 * era + (era_days yoe + e)" using a by (simp add: e_def)
  have era: "n div 146097 = era" using doe by (intro int_div_pos_eq [OF n])
  have "- 146097 \<le> n" using n doe a by linarith
  note fl = era_floor_days [OF this, unfolded era]
  have doe_eq: "n - era * 146097 = era_days yoe + e" using n by simp
  have "0 \<le> era_year (era_days yoe)" using a era_year_mono [of 0 "era_days yoe"] mono
    by (simp add: era_year_def)
  also have "\<dots> \<le> era_year (era_days yoe + e)" using e by (intro era_year_mono) simp
  finally have y: "era_year (era_days yoe + e) sdiv 365 = yoe"
    using era_year_decode [of yoe e] a e by simp
  have y': "(era_days yoe + e - (era_days yoe + e) sdiv 1460 + (era_days yoe + e) sdiv 36524 -
      (era_days yoe + e) sdiv 146096) sdiv 365 = yoe"
    using y doe(1) by (simp add: era_year_def)
  have doy: "era_days yoe + e - (365 * yoe + yoe sdiv 4 - yoe sdiv 100) = e"
    using a by (simp add: era_days_def)
  have mp: "(5 * e + 2) sdiv 153 = mp"
    using month_decode [of mp "d - 1"] a e(3) by (simp add: e_def)
  have md: "(153 * mp + 2) sdiv 5 = month_start mp" using a by (simp add: month_start_def)
  show ?thesis
    unfolding civil_from_days_def Let_def fl doe_eq y' doy mp md
    using a by (auto simp: e_def)
qed

lemma day_split_exists:
  assumes "- 146097 \<le> n"
  shows "\<exists>era yoe mp d. day_split n era yoe mp d"
proof -
  define era where "era = n div 146097"
  have era: "- 1 \<le> era" using zdiv_mono1 [OF assms, of 146097] by (simp add: era_def)
  have n: "n = era * 146097 + n mod 146097" by (simp add: era_def)
  obtain yoe where yoe: "0 \<le> yoe" "yoe < 400" "era_days yoe \<le> n mod 146097"
      "n mod 146097 < era_days yoe + era_year_length yoe"
    using era_year_exists [of "n mod 146097"] by auto
  define e where "e = n mod 146097 - era_days yoe"
  have e: "0 \<le> e" "e < era_year_length yoe" "e \<le> 365"
    using yoe era_year_length_eq [of yoe] by (auto simp: e_def year_length_def split: if_splits)
  then have "e \<in> set [0..365]" by simp
  then have "let mp = (5 * e + 2) div 153 in
     0 \<le> mp \<and> mp \<le> 11 \<and> month_start mp \<le> e \<and> e < month_start (mp + 1)"
    using month_table unfolding list_all_iff by blast
  then obtain mp where "0 \<le> mp" "mp \<le> 11" "month_start mp \<le> e" "e < month_start (mp + 1)"
    by (auto simp: Let_def)
  then have "day_split n era yoe mp (e - month_start mp + 1)"
    using era yoe e n by (auto simp: day_split_def e_def)
  then show ?thesis by blast
qed


section \<open>The two conversions are inverse\<close>

lemma month_length_split:
  assumes "0 \<le> yoe" and "yoe < 400" and "0 \<le> mp" and "mp \<le> 11"
  shows "d \<le> month_length (yoe + era * 400 + (if mp < 10 then 0 else 1)) (if mp < 10 then mp + 3 else mp - 9) \<longleftrightarrow>
    d \<le> month_start (mp + 1) - month_start mp \<and> month_start mp + d - 1 < era_year_length yoe"
proof -
  have e: "yoe + era * 400 + 1 = yoe + 1 + era * 100 * 4" "yoe + era * 400 + 1 = yoe + 1 + era * 4 * 100"
    "yoe + era * 400 + 1 = yoe + 1 + era * 400" by simp_all
  have "(yoe + era * 400 + 1) mod 4 = (yoe + 1) mod 4" unfolding e(1) by (rule mod_mult_self1)
  moreover have "(yoe + era * 400 + 1) mod 100 = (yoe + 1) mod 100" unfolding e(2) by (rule mod_mult_self1)
  moreover have "(yoe + era * 400 + 1) mod 400 = (yoe + 1) mod 400" unfolding e(3) by (rule mod_mult_self1)
  ultimately have leap: "leap_year (yoe + era * 400 + 1) \<longleftrightarrow> leap_year (yoe + 1)"
    by (simp only: leap_year_def)
  have "mp \<in> {0, 1, 2, 3, 4, 5, 6, 7, 8, 9, 10, 11}" using assms by (simp, presburger)
  then show ?thesis
    unfolding era_year_length_eq [OF assms(1,2)] year_length_def
    by (elim insertE emptyE) (auto simp: month_length_def month_start_def leap)
qed

lemma day_split_days:
  assumes "day_split n era yoe mp d" and le: "- 1 \<le> yoe + era * 400"
  shows "days_from_civil (yoe + era * 400 + (if mp < 10 then 0 else 1)) (if mp < 10 then mp + 3 else mp - 9) d =
    n - 719468"
proof -
  note a = assms(1) [unfolded day_split_def]
  define y m where "y = yoe + era * 400 + (if mp < 10 then 0 else 1)" and "m = (if mp < 10 then mp + 3 else mp - 9)"
  have Y: "(if m \<le> 2 then y - 1 else y) = yoe + era * 400" using a by (auto simp: y_def m_def)
  have mp: "(if m > 2 then m - 3 else m + 9) = mp" using a by (auto simp: m_def)
  have "1 \<le> m" "m \<le> 12" using a by (auto simp: m_def)
  then have "days_from_civil y m d = march_days (yoe + era * 400) + (153 * mp + 2) div 5 + (d - 1) - 719468"
    using le days_from_civil_eq [of m y d] a Y mp by simp
  moreover have "march_days (yoe + era * 400) = era * 146097 + era_days yoe"
    using era_split [of "yoe + era * 400" era] a by (simp add: era_days_def)
  ultimately have "days_from_civil y m d = n - 719468"
    using a by (simp add: month_start_def)
  then show ?thesis by (simp only: y_def m_def)
qed

lemma day_split_year:
  assumes "day_split n era yoe mp d" and "- 60 \<le> n"
  shows "- 1 \<le> yoe + era * 400" and "0 \<le> yoe + era * 400 + (if mp < 10 then 0 else 1)"
proof -
  note a = assms(1) [unfolded day_split_def]
  have r: "- 1 \<le> era" "0 \<le> yoe" "yoe < 400" "0 \<le> mp" using a by blast+
  show le: "- 1 \<le> yoe + era * 400"
  proof (rule ccontr)
    assume c: "\<not> - 1 \<le> yoe + era * 400"
    then have "era = - 1" "yoe \<le> 398" using r by linarith+
    moreover from this have "era_days yoe + era_year_length yoe \<le> 145731"
      using r by (simp add: era_year_length_def era_days_def)
    ultimately show False using a assms(2) by linarith
  qed
  show "0 \<le> yoe + era * 400 + (if mp < 10 then 0 else 1)"
  proof (rule ccontr)
    assume c: "\<not> ?thesis"
    then have m: "mp < 10" and y: "yoe + era * 400 = - 1" using le by (auto split: if_splits)
    then have e1: "era = - 1" using r by linarith
    then have e: "era = - 1" "yoe = 399" using y by simp_all
    then have "era_days yoe = 145731" by (simp add: era_days_def)
    moreover have "mp \<in> {0, 1, 2, 3, 4, 5, 6, 7, 8, 9}" using m r by (simp, presburger)
    then have "month_start (mp + 1) \<le> 306" by (elim insertE emptyE) (simp_all add: month_start_def)
    ultimately show False using a assms(2) e by linarith
  qed
qed

lemma day_split_of_date:
  assumes "0 \<le> y" and "1 \<le> m" "m \<le> 12" "1 \<le> d" "d \<le> month_length y m"
  obtains n era yoe mp where "day_split n era yoe mp d" 
    and "y = yoe + era * 400 + (if mp < 10 then 0 else 1)" and "m = (if mp < 10 then mp + 3 else mp - 9)"
proof -
  define mp where "mp = (if m > 2 then m - 3 else m + 9)"
  define Y where "Y = (if m \<le> 2 then y - 1 else y)"
  have "- 1 \<le> Y" using assms(1) by (simp add: Y_def)
  then have era: "- 1 \<le> Y div 400" using zdiv_mono1 [of "- 1" Y 400] by simp
  have mp: "0 \<le> mp" "mp \<le> 11" and m: "m = (if mp < 10 then mp + 3 else mp - 9)"
    using assms by (auto simp: mp_def)
  have "Y mod 400 + Y div 400 * 400 = Y" by simp
  then have y: "y = Y mod 400 + Y div 400 * 400 + (if mp < 10 then 0 else 1)"
    using assms by (auto simp only: Y_def mp_def) auto
  have yoe: "0 \<le> Y mod 400" "Y mod 400 < 400" by simp_all
  have "d \<le> month_start (mp + 1) - month_start mp \<and> month_start mp + d - 1 < era_year_length (Y mod 400)"
    using month_length_split [OF yoe mp, of d "Y div 400"] assms(5) unfolding y [symmetric] m [symmetric] by blast
  then have "day_split (Y div 400 * 146097 + era_days (Y mod 400) + month_start mp + d - 1) (Y div 400) (Y mod 400) mp d"
    using era mp yoe assms(4) unfolding day_split_def by blast
  with y m that show thesis by blast
qed


lemma day_number_bounds:
  assumes "is_valid_date y m d"
  shows "0 \<le> day_number y m d" and "day_number y m d \<le> 3652424"
proof -
  note v = assms [unfolded is_valid_date_iff]
  have pos: "0 \<le> year_length k" "0 \<le> month_length y k" for k
    by (auto simp: year_length_def month_length_def)
  then show "0 \<le> day_number y m d" using v unfolding day_number_def by (intro add_nonneg_nonneg sum_nonneg) auto
  have "m \<in> {1, 2, 3, 4, 5, 6, 7, 8, 9, 10, 11, 12}" using v by (simp, presburger)
  moreover note months_closed_form [OF this, of y]
  ultimately have "(\<Sum>k = 1..<m. month_length y k) + month_length y m \<le> year_length y"
    by (elim insertE emptyE) (simp_all add: month_length_def year_length_def)
  moreover have "insert y {0..<y} = {0..<y + 1}" using v by auto
  then have "year_length y + (\<Sum>k = 0..<y. year_length k) = (\<Sum>k = 0..<y + 1. year_length k)"
    by (metis atLeastLessThan_iff finite_atLeastLessThan_int less_irrefl sum.insert)
  moreover have "(\<Sum>k = 0..<y + 1. year_length k) \<le> (\<Sum>k = 0..<10000. year_length k)"
    using v pos by (intro sum_mono2) auto
  moreover have "(\<Sum>k = 0..<10000. year_length k) = 3652425"
    by (simp add: march_days_years march_days_def leap_year_def)
  ultimately show "day_number y m d \<le> 3652424"
    using v unfolding day_number_def by linarith
qed

lemma civil_from_days_inverse:
  assumes "is_valid_date y m d"
  shows "civil_from_days (days_from_civil y m d + 719468) = (y, m, d)"
proof -
  note v = assms [unfolded is_valid_date_iff]
  obtain n era yoe mp where n: "day_split n era yoe mp d"
    "y = yoe + era * 400 + (if mp < 10 then 0 else 1)" "m = (if mp < 10 then mp + 3 else mp - 9)"
    using day_split_of_date [of y m d] v by blast
  have "- 1 \<le> yoe + era * 400" using n v by (auto split: if_splits)
  then have "n = days_from_civil y m d + 719468"
    using day_split_days [OF n(1)] unfolding n(2,3) by simp
  then show ?thesis using civil_from_days_eq [OF n(1)] n(2,3) by simp
qed

lemma days_from_civil_inverse:
  assumes "0 \<le> n" and "n \<le> 3652424" and "civil_from_days (n - 60) = (y, m, d)"
  shows "is_valid_date y m d" and "days_from_civil y m d = n - 719528"
proof -
  obtain era yoe mp d' where s: "day_split (n - 60) era yoe mp d'"
    using day_split_exists [of "n - 60"] assms(1) by auto
  then have ymd: "y = yoe + era * 400 + (if mp < 10 then 0 else 1)" "m = (if mp < 10 then mp + 3 else mp - 9)" "d = d'"
    using civil_from_days_eq [OF s] assms(3) by auto
  note s = s [folded ymd(3)]
  note a = s [unfolded day_split_def]
  have yr: "- 1 \<le> yoe + era * 400" "0 \<le> y"
    using day_split_year [OF s] assms(1) ymd by simp_all
  show days: "days_from_civil y m d = n - 719528" using day_split_days [OF s yr(1)] ymd by simp
  have md: "1 \<le> m" "m \<le> 12" "1 \<le> d" "d \<le> month_length y m"
    using a month_length_split [of yoe mp d era] unfolding ymd by auto
  have "y \<le> 9999"
  proof (rule ccontr)
    assume c: "\<not> y \<le> 9999"
    define Y where "Y = yoe + era * 400"
    have n: "n - 60 = march_days Y + month_start mp + d - 1"
      using a era_split [of Y era] by (simp add: Y_def era_days_def)
    have mp: "0 \<le> mp" "mp \<le> 11" "1 \<le> d" using a by blast+
    then have ms: "0 \<le> month_start mp" by (simp add: month_start_def)
    have "Y \<ge> 10000 \<or> Y = 9999 \<and> mp \<ge> 10" using c ymd(1) by (auto simp: Y_def split: if_splits)
    then show False
    proof
      assume "Y \<ge> 10000"
      then show False
        using march_days_mono [of 10000 Y] n ms mp assms(2) by (simp add: march_days_def)
    next
      assume y: "Y = 9999 \<and> mp \<ge> 10"
      then have "mp = 10 \<or> mp = 11" using mp by linarith
      then have "306 \<le> month_start mp" by (auto simp: month_start_def)
      then show False using y n mp assms(2) by (simp add: march_days_def)
    qed
  qed
  then show "is_valid_date y m d" using yr md by (simp add: is_valid_date_iff)
qed


text \<open>Splitting seconds into days and seconds of the day, rounding toward minus infinity.\<close>

lemma day_floor:
  "(if t smod SECS_PER_DAY < 0 then (t sdiv SECS_PER_DAY - 1, t smod SECS_PER_DAY + SECS_PER_DAY)
    else (t sdiv SECS_PER_DAY, t smod SECS_PER_DAY)) = (t div SECS_PER_DAY, t mod SECS_PER_DAY)"
proof (cases "0 \<le> t")
  case True
  then show ?thesis by simp
next
  case False
  define u where "u = - t"
  have u: "t = - u" "0 < u" using False by (simp_all add: u_def)
  have "t sdiv SECS_PER_DAY = - (u div SECS_PER_DAY)" "t smod SECS_PER_DAY = - (u mod SECS_PER_DAY)"
    using u by (simp_all add: signed_divide_int_def signed_modulo_int_def)
  moreover have "(- u) div SECS_PER_DAY = (if u mod SECS_PER_DAY = 0 then - (u div SECS_PER_DAY) else - (u div SECS_PER_DAY) - 1)"
    "(- u) mod SECS_PER_DAY = (if u mod SECS_PER_DAY = 0 then 0 else SECS_PER_DAY - u mod SECS_PER_DAY)"
    by (simp_all add: zdiv_zminus1_eq_if zmod_zminus1_eq_if)
  ultimately show ?thesis using pos_mod_bound [of SECS_PER_DAY u] pos_mod_sign [of SECS_PER_DAY u]
    by (auto simp: u(1))
qed

lemma utc_from_posix_time_eq:
  "is_valid_epoch_time t \<Longrightarrow> civil_from_days (t div SECS_PER_DAY + 719468) = (y, m, d) \<Longrightarrow>
    utc_from_posix_time t = Some \<lparr>utc_year = y, utc_month = m, utc_day = d,
      utc_hours = t mod SECS_PER_DAY div SECS_PER_HOUR,
      utc_minutes = t mod SECS_PER_DAY mod SECS_PER_HOUR div 60,
      utc_seconds = t mod SECS_PER_DAY mod SECS_PER_HOUR mod 60\<rparr>"
  unfolding utc_from_posix_time_def Let_def day_floor by simp

definition utc_to_posix_time :: "utc \<Rightarrow> int option" where
  "utc_to_posix_time u = posix_time_from_utc (utc_year u) (utc_month u) (utc_day u)
     (utc_hours u) (utc_minutes u) (utc_seconds u)"

lemma is_valid_epoch_time_iff:
  "is_valid_epoch_time t \<longleftrightarrow> - 719528 \<le> t div SECS_PER_DAY \<and> t div SECS_PER_DAY \<le> 2932896"
proof -
  have "- 719528 \<le> t div SECS_PER_DAY \<longleftrightarrow> - 719528 * SECS_PER_DAY \<le> t" 
    by (simp add: le_div_iff_mult_le_int)
  moreover have "t div SECS_PER_DAY < 2932897 \<longleftrightarrow> t < 2932897 * SECS_PER_DAY"
    by (simp add: div_less_iff_less_mult_int)
  ultimately show ?thesis unfolding is_valid_epoch_time_def by auto
qed

lemma utc_from_posix_time_sound:
  assumes "utc_from_posix_time t = Some u"
  shows "utc_to_posix_time u = Some t"
proof -
  have v: "is_valid_epoch_time t" using assms by (auto simp: utc_from_posix_time_def split: if_splits)
  obtain y m d where c: "civil_from_days (t div SECS_PER_DAY + 719468) = (y, m, d)" by (metis prod_cases3)
  have r: "0 \<le> t div SECS_PER_DAY + 719528" "t div SECS_PER_DAY + 719528 \<le> 3652424"
    "civil_from_days (t div SECS_PER_DAY + 719528 - 60) = (y, m, d)"
    using v c by (simp_all add: is_valid_epoch_time_iff add.commute)
  note days = days_from_civil_inverse [OF r]
  define s where "s = t mod SECS_PER_DAY"
  have s: "0 \<le> s" "s < SECS_PER_DAY" "t = t div SECS_PER_DAY * SECS_PER_DAY + s" by (simp_all add: s_def)
  have "is_valid_time (s div SECS_PER_HOUR) (s mod SECS_PER_HOUR div 60) (s mod SECS_PER_HOUR mod 60)"
  proof -
    have "s div SECS_PER_HOUR \<le> 23" using div_less_iff_less_mult_int [of SECS_PER_HOUR s 24] s(2) by simp
    moreover have "s mod SECS_PER_HOUR div 60 \<le> 59"
      using div_less_iff_less_mult_int [of 60 "s mod SECS_PER_HOUR" 60] by simp
    moreover have "s mod SECS_PER_HOUR mod 60 \<le> 59"
      using pos_mod_bound [of 60 "s mod SECS_PER_HOUR"] by linarith
    moreover have "0 \<le> s div SECS_PER_HOUR" "0 \<le> s mod SECS_PER_HOUR div 60"
      "0 \<le> s mod SECS_PER_HOUR mod 60" using s(1) by (simp_all add: pos_imp_zdiv_nonneg_iff)
    ultimately show ?thesis unfolding is_valid_time_def by linarith
  qed
  moreover have "s div SECS_PER_HOUR * SECS_PER_HOUR + s mod SECS_PER_HOUR div 60 * 60 +
      s mod SECS_PER_HOUR mod 60 = s" by simp
  ultimately have "utc_to_posix_time \<lparr>utc_year = y, utc_month = m, utc_day = d,
      utc_hours = s div SECS_PER_HOUR, utc_minutes = s mod SECS_PER_HOUR div 60,
      utc_seconds = s mod SECS_PER_HOUR mod 60\<rparr> = Some (t div SECS_PER_DAY * SECS_PER_DAY + s)"
    using days by (simp only: utc_to_posix_time_def posix_time_from_utc_def utc.simps) simp
  then show ?thesis
    using assms utc_from_posix_time_eq [OF v c] by (simp only: s_def option.inject div_mult_mod_eq)
qed

lemma utc_from_posix_time_complete:
  assumes "utc_to_posix_time u = Some t"
  shows "utc_from_posix_time t = Some u"
proof -
  obtain y m d H M S where u: "u = \<lparr>utc_year = y, utc_month = m, utc_day = d, utc_hours = H,
      utc_minutes = M, utc_seconds = S\<rparr>" by (cases u)
  have v: "is_valid_date y m d" "0 \<le> H" "H \<le> 23" "0 \<le> M" "M \<le> 59" "0 \<le> S" "S \<le> 59"
    and t: "t = days_from_civil y m d * SECS_PER_DAY + (H * SECS_PER_HOUR + M * 60 + S)"
    using assms by (auto simp: u utc_to_posix_time_def posix_time_from_utc_def is_valid_time_def split: if_splits)
  define s where "s = H * SECS_PER_HOUR + M * 60 + S"
  have s: "0 \<le> s" "s < SECS_PER_DAY" using v by (simp_all add: s_def)
  have dm: "t div SECS_PER_DAY = days_from_civil y m d" "t mod SECS_PER_DAY = s"
    using s by (simp_all add: t flip: s_def)
  have h: "s div SECS_PER_HOUR = H" "s mod SECS_PER_HOUR = M * 60 + S"
    using v by (auto simp: s_def intro!: int_div_pos_eq [where r = "M * 60 + S"] int_mod_pos_eq [where q = H])
  have m: "(M * 60 + S) div 60 = M" "(M * 60 + S) mod 60 = S"
    using v by (auto intro!: int_div_pos_eq [where r = S] int_mod_pos_eq [where q = M])
  have "is_valid_epoch_time t"
    using day_number_bounds [OF v(1)] days_from_civil_day_number [OF v(1)]
    by (simp add: is_valid_epoch_time_iff dm)
  from utc_from_posix_time_eq [OF this, of y m d] show ?thesis
    using civil_from_days_inverse [OF v(1)] using m(2) by (simp add: dm h m(1) u)
qed

section \<open>Properties\<close>

lemma tm_to_posix_store [simp]:
  "OPENSSL_tm_to_posix (tm_store u t) = utc_to_posix_time u"
  by (simp add: OPENSSL_tm_to_posix_def tm_store_def utc_to_posix_time_def)

definition tm_utc :: "tm \<Rightarrow> utc" where
  "tm_utc t = \<lparr>utc_year = tm_year t + 1900, utc_month = tm_mon t + 1, utc_day = tm_mday t,
     utc_hours = tm_hour t, utc_minutes = tm_min t, utc_seconds = tm_sec t\<rparr>"

lemma tm_to_posix_utc: "OPENSSL_tm_to_posix t = utc_to_posix_time (tm_utc t)"
  by (simp add: OPENSSL_tm_to_posix_def utc_to_posix_time_def tm_utc_def)

lemma tm_to_posix_iff: "OPENSSL_tm_to_posix t = Some p \<longleftrightarrow> utc_from_posix_time p = Some (tm_utc t)"
  unfolding tm_to_posix_utc using utc_from_posix_time_sound utc_from_posix_time_complete by blast

lemma utc_from_posix_time_defined:
  "is_valid_epoch_time t \<longleftrightarrow> (\<exists>u. utc_from_posix_time t = Some u)"
  by (auto simp: utc_from_posix_time_def Let_def split: prod.split)

lemma sdiv_smod_day:
  "t = t sdiv SECS_PER_DAY * SECS_PER_DAY + t smod SECS_PER_DAY"
  "\<bar>t smod SECS_PER_DAY\<bar> < SECS_PER_DAY" "0 \<le> t sdiv SECS_PER_DAY * (t smod SECS_PER_DAY)"
proof -
  have "t = t sdiv SECS_PER_DAY * SECS_PER_DAY + t smod SECS_PER_DAY \<and>
    \<bar>t smod SECS_PER_DAY\<bar> < SECS_PER_DAY \<and> 0 \<le> t sdiv SECS_PER_DAY * (t smod SECS_PER_DAY)"
  proof (cases "0 \<le> t")
    case True
    then show ?thesis by (simp add: pos_imp_zdiv_nonneg_iff)
  next
    case False
    define u where "u = - t"
    have u: "t = - u" "0 < u" using False by (simp_all add: u_def)
    have "t sdiv SECS_PER_DAY = - (u div SECS_PER_DAY)" "t smod SECS_PER_DAY = - (u mod SECS_PER_DAY)"
      using u by (simp_all add: signed_divide_int_def signed_modulo_int_def)
    moreover have "- u = - (u div SECS_PER_DAY) * SECS_PER_DAY + - (u mod SECS_PER_DAY)"
      using div_mult_mod_eq [of u SECS_PER_DAY] by linarith
    moreover have "0 \<le> (u div SECS_PER_DAY) * (u mod SECS_PER_DAY)"
      using u by (simp add: pos_imp_zdiv_nonneg_iff)
    ultimately show ?thesis unfolding u(1) by simp
  qed
  then show "t = t sdiv SECS_PER_DAY * SECS_PER_DAY + t smod SECS_PER_DAY"
    "\<bar>t smod SECS_PER_DAY\<bar> < SECS_PER_DAY" "0 \<le> t sdiv SECS_PER_DAY * (t smod SECS_PER_DAY)" by blast+
qed

text \<open>C3: \<open>posix_time_from_utc\<close> accepts exactly the dates of the Gregorian calendar from year 0
  to 9999 with a time of day below 24:00:00, and returns the seconds since 1970-01-01, where
  the days are counted one by one over the years and months.\<close>

theorem posix_time_counts_days:
  "posix_time_from_utc y m d hr mi sec =
    (if 0 \<le> y \<and> y \<le> 9999 \<and> 1 \<le> m \<and> m \<le> 12 \<and> 1 \<le> d \<and> d \<le> month_length y m \<and>
        0 \<le> hr \<and> hr \<le> 23 \<and> 0 \<le> mi \<and> mi \<le> 59 \<and> 0 \<le> sec \<and> sec \<le> 59
     then Some ((day_number y m d - day_number 1970 1 1) * 86400 + hr * 3600 + mi * 60 + sec)
     else None)"
proof -
  have "day_number 1970 1 1 = 719528"
    by (simp add: day_number_def march_days_years march_days_def leap_year_def)
  then show ?thesis
    using days_from_civil_day_number [of y m d]
    by (auto simp: posix_time_from_utc_def is_valid_date_iff is_valid_time_def)
qed

text \<open>C4: the two conversions are inverse to each other: \<open>utc_from_posix_time\<close> returns the
  calendar date and time \<open>u\<close> for \<open>t\<close> exactly if \<open>posix_time_from_utc\<close> returns \<open>t\<close> for \<open>u\<close>; it
  fails exactly outside the range from 0000-01-01 to 9999-12-31.\<close>

theorem posix_time_roundtrip:
  "(utc_from_posix_time t = Some u \<longleftrightarrow>
     posix_time_from_utc (utc_year u) (utc_month u) (utc_day u)
       (utc_hours u) (utc_minutes u) (utc_seconds u) = Some t) \<and>
   (utc_from_posix_time t = None \<longleftrightarrow> t < - 62167219200 \<or> 253402300799 < t)"
proof
  show "utc_from_posix_time t = Some u \<longleftrightarrow>
     posix_time_from_utc (utc_year u) (utc_month u) (utc_day u)
       (utc_hours u) (utc_minutes u) (utc_seconds u) = Some t"
    using utc_from_posix_time_sound utc_from_posix_time_complete
    unfolding utc_to_posix_time_def by blast
  have "utc_from_posix_time t = None \<longleftrightarrow> \<not> is_valid_epoch_time t"
    using utc_from_posix_time_defined [of t] by auto
  then show "utc_from_posix_time t = None \<longleftrightarrow> t < - 62167219200 \<or> 253402300799 < t"
    by (auto simp: is_valid_epoch_time_def)
qed

text \<open>\<open>OPENSSL_gmtime_adj\<close> moves a valid \<open>struct tm\<close> by exactly the days and seconds asked
  for, keeping the fields that are not part of the time; if the result would leave the
  supported range it fails and changes nothing.\<close>

theorem gmtime_adj_shifts:
  assumes "OPENSSL_tm_to_posix t = Some p"
  shows "let q = p + off_day * 86400 + offset_sec; (r, t') = OPENSSL_gmtime_adj off_day offset_sec t
    in if - 62167219200 \<le> q \<and> q \<le> 253402300799
       then r = Some () \<and> OPENSSL_tm_to_posix t' = Some q \<and>
            tm_wday t' = tm_wday t \<and> tm_yday t' = tm_yday t \<and> tm_isdst t' = tm_isdst t
       else r = None \<and> t' = t"
proof (cases "utc_from_posix_time (p + off_day * SECS_PER_DAY + offset_sec)")
  case None
  then have "\<not> is_valid_epoch_time (p + off_day * SECS_PER_DAY + offset_sec)"
    using utc_from_posix_time_defined by auto
  with None assms show ?thesis
    by (auto simp: OPENSSL_gmtime_adj_def is_valid_epoch_time_def Let_def)
next
  case (Some u)
  then have "is_valid_epoch_time (p + off_day * SECS_PER_DAY + offset_sec)"
    using utc_from_posix_time_defined by auto
  moreover have "tm_wday (tm_store u t) = tm_wday t" "tm_yday (tm_store u t) = tm_yday t"
    "tm_isdst (tm_store u t) = tm_isdst t" by (simp_all add: tm_store_def)
  ultimately show ?thesis
    using Some assms utc_from_posix_time_sound [OF Some]
    by (simp add: OPENSSL_gmtime_adj_def is_valid_epoch_time_def Let_def)
qed

theorem gmtime_adj_shifts_witness:
  "let (r, t') = OPENSSL_gmtime_adj 1 (- 3600) (tm_zero\<lparr>tm_mday := 28, tm_mon := 1, tm_year := 100\<rparr>)
   in r = Some () \<and> OPENSSL_tm_to_posix t' = Some 951778800"
proof -
  have p: "OPENSSL_tm_to_posix (tm_zero\<lparr>tm_mday := 28, tm_mon := 1, tm_year := 100\<rparr>) = Some 951696000"
    by code_simp
  show ?thesis
    using gmtime_adj_shifts [OF p, of 1 "- 3600"] by (auto simp: Let_def split: prod.splits)
qed

text \<open>\<open>OPENSSL_gmtime_diff\<close> succeeds for every two valid times, the days and seconds it
  returns have the same sign and less than a day of seconds, and \<open>OPENSSL_gmtime_adj\<close> by them
  takes \<open>from\<close> to the time of \<open>to\<close>.\<close>

theorem gmtime_diff_adj:
  assumes "OPENSSL_tm_to_posix from = Some p" and "OPENSSL_tm_to_posix to = Some q"
  shows "\<exists>days secs. OPENSSL_gmtime_diff from to = Some (days, secs) \<and>
    days * 86400 + secs = q - p \<and> \<bar>secs\<bar> < 86400 \<and> 0 \<le> days * secs \<and>
    OPENSSL_gmtime_adj days secs from = (Some (), tm_store (tm_utc to) from)"
proof -
  let ?d = "(q - p) sdiv SECS_PER_DAY" and ?s = "(q - p) smod SECS_PER_DAY"
  have v: "is_valid_epoch_time p" "is_valid_epoch_time q"
    using assms utc_from_posix_time_defined unfolding tm_to_posix_iff by blast+
  have "\<bar>q - p\<bar> < 3652425 * SECS_PER_DAY" using v unfolding is_valid_epoch_time_def by linarith
  then have "\<bar>?d\<bar> \<le> 3652425" using sdiv_smod_day(1,2) [of "q - p"] by linarith
  then have "\<not> (?d > 2147483647 \<or> ?d < - 2147483648)" by linarith
  then have "OPENSSL_gmtime_diff from to = Some (?d, ?s)"
    using assms by (simp add: OPENSSL_gmtime_diff_def Let_def)
  moreover have "p + ?d * SECS_PER_DAY + ?s = q" using sdiv_smod_day(1) [of "q - p"] by simp
  moreover from this have "OPENSSL_gmtime_adj ?d ?s from = (Some (), tm_store (tm_utc to) from)"
    using assms assms(2) [unfolded tm_to_posix_iff] by (simp add: OPENSSL_gmtime_adj_def)
  moreover note sdiv_smod_day [of "q - p"]
  ultimately show ?thesis by (intro exI [of _ ?d] exI [of _ ?s]) simp
qed

theorem gmtime_diff_adj_witness:
  "\<exists>days secs. OPENSSL_gmtime_diff (tm_zero\<lparr>tm_mday := 1, tm_year := 70\<rparr>) (tm_zero\<lparr>tm_mday := 1, tm_year := 71\<rparr>)
     = Some (days, secs) \<and> days * 86400 + secs = 31536000"
proof -
  have p: "OPENSSL_tm_to_posix (tm_zero\<lparr>tm_mday := 1, tm_year := 70\<rparr>) = Some 0" by code_simp
  have q: "OPENSSL_tm_to_posix (tm_zero\<lparr>tm_mday := 1, tm_year := 71\<rparr>) = Some 31536000" by code_simp
  show ?thesis using gmtime_diff_adj [OF p q] by auto
qed

end
