(* ===== verification/Cbs_Time.thy ===== *)
theory Cbs_Time
  imports Cbs_Decimal Calendar Codec
begin

text \<open>
  The times of RFC 5280, \<open>crypto/bytestring/cbs.c\<close> lines 769 to 926: the bodies of
  GeneralizedTime and UTCTime. The output parameter \<open>out_tm\<close> may be NULL (\<open>None\<close>); it is
  returned on every path, as the code writes its fields before the last call can fail.
\<close>

section \<open>The parser\<close>

definition cbs_get_two_digits :: "(cbs, int) action" where
  "cbs_get_two_digits =
     and_then CBS_get_u8 (\<lambda>first_digit.
       if \<not> OPENSSL_isdigit first_digit then fail
       else and_then CBS_get_u8 (\<lambda>second_digit.
         if \<not> OPENSSL_isdigit second_digit then fail
         else ret ((int (unat first_digit) - 48) * 10 + (int (unat second_digit) - 48))))"

definition is_valid_day :: "int \<Rightarrow> int \<Rightarrow> int \<Rightarrow> bool" where
  "is_valid_day year month day =
     (if day < 1 then False
      else if month \<in> {1, 3, 5, 7, 8, 10, 12} then day \<le> 31
      else if month \<in> {4, 6, 9, 11} then day \<le> 30
      else if month = 2 then
        (if (year smod 4 = 0 \<and> year smod 100 \<noteq> 0) \<or> year smod 400 = 0 then day \<le> 29 else day \<le> 28)
      else False)"

definition parse_time_year :: "bool \<Rightarrow> (cbs, int) action" where
  "parse_time_year is_gentime =
     (if is_gentime then
        and_then cbs_get_two_digits (\<lambda>hi. and_then cbs_get_two_digits (\<lambda>lo. ret (hi * 100 + lo)))
      else
        and_then cbs_get_two_digits (\<lambda>tmp.
          let year = 1900 + tmp; year = (if year < 1950 then year + 100 else year)
          in if year \<ge> 2050 then fail else ret year))"

definition parse_time_body :: "bool \<Rightarrow> (cbs, utc \<times> u8) action" where
  "parse_time_body is_gentime =
     and_then (parse_time_year is_gentime) (\<lambda>year.
     and_then cbs_get_two_digits (\<lambda>month. if month < 1 \<or> month > 12 then fail else
     and_then cbs_get_two_digits (\<lambda>day. if \<not> is_valid_day year month day then fail else
     and_then cbs_get_two_digits (\<lambda>hour. if hour > 23 then fail else
     and_then cbs_get_two_digits (\<lambda>min. if min > 59 then fail else
     and_then cbs_get_two_digits (\<lambda>sec. if sec > 59 then fail else
     and_then CBS_get_u8 (\<lambda>tz.
       ret (\<lparr>utc_year = year, utc_month = month, utc_day = day,
             utc_hours = hour, utc_minutes = min, utc_seconds = sec\<rparr>, tz))))))))"

definition parse_time_offset :: "bool \<Rightarrow> u8 \<Rightarrow> (cbs, int) action" where
  "parse_time_offset allow_timezone_offset tz =
     (let after_sign = (\<lambda>offset_sign :: int.
        if \<not> allow_timezone_offset then fail
        else and_then cbs_get_two_digits (\<lambda>offset_hours. if offset_hours > 23 then fail else
             and_then cbs_get_two_digits (\<lambda>offset_minutes. if offset_minutes > 59 then fail else
               ret (offset_sign * (offset_hours * 3600 + offset_minutes * 60)))))
      in if tz = 0x5A then ret 0
         else if tz = 0x2B then after_sign 1
         else if tz = 0x2D then after_sign (- 1)
         else fail)"

definition CBS_parse_rfc5280_time_internal ::
  "cbs \<Rightarrow> bool \<Rightarrow> bool \<Rightarrow> (tm option, unit) action" where
  "CBS_parse_rfc5280_time_internal cbs is_gentime allow_timezone_offset out_tm =
     (case parse_time_body is_gentime cbs of (None, _) \<Rightarrow> (None, out_tm) | (Some (t, tz), copy) \<Rightarrow>
      case parse_time_offset allow_timezone_offset tz copy of
        (None, _) \<Rightarrow> (None, out_tm)
      | (Some offset_seconds, copy) \<Rightarrow>
      if CBS_len copy \<noteq> 0 then (None, out_tm)
      else case out_tm of None \<Rightarrow> (Some (), None) | Some tm \<Rightarrow>
        let tm = tm_store t tm in
        if offset_seconds \<noteq> 0 then
          (case OPENSSL_gmtime_adj 0 offset_seconds tm of (r, tm) \<Rightarrow> (r, Some tm))
        else (Some (), Some tm))"

definition CBS_parse_generalized_time :: "cbs \<Rightarrow> bool \<Rightarrow> (tm option, unit) action" where
  "CBS_parse_generalized_time cbs allow_timezone_offset =
     CBS_parse_rfc5280_time_internal cbs True allow_timezone_offset"

definition CBS_parse_utc_time :: "cbs \<Rightarrow> bool \<Rightarrow> (tm option, unit) action" where
  "CBS_parse_utc_time cbs allow_timezone_offset =
     CBS_parse_rfc5280_time_internal cbs False allow_timezone_offset"

section \<open>The text form of a time\<close>

definition two_digits :: "int \<Rightarrow> bytes" where
  "two_digits n = [of_nat (48 + nat n div 10), of_nat (48 + nat n mod 10)]"

definition valid_utc :: "utc \<Rightarrow> bool" where
  "valid_utc t \<longleftrightarrow> is_valid_date (utc_year t) (utc_month t) (utc_day t) \<and>
     is_valid_time (utc_hours t) (utc_minutes t) (utc_seconds t)"

definition time_year_ok :: "bool \<Rightarrow> int \<Rightarrow> bool" where
  "time_year_ok is_gentime y \<longleftrightarrow> (if is_gentime then 0 \<le> y \<and> y \<le> 9999 else 1950 \<le> y \<and> y < 2050)"

definition time_text :: "bool \<Rightarrow> utc \<Rightarrow> bytes" where
  "time_text is_gentime t =
     (if is_gentime then two_digits (utc_year t div 100) else []) @ two_digits (utc_year t mod 100) @
     two_digits (utc_month t) @ two_digits (utc_day t) @ two_digits (utc_hours t) @
     two_digits (utc_minutes t) @ two_digits (utc_seconds t)"

section \<open>What the parser accepts\<close>


lemma digit_char_unat:
  assumes "k < 10" shows "unat (of_nat (48 + k) :: u8) = 48 + k"
  using assms by (simp add: unat_of_nat del: of_nat_add)

lemma digits_unat:
  "unat (of_nat (48 + nat n mod 10) :: u8) = 48 + nat n mod 10"
  "n < 100 \<Longrightarrow> unat (of_nat (48 + nat n div 10) :: u8) = 48 + nat n div 10"
  by (rule digit_char_unat, simp)+

lemma two_digits_iff:
  "cbs_get_two_digits s = (Some n, t) \<longleftrightarrow> (0 \<le> n \<and> n < 100) \<and> s = two_digits n @ t"
proof
  assume "cbs_get_two_digits s = (Some n, t)"
  then obtain a b where s: "s = a # b # t" and d: "OPENSSL_isdigit a" "OPENSSL_isdigit b"
    and n: "n = (int (unat a) - 48) * 10 + (int (unat b) - 48)"
    by (auto simp: cbs_get_two_digits_def split: if_splits)
  have u: "48 \<le> unat a" "unat a \<le> 57" "48 \<le> unat b" "unat b \<le> 57" using d by (simp_all add: isdigit_unat)
  define i j where "i = unat a - 48" and "j = unat b - 48"
  have ij: "i < 10" "j < 10" "unat a = 48 + i" "unat b = 48 + j" using u by (auto simp: i_def j_def)
  have nn: "nat n = i * 10 + j" using ij by (simp add: n)
  then have "nat n div 10 = i" "nat n mod 10 = j" using ij by simp_all
  moreover have "of_nat (48 + i) = a" "of_nat (48 + j) = b"
    using d digit_char_val [of a] digit_char_val [of b] by (simp_all add: i_def j_def digit_val_def)
  moreover have "0 \<le> n \<and> n < 100" using ij by (simp add: n)
  ultimately show "(0 \<le> n \<and> n < 100) \<and> s = two_digits n @ t"
    by (simp add: two_digits_def s n del: of_nat_add)
next
  assume a: "(0 \<le> n \<and> n < 100) \<and> s = two_digits n @ t"
  define i j where "i = nat n div 10" and "j = nat n mod 10"
  have ij: "i < 10" "j < 10" "int i * 10 + int j = n"
    using a by (auto simp: i_def j_def zdiv_int zmod_int nat_less_iff intro: less_mult_imp_div_less)
  have "cbs_get_two_digits s = (Some ((int (unat (of_nat (48 + i) :: u8)) - 48) * 10 +
      (int (unat (of_nat (48 + j) :: u8)) - 48)), t)"
    using a digit_char(1) [OF ij(1)] digit_char(1) [OF ij(2)]
    by (simp add: cbs_get_two_digits_def two_digits_def ret_def del: of_nat_add flip: i_def j_def)
  then show "cbs_get_two_digits s = (Some n, t)"
    unfolding digit_char_unat [OF ij(1)] digit_char_unat [OF ij(2)] using ij(3) by simp
qed

interpretation two_digits: codec_nonempty "\<lambda>n. 0 \<le> n \<and> n < 100" two_digits cbs_get_two_digits
  by unfold_locales (auto simp: two_digits_iff two_digits_def)


lemma utc_year_window:
  fixes n y :: int
  shows "(0 \<le> n \<and> n < 100) \<and> y = (if n < 50 then 2000 + n else 1900 + n) \<longleftrightarrow>
    1950 \<le> y \<and> y < 2050 \<and> n = y mod 100"
proof
    assume n: "(0 \<le> n \<and> n < 100) \<and> y = (if n < 50 then 2000 + n else 1900 + n)"
    then have "y mod 100 = n"
      by (intro int_mod_pos_eq [where q = "if n < 50 then 20 else 19"]) simp_all
    with n show "1950 \<le> y \<and> y < 2050 \<and> n = y mod 100" by (simp split: if_splits)
  next
    assume y: "1950 \<le> y \<and> y < 2050 \<and> n = y mod 100"
    then have "y mod 100 = (if 2000 \<le> y then y - 2000 else y - 1900)"
      by (intro int_mod_pos_eq [where q = "if 2000 \<le> y then 20 else 19"]) simp_all
    with y show "(0 \<le> n \<and> n < 100) \<and> y = (if n < 50 then 2000 + n else 1900 + n)"
      by (simp split: if_splits)
qed

lemma parse_time_year_iff:
  "parse_time_year g s = (Some y, t) \<longleftrightarrow>
     time_year_ok g y \<and> s = (if g then two_digits (y div 100) else []) @ two_digits (y mod 100) @ t"
proof (cases g)
  case True
  have "parse_time_year g s = (Some y, t) \<longleftrightarrow>
      (\<exists>hi lo. (0 \<le> hi \<and> hi < 100) \<and> (0 \<le> lo \<and> lo < 100) \<and> y = hi * 100 + lo \<and>
        s = two_digits hi @ two_digits lo @ t)"
    using True by (auto simp: parse_time_year_def two_digits_iff)
  also have "\<dots> \<longleftrightarrow> 0 \<le> y \<and> y \<le> 9999 \<and> s = two_digits (y div 100) @ two_digits (y mod 100) @ t"
  proof
    assume "0 \<le> y \<and> y \<le> 9999 \<and> s = two_digits (y div 100) @ two_digits (y mod 100) @ t"
    then show "\<exists>hi lo. (0 \<le> hi \<and> hi < 100) \<and> (0 \<le> lo \<and> lo < 100) \<and> y = hi * 100 + lo \<and>
        s = two_digits hi @ two_digits lo @ t"
      by (intro exI [of _ "y div 100"] exI [of _ "y mod 100"]) auto
  qed auto
  finally show ?thesis using True by (simp add: time_year_ok_def)
next
  case False
  have "parse_time_year g s = (Some y, t) \<longleftrightarrow>
      (\<exists>n. (0 \<le> n \<and> n < 100) \<and> s = two_digits n @ t \<and> y = (if n < 50 then 2000 + n else 1900 + n))"
  proof -
    define f :: "int \<Rightarrow> (cbs, int) action" where "f n = (let year = 1900 + n;
        year = if year < 1950 then year + 100 else year in if 2050 \<le> year then fail else ret year)" for n
    have f: "f n s' = (Some y, t) \<longleftrightarrow> s' = t \<and> y = (if n < 50 then 2000 + n else 1900 + n)"
      if "n < 100" for n s'
      using that by (cases "n < 50") (auto simp: f_def Let_def)
    have "parse_time_year g = and_then cbs_get_two_digits f"
      using False unfolding parse_time_year_def f_def by (simp only: if_False)
    then have "parse_time_year g s = (Some y, t) \<longleftrightarrow>
        (\<exists>n s'. ((0 \<le> n \<and> n < 100) \<and> s = two_digits n @ s') \<and> f n s' = (Some y, t))"
      by (simp only: and_then_eq_Some two_digits_iff)
    also have "\<dots> \<longleftrightarrow>
        (\<exists>n s'. ((0 \<le> n \<and> n < 100) \<and> s = two_digits n @ s') \<and> s' = t \<and> y = (if n < 50 then 2000 + n else 1900 + n))"
      by (intro ex_cong1 conj_cong [OF refl] f) blast
    finally show ?thesis by blast
  qed
  also have "\<dots> \<longleftrightarrow> 1950 \<le> y \<and> y < 2050 \<and> s = two_digits (y mod 100) @ t" (is "(\<exists>n. ?P n) \<longleftrightarrow> ?Q")
  proof -
    have "?P n \<longleftrightarrow> (1950 \<le> y \<and> y < 2050 \<and> n = y mod 100) \<and> s = two_digits n @ t" for n
      using utc_year_window [of n y] by blast
    then show ?thesis by simp
  qed
  finally show ?thesis using False by (simp add: time_year_ok_def)
qed

lemma is_valid_day_iff:
  "0 \<le> y \<Longrightarrow> y \<le> 9999 \<Longrightarrow> 1 \<le> m \<Longrightarrow> is_valid_day y m d \<longleftrightarrow> is_valid_date y m d"
  unfolding is_valid_day_def is_valid_date_def by auto

lemma valid_utc_ranges:
  "valid_utc u \<Longrightarrow> 0 \<le> utc_year u \<and> utc_year u \<le> 9999 \<and> 1 \<le> utc_month u \<and> utc_month u \<le> 12 \<and>
    1 \<le> utc_day u \<and> utc_day u \<le> 31 \<and> 0 \<le> utc_hours u \<and> utc_hours u \<le> 23 \<and>
    0 \<le> utc_minutes u \<and> utc_minutes u \<le> 59 \<and> 0 \<le> utc_seconds u \<and> utc_seconds u \<le> 59"
  by (auto simp: valid_utc_def is_valid_date_iff is_valid_time_def month_length_def split: if_splits)

lemma time_year_ok_range: "time_year_ok g y \<Longrightarrow> 0 \<le> y \<and> y \<le> 9999"
  by (auto simp: time_year_ok_def split: if_splits)

lemma parse_time_body_sound:
  assumes "parse_time_body g s = (Some (u, tz), t)"
  shows "valid_utc u \<and> time_year_ok g (utc_year u) \<and> s = time_text g u @ tz # t"
proof -
  from assms obtain y m d hr mi sec where u: "u = \<lparr>utc_year = y, utc_month = m, utc_day = d,
      utc_hours = hr, utc_minutes = mi, utc_seconds = sec\<rparr>"
    and y: "time_year_ok g y" and m: "1 \<le> m" "m \<le> 12" and d: "is_valid_day y m d" and
    r: "0 \<le> hr" "hr \<le> 23" "0 \<le> mi" "mi \<le> 59" "0 \<le> sec" "sec \<le> 59" and
    s: "s = (if g then two_digits (y div 100) else []) @ two_digits (y mod 100) @ two_digits m @
      two_digits d @ two_digits hr @ two_digits mi @ two_digits sec @ tz # t"
    unfolding parse_time_body_def
    by (auto simp: parse_time_year_iff two_digits_iff split: if_splits)
  then show ?thesis using time_year_ok_range [OF y]
    by (auto simp: u valid_utc_def time_text_def is_valid_time_def is_valid_day_iff)
qed

lemma parse_time_body_complete:
  assumes "valid_utc u" and "time_year_ok g (utc_year u)"
  shows "parse_time_body g (time_text g u @ tz # t) = (Some (u, tz), t)"
proof -
  have d: "is_valid_day (utc_year u) (utc_month u) (utc_day u)"
    using assms valid_utc_ranges [OF assms(1)] by (simp add: is_valid_day_iff valid_utc_def)
  have y: "parse_time_year g (time_text g u @ tz # t) = (Some (utc_year u),
      two_digits (utc_month u) @ two_digits (utc_day u) @ two_digits (utc_hours u) @
      two_digits (utc_minutes u) @ two_digits (utc_seconds u) @ tz # t)"
    using assms(2) by (simp add: parse_time_year_iff time_text_def)
  show ?thesis
    using d valid_utc_ranges [OF assms(1)] unfolding parse_time_body_def
    by (simp add: y two_digits.dec_enc)
qed

lemma parse_time_body_iff:
  "parse_time_body g s = (Some (u, tz), t) \<longleftrightarrow>
     valid_utc u \<and> time_year_ok g (utc_year u) \<and> s = time_text g u @ tz # t"
  using parse_time_body_sound parse_time_body_complete by blast

lemma valid_utc_posix:
  "valid_utc u \<longleftrightarrow> (\<exists>p. utc_to_posix_time u = Some p)"
  by (auto simp: valid_utc_def utc_to_posix_time_def posix_time_from_utc_def)

section \<open>Properties\<close>

lemma parse_time_offset_Z:
  "parse_time_offset allow 0x5A = ret 0"
  by (simp add: parse_time_offset_def)

lemma parse_time_offset_no_zone:
  "parse_time_offset False tz s = (Some n, t) \<longleftrightarrow> tz = 0x5A \<and> n = 0 \<and> t = s"
  by (auto simp: parse_time_offset_def Let_def)

lemma parse_time_offset_sign:
  assumes "0 \<le> oh" "oh \<le> 23" "0 \<le> om" "om \<le> 59" and "s = two_digits oh @ two_digits om @ t"
  shows "parse_time_offset True (if west then 0x2D else 0x2B) s =
    (Some ((if west then - 1 else 1) * (oh * 3600 + om * 60)), t)"
  using assms by (simp add: parse_time_offset_def Let_def two_digits.dec_enc)

text \<open>C5: without time zone offsets, a GeneralizedTime is accepted exactly if it is
  \<open>YYYYMMDDHHMMSSZ\<close> and a UTCTime exactly if it is \<open>YYMMDDHHMMSSZ\<close> with a year from 1950 to
  2049, for a date that exists; the fields of the time are stored into the output and the
  other fields of the output are left as they were.\<close>

theorem parse_time_exact:
  "CBS_parse_rfc5280_time_internal s is_gentime False out_tm = (Some (), out_tm') \<longleftrightarrow>
    (\<exists>u p. utc_to_posix_time u = Some p \<and>
       (if is_gentime then 0 \<le> utc_year u else 1950 \<le> utc_year u \<and> utc_year u < 2050) \<and>
       s = time_text is_gentime u @ [0x5A] \<and> out_tm' = map_option (tm_store u) out_tm)"
  (is "?lhs \<longleftrightarrow> ?rhs")
proof -
  have "?lhs \<longleftrightarrow> (\<exists>u. parse_time_body is_gentime s = (Some (u, 0x5A), []) \<and> out_tm' = map_option (tm_store u) out_tm)"
    (is "_ \<longleftrightarrow> ?mid")
  proof
    assume ?lhs
    then show ?mid
      by (auto simp: CBS_parse_rfc5280_time_internal_def CBS_len_def parse_time_offset_no_zone
          split: prod.splits option.splits if_splits)
  next
    assume ?mid
    then show ?lhs
      by (auto simp: CBS_parse_rfc5280_time_internal_def CBS_len_def parse_time_offset_Z ret_def split: option.splits)
  qed
  also have "\<dots> \<longleftrightarrow> ?rhs"
  proof -
    have "valid_utc u \<and> time_year_ok is_gentime (utc_year u) \<longleftrightarrow> (\<exists>p. utc_to_posix_time u = Some p) \<and>
       (if is_gentime then 0 \<le> utc_year u else 1950 \<le> utc_year u \<and> utc_year u < 2050)" for u
      using valid_utc_ranges [of u] unfolding valid_utc_posix [symmetric] time_year_ok_def by auto
    then show ?thesis unfolding parse_time_body_iff by blast
  qed
  finally show ?thesis .
qed

text \<open>C6: with time zone offsets allowed, \<open>+hhmm\<close> moves the stored time later by the offset and
  \<open>-hhmm\<close> moves it earlier; a time that leaves the supported range is rejected, with the
  local time left in the output.\<close>

theorem parse_time_offset_applied:
  assumes "utc_to_posix_time u = Some p"
    and "is_gentime \<or> 1950 \<le> utc_year u \<and> utc_year u < 2050"
    and "0 \<le> oh" "oh \<le> 23" "0 \<le> om" "om \<le> 59"
  shows "\<exists>t' r. CBS_parse_rfc5280_time_internal
      (time_text is_gentime u @ [if west then 0x2D else 0x2B] @ two_digits oh @ two_digits om)
      is_gentime True (Some t) = (r, Some t') \<and>
    (let q = p + (if west then - 1 else 1) * (oh * 3600 + om * 60)
     in if is_valid_epoch_time q then r = Some () \<and> OPENSSL_tm_to_posix t' = Some q
        else r = None \<and> t' = tm_store u t)"
proof -
  define tz :: u8 where "tz = (if west then 0x2D else 0x2B)"
  define off where "off = (if west then - 1 else 1) * (oh * 3600 + om * 60)"
  define tail where "tail = two_digits oh @ two_digits om"
  have v: "valid_utc u" using assms(1) valid_utc_posix by blast
  then have y: "time_year_ok is_gentime (utc_year u)"
    using assms(2) valid_utc_ranges [OF v] by (auto simp: time_year_ok_def)
  have o: "parse_time_offset True tz tail = (Some off, [])"
    unfolding tz_def off_def tail_def by (rule parse_time_offset_sign [OF assms(3-6)]) simp
  have eq: "CBS_parse_rfc5280_time_internal (time_text is_gentime u @ tz # tail) is_gentime True (Some t) =
    (if off \<noteq> 0 then (case OPENSSL_gmtime_adj 0 off (tm_store u t) of (r, tm) \<Rightarrow> (r, Some tm))
     else (Some (), Some (tm_store u t)))"
    unfolding CBS_parse_rfc5280_time_internal_def parse_time_body_complete [OF v y]
    by (simp add: o CBS_len_def Let_def)
  have q: "is_valid_epoch_time p" using assms(1)
    unfolding utc_from_posix_time_defined by (blast intro: utc_from_posix_time_complete)
  show ?thesis
  proof (cases "utc_from_posix_time (p + off)")
    case None
    then have n: "\<not> is_valid_epoch_time (p + off)" using utc_from_posix_time_defined by auto
    with q have "off \<noteq> 0" by auto
    then show ?thesis using eq n None assms(1)
      by (simp add: OPENSSL_gmtime_adj_def tz_def tail_def Let_def flip: off_def)
  next
    case (Some u')
    then have n: "is_valid_epoch_time (p + off)" using utc_from_posix_time_defined by auto
    have "off = 0 \<Longrightarrow> utc_to_posix_time u = Some (p + off)" using assms(1) by simp
    then show ?thesis using eq n Some assms(1) utc_from_posix_time_sound [OF Some]
      by (simp add: OPENSSL_gmtime_adj_def tz_def tail_def Let_def flip: off_def)
  qed
qed

theorem parse_time_offset_applied_witness:
  "\<exists>t'. CBS_parse_rfc5280_time_internal
      (time_text False \<lparr>utc_year = 2000, utc_month = 1, utc_day = 1, utc_hours = 12, utc_minutes = 0, utc_seconds = 0\<rparr>
        @ [0x2B] @ two_digits 1 @ two_digits 0) False True (Some tm_zero) = (Some (), Some t') \<and>
    OPENSSL_tm_to_posix t' = Some 946731600"
proof -
  have p: "utc_to_posix_time \<lparr>utc_year = 2000, utc_month = 1, utc_day = 1, utc_hours = 12,
      utc_minutes = 0, utc_seconds = 0\<rparr> = Some 946728000" by code_simp
  show ?thesis
    using parse_time_offset_applied [OF p, of False 1 0 False tm_zero] by (simp add: is_valid_epoch_time_def)
qed

end
