(* ===== verification/Host_Match.thy ===== *)
theory Host_Match
  imports C_String
begin

text \<open>
  Matching of host names and e-mail addresses: the comparison functions of \<open>crypto/x509/v3_utl.c\<close>
  (lines 685 to 918). Names and patterns come from certificates, so they are byte lists that may
  hold zero bytes. The results 0 and 1 of the code are truth values; a pointer into the pattern is
  an index.
\<close>

section \<open>Definitions\<close>

abbreviation c_star :: u8 where "c_star \<equiv> 0x2A"
abbreviation c_hyphen :: u8 where "c_hyphen \<equiv> 0x2D"
abbreviation c_dot :: u8 where "c_dot \<equiv> 0x2E"
abbreviation c_colon :: u8 where "c_colon \<equiv> 0x3A"
abbreviation c_at :: u8 where "c_at \<equiv> 0x40"
abbreviation c_underscore :: u8 where "c_underscore \<equiv> 0x5F"

type_synonym equal_fn = "bytes \<Rightarrow> bytes \<Rightarrow> u32 \<Rightarrow> bool"

fun nocase_loop :: "bytes \<Rightarrow> bytes \<Rightarrow> bool" where
  "nocase_loop (l # pattern) (r # subject) =
     (if l = 0 then False
      else if l \<noteq> r \<and> OPENSSL_tolower (uint l) \<noteq> OPENSSL_tolower (uint r) then False
      else nocase_loop pattern subject)"
| "nocase_loop _ _ = True"

definition equal_nocase :: equal_fn where
  "equal_nocase pattern subject flags =
     (if length pattern \<noteq> length subject then False else nocase_loop pattern subject)"

definition equal_case :: equal_fn where
  "equal_case pattern subject flags =
     (if length pattern \<noteq> length subject then False else OPENSSL_memcmp pattern subject = 0)"

text \<open>The backward search for \<open>'@'\<close>: the index it ends at, or \<open>None\<close> where the code returns 0.\<close>

fun email_scan :: "bytes \<Rightarrow> bytes \<Rightarrow> nat \<Rightarrow> nat option" where
  "email_scan a b 0 = Some 0"
| "email_scan a b (Suc i) =
     (if a ! i = c_at \<or> b ! i = c_at
      then if \<not> equal_nocase (drop i a) (drop i b) 0 then None else Some i
      else email_scan a b i)"

definition equal_email :: equal_fn where
  "equal_email a b flags =
     (if length a \<noteq> length b then False
      else case email_scan a b (length a) of
        None \<Rightarrow> False
      | Some i \<Rightarrow> let i = if i = 0 then length a else i in equal_case (take i a) (take i b) 0)"

definition xn_prefix :: bytes where
  "xn_prefix = [0x78, 0x6E, c_hyphen, c_hyphen]"

text \<open>The byte at \<open>suf\<close> is there: it follows the star of a valid pattern.\<close>

definition wildcard_match :: "bytes \<Rightarrow> bytes \<Rightarrow> bytes \<Rightarrow> u32 \<Rightarrow> bool" where
  "wildcard_match pre suf subject flags =
     (if length subject < length pre + length suf then False
      else if \<not> equal_nocase pre (take (length pre) subject) flags then False
      else
        let wildcard_end = length subject - length suf;
            wildcard = take (wildcard_end - length pre) (drop (length pre) subject);
            whole = pre = [] \<and> hd suf = c_dot
        in if \<not> equal_nocase (drop wildcard_end subject) suf flags then False
           else if whole \<and> wildcard = [] then False
           else if \<not> whole \<and> length subject \<ge> 4 \<and> OPENSSL_strncasecmp subject xn_prefix 4 = 0 then False
           else if wildcard = [c_star] then True
           else list_all (\<lambda>c. OPENSSL_isalnum c \<or> c = c_hyphen) wildcard)"

definition LABEL_START :: u32 where "LABEL_START = push_bit 0 1"
definition LABEL_HYPHEN :: u32 where "LABEL_HYPHEN = push_bit 2 1"
definition LABEL_IDNA :: u32 where "LABEL_IDNA = push_bit 3 1"

text \<open>The loop over the pattern from index \<open>i\<close> on, with its variables; \<open>None\<close> where it returns NULL.\<close>

fun valid_star_loop :: "bytes \<Rightarrow> nat \<Rightarrow> nat option \<Rightarrow> u32 \<Rightarrow> nat \<Rightarrow> (nat option \<times> u32 \<times> nat) option" where
  "valid_star_loop [] i star state dots = Some (star, state, dots)"
| "valid_star_loop (c # p) i star state dots =
     (if c = c_star then
        let atstart = state AND LABEL_START \<noteq> 0;
            atend = p = [] \<or> hd p = c_dot
        in if star \<noteq> None \<or> state AND LABEL_IDNA \<noteq> 0 \<or> dots \<noteq> 0 then None
           else if \<not> atstart \<or> \<not> atend then None
           else valid_star_loop p (Suc i) (Some i) (state AND NOT LABEL_START) dots
      else if OPENSSL_isalnum c then
        let state =
              if state AND LABEL_START \<noteq> 0 \<and> length (c # p) \<ge> 4 \<and>
                 OPENSSL_strncasecmp (c # p) xn_prefix 4 = 0
              then state OR LABEL_IDNA else state
        in valid_star_loop p (Suc i) star (state AND NOT (LABEL_HYPHEN OR LABEL_START)) dots
      else if c = c_dot then
        if state AND (LABEL_HYPHEN OR LABEL_START) \<noteq> 0 then None
        else valid_star_loop p (Suc i) star LABEL_START (Suc dots)
      else if c = c_hyphen then
        if state AND LABEL_START \<noteq> 0 then None
        else valid_star_loop p (Suc i) star (state OR LABEL_HYPHEN) dots
      else None)"

definition valid_star :: "bytes \<Rightarrow> u32 \<Rightarrow> nat option" where
  "valid_star p flags =
     (case valid_star_loop p 0 None LABEL_START 0 of
        None \<Rightarrow> None
      | Some (star, state, dots) \<Rightarrow>
          if state AND (LABEL_START OR LABEL_HYPHEN) \<noteq> 0 \<or> dots < 2 then None else star)"

definition equal_wildcard :: equal_fn where
  "equal_wildcard pattern subject flags =
     (let star = if \<not> (length subject > 1 \<and> subject ! 0 = c_dot) then valid_star pattern flags else None
      in case star of
           None \<Rightarrow> equal_nocase pattern subject flags
         | Some k \<Rightarrow> wildcard_match (take k pattern) (drop (Suc k) pattern) subject flags)"

text \<open>The loop over the name from index \<open>i\<close> on.\<close>

fun dns_name_loop :: "bytes \<Rightarrow> nat \<Rightarrow> nat \<Rightarrow> nat \<Rightarrow> bool" where
  "dns_name_loop [] len i label_start = True"
| "dns_name_loop (c # rest) len i label_start =
     (if OPENSSL_isalnum c \<or> (c = c_hyphen \<and> i > label_start) \<or> c = c_underscore \<or> c = c_colon
      then dns_name_loop rest len (Suc i) label_start
      else if c = c_dot \<and> i > label_start \<and> i < len - 1
      then dns_name_loop rest len (Suc i) (Suc i)
      else False)"

definition x509v3_looks_like_dns_name :: "bytes \<Rightarrow> bool" where
  "x509v3_looks_like_dns_name name =
     (let name = if name \<noteq> [] \<and> name ! (length name - 1) = c_dot then butlast name else name;
          name = if length name \<ge> 2 \<and> name ! 0 = c_star \<and> name ! 1 = c_dot then drop 2 name else name
      in if name = [] then False else dns_name_loop name (length name) 0 0)"

section \<open>What names and patterns mean\<close>

text \<open>A name without regard to case, and its labels.\<close>

definition lower :: "bytes \<Rightarrow> int list" where
  "lower s = map (\<lambda>c. OPENSSL_tolower (uint c)) s"

fun labels :: "bytes \<Rightarrow> bytes list" where
  "labels [] = [[]]"
| "labels (c # s) = (if c = c_dot then [] # labels s else (c # hd (labels s)) # tl (labels s))"

definition label_char :: "u8 \<Rightarrow> bool" where
  "label_char c \<longleftrightarrow> OPENSSL_isalnum c \<or> c = c_hyphen"

definition dns_label :: "bytes \<Rightarrow> bool" where
  "dns_label l \<longleftrightarrow> l \<noteq> [] \<and> list_all label_char l \<and> hd l \<noteq> c_hyphen \<and> List.last l \<noteq> c_hyphen"

text \<open>A star, and at least two labels after it.\<close>

definition wildcard_pattern :: "bytes \<Rightarrow> bool" where
  "wildcard_pattern p \<longleftrightarrow>
     (case p of a # b # q \<Rightarrow> a = c_star \<and> b = c_dot \<and> 2 \<le> length (labels q) \<and> list_all dns_label (labels q)
      | _ \<Rightarrow> False)"

lemma labels_nonempty [simp]: "labels s \<noteq> []"
  by (cases s) auto

lemma alnum_facts [simp]:
  "\<not> OPENSSL_isalnum c_star" "\<not> OPENSSL_isalnum c_hyphen" "\<not> OPENSSL_isalnum c_dot" "\<not> OPENSSL_isalnum 0"
  "\<not> OPENSSL_isalnum c_at"
  by code_simp+

text \<open>The rest of a label, and of a name, after a start or a hyphen.\<close>

fun rest_ok :: "bool \<Rightarrow> bool \<Rightarrow> bytes \<Rightarrow> bool" where
  "rest_ok start hyphen [] \<longleftrightarrow> \<not> start \<and> \<not> hyphen"
| "rest_ok start hyphen (c # l) \<longleftrightarrow>
     (if OPENSSL_isalnum c then rest_ok False False l else c = c_hyphen \<and> \<not> start \<and> rest_ok False True l)"

fun name_ok :: "bool \<Rightarrow> bool \<Rightarrow> bytes \<Rightarrow> bool" where
  "name_ok start hyphen [] \<longleftrightarrow> \<not> start \<and> \<not> hyphen"
| "name_ok start hyphen (c # s) \<longleftrightarrow>
     (if OPENSSL_isalnum c then name_ok False False s
      else if c = c_dot then \<not> start \<and> \<not> hyphen \<and> name_ok True False s
      else c = c_hyphen \<and> \<not> start \<and> name_ok False True s)"

lemma rest_ok_eq:
  "rest_ok start hyphen l \<longleftrightarrow>
     list_all label_char l \<and> (start \<longrightarrow> l \<noteq> [] \<and> hd l \<noteq> c_hyphen) \<and> (hyphen \<longrightarrow> l \<noteq> []) \<and>
     (l \<noteq> [] \<longrightarrow> List.last l \<noteq> c_hyphen)"
  by (induction start hyphen l rule: rest_ok.induct) (auto simp: label_char_def)

lemma rest_ok_label: "rest_ok True False l \<longleftrightarrow> dns_label l"
  by (auto simp: rest_ok_eq dns_label_def)

lemma name_ok_eq:
  "name_ok start hyphen s \<longleftrightarrow> rest_ok start hyphen (hd (labels s)) \<and> list_all dns_label (tl (labels s))"
proof (induction start hyphen s rule: name_ok.induct)
  case (2 start hyphen c s)
  have "list_all dns_label (labels s) \<longleftrightarrow> dns_label (hd (labels s)) \<and> list_all dns_label (tl (labels s))"
    by (cases "labels s") auto
  with 2 show ?case by (auto simp: rest_ok_label)
qed simp

lemma length_labels: "length (labels s) = Suc (count_list s c_dot)"
  by (induction s) (auto simp: Suc_diff_Suc)

section \<open>Valid patterns\<close>

lemma label_bits:
  "st AND LABEL_START \<noteq> 0 \<longleftrightarrow> bit st 0"
  "st AND (LABEL_HYPHEN OR LABEL_START) \<noteq> 0 \<longleftrightarrow> bit st 0 \<or> bit st 2"
  "st AND (LABEL_START OR LABEL_HYPHEN) \<noteq> 0 \<longleftrightarrow> bit st 0 \<or> bit st 2"
  "bit (st AND NOT LABEL_HYPHEN AND NOT LABEL_START) n \<longleftrightarrow> bit st n \<and> n \<noteq> 0 \<and> n \<noteq> 2"
  "bit (st AND NOT LABEL_START) n \<longleftrightarrow> bit st n \<and> n \<noteq> 0"
  "bit (st OR LABEL_IDNA) n \<longleftrightarrow> bit st n \<or> n = 3"
  "bit (st OR LABEL_HYPHEN) n \<longleftrightarrow> bit st n \<or> n = 2"
  "bit LABEL_START n \<longleftrightarrow> n = 0"
proof -
  have single: "bit (push_bit k 1 :: u32) n \<longleftrightarrow> n = k" if "k < 32" for k n
    using that by (auto simp: bit_push_bit_iff bit_1_iff simp del: push_bit_of_1)
  note flag_defs = LABEL_START_def LABEL_HYPHEN_def LABEL_IDNA_def
  have some: "w \<noteq> 0 \<longleftrightarrow> (\<exists>n. bit w n)" for w :: u32
    by (metis bit_0_eq bot_apply bot_bool_def bit_eqI)
  show "st AND LABEL_START \<noteq> 0 \<longleftrightarrow> bit st 0"
    "st AND (LABEL_HYPHEN OR LABEL_START) \<noteq> 0 \<longleftrightarrow> bit st 0 \<or> bit st 2"
    "st AND (LABEL_START OR LABEL_HYPHEN) \<noteq> 0 \<longleftrightarrow> bit st 0 \<or> bit st 2"
    unfolding some flag_defs by (auto simp: bit_and_iff bit_or_iff single simp del: push_bit_0_id push_bit_of_1)
  have small: "bit st n \<Longrightarrow> n < 32" for n using bit_imp_le_length [of st n] by simp
  show "bit (st AND NOT LABEL_HYPHEN AND NOT LABEL_START) n \<longleftrightarrow> bit st n \<and> n \<noteq> 0 \<and> n \<noteq> 2"
    "bit (st AND NOT LABEL_START) n \<longleftrightarrow> bit st n \<and> n \<noteq> 0"
    "bit (st OR LABEL_IDNA) n \<longleftrightarrow> bit st n \<or> n = 3"
    "bit (st OR LABEL_HYPHEN) n \<longleftrightarrow> bit st n \<or> n = 2"
    "bit LABEL_START n \<longleftrightarrow> n = 0"
    unfolding flag_defs
    by (auto simp: bit_and_iff bit_or_iff bit_not_iff single small simp del: push_bit_0_id push_bit_of_1)
qed

lemma label_start [simp]: "LABEL_START \<noteq> 0" "LABEL_START AND LABEL_IDNA = 0"
  by code_simp+

definition star_end :: "(nat option \<times> u32 \<times> nat) option \<Rightarrow> nat option" where
  "star_end r =
     (case r of None \<Rightarrow> None
      | Some (star, state, dots) \<Rightarrow>
          if state AND (LABEL_START OR LABEL_HYPHEN) \<noteq> 0 \<or> dots < 2 then None else star)"

lemma star_end_simps [simp]:
  "star_end None = None"
  "star_end (Some (star, state, dots)) = (if bit state 0 \<or> bit state 2 \<or> dots < 2 then None else star)"
  by (simp_all add: star_end_def label_bits)

lemma valid_star_tail:
  "dots \<noteq> 0 \<Longrightarrow>
   star_end (valid_star_loop p i star state dots) =
     (if name_ok (bit state 0) (bit state 2) p \<and> 2 \<le> dots + count_list p c_dot then star else None)"
proof (induction p arbitrary: i state dots)
  case (Cons c p)
  show ?case using Cons.prems by (auto simp: label_bits Let_def Cons.IH)
qed auto

lemma valid_star_none: "star_end (valid_star_loop p i None state dots) = None" if "\<not> bit state 0 \<or> dots \<noteq> 0"
  using that
proof (induction p arbitrary: i state dots)
  case (Cons c p)
  show ?case using Cons.prems by (auto simp: label_bits Let_def Cons.IH)
qed auto

lemma valid_star_eq: "valid_star p flags = (if wildcard_pattern p then Some 0 else None)"
proof -
  have "star_end (valid_star_loop p 0 None LABEL_START 0) = (if wildcard_pattern p then Some 0 else None)"
  proof (cases p)
    case (Cons c q)
    show ?thesis
    proof (cases "c = c_star")
      case True
      show ?thesis
      proof (cases q)
        case (Cons d r)
        have "name_ok True False r \<longleftrightarrow> list_all dns_label (labels r)"
          by (cases "labels r") (auto simp: name_ok_eq rest_ok_label)
        then show ?thesis using Cons \<open>p = c # q\<close> True
          by (auto simp: label_bits Let_def valid_star_tail wildcard_pattern_def length_labels)
      qed (use Cons True in \<open>simp add: label_bits Let_def wildcard_pattern_def\<close>)
    next
      case False
      then show ?thesis using Cons
        by (auto simp: label_bits Let_def valid_star_none wildcard_pattern_def split: list.splits)
    qed
  qed (simp add: label_bits wildcard_pattern_def)
  then show ?thesis by (simp add: valid_star_def star_end_def)
qed

section \<open>Comparison without regard to case\<close>

lemma lower_simps [simp]:
  "lower [] = []" "lower (c # s) = OPENSSL_tolower (uint c) # lower s"
  "lower (s @ t) = lower s @ lower t" "length (lower s) = length s"
  by (simp_all add: lower_def)

lemma lower_length: "lower s = lower t \<Longrightarrow> length s = length t"
  by (metis lower_simps(4))

lemma equal_nocase_eq: "equal_nocase p s flags \<longleftrightarrow> lower p = lower s \<and> 0 \<notin> set p"
proof -
  have "length p = length s \<Longrightarrow> nocase_loop p s \<longleftrightarrow> lower p = lower s \<and> 0 \<notin> set p"
    by (induction p s rule: list_induct2) auto
  then show ?thesis by (cases "length p = length s") (auto simp: equal_nocase_def dest: lower_length)
qed

lemma tolower_outside:
  assumes "\<not> (0x41 \<le> d \<and> d \<le> 0x5A)" "\<not> (0x61 \<le> d \<and> d \<le> 0x7A)"
  shows "OPENSSL_tolower (uint (c :: u8)) = uint d \<longleftrightarrow> c = d"
proof -
  have "OPENSSL_tolower (uint c) = uint d \<longleftrightarrow> uint c = uint d"
    using assms by (auto simp: OPENSSL_tolower_def word_le_def)
  then show ?thesis by (simp add: word_uint_eq_iff)
qed

lemma tolower_dot: "OPENSSL_tolower (uint c) = 0x2E \<longleftrightarrow> c = c_dot"
  using tolower_outside [of c_dot c] by (simp add: word_le_nat_alt)

lemma lower_dots: "lower p = lower s \<Longrightarrow> count_list p c_dot = count_list s c_dot"
proof (induction p arbitrary: s)
  case (Cons a p)
  then obtain b t where s: "s = b # t" "OPENSSL_tolower (uint a) = OPENSSL_tolower (uint b)" "lower p = lower t"
    by (cases s) auto
  then have "a = c_dot \<longleftrightarrow> b = c_dot" using tolower_dot by metis
  with Cons.IH s show ?case by simp
qed (use lower_length in fastforce)

lemma equal_case_eq: "equal_case p s flags \<longleftrightarrow> p = s"
  by (auto simp: equal_case_def memcmp_zero)

section \<open>Wildcards\<close>

lemma tolower_zero: "OPENSSL_tolower (uint (c :: u8)) = 0 \<longleftrightarrow> c = 0"
  using tolower_outside [of 0 c] by simp

lemma lower_zero: "lower s = lower t \<Longrightarrow> 0 \<in> set s \<longleftrightarrow> 0 \<in> set t"
proof (induction s arbitrary: t)
  case (Cons a s)
  then obtain b u where t: "t = b # u" "OPENSSL_tolower (uint a) = OPENSSL_tolower (uint b)" "lower s = lower u"
    by (cases t) auto
  then have "a = 0 \<longleftrightarrow> b = 0" using tolower_zero by metis
  with Cons.IH t show ?case by auto
qed (use lower_length in fastforce)

lemma label_chars_not_dot: "list_all label_char w \<Longrightarrow> c_dot \<notin> set w \<and> 0 \<notin> set w"
  by (auto simp: list_all_iff label_char_def)

lemma labels_chars: "list_all (list_all label_char) (labels q) \<Longrightarrow> 0 \<notin> set q"
proof (induction q)
  case (Cons c q)
  then show ?case by (cases "labels q") (auto simp: label_char_def split: if_splits)
qed simp

lemma wildcard_patternE:
  assumes "wildcard_pattern p"
  obtains q where "p = c_star # c_dot # q" "0 \<notin> set q" "2 \<le> length (labels q)" "list_all dns_label (labels q)"
proof -
  from assms obtain q where q: "p = c_star # c_dot # q" "2 \<le> length (labels q)" "list_all dns_label (labels q)"
    by (auto simp: wildcard_pattern_def split: list.splits)
  then have "list_all (list_all label_char) (labels q)" by (auto simp: list_all_iff dns_label_def)
  with q that show ?thesis using labels_chars by blast
qed

text \<open>What a star before a dot matches.\<close>

definition star_matches :: "bytes \<Rightarrow> bytes \<Rightarrow> bool" where
  "star_matches q s \<longleftrightarrow>
     (\<exists>w t. s = w @ c_dot # t \<and> w \<noteq> [] \<and> (w = [c_star] \<or> list_all label_char w) \<and> lower t = lower q)"

lemma lower_dot_Cons: "lower u = 0x2E # lower q \<longleftrightarrow> (\<exists>t. u = c_dot # t \<and> lower t = lower q)"
  by (cases u) (auto simp: tolower_dot)

lemma wildcard_match_eq:
  assumes "0 \<notin> set q"
  shows "wildcard_match [] (c_dot # q) s flags \<longleftrightarrow> star_matches q s"
proof -
  define k where "k = length s - Suc (length q)"
  have dot: "lower (c_dot # q) = 0x2E # lower q" using tolower_dot [of c_dot] by simp
  have nocase: "equal_nocase (drop k s) (c_dot # q) flags \<longleftrightarrow> (\<exists>t. drop k s = c_dot # t \<and> lower t = lower q)"
  proof -
    have "0 \<notin> set (drop k s)" if "lower (drop k s) = lower (c_dot # q)"
      using lower_zero [OF that] assms by simp
    then have "equal_nocase (drop k s) (c_dot # q) flags \<longleftrightarrow> lower (drop k s) = lower (c_dot # q)"
      unfolding equal_nocase_eq by blast
    then show ?thesis unfolding dot lower_dot_Cons .
  qed
  have empty: "equal_nocase [] [] flags" by (simp add: equal_nocase_def)
  have "wildcard_match [] (c_dot # q) s flags \<longleftrightarrow>
      Suc (length q) \<le> length s \<and> (\<exists>t. drop k s = c_dot # t \<and> lower t = lower q) \<and> take k s \<noteq> [] \<and>
      (take k s = [c_star] \<or> list_all label_char (take k s))"
    by (auto simp: wildcard_match_def Let_def nocase [unfolded k_def] k_def label_char_def [abs_def] empty)
  also have "\<dots> \<longleftrightarrow> star_matches q s"
  proof
    assume "star_matches q s"
    then obtain w t where w: "s = w @ c_dot # t" "w \<noteq> []" "w = [c_star] \<or> list_all label_char w" "lower t = lower q"
      by (auto simp: star_matches_def)
    then have "length t = length q" by (blast dest: lower_length)
    with w have "take k s = w" "drop k s = c_dot # t" "Suc (length q) \<le> length s" by (simp_all add: k_def)
    with w(2-4) show "Suc (length q) \<le> length s \<and> (\<exists>t. drop k s = c_dot # t \<and> lower t = lower q) \<and> take k s \<noteq> [] \<and>
      (take k s = [c_star] \<or> list_all label_char (take k s))" by simp
  next
    assume a: "Suc (length q) \<le> length s \<and> (\<exists>t. drop k s = c_dot # t \<and> lower t = lower q) \<and> take k s \<noteq> [] \<and>
      (take k s = [c_star] \<or> list_all label_char (take k s))"
    then obtain t where t: "drop k s = c_dot # t" "lower t = lower q" by blast
    then have "s = take k s @ c_dot # t" by (metis append_take_drop_id)
    with a t(2) show "star_matches q s" unfolding star_matches_def by blast
  qed
  finally show ?thesis .
qed

lemma star_matches_head: "star_matches q s \<Longrightarrow> s ! 0 \<noteq> c_dot"
  by (auto simp: star_matches_def nth_append list_all_iff label_char_def neq_Nil_conv)

lemma equal_wildcard_eq:
  "equal_wildcard p s flags \<longleftrightarrow>
     (if wildcard_pattern p then star_matches (drop 2 p) s else lower p = lower s \<and> 0 \<notin> set p)"
proof (cases "wildcard_pattern p")
  case True
  then obtain q where q: "p = c_star # c_dot # q" "0 \<notin> set q" by (rule wildcard_patternE)
  show ?thesis
  proof (cases "length s > 1 \<and> s ! 0 = c_dot")
    case dot: True
    then obtain s' where "s = c_dot # s'" by (cases s) auto
    then have "\<not> equal_nocase p s flags" by (simp add: q equal_nocase_eq OPENSSL_tolower_def)
    with dot True show ?thesis using star_matches_head by (auto simp: equal_wildcard_def)
  next
    case False
    then show ?thesis using True q by (simp add: equal_wildcard_def valid_star_eq wildcard_match_eq)
  qed
next
  case False
  then show ?thesis by (simp add: equal_wildcard_def valid_star_eq equal_nocase_eq)
qed

lemma star_matches_dots: "star_matches q s \<Longrightarrow> count_list s c_dot = Suc (count_list q c_dot)"
proof -
  assume "star_matches q s"
  then obtain w t where w: "s = w @ c_dot # t" "w = [c_star] \<or> list_all label_char w" "lower t = lower q"
    by (auto simp: star_matches_def)
  then have "c_dot \<notin> set w" using label_chars_not_dot by auto
  then have "count_list w c_dot = 0" by (simp add: count_list_0_iff)
  with w lower_dots [OF w(3)] show ?thesis by simp
qed

text \<open>C32: \<open>equal_wildcard\<close> (the comparison of \<open>X509_check_host\<close>) decides exactly this: a pattern that is a
  star, a dot and at least two proper labels matches the names that have one label of letters, digits and
  hyphens (or a lone star) where the star is and the rest of the pattern after it without regard to
  case; every other pattern matches itself only, without regard to case, and never if it holds a zero byte.\<close>

theorem equal_wildcard_exact:
  "equal_wildcard pattern subject flags \<longleftrightarrow>
     (if wildcard_pattern pattern
      then \<exists>w t. subject = w @ c_dot # t \<and> w \<noteq> [] \<and> (w = [c_star] \<or> list_all label_char w) \<and>
             lower t = lower (drop 2 pattern)
      else lower pattern = lower subject \<and> 0 \<notin> set pattern)"
  by (simp add: equal_wildcard_eq star_matches_def)

text \<open>C33: A host name that matches a pattern has as many labels as the pattern: no wildcard reaches across
  a dot.\<close>

theorem wildcard_one_label:
  "equal_wildcard pattern subject flags \<Longrightarrow> length (labels subject) = length (labels pattern)"
  by (cases "wildcard_pattern pattern")
    (auto simp: equal_wildcard_eq length_labels star_matches_dots dest: lower_dots elim!: wildcard_patternE)

theorem wildcard_one_label_witness:
  "length (labels [0x61, 0x62, c_dot, 0x43, c_dot, 0x64]) = length (labels [c_star, c_dot, 0x63, c_dot, 0x64])"
  by (rule wildcard_one_label [where flags = 0]) code_simp

section \<open>E-mail addresses\<close>

lemma email_scan_skip:
  "k \<le> length u \<Longrightarrow> length v = length u \<Longrightarrow> length b = length a \<Longrightarrow> c_at \<notin> set u \<Longrightarrow> c_at \<notin> set v \<Longrightarrow>
   email_scan (a @ u) (b @ v) (length a + k) = email_scan (a @ u) (b @ v) (length a)"
proof (induction k)
  case (Suc k)
  then have "u ! k \<noteq> c_at" "v ! k \<noteq> c_at" by (metis Suc_le_lessD nth_mem)+
  with Suc show ?case by (simp add: nth_append)
qed simp

lemma email_scan_step:
  assumes "length b = length a" "length v = length u" "x = c_at \<or> y = c_at" "c_at \<notin> set u" "c_at \<notin> set v"
  shows "email_scan (a @ x # u) (b @ y # v) (length (a @ x # u)) =
    (if equal_nocase (x # u) (y # v) 0 then Some (length a) else None)"
proof -
  have "email_scan ((a @ [x]) @ u) ((b @ [y]) @ v) (length (a @ [x]) + length u) =
      email_scan ((a @ [x]) @ u) ((b @ [y]) @ v) (length (a @ [x]))"
    using assms by (intro email_scan_skip) simp_all
  then show ?thesis using assms by (auto simp: nth_append)
qed

lemma tolower_at: "OPENSSL_tolower (uint c) = 0x40 \<longleftrightarrow> c = c_at"
  using tolower_outside [of c_at c] by (simp add: word_le_nat_alt)

lemma lower_at_Cons: "lower u = 0x40 # lower d \<longleftrightarrow> (\<exists>e. u = c_at # e \<and> lower e = lower d)"
  by (cases u) (auto simp: tolower_at)

lemma lower_ats: "lower p = lower s \<Longrightarrow> c_at \<in> set p \<longleftrightarrow> c_at \<in> set s"
proof (induction p arbitrary: s)
  case (Cons a p)
  then obtain b t where s: "s = b # t" "OPENSSL_tolower (uint a) = OPENSSL_tolower (uint b)" "lower p = lower t"
    by (cases s) auto
  then have "a = c_at \<longleftrightarrow> b = c_at" using tolower_at by metis
  with Cons.IH s show ?case by auto
qed (use lower_length in fastforce)

lemma nocase_from_at:
  "equal_nocase (c_at # d) u flags \<longleftrightarrow> (\<exists>e. u = c_at # e \<and> lower e = lower d) \<and> 0 \<notin> set d"
proof -
  have at: "lower (c_at # d) = 0x40 # lower d" using tolower_at [of c_at] by simp
  have "equal_nocase (c_at # d) u flags \<longleftrightarrow> lower u = 0x40 # lower d \<and> 0 \<notin> set d"
    unfolding equal_nocase_eq at by auto
  then show ?thesis unfolding lower_at_Cons .
qed

lemma equal_email_length: "equal_email a b flags \<Longrightarrow> length a = length b"
  by (simp add: equal_email_def split: if_splits)

lemma email_local_domain:
  assumes "c_at \<notin> set d" "length b = length (l @ c_at # d)"
  shows "email_scan (l @ c_at # d) b (length (l @ c_at # d)) =
     (if \<exists>m e. b = m @ c_at # e \<and> length m = length l \<and> lower e = lower d \<and> 0 \<notin> set d
      then Some (length l) else None)"
proof -
  define m y e where "m = take (length l) b" "y = b ! length l" "e = drop (Suc (length l)) b"
  then have b: "b = m @ y # e" "length m = length l" "length e = length d"
    using assms(2) by (simp_all add: id_take_nth_drop)
  have uniq: "b = m' @ c_at # e' \<and> length m' = length l \<longleftrightarrow> m' = m \<and> y = c_at \<and> e' = e" for m' e'
    using b by auto
  show ?thesis
  proof (cases "c_at \<in> set e")
    case False
    have "email_scan (l @ c_at # d) b (length (l @ c_at # d)) =
        (if equal_nocase (c_at # d) (y # e) 0 then Some (length l) else None)"
      unfolding b(1) using False assms b by (intro email_scan_step) simp_all
    also have "equal_nocase (c_at # d) (y # e) 0 \<longleftrightarrow>
        (\<exists>m e. b = m @ c_at # e \<and> length m = length l \<and> lower e = lower d \<and> 0 \<notin> set d)"
      unfolding nocase_from_at using uniq by auto
    finally show ?thesis .
  next
    case True
    then obtain e1 e2 where e: "e = e1 @ c_at # e2" "c_at \<notin> set e2" using split_list_last by metis
    define d1 x d2 where "d1 = take (length e1) d" "x = d ! length e1" "d2 = drop (Suc (length e1)) d"
    then have d: "d = d1 @ x # d2" "length d1 = length e1" "length d2 = length e2"
      using b(3) e(1) by (simp_all add: id_take_nth_drop)
    have x: "x \<noteq> c_at" "c_at \<notin> set d2" using assms(1) d(1) by auto
    have "\<not> equal_nocase (x # d2) (c_at # e2) 0"
      using x(1) tolower_at [of x] tolower_at [of c_at] by (simp add: equal_nocase_eq)
    moreover have "email_scan ((l @ c_at # d1) @ x # d2) ((m @ y # e1) @ c_at # e2) (length ((l @ c_at # d1) @ x # d2)) =
        (if equal_nocase (x # d2) (c_at # e2) 0 then Some (length (l @ c_at # d1)) else None)"
      using b d e x by (intro email_scan_step) simp_all
    ultimately have "email_scan (l @ c_at # d) b (length (l @ c_at # d)) = None"
      by (simp add: b(1) d(1) e(1) del: email_scan.simps)
    moreover have "\<not> (\<exists>m e. b = m @ c_at # e \<and> length m = length l \<and> lower e = lower d \<and> 0 \<notin> set d)"
      using uniq lower_ats [of e d] True assms(1) by blast
    ultimately show ?thesis by (simp only: if_False)
  qed
qed

lemma equal_email_eq:
  assumes "c_at \<notin> set d"
  shows "equal_email (l @ c_at # d) b flags \<longleftrightarrow>
     (\<exists>e. b = l @ c_at # e \<and> lower e = lower d \<and> 0 \<notin> set d \<and> (l = [] \<longrightarrow> e = d))"
proof (cases "length b = length (l @ c_at # d)")
  case False
  then have "\<not> equal_email (l @ c_at # d) b flags" using equal_email_length by metis
  moreover have "length b = length (l @ c_at # d)" if "b = l @ c_at # e" "lower e = lower d" for e
    using lower_length [OF that(2)] that(1) by simp
  ultimately show ?thesis using False by blast
next
  case True
  show ?thesis
  proof (cases "\<exists>m e. b = m @ c_at # e \<and> length m = length l \<and> lower e = lower d \<and> 0 \<notin> set d")
    case ex: True
    then obtain m e where b: "b = m @ c_at # e" "length m = length l" "lower e = lower d" "0 \<notin> set d"
      by blast
    have "email_scan (l @ c_at # d) b (length (l @ c_at # d)) = Some (length l)"
      unfolding email_local_domain [OF assms True] using ex by (simp only: if_True)
    then have "equal_email (l @ c_at # d) b flags \<longleftrightarrow> (if l = [] then b = c_at # d else l = m)"
      using True b by (auto simp: equal_email_def equal_case_eq simp del: email_scan.simps)
    then show ?thesis using b by auto
  next
    case False
    then have "email_scan (l @ c_at # d) b (length (l @ c_at # d)) = None"
      unfolding email_local_domain [OF assms True] by (simp only: if_False)
    then have "\<not> equal_email (l @ c_at # d) b flags" unfolding equal_email_def by (simp only: option.case) simp
    with False show ?thesis by blast
  qed
qed

text \<open>C34: \<open>equal_email\<close> (the comparison of \<open>X509_check_email\<close>): two addresses are equal exactly when their
  local parts, up to the last at sign, are the same bytes and their domains are equal without regard to
  case and hold no zero byte.\<close>

theorem equal_email_exact:
  assumes "l \<noteq> []" "c_at \<notin> set d"
  shows "equal_email (l @ c_at # d) b flags \<longleftrightarrow> (\<exists>e. b = l @ c_at # e \<and> lower e = lower d \<and> 0 \<notin> set d)"
  using assms by (simp add: equal_email_eq)

theorem equal_email_exact_witness:
  "equal_email ([0x41] @ c_at # [0x62]) [0x41, c_at, 0x42] 0 \<and> \<not> equal_email ([0x41] @ c_at # [0x62]) [0x61, c_at, 0x42] 0"
proof -
  have l: "lower [0x42] = lower [0x62]" by code_simp
  show ?thesis
    using equal_email_exact [of "[0x41]" "[0x62]" "[0x41, c_at, 0x42]" 0]
      equal_email_exact [of "[0x41]" "[0x62]" "[0x61, c_at, 0x42]" 0] l by simp
qed

text \<open>An address that starts with its only at sign is compared byte for byte.\<close>

lemma equal_email_no_local_part:
  "c_at \<notin> set d \<Longrightarrow> equal_email (c_at # d) b flags \<longleftrightarrow> b = c_at # d \<and> 0 \<notin> set d"
  using equal_email_eq [of d "[]" b flags] by auto

section \<open>Names that look like host names\<close>

definition host_char :: "u8 \<Rightarrow> bool" where
  "host_char c \<longleftrightarrow> OPENSSL_isalnum c \<or> c = c_hyphen \<or> c = c_underscore \<or> c = c_colon"

definition host_label :: "bytes \<Rightarrow> bool" where
  "host_label l \<longleftrightarrow> l \<noteq> [] \<and> hd l \<noteq> c_hyphen \<and> list_all host_char l"

lemma dns_name_loop_eq:
  assumes "label_start \<le> i" "len = i + length s"
  shows "dns_name_loop s len i label_start \<longleftrightarrow>
    s = [] \<or>
    (i = label_start \<longrightarrow> hd (labels s) \<noteq> [] \<and> hd (hd (labels s)) \<noteq> c_hyphen) \<and>
    list_all host_char (hd (labels s)) \<and> list_all host_label (tl (labels s))"
  using assms
proof (induction s arbitrary: i label_start)
  case (Cons c s)
  have all: "list_all host_label (labels s) \<longleftrightarrow> host_label (hd (labels s)) \<and> list_all host_label (tl (labels s))"
    by (cases "labels s") auto
  have len: "len = Suc i + length s" using Cons.prems by simp
  show ?case
  proof (cases "s = []")
    case False
    have IH1: "dns_name_loop s len (Suc i) label_start \<longleftrightarrow>
        list_all host_char (hd (labels s)) \<and> list_all host_label (tl (labels s))"
      using Cons.IH [OF _ len, of label_start] Cons.prems False by auto
    have IH2: "dns_name_loop s len (Suc i) (Suc i) \<longleftrightarrow> list_all host_label (labels s)"
      using Cons.IH [OF _ len, of "Suc i"] False by (auto simp: all host_label_def [of "hd (labels s)"])
    have "i < len - 1" using len False by simp
    then show ?thesis using Cons.prems(1) False
      by (cases "c = c_dot") (auto simp: IH1 IH2 host_char_def [of c])
  qed (use Cons.prems in \<open>auto simp: host_char_def host_label_def\<close>)
qed simp

lemma looks_like_loop:
  "dns_name_loop s (length s) 0 0 \<longleftrightarrow> s = [] \<or> list_all host_label (labels s)"
  by (cases "labels s") (auto simp: dns_name_loop_eq host_label_def)

lemma labels_ends:
  assumes "s \<noteq> []" "list_all host_label (labels s)"
  shows "hd s \<noteq> c_dot" "hd s \<noteq> c_star" "List.last s \<noteq> c_dot"
proof -
  obtain c t where s: "s = c # t" using assms(1) by (cases s) auto
  then show "hd s \<noteq> c_dot" "hd s \<noteq> c_star"
    using assms(2) by (auto simp: host_label_def host_char_def split: if_splits)
  show "List.last s \<noteq> c_dot"
  proof
    assume "List.last s = c_dot"
    then obtain u where "s = u @ [c_dot]" using assms(1) by (metis append_butlast_last_id)
    moreover have "[] \<in> set (tl (labels (u @ [c_dot])))"
    proof (induction u)
      case (Cons a u)
      then show ?case by (cases "labels (u @ [c_dot])") auto
    qed simp
    then have "[] \<in> set (labels (u @ [c_dot]))" by (metis labels_nonempty list.set_sel(2))
    ultimately show False using assms(2) by (auto simp: list_all_iff host_label_def)
  qed
qed

lemma looks_like_dns_name_eq:
  "x509v3_looks_like_dns_name name \<longleftrightarrow>
     (\<exists>w s d. name = w @ s @ d \<and> (w = [] \<or> w = [c_star, c_dot]) \<and> (d = [] \<or> d = [c_dot]) \<and>
        s \<noteq> [] \<and> list_all host_label (labels s))"
  (is "_ \<longleftrightarrow> ?rhs")
proof
  define n1 where "n1 = (if name \<noteq> [] \<and> name ! (length name - 1) = c_dot then butlast name else name)"
  define n2 where "n2 = (if length n1 \<ge> 2 \<and> n1 ! 0 = c_star \<and> n1 ! 1 = c_dot then drop 2 n1 else n1)"
  have looks: "x509v3_looks_like_dns_name name \<longleftrightarrow> n2 \<noteq> [] \<and> list_all host_label (labels n2)"
    unfolding x509v3_looks_like_dns_name_def Let_def n1_def [symmetric] n2_def [symmetric]
    by (auto simp: looks_like_loop)
  {
    assume l: "x509v3_looks_like_dns_name name"
    have "\<exists>d. name = n1 @ d \<and> (d = [] \<or> d = [c_dot])"
    proof (cases "name \<noteq> [] \<and> name ! (length name - 1) = c_dot")
      case True
      then have "name = n1 @ [c_dot]" by (simp add: n1_def) (metis append_butlast_last_id last_conv_nth One_nat_def)
      then show ?thesis by blast
    qed (auto simp: n1_def)
    moreover have "\<exists>w. n1 = w @ n2 \<and> (w = [] \<or> w = [c_star, c_dot])"
    proof (cases "length n1 \<ge> 2 \<and> n1 ! 0 = c_star \<and> n1 ! 1 = c_dot")
      case True
      then have "n1 = [c_star, c_dot] @ n2"
        by (cases n1; cases "tl n1") (auto simp: n2_def)
      then show ?thesis by blast
    qed (auto simp: n2_def)
    ultimately obtain w d where "name = (w @ n2) @ d" "w = [] \<or> w = [c_star, c_dot]" "d = [] \<or> d = [c_dot]"
      by blast
    with l looks show ?rhs unfolding append_assoc by blast
  next
    assume ?rhs
    then obtain w s d where n: "name = w @ s @ d" "w = [] \<or> w = [c_star, c_dot]" "d = [] \<or> d = [c_dot]"
      "s \<noteq> []" "list_all host_label (labels s)" by blast
    note ends = labels_ends [OF n(4,5)]
    have "n1 = w @ s"
      using n ends(3) by (auto simp: n1_def last_conv_nth nth_append butlast_append)
    then have "n2 = s" using n(2,4) ends(2) by (cases s) (auto simp: n2_def)
    then show "x509v3_looks_like_dns_name name" using looks n(4,5) by simp
  }
qed

text \<open>Every pattern with a wildcard looks like a host name, so that name constraints apply to it.\<close>

lemma wildcard_looks_like_dns_name: "wildcard_pattern p \<Longrightarrow> x509v3_looks_like_dns_name p"
proof -
  assume "wildcard_pattern p"
  then obtain q where q: "p = [c_star, c_dot] @ q @ []" "list_all dns_label (labels q)" "2 \<le> length (labels q)"
    by (auto elim: wildcard_patternE)
  then have "list_all host_label (labels q)" "q \<noteq> []"
    by (auto simp: list_all_iff host_label_def dns_label_def label_char_def host_char_def)
  with q(1) show ?thesis unfolding looks_like_dns_name_eq by blast
qed

end
