(* ===== verification/Asn1_String.thy ===== *)
theory Asn1_String
  imports Unicode C_String
begin

text \<open>
  Strings of ASN.1: \<open>ASN1_STRING\<close> (\<open>crypto/asn1/asn1_lib.c\<close>), the choice of the smallest type that can hold
  a text and the conversion to it (\<open>crypto/asn1/a_mbstr.c\<close>), and the conversion to UTF-8
  (\<open>crypto/asn1/a_strex.c\<close>). \<open>str_data\<close> is the buffer without its terminating zero byte. The tags of types
  are those of \<open>include/openssl/asn1.h\<close>.
\<close>

section \<open>Strings\<close>

record asn1_string =
  str_length :: int
  str_type :: int
  str_data :: "bytes option"
  str_flags :: int

text \<open>The contents; a NULL pointer goes with length 0.\<close>

definition str_bytes :: "asn1_string \<Rightarrow> bytes" where
  "str_bytes s = (case str_data s of None \<Rightarrow> [] | Some d \<Rightarrow> take (nat (str_length s)) d)"

definition ASN1_STRING_MAX :: nat where "ASN1_STRING_MAX = 64 * 1024 * 1024"

definition sizeof_asn1_string :: nat where "sizeof_asn1_string = 24"

definition ASN1_STRING_type_new :: "cbb_env \<Rightarrow> int \<Rightarrow> asn1_string option" where
  "ASN1_STRING_type_new env type =
     (if alloc_ok env sizeof_asn1_string
      then Some \<lparr>str_length = 0, str_type = type, str_data = None, str_flags = 0\<rparr> else None)"

definition ASN1_STRING_new :: "cbb_env \<Rightarrow> asn1_string option" where
  "ASN1_STRING_new env = ASN1_STRING_type_new env 4"

text \<open>A failing call leaves the string as it was. Without \<open>data\<close> the contents past the old ones are
  uninitialised memory.\<close>

definition ASN1_STRING_set :: "cbb_env \<Rightarrow> asn1_string \<Rightarrow> bytes option \<Rightarrow> int \<Rightarrow> asn1_string option" where
  "ASN1_STRING_set env str data len_s =
     (if len_s < 0 \<and> data = None then None
      else
        let len = if len_s < 0 then strlen (the data) else nat len_s
        in if len > ASN1_STRING_MAX then None
           else if (str_length str \<le> int len \<or> str_data str = None) \<and> \<not> alloc_ok env (size_add len 1) then None
           else Some (str\<lparr>str_length := int len,
             str_data := Some (case data of
                 Some d \<Rightarrow> take len d
               | None \<Rightarrow> take len (str_bytes str @ map (uninit env) [0..<len]))\<rparr>))"

definition ASN1_STRING_set0 :: "asn1_string \<Rightarrow> bytes option \<Rightarrow> int \<Rightarrow> asn1_string" where
  "ASN1_STRING_set0 str data len = str\<lparr>str_data := data, str_length := len\<rparr>"

definition ASN1_STRING_copy :: "cbb_env \<Rightarrow> asn1_string \<Rightarrow> asn1_string option \<Rightarrow> asn1_string option" where
  "ASN1_STRING_copy env dst str =
     (case str of None \<Rightarrow> None | Some str \<Rightarrow>
      case ASN1_STRING_set env dst (str_data str) (str_length str) of None \<Rightarrow> None
      | Some dst \<Rightarrow> Some (dst\<lparr>str_type := str_type str, str_flags := str_flags str\<rparr>))"

definition ASN1_STRING_dup :: "cbb_env \<Rightarrow> asn1_string option \<Rightarrow> asn1_string option" where
  "ASN1_STRING_dup env str =
     (case str of None \<Rightarrow> None | Some s \<Rightarrow>
      case ASN1_STRING_new env of None \<Rightarrow> None
      | Some r \<Rightarrow> ASN1_STRING_copy env r str)"

definition ASN1_tag2bit :: "int \<Rightarrow> u64" where
  "ASN1_tag2bit tag =
     (if tag < 0 \<or> tag > 30 then 0
      else [0, 0, 0, 0x400, 0x200, 0, 0, 0x1000, 0x1000, 0x1000, 0x1000, 0x1000, 0x2000, 0x1000, 0x1000, 0x1000,
            0x10000, 0, 1, 2, 4, 8, 0x10, 0x4000, 0x8000, 0x20, 0x40, 0x80, 0x100, 0x1000, 0x800] ! nat tag)"

section \<open>Types that can hold a text\<close>

definition MBSTRING_UTF8 :: int where "MBSTRING_UTF8 = 0x1000"
definition MBSTRING_ASC :: int where "MBSTRING_ASC = 0x1001"
definition MBSTRING_BMP :: int where "MBSTRING_BMP = 0x1002"
definition MBSTRING_UNIV :: int where "MBSTRING_UNIV = 0x1004"

definition B_ASN1_PRINTABLESTRING :: u64 where "B_ASN1_PRINTABLESTRING = 0x0002"
definition B_ASN1_T61STRING :: u64 where "B_ASN1_T61STRING = 0x0004"
definition B_ASN1_IA5STRING :: u64 where "B_ASN1_IA5STRING = 0x0010"
definition B_ASN1_UNIVERSALSTRING :: u64 where "B_ASN1_UNIVERSALSTRING = 0x0100"
definition B_ASN1_BMPSTRING :: u64 where "B_ASN1_BMPSTRING = 0x0800"
definition B_ASN1_UTF8STRING :: u64 where "B_ASN1_UTF8STRING = 0x2000"

definition DIRSTRING_TYPE :: u64 where
  "DIRSTRING_TYPE = B_ASN1_PRINTABLESTRING OR B_ASN1_T61STRING OR B_ASN1_BMPSTRING OR B_ASN1_UTF8STRING"

definition asn1_is_printable :: "u32 \<Rightarrow> bool" where
  "asn1_is_printable v =
     (if v > 0x7f then False
      else OPENSSL_isalnum (ucast v) \<or> v \<in> {0x20, 0x27, 0x28, 0x29, 0x2B, 0x2C, 0x2D, 0x2E, 0x2F, 0x3A, 0x3D, 0x3F})"

text \<open>The functions that the formats select; \<open>None\<close> for an unknown format.\<close>

definition mb_decode :: "int \<Rightarrow> (cbs, u32) action option" where
  "mb_decode inform =
     (if inform = MBSTRING_BMP then Some CBS_get_ucs2_be
      else if inform = MBSTRING_UNIV then Some CBS_get_utf32_be
      else if inform = MBSTRING_UTF8 then Some CBS_get_utf8
      else if inform = MBSTRING_ASC then Some CBS_get_latin1
      else None)"

definition mb_encode :: "int \<Rightarrow> cbb_env \<Rightarrow> handle \<Rightarrow> u32 \<Rightarrow> (cbb, unit) action" where
  "mb_encode outform =
     (if outform = MBSTRING_BMP then CBB_add_ucs2_be
      else if outform = MBSTRING_UNIV then CBB_add_utf32_be
      else if outform = MBSTRING_UTF8 then CBB_add_utf8
      else CBB_add_latin1)"

text \<open>The mask of types still possible after a character: four times a test of this shape.\<close>

definition mb_clear :: "u64 \<Rightarrow> bool \<Rightarrow> u64 \<Rightarrow> u64" where
  "mb_clear b bad types = (if types AND b \<noteq> 0 \<and> bad then types AND NOT b else types)"

definition mb_narrow :: "u64 \<Rightarrow> u32 \<Rightarrow> u64" where
  "mb_narrow types c =
     mb_clear B_ASN1_BMPSTRING (c > 0xffff)
      (mb_clear B_ASN1_T61STRING (c > 0xff)
       (mb_clear B_ASN1_IA5STRING (c > 127)
        (mb_clear B_ASN1_PRINTABLESTRING (\<not> asn1_is_printable c) types)))"

lemma mb_decode_shortens: "mb_decode f = Some d \<Longrightarrow> d s = (Some c, t) \<Longrightarrow> length t < length s"
  by (auto simp: mb_decode_def split: if_splits dest: ucs2.dec_shortens utf32.dec_shortens utf8.dec_shortens
      latin1.dec_shortens)

text \<open>The first loop: the mask of types at the end, the length of the text in UTF-8, its number of characters.\<close>

function mb_scan :: "int \<Rightarrow> int \<Rightarrow> cbs \<Rightarrow> u64 \<Rightarrow> nat \<Rightarrow> nat \<Rightarrow> (u64 \<times> nat \<times> nat) option" where
  "mb_scan inform maxsize cbs types utf8_len nchar =
     (if CBS_len cbs = 0 then Some (types, utf8_len, nchar)
      else case mb_decode inform of None \<Rightarrow> None | Some decode_func \<Rightarrow>
      case decode_func cbs of
        (None, _) \<Rightarrow> None
      | (Some c, cbs) \<Rightarrow>
          if nchar = 0 \<and> (inform = MBSTRING_BMP \<or> inform = MBSTRING_UNIV) \<and> c = 0xfeff then None
          else
            let types = mb_narrow types c; nchar = Suc nchar; utf8_len = size_add utf8_len (CBB_get_utf8_len c)
            in if types = 0 then None
               else if maxsize > 0 \<and> int nchar > maxsize then None
               else mb_scan inform maxsize cbs types utf8_len nchar)"
  by pat_completeness auto
termination
  by (relation "measure (\<lambda>(_, _, cbs, _). length cbs)") (auto dest: mb_decode_shortens [OF _ sym])

declare mb_scan.simps [simp del]

text \<open>The type and the format that the mask selects, and the estimate of the size.\<close>

definition mb_choose :: "u64 \<Rightarrow> nat \<Rightarrow> nat \<Rightarrow> (int \<times> int \<times> nat) option" where
  "mb_choose types utf8_len nchar =
     (if types AND B_ASN1_PRINTABLESTRING \<noteq> 0 then Some (19, MBSTRING_ASC, nchar)
      else if types AND B_ASN1_IA5STRING \<noteq> 0 then Some (22, MBSTRING_ASC, nchar)
      else if types AND B_ASN1_T61STRING \<noteq> 0 then Some (20, MBSTRING_ASC, nchar)
      else if types AND B_ASN1_BMPSTRING \<noteq> 0 then Some (30, MBSTRING_BMP, size_mul 2 nchar)
      else if types AND B_ASN1_UNIVERSALSTRING \<noteq> 0 then Some (28, MBSTRING_UNIV, size_mul 4 nchar)
      else if types AND B_ASN1_UTF8STRING \<noteq> 0 then Some (12, MBSTRING_UTF8, utf8_len)
      else None)"

text \<open>The second loop.\<close>

function mb_convert :: "int \<Rightarrow> int \<Rightarrow> cbs \<Rightarrow> cbb_env \<Rightarrow> (cbb, unit) action" where
  "mb_convert inform outform cbs env =
     (if CBS_len cbs = 0 then ret ()
      else case mb_decode inform of None \<Rightarrow> fail | Some decode_func \<Rightarrow>
      case decode_func cbs of
        (None, _) \<Rightarrow> fail
      | (Some c, cbs) \<Rightarrow> and_then (mb_encode outform env 0 c) (\<lambda>_. mb_convert inform outform cbs env))"
  by pat_completeness auto
termination
  by (relation "measure (\<lambda>(_, _, cbs, _). length cbs)") (auto dest: mb_decode_shortens [OF _ sym])

declare mb_convert.simps [simp del]

text \<open>\<open>out\<close> is \<open>None\<close> for NULL, otherwise the string that \<open>*out\<close> points to, if any. The result is
  the type and what \<open>*out\<close> points to afterwards; \<open>None\<close> stands for \<open>-1\<close>, which leaves \<open>*out\<close> alone.\<close>

definition ASN1_mbstring_ncopy ::
  "cbb_env \<Rightarrow> asn1_string option option \<Rightarrow> bytes \<Rightarrow> int \<Rightarrow> int \<Rightarrow> u64 \<Rightarrow> int \<Rightarrow> int \<Rightarrow>
   (int \<times> asn1_string option) option" where
  "ASN1_mbstring_ncopy env out inp len inform types minsize maxsize =
     (let len = if len = - 1 then int (strlen inp) else len;
          types = if types = 0 then DIRSTRING_TYPE else types;
          cbs = CBS_init inp (nat len)
      in case mb_decode inform of None \<Rightarrow> None | Some _ \<Rightarrow>
         case mb_scan inform maxsize cbs types 0 0 of None \<Rightarrow> None | Some (types, utf8_len, nchar) \<Rightarrow>
         if minsize > 0 \<and> int nchar < minsize then None
         else case mb_choose types utf8_len nchar of None \<Rightarrow> None | Some (type, outform, size_estimate) \<Rightarrow>
         case out of None \<Rightarrow> Some (type, None) | Some dest \<Rightarrow>
         case (case dest of None \<Rightarrow> ASN1_STRING_type_new env type | Some d \<Rightarrow> Some d) of None \<Rightarrow> None | Some dest \<Rightarrow>
         if inform = outform then
           case ASN1_STRING_set env dest (Some inp) len of None \<Rightarrow> None
           | Some dest \<Rightarrow> Some (type, Some (dest\<lparr>str_type := type\<rparr>))
         else case build env (size_add size_estimate 1)
             (\<lambda>env. and_then (mb_convert inform outform cbs env) (\<lambda>_. CBB_add_u8 env 0 0)) of
           None \<Rightarrow> None
         | Some data \<Rightarrow>
             if length data < 1 \<or> length data > INT_MAX then None
             else Some (type, Some (ASN1_STRING_set0 (dest\<lparr>str_type := type\<rparr>) (Some data) (int (length data) - 1))))"

definition ASN1_mbstring_copy ::
  "cbb_env \<Rightarrow> asn1_string option option \<Rightarrow> bytes \<Rightarrow> int \<Rightarrow> int \<Rightarrow> u64 \<Rightarrow> (int \<times> asn1_string option) option" where
  "ASN1_mbstring_copy env out inp len inform types = ASN1_mbstring_ncopy env out inp len inform types 0 0"

definition string_type_to_encoding :: "int \<Rightarrow> int" where
  "string_type_to_encoding type =
     (if type = 12 then MBSTRING_UTF8
      else if type \<in> {18, 19, 20, 22, 23, 24, 26} then MBSTRING_ASC
      else if type = 28 then MBSTRING_UNIV
      else if type = 30 then MBSTRING_BMP
      else - 1)"

text \<open>The bytes at \<open>*out\<close>; \<open>None\<close> for a negative result.\<close>

definition ASN1_STRING_to_UTF8 :: "cbb_env \<Rightarrow> asn1_string option \<Rightarrow> bytes option" where
  "ASN1_STRING_to_UTF8 env inp =
     (case inp of None \<Rightarrow> None | Some inp \<Rightarrow>
      let mbflag = string_type_to_encoding (str_type inp);
          stmp = \<lparr>str_length = 0, str_type = 0, str_data = None, str_flags = 0\<rparr>
      in if mbflag = - 1 then None
         else case ASN1_mbstring_copy env (Some (Some stmp)) (str_bytes inp) (str_length inp) mbflag B_ASN1_UTF8STRING of
           None \<Rightarrow> None
         | Some (_, None) \<Rightarrow> None
         | Some (_, Some stmp) \<Rightarrow> Some (str_bytes stmp))"

section \<open>Texts in a format\<close>

definition mb_char :: "int \<Rightarrow> u32 \<Rightarrow> bool" where
  "mb_char f c \<longleftrightarrow> (if f = MBSTRING_ASC then c \<le> 0xff else is_valid_code_point c \<and> (f = MBSTRING_BMP \<longrightarrow> c \<le> 0xffff))"

definition mb_bytes :: "int \<Rightarrow> u32 \<Rightarrow> bytes" where
  "mb_bytes f c =
     (if f = MBSTRING_BMP then be_bytes 2 (ucast c)
      else if f = MBSTRING_UNIV then be_bytes 4 (ucast c)
      else if f = MBSTRING_UTF8 then utf8_bytes c
      else [ucast c])"

definition mb_text :: "int \<Rightarrow> u32 list \<Rightarrow> bytes" where
  "mb_text f cs = concat (map (mb_bytes f) cs)"

lemma mb_text_simps [simp]: "mb_text f [] = []" "mb_text f (c # cs) = mb_bytes f c @ mb_text f cs"
  by (simp_all add: mb_text_def)

lemmas mb_formats = MBSTRING_UTF8_def MBSTRING_ASC_def MBSTRING_BMP_def MBSTRING_UNIV_def

lemma mb_codec: "mb_decode f = Some d \<Longrightarrow> codec_nonempty (mb_char f) (mb_bytes f) d"
  using ucs2.codec_nonempty_axioms utf32.codec_nonempty_axioms utf8.codec_nonempty_axioms latin1.codec_nonempty_axioms
  by (auto simp: mb_decode_def mb_char_def [abs_def] mb_bytes_def [abs_def] mb_formats split: if_splits)

lemma mb_text_unique:
  assumes "mb_decode f = Some d" "list_all (mb_char f) cs" "list_all (mb_char f) cs'" "mb_text f cs = mb_text f cs'"
  shows "cs = cs'"
  using codec_nonempty.concat_enc_inject [OF mb_codec [OF assms(1)], of cs cs'] assms(2-)
  by (simp add: list_all_iff mb_text_def)

lemma latin1_valid: "c \<le> 0xff \<Longrightarrow> is_valid_code_point c"
proof -
  assume c: "c \<le> 0xff"
  have "c AND 0xfffe \<le> c" by (rule word_and_le2)
  then have "c AND 0xfffe \<noteq> 0xfffe" using c by (auto simp: word_le_nat_alt)
  then show ?thesis using c by (simp add: is_valid_code_point_def word_le_nat_alt word_less_nat_alt)
qed

lemma mb_char_valid: "mb_char f c \<Longrightarrow> is_valid_code_point c"
  by (auto simp: mb_char_def latin1_valid split: if_splits)

lemma mb_encode_appender:
  assumes "mb_char f c" "mb_decode f \<noteq> None"
  shows "appender (\<lambda>env. mb_encode f env 0 c) 0 (mb_bytes f c)"
proof -
  have "appender (\<lambda>env. CBB_add_utf8 env 0 c) 0 (utf8_bytes c)" if "is_valid_code_point c"
    using add_utf8_writes [of 0 c] that by (simp add: writes_def)
  moreover have "appender (\<lambda>env. CBB_add_latin1 env 0 c) 0 [ucast c]" if "c \<le> 0xff"
    using that add_u8.appender_axioms [of 0 "ucast c"] by (simp add: CBB_add_latin1_def)
  moreover have "appender (\<lambda>env. CBB_add_ucs2_be env 0 c) 0 (be_bytes 2 (ucast c))"
    if "is_valid_code_point c" "c \<le> 0xffff"
  proof -
    have "unat c < 2 ^ 16" using that(2) by (simp add: word_le_nat_alt)
    moreover from this have "unat c < 2 ^ 64" by simp
    ultimately have "ucast (ucast c :: u16) = (ucast c :: u64)"
      by (intro unat_eqI) (simp add: unsigned_ucast_eq unsigned_take_bit_eq take_bit_nat_eq_self)
    then show ?thesis using that add_u16.appender_axioms [of 0 "ucast c"] by (simp add: CBB_add_ucs2_be_def)
  qed
  moreover have "appender (\<lambda>env. CBB_add_utf32_be env 0 c) 0 (be_bytes 4 (ucast c))" if "is_valid_code_point c"
    using that add_u32.appender_axioms [of 0 c] by (simp add: CBB_add_utf32_be_def)
  ultimately show ?thesis using assms
    by (auto simp: mb_encode_def mb_decode_def mb_char_def mb_bytes_def mb_formats split: if_splits)
qed

lemma mb_decode_text:
  assumes "mb_decode f = Some d"
  shows "mb_char f c \<Longrightarrow> d (mb_bytes f c @ s) = (Some c, s)" "d s = (Some c, t) \<Longrightarrow> mb_char f c \<and> s = mb_bytes f c @ t"
    "mb_char f c \<Longrightarrow> mb_bytes f c \<noteq> []"
  using mb_codec [OF assms] by (simp_all add: codec_nonempty_def codec_nonempty_axioms_def codec_def)

text \<open>The conversion writes the text in the other format.\<close>

lemma mb_convert_appender:
  assumes "mb_decode f = Some d" "list_all (mb_char f) cs" "mb_decode g \<noteq> None" "list_all (mb_char g) cs"
  shows "appender (\<lambda>env. and_then (mb_convert f g (mb_text f cs) env) (\<lambda>_. CBB_add_u8 env 0 0)) 0 (mb_text g cs @ [0])"
  using assms(2,4)
proof (induction cs)
  case Nil
  then show ?case using add_u8.appender_axioms [of 0 0] by (subst mb_convert.simps) (simp add: CBS_len_def)
next
  case (Cons c cs)
  have "mb_convert f g (mb_text f (c # cs)) env = and_then (mb_encode g env 0 c) (\<lambda>_. mb_convert f g (mb_text f cs) env)"
    for env using mb_decode_text [OF assms(1)] Cons.prems assms(1)
    by (subst mb_convert.simps) (simp add: CBS_len_def)
  then show ?case
    using appender_seq [OF mb_encode_appender [OF _ assms(3)] Cons.IH] Cons.prems by (simp add: and_then_assoc)
qed

section \<open>The scan\<close>

lemma mb_narrow_bits:
  "bit (mb_narrow m c) n \<longleftrightarrow> bit m n \<and> (n = 1 \<longrightarrow> asn1_is_printable c) \<and> (n = 4 \<longrightarrow> c \<le> 127) \<and>
     (n = 2 \<longrightarrow> c \<le> 0xff) \<and> (n = 11 \<longrightarrow> c \<le> 0xffff)"
proof -
  have clear: "bit (mb_clear b bad w) n \<longleftrightarrow> bit w n \<and> (bit b n \<longrightarrow> \<not> bad)" for w b :: u64 and bad
  proof (cases "w AND b = 0")
    case True
    then have "\<not> (bit w n \<and> bit b n)" by (metis bit_and_iff bit_0_eq bot_apply bot_bool_def)
    then show ?thesis using True by (auto simp: mb_clear_def)
  next
    case False
    then show ?thesis using bit_imp_le_length [of w n] by (auto simp: mb_clear_def bit_and_iff bit_not_iff)
  qed
  have power: "bit (2 ^ k :: u64) n \<longleftrightarrow> n = k" if "k < 64" for k
    using that by (auto simp: bit_exp_iff possible_bit_word)
  have bits: "bit B_ASN1_PRINTABLESTRING n \<longleftrightarrow> n = 1" "bit B_ASN1_IA5STRING n \<longleftrightarrow> n = 4"
    "bit B_ASN1_T61STRING n \<longleftrightarrow> n = 2" "bit B_ASN1_BMPSTRING n \<longleftrightarrow> n = 11"
    unfolding B_ASN1_PRINTABLESTRING_def B_ASN1_IA5STRING_def B_ASN1_T61STRING_def B_ASN1_BMPSTRING_def
    using power [of 1] power [of 4] power [of 2] power [of 11] by simp_all
  show ?thesis
    unfolding mb_narrow_def clear bits by auto
qed

lemma mb_narrow_0: "mb_narrow 0 c = 0"
  by (simp add: mb_narrow_def mb_clear_def)

lemma mb_narrow_fold:
  "bit (foldl mb_narrow m cs) n \<longleftrightarrow> bit m n \<and> (n = 1 \<longrightarrow> list_all asn1_is_printable cs) \<and>
     (n = 4 \<longrightarrow> list_all (\<lambda>c. c \<le> 127) cs) \<and> (n = 2 \<longrightarrow> list_all (\<lambda>c. c \<le> 0xff) cs) \<and>
     (n = 11 \<longrightarrow> list_all (\<lambda>c. c \<le> 0xffff) cs)"
  by (induction cs arbitrary: m) (auto simp: mb_narrow_bits)

lemma mb_narrow_fold_0: "foldl mb_narrow 0 cs = 0"
  by (induction cs) (simp_all add: mb_narrow_0)

text \<open>A text that starts with a byte-order mark.\<close>

definition has_bom :: "int \<Rightarrow> u32 list \<Rightarrow> bool" where
  "has_bom f cs \<longleftrightarrow> (f = MBSTRING_BMP \<or> f = MBSTRING_UNIV) \<and> cs \<noteq> [] \<and> hd cs = 0xfeff"

lemma mb_scan_sound:
  "mb_scan f maxsize s m k n = Some r \<Longrightarrow> \<exists>cs. list_all (mb_char f) cs \<and> s = mb_text f cs"
proof (induction "length s" arbitrary: s m k n rule: less_induct)
  case less
  show ?case
  proof (cases "s = []")
    case True
    then show ?thesis by (intro exI [of _ "[]"]) simp
  next
    case False
    with less.prems obtain d c t where d: "mb_decode f = Some d" "d s = (Some c, t)"
      and r: "mb_scan f maxsize t (mb_narrow m c) (size_add k (CBB_get_utf8_len c)) (Suc n) = Some r"
      by (subst (asm) mb_scan.simps)
        (auto simp: CBS_len_def Let_def split: option.splits prod.splits if_splits)
    from less.hyps [OF mb_decode_shortens [OF d] r] obtain cs where "list_all (mb_char f) cs" "t = mb_text f cs"
      by blast
    then show ?thesis using mb_decode_text(2) [OF d] by (metis list.pred_inject(2) mb_text_simps(2))
  qed
qed

lemma mb_scan_text:
  assumes "mb_decode f = Some d" "list_all (mb_char f) cs"
  shows "mb_scan f maxsize (mb_text f cs) m k n =
    (if (n = 0 \<and> has_bom f cs) \<or> (cs \<noteq> [] \<and> foldl mb_narrow m cs = 0) \<or> (cs \<noteq> [] \<and> maxsize > 0 \<and> int (n + length cs) > maxsize)
     then None
     else Some (foldl mb_narrow m cs, foldl (\<lambda>k c. size_add k (CBB_get_utf8_len c)) k cs, n + length cs))"
  using assms(2)
proof (induction cs arbitrary: m k n)
  case Nil
  then show ?case by (subst mb_scan.simps) (simp add: CBS_len_def has_bom_def)
next
  case (Cons c cs)
  show ?case
    using mb_decode_text [OF assms(1)] Cons assms(1) mb_narrow_fold_0
    by (subst mb_scan.simps) (auto simp: CBS_len_def has_bom_def Let_def)
qed

section \<open>The smallest type\<close>

text \<open>The types in the order of preference, each with its bit in the mask.\<close>

definition type_order :: "(int \<times> nat) list" where
  "type_order = [(19, 1), (22, 4), (20, 2), (30, 11), (28, 8), (12, 13)]"

definition type_holds :: "int \<Rightarrow> u32 list \<Rightarrow> bool" where
  "type_holds ty cs \<longleftrightarrow>
     (if ty = 19 then list_all asn1_is_printable cs
      else if ty = 22 then list_all (\<lambda>c. c \<le> 127) cs
      else if ty = 20 then list_all (\<lambda>c. c \<le> 0xff) cs
      else if ty = 30 then list_all (\<lambda>c. c \<le> 0xffff) cs
      else True)"

definition type_form :: "int \<Rightarrow> int" where
  "type_form ty = (if ty = 30 then MBSTRING_BMP else if ty = 28 then MBSTRING_UNIV
     else if ty = 12 then MBSTRING_UTF8 else MBSTRING_ASC)"

definition smallest_type :: "u64 \<Rightarrow> u32 list \<Rightarrow> int option" where
  "smallest_type m cs = map_option fst (find (\<lambda>(ty, k). bit m k \<and> type_holds ty cs) type_order)"

lemma mb_choose_eq:
  "map_option (\<lambda>(ty, f, e). (ty, f)) (mb_choose (foldl mb_narrow m cs) k n) =
     map_option (\<lambda>ty. (ty, type_form ty)) (smallest_type m cs)"
proof -
  have test: "w AND 2 ^ j \<noteq> 0 \<longleftrightarrow> bit w j" for w :: u64 and j
    using and_exp_eq_0 [of w j] by blast
  have flags: "B_ASN1_PRINTABLESTRING = 2 ^ 1" "B_ASN1_IA5STRING = 2 ^ 4" "B_ASN1_T61STRING = 2 ^ 2"
    "B_ASN1_BMPSTRING = 2 ^ 11" "B_ASN1_UNIVERSALSTRING = 2 ^ 8" "B_ASN1_UTF8STRING = 2 ^ 13"
    by (simp_all add: B_ASN1_PRINTABLESTRING_def B_ASN1_IA5STRING_def B_ASN1_T61STRING_def B_ASN1_BMPSTRING_def
        B_ASN1_UNIVERSALSTRING_def B_ASN1_UTF8STRING_def)
  show ?thesis
    unfolding mb_choose_def flags test mb_narrow_fold
    by (simp add: smallest_type_def type_order_def type_holds_def type_form_def)
qed

lemma printable_ascii: "asn1_is_printable c \<Longrightarrow> c \<le> 127"
  by (simp add: asn1_is_printable_def not_less [symmetric] split: if_splits)

lemma smallest_type_form:
  assumes "smallest_type m cs = Some ty" "list_all (mb_char f) cs"
  shows "list_all (mb_char (type_form ty)) cs" "mb_decode (type_form ty) \<noteq> None"
proof -
  obtain k where k: "(ty, k) \<in> set type_order" "type_holds ty cs"
    using assms(1) unfolding smallest_type_def
    by (auto dest!: find_Some_iff [THEN iffD1] simp: in_set_conv_nth split: prod.splits) (metis fst_conv snd_conv)
  have le: "c \<le> 127 \<Longrightarrow> c \<le> 0xff" for c :: u32 by (simp add: word_le_nat_alt)
  have v: "\<forall>c \<in> set cs. is_valid_code_point c" using assms(2) mb_char_valid by (auto simp: list_all_iff)
  show "list_all (mb_char (type_form ty)) cs"
    using k v
    by (auto simp: type_order_def type_holds_def type_form_def mb_char_def mb_formats list_all_iff le printable_ascii)
  show "mb_decode (type_form ty) \<noteq> None"
    by (simp add: type_form_def mb_decode_def mb_formats)
qed

section \<open>Properties\<close>

lemma str_bytes_type [simp]: "str_bytes (r\<lparr>str_type := t\<rparr>) = str_bytes r"
  by (cases "str_data r") (simp_all add: str_bytes_def)

lemma set_bytes:
  assumes "ASN1_STRING_set env d (Some inp) len = Some r" "0 \<le> len"
  shows "str_bytes r = take (nat len) inp"
  using assms by (auto simp: ASN1_STRING_set_def Let_def str_bytes_def split: if_splits)

lemma set_succeeds:
  "0 \<le> len \<Longrightarrow> nat len \<le> ASN1_STRING_MAX \<Longrightarrow> alloc_ok env (size_add (nat len) 1) \<Longrightarrow>
   \<exists>r. ASN1_STRING_set env d (Some inp) len = Some r"
  unfolding ASN1_STRING_set_def Let_def by simp

lemma ncopy_smallest_type:
  assumes "ASN1_mbstring_ncopy env (Some dest) inp len inform types minsize maxsize = Some (ty, s)" "- 1 \<le> len"
  shows "\<exists>cs r. s = Some r \<and> str_type r = ty \<and>
    take (if len = - 1 then strlen inp else nat len) inp = mb_text inform cs \<and> list_all (mb_char inform) cs \<and>
    \<not> has_bom inform cs \<and> (minsize > 0 \<longrightarrow> minsize \<le> int (length cs)) \<and> (maxsize > 0 \<longrightarrow> int (length cs) \<le> maxsize) \<and>
    smallest_type (if types = 0 then DIRSTRING_TYPE else types) cs = Some ty \<and>
    list_all (mb_char (type_form ty)) cs \<and> str_bytes r = mb_text (type_form ty) cs"
proof -
  define l where "l = (if len = - 1 then int (strlen inp) else len)"
  define m where "m = (if types = 0 then DIRSTRING_TYPE else types)"
  have l: "0 \<le> l" "nat l = (if len = - 1 then strlen inp else nat len)"
    using assms(2) by (auto simp: l_def)
  note unf = assms(1) [unfolded ASN1_mbstring_ncopy_def Let_def, folded l_def m_def, unfolded CBS_init_def]
  obtain d where d: "mb_decode inform = Some d" using unf by (cases "mb_decode inform") auto
  obtain m' k n where scan: "mb_scan inform maxsize (take (nat l) inp) m 0 0 = Some (m', k, n)"
    using unf d by (auto split: option.splits)
  from mb_scan_sound [OF scan] obtain cs where cs: "list_all (mb_char inform) cs" "take (nat l) inp = mb_text inform cs"
    by blast
  note r = scan [unfolded cs(2) mb_scan_text [OF d cs(1)]]
  then have m': "m' = foldl mb_narrow m cs" "n = length cs" "\<not> has_bom inform cs"
      "maxsize > 0 \<longrightarrow> int (length cs) \<le> maxsize"
    by (auto split: if_splits)
  obtain f e where ch: "mb_choose m' k n = Some (ty, f, e)"
    using unf d scan by (auto split: option.splits if_splits)
  have ty: "smallest_type m cs = Some ty" "f = type_form ty"
    using mb_choose_eq [of m cs k n] ch m'(1) by (cases "smallest_type m cs"; simp)+
  note form = smallest_type_form [OF ty(1) cs(1)]
  have min: "minsize > 0 \<longrightarrow> minsize \<le> int (length cs)"
    using unf d scan m'(2) by (auto split: if_splits)
  have "\<exists>r. s = Some r \<and> str_type r = ty \<and> str_bytes r = mb_text (type_form ty) cs"
  proof (cases "inform = f")
    case True
    then obtain d' r where "ASN1_STRING_set env d' (Some inp) l = Some r" "s = Some (r\<lparr>str_type := ty\<rparr>)"
      using unf d scan ch by (auto split: option.splits if_splits)
    then show ?thesis using set_bytes [OF _ l(1)] cs(2) True ty(2) by auto
  next
    case False
    then obtain d' data where data: "build env (size_add e 1)
        (\<lambda>env. and_then (mb_convert inform f (take (nat l) inp) env) (\<lambda>_. CBB_add_u8 env 0 0)) = Some data"
      "s = Some (ASN1_STRING_set0 (d'\<lparr>str_type := ty\<rparr>) (Some data) (int (length data) - 1))"
      using unf d scan ch by (auto split: option.splits if_splits)
    have "size_add e 1 \<le> SIZE_MAX" by (simp add: size_add_def SIZE_MAX_def less_Suc_eq_le [symmetric])
    from build_exact(1) [OF mb_convert_appender [OF d cs(1) form(2) form(1)] this, of env] data(1)
    have "data = mb_text f cs @ [0]" by (simp add: cs(2) ty(2))
    then show ?thesis using data(2) ty(2) by (simp add: ASN1_STRING_set0_def str_bytes_def)
  qed
  then obtain r where "s = Some r" "str_type r = ty" "str_bytes r = mb_text (type_form ty) cs" by blast
  then show ?thesis
    unfolding l(2) [symmetric] m_def [symmetric] using cs m'(3,4) ty(1) form(1) min
    by (intro exI [of _ cs] exI [of _ r]) simp
qed

text \<open>C28: The result of \<open>ASN1_mbstring_ncopy\<close> holds the characters of its input, as many as allowed, in the
  format of the smallest type of the mask that can hold them all, and that type is what it returns.\<close>

theorem mbstring_ncopy_exact:
  assumes "ASN1_mbstring_ncopy env (Some dest) inp len inform types minsize maxsize = Some (ty, s)" "- 1 \<le> len"
  shows "\<exists>cs r. s = Some r \<and> str_type r = ty \<and>
    take (if len = - 1 then strlen inp else nat len) inp = mb_text inform cs \<and> list_all (mb_char inform) cs \<and>
    \<not> has_bom inform cs \<and> (minsize > 0 \<longrightarrow> minsize \<le> int (length cs)) \<and> (maxsize > 0 \<longrightarrow> int (length cs) \<le> maxsize) \<and>
    smallest_type (if types = 0 then DIRSTRING_TYPE else types) cs = Some ty \<and>
    list_all (mb_char (type_form ty)) cs \<and> str_bytes r = mb_text (type_form ty) cs"
  using assms by (rule ncopy_smallest_type)

text \<open>A word with a letter of Latin-1 outside ASCII becomes a T61String, the smallest type of a
  DirectoryString that holds it.\<close>

theorem mbstring_ncopy_exact_witness:
  "\<exists>cs. [0x4B, 0xE9] = mb_text MBSTRING_ASC cs \<and> smallest_type DIRSTRING_TYPE cs = Some 20"
proof -
  let ?e = "\<lparr>alloc_ok = \<lambda>_. True, uninit = \<lambda>_. 0\<rparr>"
  let ?d = "\<lparr>str_length = 0, str_type = 12, str_data = None, str_flags = 0\<rparr>"
  have t: "mb_text MBSTRING_ASC [0x4B, 0xE9] = [0x4B, 0xE9]" "list_all (mb_char MBSTRING_ASC) [0x4B, 0xE9]"
    "foldl mb_narrow DIRSTRING_TYPE [0x4B, 0xE9] = 0x2804" "\<not> has_bom MBSTRING_ASC [0x4B, 0xE9]"
    "DIRSTRING_TYPE \<noteq> 0" by code_simp+
  have d: "mb_decode MBSTRING_ASC = Some CBS_get_latin1" by (simp add: mb_decode_def mb_formats)
  have scan: "\<exists>k. mb_scan MBSTRING_ASC 0 [0x4B, 0xE9] DIRSTRING_TYPE 0 0 = Some (0x2804, k, 2)"
    using mb_scan_text [OF d t(2), of 0 DIRSTRING_TYPE 0 0] t by simp
  have choose: "\<exists>e. mb_choose 0x2804 k n = Some (20, MBSTRING_ASC, e)" for k n
    by (simp add: mb_choose_def B_ASN1_PRINTABLESTRING_def B_ASN1_IA5STRING_def B_ASN1_T61STRING_def)
  obtain r where "ASN1_STRING_set ?e ?d (Some [0x4B, 0xE9]) 2 = Some r"
    using set_succeeds [of 2 ?e ?d "[0x4B, 0xE9]"] by (auto simp: ASN1_STRING_MAX_def)
  moreover obtain k where "mb_scan MBSTRING_ASC 0 [0x4B, 0xE9] DIRSTRING_TYPE 0 0 = Some (0x2804, k, 2)"
    using scan by blast
  moreover obtain e where "mb_choose 0x2804 k 2 = Some (20, MBSTRING_ASC, e)" using choose by blast
  ultimately have "\<exists>r. ASN1_mbstring_ncopy ?e (Some (Some ?d)) [0x4B, 0xE9] 2 MBSTRING_ASC 0 0 0 = Some (20, Some r)"
    using d by (simp add: ASN1_mbstring_ncopy_def Let_def CBS_init_def)
  then obtain r where run: "ASN1_mbstring_ncopy ?e (Some (Some ?d)) [0x4B, 0xE9] 2 MBSTRING_ASC 0 0 0 = Some (20, Some r)"
    by blast
  from mbstring_ncopy_exact [OF run] show ?thesis by auto
qed

section \<open>UTF-8\<close>

lemma utf8_bytes_length: "length (utf8_bytes c) \<le> 4"
  by (simp add: utf8_bytes_def numeral_2_eq_2 numeral_3_eq_3)

lemma mb_text_utf8_length: "length (mb_text MBSTRING_UTF8 cs) \<le> 4 * length cs"
proof (induction cs)
  case (Cons c cs)
  then show ?case using utf8_bytes_length [of c] by (simp add: mb_bytes_def mb_formats)
qed simp

lemma mb_text_length:
  assumes "mb_decode f = Some d" "list_all (mb_char f) cs"
  shows "length cs \<le> length (mb_text f cs)"
  using assms(2)
proof (induction cs)
  case (Cons c cs)
  then have "mb_bytes f c \<noteq> []" using mb_decode_text(3) [OF assms(1)] by simp
  then have "1 \<le> length (mb_bytes f c)" by (cases "mb_bytes f c") auto
  then show ?case using Cons by simp
qed simp

lemma utf8_mask:
  "smallest_type B_ASN1_UTF8STRING cs = Some 12" "foldl mb_narrow B_ASN1_UTF8STRING cs = B_ASN1_UTF8STRING"
proof -
  have b: "bit B_ASN1_UTF8STRING n \<longleftrightarrow> n = 13" for n
    using bit_exp_iff [of 13 n, where 'a = "64 word"] by (auto simp: B_ASN1_UTF8STRING_def possible_bit_word)
  show "smallest_type B_ASN1_UTF8STRING cs = Some 12"
    by (simp add: smallest_type_def type_order_def b type_holds_def)
  show "foldl mb_narrow B_ASN1_UTF8STRING cs = B_ASN1_UTF8STRING"
    by (rule bit_word_eqI) (auto simp: mb_narrow_fold b)
qed

lemma to_utf8_iff:
  assumes "\<forall>n \<le> SIZE_MAX. alloc_ok env n" "0 \<le> str_length s" "str_length s \<le> int ASN1_STRING_MAX"
  shows "ASN1_STRING_to_UTF8 env (Some s) = Some u \<longleftrightarrow>
    (let f = string_type_to_encoding (str_type s)
     in f \<noteq> - 1 \<and> (\<exists>cs. list_all (mb_char f) cs \<and> str_bytes s = mb_text f cs \<and> \<not> has_bom f cs \<and>
          u = mb_text MBSTRING_UTF8 cs))"
proof -
  define f where "f = string_type_to_encoding (str_type s)"
  define e where "e = \<lparr>str_length = 0, str_type = 0, str_data = None, str_flags = 0\<rparr>"
  have t: "take (nat (str_length s)) (str_bytes s) = str_bytes s"
    by (simp add: str_bytes_def split: option.split)
  have len: "str_length s \<noteq> - 1" using assms(2) by simp
  have to: "ASN1_STRING_to_UTF8 env (Some s) =
      (if f = - 1 then None
       else case ASN1_mbstring_ncopy env (Some (Some e)) (str_bytes s) (str_length s) f B_ASN1_UTF8STRING 0 0 of
         Some (_, Some r) \<Rightarrow> Some (str_bytes r) | _ \<Rightarrow> None)"
    by (simp add: ASN1_STRING_to_UTF8_def ASN1_mbstring_copy_def Let_def f_def e_def split: option.split)
  have f: "f = - 1 \<or> mb_decode f \<noteq> None"
    by (auto simp: f_def string_type_to_encoding_def mb_decode_def mb_formats)
  have B: "B_ASN1_UTF8STRING \<noteq> 0" by (simp add: B_ASN1_UTF8STRING_def)
  show ?thesis unfolding f_def [symmetric] Let_def
  proof
    assume u: "ASN1_STRING_to_UTF8 env (Some s) = Some u"
    then obtain ty r where r: "f \<noteq> - 1"
      "ASN1_mbstring_ncopy env (Some (Some e)) (str_bytes s) (str_length s) f B_ASN1_UTF8STRING 0 0 = Some (ty, Some r)"
      "u = str_bytes r"
      unfolding to by (auto split: if_splits option.splits)
    from ncopy_smallest_type [OF r(2)] obtain cs where "list_all (mb_char f) cs" "str_bytes s = mb_text f cs"
      "\<not> has_bom f cs" "smallest_type B_ASN1_UTF8STRING cs = Some ty" "str_bytes r = mb_text (type_form ty) cs"
      using assms(2) len B t by auto
    then show "f \<noteq> - 1 \<and> (\<exists>cs. list_all (mb_char f) cs \<and> str_bytes s = mb_text f cs \<and> \<not> has_bom f cs \<and>
        u = mb_text MBSTRING_UTF8 cs)"
      using r(1,3) by (auto simp: utf8_mask type_form_def)
  next
    assume "f \<noteq> - 1 \<and> (\<exists>cs. list_all (mb_char f) cs \<and> str_bytes s = mb_text f cs \<and> \<not> has_bom f cs \<and>
        u = mb_text MBSTRING_UTF8 cs)"
    then obtain cs d where cs: "f \<noteq> - 1" "mb_decode f = Some d" "list_all (mb_char f) cs" "str_bytes s = mb_text f cs"
      "\<not> has_bom f cs" "u = mb_text MBSTRING_UTF8 cs" using f by auto
    obtain k where scan: "mb_scan f 0 (str_bytes s) B_ASN1_UTF8STRING 0 0 = Some (B_ASN1_UTF8STRING, k, length cs)"
      using mb_scan_text [OF cs(2,3), of 0 B_ASN1_UTF8STRING 0 0] cs(5) B by (simp add: cs(4) utf8_mask)
    have ch: "mb_choose B_ASN1_UTF8STRING k (length cs) = Some (12, MBSTRING_UTF8, k)"
      using and_exp_eq_0 by (simp add: mb_choose_def B_ASN1_UTF8STRING_def B_ASN1_PRINTABLESTRING_def
        B_ASN1_IA5STRING_def B_ASN1_T61STRING_def B_ASN1_BMPSTRING_def B_ASN1_UNIVERSALSTRING_def)
    have small: "length cs \<le> ASN1_STRING_MAX"
    proof -
      have "length (str_bytes s) \<le> nat (str_length s)" by (simp add: str_bytes_def split: option.split)
      then show ?thesis using mb_text_length [OF cs(2,3)] assms(3) cs(4) by simp
    qed
    have "\<exists>r. ASN1_mbstring_ncopy env (Some (Some e)) (str_bytes s) (str_length s) f B_ASN1_UTF8STRING 0 0 = Some (12, Some r)
        \<and> str_bytes r = u"
    proof (cases "f = MBSTRING_UTF8")
      case True
      have "alloc_ok env (size_add (nat (str_length s)) 1)"
        using assms(1) by (simp add: size_add_def SIZE_MAX_def less_Suc_eq_le [symmetric])
      then obtain r where r: "ASN1_STRING_set env e (Some (str_bytes s)) (str_length s) = Some r"
        using set_succeeds assms(2,3) by fastforce
      then have "str_bytes r = u" using set_bytes [OF r assms(2)] t cs(4,6) True by simp
      then show ?thesis using True len B cs(2) scan ch r t
        by (simp add: ASN1_mbstring_ncopy_def Let_def CBS_init_def)
    next
      case False
      have g: "mb_decode MBSTRING_UTF8 \<noteq> None" "list_all (mb_char MBSTRING_UTF8) cs"
        using cs(3) mb_char_valid by (auto simp: mb_decode_def mb_formats mb_char_def list_all_iff)
      have n: "size_add k 1 \<le> SIZE_MAX" by (simp add: size_add_def SIZE_MAX_def less_Suc_eq_le [symmetric])
      have l: "length (u @ [0]) \<le> INT_MAX"
        using mb_text_utf8_length [of cs] small by (simp add: cs(6) INT_MAX_def ASN1_STRING_MAX_def)
      then have "length (mb_text MBSTRING_UTF8 cs @ [0]) \<le> SIZE_MAX" by (simp add: cs(6) INT_MAX_def SIZE_MAX_def)
      from build_exact(2) [OF mb_convert_appender [OF cs(2,3) g] n assms(1) this]
      have "build env (size_add k 1) (\<lambda>env. and_then (mb_convert f MBSTRING_UTF8 (str_bytes s) env) (\<lambda>_. CBB_add_u8 env 0 0))
          = Some (u @ [0])" by (simp add: cs(4,6))
      then show ?thesis using False len B cs(2) scan ch l t
        by (simp add: ASN1_mbstring_ncopy_def Let_def CBS_init_def ASN1_STRING_set0_def str_bytes_def)
    qed
    then show "ASN1_STRING_to_UTF8 env (Some s) = Some u" unfolding to using cs(1) by auto
  qed
qed

text \<open>The texts that the contents of a string can be, by the number of its type in X.680: UTF8String; the
  types with one octet for each character, of which the code takes all octets; UniversalString; BMPString.\<close>

definition string_text :: "int \<Rightarrow> bytes \<Rightarrow> u32 list \<Rightarrow> bool" where
  "string_text ty s cs \<longleftrightarrow>
     (ty = 12 \<and> list_all (\<lambda>c. character (unat c)) cs \<and> s = concat (map utf8_bytes cs)) \<or>
     (ty \<in> {18, 19, 20, 22, 23, 24, 26} \<and> list_all (\<lambda>c. c \<le> 0xff) cs \<and> s = map ucast cs) \<or>
     (ty = 28 \<and> list_all (\<lambda>c. character (unat c)) cs \<and> (\<forall>ds. cs \<noteq> 0xfeff # ds) \<and>
        s = concat (map (\<lambda>c. be_bytes 4 (ucast c)) cs)) \<or>
     (ty = 30 \<and> list_all (\<lambda>c. character (unat c) \<and> c \<le> 0xffff) cs \<and> (\<forall>ds. cs \<noteq> 0xfeff # ds) \<and>
        s = concat (map (\<lambda>c. be_bytes 2 (ucast c)) cs))"

lemma string_text_iff:
  "string_text ty s cs \<longleftrightarrow>
    (let f = string_type_to_encoding ty
     in f \<noteq> - 1 \<and> list_all (mb_char f) cs \<and> s = mb_text f cs \<and> \<not> has_bom f cs)"
proof -
  have bom: "(\<forall>ds. cs \<noteq> 0xfeff # ds) \<longleftrightarrow> \<not> (cs \<noteq> [] \<and> hd cs = 0xfeff)" by (cases cs) auto
  consider "ty = 12" | "ty \<in> {18, 19, 20, 22, 23, 24, 26}" | "ty = 28" | "ty = 30"
    | "ty \<notin> {12, 18, 19, 20, 22, 23, 24, 26, 28, 30}" by blast
  then show ?thesis
  proof cases
    case 2
    moreover have "concat (map (\<lambda>c. [ucast c]) cs) = map ucast cs" by (induction cs) simp_all
    ultimately show ?thesis
      by (auto simp: string_text_def string_type_to_encoding_def Let_def mb_char_def [abs_def] mb_text_def mb_bytes_def [abs_def]
          has_bom_def mb_formats valid_code_point_iff)
  qed (auto simp: string_text_def string_type_to_encoding_def Let_def mb_char_def [abs_def] mb_text_def mb_bytes_def [abs_def]
      has_bom_def mb_formats bom valid_code_point_iff)
qed

text \<open>C29: When memory can be had, \<open>ASN1_STRING_to_UTF8\<close> succeeds exactly on the strings of a character type
  whose contents are a text in the format that this type has (UTF-8, one octet for each character, two or
  four octets with the high one first and no byte-order mark), and gives the same characters in UTF-8.\<close>

theorem to_utf8_exact:
  assumes "\<forall>n \<le> SIZE_MAX. alloc_ok env n" "0 \<le> str_length s" "str_length s \<le> int ASN1_STRING_MAX"
  shows "ASN1_STRING_to_UTF8 env (Some s) = Some u \<longleftrightarrow>
    (\<exists>cs. string_text (str_type s) (str_bytes s) cs \<and> u = concat (map utf8_bytes cs))"
proof -
  have "mb_text MBSTRING_UTF8 cs = concat (map utf8_bytes cs)" for cs
    by (simp add: mb_text_def mb_bytes_def [abs_def] mb_formats)
  then show ?thesis unfolding to_utf8_iff [OF assms] string_text_iff Let_def by auto
qed

theorem to_utf8_exact_witness:
  "ASN1_STRING_to_UTF8 \<lparr>alloc_ok = \<lambda>_. True, uninit = \<lambda>_. 0\<rparr>
     (Some \<lparr>str_length = 2, str_type = 30, str_data = Some [0x20, 0xAC], str_flags = 0\<rparr>) = Some [0xE2, 0x82, 0xAC]"
proof -
  let ?s = "\<lparr>str_length = 2, str_type = 30, str_data = Some [0x20, 0xAC], str_flags = 0\<rparr>"
  have t: "str_bytes ?s = concat (map (\<lambda>c. be_bytes 2 (ucast c)) [0x20AC :: u32])" "(0x20AC :: u32) \<le> 0xffff"
    "[0xE2, 0x82, 0xAC] = concat (map utf8_bytes [0x20AC])" by code_simp+
  have "character (unat (0x20AC :: u32))" by (simp add: character_def)
  then have "string_text 30 (str_bytes ?s) [0x20AC]" using t(1,2) by (simp add: string_text_def)
  with t(3) to_utf8_exact [of "\<lparr>alloc_ok = \<lambda>_. True, uninit = \<lambda>_. 0\<rparr>" ?s "[0xE2, 0x82, 0xAC]"]
  show ?thesis by (auto simp: ASN1_STRING_MAX_def)
qed

end
