(* ===== verification/Name_Constraints.thy ===== *)
theory Name_Constraints
  imports Host_Match Asn1_String
begin

text \<open>
  Name constraints of \<open>crypto/x509/v3_ncons.c\<close>: whether the name of a host, a mailbox or a URI lies in the
  subtree of names that a certificate authority is limited to. The results are the codes of
  \<open>include/openssl/x509.h\<close>. The function \<open>equal_case\<close> of that file is \<open>nc_equal_case\<close> here, since
  \<open>v3_utl.c\<close> has another function of this name.
\<close>

section \<open>Definitions\<close>

definition X509_V_OK :: int where "X509_V_OK = 0"
definition X509_V_ERR_PERMITTED_VIOLATION :: int where "X509_V_ERR_PERMITTED_VIOLATION = 47"
definition X509_V_ERR_UNSUPPORTED_NAME_SYNTAX :: int where "X509_V_ERR_UNSUPPORTED_NAME_SYNTAX = 53"

definition starts_with :: "cbs \<Rightarrow> u8 \<Rightarrow> bool" where
  "starts_with cbs c \<longleftrightarrow> CBS_len cbs > 0 \<and> CBS_data cbs ! 0 = c"

fun nc_equal_loop :: "bytes \<Rightarrow> bytes \<Rightarrow> bool" where
  "nc_equal_loop (a # a_data) (b # b_data) =
     (if OPENSSL_tolower (uint a) \<noteq> OPENSSL_tolower (uint b) then False else nc_equal_loop a_data b_data)"
| "nc_equal_loop _ _ = True"

definition nc_equal_case :: "cbs \<Rightarrow> cbs \<Rightarrow> bool" where
  "nc_equal_case a b =
     (if CBS_len a \<noteq> CBS_len b then False else nc_equal_loop (CBS_data a) (CBS_data b))"

definition has_suffix_case :: "cbs \<Rightarrow> cbs \<Rightarrow> bool" where
  "has_suffix_case a b =
     (if CBS_len a < CBS_len b then False
      else nc_equal_case (snd (CBS_skip (CBS_len a - CBS_len b) a)) b)"

definition in_subtree :: "bool \<Rightarrow> int" where
  "in_subtree ok = (if ok then X509_V_OK else X509_V_ERR_PERMITTED_VIOLATION)"

text \<open>The name without the labels in front of the last \<open>n\<close> bytes, which a dot has to precede.\<close>

definition skip_to_dot :: "nat \<Rightarrow> (cbs, unit) action" where
  "skip_to_dot n dns =
     (if CBS_len dns > n
      then and_then (CBS_skip (CBS_len dns - n - 1)) (\<lambda>_.
           and_then CBS_get_u8 (\<lambda>dot. if dot \<noteq> c_dot then fail else ret ())) dns
      else ret () dns)"

definition nc_dns :: "asn1_string \<Rightarrow> asn1_string \<Rightarrow> int" where
  "nc_dns dns base =
     (let dns_cbs = str_bytes dns; base_cbs = str_bytes base
      in if CBS_len base_cbs = 0 then X509_V_OK
         else if starts_with base_cbs c_dot then in_subtree (has_suffix_case dns_cbs base_cbs)
         else case skip_to_dot (CBS_len base_cbs) dns_cbs of
           (None, _) \<Rightarrow> X509_V_ERR_PERMITTED_VIOLATION
         | (Some _, dns_cbs) \<Rightarrow> in_subtree (nc_equal_case dns_cbs base_cbs))"

definition nc_email :: "asn1_string \<Rightarrow> asn1_string \<Rightarrow> int" where
  "nc_email eml base =
     (case CBS_get_until_first c_at (str_bytes eml) of
        (None, _) \<Rightarrow> X509_V_ERR_UNSUPPORTED_NAME_SYNTAX
      | (Some eml_local, eml_cbs) \<Rightarrow>
          case CBS_get_until_first c_at (str_bytes base) of (base_local, base_cbs) \<Rightarrow>
          if base_local = None \<and> starts_with base_cbs c_dot then in_subtree (has_suffix_case eml_cbs base_cbs)
          else if (case base_local of None \<Rightarrow> False
                   | Some base_local \<Rightarrow> CBS_len base_local > 0 \<and> \<not> CBS_mem_equal base_local (CBS_data eml_local))
          then X509_V_ERR_PERMITTED_VIOLATION
          else
            let base_cbs = if base_local = None then base_cbs else snd (CBS_skip 1 base_cbs)
            in in_subtree (nc_equal_case base_cbs (snd (CBS_skip 1 eml_cbs))))"

text \<open>The scheme and the two slashes after it.\<close>

definition uri_skip_scheme :: "(cbs, unit) action" where
  "uri_skip_scheme =
     and_then (CBS_get_until_first c_colon) (\<lambda>scheme.
     and_then (CBS_skip 1) (\<lambda>_.
     and_then CBS_get_u8 (\<lambda>byte. if byte \<noteq> 0x2F then fail else
     and_then CBS_get_u8 (\<lambda>byte. if byte \<noteq> 0x2F then fail else ret ()))))"

text \<open>What the code takes for the host: up to the first colon, else up to the first slash, else all.\<close>

definition uri_host :: "cbs \<Rightarrow> cbs" where
  "uri_host uri_cbs =
     (case CBS_get_until_first c_colon uri_cbs of
        (Some host, _) \<Rightarrow> host
      | (None, uri_cbs) \<Rightarrow>
          case CBS_get_until_first 0x2F uri_cbs of (Some host, _) \<Rightarrow> host | (None, uri_cbs) \<Rightarrow> uri_cbs)"

definition nc_uri :: "asn1_string \<Rightarrow> asn1_string \<Rightarrow> int" where
  "nc_uri uri base =
     (let base_cbs = str_bytes base
      in case uri_skip_scheme (str_bytes uri) of
           (None, _) \<Rightarrow> X509_V_ERR_UNSUPPORTED_NAME_SYNTAX
         | (Some _, uri_cbs) \<Rightarrow>
             let host = uri_host uri_cbs
             in if CBS_len host = 0 then X509_V_ERR_UNSUPPORTED_NAME_SYNTAX
                else if starts_with base_cbs c_dot then in_subtree (has_suffix_case host base_cbs)
                else in_subtree (nc_equal_case base_cbs host))"

section \<open>Comparisons\<close>

lemma nc_equal_case_eq: "nc_equal_case a b \<longleftrightarrow> lower a = lower b"
proof -
  have "length a = length b \<Longrightarrow> nc_equal_loop a b \<longleftrightarrow> lower a = lower b"
    by (induction a b rule: list_induct2) auto
  then show ?thesis
    by (cases "length a = length b") (auto simp: nc_equal_case_def CBS_len_def CBS_data_def dest: lower_length)
qed

lemma CBS_skip_eq: "CBS_skip n s = (if length s < n then (None, s) else (Some (), drop n s))"
  by (simp add: CBS_skip_def cbs_get_def and_then_def ret_def)

lemma starts_with_iff [simp]: "starts_with s c \<longleftrightarrow> (\<exists>t. s = c # t)"
  by (cases s) (simp_all add: starts_with_def CBS_len_def CBS_data_def)

lemma lower_split:
  "(\<exists>p t. a = p @ t \<and> lower t = lower b \<and> P p) \<longleftrightarrow>
     length b \<le> length a \<and> lower (drop (length a - length b) a) = lower b \<and> P (take (length a - length b) a)"
  (is "?l \<longleftrightarrow> ?r")
proof
  assume ?l
  then obtain p t where "a = p @ t" "lower t = lower b" "P p" by blast
  moreover from this have "length t = length b" by (blast dest: lower_length)
  ultimately show ?r by simp
next
  assume ?r
  then show ?l by (intro exI [of _ "take (length a - length b) a"] exI [of _ "drop (length a - length b) a"]) simp
qed

lemma has_suffix_case_eq: "has_suffix_case a b \<longleftrightarrow> (\<exists>p t. a = p @ t \<and> lower t = lower b)"
  using lower_split [of a b "\<lambda>_. True"]
  by (auto simp: has_suffix_case_def CBS_len_def CBS_skip_eq nc_equal_case_eq)

lemma in_subtree_iff [simp]:
  "in_subtree ok = X509_V_OK \<longleftrightarrow> ok" "in_subtree ok = X509_V_ERR_PERMITTED_VIOLATION \<longleftrightarrow> \<not> ok"
  by (simp_all add: in_subtree_def X509_V_OK_def X509_V_ERR_PERMITTED_VIOLATION_def)

section \<open>Host names\<close>

text \<open>The names below a constraint: the constraint itself, or labels and a dot in front of it, or
  anything in front of a constraint that starts with a dot.\<close>

definition below :: "bytes \<Rightarrow> bytes \<Rightarrow> bool" where
  "below d b \<longleftrightarrow> b = [] \<or>
     (\<exists>p t. d = p @ t \<and> lower t = lower b \<and> (hd b = c_dot \<or> p = [] \<or> List.last p = c_dot))"

lemma skip_to_dot_eq:
  "(\<exists>u t. skip_to_dot (length b) d = (Some u, t) \<and> lower t = lower b) \<longleftrightarrow>
     (\<exists>p t. d = p @ t \<and> lower t = lower b \<and> (p = [] \<or> List.last p = c_dot))"
proof (cases "length d > length b")
  case True
  define k where "k = length d - length b - 1"
  have k: "k < length d" "length d - length b = Suc k" using True by (auto simp: k_def)
  have "skip_to_dot (length b) d = (if d ! k \<noteq> c_dot then (None, drop (Suc k) d) else (Some (), drop (Suc k) d))"
    using True k by (auto simp: skip_to_dot_def CBS_len_def CBS_skip_eq and_then_def CBS_get_u8_def cbs_get_def ret_def
        fail_def k_def [symmetric] Suc_diff_Suc)
  moreover have "List.last (take (Suc k) d) = d ! k" using k(1) by (simp add: take_Suc_conv_app_nth)
  ultimately show ?thesis using True k unfolding lower_split by auto
next
  case False
  then have s: "skip_to_dot (length b) d = (Some (), d)" by (simp add: skip_to_dot_def CBS_len_def ret_def)
  show ?thesis unfolding s lower_split using False lower_length [of d b] by auto
qed

text \<open>A host name satisfies a DNS constraint exactly when it lies below it: the constraint is empty, or
  the name ends in it without regard to case, where a dot or nothing comes before, unless the constraint
  itself starts with a dot. Every other name is a violation.\<close>

lemma nc_dns_exact:
  "nc_dns dns base =
     (if below (str_bytes dns) (str_bytes base) then X509_V_OK else X509_V_ERR_PERMITTED_VIOLATION)"
proof -
  define d b where "d = str_bytes dns" "b = str_bytes base"
  consider "b = []" | b' where "b = c_dot # b'" | "b \<noteq> []" "hd b \<noteq> c_dot" by (cases b) auto
  then have "nc_dns dns base = (if below d b then X509_V_OK else X509_V_ERR_PERMITTED_VIOLATION)"
  proof cases
    case 1
    then show ?thesis by (simp add: nc_dns_def d_b_def [symmetric] CBS_len_def below_def)
  next
    case 2
    then show ?thesis
      by (simp add: nc_dns_def d_b_def [symmetric] CBS_len_def below_def has_suffix_case_eq in_subtree_def)
  next
    case 3
    then have "\<not> starts_with b c_dot" by auto
    then have "nc_dns dns base = X509_V_OK \<longleftrightarrow>
        (\<exists>u t. skip_to_dot (length b) d = (Some u, t) \<and> lower t = lower b)"
      "nc_dns dns base = X509_V_OK \<or> nc_dns dns base = X509_V_ERR_PERMITTED_VIOLATION"
      using 3(1)
      by (auto simp: nc_dns_def d_b_def [symmetric] CBS_len_def nc_equal_case_eq X509_V_OK_def
          X509_V_ERR_PERMITTED_VIOLATION_def in_subtree_def split: prod.split option.split)
    then show ?thesis using 3 unfolding skip_to_dot_eq below_def by auto
  qed
  then show ?thesis by (simp add: d_b_def)
qed

section \<open>Mailboxes\<close>

lemma until_first_at: "CBS_get_until_first c (p @ c # t) = (Some p, c # t)" if "c \<notin> set p"
  using that by (simp add: CBS_get_until_first_eq_Some)

lemma until_first_none: "c \<notin> set s \<Longrightarrow> CBS_get_until_first c s = (None, s)"
proof -
  assume c: "c \<notin> set s"
  have "OPENSSL_memchr s c = None"
  proof (cases "OPENSSL_memchr s c")
    case (Some i)
    then have "i < length s" "s ! i = c" by (simp_all add: memchr_Some)
    with c show ?thesis using nth_mem by metis
  qed
  then show ?thesis by (simp add: CBS_get_until_first_def CBS_data_def)
qed

text \<open>The mailboxes with local part \<open>l\<close> and host \<open>h\<close> below a constraint: it is a mailbox with the same local
  part (or none) and the same host; it starts with a dot and the host ends in it; or it is the host.\<close>

definition mailbox_below :: "bytes \<Rightarrow> bytes \<Rightarrow> bytes \<Rightarrow> bool" where
  "mailbox_below l h b \<longleftrightarrow>
     (if c_at \<in> set b
      then \<exists>bl bh. b = bl @ c_at # bh \<and> c_at \<notin> set bl \<and> (bl = [] \<or> bl = l) \<and> lower bh = lower h
      else if b \<noteq> [] \<and> hd b = c_dot then \<exists>p t. h = p @ t \<and> lower t = lower b
      else lower b = lower h)"

lemma suffix_after_at:
  "has_suffix_case (c_at # h) (c_dot # b) \<longleftrightarrow> (\<exists>p t. h = p @ t \<and> lower t = lower (c_dot # b))"
proof -
  have "lower (c_at # h) \<noteq> lower (c_dot # b)"
    using tolower_at [of c_dot] tolower_at [of c_at] by simp
  then show ?thesis unfolding has_suffix_case_eq by (auto simp: Cons_eq_append_conv)
qed

text \<open>An address, cut at its first at sign, satisfies an e-mail constraint exactly when it lies below it.
  Hosts are compared without regard to case, local parts as bytes; every other address is a violation.\<close>

lemma nc_email_exact:
  assumes "str_bytes eml = l @ c_at # h" "c_at \<notin> set l"
  shows "nc_email eml base =
    (if mailbox_below l h (str_bytes base) then X509_V_OK else X509_V_ERR_PERMITTED_VIOLATION)"
proof -
  define b where "b = str_bytes base"
  have e: "CBS_get_until_first c_at (str_bytes eml) = (Some l, c_at # h)"
    using assms until_first_at by simp
  have "nc_email eml base = in_subtree (mailbox_below l h b)"
  proof (cases "c_at \<in> set b")
    case True
    then obtain bl bh where b: "b = bl @ c_at # bh" "c_at \<notin> set bl" using split_list_first by metis
    have "mailbox_below l h b \<longleftrightarrow> (bl = [] \<or> bl = l) \<and> lower bh = lower h"
    proof
      assume "mailbox_below l h b"
      then obtain bl' bh' where a: "b = bl' @ c_at # bh'" "c_at \<notin> set bl'" "bl' = [] \<or> bl' = l" "lower bh' = lower h"
        unfolding mailbox_below_def if_P [OF True] by blast
      have "(Some bl', c_at # bh') = CBS_get_until_first c_at b" using a(1,2) until_first_at by metis
      also have "\<dots> = (Some bl, c_at # bh)" using b until_first_at by metis
      finally show "(bl = [] \<or> bl = l) \<and> lower bh = lower h" using a(3,4) by simp
    next
      assume "(bl = [] \<or> bl = l) \<and> lower bh = lower h"
      then show "mailbox_below l h b" unfolding mailbox_below_def if_P [OF True] using b by blast
    qed
    moreover have "nc_email eml base =
        (if bl \<noteq> [] \<and> bl \<noteq> l then X509_V_ERR_PERMITTED_VIOLATION else in_subtree (nc_equal_case bh h))"
      unfolding nc_email_def e b_def [symmetric] b(1) until_first_at [OF b(2)]
      by (simp add: CBS_len_def CBS_data_def CBS_mem_equal_iff CBS_skip_eq)
    ultimately show ?thesis by (auto simp: nc_equal_case_eq in_subtree_def)
  next
    case False
    have n: "nc_email eml base = (if starts_with b c_dot then in_subtree (has_suffix_case (c_at # h) b)
        else in_subtree (nc_equal_case b h))"
      unfolding nc_email_def e b_def [symmetric] until_first_none [OF False] by (simp add: CBS_skip_eq)
    show ?thesis
    proof (cases "b \<noteq> [] \<and> hd b = c_dot")
      case True
      then obtain b' where "b = c_dot # b'" by (cases b) auto
      then show ?thesis using False True suffix_after_at [of h b'] by (simp add: n mailbox_below_def)
    next
      case dot: False
      then have "\<not> starts_with b c_dot" by auto
      then have "nc_email eml base = in_subtree (lower b = lower h)" by (simp add: n nc_equal_case_eq del: starts_with_iff)
      then show ?thesis unfolding mailbox_below_def if_not_P [OF False] if_not_P [OF dot] .
    qed
  qed
  then show ?thesis by (simp add: in_subtree_def b_def)
qed

section \<open>URIs\<close>

lemma uri_scheme:
  "c_colon \<notin> set scheme \<Longrightarrow> uri_skip_scheme (scheme @ c_colon # 0x2F # 0x2F # s) = (Some (), s)"
  by (simp add: uri_skip_scheme_def and_then_def until_first_at CBS_skip_eq ret_def)

lemma uri_host_colon: "c_colon \<notin> set h \<Longrightarrow> uri_host (h @ c_colon # s) = h"
  by (simp add: uri_host_def until_first_at)

text \<open>The host as the code sees it: everything up to the first colon, be it in the path.\<close>

lemma uri_host_eq:
  "uri_host s = (if c_colon \<in> set s then takeWhile (\<lambda>c. c \<noteq> c_colon) s else takeWhile (\<lambda>c. c \<noteq> 0x2F) s)"
proof (cases "c_colon \<in> set s")
  case True
  then obtain p t where s: "s = p @ c_colon # t" "c_colon \<notin> set p" using split_list_first by metis
  then have "takeWhile (\<lambda>c. c \<noteq> c_colon) s = p" by (auto simp: takeWhile_append)
  then show ?thesis using True s uri_host_colon by simp
next
  case no: False
  show ?thesis
  proof (cases "0x2F \<in> set s")
    case True
    then obtain p t where s: "s = p @ 0x2F # t" "0x2F \<notin> set p" using split_list_first by metis
    then have "takeWhile (\<lambda>c. c \<noteq> 0x2F) s = p" by (auto simp: takeWhile_append)
    then show ?thesis using no s by (simp add: uri_host_def until_first_none until_first_at)
  next
    case False
    then have t: "takeWhile (\<lambda>c. c \<noteq> 0x2F) s = s" by (intro takeWhile_eq_all_conv [THEN iffD2]) auto
    have "uri_host s = s" using no False by (simp add: uri_host_def until_first_none)
    then show ?thesis by (simp only: t no if_False)
  qed
qed

text \<open>What the constraint says of that host.\<close>

lemma nc_uri_eq:
  assumes "str_bytes uri = scheme @ c_colon # 0x2F # 0x2F # s" "c_colon \<notin> set scheme"
  shows "nc_uri uri base =
    (if uri_host s = [] then X509_V_ERR_UNSUPPORTED_NAME_SYNTAX
     else in_subtree (if starts_with (str_bytes base) c_dot then \<exists>p t. uri_host s = p @ t \<and> lower t = lower (str_bytes base)
       else lower (str_bytes base) = lower (uri_host s)))"
  using uri_scheme [OF assms(2), of s] assms(1)
  by (simp add: nc_uri_def Let_def CBS_len_def has_suffix_case_eq nc_equal_case_eq del: starts_with_iff)

text \<open>C31: A URI constraint that starts with a dot is met by URIs of every host: it is enough that the path
  holds the constraint before a colon, since the code takes all up to the first colon for the host.\<close>

theorem nc_uri_path_taken_for_host:
  assumes "str_bytes uri = scheme @ [c_colon, 0x2F, 0x2F] @ host @ [0x2F] @ path @ str_bytes base @ [c_colon] @ rest"
    "c_colon \<notin> set (scheme @ host @ path @ str_bytes base)" "starts_with (str_bytes base) c_dot"
  shows "nc_uri uri base = X509_V_OK"
proof -
  define h where "h = host @ [0x2F] @ path @ str_bytes base"
  have "str_bytes uri = scheme @ c_colon # 0x2F # 0x2F # h @ c_colon # rest" using assms(1) by (simp add: h_def)
  moreover have "uri_host (h @ c_colon # rest) = h" using assms(2) by (intro uri_host_colon) (simp add: h_def)
  moreover have "h \<noteq> []" by (simp add: h_def)
  moreover have "\<exists>p t. h = p @ t \<and> lower t = lower (str_bytes base)"
    by (intro exI [of _ "host @ [0x2F] @ path"] exI [of _ "str_bytes base"]) (simp add: h_def)
  ultimately show ?thesis using nc_uri_eq [of uri scheme _ base] assms(2,3) by (simp del: starts_with_iff)
qed

text \<open>The URI \<open>s://evil/.ok:\<close> meets the constraint \<open>.ok\<close>.\<close>

theorem nc_uri_path_taken_for_host_witness:
  "nc_uri \<lparr>str_length = 13, str_type = 22,
       str_data = Some [0x73, c_colon, 0x2F, 0x2F, 0x65, 0x76, 0x69, 0x6C, 0x2F, c_dot, 0x6F, 0x6B, c_colon], str_flags = 0\<rparr>
     \<lparr>str_length = 3, str_type = 22, str_data = Some [c_dot, 0x6F, 0x6B], str_flags = 0\<rparr> = X509_V_OK"
  by (rule nc_uri_path_taken_for_host [where scheme = "[0x73]" and host = "[0x65, 0x76, 0x69, 0x6C]" and path = "[]"
        and rest = "[]"]) (simp_all add: str_bytes_def)

end
