(* ===== verification/Der_Oid.thy ===== *)
theory Der_Oid
  imports Der_Builder
begin

text \<open>
  Object identifiers as text: the conversion from dotted decimal to DER and the one back are
  inverse to each other, and each accepts nothing else.
\<close>

section \<open>Dotted decimal and DER\<close>

definition arcs_text :: "u64 list \<Rightarrow> bytes" where
  "arcs_text as = concat (map (\<lambda>a. 0x2E # decimal (unat a)) as)"

definition dotted :: "u64 \<Rightarrow> u64 \<Rightarrow> u64 list \<Rightarrow> bytes" where
  "dotted a b as = decimal (unat a) @ arcs_text (b # as)"

definition valid_arcs :: "u64 \<Rightarrow> u64 \<Rightarrow> bool" where
  "valid_arcs a b \<longleftrightarrow> a \<le> 2 \<and> (a < 2 \<longrightarrow> b \<le> 39) \<and> b \<le> UINT64_MAX - 80"

definition oid_contents :: "u64 \<Rightarrow> u64 \<Rightarrow> u64 list \<Rightarrow> bytes" where
  "oid_contents a b as = concat (map base128_bytes ((40 * a + b) # as))"

lemma parse_dotted_decimal_eq_Some:
  "parse_dotted_decimal s = (Some a, t) \<longleftrightarrow>
    (if t = [] then s = decimal (unat a) else s = decimal (unat a) @ 0x2E # t)"
proof -
  have st: "stops_digits []" "stops_digits (0x2E # t)" by (simp_all add: stops_digits_def OPENSSL_isdigit_def)
  have "(case CBS_get_u8 u of (None, cbs) \<Rightarrow> (Some v, cbs)
      | (Some dot, cbs) \<Rightarrow> if dot = 0x2E \<and> CBS_len cbs > 0 then (Some v, cbs) else (None, cbs)) = (Some a, t) \<longleftrightarrow>
    v = a \<and> (if t = [] then u = [] else u = 0x2E # t)" for u v
    by (cases u) (auto simp: CBS_len_def)
  then show ?thesis using st
    unfolding parse_dotted_decimal_def and_then_eq_Some CBS_get_u64_decimal_eq_Some by auto
qed

lemma valid_arcs_unat:
  assumes "valid_arcs a b"
  shows "unat a \<le> 2" and "unat a < 2 \<longrightarrow> unat b \<le> 39" and "unat (40 * a + b) = 40 * unat a + unat b"
proof -
  have "unat (UINT64_MAX - 80) = 2 ^ 64 - 81" by simp
  then have b: "unat b \<le> 2 ^ 64 - 81" using assms by (simp add: valid_arcs_def word_le_nat_alt del: diff_numeral_simps)
  show a: "unat a \<le> 2" "unat a < 2 \<longrightarrow> unat b \<le> 39"
    using assms by (simp_all add: valid_arcs_def word_le_nat_alt word_less_nat_alt)
  have m: "unat (40 * a) = 40 * unat a"
    using a by (simp add: unat_word_ariths)
  then show "unat (40 * a + b) = 40 * unat a + unat b"
    using a b by (simp add: unat_word_ariths)
qed

section \<open>From text\<close>

fun add_components :: "cbb_env \<Rightarrow> handle \<Rightarrow> u64 list \<Rightarrow> (cbb, unit) action" where
  "add_components env h [] = ret ()"
| "add_components env h (a # as) = and_then (add_base128_integer env h a) (\<lambda>_. add_components env h as)"

lemma add_components_list: "add_components env h as = add_list env h (concat (map base128_bytes as))"
  by (induction "as") (simp_all add: add_base128_list add_list_append)

text \<open>What is left after a component: nothing, or further components.\<close>

definition more_arcs :: "u64 list \<Rightarrow> bytes" where
  "more_arcs as = tl (arcs_text as)"

lemma more_arcs_simps [simp]:
  "more_arcs [] = []"
  "more_arcs (a # as) = decimal (unat a) @ (if as = [] then [] else 0x2E # more_arcs as)"
  by (cases "as"; simp add: more_arcs_def arcs_text_def)+

lemma more_arcs_empty: "more_arcs as = [] \<longleftrightarrow> as = []"
  by (cases "as") simp_all

lemma more_arcs_Nil: "[] = more_arcs as \<longleftrightarrow> as = []"
  using more_arcs_empty by metis

lemma parse_more_arcs: "parse_dotted_decimal (more_arcs (a # as)) = (Some a, more_arcs as)"
  by (simp add: parse_dotted_decimal_eq_Some more_arcs_empty)

lemma parse_is_more_arcs:
  "parse_dotted_decimal s = (Some a, more_arcs as) \<Longrightarrow> s = more_arcs (a # as)"
  by (auto simp: parse_dotted_decimal_eq_Some more_arcs_empty split: if_splits)

lemma oid_components_loop_eq:
  "oid_components_loop env h s cbb = (Some (), cbb') \<longleftrightarrow>
    (\<exists>as. s = more_arcs as \<and> add_components env h as cbb = (Some (), cbb'))"
proof (induction s arbitrary: cbb rule: length_induct)
  case (1 s)
  show ?case
  proof (cases "s = []")
    case True
    then show ?thesis
      by (subst oid_components_loop.simps) (auto simp: CBS_len_def ret_def more_arcs_Nil)
  next
    case False
    show ?thesis
    proof
      assume "oid_components_loop env h s cbb = (Some (), cbb')"
      with False obtain a t cbb1 where p: "parse_dotted_decimal s = (Some a, t)"
        "add_base128_integer env h a cbb = (Some (), cbb1)" "oid_components_loop env h t cbb1 = (Some (), cbb')"
        by (subst (asm) oid_components_loop.simps) (auto simp: CBS_len_def split: prod.splits option.splits)
      have "length t < length s" by (rule parse_dotted_decimal_shortens [OF p(1)])
      with 1 p(3) obtain "as" where "t = more_arcs as" "add_components env h as cbb1 = (Some (), cbb')" by blast
      then show "\<exists>as. s = more_arcs as \<and> add_components env h as cbb = (Some (), cbb')"
        using p parse_is_more_arcs [of s a "as"] by (intro exI [of _ "a # as"]) simp
    next
      assume "\<exists>as. s = more_arcs as \<and> add_components env h as cbb = (Some (), cbb')"
      then obtain bs where bs: "s = more_arcs bs" "add_components env h bs cbb = (Some (), cbb')" by blast
      then obtain a "as" where "bs = a # as" using False by (cases bs) auto
      with bs obtain cbb1 where s: "s = more_arcs (a # as)"
        "add_base128_integer env h a cbb = (Some (), cbb1)" "add_components env h as cbb1 = (Some (), cbb')" by auto
      have p: "parse_dotted_decimal s = (Some a, more_arcs as)" unfolding s by (rule parse_more_arcs)
      have "length (more_arcs as) < length s" by (rule parse_dotted_decimal_shortens [OF p])
      then have "oid_components_loop env h (more_arcs as) cbb1 = (Some (), cbb')" using 1 s(3) by blast
      then show "oid_components_loop env h s cbb = (Some (), cbb')"
        using False p s(2) by (subst oid_components_loop.simps) (simp add: CBS_len_def)
    qed
  qed
qed

lemma valid_arcs_guard:
  "\<not> (a > 2 \<or> (a < 2 \<and> b > 39) \<or> b > UINT64_MAX - 80) \<longleftrightarrow> valid_arcs a b"
  by (auto simp: valid_arcs_def)

lemma dotted_parse:
  "text = dotted a b as \<longleftrightarrow> (\<exists>t. parse_dotted_decimal text = (Some a, t) \<and> parse_dotted_decimal t = (Some b, more_arcs as))"
proof -
  have "dotted a b as = more_arcs (a # b # as)" by (cases "as") (simp_all add: dotted_def arcs_text_def more_arcs_def)
  then show ?thesis
    using parse_more_arcs [of a "b # as"] parse_more_arcs [of b "as"] parse_is_more_arcs [of "text" a "b # as"]
      parse_is_more_arcs [of _ b "as"] by metis
qed

lemma oid_from_text_eq:
  "CBB_add_asn1_oid_from_text env h text s = (Some (), s') \<longleftrightarrow>
    (\<exists>a b as. valid_arcs a b \<and> text = dotted a b as \<and>
      and_then (CBB_flush env h) (\<lambda>_. add_list env h (oid_contents a b as)) s = (Some (), s'))"
proof -
  have "\<And>s. (case parse_dotted_decimal text of (None, _) \<Rightarrow> (None, s) | (Some a, cbs) \<Rightarrow>
       case parse_dotted_decimal cbs of (None, _) \<Rightarrow> (None, s) | (Some b, cbs) \<Rightarrow>
       if a > 2 \<or> (a < 2 \<and> b > 39) \<or> b > UINT64_MAX - 80 then (None, s)
       else and_then (add_base128_integer env h (40 * a + b)) (\<lambda>_. oid_components_loop env h cbs) s) = (Some (), s') \<longleftrightarrow>
    (\<exists>a b as. valid_arcs a b \<and> text = dotted a b as \<and> add_components env h ((40 * a + b) # as) s = (Some (), s'))"
    unfolding dotted_parse
    by (auto simp: oid_components_loop_eq valid_arcs_guard [symmetric] not_less not_le
        simp del: word_le_sub1 split: prod.splits option.splits if_splits)
  then show ?thesis
    unfolding CBB_add_asn1_oid_from_text_def oid_contents_def add_components_list [symmetric]
      and_then_eq_Some by blast
qed

lemma oid_from_text_appender:
  assumes "valid_arcs a b"
  shows "appender (\<lambda>env. CBB_add_asn1_oid_from_text env h (dotted a b as)) h (oid_contents a b as)"
proof (rule appender_cong)
  have "appender (\<lambda>env. and_then (CBB_flush env h) (\<lambda>_. add_list env h (oid_contents a b as))) h
      ([] @ oid_contents a b as)"
    by (intro appender_seq flush_appender add_list_appender) (simp add: oid_contents_def)
  then show "appender (\<lambda>env. and_then (CBB_flush env h) (\<lambda>_. add_list env h (oid_contents a b as))) h
      (oid_contents a b as)" by simp
  fix env s s'
  have "c = a \<and> d = b \<and> more_arcs cs = more_arcs as" if "dotted a b as = dotted c d cs" for c d cs
    using that [unfolded dotted_parse [of _ c d cs]] dotted_parse [of "dotted a b as" a b "as"] by auto
  moreover have "cs = as" if "more_arcs cs = more_arcs as" for cs
    using that
  proof (induction cs arbitrary: "as")
    case Nil
    then show ?case by (simp add: more_arcs_Nil)
  next
    case (Cons c cs)
    then obtain d ds where ds: "as = d # ds" using more_arcs_Nil by (cases "as") (auto split: if_splits)
    then have "(Some c, more_arcs cs) = (Some d, more_arcs ds)" using Cons.prems parse_more_arcs by metis
    then show ?case using Cons.IH ds by simp
  qed
  ultimately show "CBB_add_asn1_oid_from_text env h (dotted a b as) s = (Some (), s') \<longleftrightarrow>
      and_then (CBB_flush env h) (\<lambda>_. add_list env h (oid_contents a b as)) s = (Some (), s')"
    unfolding oid_from_text_eq using assms by blast
qed

section \<open>To text\<close>

fun add_arcs :: "cbb_env \<Rightarrow> u64 list \<Rightarrow> (cbb, unit) action" where
  "add_arcs env [] = ret ()"
| "add_arcs env (a # as) =
     and_then (and_then (CBB_add_u8 env 0 0x2E) (\<lambda>_. add_decimal env 0 a)) (\<lambda>_. add_arcs env as)"

lemma oid_text_loop_eq:
  "oid_text_loop env s cbb = (Some (), cbb') \<longleftrightarrow>
    (\<exists>as. s = concat (map base128_bytes as) \<and> add_arcs env as cbb = (Some (), cbb'))"
proof (induction s arbitrary: cbb rule: length_induct)
  case (1 s)
  show ?case
  proof (cases "s = []")
    case True
    have "[] = concat (map base128_bytes as) \<longleftrightarrow> as = []" for "as" by (cases "as") simp_all
    then show ?thesis using True
      by (subst oid_text_loop.simps) (auto simp: CBS_len_def ret_def)
  next
    case False
    show ?thesis
    proof
      assume "oid_text_loop env s cbb = (Some (), cbb')"
      with False obtain a t cbb1 where p: "parse_base128_integer s = (Some a, t)"
        "and_then (CBB_add_u8 env 0 0x2E) (\<lambda>_. add_decimal env 0 a) cbb = (Some (), cbb1)"
        "oid_text_loop env t cbb1 = (Some (), cbb')"
        by (subst (asm) oid_text_loop.simps)
          (auto simp: CBS_len_def simp del: and_then_eq_Some split: prod.splits option.splits)
      have s: "s = base128_bytes a @ t" using p(1) by (simp add: parse_base128_integer_eq_Some)
      then have "length t < length s" by simp
      with 1 p(3) obtain "as" where "t = concat (map base128_bytes as)" "add_arcs env as cbb1 = (Some (), cbb')" by blast
      then show "\<exists>as. s = concat (map base128_bytes as) \<and> add_arcs env as cbb = (Some (), cbb')"
        using p s by (intro exI [of _ "a # as"]) auto
    next
      assume "\<exists>as. s = concat (map base128_bytes as) \<and> add_arcs env as cbb = (Some (), cbb')"
      then obtain bs where bs: "s = concat (map base128_bytes bs)" "add_arcs env bs cbb = (Some (), cbb')" by blast
      then obtain a "as" where "bs = a # as" using False by (cases bs) auto
      with bs obtain cbb1 where s: "s = base128_bytes a @ concat (map base128_bytes as)"
        "and_then (CBB_add_u8 env 0 0x2E) (\<lambda>_. add_decimal env 0 a) cbb = (Some (), cbb1)"
        "add_arcs env as cbb1 = (Some (), cbb')" by auto
      have p: "parse_base128_integer s = (Some a, concat (map base128_bytes as))" unfolding s(1) by (rule parse_base128_bytes)
      have "length (concat (map base128_bytes as)) < length s" by (simp add: s(1))
      then have "oid_text_loop env (concat (map base128_bytes as)) cbb1 = (Some (), cbb')" using 1 s(3) by blast
      then show "oid_text_loop env s cbb = (Some (), cbb')"
        using False p s(2) by (subst oid_text_loop.simps) (simp add: CBS_len_def del: and_then_eq_Some)
    qed
  qed
qed

lemma decimal_length: "length (decimal n) \<le> max 1 n"
proof (induction n rule: decimal.induct)
  case (1 n)
  show ?case
  proof (cases "n < 10")
    case False
    then have "1 + max 1 (n div 10) \<le> n" by linarith
    then show ?thesis using 1 False by (subst decimal.simps) simp
  qed (subst decimal.simps, simp)
qed

lemma decimal_u64_length: "length (decimal (unat (v :: u64))) \<le> SIZE_MAX"
  using decimal_length [of "unat v"] unat_u64_lt [of v] by (simp add: SIZE_MAX_def)

lemma add_decimal_appender: "appender (\<lambda>env. add_decimal env h v) h (decimal (unat v))"
  unfolding add_decimal_def by (rule add_bytes_appender [OF decimal_u64_length])

lemma add_arcs_appender:
  "appender op 0 y \<Longrightarrow> appender (\<lambda>env. and_then (op env) (\<lambda>_. add_arcs env as)) 0 (y @ arcs_text as)"
proof (induction "as" arbitrary: op y)
  case Nil
  then show ?case by (simp add: arcs_text_def)
next
  case (Cons a "as")
  let ?dot = "\<lambda>env. and_then (CBB_add_u8 env 0 0x2E) (\<lambda>_. add_decimal env 0 a)"
  have "appender ?dot 0 ([0x2E] @ decimal (unat a))"
    by (intro appender_seq add_u8.appender_axioms add_decimal_appender)
  from Cons.IH [OF appender_seq [OF Cons.prems this]] show ?case
    by (simp add: and_then_assoc arcs_text_def)
qed

definition first_arcs :: "cbb_env \<Rightarrow> u64 \<Rightarrow> (cbb, unit) action" where
  "first_arcs env v =
     (if v \<ge> 80 then and_then (CBB_add_bytes env 0 [0x32, 0x2E]) (\<lambda>_. add_decimal env 0 (v - 80))
      else and_then (add_decimal env 0 (v div 40)) (\<lambda>_.
           and_then (CBB_add_u8 env 0 0x2E) (\<lambda>_. add_decimal env 0 (v mod 40))))"

lemma split_arcs:
  assumes "valid_arcs a b"
  shows "first_arcs env (40 * a + b) =
    (if a = 2 then and_then (CBB_add_bytes env 0 [0x32, 0x2E]) (\<lambda>_. add_decimal env 0 b)
     else and_then (add_decimal env 0 a) (\<lambda>_. and_then (CBB_add_u8 env 0 0x2E) (\<lambda>_. add_decimal env 0 b)))"
proof -
  note u = valid_arcs_unat [OF assms]
  show ?thesis
  proof (cases "a = 2")
    case True
    have "80 \<le> 40 * a + b" using u True by (simp add: word_le_nat_alt)
    then show ?thesis using True by (simp add: first_arcs_def)
  next
    case False
    then have "unat a \<noteq> unat (2 :: u64)" by (simp only: word_unat_eq_iff [symmetric]) simp
    then have a: "unat a < 2" using u(1) by simp
    then have "\<not> 80 \<le> 40 * a + b" using u by (simp add: word_le_nat_alt)
    moreover have "(40 * a + b) div 40 = a" using u a by (intro unat_eqI) (simp add: unat_div_distrib)
    moreover have "(40 * a + b) mod 40 = b" using u a by (intro unat_eqI) (simp add: unat_mod_distrib)
    ultimately show ?thesis using False by (simp add: first_arcs_def)
  qed
qed

text \<open>Every first subidentifier stands for exactly one pair of arcs.\<close>

lemma arcs_exist: "\<exists>a b. valid_arcs a b \<and> v = 40 * a + b"
proof (cases "80 \<le> v")
  case True
  have "v - 80 \<le> UINT64_MAX - 80" using True unat_u64_lt [of v] by (simp add: word_le_nat_alt unat_sub)
  then have "valid_arcs 2 (v - 80) \<and> v = 40 * 2 + (v - 80)" by (simp add: valid_arcs_def)
  then show ?thesis by blast
next
  case False
  then have v: "unat v < 80" by (simp add: word_le_nat_alt)
  have "unat v div 40 \<le> 2" "unat v mod 40 \<le> 39"
    using v mod_less_divisor [of 40 "unat v"] by linarith+
  then have "valid_arcs (v div 40) (v mod 40)"
    by (simp add: valid_arcs_def word_le_nat_alt word_less_nat_alt unat_div_distrib unat_mod_distrib)
  moreover have "v = 40 * (v div 40) + v mod 40" by (simp only: mult_div_mod_eq)
  ultimately show ?thesis by blast
qed

lemma first_arcs_appender:
  assumes "valid_arcs a b"
  shows "appender (\<lambda>env. first_arcs env (40 * a + b)) 0 (decimal (unat a) @ 0x2E # decimal (unat b))"
proof (cases "a = 2")
  case True
  have d: "decimal 2 = [0x32]" by (subst decimal.simps) simp
  have "appender (\<lambda>env. and_then (CBB_add_bytes env 0 [0x32, 0x2E]) (\<lambda>_. add_decimal env 0 b)) 0
      ([0x32, 0x2E] @ decimal (unat b))"
    by (intro appender_seq add_bytes_appender add_decimal_appender) (simp add: SIZE_MAX_def)
  then show ?thesis using True d unfolding split_arcs [OF assms] by simp
next
  case False
  have "appender (\<lambda>env. and_then (add_decimal env 0 a) (\<lambda>_. and_then (CBB_add_u8 env 0 0x2E) (\<lambda>_. add_decimal env 0 b))) 0
      (decimal (unat a) @ [0x2E] @ decimal (unat b))"
    by (intro appender_seq add_u8.appender_axioms add_decimal_appender)
  then show ?thesis using False unfolding split_arcs [OF assms] by simp
qed

definition write_text :: "u64 \<Rightarrow> u64 \<Rightarrow> u64 list \<Rightarrow> cbb_env \<Rightarrow> (cbb, unit) action" where
  "write_text a b as env =
     and_then (and_then (first_arcs env (40 * a + b)) (\<lambda>_. add_arcs env as)) (\<lambda>_. CBB_add_u8 env 0 0)"

lemma write_text_appender: "valid_arcs a b \<Longrightarrow> appender (write_text a b as) 0 (dotted a b as @ [0])"
  using appender_seq [OF add_arcs_appender [OF first_arcs_appender] add_u8.appender_axioms, of a b "as" 0]
  unfolding write_text_def dotted_def arcs_text_def by simp

lemma fst_eq_Some: "fst p = Some x \<longleftrightarrow> (\<exists>s. p = (Some x, s))"
  by (cases p) auto

lemma and_then_cong_Some:
  "(\<And>s'. m s = (Some (), s') \<longleftrightarrow> m' s = (Some (), s')) \<Longrightarrow> fst (and_then m f s) = fst (and_then m' f s)"
  by (cases "m s"; cases "m' s"; cases "fst (m s)"; cases "fst (m' s)") auto

lemma oid_to_text_eq:
  "CBS_asn1_oid_to_text env s = Some text \<longleftrightarrow>
    (\<exists>a b as out. valid_arcs a b \<and> s = oid_contents a b as \<and>
      build env 32 (write_text a b as) = Some out \<and> text = butlast out)"
proof -
  have run: "fst (and_then (first_arcs env v) (\<lambda>_. and_then (oid_text_loop env copy) (\<lambda>_.
      and_then (CBB_add_u8 env 0 0) (\<lambda>_. CBB_finish env 0 False))) cbb) = Some out \<longleftrightarrow>
    (\<exists>as. copy = concat (map base128_bytes as) \<and>
      fst (and_then (and_then (and_then (first_arcs env v) (\<lambda>_. add_arcs env as)) (\<lambda>_. CBB_add_u8 env 0 0))
        (\<lambda>_. CBB_finish env 0 False) cbb) = Some out)" for v copy cbb out
    unfolding and_then_assoc fst_eq_Some and_then_eq_Some [where y = out]
    by (simp add: oid_text_loop_eq) blast
  have c: "s = base128_bytes (40 * a + b) @ concat (map base128_bytes as) \<longleftrightarrow> s = oid_contents a b as" for a b "as"
    by (simp add: oid_contents_def)
  show ?thesis
  proof (cases "CBB_init env 32")
    case None
    then show ?thesis by (simp add: CBS_asn1_oid_to_text_def build_def)
  next
    case (Some cbb)
    have "CBS_asn1_oid_to_text env s = Some text \<longleftrightarrow> (\<exists>v copy out. s = base128_bytes v @ copy \<and>
        fst (and_then (first_arcs env v) (\<lambda>_. and_then (oid_text_loop env copy) (\<lambda>_.
          and_then (CBB_add_u8 env 0 0) (\<lambda>_. CBB_finish env 0 False))) cbb) = Some out \<and> text = butlast out)"
      unfolding CBS_asn1_oid_to_text_def Some option.case first_arcs_def [symmetric]
      by (cases "parse_base128_integer s"; cases "fst (parse_base128_integer s)")
        (auto simp: parse_base128_integer_eq_Some [symmetric])
    also have "\<dots> \<longleftrightarrow> (\<exists>v as out. s = base128_bytes v @ concat (map base128_bytes as) \<and>
        fst (and_then (and_then (and_then (first_arcs env v) (\<lambda>_. add_arcs env as)) (\<lambda>_. CBB_add_u8 env 0 0))
          (\<lambda>_. CBB_finish env 0 False) cbb) = Some out \<and> text = butlast out)"
      unfolding run by blast
    also have "\<dots> \<longleftrightarrow> (\<exists>a b as out. valid_arcs a b \<and> s = base128_bytes (40 * a + b) @ concat (map base128_bytes as) \<and>
        fst (and_then (and_then (and_then (first_arcs env (40 * a + b)) (\<lambda>_. add_arcs env as)) (\<lambda>_. CBB_add_u8 env 0 0))
          (\<lambda>_. CBB_finish env 0 False) cbb) = Some out \<and> text = butlast out)"
      using arcs_exist by metis
    finally show ?thesis unfolding c build_def Some option.case write_text_def by blast
  qed
qed

lemma oid_to_text_exact:
  "CBS_asn1_oid_to_text env s = Some text \<Longrightarrow> \<exists>a b as. valid_arcs a b \<and> s = oid_contents a b as \<and> text = dotted a b as"
  "\<lbrakk>\<forall>m \<le> SIZE_MAX. alloc_ok env m; valid_arcs a b; length (dotted a b as) < SIZE_MAX\<rbrakk> \<Longrightarrow>
    CBS_asn1_oid_to_text env (oid_contents a b as) = Some (dotted a b as)"
proof -
  have n: "(32 :: nat) \<le> SIZE_MAX" by (simp add: SIZE_MAX_def)
  show "\<exists>a b as. valid_arcs a b \<and> s = oid_contents a b as \<and> text = dotted a b as"
    if "CBS_asn1_oid_to_text env s = Some text"
  proof -
    from that obtain a b "as" out where o: "valid_arcs a b" "s = oid_contents a b as"
      "build env 32 (write_text a b as) = Some out" "text = butlast out"
      unfolding oid_to_text_eq by blast
    with build_exact(1) [OF write_text_appender [OF o(1)] n, of env "as"] show ?thesis by auto
  qed
  show "CBS_asn1_oid_to_text env (oid_contents a b as) = Some (dotted a b as)"
    if "\<forall>m \<le> SIZE_MAX. alloc_ok env m" "valid_arcs a b" "length (dotted a b as) < SIZE_MAX"
    using build_exact(2) [OF write_text_appender [OF that(2), of "as"] n that(1)] that
    unfolding oid_to_text_eq by fastforce
qed

text \<open>What can be built from a text is the encoding of the arcs that the text spells out.\<close>

lemma oid_build_contents:
  assumes b: "build env n (\<lambda>env. CBB_add_asn1_oid_from_text env 0 text) = Some der" and n: "n \<le> SIZE_MAX"
  shows "\<exists>a c as. valid_arcs a c \<and> text = dotted a c as \<and> der = oid_contents a c as"
proof -
  have "\<exists>a b as. valid_arcs a b \<and> text = dotted a b as"
  proof (rule ccontr)
    assume "\<nexists>a b as. valid_arcs a b \<and> text = dotted a b as"
    then have "fst (CBB_add_asn1_oid_from_text env 0 text s) = None" for env s
      using oid_from_text_eq [of env 0 "text" s] by (cases "fst (CBB_add_asn1_oid_from_text env 0 text s)") (auto simp: fst_eq_Some)
    then have "never (\<lambda>env. CBB_add_asn1_oid_from_text env 0 text) 0" by (simp add: never_def)
    from build_never [OF this n] b show False by simp
  qed
  then obtain a c "as" where t: "valid_arcs a c" "text = dotted a c as" by blast
  from build_exact(1) [OF oid_from_text_appender [OF t(1), of 0 "as"] n, of env] b t
  show ?thesis by auto
qed

section \<open>Properties\<close>

text \<open>C10: text that \<open>CBB_add_asn1_oid_from_text\<close> accepts comes back unchanged from
  \<open>CBS_asn1_oid_to_text\<close>, and DER contents that \<open>CBS_asn1_oid_to_text\<close> accepts are written again
  by \<open>CBB_add_asn1_oid_from_text\<close>: the two conversions are inverse to each other, for all 64-bit
  components.\<close>

theorem oid_text_roundtrip:
  assumes "\<forall>k \<le> SIZE_MAX. alloc_ok env k" and "n \<le> SIZE_MAX" and "length text < SIZE_MAX" and "length der \<le> SIZE_MAX"
  shows "build env n (\<lambda>env. CBB_add_asn1_oid_from_text env 0 text) = Some der \<longleftrightarrow>
    CBS_asn1_oid_to_text env der = Some text"
proof
  assume "build env n (\<lambda>env. CBB_add_asn1_oid_from_text env 0 text) = Some der"
  from oid_build_contents [OF this assms(2)] obtain a c "as" where
    t: "valid_arcs a c" "text = dotted a c as" "der = oid_contents a c as" by blast
  then show "CBS_asn1_oid_to_text env der = Some text"
    using oid_to_text_exact(2) [OF assms(1) t(1), of "as"] assms(3) t(2,3) by simp
next
  assume "CBS_asn1_oid_to_text env der = Some text"
  from oid_to_text_exact(1) [OF this] obtain a b "as" where
    t: "valid_arcs a b" "der = oid_contents a b as" "text = dotted a b as" by blast
  from build_exact(2) [OF oid_from_text_appender [OF t(1), of 0 "as"] assms(2,1)] assms(4) t
  show "build env n (\<lambda>env. CBB_add_asn1_oid_from_text env 0 text) = Some der" by simp
qed

theorem oid_text_roundtrip_witness:
  "CBS_asn1_oid_to_text \<lparr>alloc_ok = \<lambda>_. True, uninit = \<lambda>_. 0\<rparr> [0x2a, 0x86, 0x48] =
     Some [0x31, 0x2e, 0x32, 0x2e, 0x38, 0x34, 0x30] \<and>
   build \<lparr>alloc_ok = \<lambda>_. True, uninit = \<lambda>_. 0\<rparr> 8 (\<lambda>env. CBB_add_asn1_oid_from_text env 0
     [0x31, 0x2e, 0x32, 0x2e, 0x38, 0x34, 0x30]) = Some [0x2a, 0x86, 0x48]"
proof -
  have o: "oid_contents 1 2 [840] = [0x2a, 0x86, 0x48]" by code_simp
  have t: "dotted 1 2 [840] = [0x31, 0x2e, 0x32, 0x2e, 0x38, 0x34, 0x30]" by code_simp
  have v: "valid_arcs 1 2" by (simp add: valid_arcs_def)
  let ?e = "\<lparr>alloc_ok = \<lambda>_. True, uninit = \<lambda>_. 0\<rparr>"
  have c: "CBS_asn1_oid_to_text ?e [0x2a, 0x86, 0x48] = Some [0x31, 0x2e, 0x32, 0x2e, 0x38, 0x34, 0x30]"
    using oid_to_text_exact(2) [OF _ v, of ?e "[840]"] unfolding o t by (simp add: SIZE_MAX_def)
  moreover have "build ?e 8 (\<lambda>env. CBB_add_asn1_oid_from_text env 0 [0x31, 0x2e, 0x32, 0x2e, 0x38, 0x34, 0x30]) =
      Some [0x2a, 0x86, 0x48]"
    by (subst oid_text_roundtrip) (simp_all add: c SIZE_MAX_def)
  ultimately show ?thesis by blast
qed

end
