(* ===== verification/Asn1_Object.thy ===== *)
theory Asn1_Object
  imports C_String Ber Der_Oid
begin

text \<open>
  ASN.1 objects: \<open>struct asn1_object_st\<close> (\<open>crypto/asn1/internal.h\<close>), their copies and comparison
  (\<open>crypto/obj/obj.c\<close>) and their DER encoding (\<open>crypto/asn1/a_object.c\<close>). A pointer to data is the
  list of the bytes it points at, \<open>None\<close> for NULL. Objects are never changed once they are shared, so
  that a pointer to an object is the object.
\<close>

record asn1_object =
  obj_sn :: "bytes option"
  obj_ln :: "bytes option"
  obj_nid :: int
  obj_length :: int
  obj_data :: "bytes option"
  obj_flags :: u32

definition ASN1_OBJECT_FLAG_DYNAMIC :: u32 where "ASN1_OBJECT_FLAG_DYNAMIC = 0x01"
definition ASN1_OBJECT_FLAG_DYNAMIC_STRINGS :: u32 where "ASN1_OBJECT_FLAG_DYNAMIC_STRINGS = 0x04"
definition ASN1_OBJECT_FLAG_DYNAMIC_DATA :: u32 where "ASN1_OBJECT_FLAG_DYNAMIC_DATA = 0x08"

definition ASN1_OBJECT_FLAG_ALL :: u32 where
  "ASN1_OBJECT_FLAG_ALL =
     ASN1_OBJECT_FLAG_DYNAMIC OR (ASN1_OBJECT_FLAG_DYNAMIC_STRINGS OR ASN1_OBJECT_FLAG_DYNAMIC_DATA)"

definition NID_undef :: int where "NID_undef = 0"
definition sizeof_asn1_object :: nat where "sizeof_asn1_object = 40"

text \<open>The bytes from \<open>data\<close> to \<open>data + length\<close>.\<close>

definition obj_bytes :: "asn1_object \<Rightarrow> bytes" where
  "obj_bytes obj = map (\<lambda>i. the (obj_data obj) ! i) [0..<nat (obj_length obj)]"

section \<open>Life cycle\<close>

definition ASN1_OBJECT_new :: "(nat \<Rightarrow> bool) \<Rightarrow> asn1_object option" where
  "ASN1_OBJECT_new alloc =
     (if alloc sizeof_asn1_object
      then Some \<lparr>obj_sn = None, obj_ln = None, obj_nid = 0, obj_length = 0, obj_data = None,
                 obj_flags = ASN1_OBJECT_FLAG_DYNAMIC\<rparr>
      else None)"

definition OBJ_dup :: "(nat \<Rightarrow> bool) \<Rightarrow> asn1_object option \<Rightarrow> asn1_object option" where
  "OBJ_dup alloc obj =
     (case obj of None \<Rightarrow> None | Some obj \<Rightarrow>
      if obj_flags obj AND ASN1_OBJECT_FLAG_DYNAMIC = 0 then Some obj
      else case ASN1_OBJECT_new alloc of None \<Rightarrow> None | Some r \<Rightarrow>
        let data = OPENSSL_memdup alloc (obj_bytes obj);
            ln = OPENSSL_strdup alloc (obj_ln obj);
            sn = OPENSSL_strdup alloc (obj_sn obj)
        in if obj_length obj \<noteq> 0 \<and> data = None then None
           else if obj_ln obj \<noteq> None \<and> ln = None then None
           else if obj_sn obj \<noteq> None \<and> sn = None then None
           else Some (r\<lparr>obj_data := data, obj_length := obj_length obj, obj_nid := obj_nid obj,
                        obj_sn := sn, obj_ln := ln,
                        obj_flags := obj_flags obj OR ASN1_OBJECT_FLAG_ALL\<rparr>))"

text \<open>\<open>data\<close> stands for a pointer that is not NULL and the length of what it points at.\<close>

definition ASN1_OBJECT_create ::
  "(nat \<Rightarrow> bool) \<Rightarrow> int \<Rightarrow> bytes \<Rightarrow> bytes option \<Rightarrow> bytes option \<Rightarrow> asn1_object option" where
  "ASN1_OBJECT_create alloc nid data sn ln =
     (if length data > INT_MAX then None
      else OBJ_dup alloc
        (Some \<lparr>obj_sn = sn, obj_ln = ln, obj_nid = nid, obj_length = int (length data),
               obj_data = Some data, obj_flags = ASN1_OBJECT_FLAG_ALL\<rparr>))"

section \<open>Contents and order\<close>

definition OBJ_cmp :: "asn1_object \<Rightarrow> asn1_object \<Rightarrow> int" where
  "OBJ_cmp a b =
     (if obj_length a < obj_length b then - 1
      else if obj_length a > obj_length b then 1
      else OPENSSL_memcmp (obj_bytes a) (obj_bytes b))"

definition OBJ_get0_data :: "asn1_object option \<Rightarrow> bytes option" where
  "OBJ_get0_data obj = (case obj of None \<Rightarrow> None | Some obj \<Rightarrow> obj_data obj)"

definition OBJ_length :: "asn1_object option \<Rightarrow> nat" where
  "OBJ_length obj =
     (case obj of None \<Rightarrow> 0 | Some obj \<Rightarrow> if obj_length obj < 0 then 0 else nat (obj_length obj))"

section \<open>DER\<close>

abbreviation CBS_ASN1_OBJECT :: asn1_tag where "CBS_ASN1_OBJECT \<equiv> 0x6"

definition i2d_ASN1_OBJECT :: "cbb_env \<Rightarrow> asn1_object option \<Rightarrow> i2d_out \<Rightarrow> int \<times> i2d_effect" where
  "i2d_ASN1_OBJECT env obj outp =
     (case obj of None \<Rightarrow> (- 1, Nothing_stored) | Some obj \<Rightarrow>
      if obj_length obj \<le> 0 then (- 1, Nothing_stored)
      else case CBB_init env (size_add (nat (obj_length obj)) 2) of
        None \<Rightarrow> (- 1, Nothing_stored)
      | Some cbb \<Rightarrow>
          case and_then (CBB_add_asn1 env 0 CBS_ASN1_OBJECT) (\<lambda>_. CBB_add_bytes env 1 (obj_bytes obj)) cbb of
            (None, _) \<Rightarrow> (- 1, Nothing_stored)
          | (Some _, cbb) \<Rightarrow> CBB_finish_i2d env outp cbb)"

text \<open>\<open>buf\<close> is the memory from \<open>*inp\<close> on and \<open>len\<close> the length the caller gives; the result is the
  object with what is left after it, \<open>None\<close> for NULL, in which case \<open>*inp\<close> and \<open>*out\<close> stay as they are.\<close>

definition c2i_ASN1_OBJECT :: "(nat \<Rightarrow> bool) \<Rightarrow> bytes \<Rightarrow> int \<Rightarrow> (asn1_object \<times> bytes) option" where
  "c2i_ASN1_OBJECT alloc buf len =
     (if len < 0 then None
      else
        let cbs = take (nat len) buf
        in if \<not> CBS_is_valid_asn1_oid cbs then None
           else case ASN1_OBJECT_create alloc NID_undef cbs None None of
             None \<Rightarrow> None
           | Some obj \<Rightarrow> Some (obj, drop (nat len) buf))"

definition d2i_ASN1_OBJECT :: "(nat \<Rightarrow> bool) \<Rightarrow> bytes \<Rightarrow> int \<Rightarrow> (asn1_object \<times> bytes) option" where
  "d2i_ASN1_OBJECT alloc buf len =
     (if len < 0 then None
      else case CBS_get_asn1 CBS_ASN1_OBJECT (take (nat len) buf) of
        (None, _) \<Rightarrow> None
      | (Some child, cbs) \<Rightarrow>
          case c2i_ASN1_OBJECT alloc child (int (CBS_len child)) of
            None \<Rightarrow> None
          | Some (obj, _) \<Rightarrow> Some (obj, cbs @ drop (nat len) buf))"

section \<open>Lemmas\<close>

lemma INT_MAX_pos: "0 < INT_MAX" by (simp add: INT_MAX_def)

text \<open>An object whose length is that of its data, as every constructor makes them.\<close>

definition wf_object :: "asn1_object \<Rightarrow> bool" where
  "wf_object obj \<longleftrightarrow>
     obj_length obj = int (length (case obj_data obj of None \<Rightarrow> [] | Some d \<Rightarrow> d)) \<and>
     obj_length obj \<le> int INT_MAX"

lemma obj_bytes_wf: "wf_object obj \<Longrightarrow> obj_bytes obj = (case obj_data obj of None \<Rightarrow> [] | Some d \<Rightarrow> d)"
  by (auto simp: wf_object_def obj_bytes_def map_nth split: option.splits)

lemma obj_bytes_length: "length (obj_bytes obj) = nat (obj_length obj)"
  by (simp add: obj_bytes_def)

lemma obj_bytes_given:
  "obj_bytes \<lparr>obj_sn = sn, obj_ln = ln, obj_nid = n, obj_length = int (length d), obj_data = Some d, obj_flags = f\<rparr> = d"
  by (simp add: obj_bytes_def map_nth)

lemma OBJ_cmp_zero: "OBJ_cmp a b = 0 \<longleftrightarrow> obj_length a = obj_length b \<and> obj_bytes a = obj_bytes b"
  by (auto simp: OBJ_cmp_def memcmp_zero obj_bytes_length)

text \<open>What the constructor makes.\<close>

lemma flag_all: "ASN1_OBJECT_FLAG_ALL AND ASN1_OBJECT_FLAG_DYNAMIC \<noteq> 0"
  "ASN1_OBJECT_FLAG_ALL OR ASN1_OBJECT_FLAG_ALL = ASN1_OBJECT_FLAG_ALL"
  by (simp_all add: ASN1_OBJECT_FLAG_ALL_def ASN1_OBJECT_FLAG_DYNAMIC_def ASN1_OBJECT_FLAG_DYNAMIC_STRINGS_def
      ASN1_OBJECT_FLAG_DYNAMIC_DATA_def)

lemma ASN1_OBJECT_create_Some:
  assumes "ASN1_OBJECT_create alloc nid data sn ln = Some obj"
  shows "obj = \<lparr>obj_sn = map_option cstr sn, obj_ln = map_option cstr ln, obj_nid = nid,
      obj_length = int (length data), obj_data = (if data = [] then None else Some data),
      obj_flags = ASN1_OBJECT_FLAG_ALL\<rparr> \<and> length data \<le> INT_MAX"
  using assms
  by (auto simp: ASN1_OBJECT_create_def OBJ_dup_def ASN1_OBJECT_new_def OPENSSL_memdup_def obj_bytes_given
      OPENSSL_strdup_def flag_all Let_def split: if_splits option.splits)

lemma ASN1_OBJECT_create_total:
  "(\<And>n. alloc n) \<Longrightarrow> length data \<le> INT_MAX \<Longrightarrow> ASN1_OBJECT_create alloc nid data sn ln \<noteq> None"
  by (auto simp: ASN1_OBJECT_create_def OBJ_dup_def ASN1_OBJECT_new_def OPENSSL_memdup_def obj_bytes_given
      OPENSSL_strdup_def flag_all Let_def split: if_splits option.splits)

end
