(* ===== verification/Obj_Dat.thy ===== *)
theory Obj_Dat
  imports Asn1_Object
begin

text \<open>
  The built-in objects of \<open>crypto/obj/obj_dat.h\<close>, a file that \<open>objects.go\<close> generates: the array of the
  objects by number and the three arrays of numbers in the order of the short names, of the long
  names and of the encoded identifiers. Each definition holds at most 150 lines of the arrays. An
  object's \<open>&kObjectData[k]\<close> and length are written as the bytes that stand there.
\<close>

definition text_bytes :: "string \<Rightarrow> bytes" where
  "text_bytes s = map of_char s"

definition builtin_object :: "string \<Rightarrow> string \<Rightarrow> int \<Rightarrow> bytes \<Rightarrow> asn1_object" where
  "builtin_object sn ln nid oid =
     \<lparr>obj_sn = Some (text_bytes sn), obj_ln = Some (text_bytes ln), obj_nid = nid,
      obj_length = int (length oid), obj_data = (if oid = [] then None else Some oid), obj_flags = 0\<rparr>"

text \<open>A number that is not assigned: \<open>{NULL, NULL, NID_undef, 0, NULL, 0}\<close>.\<close>

definition unused_object :: asn1_object where
  "unused_object = \<lparr>obj_sn = None, obj_ln = None, obj_nid = NID_undef, obj_length = 0, obj_data = None, obj_flags = 0\<rparr>"

definition kObjects_1 :: "asn1_object list" where
  "kObjects_1 = [
   builtin_object ''rsadsi'' ''RSA Data Security, Inc.'' 1 [0x2a, 0x86, 0x48, 0x86, 0xf7, 0x0d],
   builtin_object ''pkcs'' ''RSA Data Security, Inc. PKCS'' 2 [0x2a, 0x86, 0x48, 0x86, 0xf7, 0x0d, 0x01],
   builtin_object ''MD2'' ''md2'' 3 [0x2a, 0x86, 0x48, 0x86, 0xf7, 0x0d, 0x02, 0x02],
   builtin_object ''MD5'' ''md5'' 4 [0x2a, 0x86, 0x48, 0x86, 0xf7, 0x0d, 0x02, 0x05],
   builtin_object ''RC4'' ''rc4'' 5 [0x2a, 0x86, 0x48, 0x86, 0xf7, 0x0d, 0x03, 0x04],
   builtin_object ''rsaEncryption'' ''rsaEncryption'' 6 [0x2a, 0x86, 0x48, 0x86, 0xf7, 0x0d, 0x01, 0x01, 0x01],
   builtin_object ''RSA-MD2'' ''md2WithRSAEncryption'' 7 [0x2a, 0x86, 0x48, 0x86, 0xf7, 0x0d, 0x01, 0x01, 0x02],
   builtin_object ''RSA-MD5'' ''md5WithRSAEncryption'' 8 [0x2a, 0x86, 0x48, 0x86, 0xf7, 0x0d, 0x01, 0x01, 0x04],
   builtin_object ''PBE-MD2-DES'' ''pbeWithMD2AndDES-CBC'' 9 [0x2a, 0x86, 0x48, 0x86, 0xf7, 0x0d, 0x01, 0x05, 0x01],
   builtin_object ''PBE-MD5-DES'' ''pbeWithMD5AndDES-CBC'' 10 [0x2a, 0x86, 0x48, 0x86, 0xf7, 0x0d, 0x01, 0x05, 0x03],
   builtin_object ''X500'' ''directory services (X.500)'' 11 [0x55],
   builtin_object ''X509'' ''X509'' 12 [0x55, 0x04],
   builtin_object ''CN'' ''commonName'' 13 [0x55, 0x04, 0x03],
   builtin_object ''C'' ''countryName'' 14 [0x55, 0x04, 0x06],
   builtin_object ''L'' ''localityName'' 15 [0x55, 0x04, 0x07],
   builtin_object ''ST'' ''stateOrProvinceName'' 16 [0x55, 0x04, 0x08],
   builtin_object ''O'' ''organizationName'' 17 [0x55, 0x04, 0x0a],
   builtin_object ''OU'' ''organizationalUnitName'' 18 [0x55, 0x04, 0x0b],
   builtin_object ''RSA'' ''rsa'' 19 [0x55, 0x08, 0x01, 0x01],
   builtin_object ''pkcs7'' ''pkcs7'' 20 [0x2a, 0x86, 0x48, 0x86, 0xf7, 0x0d, 0x01, 0x07],
   builtin_object ''pkcs7-data'' ''pkcs7-data'' 21 [0x2a, 0x86, 0x48, 0x86, 0xf7, 0x0d, 0x01, 0x07, 0x01],
   builtin_object ''pkcs7-signedData'' ''pkcs7-signedData'' 22 [0x2a, 0x86, 0x48, 0x86, 0xf7, 0x0d, 0x01, 0x07, 0x02],
   builtin_object ''pkcs7-envelopedData'' ''pkcs7-envelopedData'' 23 [0x2a, 0x86, 0x48, 0x86, 0xf7, 0x0d, 0x01, 0x07, 0x03],
   builtin_object ''pkcs7-signedAndEnvelopedData'' ''pkcs7-signedAndEnvelopedData'' 24 [0x2a, 0x86, 0x48, 0x86, 0xf7, 0x0d, 0x01, 0x07, 0x04],
   builtin_object ''pkcs7-digestData'' ''pkcs7-digestData'' 25 [0x2a, 0x86, 0x48, 0x86, 0xf7, 0x0d, 0x01, 0x07, 0x05],
   builtin_object ''pkcs7-encryptedData'' ''pkcs7-encryptedData'' 26 [0x2a, 0x86, 0x48, 0x86, 0xf7, 0x0d, 0x01, 0x07, 0x06],
   builtin_object ''pkcs3'' ''pkcs3'' 27 [0x2a, 0x86, 0x48, 0x86, 0xf7, 0x0d, 0x01, 0x03],
   builtin_object ''dhKeyAgreement'' ''dhKeyAgreement'' 28 [0x2a, 0x86, 0x48, 0x86, 0xf7, 0x0d, 0x01, 0x03, 0x01],
   builtin_object ''DES-ECB'' ''des-ecb'' 29 [0x2b, 0x0e, 0x03, 0x02, 0x06],
   builtin_object ''DES-CFB'' ''des-cfb'' 30 [0x2b, 0x0e, 0x03, 0x02, 0x09],
   builtin_object ''DES-CBC'' ''des-cbc'' 31 [0x2b, 0x0e, 0x03, 0x02, 0x07],
   builtin_object ''DES-EDE'' ''des-ede'' 32 [0x2b, 0x0e, 0x03, 0x02, 0x11],
   builtin_object ''DES-EDE3'' ''des-ede3'' 33 [],
   builtin_object ''IDEA-CBC'' ''idea-cbc'' 34 [0x2b, 0x06, 0x01, 0x04, 0x01, 0x81, 0x3c, 0x07, 0x01, 0x01, 0x02],
   builtin_object ''IDEA-CFB'' ''idea-cfb'' 35 [],
   builtin_object ''IDEA-ECB'' ''idea-ecb'' 36 [],
   builtin_object ''RC2-CBC'' ''rc2-cbc'' 37 [0x2a, 0x86, 0x48, 0x86, 0xf7, 0x0d, 0x03, 0x02],
   builtin_object ''RC2-ECB'' ''rc2-ecb'' 38 [],
   builtin_object ''RC2-CFB'' ''rc2-cfb'' 39 [],
   builtin_object ''RC2-OFB'' ''rc2-ofb'' 40 [],
   builtin_object ''SHA'' ''sha'' 41 [0x2b, 0x0e, 0x03, 0x02, 0x12],
   builtin_object ''RSA-SHA'' ''shaWithRSAEncryption'' 42 [0x2b, 0x0e, 0x03, 0x02, 0x0f],
   builtin_object ''DES-EDE-CBC'' ''des-ede-cbc'' 43 [],
   builtin_object ''DES-EDE3-CBC'' ''des-ede3-cbc'' 44 [0x2a, 0x86, 0x48, 0x86, 0xf7, 0x0d, 0x03, 0x07],
   builtin_object ''DES-OFB'' ''des-ofb'' 45 [0x2b, 0x0e, 0x03, 0x02, 0x08],
   builtin_object ''IDEA-OFB'' ''idea-ofb'' 46 [],
   builtin_object ''pkcs9'' ''pkcs9'' 47 [0x2a, 0x86, 0x48, 0x86, 0xf7, 0x0d, 0x01, 0x09],
   builtin_object ''emailAddress'' ''emailAddress'' 48 [0x2a, 0x86, 0x48, 0x86, 0xf7, 0x0d, 0x01, 0x09, 0x01],
   builtin_object ''unstructuredName'' ''unstructuredName'' 49 [0x2a, 0x86, 0x48, 0x86, 0xf7, 0x0d, 0x01, 0x09, 0x02],
   builtin_object ''contentType'' ''contentType'' 50 [0x2a, 0x86, 0x48, 0x86, 0xf7, 0x0d, 0x01, 0x09, 0x03],
   builtin_object ''messageDigest'' ''messageDigest'' 51 [0x2a, 0x86, 0x48, 0x86, 0xf7, 0x0d, 0x01, 0x09, 0x04],
   builtin_object ''signingTime'' ''signingTime'' 52 [0x2a, 0x86, 0x48, 0x86, 0xf7, 0x0d, 0x01, 0x09, 0x05],
   builtin_object ''countersignature'' ''countersignature'' 53 [0x2a, 0x86, 0x48, 0x86, 0xf7, 0x0d, 0x01, 0x09, 0x06],
   builtin_object ''challengePassword'' ''challengePassword'' 54 [0x2a, 0x86, 0x48, 0x86, 0xf7, 0x0d, 0x01, 0x09, 0x07],
   builtin_object ''unstructuredAddress'' ''unstructuredAddress'' 55 [0x2a, 0x86, 0x48, 0x86, 0xf7, 0x0d, 0x01, 0x09, 0x08],
   builtin_object ''extendedCertificateAttributes'' ''extendedCertificateAttributes'' 56 [0x2a, 0x86, 0x48, 0x86, 0xf7, 0x0d, 0x01, 0x09, 0x09],
   builtin_object ''Netscape'' ''Netscape Communications Corp.'' 57 [0x60, 0x86, 0x48, 0x01, 0x86, 0xf8, 0x42],
   builtin_object ''nsCertExt'' ''Netscape Certificate Extension'' 58 [0x60, 0x86, 0x48, 0x01, 0x86, 0xf8, 0x42, 0x01],
   builtin_object ''nsDataType'' ''Netscape Data Type'' 59 [0x60, 0x86, 0x48, 0x01, 0x86, 0xf8, 0x42, 0x02],
   builtin_object ''DES-EDE-CFB'' ''des-ede-cfb'' 60 [],
   builtin_object ''DES-EDE3-CFB'' ''des-ede3-cfb'' 61 [],
   builtin_object ''DES-EDE-OFB'' ''des-ede-ofb'' 62 [],
   builtin_object ''DES-EDE3-OFB'' ''des-ede3-ofb'' 63 [],
   builtin_object ''SHA1'' ''sha1'' 64 [0x2b, 0x0e, 0x03, 0x02, 0x1a],
   builtin_object ''RSA-SHA1'' ''sha1WithRSAEncryption'' 65 [0x2a, 0x86, 0x48, 0x86, 0xf7, 0x0d, 0x01, 0x01, 0x05],
   builtin_object ''DSA-SHA'' ''dsaWithSHA'' 66 [0x2b, 0x0e, 0x03, 0x02, 0x0d],
   builtin_object ''DSA-old'' ''dsaEncryption-old'' 67 [0x2b, 0x0e, 0x03, 0x02, 0x0c],
   builtin_object ''PBE-SHA1-RC2-64'' ''pbeWithSHA1AndRC2-CBC'' 68 [0x2a, 0x86, 0x48, 0x86, 0xf7, 0x0d, 0x01, 0x05, 0x0b],
   builtin_object ''PBKDF2'' ''PBKDF2'' 69 [0x2a, 0x86, 0x48, 0x86, 0xf7, 0x0d, 0x01, 0x05, 0x0c],
   builtin_object ''DSA-SHA1-old'' ''dsaWithSHA1-old'' 70 [0x2b, 0x0e, 0x03, 0x02, 0x1b],
   builtin_object ''nsCertType'' ''Netscape Cert Type'' 71 [0x60, 0x86, 0x48, 0x01, 0x86, 0xf8, 0x42, 0x01, 0x01],
   builtin_object ''nsBaseUrl'' ''Netscape Base Url'' 72 [0x60, 0x86, 0x48, 0x01, 0x86, 0xf8, 0x42, 0x01, 0x02],
   builtin_object ''nsRevocationUrl'' ''Netscape Revocation Url'' 73 [0x60, 0x86, 0x48, 0x01, 0x86, 0xf8, 0x42, 0x01, 0x03],
   builtin_object ''nsCaRevocationUrl'' ''Netscape CA Revocation Url'' 74 [0x60, 0x86, 0x48, 0x01, 0x86, 0xf8, 0x42, 0x01, 0x04],
   builtin_object ''nsRenewalUrl'' ''Netscape Renewal Url'' 75 [0x60, 0x86, 0x48, 0x01, 0x86, 0xf8, 0x42, 0x01, 0x07],
   builtin_object ''nsCaPolicyUrl'' ''Netscape CA Policy Url'' 76 [0x60, 0x86, 0x48, 0x01, 0x86, 0xf8, 0x42, 0x01, 0x08],
   builtin_object ''nsSslServerName'' ''Netscape SSL Server Name'' 77 [0x60, 0x86, 0x48, 0x01, 0x86, 0xf8, 0x42, 0x01, 0x0c],
   builtin_object ''nsComment'' ''Netscape Comment'' 78 [0x60, 0x86, 0x48, 0x01, 0x86, 0xf8, 0x42, 0x01, 0x0d],
   builtin_object ''nsCertSequence'' ''Netscape Certificate Sequence'' 79 [0x60, 0x86, 0x48, 0x01, 0x86, 0xf8, 0x42, 0x02, 0x05],
   builtin_object ''DESX-CBC'' ''desx-cbc'' 80 [],
   builtin_object ''id-ce'' ''id-ce'' 81 [0x55, 0x1d],
   builtin_object ''subjectKeyIdentifier'' ''X509v3 Subject Key Identifier'' 82 [0x55, 0x1d, 0x0e],
   builtin_object ''keyUsage'' ''X509v3 Key Usage'' 83 [0x55, 0x1d, 0x0f],
   builtin_object ''privateKeyUsagePeriod'' ''X509v3 Private Key Usage Period'' 84 [0x55, 0x1d, 0x10],
   builtin_object ''subjectAltName'' ''X509v3 Subject Alternative Name'' 85 [0x55, 0x1d, 0x11],
   builtin_object ''issuerAltName'' ''X509v3 Issuer Alternative Name'' 86 [0x55, 0x1d, 0x12],
   builtin_object ''basicConstraints'' ''X509v3 Basic Constraints'' 87 [0x55, 0x1d, 0x13],
   builtin_object ''crlNumber'' ''X509v3 CRL Number'' 88 [0x55, 0x1d, 0x14],
   builtin_object ''certificatePolicies'' ''X509v3 Certificate Policies'' 89 [0x55, 0x1d, 0x20],
   builtin_object ''authorityKeyIdentifier'' ''X509v3 Authority Key Identifier'' 90 [0x55, 0x1d, 0x23],
   builtin_object ''BF-CBC'' ''bf-cbc'' 91 [0x2b, 0x06, 0x01, 0x04, 0x01, 0x97, 0x55, 0x01, 0x02],
   builtin_object ''BF-ECB'' ''bf-ecb'' 92 [],
   builtin_object ''BF-CFB'' ''bf-cfb'' 93 [],
   builtin_object ''BF-OFB'' ''bf-ofb'' 94 [],
   builtin_object ''MDC2'' ''mdc2'' 95 [0x55, 0x08, 0x03, 0x65],
   builtin_object ''RSA-MDC2'' ''mdc2WithRSA'' 96 [0x55, 0x08, 0x03, 0x64],
   builtin_object ''RC4-40'' ''rc4-40'' 97 [],
   builtin_object ''RC2-40-CBC'' ''rc2-40-cbc'' 98 [],
   builtin_object ''GN'' ''givenName'' 99 [0x55, 0x04, 0x2a],
   builtin_object ''SN'' ''surname'' 100 [0x55, 0x04, 0x04],
   builtin_object ''initials'' ''initials'' 101 [0x55, 0x04, 0x2b],
   unused_object,
   builtin_object ''crlDistributionPoints'' ''X509v3 CRL Distribution Points'' 103 [0x55, 0x1d, 0x1f],
   builtin_object ''RSA-NP-MD5'' ''md5WithRSA'' 104 [0x2b, 0x0e, 0x03, 0x02, 0x03]]"

definition kObjects_2 :: "asn1_object list" where
  "kObjects_2 = [
   builtin_object ''serialNumber'' ''serialNumber'' 105 [0x55, 0x04, 0x05],
   builtin_object ''title'' ''title'' 106 [0x55, 0x04, 0x0c],
   builtin_object ''description'' ''description'' 107 [0x55, 0x04, 0x0d],
   builtin_object ''CAST5-CBC'' ''cast5-cbc'' 108 [0x2a, 0x86, 0x48, 0x86, 0xf6, 0x7d, 0x07, 0x42, 0x0a],
   builtin_object ''CAST5-ECB'' ''cast5-ecb'' 109 [],
   builtin_object ''CAST5-CFB'' ''cast5-cfb'' 110 [],
   builtin_object ''CAST5-OFB'' ''cast5-ofb'' 111 [],
   builtin_object ''pbeWithMD5AndCast5CBC'' ''pbeWithMD5AndCast5CBC'' 112 [0x2a, 0x86, 0x48, 0x86, 0xf6, 0x7d, 0x07, 0x42, 0x0c],
   builtin_object ''DSA-SHA1'' ''dsaWithSHA1'' 113 [0x2a, 0x86, 0x48, 0xce, 0x38, 0x04, 0x03],
   builtin_object ''MD5-SHA1'' ''md5-sha1'' 114 [],
   builtin_object ''RSA-SHA1-2'' ''sha1WithRSA'' 115 [0x2b, 0x0e, 0x03, 0x02, 0x1d],
   builtin_object ''DSA'' ''dsaEncryption'' 116 [0x2a, 0x86, 0x48, 0xce, 0x38, 0x04, 0x01],
   builtin_object ''RIPEMD160'' ''ripemd160'' 117 [0x2b, 0x24, 0x03, 0x02, 0x01],
   unused_object,
   builtin_object ''RSA-RIPEMD160'' ''ripemd160WithRSA'' 119 [0x2b, 0x24, 0x03, 0x03, 0x01, 0x02],
   builtin_object ''RC5-CBC'' ''rc5-cbc'' 120 [0x2a, 0x86, 0x48, 0x86, 0xf7, 0x0d, 0x03, 0x08],
   builtin_object ''RC5-ECB'' ''rc5-ecb'' 121 [],
   builtin_object ''RC5-CFB'' ''rc5-cfb'' 122 [],
   builtin_object ''RC5-OFB'' ''rc5-ofb'' 123 [],
   unused_object,
   builtin_object ''ZLIB'' ''zlib compression'' 125 [0x2a, 0x86, 0x48, 0x86, 0xf7, 0x0d, 0x01, 0x09, 0x10, 0x03, 0x08],
   builtin_object ''extendedKeyUsage'' ''X509v3 Extended Key Usage'' 126 [0x55, 0x1d, 0x25],
   builtin_object ''PKIX'' ''PKIX'' 127 [0x2b, 0x06, 0x01, 0x05, 0x05, 0x07],
   builtin_object ''id-kp'' ''id-kp'' 128 [0x2b, 0x06, 0x01, 0x05, 0x05, 0x07, 0x03],
   builtin_object ''serverAuth'' ''TLS Web Server Authentication'' 129 [0x2b, 0x06, 0x01, 0x05, 0x05, 0x07, 0x03, 0x01],
   builtin_object ''clientAuth'' ''TLS Web Client Authentication'' 130 [0x2b, 0x06, 0x01, 0x05, 0x05, 0x07, 0x03, 0x02],
   builtin_object ''codeSigning'' ''Code Signing'' 131 [0x2b, 0x06, 0x01, 0x05, 0x05, 0x07, 0x03, 0x03],
   builtin_object ''emailProtection'' ''E-mail Protection'' 132 [0x2b, 0x06, 0x01, 0x05, 0x05, 0x07, 0x03, 0x04],
   builtin_object ''timeStamping'' ''Time Stamping'' 133 [0x2b, 0x06, 0x01, 0x05, 0x05, 0x07, 0x03, 0x08],
   builtin_object ''msCodeInd'' ''Microsoft Individual Code Signing'' 134 [0x2b, 0x06, 0x01, 0x04, 0x01, 0x82, 0x37, 0x02, 0x01, 0x15],
   builtin_object ''msCodeCom'' ''Microsoft Commercial Code Signing'' 135 [0x2b, 0x06, 0x01, 0x04, 0x01, 0x82, 0x37, 0x02, 0x01, 0x16],
   builtin_object ''msCTLSign'' ''Microsoft Trust List Signing'' 136 [0x2b, 0x06, 0x01, 0x04, 0x01, 0x82, 0x37, 0x0a, 0x03, 0x01],
   builtin_object ''msSGC'' ''Microsoft Server Gated Crypto'' 137 [0x2b, 0x06, 0x01, 0x04, 0x01, 0x82, 0x37, 0x0a, 0x03, 0x03],
   builtin_object ''msEFS'' ''Microsoft Encrypted File System'' 138 [0x2b, 0x06, 0x01, 0x04, 0x01, 0x82, 0x37, 0x0a, 0x03, 0x04],
   builtin_object ''nsSGC'' ''Netscape Server Gated Crypto'' 139 [0x60, 0x86, 0x48, 0x01, 0x86, 0xf8, 0x42, 0x04, 0x01],
   builtin_object ''deltaCRL'' ''X509v3 Delta CRL Indicator'' 140 [0x55, 0x1d, 0x1b],
   builtin_object ''CRLReason'' ''X509v3 CRL Reason Code'' 141 [0x55, 0x1d, 0x15],
   builtin_object ''invalidityDate'' ''Invalidity Date'' 142 [0x55, 0x1d, 0x18],
   builtin_object ''SXNetID'' ''Strong Extranet ID'' 143 [0x2b, 0x65, 0x01, 0x04, 0x01],
   builtin_object ''PBE-SHA1-RC4-128'' ''pbeWithSHA1And128BitRC4'' 144 [0x2a, 0x86, 0x48, 0x86, 0xf7, 0x0d, 0x01, 0x0c, 0x01, 0x01],
   builtin_object ''PBE-SHA1-RC4-40'' ''pbeWithSHA1And40BitRC4'' 145 [0x2a, 0x86, 0x48, 0x86, 0xf7, 0x0d, 0x01, 0x0c, 0x01, 0x02],
   builtin_object ''PBE-SHA1-3DES'' ''pbeWithSHA1And3-KeyTripleDES-CBC'' 146 [0x2a, 0x86, 0x48, 0x86, 0xf7, 0x0d, 0x01, 0x0c, 0x01, 0x03],
   builtin_object ''PBE-SHA1-2DES'' ''pbeWithSHA1And2-KeyTripleDES-CBC'' 147 [0x2a, 0x86, 0x48, 0x86, 0xf7, 0x0d, 0x01, 0x0c, 0x01, 0x04],
   builtin_object ''PBE-SHA1-RC2-128'' ''pbeWithSHA1And128BitRC2-CBC'' 148 [0x2a, 0x86, 0x48, 0x86, 0xf7, 0x0d, 0x01, 0x0c, 0x01, 0x05],
   builtin_object ''PBE-SHA1-RC2-40'' ''pbeWithSHA1And40BitRC2-CBC'' 149 [0x2a, 0x86, 0x48, 0x86, 0xf7, 0x0d, 0x01, 0x0c, 0x01, 0x06],
   builtin_object ''keyBag'' ''keyBag'' 150 [0x2a, 0x86, 0x48, 0x86, 0xf7, 0x0d, 0x01, 0x0c, 0x0a, 0x01, 0x01],
   builtin_object ''pkcs8ShroudedKeyBag'' ''pkcs8ShroudedKeyBag'' 151 [0x2a, 0x86, 0x48, 0x86, 0xf7, 0x0d, 0x01, 0x0c, 0x0a, 0x01, 0x02],
   builtin_object ''certBag'' ''certBag'' 152 [0x2a, 0x86, 0x48, 0x86, 0xf7, 0x0d, 0x01, 0x0c, 0x0a, 0x01, 0x03],
   builtin_object ''crlBag'' ''crlBag'' 153 [0x2a, 0x86, 0x48, 0x86, 0xf7, 0x0d, 0x01, 0x0c, 0x0a, 0x01, 0x04],
   builtin_object ''secretBag'' ''secretBag'' 154 [0x2a, 0x86, 0x48, 0x86, 0xf7, 0x0d, 0x01, 0x0c, 0x0a, 0x01, 0x05],
   builtin_object ''safeContentsBag'' ''safeContentsBag'' 155 [0x2a, 0x86, 0x48, 0x86, 0xf7, 0x0d, 0x01, 0x0c, 0x0a, 0x01, 0x06],
   builtin_object ''friendlyName'' ''friendlyName'' 156 [0x2a, 0x86, 0x48, 0x86, 0xf7, 0x0d, 0x01, 0x09, 0x14],
   builtin_object ''localKeyID'' ''localKeyID'' 157 [0x2a, 0x86, 0x48, 0x86, 0xf7, 0x0d, 0x01, 0x09, 0x15],
   builtin_object ''x509Certificate'' ''x509Certificate'' 158 [0x2a, 0x86, 0x48, 0x86, 0xf7, 0x0d, 0x01, 0x09, 0x16, 0x01],
   builtin_object ''sdsiCertificate'' ''sdsiCertificate'' 159 [0x2a, 0x86, 0x48, 0x86, 0xf7, 0x0d, 0x01, 0x09, 0x16, 0x02],
   builtin_object ''x509Crl'' ''x509Crl'' 160 [0x2a, 0x86, 0x48, 0x86, 0xf7, 0x0d, 0x01, 0x09, 0x17, 0x01],
   builtin_object ''PBES2'' ''PBES2'' 161 [0x2a, 0x86, 0x48, 0x86, 0xf7, 0x0d, 0x01, 0x05, 0x0d],
   builtin_object ''PBMAC1'' ''PBMAC1'' 162 [0x2a, 0x86, 0x48, 0x86, 0xf7, 0x0d, 0x01, 0x05, 0x0e],
   builtin_object ''hmacWithSHA1'' ''hmacWithSHA1'' 163 [0x2a, 0x86, 0x48, 0x86, 0xf7, 0x0d, 0x02, 0x07],
   builtin_object ''id-qt-cps'' ''Policy Qualifier CPS'' 164 [0x2b, 0x06, 0x01, 0x05, 0x05, 0x07, 0x02, 0x01],
   builtin_object ''id-qt-unotice'' ''Policy Qualifier User Notice'' 165 [0x2b, 0x06, 0x01, 0x05, 0x05, 0x07, 0x02, 0x02],
   builtin_object ''RC2-64-CBC'' ''rc2-64-cbc'' 166 [],
   builtin_object ''SMIME-CAPS'' ''S/MIME Capabilities'' 167 [0x2a, 0x86, 0x48, 0x86, 0xf7, 0x0d, 0x01, 0x09, 0x0f],
   builtin_object ''PBE-MD2-RC2-64'' ''pbeWithMD2AndRC2-CBC'' 168 [0x2a, 0x86, 0x48, 0x86, 0xf7, 0x0d, 0x01, 0x05, 0x04],
   builtin_object ''PBE-MD5-RC2-64'' ''pbeWithMD5AndRC2-CBC'' 169 [0x2a, 0x86, 0x48, 0x86, 0xf7, 0x0d, 0x01, 0x05, 0x06],
   builtin_object ''PBE-SHA1-DES'' ''pbeWithSHA1AndDES-CBC'' 170 [0x2a, 0x86, 0x48, 0x86, 0xf7, 0x0d, 0x01, 0x05, 0x0a],
   builtin_object ''msExtReq'' ''Microsoft Extension Request'' 171 [0x2b, 0x06, 0x01, 0x04, 0x01, 0x82, 0x37, 0x02, 0x01, 0x0e],
   builtin_object ''extReq'' ''Extension Request'' 172 [0x2a, 0x86, 0x48, 0x86, 0xf7, 0x0d, 0x01, 0x09, 0x0e],
   builtin_object ''name'' ''name'' 173 [0x55, 0x04, 0x29],
   builtin_object ''dnQualifier'' ''dnQualifier'' 174 [0x55, 0x04, 0x2e],
   builtin_object ''id-pe'' ''id-pe'' 175 [0x2b, 0x06, 0x01, 0x05, 0x05, 0x07, 0x01],
   builtin_object ''id-ad'' ''id-ad'' 176 [0x2b, 0x06, 0x01, 0x05, 0x05, 0x07, 0x30],
   builtin_object ''authorityInfoAccess'' ''Authority Information Access'' 177 [0x2b, 0x06, 0x01, 0x05, 0x05, 0x07, 0x01, 0x01],
   builtin_object ''OCSP'' ''OCSP'' 178 [0x2b, 0x06, 0x01, 0x05, 0x05, 0x07, 0x30, 0x01],
   builtin_object ''caIssuers'' ''CA Issuers'' 179 [0x2b, 0x06, 0x01, 0x05, 0x05, 0x07, 0x30, 0x02],
   builtin_object ''OCSPSigning'' ''OCSP Signing'' 180 [0x2b, 0x06, 0x01, 0x05, 0x05, 0x07, 0x03, 0x09],
   builtin_object ''ISO'' ''iso'' 181 [],
   builtin_object ''member-body'' ''ISO Member Body'' 182 [0x2a],
   builtin_object ''ISO-US'' ''ISO US Member Body'' 183 [0x2a, 0x86, 0x48],
   builtin_object ''X9-57'' ''X9.57'' 184 [0x2a, 0x86, 0x48, 0xce, 0x38],
   builtin_object ''X9cm'' ''X9.57 CM ?'' 185 [0x2a, 0x86, 0x48, 0xce, 0x38, 0x04],
   builtin_object ''pkcs1'' ''pkcs1'' 186 [0x2a, 0x86, 0x48, 0x86, 0xf7, 0x0d, 0x01, 0x01],
   builtin_object ''pkcs5'' ''pkcs5'' 187 [0x2a, 0x86, 0x48, 0x86, 0xf7, 0x0d, 0x01, 0x05],
   builtin_object ''SMIME'' ''S/MIME'' 188 [0x2a, 0x86, 0x48, 0x86, 0xf7, 0x0d, 0x01, 0x09, 0x10],
   builtin_object ''id-smime-mod'' ''id-smime-mod'' 189 [0x2a, 0x86, 0x48, 0x86, 0xf7, 0x0d, 0x01, 0x09, 0x10, 0x00],
   builtin_object ''id-smime-ct'' ''id-smime-ct'' 190 [0x2a, 0x86, 0x48, 0x86, 0xf7, 0x0d, 0x01, 0x09, 0x10, 0x01],
   builtin_object ''id-smime-aa'' ''id-smime-aa'' 191 [0x2a, 0x86, 0x48, 0x86, 0xf7, 0x0d, 0x01, 0x09, 0x10, 0x02],
   builtin_object ''id-smime-alg'' ''id-smime-alg'' 192 [0x2a, 0x86, 0x48, 0x86, 0xf7, 0x0d, 0x01, 0x09, 0x10, 0x03],
   builtin_object ''id-smime-cd'' ''id-smime-cd'' 193 [0x2a, 0x86, 0x48, 0x86, 0xf7, 0x0d, 0x01, 0x09, 0x10, 0x04],
   builtin_object ''id-smime-spq'' ''id-smime-spq'' 194 [0x2a, 0x86, 0x48, 0x86, 0xf7, 0x0d, 0x01, 0x09, 0x10, 0x05],
   builtin_object ''id-smime-cti'' ''id-smime-cti'' 195 [0x2a, 0x86, 0x48, 0x86, 0xf7, 0x0d, 0x01, 0x09, 0x10, 0x06],
   builtin_object ''id-smime-mod-cms'' ''id-smime-mod-cms'' 196 [0x2a, 0x86, 0x48, 0x86, 0xf7, 0x0d, 0x01, 0x09, 0x10, 0x00, 0x01],
   builtin_object ''id-smime-mod-ess'' ''id-smime-mod-ess'' 197 [0x2a, 0x86, 0x48, 0x86, 0xf7, 0x0d, 0x01, 0x09, 0x10, 0x00, 0x02],
   builtin_object ''id-smime-mod-oid'' ''id-smime-mod-oid'' 198 [0x2a, 0x86, 0x48, 0x86, 0xf7, 0x0d, 0x01, 0x09, 0x10, 0x00, 0x03],
   builtin_object ''id-smime-mod-msg-v3'' ''id-smime-mod-msg-v3'' 199 [0x2a, 0x86, 0x48, 0x86, 0xf7, 0x0d, 0x01, 0x09, 0x10, 0x00, 0x04],
   builtin_object ''id-smime-mod-ets-eSignature-88'' ''id-smime-mod-ets-eSignature-88'' 200 [0x2a, 0x86, 0x48, 0x86, 0xf7, 0x0d, 0x01, 0x09, 0x10, 0x00, 0x05],
   builtin_object ''id-smime-mod-ets-eSignature-97'' ''id-smime-mod-ets-eSignature-97'' 201 [0x2a, 0x86, 0x48, 0x86, 0xf7, 0x0d, 0x01, 0x09, 0x10, 0x00, 0x06],
   builtin_object ''id-smime-mod-ets-eSigPolicy-88'' ''id-smime-mod-ets-eSigPolicy-88'' 202 [0x2a, 0x86, 0x48, 0x86, 0xf7, 0x0d, 0x01, 0x09, 0x10, 0x00, 0x07],
   builtin_object ''id-smime-mod-ets-eSigPolicy-97'' ''id-smime-mod-ets-eSigPolicy-97'' 203 [0x2a, 0x86, 0x48, 0x86, 0xf7, 0x0d, 0x01, 0x09, 0x10, 0x00, 0x08],
   builtin_object ''id-smime-ct-receipt'' ''id-smime-ct-receipt'' 204 [0x2a, 0x86, 0x48, 0x86, 0xf7, 0x0d, 0x01, 0x09, 0x10, 0x01, 0x01],
   builtin_object ''id-smime-ct-authData'' ''id-smime-ct-authData'' 205 [0x2a, 0x86, 0x48, 0x86, 0xf7, 0x0d, 0x01, 0x09, 0x10, 0x01, 0x02]]"

definition kObjects_3 :: "asn1_object list" where
  "kObjects_3 = [
   builtin_object ''id-smime-ct-publishCert'' ''id-smime-ct-publishCert'' 206 [0x2a, 0x86, 0x48, 0x86, 0xf7, 0x0d, 0x01, 0x09, 0x10, 0x01, 0x03],
   builtin_object ''id-smime-ct-TSTInfo'' ''id-smime-ct-TSTInfo'' 207 [0x2a, 0x86, 0x48, 0x86, 0xf7, 0x0d, 0x01, 0x09, 0x10, 0x01, 0x04],
   builtin_object ''id-smime-ct-TDTInfo'' ''id-smime-ct-TDTInfo'' 208 [0x2a, 0x86, 0x48, 0x86, 0xf7, 0x0d, 0x01, 0x09, 0x10, 0x01, 0x05],
   builtin_object ''id-smime-ct-contentInfo'' ''id-smime-ct-contentInfo'' 209 [0x2a, 0x86, 0x48, 0x86, 0xf7, 0x0d, 0x01, 0x09, 0x10, 0x01, 0x06],
   builtin_object ''id-smime-ct-DVCSRequestData'' ''id-smime-ct-DVCSRequestData'' 210 [0x2a, 0x86, 0x48, 0x86, 0xf7, 0x0d, 0x01, 0x09, 0x10, 0x01, 0x07],
   builtin_object ''id-smime-ct-DVCSResponseData'' ''id-smime-ct-DVCSResponseData'' 211 [0x2a, 0x86, 0x48, 0x86, 0xf7, 0x0d, 0x01, 0x09, 0x10, 0x01, 0x08],
   builtin_object ''id-smime-aa-receiptRequest'' ''id-smime-aa-receiptRequest'' 212 [0x2a, 0x86, 0x48, 0x86, 0xf7, 0x0d, 0x01, 0x09, 0x10, 0x02, 0x01],
   builtin_object ''id-smime-aa-securityLabel'' ''id-smime-aa-securityLabel'' 213 [0x2a, 0x86, 0x48, 0x86, 0xf7, 0x0d, 0x01, 0x09, 0x10, 0x02, 0x02],
   builtin_object ''id-smime-aa-mlExpandHistory'' ''id-smime-aa-mlExpandHistory'' 214 [0x2a, 0x86, 0x48, 0x86, 0xf7, 0x0d, 0x01, 0x09, 0x10, 0x02, 0x03],
   builtin_object ''id-smime-aa-contentHint'' ''id-smime-aa-contentHint'' 215 [0x2a, 0x86, 0x48, 0x86, 0xf7, 0x0d, 0x01, 0x09, 0x10, 0x02, 0x04],
   builtin_object ''id-smime-aa-msgSigDigest'' ''id-smime-aa-msgSigDigest'' 216 [0x2a, 0x86, 0x48, 0x86, 0xf7, 0x0d, 0x01, 0x09, 0x10, 0x02, 0x05],
   builtin_object ''id-smime-aa-encapContentType'' ''id-smime-aa-encapContentType'' 217 [0x2a, 0x86, 0x48, 0x86, 0xf7, 0x0d, 0x01, 0x09, 0x10, 0x02, 0x06],
   builtin_object ''id-smime-aa-contentIdentifier'' ''id-smime-aa-contentIdentifier'' 218 [0x2a, 0x86, 0x48, 0x86, 0xf7, 0x0d, 0x01, 0x09, 0x10, 0x02, 0x07],
   builtin_object ''id-smime-aa-macValue'' ''id-smime-aa-macValue'' 219 [0x2a, 0x86, 0x48, 0x86, 0xf7, 0x0d, 0x01, 0x09, 0x10, 0x02, 0x08],
   builtin_object ''id-smime-aa-equivalentLabels'' ''id-smime-aa-equivalentLabels'' 220 [0x2a, 0x86, 0x48, 0x86, 0xf7, 0x0d, 0x01, 0x09, 0x10, 0x02, 0x09],
   builtin_object ''id-smime-aa-contentReference'' ''id-smime-aa-contentReference'' 221 [0x2a, 0x86, 0x48, 0x86, 0xf7, 0x0d, 0x01, 0x09, 0x10, 0x02, 0x0a],
   builtin_object ''id-smime-aa-encrypKeyPref'' ''id-smime-aa-encrypKeyPref'' 222 [0x2a, 0x86, 0x48, 0x86, 0xf7, 0x0d, 0x01, 0x09, 0x10, 0x02, 0x0b],
   builtin_object ''id-smime-aa-signingCertificate'' ''id-smime-aa-signingCertificate'' 223 [0x2a, 0x86, 0x48, 0x86, 0xf7, 0x0d, 0x01, 0x09, 0x10, 0x02, 0x0c],
   builtin_object ''id-smime-aa-smimeEncryptCerts'' ''id-smime-aa-smimeEncryptCerts'' 224 [0x2a, 0x86, 0x48, 0x86, 0xf7, 0x0d, 0x01, 0x09, 0x10, 0x02, 0x0d],
   builtin_object ''id-smime-aa-timeStampToken'' ''id-smime-aa-timeStampToken'' 225 [0x2a, 0x86, 0x48, 0x86, 0xf7, 0x0d, 0x01, 0x09, 0x10, 0x02, 0x0e],
   builtin_object ''id-smime-aa-ets-sigPolicyId'' ''id-smime-aa-ets-sigPolicyId'' 226 [0x2a, 0x86, 0x48, 0x86, 0xf7, 0x0d, 0x01, 0x09, 0x10, 0x02, 0x0f],
   builtin_object ''id-smime-aa-ets-commitmentType'' ''id-smime-aa-ets-commitmentType'' 227 [0x2a, 0x86, 0x48, 0x86, 0xf7, 0x0d, 0x01, 0x09, 0x10, 0x02, 0x10],
   builtin_object ''id-smime-aa-ets-signerLocation'' ''id-smime-aa-ets-signerLocation'' 228 [0x2a, 0x86, 0x48, 0x86, 0xf7, 0x0d, 0x01, 0x09, 0x10, 0x02, 0x11],
   builtin_object ''id-smime-aa-ets-signerAttr'' ''id-smime-aa-ets-signerAttr'' 229 [0x2a, 0x86, 0x48, 0x86, 0xf7, 0x0d, 0x01, 0x09, 0x10, 0x02, 0x12],
   builtin_object ''id-smime-aa-ets-otherSigCert'' ''id-smime-aa-ets-otherSigCert'' 230 [0x2a, 0x86, 0x48, 0x86, 0xf7, 0x0d, 0x01, 0x09, 0x10, 0x02, 0x13],
   builtin_object ''id-smime-aa-ets-contentTimestamp'' ''id-smime-aa-ets-contentTimestamp'' 231 [0x2a, 0x86, 0x48, 0x86, 0xf7, 0x0d, 0x01, 0x09, 0x10, 0x02, 0x14],
   builtin_object ''id-smime-aa-ets-CertificateRefs'' ''id-smime-aa-ets-CertificateRefs'' 232 [0x2a, 0x86, 0x48, 0x86, 0xf7, 0x0d, 0x01, 0x09, 0x10, 0x02, 0x15],
   builtin_object ''id-smime-aa-ets-RevocationRefs'' ''id-smime-aa-ets-RevocationRefs'' 233 [0x2a, 0x86, 0x48, 0x86, 0xf7, 0x0d, 0x01, 0x09, 0x10, 0x02, 0x16],
   builtin_object ''id-smime-aa-ets-certValues'' ''id-smime-aa-ets-certValues'' 234 [0x2a, 0x86, 0x48, 0x86, 0xf7, 0x0d, 0x01, 0x09, 0x10, 0x02, 0x17],
   builtin_object ''id-smime-aa-ets-revocationValues'' ''id-smime-aa-ets-revocationValues'' 235 [0x2a, 0x86, 0x48, 0x86, 0xf7, 0x0d, 0x01, 0x09, 0x10, 0x02, 0x18],
   builtin_object ''id-smime-aa-ets-escTimeStamp'' ''id-smime-aa-ets-escTimeStamp'' 236 [0x2a, 0x86, 0x48, 0x86, 0xf7, 0x0d, 0x01, 0x09, 0x10, 0x02, 0x19],
   builtin_object ''id-smime-aa-ets-certCRLTimestamp'' ''id-smime-aa-ets-certCRLTimestamp'' 237 [0x2a, 0x86, 0x48, 0x86, 0xf7, 0x0d, 0x01, 0x09, 0x10, 0x02, 0x1a],
   builtin_object ''id-smime-aa-ets-archiveTimeStamp'' ''id-smime-aa-ets-archiveTimeStamp'' 238 [0x2a, 0x86, 0x48, 0x86, 0xf7, 0x0d, 0x01, 0x09, 0x10, 0x02, 0x1b],
   builtin_object ''id-smime-aa-signatureType'' ''id-smime-aa-signatureType'' 239 [0x2a, 0x86, 0x48, 0x86, 0xf7, 0x0d, 0x01, 0x09, 0x10, 0x02, 0x1c],
   builtin_object ''id-smime-aa-dvcs-dvc'' ''id-smime-aa-dvcs-dvc'' 240 [0x2a, 0x86, 0x48, 0x86, 0xf7, 0x0d, 0x01, 0x09, 0x10, 0x02, 0x1d],
   builtin_object ''id-smime-alg-ESDHwith3DES'' ''id-smime-alg-ESDHwith3DES'' 241 [0x2a, 0x86, 0x48, 0x86, 0xf7, 0x0d, 0x01, 0x09, 0x10, 0x03, 0x01],
   builtin_object ''id-smime-alg-ESDHwithRC2'' ''id-smime-alg-ESDHwithRC2'' 242 [0x2a, 0x86, 0x48, 0x86, 0xf7, 0x0d, 0x01, 0x09, 0x10, 0x03, 0x02],
   builtin_object ''id-smime-alg-3DESwrap'' ''id-smime-alg-3DESwrap'' 243 [0x2a, 0x86, 0x48, 0x86, 0xf7, 0x0d, 0x01, 0x09, 0x10, 0x03, 0x03],
   builtin_object ''id-smime-alg-RC2wrap'' ''id-smime-alg-RC2wrap'' 244 [0x2a, 0x86, 0x48, 0x86, 0xf7, 0x0d, 0x01, 0x09, 0x10, 0x03, 0x04],
   builtin_object ''id-smime-alg-ESDH'' ''id-smime-alg-ESDH'' 245 [0x2a, 0x86, 0x48, 0x86, 0xf7, 0x0d, 0x01, 0x09, 0x10, 0x03, 0x05],
   builtin_object ''id-smime-alg-CMS3DESwrap'' ''id-smime-alg-CMS3DESwrap'' 246 [0x2a, 0x86, 0x48, 0x86, 0xf7, 0x0d, 0x01, 0x09, 0x10, 0x03, 0x06],
   builtin_object ''id-smime-alg-CMSRC2wrap'' ''id-smime-alg-CMSRC2wrap'' 247 [0x2a, 0x86, 0x48, 0x86, 0xf7, 0x0d, 0x01, 0x09, 0x10, 0x03, 0x07],
   builtin_object ''id-smime-cd-ldap'' ''id-smime-cd-ldap'' 248 [0x2a, 0x86, 0x48, 0x86, 0xf7, 0x0d, 0x01, 0x09, 0x10, 0x04, 0x01],
   builtin_object ''id-smime-spq-ets-sqt-uri'' ''id-smime-spq-ets-sqt-uri'' 249 [0x2a, 0x86, 0x48, 0x86, 0xf7, 0x0d, 0x01, 0x09, 0x10, 0x05, 0x01],
   builtin_object ''id-smime-spq-ets-sqt-unotice'' ''id-smime-spq-ets-sqt-unotice'' 250 [0x2a, 0x86, 0x48, 0x86, 0xf7, 0x0d, 0x01, 0x09, 0x10, 0x05, 0x02],
   builtin_object ''id-smime-cti-ets-proofOfOrigin'' ''id-smime-cti-ets-proofOfOrigin'' 251 [0x2a, 0x86, 0x48, 0x86, 0xf7, 0x0d, 0x01, 0x09, 0x10, 0x06, 0x01],
   builtin_object ''id-smime-cti-ets-proofOfReceipt'' ''id-smime-cti-ets-proofOfReceipt'' 252 [0x2a, 0x86, 0x48, 0x86, 0xf7, 0x0d, 0x01, 0x09, 0x10, 0x06, 0x02],
   builtin_object ''id-smime-cti-ets-proofOfDelivery'' ''id-smime-cti-ets-proofOfDelivery'' 253 [0x2a, 0x86, 0x48, 0x86, 0xf7, 0x0d, 0x01, 0x09, 0x10, 0x06, 0x03],
   builtin_object ''id-smime-cti-ets-proofOfSender'' ''id-smime-cti-ets-proofOfSender'' 254 [0x2a, 0x86, 0x48, 0x86, 0xf7, 0x0d, 0x01, 0x09, 0x10, 0x06, 0x04],
   builtin_object ''id-smime-cti-ets-proofOfApproval'' ''id-smime-cti-ets-proofOfApproval'' 255 [0x2a, 0x86, 0x48, 0x86, 0xf7, 0x0d, 0x01, 0x09, 0x10, 0x06, 0x05],
   builtin_object ''id-smime-cti-ets-proofOfCreation'' ''id-smime-cti-ets-proofOfCreation'' 256 [0x2a, 0x86, 0x48, 0x86, 0xf7, 0x0d, 0x01, 0x09, 0x10, 0x06, 0x06],
   builtin_object ''MD4'' ''md4'' 257 [0x2a, 0x86, 0x48, 0x86, 0xf7, 0x0d, 0x02, 0x04],
   builtin_object ''id-pkix-mod'' ''id-pkix-mod'' 258 [0x2b, 0x06, 0x01, 0x05, 0x05, 0x07, 0x00],
   builtin_object ''id-qt'' ''id-qt'' 259 [0x2b, 0x06, 0x01, 0x05, 0x05, 0x07, 0x02],
   builtin_object ''id-it'' ''id-it'' 260 [0x2b, 0x06, 0x01, 0x05, 0x05, 0x07, 0x04],
   builtin_object ''id-pkip'' ''id-pkip'' 261 [0x2b, 0x06, 0x01, 0x05, 0x05, 0x07, 0x05],
   builtin_object ''id-alg'' ''id-alg'' 262 [0x2b, 0x06, 0x01, 0x05, 0x05, 0x07, 0x06],
   builtin_object ''id-cmc'' ''id-cmc'' 263 [0x2b, 0x06, 0x01, 0x05, 0x05, 0x07, 0x07],
   builtin_object ''id-on'' ''id-on'' 264 [0x2b, 0x06, 0x01, 0x05, 0x05, 0x07, 0x08],
   builtin_object ''id-pda'' ''id-pda'' 265 [0x2b, 0x06, 0x01, 0x05, 0x05, 0x07, 0x09],
   builtin_object ''id-aca'' ''id-aca'' 266 [0x2b, 0x06, 0x01, 0x05, 0x05, 0x07, 0x0a],
   builtin_object ''id-qcs'' ''id-qcs'' 267 [0x2b, 0x06, 0x01, 0x05, 0x05, 0x07, 0x0b],
   builtin_object ''id-cct'' ''id-cct'' 268 [0x2b, 0x06, 0x01, 0x05, 0x05, 0x07, 0x0c],
   builtin_object ''id-pkix1-explicit-88'' ''id-pkix1-explicit-88'' 269 [0x2b, 0x06, 0x01, 0x05, 0x05, 0x07, 0x00, 0x01],
   builtin_object ''id-pkix1-implicit-88'' ''id-pkix1-implicit-88'' 270 [0x2b, 0x06, 0x01, 0x05, 0x05, 0x07, 0x00, 0x02],
   builtin_object ''id-pkix1-explicit-93'' ''id-pkix1-explicit-93'' 271 [0x2b, 0x06, 0x01, 0x05, 0x05, 0x07, 0x00, 0x03],
   builtin_object ''id-pkix1-implicit-93'' ''id-pkix1-implicit-93'' 272 [0x2b, 0x06, 0x01, 0x05, 0x05, 0x07, 0x00, 0x04],
   builtin_object ''id-mod-crmf'' ''id-mod-crmf'' 273 [0x2b, 0x06, 0x01, 0x05, 0x05, 0x07, 0x00, 0x05],
   builtin_object ''id-mod-cmc'' ''id-mod-cmc'' 274 [0x2b, 0x06, 0x01, 0x05, 0x05, 0x07, 0x00, 0x06],
   builtin_object ''id-mod-kea-profile-88'' ''id-mod-kea-profile-88'' 275 [0x2b, 0x06, 0x01, 0x05, 0x05, 0x07, 0x00, 0x07],
   builtin_object ''id-mod-kea-profile-93'' ''id-mod-kea-profile-93'' 276 [0x2b, 0x06, 0x01, 0x05, 0x05, 0x07, 0x00, 0x08],
   builtin_object ''id-mod-cmp'' ''id-mod-cmp'' 277 [0x2b, 0x06, 0x01, 0x05, 0x05, 0x07, 0x00, 0x09],
   builtin_object ''id-mod-qualified-cert-88'' ''id-mod-qualified-cert-88'' 278 [0x2b, 0x06, 0x01, 0x05, 0x05, 0x07, 0x00, 0x0a],
   builtin_object ''id-mod-qualified-cert-93'' ''id-mod-qualified-cert-93'' 279 [0x2b, 0x06, 0x01, 0x05, 0x05, 0x07, 0x00, 0x0b],
   builtin_object ''id-mod-attribute-cert'' ''id-mod-attribute-cert'' 280 [0x2b, 0x06, 0x01, 0x05, 0x05, 0x07, 0x00, 0x0c],
   builtin_object ''id-mod-timestamp-protocol'' ''id-mod-timestamp-protocol'' 281 [0x2b, 0x06, 0x01, 0x05, 0x05, 0x07, 0x00, 0x0d],
   builtin_object ''id-mod-ocsp'' ''id-mod-ocsp'' 282 [0x2b, 0x06, 0x01, 0x05, 0x05, 0x07, 0x00, 0x0e],
   builtin_object ''id-mod-dvcs'' ''id-mod-dvcs'' 283 [0x2b, 0x06, 0x01, 0x05, 0x05, 0x07, 0x00, 0x0f],
   builtin_object ''id-mod-cmp2000'' ''id-mod-cmp2000'' 284 [0x2b, 0x06, 0x01, 0x05, 0x05, 0x07, 0x00, 0x10],
   builtin_object ''biometricInfo'' ''Biometric Info'' 285 [0x2b, 0x06, 0x01, 0x05, 0x05, 0x07, 0x01, 0x02],
   builtin_object ''qcStatements'' ''qcStatements'' 286 [0x2b, 0x06, 0x01, 0x05, 0x05, 0x07, 0x01, 0x03],
   builtin_object ''ac-auditEntity'' ''ac-auditEntity'' 287 [0x2b, 0x06, 0x01, 0x05, 0x05, 0x07, 0x01, 0x04],
   builtin_object ''ac-targeting'' ''ac-targeting'' 288 [0x2b, 0x06, 0x01, 0x05, 0x05, 0x07, 0x01, 0x05],
   builtin_object ''aaControls'' ''aaControls'' 289 [0x2b, 0x06, 0x01, 0x05, 0x05, 0x07, 0x01, 0x06]]"

definition kObjects_4 :: "asn1_object list" where
  "kObjects_4 = [
   builtin_object ''sbgp-ipAddrBlock'' ''sbgp-ipAddrBlock'' 290 [0x2b, 0x06, 0x01, 0x05, 0x05, 0x07, 0x01, 0x07],
   builtin_object ''sbgp-autonomousSysNum'' ''sbgp-autonomousSysNum'' 291 [0x2b, 0x06, 0x01, 0x05, 0x05, 0x07, 0x01, 0x08],
   builtin_object ''sbgp-routerIdentifier'' ''sbgp-routerIdentifier'' 292 [0x2b, 0x06, 0x01, 0x05, 0x05, 0x07, 0x01, 0x09],
   builtin_object ''textNotice'' ''textNotice'' 293 [0x2b, 0x06, 0x01, 0x05, 0x05, 0x07, 0x02, 0x03],
   builtin_object ''ipsecEndSystem'' ''IPSec End System'' 294 [0x2b, 0x06, 0x01, 0x05, 0x05, 0x07, 0x03, 0x05],
   builtin_object ''ipsecTunnel'' ''IPSec Tunnel'' 295 [0x2b, 0x06, 0x01, 0x05, 0x05, 0x07, 0x03, 0x06],
   builtin_object ''ipsecUser'' ''IPSec User'' 296 [0x2b, 0x06, 0x01, 0x05, 0x05, 0x07, 0x03, 0x07],
   builtin_object ''DVCS'' ''dvcs'' 297 [0x2b, 0x06, 0x01, 0x05, 0x05, 0x07, 0x03, 0x0a],
   builtin_object ''id-it-caProtEncCert'' ''id-it-caProtEncCert'' 298 [0x2b, 0x06, 0x01, 0x05, 0x05, 0x07, 0x04, 0x01],
   builtin_object ''id-it-signKeyPairTypes'' ''id-it-signKeyPairTypes'' 299 [0x2b, 0x06, 0x01, 0x05, 0x05, 0x07, 0x04, 0x02],
   builtin_object ''id-it-encKeyPairTypes'' ''id-it-encKeyPairTypes'' 300 [0x2b, 0x06, 0x01, 0x05, 0x05, 0x07, 0x04, 0x03],
   builtin_object ''id-it-preferredSymmAlg'' ''id-it-preferredSymmAlg'' 301 [0x2b, 0x06, 0x01, 0x05, 0x05, 0x07, 0x04, 0x04],
   builtin_object ''id-it-caKeyUpdateInfo'' ''id-it-caKeyUpdateInfo'' 302 [0x2b, 0x06, 0x01, 0x05, 0x05, 0x07, 0x04, 0x05],
   builtin_object ''id-it-currentCRL'' ''id-it-currentCRL'' 303 [0x2b, 0x06, 0x01, 0x05, 0x05, 0x07, 0x04, 0x06],
   builtin_object ''id-it-unsupportedOIDs'' ''id-it-unsupportedOIDs'' 304 [0x2b, 0x06, 0x01, 0x05, 0x05, 0x07, 0x04, 0x07],
   builtin_object ''id-it-subscriptionRequest'' ''id-it-subscriptionRequest'' 305 [0x2b, 0x06, 0x01, 0x05, 0x05, 0x07, 0x04, 0x08],
   builtin_object ''id-it-subscriptionResponse'' ''id-it-subscriptionResponse'' 306 [0x2b, 0x06, 0x01, 0x05, 0x05, 0x07, 0x04, 0x09],
   builtin_object ''id-it-keyPairParamReq'' ''id-it-keyPairParamReq'' 307 [0x2b, 0x06, 0x01, 0x05, 0x05, 0x07, 0x04, 0x0a],
   builtin_object ''id-it-keyPairParamRep'' ''id-it-keyPairParamRep'' 308 [0x2b, 0x06, 0x01, 0x05, 0x05, 0x07, 0x04, 0x0b],
   builtin_object ''id-it-revPassphrase'' ''id-it-revPassphrase'' 309 [0x2b, 0x06, 0x01, 0x05, 0x05, 0x07, 0x04, 0x0c],
   builtin_object ''id-it-implicitConfirm'' ''id-it-implicitConfirm'' 310 [0x2b, 0x06, 0x01, 0x05, 0x05, 0x07, 0x04, 0x0d],
   builtin_object ''id-it-confirmWaitTime'' ''id-it-confirmWaitTime'' 311 [0x2b, 0x06, 0x01, 0x05, 0x05, 0x07, 0x04, 0x0e],
   builtin_object ''id-it-origPKIMessage'' ''id-it-origPKIMessage'' 312 [0x2b, 0x06, 0x01, 0x05, 0x05, 0x07, 0x04, 0x0f],
   builtin_object ''id-regCtrl'' ''id-regCtrl'' 313 [0x2b, 0x06, 0x01, 0x05, 0x05, 0x07, 0x05, 0x01],
   builtin_object ''id-regInfo'' ''id-regInfo'' 314 [0x2b, 0x06, 0x01, 0x05, 0x05, 0x07, 0x05, 0x02],
   builtin_object ''id-regCtrl-regToken'' ''id-regCtrl-regToken'' 315 [0x2b, 0x06, 0x01, 0x05, 0x05, 0x07, 0x05, 0x01, 0x01],
   builtin_object ''id-regCtrl-authenticator'' ''id-regCtrl-authenticator'' 316 [0x2b, 0x06, 0x01, 0x05, 0x05, 0x07, 0x05, 0x01, 0x02],
   builtin_object ''id-regCtrl-pkiPublicationInfo'' ''id-regCtrl-pkiPublicationInfo'' 317 [0x2b, 0x06, 0x01, 0x05, 0x05, 0x07, 0x05, 0x01, 0x03],
   builtin_object ''id-regCtrl-pkiArchiveOptions'' ''id-regCtrl-pkiArchiveOptions'' 318 [0x2b, 0x06, 0x01, 0x05, 0x05, 0x07, 0x05, 0x01, 0x04],
   builtin_object ''id-regCtrl-oldCertID'' ''id-regCtrl-oldCertID'' 319 [0x2b, 0x06, 0x01, 0x05, 0x05, 0x07, 0x05, 0x01, 0x05],
   builtin_object ''id-regCtrl-protocolEncrKey'' ''id-regCtrl-protocolEncrKey'' 320 [0x2b, 0x06, 0x01, 0x05, 0x05, 0x07, 0x05, 0x01, 0x06],
   builtin_object ''id-regInfo-utf8Pairs'' ''id-regInfo-utf8Pairs'' 321 [0x2b, 0x06, 0x01, 0x05, 0x05, 0x07, 0x05, 0x02, 0x01],
   builtin_object ''id-regInfo-certReq'' ''id-regInfo-certReq'' 322 [0x2b, 0x06, 0x01, 0x05, 0x05, 0x07, 0x05, 0x02, 0x02],
   builtin_object ''id-alg-des40'' ''id-alg-des40'' 323 [0x2b, 0x06, 0x01, 0x05, 0x05, 0x07, 0x06, 0x01],
   builtin_object ''id-alg-noSignature'' ''id-alg-noSignature'' 324 [0x2b, 0x06, 0x01, 0x05, 0x05, 0x07, 0x06, 0x02],
   builtin_object ''id-alg-dh-sig-hmac-sha1'' ''id-alg-dh-sig-hmac-sha1'' 325 [0x2b, 0x06, 0x01, 0x05, 0x05, 0x07, 0x06, 0x03],
   builtin_object ''id-alg-dh-pop'' ''id-alg-dh-pop'' 326 [0x2b, 0x06, 0x01, 0x05, 0x05, 0x07, 0x06, 0x04],
   builtin_object ''id-cmc-statusInfo'' ''id-cmc-statusInfo'' 327 [0x2b, 0x06, 0x01, 0x05, 0x05, 0x07, 0x07, 0x01],
   builtin_object ''id-cmc-identification'' ''id-cmc-identification'' 328 [0x2b, 0x06, 0x01, 0x05, 0x05, 0x07, 0x07, 0x02],
   builtin_object ''id-cmc-identityProof'' ''id-cmc-identityProof'' 329 [0x2b, 0x06, 0x01, 0x05, 0x05, 0x07, 0x07, 0x03],
   builtin_object ''id-cmc-dataReturn'' ''id-cmc-dataReturn'' 330 [0x2b, 0x06, 0x01, 0x05, 0x05, 0x07, 0x07, 0x04],
   builtin_object ''id-cmc-transactionId'' ''id-cmc-transactionId'' 331 [0x2b, 0x06, 0x01, 0x05, 0x05, 0x07, 0x07, 0x05],
   builtin_object ''id-cmc-senderNonce'' ''id-cmc-senderNonce'' 332 [0x2b, 0x06, 0x01, 0x05, 0x05, 0x07, 0x07, 0x06],
   builtin_object ''id-cmc-recipientNonce'' ''id-cmc-recipientNonce'' 333 [0x2b, 0x06, 0x01, 0x05, 0x05, 0x07, 0x07, 0x07],
   builtin_object ''id-cmc-addExtensions'' ''id-cmc-addExtensions'' 334 [0x2b, 0x06, 0x01, 0x05, 0x05, 0x07, 0x07, 0x08],
   builtin_object ''id-cmc-encryptedPOP'' ''id-cmc-encryptedPOP'' 335 [0x2b, 0x06, 0x01, 0x05, 0x05, 0x07, 0x07, 0x09],
   builtin_object ''id-cmc-decryptedPOP'' ''id-cmc-decryptedPOP'' 336 [0x2b, 0x06, 0x01, 0x05, 0x05, 0x07, 0x07, 0x0a],
   builtin_object ''id-cmc-lraPOPWitness'' ''id-cmc-lraPOPWitness'' 337 [0x2b, 0x06, 0x01, 0x05, 0x05, 0x07, 0x07, 0x0b],
   builtin_object ''id-cmc-getCert'' ''id-cmc-getCert'' 338 [0x2b, 0x06, 0x01, 0x05, 0x05, 0x07, 0x07, 0x0f],
   builtin_object ''id-cmc-getCRL'' ''id-cmc-getCRL'' 339 [0x2b, 0x06, 0x01, 0x05, 0x05, 0x07, 0x07, 0x10],
   builtin_object ''id-cmc-revokeRequest'' ''id-cmc-revokeRequest'' 340 [0x2b, 0x06, 0x01, 0x05, 0x05, 0x07, 0x07, 0x11],
   builtin_object ''id-cmc-regInfo'' ''id-cmc-regInfo'' 341 [0x2b, 0x06, 0x01, 0x05, 0x05, 0x07, 0x07, 0x12],
   builtin_object ''id-cmc-responseInfo'' ''id-cmc-responseInfo'' 342 [0x2b, 0x06, 0x01, 0x05, 0x05, 0x07, 0x07, 0x13],
   builtin_object ''id-cmc-queryPending'' ''id-cmc-queryPending'' 343 [0x2b, 0x06, 0x01, 0x05, 0x05, 0x07, 0x07, 0x15],
   builtin_object ''id-cmc-popLinkRandom'' ''id-cmc-popLinkRandom'' 344 [0x2b, 0x06, 0x01, 0x05, 0x05, 0x07, 0x07, 0x16],
   builtin_object ''id-cmc-popLinkWitness'' ''id-cmc-popLinkWitness'' 345 [0x2b, 0x06, 0x01, 0x05, 0x05, 0x07, 0x07, 0x17],
   builtin_object ''id-cmc-confirmCertAcceptance'' ''id-cmc-confirmCertAcceptance'' 346 [0x2b, 0x06, 0x01, 0x05, 0x05, 0x07, 0x07, 0x18],
   builtin_object ''id-on-personalData'' ''id-on-personalData'' 347 [0x2b, 0x06, 0x01, 0x05, 0x05, 0x07, 0x08, 0x01],
   builtin_object ''id-pda-dateOfBirth'' ''id-pda-dateOfBirth'' 348 [0x2b, 0x06, 0x01, 0x05, 0x05, 0x07, 0x09, 0x01],
   builtin_object ''id-pda-placeOfBirth'' ''id-pda-placeOfBirth'' 349 [0x2b, 0x06, 0x01, 0x05, 0x05, 0x07, 0x09, 0x02],
   unused_object,
   builtin_object ''id-pda-gender'' ''id-pda-gender'' 351 [0x2b, 0x06, 0x01, 0x05, 0x05, 0x07, 0x09, 0x03],
   builtin_object ''id-pda-countryOfCitizenship'' ''id-pda-countryOfCitizenship'' 352 [0x2b, 0x06, 0x01, 0x05, 0x05, 0x07, 0x09, 0x04],
   builtin_object ''id-pda-countryOfResidence'' ''id-pda-countryOfResidence'' 353 [0x2b, 0x06, 0x01, 0x05, 0x05, 0x07, 0x09, 0x05],
   builtin_object ''id-aca-authenticationInfo'' ''id-aca-authenticationInfo'' 354 [0x2b, 0x06, 0x01, 0x05, 0x05, 0x07, 0x0a, 0x01],
   builtin_object ''id-aca-accessIdentity'' ''id-aca-accessIdentity'' 355 [0x2b, 0x06, 0x01, 0x05, 0x05, 0x07, 0x0a, 0x02],
   builtin_object ''id-aca-chargingIdentity'' ''id-aca-chargingIdentity'' 356 [0x2b, 0x06, 0x01, 0x05, 0x05, 0x07, 0x0a, 0x03],
   builtin_object ''id-aca-group'' ''id-aca-group'' 357 [0x2b, 0x06, 0x01, 0x05, 0x05, 0x07, 0x0a, 0x04],
   builtin_object ''id-aca-role'' ''id-aca-role'' 358 [0x2b, 0x06, 0x01, 0x05, 0x05, 0x07, 0x0a, 0x05],
   builtin_object ''id-qcs-pkixQCSyntax-v1'' ''id-qcs-pkixQCSyntax-v1'' 359 [0x2b, 0x06, 0x01, 0x05, 0x05, 0x07, 0x0b, 0x01],
   builtin_object ''id-cct-crs'' ''id-cct-crs'' 360 [0x2b, 0x06, 0x01, 0x05, 0x05, 0x07, 0x0c, 0x01],
   builtin_object ''id-cct-PKIData'' ''id-cct-PKIData'' 361 [0x2b, 0x06, 0x01, 0x05, 0x05, 0x07, 0x0c, 0x02],
   builtin_object ''id-cct-PKIResponse'' ''id-cct-PKIResponse'' 362 [0x2b, 0x06, 0x01, 0x05, 0x05, 0x07, 0x0c, 0x03],
   builtin_object ''ad_timestamping'' ''AD Time Stamping'' 363 [0x2b, 0x06, 0x01, 0x05, 0x05, 0x07, 0x30, 0x03],
   builtin_object ''AD_DVCS'' ''ad dvcs'' 364 [0x2b, 0x06, 0x01, 0x05, 0x05, 0x07, 0x30, 0x04],
   builtin_object ''basicOCSPResponse'' ''Basic OCSP Response'' 365 [0x2b, 0x06, 0x01, 0x05, 0x05, 0x07, 0x30, 0x01, 0x01],
   builtin_object ''Nonce'' ''OCSP Nonce'' 366 [0x2b, 0x06, 0x01, 0x05, 0x05, 0x07, 0x30, 0x01, 0x02],
   builtin_object ''CrlID'' ''OCSP CRL ID'' 367 [0x2b, 0x06, 0x01, 0x05, 0x05, 0x07, 0x30, 0x01, 0x03],
   builtin_object ''acceptableResponses'' ''Acceptable OCSP Responses'' 368 [0x2b, 0x06, 0x01, 0x05, 0x05, 0x07, 0x30, 0x01, 0x04],
   builtin_object ''noCheck'' ''OCSP No Check'' 369 [0x2b, 0x06, 0x01, 0x05, 0x05, 0x07, 0x30, 0x01, 0x05],
   builtin_object ''archiveCutoff'' ''OCSP Archive Cutoff'' 370 [0x2b, 0x06, 0x01, 0x05, 0x05, 0x07, 0x30, 0x01, 0x06]]"

definition kObjects_5 :: "asn1_object list" where
  "kObjects_5 = [
   builtin_object ''serviceLocator'' ''OCSP Service Locator'' 371 [0x2b, 0x06, 0x01, 0x05, 0x05, 0x07, 0x30, 0x01, 0x07],
   builtin_object ''extendedStatus'' ''Extended OCSP Status'' 372 [0x2b, 0x06, 0x01, 0x05, 0x05, 0x07, 0x30, 0x01, 0x08],
   builtin_object ''valid'' ''valid'' 373 [0x2b, 0x06, 0x01, 0x05, 0x05, 0x07, 0x30, 0x01, 0x09],
   builtin_object ''path'' ''path'' 374 [0x2b, 0x06, 0x01, 0x05, 0x05, 0x07, 0x30, 0x01, 0x0a],
   builtin_object ''trustRoot'' ''Trust Root'' 375 [0x2b, 0x06, 0x01, 0x05, 0x05, 0x07, 0x30, 0x01, 0x0b],
   builtin_object ''algorithm'' ''algorithm'' 376 [0x2b, 0x0e, 0x03, 0x02],
   builtin_object ''rsaSignature'' ''rsaSignature'' 377 [0x2b, 0x0e, 0x03, 0x02, 0x0b],
   builtin_object ''X500algorithms'' ''directory services - algorithms'' 378 [0x55, 0x08],
   builtin_object ''ORG'' ''org'' 379 [0x2b],
   builtin_object ''DOD'' ''dod'' 380 [0x2b, 0x06],
   builtin_object ''IANA'' ''iana'' 381 [0x2b, 0x06, 0x01],
   builtin_object ''directory'' ''Directory'' 382 [0x2b, 0x06, 0x01, 0x01],
   builtin_object ''mgmt'' ''Management'' 383 [0x2b, 0x06, 0x01, 0x02],
   builtin_object ''experimental'' ''Experimental'' 384 [0x2b, 0x06, 0x01, 0x03],
   builtin_object ''private'' ''Private'' 385 [0x2b, 0x06, 0x01, 0x04],
   builtin_object ''security'' ''Security'' 386 [0x2b, 0x06, 0x01, 0x05],
   builtin_object ''snmpv2'' ''SNMPv2'' 387 [0x2b, 0x06, 0x01, 0x06],
   builtin_object ''Mail'' ''Mail'' 388 [0x2b, 0x06, 0x01, 0x07],
   builtin_object ''enterprises'' ''Enterprises'' 389 [0x2b, 0x06, 0x01, 0x04, 0x01],
   builtin_object ''dcobject'' ''dcObject'' 390 [0x2b, 0x06, 0x01, 0x04, 0x01, 0x8b, 0x3a, 0x82, 0x58],
   builtin_object ''DC'' ''domainComponent'' 391 [0x09, 0x92, 0x26, 0x89, 0x93, 0xf2, 0x2c, 0x64, 0x01, 0x19],
   builtin_object ''domain'' ''Domain'' 392 [0x09, 0x92, 0x26, 0x89, 0x93, 0xf2, 0x2c, 0x64, 0x04, 0x0d],
   unused_object,
   builtin_object ''selected-attribute-types'' ''Selected Attribute Types'' 394 [0x55, 0x01, 0x05],
   builtin_object ''clearance'' ''clearance'' 395 [0x55, 0x01, 0x05, 0x37],
   builtin_object ''RSA-MD4'' ''md4WithRSAEncryption'' 396 [0x2a, 0x86, 0x48, 0x86, 0xf7, 0x0d, 0x01, 0x01, 0x03],
   builtin_object ''ac-proxying'' ''ac-proxying'' 397 [0x2b, 0x06, 0x01, 0x05, 0x05, 0x07, 0x01, 0x0a],
   builtin_object ''subjectInfoAccess'' ''Subject Information Access'' 398 [0x2b, 0x06, 0x01, 0x05, 0x05, 0x07, 0x01, 0x0b],
   builtin_object ''id-aca-encAttrs'' ''id-aca-encAttrs'' 399 [0x2b, 0x06, 0x01, 0x05, 0x05, 0x07, 0x0a, 0x06],
   builtin_object ''role'' ''role'' 400 [0x55, 0x04, 0x48],
   builtin_object ''policyConstraints'' ''X509v3 Policy Constraints'' 401 [0x55, 0x1d, 0x24],
   builtin_object ''targetInformation'' ''X509v3 AC Targeting'' 402 [0x55, 0x1d, 0x37],
   builtin_object ''noRevAvail'' ''X509v3 No Revocation Available'' 403 [0x55, 0x1d, 0x38],
   unused_object,
   builtin_object ''ansi-X9-62'' ''ANSI X9.62'' 405 [0x2a, 0x86, 0x48, 0xce, 0x3d],
   builtin_object ''prime-field'' ''prime-field'' 406 [0x2a, 0x86, 0x48, 0xce, 0x3d, 0x01, 0x01],
   builtin_object ''characteristic-two-field'' ''characteristic-two-field'' 407 [0x2a, 0x86, 0x48, 0xce, 0x3d, 0x01, 0x02],
   builtin_object ''id-ecPublicKey'' ''id-ecPublicKey'' 408 [0x2a, 0x86, 0x48, 0xce, 0x3d, 0x02, 0x01],
   builtin_object ''prime192v1'' ''prime192v1'' 409 [0x2a, 0x86, 0x48, 0xce, 0x3d, 0x03, 0x01, 0x01],
   builtin_object ''prime192v2'' ''prime192v2'' 410 [0x2a, 0x86, 0x48, 0xce, 0x3d, 0x03, 0x01, 0x02],
   builtin_object ''prime192v3'' ''prime192v3'' 411 [0x2a, 0x86, 0x48, 0xce, 0x3d, 0x03, 0x01, 0x03],
   builtin_object ''prime239v1'' ''prime239v1'' 412 [0x2a, 0x86, 0x48, 0xce, 0x3d, 0x03, 0x01, 0x04],
   builtin_object ''prime239v2'' ''prime239v2'' 413 [0x2a, 0x86, 0x48, 0xce, 0x3d, 0x03, 0x01, 0x05],
   builtin_object ''prime239v3'' ''prime239v3'' 414 [0x2a, 0x86, 0x48, 0xce, 0x3d, 0x03, 0x01, 0x06],
   builtin_object ''prime256v1'' ''prime256v1'' 415 [0x2a, 0x86, 0x48, 0xce, 0x3d, 0x03, 0x01, 0x07],
   builtin_object ''ecdsa-with-SHA1'' ''ecdsa-with-SHA1'' 416 [0x2a, 0x86, 0x48, 0xce, 0x3d, 0x04, 0x01],
   builtin_object ''CSPName'' ''Microsoft CSP Name'' 417 [0x2b, 0x06, 0x01, 0x04, 0x01, 0x82, 0x37, 0x11, 0x01],
   builtin_object ''AES-128-ECB'' ''aes-128-ecb'' 418 [0x60, 0x86, 0x48, 0x01, 0x65, 0x03, 0x04, 0x01, 0x01],
   builtin_object ''AES-128-CBC'' ''aes-128-cbc'' 419 [0x60, 0x86, 0x48, 0x01, 0x65, 0x03, 0x04, 0x01, 0x02],
   builtin_object ''AES-128-OFB'' ''aes-128-ofb'' 420 [0x60, 0x86, 0x48, 0x01, 0x65, 0x03, 0x04, 0x01, 0x03],
   builtin_object ''AES-128-CFB'' ''aes-128-cfb'' 421 [0x60, 0x86, 0x48, 0x01, 0x65, 0x03, 0x04, 0x01, 0x04],
   builtin_object ''AES-192-ECB'' ''aes-192-ecb'' 422 [0x60, 0x86, 0x48, 0x01, 0x65, 0x03, 0x04, 0x01, 0x15],
   builtin_object ''AES-192-CBC'' ''aes-192-cbc'' 423 [0x60, 0x86, 0x48, 0x01, 0x65, 0x03, 0x04, 0x01, 0x16],
   builtin_object ''AES-192-OFB'' ''aes-192-ofb'' 424 [0x60, 0x86, 0x48, 0x01, 0x65, 0x03, 0x04, 0x01, 0x17],
   builtin_object ''AES-192-CFB'' ''aes-192-cfb'' 425 [0x60, 0x86, 0x48, 0x01, 0x65, 0x03, 0x04, 0x01, 0x18],
   builtin_object ''AES-256-ECB'' ''aes-256-ecb'' 426 [0x60, 0x86, 0x48, 0x01, 0x65, 0x03, 0x04, 0x01, 0x29],
   builtin_object ''AES-256-CBC'' ''aes-256-cbc'' 427 [0x60, 0x86, 0x48, 0x01, 0x65, 0x03, 0x04, 0x01, 0x2a],
   builtin_object ''AES-256-OFB'' ''aes-256-ofb'' 428 [0x60, 0x86, 0x48, 0x01, 0x65, 0x03, 0x04, 0x01, 0x2b],
   builtin_object ''AES-256-CFB'' ''aes-256-cfb'' 429 [0x60, 0x86, 0x48, 0x01, 0x65, 0x03, 0x04, 0x01, 0x2c],
   builtin_object ''holdInstructionCode'' ''Hold Instruction Code'' 430 [0x55, 0x1d, 0x17],
   builtin_object ''holdInstructionNone'' ''Hold Instruction None'' 431 [0x2a, 0x86, 0x48, 0xce, 0x38, 0x02, 0x01],
   builtin_object ''holdInstructionCallIssuer'' ''Hold Instruction Call Issuer'' 432 [0x2a, 0x86, 0x48, 0xce, 0x38, 0x02, 0x02],
   builtin_object ''holdInstructionReject'' ''Hold Instruction Reject'' 433 [0x2a, 0x86, 0x48, 0xce, 0x38, 0x02, 0x03],
   builtin_object ''data'' ''data'' 434 [0x09],
   builtin_object ''pss'' ''pss'' 435 [0x09, 0x92, 0x26],
   builtin_object ''ucl'' ''ucl'' 436 [0x09, 0x92, 0x26, 0x89, 0x93, 0xf2, 0x2c],
   builtin_object ''pilot'' ''pilot'' 437 [0x09, 0x92, 0x26, 0x89, 0x93, 0xf2, 0x2c, 0x64],
   builtin_object ''pilotAttributeType'' ''pilotAttributeType'' 438 [0x09, 0x92, 0x26, 0x89, 0x93, 0xf2, 0x2c, 0x64, 0x01],
   builtin_object ''pilotAttributeSyntax'' ''pilotAttributeSyntax'' 439 [0x09, 0x92, 0x26, 0x89, 0x93, 0xf2, 0x2c, 0x64, 0x03],
   builtin_object ''pilotObjectClass'' ''pilotObjectClass'' 440 [0x09, 0x92, 0x26, 0x89, 0x93, 0xf2, 0x2c, 0x64, 0x04],
   builtin_object ''pilotGroups'' ''pilotGroups'' 441 [0x09, 0x92, 0x26, 0x89, 0x93, 0xf2, 0x2c, 0x64, 0x0a],
   builtin_object ''iA5StringSyntax'' ''iA5StringSyntax'' 442 [0x09, 0x92, 0x26, 0x89, 0x93, 0xf2, 0x2c, 0x64, 0x03, 0x04],
   builtin_object ''caseIgnoreIA5StringSyntax'' ''caseIgnoreIA5StringSyntax'' 443 [0x09, 0x92, 0x26, 0x89, 0x93, 0xf2, 0x2c, 0x64, 0x03, 0x05],
   builtin_object ''pilotObject'' ''pilotObject'' 444 [0x09, 0x92, 0x26, 0x89, 0x93, 0xf2, 0x2c, 0x64, 0x04, 0x03],
   builtin_object ''pilotPerson'' ''pilotPerson'' 445 [0x09, 0x92, 0x26, 0x89, 0x93, 0xf2, 0x2c, 0x64, 0x04, 0x04],
   builtin_object ''account'' ''account'' 446 [0x09, 0x92, 0x26, 0x89, 0x93, 0xf2, 0x2c, 0x64, 0x04, 0x05],
   builtin_object ''document'' ''document'' 447 [0x09, 0x92, 0x26, 0x89, 0x93, 0xf2, 0x2c, 0x64, 0x04, 0x06],
   builtin_object ''room'' ''room'' 448 [0x09, 0x92, 0x26, 0x89, 0x93, 0xf2, 0x2c, 0x64, 0x04, 0x07],
   builtin_object ''documentSeries'' ''documentSeries'' 449 [0x09, 0x92, 0x26, 0x89, 0x93, 0xf2, 0x2c, 0x64, 0x04, 0x09],
   builtin_object ''rFC822localPart'' ''rFC822localPart'' 450 [0x09, 0x92, 0x26, 0x89, 0x93, 0xf2, 0x2c, 0x64, 0x04, 0x0e],
   builtin_object ''dNSDomain'' ''dNSDomain'' 451 [0x09, 0x92, 0x26, 0x89, 0x93, 0xf2, 0x2c, 0x64, 0x04, 0x0f],
   builtin_object ''domainRelatedObject'' ''domainRelatedObject'' 452 [0x09, 0x92, 0x26, 0x89, 0x93, 0xf2, 0x2c, 0x64, 0x04, 0x11],
   builtin_object ''friendlyCountry'' ''friendlyCountry'' 453 [0x09, 0x92, 0x26, 0x89, 0x93, 0xf2, 0x2c, 0x64, 0x04, 0x12],
   builtin_object ''simpleSecurityObject'' ''simpleSecurityObject'' 454 [0x09, 0x92, 0x26, 0x89, 0x93, 0xf2, 0x2c, 0x64, 0x04, 0x13],
   builtin_object ''pilotOrganization'' ''pilotOrganization'' 455 [0x09, 0x92, 0x26, 0x89, 0x93, 0xf2, 0x2c, 0x64, 0x04, 0x14],
   builtin_object ''pilotDSA'' ''pilotDSA'' 456 [0x09, 0x92, 0x26, 0x89, 0x93, 0xf2, 0x2c, 0x64, 0x04, 0x15],
   builtin_object ''qualityLabelledData'' ''qualityLabelledData'' 457 [0x09, 0x92, 0x26, 0x89, 0x93, 0xf2, 0x2c, 0x64, 0x04, 0x16],
   builtin_object ''UID'' ''userId'' 458 [0x09, 0x92, 0x26, 0x89, 0x93, 0xf2, 0x2c, 0x64, 0x01, 0x01],
   builtin_object ''textEncodedORAddress'' ''textEncodedORAddress'' 459 [0x09, 0x92, 0x26, 0x89, 0x93, 0xf2, 0x2c, 0x64, 0x01, 0x02],
   builtin_object ''mail'' ''rfc822Mailbox'' 460 [0x09, 0x92, 0x26, 0x89, 0x93, 0xf2, 0x2c, 0x64, 0x01, 0x03],
   builtin_object ''info'' ''info'' 461 [0x09, 0x92, 0x26, 0x89, 0x93, 0xf2, 0x2c, 0x64, 0x01, 0x04],
   builtin_object ''favouriteDrink'' ''favouriteDrink'' 462 [0x09, 0x92, 0x26, 0x89, 0x93, 0xf2, 0x2c, 0x64, 0x01, 0x05],
   builtin_object ''roomNumber'' ''roomNumber'' 463 [0x09, 0x92, 0x26, 0x89, 0x93, 0xf2, 0x2c, 0x64, 0x01, 0x06],
   builtin_object ''photo'' ''photo'' 464 [0x09, 0x92, 0x26, 0x89, 0x93, 0xf2, 0x2c, 0x64, 0x01, 0x07],
   builtin_object ''userClass'' ''userClass'' 465 [0x09, 0x92, 0x26, 0x89, 0x93, 0xf2, 0x2c, 0x64, 0x01, 0x08],
   builtin_object ''host'' ''host'' 466 [0x09, 0x92, 0x26, 0x89, 0x93, 0xf2, 0x2c, 0x64, 0x01, 0x09],
   builtin_object ''manager'' ''manager'' 467 [0x09, 0x92, 0x26, 0x89, 0x93, 0xf2, 0x2c, 0x64, 0x01, 0x0a],
   builtin_object ''documentIdentifier'' ''documentIdentifier'' 468 [0x09, 0x92, 0x26, 0x89, 0x93, 0xf2, 0x2c, 0x64, 0x01, 0x0b],
   builtin_object ''documentTitle'' ''documentTitle'' 469 [0x09, 0x92, 0x26, 0x89, 0x93, 0xf2, 0x2c, 0x64, 0x01, 0x0c]]"

definition kObjects_6 :: "asn1_object list" where
  "kObjects_6 = [
   builtin_object ''documentVersion'' ''documentVersion'' 470 [0x09, 0x92, 0x26, 0x89, 0x93, 0xf2, 0x2c, 0x64, 0x01, 0x0d],
   builtin_object ''documentAuthor'' ''documentAuthor'' 471 [0x09, 0x92, 0x26, 0x89, 0x93, 0xf2, 0x2c, 0x64, 0x01, 0x0e],
   builtin_object ''documentLocation'' ''documentLocation'' 472 [0x09, 0x92, 0x26, 0x89, 0x93, 0xf2, 0x2c, 0x64, 0x01, 0x0f],
   builtin_object ''homeTelephoneNumber'' ''homeTelephoneNumber'' 473 [0x09, 0x92, 0x26, 0x89, 0x93, 0xf2, 0x2c, 0x64, 0x01, 0x14],
   builtin_object ''secretary'' ''secretary'' 474 [0x09, 0x92, 0x26, 0x89, 0x93, 0xf2, 0x2c, 0x64, 0x01, 0x15],
   builtin_object ''otherMailbox'' ''otherMailbox'' 475 [0x09, 0x92, 0x26, 0x89, 0x93, 0xf2, 0x2c, 0x64, 0x01, 0x16],
   builtin_object ''lastModifiedTime'' ''lastModifiedTime'' 476 [0x09, 0x92, 0x26, 0x89, 0x93, 0xf2, 0x2c, 0x64, 0x01, 0x17],
   builtin_object ''lastModifiedBy'' ''lastModifiedBy'' 477 [0x09, 0x92, 0x26, 0x89, 0x93, 0xf2, 0x2c, 0x64, 0x01, 0x18],
   builtin_object ''aRecord'' ''aRecord'' 478 [0x09, 0x92, 0x26, 0x89, 0x93, 0xf2, 0x2c, 0x64, 0x01, 0x1a],
   builtin_object ''pilotAttributeType27'' ''pilotAttributeType27'' 479 [0x09, 0x92, 0x26, 0x89, 0x93, 0xf2, 0x2c, 0x64, 0x01, 0x1b],
   builtin_object ''mXRecord'' ''mXRecord'' 480 [0x09, 0x92, 0x26, 0x89, 0x93, 0xf2, 0x2c, 0x64, 0x01, 0x1c],
   builtin_object ''nSRecord'' ''nSRecord'' 481 [0x09, 0x92, 0x26, 0x89, 0x93, 0xf2, 0x2c, 0x64, 0x01, 0x1d],
   builtin_object ''sOARecord'' ''sOARecord'' 482 [0x09, 0x92, 0x26, 0x89, 0x93, 0xf2, 0x2c, 0x64, 0x01, 0x1e],
   builtin_object ''cNAMERecord'' ''cNAMERecord'' 483 [0x09, 0x92, 0x26, 0x89, 0x93, 0xf2, 0x2c, 0x64, 0x01, 0x1f],
   builtin_object ''associatedDomain'' ''associatedDomain'' 484 [0x09, 0x92, 0x26, 0x89, 0x93, 0xf2, 0x2c, 0x64, 0x01, 0x25],
   builtin_object ''associatedName'' ''associatedName'' 485 [0x09, 0x92, 0x26, 0x89, 0x93, 0xf2, 0x2c, 0x64, 0x01, 0x26],
   builtin_object ''homePostalAddress'' ''homePostalAddress'' 486 [0x09, 0x92, 0x26, 0x89, 0x93, 0xf2, 0x2c, 0x64, 0x01, 0x27],
   builtin_object ''personalTitle'' ''personalTitle'' 487 [0x09, 0x92, 0x26, 0x89, 0x93, 0xf2, 0x2c, 0x64, 0x01, 0x28],
   builtin_object ''mobileTelephoneNumber'' ''mobileTelephoneNumber'' 488 [0x09, 0x92, 0x26, 0x89, 0x93, 0xf2, 0x2c, 0x64, 0x01, 0x29],
   builtin_object ''pagerTelephoneNumber'' ''pagerTelephoneNumber'' 489 [0x09, 0x92, 0x26, 0x89, 0x93, 0xf2, 0x2c, 0x64, 0x01, 0x2a],
   builtin_object ''friendlyCountryName'' ''friendlyCountryName'' 490 [0x09, 0x92, 0x26, 0x89, 0x93, 0xf2, 0x2c, 0x64, 0x01, 0x2b],
   builtin_object ''organizationalStatus'' ''organizationalStatus'' 491 [0x09, 0x92, 0x26, 0x89, 0x93, 0xf2, 0x2c, 0x64, 0x01, 0x2d],
   builtin_object ''janetMailbox'' ''janetMailbox'' 492 [0x09, 0x92, 0x26, 0x89, 0x93, 0xf2, 0x2c, 0x64, 0x01, 0x2e],
   builtin_object ''mailPreferenceOption'' ''mailPreferenceOption'' 493 [0x09, 0x92, 0x26, 0x89, 0x93, 0xf2, 0x2c, 0x64, 0x01, 0x2f],
   builtin_object ''buildingName'' ''buildingName'' 494 [0x09, 0x92, 0x26, 0x89, 0x93, 0xf2, 0x2c, 0x64, 0x01, 0x30],
   builtin_object ''dSAQuality'' ''dSAQuality'' 495 [0x09, 0x92, 0x26, 0x89, 0x93, 0xf2, 0x2c, 0x64, 0x01, 0x31],
   builtin_object ''singleLevelQuality'' ''singleLevelQuality'' 496 [0x09, 0x92, 0x26, 0x89, 0x93, 0xf2, 0x2c, 0x64, 0x01, 0x32],
   builtin_object ''subtreeMinimumQuality'' ''subtreeMinimumQuality'' 497 [0x09, 0x92, 0x26, 0x89, 0x93, 0xf2, 0x2c, 0x64, 0x01, 0x33],
   builtin_object ''subtreeMaximumQuality'' ''subtreeMaximumQuality'' 498 [0x09, 0x92, 0x26, 0x89, 0x93, 0xf2, 0x2c, 0x64, 0x01, 0x34],
   builtin_object ''personalSignature'' ''personalSignature'' 499 [0x09, 0x92, 0x26, 0x89, 0x93, 0xf2, 0x2c, 0x64, 0x01, 0x35],
   builtin_object ''dITRedirect'' ''dITRedirect'' 500 [0x09, 0x92, 0x26, 0x89, 0x93, 0xf2, 0x2c, 0x64, 0x01, 0x36],
   builtin_object ''audio'' ''audio'' 501 [0x09, 0x92, 0x26, 0x89, 0x93, 0xf2, 0x2c, 0x64, 0x01, 0x37],
   builtin_object ''documentPublisher'' ''documentPublisher'' 502 [0x09, 0x92, 0x26, 0x89, 0x93, 0xf2, 0x2c, 0x64, 0x01, 0x38],
   builtin_object ''x500UniqueIdentifier'' ''x500UniqueIdentifier'' 503 [0x55, 0x04, 0x2d],
   builtin_object ''mime-mhs'' ''MIME MHS'' 504 [0x2b, 0x06, 0x01, 0x07, 0x01],
   builtin_object ''mime-mhs-headings'' ''mime-mhs-headings'' 505 [0x2b, 0x06, 0x01, 0x07, 0x01, 0x01],
   builtin_object ''mime-mhs-bodies'' ''mime-mhs-bodies'' 506 [0x2b, 0x06, 0x01, 0x07, 0x01, 0x02],
   builtin_object ''id-hex-partial-message'' ''id-hex-partial-message'' 507 [0x2b, 0x06, 0x01, 0x07, 0x01, 0x01, 0x01],
   builtin_object ''id-hex-multipart-message'' ''id-hex-multipart-message'' 508 [0x2b, 0x06, 0x01, 0x07, 0x01, 0x01, 0x02],
   builtin_object ''generationQualifier'' ''generationQualifier'' 509 [0x55, 0x04, 0x2c],
   builtin_object ''pseudonym'' ''pseudonym'' 510 [0x55, 0x04, 0x41],
   unused_object,
   builtin_object ''id-set'' ''Secure Electronic Transactions'' 512 [0x67, 0x2a],
   builtin_object ''set-ctype'' ''content types'' 513 [0x67, 0x2a, 0x00],
   builtin_object ''set-msgExt'' ''message extensions'' 514 [0x67, 0x2a, 0x01],
   builtin_object ''set-attr'' ''set-attr'' 515 [0x67, 0x2a, 0x03],
   builtin_object ''set-policy'' ''set-policy'' 516 [0x67, 0x2a, 0x05],
   builtin_object ''set-certExt'' ''certificate extensions'' 517 [0x67, 0x2a, 0x07],
   builtin_object ''set-brand'' ''set-brand'' 518 [0x67, 0x2a, 0x08],
   builtin_object ''setct-PANData'' ''setct-PANData'' 519 [0x67, 0x2a, 0x00, 0x00],
   builtin_object ''setct-PANToken'' ''setct-PANToken'' 520 [0x67, 0x2a, 0x00, 0x01],
   builtin_object ''setct-PANOnly'' ''setct-PANOnly'' 521 [0x67, 0x2a, 0x00, 0x02],
   builtin_object ''setct-OIData'' ''setct-OIData'' 522 [0x67, 0x2a, 0x00, 0x03],
   builtin_object ''setct-PI'' ''setct-PI'' 523 [0x67, 0x2a, 0x00, 0x04],
   builtin_object ''setct-PIData'' ''setct-PIData'' 524 [0x67, 0x2a, 0x00, 0x05],
   builtin_object ''setct-PIDataUnsigned'' ''setct-PIDataUnsigned'' 525 [0x67, 0x2a, 0x00, 0x06],
   builtin_object ''setct-HODInput'' ''setct-HODInput'' 526 [0x67, 0x2a, 0x00, 0x07],
   builtin_object ''setct-AuthResBaggage'' ''setct-AuthResBaggage'' 527 [0x67, 0x2a, 0x00, 0x08],
   builtin_object ''setct-AuthRevReqBaggage'' ''setct-AuthRevReqBaggage'' 528 [0x67, 0x2a, 0x00, 0x09],
   builtin_object ''setct-AuthRevResBaggage'' ''setct-AuthRevResBaggage'' 529 [0x67, 0x2a, 0x00, 0x0a],
   builtin_object ''setct-CapTokenSeq'' ''setct-CapTokenSeq'' 530 [0x67, 0x2a, 0x00, 0x0b],
   builtin_object ''setct-PInitResData'' ''setct-PInitResData'' 531 [0x67, 0x2a, 0x00, 0x0c],
   builtin_object ''setct-PI-TBS'' ''setct-PI-TBS'' 532 [0x67, 0x2a, 0x00, 0x0d],
   builtin_object ''setct-PResData'' ''setct-PResData'' 533 [0x67, 0x2a, 0x00, 0x0e],
   builtin_object ''setct-AuthReqTBS'' ''setct-AuthReqTBS'' 534 [0x67, 0x2a, 0x00, 0x10],
   builtin_object ''setct-AuthResTBS'' ''setct-AuthResTBS'' 535 [0x67, 0x2a, 0x00, 0x11],
   builtin_object ''setct-AuthResTBSX'' ''setct-AuthResTBSX'' 536 [0x67, 0x2a, 0x00, 0x12],
   builtin_object ''setct-AuthTokenTBS'' ''setct-AuthTokenTBS'' 537 [0x67, 0x2a, 0x00, 0x13],
   builtin_object ''setct-CapTokenData'' ''setct-CapTokenData'' 538 [0x67, 0x2a, 0x00, 0x14],
   builtin_object ''setct-CapTokenTBS'' ''setct-CapTokenTBS'' 539 [0x67, 0x2a, 0x00, 0x15],
   builtin_object ''setct-AcqCardCodeMsg'' ''setct-AcqCardCodeMsg'' 540 [0x67, 0x2a, 0x00, 0x16],
   builtin_object ''setct-AuthRevReqTBS'' ''setct-AuthRevReqTBS'' 541 [0x67, 0x2a, 0x00, 0x17],
   builtin_object ''setct-AuthRevResData'' ''setct-AuthRevResData'' 542 [0x67, 0x2a, 0x00, 0x18],
   builtin_object ''setct-AuthRevResTBS'' ''setct-AuthRevResTBS'' 543 [0x67, 0x2a, 0x00, 0x19],
   builtin_object ''setct-CapReqTBS'' ''setct-CapReqTBS'' 544 [0x67, 0x2a, 0x00, 0x1a],
   builtin_object ''setct-CapReqTBSX'' ''setct-CapReqTBSX'' 545 [0x67, 0x2a, 0x00, 0x1b],
   builtin_object ''setct-CapResData'' ''setct-CapResData'' 546 [0x67, 0x2a, 0x00, 0x1c],
   builtin_object ''setct-CapRevReqTBS'' ''setct-CapRevReqTBS'' 547 [0x67, 0x2a, 0x00, 0x1d],
   builtin_object ''setct-CapRevReqTBSX'' ''setct-CapRevReqTBSX'' 548 [0x67, 0x2a, 0x00, 0x1e],
   builtin_object ''setct-CapRevResData'' ''setct-CapRevResData'' 549 [0x67, 0x2a, 0x00, 0x1f],
   builtin_object ''setct-CredReqTBS'' ''setct-CredReqTBS'' 550 [0x67, 0x2a, 0x00, 0x20],
   builtin_object ''setct-CredReqTBSX'' ''setct-CredReqTBSX'' 551 [0x67, 0x2a, 0x00, 0x21],
   builtin_object ''setct-CredResData'' ''setct-CredResData'' 552 [0x67, 0x2a, 0x00, 0x22]]"

definition kObjects_7 :: "asn1_object list" where
  "kObjects_7 = [
   builtin_object ''setct-CredRevReqTBS'' ''setct-CredRevReqTBS'' 553 [0x67, 0x2a, 0x00, 0x23],
   builtin_object ''setct-CredRevReqTBSX'' ''setct-CredRevReqTBSX'' 554 [0x67, 0x2a, 0x00, 0x24],
   builtin_object ''setct-CredRevResData'' ''setct-CredRevResData'' 555 [0x67, 0x2a, 0x00, 0x25],
   builtin_object ''setct-PCertReqData'' ''setct-PCertReqData'' 556 [0x67, 0x2a, 0x00, 0x26],
   builtin_object ''setct-PCertResTBS'' ''setct-PCertResTBS'' 557 [0x67, 0x2a, 0x00, 0x27],
   builtin_object ''setct-BatchAdminReqData'' ''setct-BatchAdminReqData'' 558 [0x67, 0x2a, 0x00, 0x28],
   builtin_object ''setct-BatchAdminResData'' ''setct-BatchAdminResData'' 559 [0x67, 0x2a, 0x00, 0x29],
   builtin_object ''setct-CardCInitResTBS'' ''setct-CardCInitResTBS'' 560 [0x67, 0x2a, 0x00, 0x2a],
   builtin_object ''setct-MeAqCInitResTBS'' ''setct-MeAqCInitResTBS'' 561 [0x67, 0x2a, 0x00, 0x2b],
   builtin_object ''setct-RegFormResTBS'' ''setct-RegFormResTBS'' 562 [0x67, 0x2a, 0x00, 0x2c],
   builtin_object ''setct-CertReqData'' ''setct-CertReqData'' 563 [0x67, 0x2a, 0x00, 0x2d],
   builtin_object ''setct-CertReqTBS'' ''setct-CertReqTBS'' 564 [0x67, 0x2a, 0x00, 0x2e],
   builtin_object ''setct-CertResData'' ''setct-CertResData'' 565 [0x67, 0x2a, 0x00, 0x2f],
   builtin_object ''setct-CertInqReqTBS'' ''setct-CertInqReqTBS'' 566 [0x67, 0x2a, 0x00, 0x30],
   builtin_object ''setct-ErrorTBS'' ''setct-ErrorTBS'' 567 [0x67, 0x2a, 0x00, 0x31],
   builtin_object ''setct-PIDualSignedTBE'' ''setct-PIDualSignedTBE'' 568 [0x67, 0x2a, 0x00, 0x32],
   builtin_object ''setct-PIUnsignedTBE'' ''setct-PIUnsignedTBE'' 569 [0x67, 0x2a, 0x00, 0x33],
   builtin_object ''setct-AuthReqTBE'' ''setct-AuthReqTBE'' 570 [0x67, 0x2a, 0x00, 0x34],
   builtin_object ''setct-AuthResTBE'' ''setct-AuthResTBE'' 571 [0x67, 0x2a, 0x00, 0x35],
   builtin_object ''setct-AuthResTBEX'' ''setct-AuthResTBEX'' 572 [0x67, 0x2a, 0x00, 0x36],
   builtin_object ''setct-AuthTokenTBE'' ''setct-AuthTokenTBE'' 573 [0x67, 0x2a, 0x00, 0x37],
   builtin_object ''setct-CapTokenTBE'' ''setct-CapTokenTBE'' 574 [0x67, 0x2a, 0x00, 0x38],
   builtin_object ''setct-CapTokenTBEX'' ''setct-CapTokenTBEX'' 575 [0x67, 0x2a, 0x00, 0x39],
   builtin_object ''setct-AcqCardCodeMsgTBE'' ''setct-AcqCardCodeMsgTBE'' 576 [0x67, 0x2a, 0x00, 0x3a],
   builtin_object ''setct-AuthRevReqTBE'' ''setct-AuthRevReqTBE'' 577 [0x67, 0x2a, 0x00, 0x3b],
   builtin_object ''setct-AuthRevResTBE'' ''setct-AuthRevResTBE'' 578 [0x67, 0x2a, 0x00, 0x3c],
   builtin_object ''setct-AuthRevResTBEB'' ''setct-AuthRevResTBEB'' 579 [0x67, 0x2a, 0x00, 0x3d],
   builtin_object ''setct-CapReqTBE'' ''setct-CapReqTBE'' 580 [0x67, 0x2a, 0x00, 0x3e],
   builtin_object ''setct-CapReqTBEX'' ''setct-CapReqTBEX'' 581 [0x67, 0x2a, 0x00, 0x3f],
   builtin_object ''setct-CapResTBE'' ''setct-CapResTBE'' 582 [0x67, 0x2a, 0x00, 0x40],
   builtin_object ''setct-CapRevReqTBE'' ''setct-CapRevReqTBE'' 583 [0x67, 0x2a, 0x00, 0x41],
   builtin_object ''setct-CapRevReqTBEX'' ''setct-CapRevReqTBEX'' 584 [0x67, 0x2a, 0x00, 0x42],
   builtin_object ''setct-CapRevResTBE'' ''setct-CapRevResTBE'' 585 [0x67, 0x2a, 0x00, 0x43],
   builtin_object ''setct-CredReqTBE'' ''setct-CredReqTBE'' 586 [0x67, 0x2a, 0x00, 0x44],
   builtin_object ''setct-CredReqTBEX'' ''setct-CredReqTBEX'' 587 [0x67, 0x2a, 0x00, 0x45],
   builtin_object ''setct-CredResTBE'' ''setct-CredResTBE'' 588 [0x67, 0x2a, 0x00, 0x46],
   builtin_object ''setct-CredRevReqTBE'' ''setct-CredRevReqTBE'' 589 [0x67, 0x2a, 0x00, 0x47],
   builtin_object ''setct-CredRevReqTBEX'' ''setct-CredRevReqTBEX'' 590 [0x67, 0x2a, 0x00, 0x48],
   builtin_object ''setct-CredRevResTBE'' ''setct-CredRevResTBE'' 591 [0x67, 0x2a, 0x00, 0x49],
   builtin_object ''setct-BatchAdminReqTBE'' ''setct-BatchAdminReqTBE'' 592 [0x67, 0x2a, 0x00, 0x4a],
   builtin_object ''setct-BatchAdminResTBE'' ''setct-BatchAdminResTBE'' 593 [0x67, 0x2a, 0x00, 0x4b],
   builtin_object ''setct-RegFormReqTBE'' ''setct-RegFormReqTBE'' 594 [0x67, 0x2a, 0x00, 0x4c],
   builtin_object ''setct-CertReqTBE'' ''setct-CertReqTBE'' 595 [0x67, 0x2a, 0x00, 0x4d],
   builtin_object ''setct-CertReqTBEX'' ''setct-CertReqTBEX'' 596 [0x67, 0x2a, 0x00, 0x4e],
   builtin_object ''setct-CertResTBE'' ''setct-CertResTBE'' 597 [0x67, 0x2a, 0x00, 0x4f],
   builtin_object ''setct-CRLNotificationTBS'' ''setct-CRLNotificationTBS'' 598 [0x67, 0x2a, 0x00, 0x50],
   builtin_object ''setct-CRLNotificationResTBS'' ''setct-CRLNotificationResTBS'' 599 [0x67, 0x2a, 0x00, 0x51],
   builtin_object ''setct-BCIDistributionTBS'' ''setct-BCIDistributionTBS'' 600 [0x67, 0x2a, 0x00, 0x52],
   builtin_object ''setext-genCrypt'' ''generic cryptogram'' 601 [0x67, 0x2a, 0x01, 0x01],
   builtin_object ''setext-miAuth'' ''merchant initiated auth'' 602 [0x67, 0x2a, 0x01, 0x03],
   builtin_object ''setext-pinSecure'' ''setext-pinSecure'' 603 [0x67, 0x2a, 0x01, 0x04],
   builtin_object ''setext-pinAny'' ''setext-pinAny'' 604 [0x67, 0x2a, 0x01, 0x05],
   builtin_object ''setext-track2'' ''setext-track2'' 605 [0x67, 0x2a, 0x01, 0x07],
   builtin_object ''setext-cv'' ''additional verification'' 606 [0x67, 0x2a, 0x01, 0x08],
   builtin_object ''set-policy-root'' ''set-policy-root'' 607 [0x67, 0x2a, 0x05, 0x00],
   builtin_object ''setCext-hashedRoot'' ''setCext-hashedRoot'' 608 [0x67, 0x2a, 0x07, 0x00],
   builtin_object ''setCext-certType'' ''setCext-certType'' 609 [0x67, 0x2a, 0x07, 0x01],
   builtin_object ''setCext-merchData'' ''setCext-merchData'' 610 [0x67, 0x2a, 0x07, 0x02],
   builtin_object ''setCext-cCertRequired'' ''setCext-cCertRequired'' 611 [0x67, 0x2a, 0x07, 0x03],
   builtin_object ''setCext-tunneling'' ''setCext-tunneling'' 612 [0x67, 0x2a, 0x07, 0x04],
   builtin_object ''setCext-setExt'' ''setCext-setExt'' 613 [0x67, 0x2a, 0x07, 0x05],
   builtin_object ''setCext-setQualf'' ''setCext-setQualf'' 614 [0x67, 0x2a, 0x07, 0x06],
   builtin_object ''setCext-PGWYcapabilities'' ''setCext-PGWYcapabilities'' 615 [0x67, 0x2a, 0x07, 0x07],
   builtin_object ''setCext-TokenIdentifier'' ''setCext-TokenIdentifier'' 616 [0x67, 0x2a, 0x07, 0x08],
   builtin_object ''setCext-Track2Data'' ''setCext-Track2Data'' 617 [0x67, 0x2a, 0x07, 0x09],
   builtin_object ''setCext-TokenType'' ''setCext-TokenType'' 618 [0x67, 0x2a, 0x07, 0x0a],
   builtin_object ''setCext-IssuerCapabilities'' ''setCext-IssuerCapabilities'' 619 [0x67, 0x2a, 0x07, 0x0b],
   builtin_object ''setAttr-Cert'' ''setAttr-Cert'' 620 [0x67, 0x2a, 0x03, 0x00],
   builtin_object ''setAttr-PGWYcap'' ''payment gateway capabilities'' 621 [0x67, 0x2a, 0x03, 0x01],
   builtin_object ''setAttr-TokenType'' ''setAttr-TokenType'' 622 [0x67, 0x2a, 0x03, 0x02],
   builtin_object ''setAttr-IssCap'' ''issuer capabilities'' 623 [0x67, 0x2a, 0x03, 0x03],
   builtin_object ''set-rootKeyThumb'' ''set-rootKeyThumb'' 624 [0x67, 0x2a, 0x03, 0x00, 0x00],
   builtin_object ''set-addPolicy'' ''set-addPolicy'' 625 [0x67, 0x2a, 0x03, 0x00, 0x01],
   builtin_object ''setAttr-Token-EMV'' ''setAttr-Token-EMV'' 626 [0x67, 0x2a, 0x03, 0x02, 0x01],
   builtin_object ''setAttr-Token-B0Prime'' ''setAttr-Token-B0Prime'' 627 [0x67, 0x2a, 0x03, 0x02, 0x02]]"

definition kObjects_8 :: "asn1_object list" where
  "kObjects_8 = [
   builtin_object ''setAttr-IssCap-CVM'' ''setAttr-IssCap-CVM'' 628 [0x67, 0x2a, 0x03, 0x03, 0x03],
   builtin_object ''setAttr-IssCap-T2'' ''setAttr-IssCap-T2'' 629 [0x67, 0x2a, 0x03, 0x03, 0x04],
   builtin_object ''setAttr-IssCap-Sig'' ''setAttr-IssCap-Sig'' 630 [0x67, 0x2a, 0x03, 0x03, 0x05],
   builtin_object ''setAttr-GenCryptgrm'' ''generate cryptogram'' 631 [0x67, 0x2a, 0x03, 0x03, 0x03, 0x01],
   builtin_object ''setAttr-T2Enc'' ''encrypted track 2'' 632 [0x67, 0x2a, 0x03, 0x03, 0x04, 0x01],
   builtin_object ''setAttr-T2cleartxt'' ''cleartext track 2'' 633 [0x67, 0x2a, 0x03, 0x03, 0x04, 0x02],
   builtin_object ''setAttr-TokICCsig'' ''ICC or token signature'' 634 [0x67, 0x2a, 0x03, 0x03, 0x05, 0x01],
   builtin_object ''setAttr-SecDevSig'' ''secure device signature'' 635 [0x67, 0x2a, 0x03, 0x03, 0x05, 0x02],
   builtin_object ''set-brand-IATA-ATA'' ''set-brand-IATA-ATA'' 636 [0x67, 0x2a, 0x08, 0x01],
   builtin_object ''set-brand-Diners'' ''set-brand-Diners'' 637 [0x67, 0x2a, 0x08, 0x1e],
   builtin_object ''set-brand-AmericanExpress'' ''set-brand-AmericanExpress'' 638 [0x67, 0x2a, 0x08, 0x22],
   builtin_object ''set-brand-JCB'' ''set-brand-JCB'' 639 [0x67, 0x2a, 0x08, 0x23],
   builtin_object ''set-brand-Visa'' ''set-brand-Visa'' 640 [0x67, 0x2a, 0x08, 0x04],
   builtin_object ''set-brand-MasterCard'' ''set-brand-MasterCard'' 641 [0x67, 0x2a, 0x08, 0x05],
   builtin_object ''set-brand-Novus'' ''set-brand-Novus'' 642 [0x67, 0x2a, 0x08, 0xae, 0x7b],
   builtin_object ''DES-CDMF'' ''des-cdmf'' 643 [0x2a, 0x86, 0x48, 0x86, 0xf7, 0x0d, 0x03, 0x0a],
   builtin_object ''rsaOAEPEncryptionSET'' ''rsaOAEPEncryptionSET'' 644 [0x2a, 0x86, 0x48, 0x86, 0xf7, 0x0d, 0x01, 0x01, 0x06],
   builtin_object ''ITU-T'' ''itu-t'' 645 [],
   builtin_object ''JOINT-ISO-ITU-T'' ''joint-iso-itu-t'' 646 [],
   builtin_object ''international-organizations'' ''International Organizations'' 647 [0x67],
   builtin_object ''msSmartcardLogin'' ''Microsoft Smartcardlogin'' 648 [0x2b, 0x06, 0x01, 0x04, 0x01, 0x82, 0x37, 0x14, 0x02, 0x02],
   builtin_object ''msUPN'' ''Microsoft Universal Principal Name'' 649 [0x2b, 0x06, 0x01, 0x04, 0x01, 0x82, 0x37, 0x14, 0x02, 0x03],
   builtin_object ''AES-128-CFB1'' ''aes-128-cfb1'' 650 [],
   builtin_object ''AES-192-CFB1'' ''aes-192-cfb1'' 651 [],
   builtin_object ''AES-256-CFB1'' ''aes-256-cfb1'' 652 [],
   builtin_object ''AES-128-CFB8'' ''aes-128-cfb8'' 653 [],
   builtin_object ''AES-192-CFB8'' ''aes-192-cfb8'' 654 [],
   builtin_object ''AES-256-CFB8'' ''aes-256-cfb8'' 655 [],
   builtin_object ''DES-CFB1'' ''des-cfb1'' 656 [],
   builtin_object ''DES-CFB8'' ''des-cfb8'' 657 [],
   builtin_object ''DES-EDE3-CFB1'' ''des-ede3-cfb1'' 658 [],
   builtin_object ''DES-EDE3-CFB8'' ''des-ede3-cfb8'' 659 [],
   builtin_object ''street'' ''streetAddress'' 660 [0x55, 0x04, 0x09],
   builtin_object ''postalCode'' ''postalCode'' 661 [0x55, 0x04, 0x11],
   builtin_object ''id-ppl'' ''id-ppl'' 662 [0x2b, 0x06, 0x01, 0x05, 0x05, 0x07, 0x15],
   builtin_object ''proxyCertInfo'' ''Proxy Certificate Information'' 663 [0x2b, 0x06, 0x01, 0x05, 0x05, 0x07, 0x01, 0x0e],
   builtin_object ''id-ppl-anyLanguage'' ''Any language'' 664 [0x2b, 0x06, 0x01, 0x05, 0x05, 0x07, 0x15, 0x00],
   builtin_object ''id-ppl-inheritAll'' ''Inherit all'' 665 [0x2b, 0x06, 0x01, 0x05, 0x05, 0x07, 0x15, 0x01],
   builtin_object ''nameConstraints'' ''X509v3 Name Constraints'' 666 [0x55, 0x1d, 0x1e],
   builtin_object ''id-ppl-independent'' ''Independent'' 667 [0x2b, 0x06, 0x01, 0x05, 0x05, 0x07, 0x15, 0x02],
   builtin_object ''RSA-SHA256'' ''sha256WithRSAEncryption'' 668 [0x2a, 0x86, 0x48, 0x86, 0xf7, 0x0d, 0x01, 0x01, 0x0b],
   builtin_object ''RSA-SHA384'' ''sha384WithRSAEncryption'' 669 [0x2a, 0x86, 0x48, 0x86, 0xf7, 0x0d, 0x01, 0x01, 0x0c],
   builtin_object ''RSA-SHA512'' ''sha512WithRSAEncryption'' 670 [0x2a, 0x86, 0x48, 0x86, 0xf7, 0x0d, 0x01, 0x01, 0x0d],
   builtin_object ''RSA-SHA224'' ''sha224WithRSAEncryption'' 671 [0x2a, 0x86, 0x48, 0x86, 0xf7, 0x0d, 0x01, 0x01, 0x0e],
   builtin_object ''SHA256'' ''sha256'' 672 [0x60, 0x86, 0x48, 0x01, 0x65, 0x03, 0x04, 0x02, 0x01],
   builtin_object ''SHA384'' ''sha384'' 673 [0x60, 0x86, 0x48, 0x01, 0x65, 0x03, 0x04, 0x02, 0x02],
   builtin_object ''SHA512'' ''sha512'' 674 [0x60, 0x86, 0x48, 0x01, 0x65, 0x03, 0x04, 0x02, 0x03],
   builtin_object ''SHA224'' ''sha224'' 675 [0x60, 0x86, 0x48, 0x01, 0x65, 0x03, 0x04, 0x02, 0x04],
   builtin_object ''identified-organization'' ''identified-organization'' 676 [0x2b],
   builtin_object ''certicom-arc'' ''certicom-arc'' 677 [0x2b, 0x81, 0x04],
   builtin_object ''wap'' ''wap'' 678 [0x67, 0x2b],
   builtin_object ''wap-wsg'' ''wap-wsg'' 679 [0x67, 0x2b, 0x01],
   builtin_object ''id-characteristic-two-basis'' ''id-characteristic-two-basis'' 680 [0x2a, 0x86, 0x48, 0xce, 0x3d, 0x01, 0x02, 0x03],
   builtin_object ''onBasis'' ''onBasis'' 681 [0x2a, 0x86, 0x48, 0xce, 0x3d, 0x01, 0x02, 0x03, 0x01],
   builtin_object ''tpBasis'' ''tpBasis'' 682 [0x2a, 0x86, 0x48, 0xce, 0x3d, 0x01, 0x02, 0x03, 0x02],
   builtin_object ''ppBasis'' ''ppBasis'' 683 [0x2a, 0x86, 0x48, 0xce, 0x3d, 0x01, 0x02, 0x03, 0x03],
   builtin_object ''c2pnb163v1'' ''c2pnb163v1'' 684 [0x2a, 0x86, 0x48, 0xce, 0x3d, 0x03, 0x00, 0x01],
   builtin_object ''c2pnb163v2'' ''c2pnb163v2'' 685 [0x2a, 0x86, 0x48, 0xce, 0x3d, 0x03, 0x00, 0x02],
   builtin_object ''c2pnb163v3'' ''c2pnb163v3'' 686 [0x2a, 0x86, 0x48, 0xce, 0x3d, 0x03, 0x00, 0x03],
   builtin_object ''c2pnb176v1'' ''c2pnb176v1'' 687 [0x2a, 0x86, 0x48, 0xce, 0x3d, 0x03, 0x00, 0x04],
   builtin_object ''c2tnb191v1'' ''c2tnb191v1'' 688 [0x2a, 0x86, 0x48, 0xce, 0x3d, 0x03, 0x00, 0x05],
   builtin_object ''c2tnb191v2'' ''c2tnb191v2'' 689 [0x2a, 0x86, 0x48, 0xce, 0x3d, 0x03, 0x00, 0x06],
   builtin_object ''c2tnb191v3'' ''c2tnb191v3'' 690 [0x2a, 0x86, 0x48, 0xce, 0x3d, 0x03, 0x00, 0x07],
   builtin_object ''c2onb191v4'' ''c2onb191v4'' 691 [0x2a, 0x86, 0x48, 0xce, 0x3d, 0x03, 0x00, 0x08],
   builtin_object ''c2onb191v5'' ''c2onb191v5'' 692 [0x2a, 0x86, 0x48, 0xce, 0x3d, 0x03, 0x00, 0x09],
   builtin_object ''c2pnb208w1'' ''c2pnb208w1'' 693 [0x2a, 0x86, 0x48, 0xce, 0x3d, 0x03, 0x00, 0x0a],
   builtin_object ''c2tnb239v1'' ''c2tnb239v1'' 694 [0x2a, 0x86, 0x48, 0xce, 0x3d, 0x03, 0x00, 0x0b],
   builtin_object ''c2tnb239v2'' ''c2tnb239v2'' 695 [0x2a, 0x86, 0x48, 0xce, 0x3d, 0x03, 0x00, 0x0c],
   builtin_object ''c2tnb239v3'' ''c2tnb239v3'' 696 [0x2a, 0x86, 0x48, 0xce, 0x3d, 0x03, 0x00, 0x0d],
   builtin_object ''c2onb239v4'' ''c2onb239v4'' 697 [0x2a, 0x86, 0x48, 0xce, 0x3d, 0x03, 0x00, 0x0e],
   builtin_object ''c2onb239v5'' ''c2onb239v5'' 698 [0x2a, 0x86, 0x48, 0xce, 0x3d, 0x03, 0x00, 0x0f],
   builtin_object ''c2pnb272w1'' ''c2pnb272w1'' 699 [0x2a, 0x86, 0x48, 0xce, 0x3d, 0x03, 0x00, 0x10],
   builtin_object ''c2pnb304w1'' ''c2pnb304w1'' 700 [0x2a, 0x86, 0x48, 0xce, 0x3d, 0x03, 0x00, 0x11],
   builtin_object ''c2tnb359v1'' ''c2tnb359v1'' 701 [0x2a, 0x86, 0x48, 0xce, 0x3d, 0x03, 0x00, 0x12],
   builtin_object ''c2pnb368w1'' ''c2pnb368w1'' 702 [0x2a, 0x86, 0x48, 0xce, 0x3d, 0x03, 0x00, 0x13],
   builtin_object ''c2tnb431r1'' ''c2tnb431r1'' 703 [0x2a, 0x86, 0x48, 0xce, 0x3d, 0x03, 0x00, 0x14],
   builtin_object ''secp112r1'' ''secp112r1'' 704 [0x2b, 0x81, 0x04, 0x00, 0x06],
   builtin_object ''secp112r2'' ''secp112r2'' 705 [0x2b, 0x81, 0x04, 0x00, 0x07],
   builtin_object ''secp128r1'' ''secp128r1'' 706 [0x2b, 0x81, 0x04, 0x00, 0x1c],
   builtin_object ''secp128r2'' ''secp128r2'' 707 [0x2b, 0x81, 0x04, 0x00, 0x1d],
   builtin_object ''secp160k1'' ''secp160k1'' 708 [0x2b, 0x81, 0x04, 0x00, 0x09],
   builtin_object ''secp160r1'' ''secp160r1'' 709 [0x2b, 0x81, 0x04, 0x00, 0x08],
   builtin_object ''secp160r2'' ''secp160r2'' 710 [0x2b, 0x81, 0x04, 0x00, 0x1e],
   builtin_object ''secp192k1'' ''secp192k1'' 711 [0x2b, 0x81, 0x04, 0x00, 0x1f],
   builtin_object ''secp224k1'' ''secp224k1'' 712 [0x2b, 0x81, 0x04, 0x00, 0x20],
   builtin_object ''secp224r1'' ''secp224r1'' 713 [0x2b, 0x81, 0x04, 0x00, 0x21],
   builtin_object ''secp256k1'' ''secp256k1'' 714 [0x2b, 0x81, 0x04, 0x00, 0x0a],
   builtin_object ''secp384r1'' ''secp384r1'' 715 [0x2b, 0x81, 0x04, 0x00, 0x22],
   builtin_object ''secp521r1'' ''secp521r1'' 716 [0x2b, 0x81, 0x04, 0x00, 0x23],
   builtin_object ''sect113r1'' ''sect113r1'' 717 [0x2b, 0x81, 0x04, 0x00, 0x04],
   builtin_object ''sect113r2'' ''sect113r2'' 718 [0x2b, 0x81, 0x04, 0x00, 0x05],
   builtin_object ''sect131r1'' ''sect131r1'' 719 [0x2b, 0x81, 0x04, 0x00, 0x16],
   builtin_object ''sect131r2'' ''sect131r2'' 720 [0x2b, 0x81, 0x04, 0x00, 0x17],
   builtin_object ''sect163k1'' ''sect163k1'' 721 [0x2b, 0x81, 0x04, 0x00, 0x01],
   builtin_object ''sect163r1'' ''sect163r1'' 722 [0x2b, 0x81, 0x04, 0x00, 0x02],
   builtin_object ''sect163r2'' ''sect163r2'' 723 [0x2b, 0x81, 0x04, 0x00, 0x0f],
   builtin_object ''sect193r1'' ''sect193r1'' 724 [0x2b, 0x81, 0x04, 0x00, 0x18],
   builtin_object ''sect193r2'' ''sect193r2'' 725 [0x2b, 0x81, 0x04, 0x00, 0x19],
   builtin_object ''sect233k1'' ''sect233k1'' 726 [0x2b, 0x81, 0x04, 0x00, 0x1a]]"

definition kObjects_9 :: "asn1_object list" where
  "kObjects_9 = [
   builtin_object ''sect233r1'' ''sect233r1'' 727 [0x2b, 0x81, 0x04, 0x00, 0x1b],
   builtin_object ''sect239k1'' ''sect239k1'' 728 [0x2b, 0x81, 0x04, 0x00, 0x03],
   builtin_object ''sect283k1'' ''sect283k1'' 729 [0x2b, 0x81, 0x04, 0x00, 0x10],
   builtin_object ''sect283r1'' ''sect283r1'' 730 [0x2b, 0x81, 0x04, 0x00, 0x11],
   builtin_object ''sect409k1'' ''sect409k1'' 731 [0x2b, 0x81, 0x04, 0x00, 0x24],
   builtin_object ''sect409r1'' ''sect409r1'' 732 [0x2b, 0x81, 0x04, 0x00, 0x25],
   builtin_object ''sect571k1'' ''sect571k1'' 733 [0x2b, 0x81, 0x04, 0x00, 0x26],
   builtin_object ''sect571r1'' ''sect571r1'' 734 [0x2b, 0x81, 0x04, 0x00, 0x27],
   builtin_object ''wap-wsg-idm-ecid-wtls1'' ''wap-wsg-idm-ecid-wtls1'' 735 [0x67, 0x2b, 0x01, 0x04, 0x01],
   builtin_object ''wap-wsg-idm-ecid-wtls3'' ''wap-wsg-idm-ecid-wtls3'' 736 [0x67, 0x2b, 0x01, 0x04, 0x03],
   builtin_object ''wap-wsg-idm-ecid-wtls4'' ''wap-wsg-idm-ecid-wtls4'' 737 [0x67, 0x2b, 0x01, 0x04, 0x04],
   builtin_object ''wap-wsg-idm-ecid-wtls5'' ''wap-wsg-idm-ecid-wtls5'' 738 [0x67, 0x2b, 0x01, 0x04, 0x05],
   builtin_object ''wap-wsg-idm-ecid-wtls6'' ''wap-wsg-idm-ecid-wtls6'' 739 [0x67, 0x2b, 0x01, 0x04, 0x06],
   builtin_object ''wap-wsg-idm-ecid-wtls7'' ''wap-wsg-idm-ecid-wtls7'' 740 [0x67, 0x2b, 0x01, 0x04, 0x07],
   builtin_object ''wap-wsg-idm-ecid-wtls8'' ''wap-wsg-idm-ecid-wtls8'' 741 [0x67, 0x2b, 0x01, 0x04, 0x08],
   builtin_object ''wap-wsg-idm-ecid-wtls9'' ''wap-wsg-idm-ecid-wtls9'' 742 [0x67, 0x2b, 0x01, 0x04, 0x09],
   builtin_object ''wap-wsg-idm-ecid-wtls10'' ''wap-wsg-idm-ecid-wtls10'' 743 [0x67, 0x2b, 0x01, 0x04, 0x0a],
   builtin_object ''wap-wsg-idm-ecid-wtls11'' ''wap-wsg-idm-ecid-wtls11'' 744 [0x67, 0x2b, 0x01, 0x04, 0x0b],
   builtin_object ''wap-wsg-idm-ecid-wtls12'' ''wap-wsg-idm-ecid-wtls12'' 745 [0x67, 0x2b, 0x01, 0x04, 0x0c],
   builtin_object ''anyPolicy'' ''X509v3 Any Policy'' 746 [0x55, 0x1d, 0x20, 0x00],
   builtin_object ''policyMappings'' ''X509v3 Policy Mappings'' 747 [0x55, 0x1d, 0x21],
   builtin_object ''inhibitAnyPolicy'' ''X509v3 Inhibit Any Policy'' 748 [0x55, 0x1d, 0x36],
   builtin_object ''Oakley-EC2N-3'' ''ipsec3'' 749 [],
   builtin_object ''Oakley-EC2N-4'' ''ipsec4'' 750 [],
   builtin_object ''CAMELLIA-128-CBC'' ''camellia-128-cbc'' 751 [0x2a, 0x83, 0x08, 0x8c, 0x9a, 0x4b, 0x3d, 0x01, 0x01, 0x01, 0x02],
   builtin_object ''CAMELLIA-192-CBC'' ''camellia-192-cbc'' 752 [0x2a, 0x83, 0x08, 0x8c, 0x9a, 0x4b, 0x3d, 0x01, 0x01, 0x01, 0x03],
   builtin_object ''CAMELLIA-256-CBC'' ''camellia-256-cbc'' 753 [0x2a, 0x83, 0x08, 0x8c, 0x9a, 0x4b, 0x3d, 0x01, 0x01, 0x01, 0x04],
   builtin_object ''CAMELLIA-128-ECB'' ''camellia-128-ecb'' 754 [0x03, 0xa2, 0x31, 0x05, 0x03, 0x01, 0x09, 0x01],
   builtin_object ''CAMELLIA-192-ECB'' ''camellia-192-ecb'' 755 [0x03, 0xa2, 0x31, 0x05, 0x03, 0x01, 0x09, 0x15],
   builtin_object ''CAMELLIA-256-ECB'' ''camellia-256-ecb'' 756 [0x03, 0xa2, 0x31, 0x05, 0x03, 0x01, 0x09, 0x29],
   builtin_object ''CAMELLIA-128-CFB'' ''camellia-128-cfb'' 757 [0x03, 0xa2, 0x31, 0x05, 0x03, 0x01, 0x09, 0x04],
   builtin_object ''CAMELLIA-192-CFB'' ''camellia-192-cfb'' 758 [0x03, 0xa2, 0x31, 0x05, 0x03, 0x01, 0x09, 0x18],
   builtin_object ''CAMELLIA-256-CFB'' ''camellia-256-cfb'' 759 [0x03, 0xa2, 0x31, 0x05, 0x03, 0x01, 0x09, 0x2c],
   builtin_object ''CAMELLIA-128-CFB1'' ''camellia-128-cfb1'' 760 [],
   builtin_object ''CAMELLIA-192-CFB1'' ''camellia-192-cfb1'' 761 [],
   builtin_object ''CAMELLIA-256-CFB1'' ''camellia-256-cfb1'' 762 [],
   builtin_object ''CAMELLIA-128-CFB8'' ''camellia-128-cfb8'' 763 [],
   builtin_object ''CAMELLIA-192-CFB8'' ''camellia-192-cfb8'' 764 [],
   builtin_object ''CAMELLIA-256-CFB8'' ''camellia-256-cfb8'' 765 [],
   builtin_object ''CAMELLIA-128-OFB'' ''camellia-128-ofb'' 766 [0x03, 0xa2, 0x31, 0x05, 0x03, 0x01, 0x09, 0x03],
   builtin_object ''CAMELLIA-192-OFB'' ''camellia-192-ofb'' 767 [0x03, 0xa2, 0x31, 0x05, 0x03, 0x01, 0x09, 0x17],
   builtin_object ''CAMELLIA-256-OFB'' ''camellia-256-ofb'' 768 [0x03, 0xa2, 0x31, 0x05, 0x03, 0x01, 0x09, 0x2b],
   builtin_object ''subjectDirectoryAttributes'' ''X509v3 Subject Directory Attributes'' 769 [0x55, 0x1d, 0x09],
   builtin_object ''issuingDistributionPoint'' ''X509v3 Issuing Distribution Point'' 770 [0x55, 0x1d, 0x1c],
   builtin_object ''certificateIssuer'' ''X509v3 Certificate Issuer'' 771 [0x55, 0x1d, 0x1d],
   unused_object,
   builtin_object ''KISA'' ''kisa'' 773 [0x2a, 0x83, 0x1a, 0x8c, 0x9a, 0x44],
   unused_object,
   unused_object,
   builtin_object ''SEED-ECB'' ''seed-ecb'' 776 [0x2a, 0x83, 0x1a, 0x8c, 0x9a, 0x44, 0x01, 0x03],
   builtin_object ''SEED-CBC'' ''seed-cbc'' 777 [0x2a, 0x83, 0x1a, 0x8c, 0x9a, 0x44, 0x01, 0x04],
   builtin_object ''SEED-OFB'' ''seed-ofb'' 778 [0x2a, 0x83, 0x1a, 0x8c, 0x9a, 0x44, 0x01, 0x06],
   builtin_object ''SEED-CFB'' ''seed-cfb'' 779 [0x2a, 0x83, 0x1a, 0x8c, 0x9a, 0x44, 0x01, 0x05],
   builtin_object ''HMAC-MD5'' ''hmac-md5'' 780 [0x2b, 0x06, 0x01, 0x05, 0x05, 0x08, 0x01, 0x01],
   builtin_object ''HMAC-SHA1'' ''hmac-sha1'' 781 [0x2b, 0x06, 0x01, 0x05, 0x05, 0x08, 0x01, 0x02],
   builtin_object ''id-PasswordBasedMAC'' ''password based MAC'' 782 [0x2a, 0x86, 0x48, 0x86, 0xf6, 0x7d, 0x07, 0x42, 0x0d],
   builtin_object ''id-DHBasedMac'' ''Diffie-Hellman based MAC'' 783 [0x2a, 0x86, 0x48, 0x86, 0xf6, 0x7d, 0x07, 0x42, 0x1e],
   builtin_object ''id-it-suppLangTags'' ''id-it-suppLangTags'' 784 [0x2b, 0x06, 0x01, 0x05, 0x05, 0x07, 0x04, 0x10],
   builtin_object ''caRepository'' ''CA Repository'' 785 [0x2b, 0x06, 0x01, 0x05, 0x05, 0x07, 0x30, 0x05],
   builtin_object ''id-smime-ct-compressedData'' ''id-smime-ct-compressedData'' 786 [0x2a, 0x86, 0x48, 0x86, 0xf7, 0x0d, 0x01, 0x09, 0x10, 0x01, 0x09],
   builtin_object ''id-ct-asciiTextWithCRLF'' ''id-ct-asciiTextWithCRLF'' 787 [0x2a, 0x86, 0x48, 0x86, 0xf7, 0x0d, 0x01, 0x09, 0x10, 0x01, 0x1b],
   builtin_object ''id-aes128-wrap'' ''id-aes128-wrap'' 788 [0x60, 0x86, 0x48, 0x01, 0x65, 0x03, 0x04, 0x01, 0x05],
   builtin_object ''id-aes192-wrap'' ''id-aes192-wrap'' 789 [0x60, 0x86, 0x48, 0x01, 0x65, 0x03, 0x04, 0x01, 0x19],
   builtin_object ''id-aes256-wrap'' ''id-aes256-wrap'' 790 [0x60, 0x86, 0x48, 0x01, 0x65, 0x03, 0x04, 0x01, 0x2d],
   builtin_object ''ecdsa-with-Recommended'' ''ecdsa-with-Recommended'' 791 [0x2a, 0x86, 0x48, 0xce, 0x3d, 0x04, 0x02],
   builtin_object ''ecdsa-with-Specified'' ''ecdsa-with-Specified'' 792 [0x2a, 0x86, 0x48, 0xce, 0x3d, 0x04, 0x03],
   builtin_object ''ecdsa-with-SHA224'' ''ecdsa-with-SHA224'' 793 [0x2a, 0x86, 0x48, 0xce, 0x3d, 0x04, 0x03, 0x01],
   builtin_object ''ecdsa-with-SHA256'' ''ecdsa-with-SHA256'' 794 [0x2a, 0x86, 0x48, 0xce, 0x3d, 0x04, 0x03, 0x02],
   builtin_object ''ecdsa-with-SHA384'' ''ecdsa-with-SHA384'' 795 [0x2a, 0x86, 0x48, 0xce, 0x3d, 0x04, 0x03, 0x03],
   builtin_object ''ecdsa-with-SHA512'' ''ecdsa-with-SHA512'' 796 [0x2a, 0x86, 0x48, 0xce, 0x3d, 0x04, 0x03, 0x04],
   builtin_object ''hmacWithMD5'' ''hmacWithMD5'' 797 [0x2a, 0x86, 0x48, 0x86, 0xf7, 0x0d, 0x02, 0x06],
   builtin_object ''hmacWithSHA224'' ''hmacWithSHA224'' 798 [0x2a, 0x86, 0x48, 0x86, 0xf7, 0x0d, 0x02, 0x08],
   builtin_object ''hmacWithSHA256'' ''hmacWithSHA256'' 799 [0x2a, 0x86, 0x48, 0x86, 0xf7, 0x0d, 0x02, 0x09],
   builtin_object ''hmacWithSHA384'' ''hmacWithSHA384'' 800 [0x2a, 0x86, 0x48, 0x86, 0xf7, 0x0d, 0x02, 0x0a],
   builtin_object ''hmacWithSHA512'' ''hmacWithSHA512'' 801 [0x2a, 0x86, 0x48, 0x86, 0xf7, 0x0d, 0x02, 0x0b],
   builtin_object ''dsa_with_SHA224'' ''dsa_with_SHA224'' 802 [0x60, 0x86, 0x48, 0x01, 0x65, 0x03, 0x04, 0x03, 0x01],
   builtin_object ''dsa_with_SHA256'' ''dsa_with_SHA256'' 803 [0x60, 0x86, 0x48, 0x01, 0x65, 0x03, 0x04, 0x03, 0x02],
   builtin_object ''whirlpool'' ''whirlpool'' 804 [0x28, 0xcf, 0x06, 0x03, 0x00, 0x37],
   builtin_object ''cryptopro'' ''cryptopro'' 805 [0x2a, 0x85, 0x03, 0x02, 0x02],
   builtin_object ''cryptocom'' ''cryptocom'' 806 [0x2a, 0x85, 0x03, 0x02, 0x09],
   builtin_object ''id-GostR3411-94-with-GostR3410-2001'' ''GOST R 34.11-94 with GOST R 34.10-2001'' 807 [0x2a, 0x85, 0x03, 0x02, 0x02, 0x03],
   builtin_object ''id-GostR3411-94-with-GostR3410-94'' ''GOST R 34.11-94 with GOST R 34.10-94'' 808 [0x2a, 0x85, 0x03, 0x02, 0x02, 0x04],
   builtin_object ''md_gost94'' ''GOST R 34.11-94'' 809 [0x2a, 0x85, 0x03, 0x02, 0x02, 0x09],
   builtin_object ''id-HMACGostR3411-94'' ''HMAC GOST 34.11-94'' 810 [0x2a, 0x85, 0x03, 0x02, 0x02, 0x0a],
   builtin_object ''gost2001'' ''GOST R 34.10-2001'' 811 [0x2a, 0x85, 0x03, 0x02, 0x02, 0x13],
   builtin_object ''gost94'' ''GOST R 34.10-94'' 812 [0x2a, 0x85, 0x03, 0x02, 0x02, 0x14]]"

definition kObjects_10 :: "asn1_object list" where
  "kObjects_10 = [
   builtin_object ''gost89'' ''GOST 28147-89'' 813 [0x2a, 0x85, 0x03, 0x02, 0x02, 0x15],
   builtin_object ''gost89-cnt'' ''gost89-cnt'' 814 [],
   builtin_object ''gost-mac'' ''GOST 28147-89 MAC'' 815 [0x2a, 0x85, 0x03, 0x02, 0x02, 0x16],
   builtin_object ''prf-gostr3411-94'' ''GOST R 34.11-94 PRF'' 816 [0x2a, 0x85, 0x03, 0x02, 0x02, 0x17],
   builtin_object ''id-GostR3410-2001DH'' ''GOST R 34.10-2001 DH'' 817 [0x2a, 0x85, 0x03, 0x02, 0x02, 0x62],
   builtin_object ''id-GostR3410-94DH'' ''GOST R 34.10-94 DH'' 818 [0x2a, 0x85, 0x03, 0x02, 0x02, 0x63],
   builtin_object ''id-Gost28147-89-CryptoPro-KeyMeshing'' ''id-Gost28147-89-CryptoPro-KeyMeshing'' 819 [0x2a, 0x85, 0x03, 0x02, 0x02, 0x0e, 0x01],
   builtin_object ''id-Gost28147-89-None-KeyMeshing'' ''id-Gost28147-89-None-KeyMeshing'' 820 [0x2a, 0x85, 0x03, 0x02, 0x02, 0x0e, 0x00],
   builtin_object ''id-GostR3411-94-TestParamSet'' ''id-GostR3411-94-TestParamSet'' 821 [0x2a, 0x85, 0x03, 0x02, 0x02, 0x1e, 0x00],
   builtin_object ''id-GostR3411-94-CryptoProParamSet'' ''id-GostR3411-94-CryptoProParamSet'' 822 [0x2a, 0x85, 0x03, 0x02, 0x02, 0x1e, 0x01],
   builtin_object ''id-Gost28147-89-TestParamSet'' ''id-Gost28147-89-TestParamSet'' 823 [0x2a, 0x85, 0x03, 0x02, 0x02, 0x1f, 0x00],
   builtin_object ''id-Gost28147-89-CryptoPro-A-ParamSet'' ''id-Gost28147-89-CryptoPro-A-ParamSet'' 824 [0x2a, 0x85, 0x03, 0x02, 0x02, 0x1f, 0x01],
   builtin_object ''id-Gost28147-89-CryptoPro-B-ParamSet'' ''id-Gost28147-89-CryptoPro-B-ParamSet'' 825 [0x2a, 0x85, 0x03, 0x02, 0x02, 0x1f, 0x02],
   builtin_object ''id-Gost28147-89-CryptoPro-C-ParamSet'' ''id-Gost28147-89-CryptoPro-C-ParamSet'' 826 [0x2a, 0x85, 0x03, 0x02, 0x02, 0x1f, 0x03],
   builtin_object ''id-Gost28147-89-CryptoPro-D-ParamSet'' ''id-Gost28147-89-CryptoPro-D-ParamSet'' 827 [0x2a, 0x85, 0x03, 0x02, 0x02, 0x1f, 0x04],
   builtin_object ''id-Gost28147-89-CryptoPro-Oscar-1-1-ParamSet'' ''id-Gost28147-89-CryptoPro-Oscar-1-1-ParamSet'' 828 [0x2a, 0x85, 0x03, 0x02, 0x02, 0x1f, 0x05],
   builtin_object ''id-Gost28147-89-CryptoPro-Oscar-1-0-ParamSet'' ''id-Gost28147-89-CryptoPro-Oscar-1-0-ParamSet'' 829 [0x2a, 0x85, 0x03, 0x02, 0x02, 0x1f, 0x06],
   builtin_object ''id-Gost28147-89-CryptoPro-RIC-1-ParamSet'' ''id-Gost28147-89-CryptoPro-RIC-1-ParamSet'' 830 [0x2a, 0x85, 0x03, 0x02, 0x02, 0x1f, 0x07],
   builtin_object ''id-GostR3410-94-TestParamSet'' ''id-GostR3410-94-TestParamSet'' 831 [0x2a, 0x85, 0x03, 0x02, 0x02, 0x20, 0x00],
   builtin_object ''id-GostR3410-94-CryptoPro-A-ParamSet'' ''id-GostR3410-94-CryptoPro-A-ParamSet'' 832 [0x2a, 0x85, 0x03, 0x02, 0x02, 0x20, 0x02],
   builtin_object ''id-GostR3410-94-CryptoPro-B-ParamSet'' ''id-GostR3410-94-CryptoPro-B-ParamSet'' 833 [0x2a, 0x85, 0x03, 0x02, 0x02, 0x20, 0x03],
   builtin_object ''id-GostR3410-94-CryptoPro-C-ParamSet'' ''id-GostR3410-94-CryptoPro-C-ParamSet'' 834 [0x2a, 0x85, 0x03, 0x02, 0x02, 0x20, 0x04],
   builtin_object ''id-GostR3410-94-CryptoPro-D-ParamSet'' ''id-GostR3410-94-CryptoPro-D-ParamSet'' 835 [0x2a, 0x85, 0x03, 0x02, 0x02, 0x20, 0x05],
   builtin_object ''id-GostR3410-94-CryptoPro-XchA-ParamSet'' ''id-GostR3410-94-CryptoPro-XchA-ParamSet'' 836 [0x2a, 0x85, 0x03, 0x02, 0x02, 0x21, 0x01],
   builtin_object ''id-GostR3410-94-CryptoPro-XchB-ParamSet'' ''id-GostR3410-94-CryptoPro-XchB-ParamSet'' 837 [0x2a, 0x85, 0x03, 0x02, 0x02, 0x21, 0x02],
   builtin_object ''id-GostR3410-94-CryptoPro-XchC-ParamSet'' ''id-GostR3410-94-CryptoPro-XchC-ParamSet'' 838 [0x2a, 0x85, 0x03, 0x02, 0x02, 0x21, 0x03],
   builtin_object ''id-GostR3410-2001-TestParamSet'' ''id-GostR3410-2001-TestParamSet'' 839 [0x2a, 0x85, 0x03, 0x02, 0x02, 0x23, 0x00],
   builtin_object ''id-GostR3410-2001-CryptoPro-A-ParamSet'' ''id-GostR3410-2001-CryptoPro-A-ParamSet'' 840 [0x2a, 0x85, 0x03, 0x02, 0x02, 0x23, 0x01],
   builtin_object ''id-GostR3410-2001-CryptoPro-B-ParamSet'' ''id-GostR3410-2001-CryptoPro-B-ParamSet'' 841 [0x2a, 0x85, 0x03, 0x02, 0x02, 0x23, 0x02],
   builtin_object ''id-GostR3410-2001-CryptoPro-C-ParamSet'' ''id-GostR3410-2001-CryptoPro-C-ParamSet'' 842 [0x2a, 0x85, 0x03, 0x02, 0x02, 0x23, 0x03],
   builtin_object ''id-GostR3410-2001-CryptoPro-XchA-ParamSet'' ''id-GostR3410-2001-CryptoPro-XchA-ParamSet'' 843 [0x2a, 0x85, 0x03, 0x02, 0x02, 0x24, 0x00],
   builtin_object ''id-GostR3410-2001-CryptoPro-XchB-ParamSet'' ''id-GostR3410-2001-CryptoPro-XchB-ParamSet'' 844 [0x2a, 0x85, 0x03, 0x02, 0x02, 0x24, 0x01],
   builtin_object ''id-GostR3410-94-a'' ''id-GostR3410-94-a'' 845 [0x2a, 0x85, 0x03, 0x02, 0x02, 0x14, 0x01],
   builtin_object ''id-GostR3410-94-aBis'' ''id-GostR3410-94-aBis'' 846 [0x2a, 0x85, 0x03, 0x02, 0x02, 0x14, 0x02],
   builtin_object ''id-GostR3410-94-b'' ''id-GostR3410-94-b'' 847 [0x2a, 0x85, 0x03, 0x02, 0x02, 0x14, 0x03],
   builtin_object ''id-GostR3410-94-bBis'' ''id-GostR3410-94-bBis'' 848 [0x2a, 0x85, 0x03, 0x02, 0x02, 0x14, 0x04],
   builtin_object ''id-Gost28147-89-cc'' ''GOST 28147-89 Cryptocom ParamSet'' 849 [0x2a, 0x85, 0x03, 0x02, 0x09, 0x01, 0x06, 0x01],
   builtin_object ''gost94cc'' ''GOST 34.10-94 Cryptocom'' 850 [0x2a, 0x85, 0x03, 0x02, 0x09, 0x01, 0x05, 0x03],
   builtin_object ''gost2001cc'' ''GOST 34.10-2001 Cryptocom'' 851 [0x2a, 0x85, 0x03, 0x02, 0x09, 0x01, 0x05, 0x04],
   builtin_object ''id-GostR3411-94-with-GostR3410-94-cc'' ''GOST R 34.11-94 with GOST R 34.10-94 Cryptocom'' 852 [0x2a, 0x85, 0x03, 0x02, 0x09, 0x01, 0x03, 0x03],
   builtin_object ''id-GostR3411-94-with-GostR3410-2001-cc'' ''GOST R 34.11-94 with GOST R 34.10-2001 Cryptocom'' 853 [0x2a, 0x85, 0x03, 0x02, 0x09, 0x01, 0x03, 0x04],
   builtin_object ''id-GostR3410-2001-ParamSet-cc'' ''GOST R 3410-2001 Parameter Set Cryptocom'' 854 [0x2a, 0x85, 0x03, 0x02, 0x09, 0x01, 0x08, 0x01],
   builtin_object ''HMAC'' ''hmac'' 855 [],
   builtin_object ''LocalKeySet'' ''Microsoft Local Key set'' 856 [0x2b, 0x06, 0x01, 0x04, 0x01, 0x82, 0x37, 0x11, 0x02],
   builtin_object ''freshestCRL'' ''X509v3 Freshest CRL'' 857 [0x55, 0x1d, 0x2e],
   builtin_object ''id-on-permanentIdentifier'' ''Permanent Identifier'' 858 [0x2b, 0x06, 0x01, 0x05, 0x05, 0x07, 0x08, 0x03],
   builtin_object ''searchGuide'' ''searchGuide'' 859 [0x55, 0x04, 0x0e],
   builtin_object ''businessCategory'' ''businessCategory'' 860 [0x55, 0x04, 0x0f],
   builtin_object ''postalAddress'' ''postalAddress'' 861 [0x55, 0x04, 0x10],
   builtin_object ''postOfficeBox'' ''postOfficeBox'' 862 [0x55, 0x04, 0x12],
   builtin_object ''physicalDeliveryOfficeName'' ''physicalDeliveryOfficeName'' 863 [0x55, 0x04, 0x13],
   builtin_object ''telephoneNumber'' ''telephoneNumber'' 864 [0x55, 0x04, 0x14],
   builtin_object ''telexNumber'' ''telexNumber'' 865 [0x55, 0x04, 0x15],
   builtin_object ''teletexTerminalIdentifier'' ''teletexTerminalIdentifier'' 866 [0x55, 0x04, 0x16],
   builtin_object ''facsimileTelephoneNumber'' ''facsimileTelephoneNumber'' 867 [0x55, 0x04, 0x17],
   builtin_object ''x121Address'' ''x121Address'' 868 [0x55, 0x04, 0x18],
   builtin_object ''internationaliSDNNumber'' ''internationaliSDNNumber'' 869 [0x55, 0x04, 0x19],
   builtin_object ''registeredAddress'' ''registeredAddress'' 870 [0x55, 0x04, 0x1a],
   builtin_object ''destinationIndicator'' ''destinationIndicator'' 871 [0x55, 0x04, 0x1b],
   builtin_object ''preferredDeliveryMethod'' ''preferredDeliveryMethod'' 872 [0x55, 0x04, 0x1c],
   builtin_object ''presentationAddress'' ''presentationAddress'' 873 [0x55, 0x04, 0x1d],
   builtin_object ''supportedApplicationContext'' ''supportedApplicationContext'' 874 [0x55, 0x04, 0x1e],
   builtin_object ''member'' ''member'' 875 [0x55, 0x04, 0x1f],
   builtin_object ''owner'' ''owner'' 876 [0x55, 0x04, 0x20],
   builtin_object ''roleOccupant'' ''roleOccupant'' 877 [0x55, 0x04, 0x21],
   builtin_object ''seeAlso'' ''seeAlso'' 878 [0x55, 0x04, 0x22],
   builtin_object ''userPassword'' ''userPassword'' 879 [0x55, 0x04, 0x23]]"

definition kObjects_11 :: "asn1_object list" where
  "kObjects_11 = [
   builtin_object ''userCertificate'' ''userCertificate'' 880 [0x55, 0x04, 0x24],
   builtin_object ''cACertificate'' ''cACertificate'' 881 [0x55, 0x04, 0x25],
   builtin_object ''authorityRevocationList'' ''authorityRevocationList'' 882 [0x55, 0x04, 0x26],
   builtin_object ''certificateRevocationList'' ''certificateRevocationList'' 883 [0x55, 0x04, 0x27],
   builtin_object ''crossCertificatePair'' ''crossCertificatePair'' 884 [0x55, 0x04, 0x28],
   builtin_object ''enhancedSearchGuide'' ''enhancedSearchGuide'' 885 [0x55, 0x04, 0x2f],
   builtin_object ''protocolInformation'' ''protocolInformation'' 886 [0x55, 0x04, 0x30],
   builtin_object ''distinguishedName'' ''distinguishedName'' 887 [0x55, 0x04, 0x31],
   builtin_object ''uniqueMember'' ''uniqueMember'' 888 [0x55, 0x04, 0x32],
   builtin_object ''houseIdentifier'' ''houseIdentifier'' 889 [0x55, 0x04, 0x33],
   builtin_object ''supportedAlgorithms'' ''supportedAlgorithms'' 890 [0x55, 0x04, 0x34],
   builtin_object ''deltaRevocationList'' ''deltaRevocationList'' 891 [0x55, 0x04, 0x35],
   builtin_object ''dmdName'' ''dmdName'' 892 [0x55, 0x04, 0x36],
   builtin_object ''id-alg-PWRI-KEK'' ''id-alg-PWRI-KEK'' 893 [0x2a, 0x86, 0x48, 0x86, 0xf7, 0x0d, 0x01, 0x09, 0x10, 0x03, 0x09],
   builtin_object ''CMAC'' ''cmac'' 894 [],
   builtin_object ''id-aes128-GCM'' ''aes-128-gcm'' 895 [0x60, 0x86, 0x48, 0x01, 0x65, 0x03, 0x04, 0x01, 0x06],
   builtin_object ''id-aes128-CCM'' ''aes-128-ccm'' 896 [0x60, 0x86, 0x48, 0x01, 0x65, 0x03, 0x04, 0x01, 0x07],
   builtin_object ''id-aes128-wrap-pad'' ''id-aes128-wrap-pad'' 897 [0x60, 0x86, 0x48, 0x01, 0x65, 0x03, 0x04, 0x01, 0x08],
   builtin_object ''id-aes192-GCM'' ''aes-192-gcm'' 898 [0x60, 0x86, 0x48, 0x01, 0x65, 0x03, 0x04, 0x01, 0x1a],
   builtin_object ''id-aes192-CCM'' ''aes-192-ccm'' 899 [0x60, 0x86, 0x48, 0x01, 0x65, 0x03, 0x04, 0x01, 0x1b],
   builtin_object ''id-aes192-wrap-pad'' ''id-aes192-wrap-pad'' 900 [0x60, 0x86, 0x48, 0x01, 0x65, 0x03, 0x04, 0x01, 0x1c],
   builtin_object ''id-aes256-GCM'' ''aes-256-gcm'' 901 [0x60, 0x86, 0x48, 0x01, 0x65, 0x03, 0x04, 0x01, 0x2e],
   builtin_object ''id-aes256-CCM'' ''aes-256-ccm'' 902 [0x60, 0x86, 0x48, 0x01, 0x65, 0x03, 0x04, 0x01, 0x2f],
   builtin_object ''id-aes256-wrap-pad'' ''id-aes256-wrap-pad'' 903 [0x60, 0x86, 0x48, 0x01, 0x65, 0x03, 0x04, 0x01, 0x30],
   builtin_object ''AES-128-CTR'' ''aes-128-ctr'' 904 [],
   builtin_object ''AES-192-CTR'' ''aes-192-ctr'' 905 [],
   builtin_object ''AES-256-CTR'' ''aes-256-ctr'' 906 [],
   builtin_object ''id-camellia128-wrap'' ''id-camellia128-wrap'' 907 [0x2a, 0x83, 0x08, 0x8c, 0x9a, 0x4b, 0x3d, 0x01, 0x01, 0x03, 0x02],
   builtin_object ''id-camellia192-wrap'' ''id-camellia192-wrap'' 908 [0x2a, 0x83, 0x08, 0x8c, 0x9a, 0x4b, 0x3d, 0x01, 0x01, 0x03, 0x03],
   builtin_object ''id-camellia256-wrap'' ''id-camellia256-wrap'' 909 [0x2a, 0x83, 0x08, 0x8c, 0x9a, 0x4b, 0x3d, 0x01, 0x01, 0x03, 0x04],
   builtin_object ''anyExtendedKeyUsage'' ''Any Extended Key Usage'' 910 [0x55, 0x1d, 0x25, 0x00],
   builtin_object ''MGF1'' ''mgf1'' 911 [0x2a, 0x86, 0x48, 0x86, 0xf7, 0x0d, 0x01, 0x01, 0x08],
   builtin_object ''RSASSA-PSS'' ''rsassaPss'' 912 [0x2a, 0x86, 0x48, 0x86, 0xf7, 0x0d, 0x01, 0x01, 0x0a],
   builtin_object ''AES-128-XTS'' ''aes-128-xts'' 913 [],
   builtin_object ''AES-256-XTS'' ''aes-256-xts'' 914 [],
   builtin_object ''RC4-HMAC-MD5'' ''rc4-hmac-md5'' 915 [],
   builtin_object ''AES-128-CBC-HMAC-SHA1'' ''aes-128-cbc-hmac-sha1'' 916 [],
   builtin_object ''AES-192-CBC-HMAC-SHA1'' ''aes-192-cbc-hmac-sha1'' 917 [],
   builtin_object ''AES-256-CBC-HMAC-SHA1'' ''aes-256-cbc-hmac-sha1'' 918 [],
   builtin_object ''RSAES-OAEP'' ''rsaesOaep'' 919 [0x2a, 0x86, 0x48, 0x86, 0xf7, 0x0d, 0x01, 0x01, 0x07],
   builtin_object ''dhpublicnumber'' ''X9.42 DH'' 920 [0x2a, 0x86, 0x48, 0xce, 0x3e, 0x02, 0x01],
   builtin_object ''brainpoolP160r1'' ''brainpoolP160r1'' 921 [0x2b, 0x24, 0x03, 0x03, 0x02, 0x08, 0x01, 0x01, 0x01],
   builtin_object ''brainpoolP160t1'' ''brainpoolP160t1'' 922 [0x2b, 0x24, 0x03, 0x03, 0x02, 0x08, 0x01, 0x01, 0x02],
   builtin_object ''brainpoolP192r1'' ''brainpoolP192r1'' 923 [0x2b, 0x24, 0x03, 0x03, 0x02, 0x08, 0x01, 0x01, 0x03],
   builtin_object ''brainpoolP192t1'' ''brainpoolP192t1'' 924 [0x2b, 0x24, 0x03, 0x03, 0x02, 0x08, 0x01, 0x01, 0x04],
   builtin_object ''brainpoolP224r1'' ''brainpoolP224r1'' 925 [0x2b, 0x24, 0x03, 0x03, 0x02, 0x08, 0x01, 0x01, 0x05],
   builtin_object ''brainpoolP224t1'' ''brainpoolP224t1'' 926 [0x2b, 0x24, 0x03, 0x03, 0x02, 0x08, 0x01, 0x01, 0x06],
   builtin_object ''brainpoolP256r1'' ''brainpoolP256r1'' 927 [0x2b, 0x24, 0x03, 0x03, 0x02, 0x08, 0x01, 0x01, 0x07],
   builtin_object ''brainpoolP256t1'' ''brainpoolP256t1'' 928 [0x2b, 0x24, 0x03, 0x03, 0x02, 0x08, 0x01, 0x01, 0x08],
   builtin_object ''brainpoolP320r1'' ''brainpoolP320r1'' 929 [0x2b, 0x24, 0x03, 0x03, 0x02, 0x08, 0x01, 0x01, 0x09],
   builtin_object ''brainpoolP320t1'' ''brainpoolP320t1'' 930 [0x2b, 0x24, 0x03, 0x03, 0x02, 0x08, 0x01, 0x01, 0x0a],
   builtin_object ''brainpoolP384r1'' ''brainpoolP384r1'' 931 [0x2b, 0x24, 0x03, 0x03, 0x02, 0x08, 0x01, 0x01, 0x0b],
   builtin_object ''brainpoolP384t1'' ''brainpoolP384t1'' 932 [0x2b, 0x24, 0x03, 0x03, 0x02, 0x08, 0x01, 0x01, 0x0c],
   builtin_object ''brainpoolP512r1'' ''brainpoolP512r1'' 933 [0x2b, 0x24, 0x03, 0x03, 0x02, 0x08, 0x01, 0x01, 0x0d],
   builtin_object ''brainpoolP512t1'' ''brainpoolP512t1'' 934 [0x2b, 0x24, 0x03, 0x03, 0x02, 0x08, 0x01, 0x01, 0x0e],
   builtin_object ''PSPECIFIED'' ''pSpecified'' 935 [0x2a, 0x86, 0x48, 0x86, 0xf7, 0x0d, 0x01, 0x01, 0x09],
   builtin_object ''dhSinglePass-stdDH-sha1kdf-scheme'' ''dhSinglePass-stdDH-sha1kdf-scheme'' 936 [0x2b, 0x81, 0x05, 0x10, 0x86, 0x48, 0x3f, 0x00, 0x02],
   builtin_object ''dhSinglePass-stdDH-sha224kdf-scheme'' ''dhSinglePass-stdDH-sha224kdf-scheme'' 937 [0x2b, 0x81, 0x04, 0x01, 0x0b, 0x00],
   builtin_object ''dhSinglePass-stdDH-sha256kdf-scheme'' ''dhSinglePass-stdDH-sha256kdf-scheme'' 938 [0x2b, 0x81, 0x04, 0x01, 0x0b, 0x01],
   builtin_object ''dhSinglePass-stdDH-sha384kdf-scheme'' ''dhSinglePass-stdDH-sha384kdf-scheme'' 939 [0x2b, 0x81, 0x04, 0x01, 0x0b, 0x02],
   builtin_object ''dhSinglePass-stdDH-sha512kdf-scheme'' ''dhSinglePass-stdDH-sha512kdf-scheme'' 940 [0x2b, 0x81, 0x04, 0x01, 0x0b, 0x03],
   builtin_object ''dhSinglePass-cofactorDH-sha1kdf-scheme'' ''dhSinglePass-cofactorDH-sha1kdf-scheme'' 941 [0x2b, 0x81, 0x05, 0x10, 0x86, 0x48, 0x3f, 0x00, 0x03],
   builtin_object ''dhSinglePass-cofactorDH-sha224kdf-scheme'' ''dhSinglePass-cofactorDH-sha224kdf-scheme'' 942 [0x2b, 0x81, 0x04, 0x01, 0x0e, 0x00],
   builtin_object ''dhSinglePass-cofactorDH-sha256kdf-scheme'' ''dhSinglePass-cofactorDH-sha256kdf-scheme'' 943 [0x2b, 0x81, 0x04, 0x01, 0x0e, 0x01],
   builtin_object ''dhSinglePass-cofactorDH-sha384kdf-scheme'' ''dhSinglePass-cofactorDH-sha384kdf-scheme'' 944 [0x2b, 0x81, 0x04, 0x01, 0x0e, 0x02],
   builtin_object ''dhSinglePass-cofactorDH-sha512kdf-scheme'' ''dhSinglePass-cofactorDH-sha512kdf-scheme'' 945 [0x2b, 0x81, 0x04, 0x01, 0x0e, 0x03],
   builtin_object ''dh-std-kdf'' ''dh-std-kdf'' 946 [],
   builtin_object ''dh-cofactor-kdf'' ''dh-cofactor-kdf'' 947 [],
   builtin_object ''X25519'' ''X25519'' 948 [0x2b, 0x65, 0x6e],
   builtin_object ''ED25519'' ''ED25519'' 949 [0x2b, 0x65, 0x70],
   builtin_object ''ChaCha20-Poly1305'' ''chacha20-poly1305'' 950 [],
   builtin_object ''KxRSA'' ''kx-rsa'' 951 [],
   builtin_object ''KxECDHE'' ''kx-ecdhe'' 952 [],
   builtin_object ''KxPSK'' ''kx-psk'' 953 [],
   builtin_object ''AuthRSA'' ''auth-rsa'' 954 [],
   builtin_object ''AuthECDSA'' ''auth-ecdsa'' 955 [],
   builtin_object ''AuthPSK'' ''auth-psk'' 956 [],
   builtin_object ''KxANY'' ''kx-any'' 957 [],
   builtin_object ''AuthANY'' ''auth-any'' 958 [],
   unused_object,
   builtin_object ''ED448'' ''ED448'' 960 [0x2b, 0x65, 0x71],
   builtin_object ''X448'' ''X448'' 961 [0x2b, 0x65, 0x6f],
   builtin_object ''SHA512-256'' ''sha512-256'' 962 [0x60, 0x86, 0x48, 0x01, 0x65, 0x03, 0x04, 0x02, 0x06],
   builtin_object ''HKDF'' ''hkdf'' 963 [],
   builtin_object ''X25519Kyber768Draft00'' ''X25519Kyber768Draft00'' 964 []]"

definition kObjects :: "asn1_object list" where
  "kObjects = concat [
     kObjects_1, kObjects_2, kObjects_3, kObjects_4, kObjects_5, kObjects_6, kObjects_7, kObjects_8,
     kObjects_9, kObjects_10, kObjects_11]"

definition kNIDsInShortNameOrder_1 :: "nat list" where
  "kNIDsInShortNameOrder_1 = [
     364, 419, 916, 421, 650, 653, 904, 418, 420, 913, 423, 917, 425, 651, 654, 905, 422, 424, 427,
     918, 429, 652, 655, 906, 426, 428, 914, 958, 955, 956, 954, 91, 93, 92, 94, 14, 751, 757, 760,
     763, 754, 766, 752, 758, 761, 764, 755, 767, 753, 759, 762, 765, 756, 768, 108, 110, 109, 111,
     894, 13, 141, 417, 950, 367, 391, 31, 643, 30, 656, 657, 29, 32, 43, 60, 62, 33, 44, 61, 658,
     659, 63, 45, 80, 380, 116, 66, 113, 70, 67, 297, 949, 960, 99, 963, 855, 780, 781, 381, 34, 35,
     36, 46, 181, 183, 645, 646, 773, 957, 952, 953, 951, 15, 856, 3, 257, 4, 114, 95, 911, 388, 57,
     366, 17, 178, 180, 379, 18, 749, 750, 9, 168, 10, 169, 147, 146, 170, 148, 149, 68, 144, 145,
     161, 69, 162, 127, 935, 98, 166, 37, 39]"

definition kNIDsInShortNameOrder_2 :: "nat list" where
  "kNIDsInShortNameOrder_2 = [
     38, 40, 5, 97, 915, 120, 122, 121, 123, 117, 19, 7, 396, 8, 96, 104, 119, 42, 65, 115, 671,
     668, 669, 670, 919, 912, 777, 779, 776, 778, 41, 64, 675, 672, 673, 674, 962, 188, 167, 100,
     16, 143, 458, 948, 964, 961, 11, 378, 12, 184, 185, 125, 478, 289, 287, 397, 288, 368, 446,
     363, 376, 405, 910, 746, 370, 484, 485, 501, 177, 90, 882, 87, 365, 285, 921, 922, 923, 924,
     925, 926, 927, 928, 929, 930, 931, 932, 933, 934, 494, 860, 691, 692, 697, 698, 684, 685, 686,
     687, 693, 699, 700, 702, 688, 689, 690, 694, 695, 696, 701, 703, 881, 483, 179, 785, 443, 152,
     677, 771, 89, 883, 54, 407, 395, 130, 131, 50, 53, 153, 103, 88, 884, 806, 805, 500, 451, 495,
     434, 390, 140, 891, 107, 871, 947, 946, 28, 941, 942, 943, 944, 945]"

definition kNIDsInShortNameOrder_3 :: "nat list" where
  "kNIDsInShortNameOrder_3 = [
     936, 937, 938, 939, 940, 920, 382, 887, 892, 174, 447, 471, 468, 472, 502, 449, 469, 470, 392,
     452, 802, 803, 791, 416, 793, 794, 795, 796, 792, 48, 132, 885, 389, 384, 172, 56, 126, 372,
     867, 462, 857, 453, 490, 156, 509, 815, 811, 851, 813, 814, 812, 850, 797, 163, 798, 799, 800,
     801, 432, 430, 431, 433, 486, 473, 466, 889, 442, 783, 824, 825, 826, 827, 819, 829, 828, 830,
     820, 823, 849, 840, 841, 842, 843, 844, 854, 839, 817, 832, 833, 834, 835, 836, 837, 838, 831,
     845, 846, 847, 848, 818, 822, 821, 807, 853, 808, 852, 810, 782, 266, 355, 354, 356, 399, 357,
     358, 176, 896, 895, 788, 897, 899, 898, 789, 900, 902, 901, 790, 903, 262, 893, 323, 326, 325,
     324, 907, 908, 909, 268, 361, 362, 360, 81, 680, 263, 334, 346, 330, 336, 335, 339]"

definition kNIDsInShortNameOrder_4 :: "nat list" where
  "kNIDsInShortNameOrder_4 = [
     338, 328, 329, 337, 344, 345, 343, 333, 341, 342, 340, 332, 327, 331, 787, 408, 508, 507, 260,
     302, 298, 311, 303, 300, 310, 308, 307, 312, 301, 309, 299, 305, 306, 784, 304, 128, 280, 274,
     277, 284, 273, 283, 275, 276, 282, 278, 279, 281, 264, 858, 347, 265, 352, 353, 348, 351, 349,
     175, 261, 258, 269, 271, 270, 272, 662, 664, 667, 665, 267, 359, 259, 164, 165, 313, 316, 319,
     318, 317, 320, 315, 314, 322, 321, 512, 191, 215, 218, 221, 240, 217, 222, 220, 232, 233, 238,
     237, 234, 227, 231, 236, 230, 235, 226, 229, 228, 219, 214, 216, 212, 213, 239, 223, 224, 225,
     192, 243, 246, 247, 245, 241, 242, 244, 193, 248, 190, 210, 211, 208, 207, 205, 786, 209, 206,
     204, 195, 255, 256, 253, 251, 252, 254, 189, 196, 197, 202, 203, 200, 201, 199, 198]"

definition kNIDsInShortNameOrder_5 :: "nat list" where
  "kNIDsInShortNameOrder_5 = [
     194, 250, 249, 676, 461, 748, 101, 647, 869, 142, 294, 295, 296, 86, 770, 492, 150, 83, 477,
     476, 157, 480, 460, 493, 467, 809, 875, 182, 51, 383, 504, 506, 505, 488, 136, 135, 134, 138,
     171, 137, 648, 649, 481, 173, 666, 369, 403, 72, 76, 74, 58, 79, 71, 78, 59, 75, 73, 139, 77,
     681, 491, 475, 876, 489, 374, 112, 499, 487, 464, 863, 437, 439, 438, 479, 456, 441, 444, 440,
     455, 445, 2, 186, 27, 187, 20, 21, 25, 26, 23, 24, 22, 151, 47, 401, 747, 862, 861, 661, 683,
     872, 873, 816, 406, 409, 410, 411, 412, 413, 414, 415, 385, 84, 886, 663, 510, 435, 286, 457,
     450, 870, 400, 877, 448, 463, 6, 644, 377, 1, 482, 155, 291, 290, 292, 159, 859, 704, 705, 706,
     707, 708, 709, 710, 711, 712, 713, 714, 715, 716, 154, 474]"

definition kNIDsInShortNameOrder_6 :: "nat list" where
  "kNIDsInShortNameOrder_6 = [
     717, 718, 719, 720, 721, 722, 723, 724, 725, 726, 727, 728, 729, 730, 731, 732, 733, 734, 386,
     878, 394, 105, 129, 371, 625, 515, 518, 638, 637, 636, 639, 641, 642, 640, 517, 513, 514, 516,
     607, 624, 620, 631, 623, 628, 630, 629, 621, 635, 632, 633, 634, 627, 626, 622, 619, 615, 616,
     618, 617, 611, 609, 608, 610, 613, 614, 612, 540, 576, 570, 534, 527, 571, 572, 535, 536, 528,
     577, 541, 529, 542, 578, 579, 543, 573, 537, 600, 558, 592, 559, 593, 599, 598, 580, 581, 544,
     545, 546, 582, 583, 584, 547, 548, 549, 585, 538, 530, 574, 575, 539, 560, 566, 563, 595, 596,
     564, 565, 597, 586, 587, 550, 551, 552, 588, 589, 590, 553, 554, 555, 591, 567, 526, 561, 522,
     519, 521, 520, 556, 557, 523, 532, 524, 525, 568, 569, 531, 533, 594, 562, 606, 601]"

definition kNIDsInShortNameOrder_7 :: "nat list" where
  "kNIDsInShortNameOrder_7 = [
     602, 604, 603, 605, 52, 454, 496, 387, 660, 85, 769, 398, 82, 498, 497, 890, 874, 402, 864,
     866, 865, 459, 293, 133, 106, 682, 375, 436, 888, 55, 49, 880, 465, 879, 373, 678, 679, 735,
     743, 744, 745, 736, 737, 738, 739, 740, 741, 742, 804, 868, 503, 158, 160]"

definition kNIDsInShortNameOrder :: "nat list" where
  "kNIDsInShortNameOrder = concat [
     kNIDsInShortNameOrder_1, kNIDsInShortNameOrder_2, kNIDsInShortNameOrder_3,
     kNIDsInShortNameOrder_4, kNIDsInShortNameOrder_5, kNIDsInShortNameOrder_6,
     kNIDsInShortNameOrder_7]"

definition kNIDsInLongNameOrder_1 :: "nat list" where
  "kNIDsInLongNameOrder_1 = [
     363, 405, 368, 910, 664, 177, 365, 285, 179, 785, 131, 783, 382, 392, 132, 949, 960, 389, 384,
     372, 172, 813, 849, 815, 851, 850, 811, 817, 812, 818, 809, 816, 807, 853, 808, 852, 854, 810,
     432, 430, 431, 433, 634, 294, 295, 296, 182, 183, 667, 665, 647, 142, 504, 388, 383, 417, 135,
     138, 171, 134, 856, 137, 648, 136, 649, 72, 76, 74, 71, 58, 79, 78, 57, 59, 75, 73, 77, 139,
     178, 370, 367, 369, 366, 371, 180, 161, 69, 162, 127, 858, 164, 165, 385, 663, 1, 2, 188, 167,
     387, 512, 386, 394, 143, 398, 130, 129, 133, 375, 948, 964, 961, 12, 402, 746, 90, 87, 103, 88,
     141, 771, 89, 140, 126, 857, 748, 86, 770, 83, 666, 403, 401, 747, 84, 85, 769, 82, 920, 184,
     185, 478, 289, 287, 397, 288, 446, 364, 606, 419, 916, 896]"

definition kNIDsInLongNameOrder_2 :: "nat list" where
  "kNIDsInLongNameOrder_2 = [
     421, 650, 653, 904, 418, 895, 420, 913, 423, 917, 899, 425, 651, 654, 905, 422, 898, 424, 427,
     918, 902, 429, 652, 655, 906, 426, 901, 428, 914, 376, 484, 485, 501, 958, 955, 956, 954, 882,
     91, 93, 92, 94, 921, 922, 923, 924, 925, 926, 927, 928, 929, 930, 931, 932, 933, 934, 494, 860,
     691, 692, 697, 698, 684, 685, 686, 687, 693, 699, 700, 702, 688, 689, 690, 694, 695, 696, 701,
     703, 881, 483, 751, 757, 760, 763, 754, 766, 752, 758, 761, 764, 755, 767, 753, 759, 762, 765,
     756, 768, 443, 108, 110, 109, 111, 152, 677, 517, 883, 950, 54, 407, 395, 633, 894, 13, 513,
     50, 53, 14, 153, 884, 806, 805, 500, 451, 495, 434, 390, 891, 31, 643, 30, 656, 657, 29, 32,
     43, 60, 62, 33, 44, 61, 658, 659, 63, 45, 107, 871, 80, 947, 946]"

definition kNIDsInLongNameOrder_3 :: "nat list" where
  "kNIDsInLongNameOrder_3 = [
     28, 941, 942, 943, 944, 945, 936, 937, 938, 939, 940, 11, 378, 887, 892, 174, 447, 471, 468,
     472, 502, 449, 469, 470, 380, 391, 452, 116, 67, 66, 113, 70, 802, 803, 297, 791, 416, 793,
     794, 795, 796, 792, 48, 632, 885, 56, 867, 462, 453, 490, 156, 631, 509, 601, 99, 814, 963,
     855, 780, 781, 797, 163, 798, 799, 800, 801, 486, 473, 466, 889, 442, 381, 824, 825, 826, 827,
     819, 829, 828, 830, 820, 823, 840, 841, 842, 843, 844, 839, 832, 833, 834, 835, 836, 837, 838,
     831, 845, 846, 847, 848, 822, 821, 266, 355, 354, 356, 399, 357, 358, 176, 788, 897, 789, 900,
     790, 903, 262, 893, 323, 326, 325, 324, 907, 908, 909, 268, 361, 362, 360, 81, 680, 263, 334,
     346, 330, 336, 335, 339, 338, 328, 329, 337, 344, 345, 343, 333, 341, 342, 340, 332]"

definition kNIDsInLongNameOrder_4 :: "nat list" where
  "kNIDsInLongNameOrder_4 = [
     327, 331, 787, 408, 508, 507, 260, 302, 298, 311, 303, 300, 310, 308, 307, 312, 301, 309, 299,
     305, 306, 784, 304, 128, 280, 274, 277, 284, 273, 283, 275, 276, 282, 278, 279, 281, 264, 347,
     265, 352, 353, 348, 351, 349, 175, 261, 258, 269, 271, 270, 272, 662, 267, 359, 259, 313, 316,
     319, 318, 317, 320, 315, 314, 322, 321, 191, 215, 218, 221, 240, 217, 222, 220, 232, 233, 238,
     237, 234, 227, 231, 236, 230, 235, 226, 229, 228, 219, 214, 216, 212, 213, 239, 223, 224, 225,
     192, 243, 246, 247, 245, 241, 242, 244, 193, 248, 190, 210, 211, 208, 207, 205, 786, 209, 206,
     204, 195, 255, 256, 253, 251, 252, 254, 189, 196, 197, 202, 203, 200, 201, 199, 198, 194, 250,
     249, 34, 35, 36, 46, 676, 461, 101, 869, 749, 750, 181, 623, 645, 492, 646, 150]"

definition kNIDsInLongNameOrder_5 :: "nat list" where
  "kNIDsInLongNameOrder_5 = [
     773, 957, 952, 953, 951, 477, 476, 157, 15, 480, 493, 467, 3, 7, 257, 396, 4, 114, 104, 8, 95,
     96, 875, 602, 514, 51, 911, 506, 505, 488, 481, 173, 681, 379, 17, 491, 18, 475, 876, 935, 489,
     782, 374, 621, 9, 168, 112, 10, 169, 148, 144, 147, 146, 149, 145, 170, 68, 499, 487, 464, 863,
     437, 439, 438, 479, 456, 441, 444, 440, 455, 445, 186, 27, 187, 20, 21, 25, 26, 23, 24, 22,
     151, 47, 862, 861, 661, 683, 872, 873, 406, 409, 410, 411, 412, 413, 414, 415, 886, 510, 435,
     286, 457, 450, 98, 166, 37, 39, 38, 40, 5, 97, 915, 120, 122, 121, 123, 870, 460, 117, 119,
     400, 877, 448, 463, 19, 6, 644, 377, 919, 912, 482, 155, 291, 290, 292, 159, 859, 704, 705,
     706, 707, 708, 709, 710, 711, 712, 713, 714, 715, 716]"

definition kNIDsInLongNameOrder_6 :: "nat list" where
  "kNIDsInLongNameOrder_6 = [
     154, 474, 717, 718, 719, 720, 721, 722, 723, 724, 725, 726, 727, 728, 729, 730, 731, 732, 733,
     734, 635, 878, 777, 779, 776, 778, 105, 625, 515, 518, 638, 637, 636, 639, 641, 642, 640, 516,
     607, 624, 620, 628, 630, 629, 627, 626, 622, 619, 615, 616, 618, 617, 611, 609, 608, 610, 613,
     614, 612, 540, 576, 570, 534, 527, 571, 572, 535, 536, 528, 577, 541, 529, 542, 578, 579, 543,
     573, 537, 600, 558, 592, 559, 593, 599, 598, 580, 581, 544, 545, 546, 582, 583, 584, 547, 548,
     549, 585, 538, 530, 574, 575, 539, 560, 566, 563, 595, 596, 564, 565, 597, 586, 587, 550, 551,
     552, 588, 589, 590, 553, 554, 555, 591, 567, 526, 561, 522, 519, 521, 520, 556, 557, 523, 532,
     524, 525, 568, 569, 531, 533, 594, 562, 604, 603, 605, 41, 64, 115, 65, 675, 671]"

definition kNIDsInLongNameOrder_7 :: "nat list" where
  "kNIDsInLongNameOrder_7 = [
     672, 668, 673, 669, 674, 962, 670, 42, 52, 454, 496, 16, 660, 498, 497, 890, 874, 100, 864,
     866, 865, 459, 293, 106, 682, 436, 888, 55, 49, 880, 465, 458, 879, 373, 678, 679, 735, 743,
     744, 745, 736, 737, 738, 739, 740, 741, 742, 804, 868, 503, 158, 160, 125]"

definition kNIDsInLongNameOrder :: "nat list" where
  "kNIDsInLongNameOrder = concat [
     kNIDsInLongNameOrder_1, kNIDsInLongNameOrder_2, kNIDsInLongNameOrder_3, kNIDsInLongNameOrder_4,
     kNIDsInLongNameOrder_5, kNIDsInLongNameOrder_6, kNIDsInLongNameOrder_7]"

definition kNIDsInOIDOrder_1 :: "nat list" where
  "kNIDsInOIDOrder_1 = [
     434, 182, 379, 676, 11, 647, 380, 12, 378, 81, 512, 678, 435, 183, 381, 948, 961, 949, 960,
     677, 394, 13, 100, 105, 14, 15, 16, 660, 17, 18, 106, 107, 859, 860, 861, 661, 862, 863, 864,
     865, 866, 867, 868, 869, 870, 871, 872, 873, 874, 875, 876, 877, 878, 879, 880, 881, 882, 883,
     884, 173, 99, 101, 509, 503, 174, 885, 886, 887, 888, 889, 890, 891, 892, 510, 400, 769, 82,
     83, 84, 85, 86, 87, 88, 141, 430, 142, 140, 770, 771, 666, 103, 89, 747, 90, 401, 126, 857,
     748, 402, 403, 513, 514, 515, 516, 517, 518, 679, 382, 383, 384, 385, 386, 387, 388, 376, 395,
     19, 96, 95, 746, 910, 519, 520, 521, 522, 523, 524, 525, 526, 527, 528, 529, 530, 531, 532,
     533, 534, 535, 536, 537, 538, 539, 540, 541, 542, 543, 544, 545, 546, 547]"

definition kNIDsInOIDOrder_2 :: "nat list" where
  "kNIDsInOIDOrder_2 = [
     548, 549, 550, 551, 552, 553, 554, 555, 556, 557, 558, 559, 560, 561, 562, 563, 564, 565, 566,
     567, 568, 569, 570, 571, 572, 573, 574, 575, 576, 577, 578, 579, 580, 581, 582, 583, 584, 585,
     586, 587, 588, 589, 590, 591, 592, 593, 594, 595, 596, 597, 598, 599, 600, 601, 602, 603, 604,
     605, 606, 620, 621, 622, 623, 607, 608, 609, 610, 611, 612, 613, 614, 615, 616, 617, 618, 619,
     636, 640, 641, 637, 638, 639, 805, 806, 184, 405, 389, 504, 104, 29, 31, 45, 30, 377, 67, 66,
     42, 32, 41, 64, 70, 115, 117, 143, 721, 722, 728, 717, 718, 704, 705, 709, 708, 714, 723, 729,
     730, 719, 720, 724, 725, 726, 727, 706, 707, 710, 711, 712, 713, 715, 716, 731, 732, 733, 734,
     624, 625, 626, 627, 628, 629, 630, 642, 735, 736, 737, 738, 739, 740, 741]"

definition kNIDsInOIDOrder_3 :: "nat list" where
  "kNIDsInOIDOrder_3 = [
     742, 743, 744, 745, 804, 773, 807, 808, 809, 810, 811, 812, 813, 815, 816, 817, 818, 1, 185,
     127, 505, 506, 119, 937, 938, 939, 940, 942, 943, 944, 945, 631, 632, 633, 634, 635, 436, 820,
     819, 845, 846, 847, 848, 821, 822, 823, 824, 825, 826, 827, 828, 829, 830, 831, 832, 833, 834,
     835, 836, 837, 838, 839, 840, 841, 842, 843, 844, 2, 431, 432, 433, 116, 113, 406, 407, 408,
     416, 791, 792, 920, 258, 175, 259, 128, 260, 261, 262, 263, 264, 265, 266, 267, 268, 662, 176,
     507, 508, 57, 754, 766, 757, 755, 767, 758, 756, 768, 759, 437, 776, 777, 779, 778, 852, 853,
     850, 851, 849, 854, 186, 27, 187, 20, 47, 3, 257, 4, 797, 163, 798, 799, 800, 801, 37, 5, 44,
     120, 643, 680, 684, 685, 686, 687, 688, 689, 690, 691, 692, 693, 694, 695]"

definition kNIDsInOIDOrder_4 :: "nat list" where
  "kNIDsInOIDOrder_4 = [
     696, 697, 698, 699, 700, 701, 702, 703, 409, 410, 411, 412, 413, 414, 415, 793, 794, 795, 796,
     269, 270, 271, 272, 273, 274, 275, 276, 277, 278, 279, 280, 281, 282, 283, 284, 177, 285, 286,
     287, 288, 289, 290, 291, 292, 397, 398, 663, 164, 165, 293, 129, 130, 131, 132, 294, 295, 296,
     133, 180, 297, 298, 299, 300, 301, 302, 303, 304, 305, 306, 307, 308, 309, 310, 311, 312, 784,
     313, 314, 323, 324, 325, 326, 327, 328, 329, 330, 331, 332, 333, 334, 335, 336, 337, 338, 339,
     340, 341, 342, 343, 344, 345, 346, 347, 858, 348, 349, 351, 352, 353, 354, 355, 356, 357, 358,
     399, 359, 360, 361, 362, 664, 665, 667, 178, 179, 363, 364, 785, 780, 781, 58, 59, 438, 439,
     440, 441, 108, 112, 782, 783, 6, 7, 396, 8, 65, 644, 919, 911, 935, 912, 668]"

definition kNIDsInOIDOrder_5 :: "nat list" where
  "kNIDsInOIDOrder_5 = [
     669, 670, 671, 28, 9, 10, 168, 169, 170, 68, 69, 161, 162, 21, 22, 23, 24, 25, 26, 48, 49, 50,
     51, 52, 53, 54, 55, 56, 172, 167, 188, 156, 157, 681, 682, 683, 417, 856, 390, 91, 315, 316,
     317, 318, 319, 320, 321, 322, 365, 366, 367, 368, 369, 370, 371, 372, 373, 374, 375, 921, 922,
     923, 924, 925, 926, 927, 928, 929, 930, 931, 932, 933, 934, 936, 941, 418, 419, 420, 421, 788,
     895, 896, 897, 422, 423, 424, 425, 789, 898, 899, 900, 426, 427, 428, 429, 790, 901, 902, 903,
     672, 673, 674, 675, 962, 802, 803, 71, 72, 73, 74, 75, 76, 77, 78, 79, 139, 458, 459, 460, 461,
     462, 463, 464, 465, 466, 467, 468, 469, 470, 471, 472, 473, 474, 475, 476, 477, 391, 478, 479,
     480, 481, 482, 483, 484, 485, 486, 487, 488, 489, 490]"

definition kNIDsInOIDOrder_6 :: "nat list" where
  "kNIDsInOIDOrder_6 = [
     491, 492, 493, 494, 495, 496, 497, 498, 499, 500, 501, 502, 442, 443, 444, 445, 446, 447, 448,
     449, 392, 450, 451, 452, 453, 454, 455, 456, 457, 189, 190, 191, 192, 193, 194, 195, 158, 159,
     160, 144, 145, 146, 147, 148, 149, 171, 134, 135, 136, 137, 138, 648, 649, 751, 752, 753, 907,
     908, 909, 196, 197, 198, 199, 200, 201, 202, 203, 204, 205, 206, 207, 208, 209, 210, 211, 786,
     787, 212, 213, 214, 215, 216, 217, 218, 219, 220, 221, 222, 223, 224, 225, 226, 227, 228, 229,
     230, 231, 232, 233, 234, 235, 236, 237, 238, 239, 240, 241, 242, 243, 244, 245, 246, 247, 125,
     893, 248, 249, 250, 251, 252, 253, 254, 255, 256, 150, 151, 152, 153, 154, 155, 34]"

definition kNIDsInOIDOrder :: "nat list" where
  "kNIDsInOIDOrder = concat [
     kNIDsInOIDOrder_1, kNIDsInOIDOrder_2, kNIDsInOIDOrder_3, kNIDsInOIDOrder_4, kNIDsInOIDOrder_5,
     kNIDsInOIDOrder_6]"

end
