(* ===== verification/Table_Check.thy ===== *)
theory Table_Check
  imports C_String "HOL-Library.List_Lexorder" "HOL-Library.Product_Lexorder"
begin

text \<open>
  Means to check large tables in the kernel: orders on characters, strings and bytes that rewriting
  decides on the literals, an array as a trie over binary numerals, linear passes over a list. Each
  comes with the lemma that says what it computes.
\<close>

section \<open>Strings\<close>

lemma bits_less: "(of_bool a + 2 * x < of_bool b + 2 * (y :: nat)) \<longleftrightarrow> x < y \<or> (x = y \<and> \<not> a \<and> b)"
  by (cases a; cases b) auto
lemma bits_eq: "(of_bool a + 2 * x = of_bool b + 2 * (y :: nat)) \<longleftrightarrow> x = y \<and> a = b"
  by (cases a; cases b) (auto, presburger+)

fun char_lt :: "char \<Rightarrow> char \<Rightarrow> bool" where
  "char_lt (Char a0 a1 a2 a3 a4 a5 a6 a7) (Char b0 b1 b2 b3 b4 b5 b6 b7) \<longleftrightarrow>
     (if a7 \<noteq> b7 then b7 else if a6 \<noteq> b6 then b6 else if a5 \<noteq> b5 then b5 else if a4 \<noteq> b4 then b4
      else if a3 \<noteq> b3 then b3 else if a2 \<noteq> b2 then b2 else if a1 \<noteq> b1 then b1 else \<not> a0 \<and> b0)"

lemma char_lt_eq: "char_lt c d \<longleftrightarrow> (of_char c :: nat) < of_char d"
proof (cases c; cases d)
  fix a0 a1 a2 a3 a4 a5 a6 a7 b0 b1 b2 b3 b4 b5 b6 b7
  assume *: "c = Char a0 a1 a2 a3 a4 a5 a6 a7" "d = Char b0 b1 b2 b3 b4 b5 b6 b7"
  have e: "x = y \<longleftrightarrow> of_bool x = (of_bool y :: nat)" for x y by simp
  have "(of_char c :: nat) < of_char d \<longleftrightarrow>
    of_bool a0 + 2 * (of_bool a1 + 2 * (of_bool a2 + 2 * (of_bool a3 + 2 * (of_bool a4 + 2 * (of_bool a5 +
      2 * (of_bool a6 + 2 * (of_bool a7 + 2 * 0))))))) <
    of_bool b0 + 2 * (of_bool b1 + 2 * (of_bool b2 + 2 * (of_bool b3 + 2 * (of_bool b4 + 2 * (of_bool b5 +
      2 * (of_bool b6 + 2 * (of_bool b7 + 2 * (0 :: nat))))))))"
    by (simp only: * of_char_Char horner_sum_simps foldr.simps o_def id_def list.map)
  then show "char_lt c d \<longleftrightarrow> (of_char c :: nat) < of_char d"
    unfolding bits_less bits_eq * char_lt.simps
    by (cases "a7 = b7"; cases "a6 = b6"; cases "a5 = b5"; cases "a4 = b4"; cases "a3 = b3";
        cases "a2 = b2"; cases "a1 = b1") simp_all
qed

fun str_lt :: "string \<Rightarrow> string \<Rightarrow> bool" where
  "str_lt [] [] \<longleftrightarrow> False"
| "str_lt [] (c # t) \<longleftrightarrow> c \<noteq> CHR 0x00"
| "str_lt (c # s) [] \<longleftrightarrow> False"
| "str_lt (c # s) (d # t) \<longleftrightarrow> (if c = d then if c = CHR 0x00 then False else str_lt s t else char_lt c d)"

lemma unat_of_char: "unat (of_char c :: u8) = of_char c"
proof -
  have "unat (of_nat (of_char c) :: u8) = of_char c"
    by (simp add: unat_of_nat take_bit_eq_mod)
  then show ?thesis by (simp only: of_nat_of_char)
qed

lemma of_char_eq: "(of_char c :: u8) = of_char d \<longleftrightarrow> c = d"
  by (metis unat_of_char of_char_eq_iff)

lemma of_char_less: "(of_char c :: u8) < of_char d \<longleftrightarrow> char_lt c d"
  by (simp add: word_less_nat_alt unat_of_char char_lt_eq)

lemma of_char_zero: "(of_char c :: u8) = 0 \<longleftrightarrow> c = CHR 0x00"
  using of_char_eq [of c "CHR 0x00"] by simp

lemma of_char_pos [simp]: "(0 :: nat) < of_char c \<longleftrightarrow> c \<noteq> CHR 0x00"
  using of_char_eq_iff [of c "CHR 0x00", where 'a = nat] by (simp del: of_char_eq_iff) arith

lemma strcmp_less: "strcmp a b < 0 \<longleftrightarrow> cstr a < cstr b"
  and strcmp_greater: "strcmp a b > 0 \<longleftrightarrow> cstr a > cstr b"
proof -
  have 1: "(OPENSSL_memcmp (x @ [0]) (y @ [0]) < 0 \<longleftrightarrow> x < y) \<and>
      (OPENSSL_memcmp (x @ [0]) (y @ [0]) > 0 \<longleftrightarrow> x > y)" if "0 \<notin> set x" "0 \<notin> set y" for x y
    using that
  proof (induction x arbitrary: y)
    case Nil
    then show ?case by (cases y) (auto simp: word_gt_0_no word_neq_0_conv)
  next
    case (Cons c x)
    then show ?case by (cases y) (auto simp: word_neq_0_conv)
  qed
  from 1 [of "cstr a" "cstr b"] show "strcmp a b < 0 \<longleftrightarrow> cstr a < cstr b" "strcmp a b > 0 \<longleftrightarrow> cstr a > cstr b"
    by (simp_all add: strcmp_def)
qed

lemma memcmp_less:
  "length x = length y \<Longrightarrow> (OPENSSL_memcmp x y < 0 \<longleftrightarrow> x < y) \<and> (OPENSSL_memcmp x y > 0 \<longleftrightarrow> x > y)"
  by (induction x y rule: list_induct2) auto

section \<open>Numerals of eight bits\<close>

fun num_small :: "nat \<Rightarrow> num \<Rightarrow> bool" where
  "num_small n num.One \<longleftrightarrow> True"
| "num_small n (num.Bit0 k) \<longleftrightarrow> (case n of 0 \<Rightarrow> False | Suc m \<Rightarrow> num_small m k)"
| "num_small n (num.Bit1 k) \<longleftrightarrow> (case n of 0 \<Rightarrow> False | Suc m \<Rightarrow> num_small m k)"

lemma numeral_doubles:
  "\<exists>x :: nat. numeral k = x \<and> numeral (num.Bit0 k) = 2 * x \<and> numeral (num.Bit1 k) = 2 * x + 1"
  by (metis mult_2 numeral_Bit0 numeral_Bit1)

lemma num_small: "num_small n k \<Longrightarrow> (numeral k :: nat) < 2 ^ Suc n"
proof (induction n k rule: num_small.induct)
  case (2 n k)
  then obtain m where m: "n = Suc m" "num_small m k" by (cases n) auto
  obtain x :: nat where x: "numeral k = x" "numeral (num.Bit0 k) = 2 * x" using numeral_doubles by blast
  have "(numeral k :: nat) < 2 ^ Suc m" using 2 m by blast
  then show ?case unfolding x m(1) by simp
next
  case (3 n k)
  then obtain m where m: "n = Suc m" "num_small m k" by (cases n) auto
  obtain x :: nat where x: "numeral k = x" "numeral (num.Bit1 k) = 2 * x + 1" using numeral_doubles by blast
  have "(numeral k :: nat) < 2 ^ Suc m" using 3 m by blast
  then show ?case unfolding x m(1) by simp
next
  case (1 n)
  have "1 \<le> (2 :: nat) ^ n" by simp
  then show ?case unfolding numeral_One power_Suc by linarith
qed

abbreviation byte_num :: "num \<Rightarrow> bool" where
  "byte_num k \<equiv> num_small (Suc (Suc (Suc (Suc (Suc (Suc (Suc 0))))))) k"

lemma unat_byte_num: "byte_num k \<Longrightarrow> unat (numeral k :: u8) = numeral k"
proof -
  assume "byte_num k"
  then have "(numeral k :: nat) < 256" using num_small by fastforce
  then have "unat (of_nat (numeral k) :: u8) = numeral k" 
    unfolding unat_of_nat take_bit_eq_mod by (intro mod_less) simp
  then show ?thesis by (simp only: of_nat_numeral)
qed

lemma byte_num_rules:
  "byte_num j \<Longrightarrow> byte_num k \<Longrightarrow> (numeral j :: u8) = numeral k \<longleftrightarrow> j = k"
  "byte_num j \<Longrightarrow> byte_num k \<Longrightarrow> (numeral j :: u8) < numeral k \<longleftrightarrow> j < k"
  "byte_num k \<Longrightarrow> (numeral k :: u8) = 1 \<longleftrightarrow> k = num.One"
  "byte_num k \<Longrightarrow> (1 :: u8) = numeral k \<longleftrightarrow> num.One = k"
  "byte_num k \<Longrightarrow> (1 :: u8) < numeral k \<longleftrightarrow> num.One < k"
  "byte_num k \<Longrightarrow> (numeral k :: u8) < 1 \<longleftrightarrow> False"
  "byte_num k \<Longrightarrow> (numeral k :: u8) = 0 \<longleftrightarrow> False"
  "byte_num k \<Longrightarrow> (0 :: u8) = numeral k \<longleftrightarrow> False"
  "byte_num k \<Longrightarrow> (0 :: u8) < numeral k \<longleftrightarrow> True"
  "byte_num k \<Longrightarrow> (numeral k :: u8) < 0 \<longleftrightarrow> False"
  "(0 :: u8) < 1 \<longleftrightarrow> True" "(1 :: u8) < 0 \<longleftrightarrow> False" "(0 :: u8) = 1 \<longleftrightarrow> False" "(1 :: u8) = 0 \<longleftrightarrow> False"
  by (simp_all only: word_unat_eq_iff word_less_nat_alt unat_byte_num unat_0 unat_1
      numeral_eq_iff numeral_less_iff one_less_numeral_iff numeral_eq_one_iff one_eq_numeral_iff
      not_numeral_less_one zero_neq_one one_neq_zero zero_less_one zero_neq_numeral numeral_neq_zero zero_less_numeral not_less_zero simp_thms)


fun shorter :: "'a list \<Rightarrow> 'a list \<Rightarrow> bool" where
  "shorter [] [] \<longleftrightarrow> False"
| "shorter [] (y # ys) \<longleftrightarrow> True"
| "shorter (x # xs) [] \<longleftrightarrow> False"
| "shorter (x # xs) (y # ys) \<longleftrightarrow> shorter xs ys"

fun bytes_lt :: "bytes \<Rightarrow> bytes \<Rightarrow> bool" where
  "bytes_lt [] [] \<longleftrightarrow> False"
| "bytes_lt [] (y # ys) \<longleftrightarrow> False"
| "bytes_lt (x # xs) [] \<longleftrightarrow> False"
| "bytes_lt (x # xs) (y # ys) \<longleftrightarrow> (if x = y then bytes_lt xs ys else x < y)"

lemma shorter_length: "shorter xs ys \<longleftrightarrow> length xs < length ys"
  by (induction xs ys rule: shorter.induct) auto

lemma bytes_lt_eq: "length xs = length ys \<Longrightarrow> bytes_lt xs ys \<longleftrightarrow> xs < ys"
  by (induction xs ys rule: bytes_lt.induct) (auto split: if_splits)

section \<open>Arrays\<close>

datatype 'a trie = Tip | Bin "'a trie" "'a option" "'a trie"

fun trie_get :: "num \<Rightarrow> 'a trie \<Rightarrow> 'a option" where
  "trie_get k Tip = None"
| "trie_get num.One (Bin l y r) = y"
| "trie_get (num.Bit0 k) (Bin l y r) = trie_get k l"
| "trie_get (num.Bit1 k) (Bin l y r) = trie_get k r"

fun trie_put :: "num \<Rightarrow> 'a \<Rightarrow> 'a trie \<Rightarrow> 'a trie" where
  "trie_put num.One x Tip = Bin Tip (Some x) Tip"
| "trie_put (num.Bit0 k) x Tip = Bin (trie_put k x Tip) None Tip"
| "trie_put (num.Bit1 k) x Tip = Bin Tip None (trie_put k x Tip)"
| "trie_put num.One x (Bin l y r) = Bin l (Some x) r"
| "trie_put (num.Bit0 k) x (Bin l y r) = Bin (trie_put k x l) y r"
| "trie_put (num.Bit1 k) x (Bin l y r) = Bin l y (trie_put k x r)"

fun trie_fill :: "num \<Rightarrow> 'a list \<Rightarrow> 'a trie \<Rightarrow> 'a trie" where
  "trie_fill k [] t = t"
| "trie_fill k (x # xs) t = trie_fill (Num.inc k) xs (trie_put k x t)"

lemma trie_get_put: "trie_get j (trie_put k x t) = (if j = k then Some x else trie_get j t)"
  by (induction k x t arbitrary: j rule: trie_put.induct) (case_tac j; simp)+

lemma trie_get_fill:
  "trie_get j (trie_fill k xs t) =
     (if nat_of_num k \<le> nat_of_num j \<and> nat_of_num j < nat_of_num k + length xs
      then Some (xs ! (nat_of_num j - nat_of_num k)) else trie_get j t)"
proof (induction k xs t rule: trie_fill.induct)
  case (2 k x xs t)
  have i: "nat_of_num (Num.inc k) = Suc (nat_of_num k)" by (rule nat_of_num_inc)
  show ?case
  proof (cases "j = k")
    case True
    then show ?thesis using 2 by (simp add: i trie_get_put)
  next
    case False
    then have "nat_of_num j \<noteq> nat_of_num k" by (simp add: num_eq_iff)
    then consider "nat_of_num j < nat_of_num k" | m where "nat_of_num j = Suc (nat_of_num k + m)"
      by (metis less_iff_Suc_add nat_neq_iff)
    then show ?thesis using 2 False by cases (simp_all add: i trie_get_put)
  qed
qed auto

section \<open>Chains\<close>

fun chain :: "('a \<Rightarrow> 'a \<Rightarrow> bool) \<Rightarrow> 'a list \<Rightarrow> bool" where
  "chain R [] \<longleftrightarrow> True"
| "chain R [x] \<longleftrightarrow> True"
| "chain R (x # y # zs) \<longleftrightarrow> R x y \<and> chain R (y # zs)"

lemma chain_sorted_wrt: "transp R \<Longrightarrow> chain R xs \<longleftrightarrow> sorted_wrt R xs"
  by (induction R xs rule: chain.induct) (auto dest: transpD)

lemma numeral_inc_Suc: "(numeral (Num.inc k) :: nat) = Suc (numeral k)"
  using numeral_inc [of k, where 'a = nat] by (simp only: Suc_eq_plus1)

fun bump :: "bool \<Rightarrow> num \<Rightarrow> num" where
  "bump True k = Num.inc k"
| "bump False k = k"

fun count_num :: "('a \<Rightarrow> bool) \<Rightarrow> num \<Rightarrow> 'a list \<Rightarrow> num" where
  "count_num P k [] = k"
| "count_num P k (x # xs) = count_num P (bump (P x) k) xs"

lemma count_num_length: "(numeral (count_num P k xs) :: nat) = numeral k + length (filter P xs)"
proof (induction P k xs rule: count_num.induct)
  case (2 P k x xs)
  then show ?case
    by (cases "P x") (simp_all only: count_num.simps bump.simps numeral_inc_Suc filter.simps if_True if_False
        list.size add_Suc add_Suc_right)
qed simp

lemma sorted_wrt_distinct: "sorted_wrt R xs \<Longrightarrow> irreflp R \<Longrightarrow> distinct xs"
  by (induction xs) (auto simp: irreflp_def)

end
