(* ===== verification/Obj_Tables.thy ===== *)
theory Obj_Tables
  imports Obj_Dat Table_Check
begin

text \<open>
  The generated arrays of \<open>obj_dat.h\<close> keep the contract that the code relies on: every object stands at
  its number, and each index array holds exactly the numbers of the objects that have the key, in
  ascending order of the key. The kernel checks it on the arrays themselves.
\<close>

lemma cstr_text_less: "cstr (text_bytes s) < cstr (text_bytes t) \<longleftrightarrow> str_lt s t"
  by (induction s t rule: str_lt.induct)
    (auto simp: text_bytes_def of_char_zero of_char_eq of_char_less char_lt_eq simp flip: word_neq_0_conv)

definition obj_key :: "asn1_object \<Rightarrow> int \<times> bytes" where
  "obj_key obj = (obj_length obj, obj_bytes obj)"

lemma OBJ_cmp_key: "OBJ_cmp a b < 0 \<longleftrightarrow> obj_key a < obj_key b" "OBJ_cmp a b > 0 \<longleftrightarrow> obj_key a > obj_key b"
  using memcmp_less [of "obj_bytes a" "obj_bytes b"] memcmp_less [of "obj_bytes b" "obj_bytes a"]
  by (auto simp: OBJ_cmp_def obj_key_def obj_bytes_length)


section \<open>Objects by number\<close>

definition obj_at :: "asn1_object trie \<Rightarrow> nat \<Rightarrow> asn1_object" where
  "obj_at t n = the (trie_get (num_of_nat n) t)"

lemma obj_at_numeral: "obj_at t (numeral k) = the (trie_get k t)" "obj_at t 1 = the (trie_get num.One t)"
  by (simp_all add: obj_at_def nat_of_num_inverse num_of_nat.simps flip: nat_of_num_numeral)

lemma obj_at_nth:
  "0 < n \<Longrightarrow> n \<le> length xs \<Longrightarrow> obj_at (trie_fill num.One xs Tip) n = xs ! (n - 1)"
  by (simp add: obj_at_def trie_get_fill num_of_nat_inverse)

section \<open>The relations of the three orders\<close>

definition sn_before :: "asn1_object \<Rightarrow> asn1_object \<Rightarrow> bool" where
  "sn_before a b \<longleftrightarrow> obj_sn a \<noteq> None \<and> obj_sn b \<noteq> None \<and> cstr (the (obj_sn a)) < cstr (the (obj_sn b))"

definition ln_before :: "asn1_object \<Rightarrow> asn1_object \<Rightarrow> bool" where
  "ln_before a b \<longleftrightarrow> obj_ln a \<noteq> None \<and> obj_ln b \<noteq> None \<and> cstr (the (obj_ln a)) < cstr (the (obj_ln b))"

definition oid_before :: "asn1_object \<Rightarrow> asn1_object \<Rightarrow> bool" where
  "oid_before a b \<longleftrightarrow> obj_data a \<noteq> None \<and> obj_data b \<noteq> None \<and>
     (obj_key a, obj_nid a) < (obj_key b, obj_nid b)"

lemma sn_before_builtin: "sn_before (builtin_object s l n d) (builtin_object s' l' n' d') \<longleftrightarrow> str_lt s s'"
  and ln_before_builtin: "ln_before (builtin_object s l n d) (builtin_object s' l' n' d') \<longleftrightarrow> str_lt l l'"
  by (simp_all add: sn_before_def ln_before_def builtin_object_def cstr_text_less)

lemma oid_before_builtin:
  "oid_before (builtin_object s l n d) (builtin_object s' l' n' d') \<longleftrightarrow> d \<noteq> [] \<and> d' \<noteq> [] \<and>
     (if shorter d d' then True else if shorter d' d then False
      else if bytes_lt d d' then True else if d = d' then n < n' else False)"
proof -
  have "obj_bytes (builtin_object s l n d) = d" for s l n d
    by (simp add: builtin_object_def obj_bytes_def map_nth)
  then show ?thesis
    using bytes_lt_eq [of d d'] by (auto simp: oid_before_def obj_key_def shorter_length) (auto simp: builtin_object_def)
qed

lemmas kObjects_chunks = kObjects_def kObjects_1_def kObjects_2_def kObjects_3_def kObjects_4_def kObjects_5_def
   kObjects_6_def kObjects_7_def kObjects_8_def kObjects_9_def kObjects_10_def kObjects_11_def

lemmas short_name_chunks = kNIDsInShortNameOrder_def kNIDsInShortNameOrder_1_def
  kNIDsInShortNameOrder_2_def kNIDsInShortNameOrder_3_def kNIDsInShortNameOrder_4_def
  kNIDsInShortNameOrder_5_def kNIDsInShortNameOrder_6_def kNIDsInShortNameOrder_7_def

lemmas long_name_chunks = kNIDsInLongNameOrder_def kNIDsInLongNameOrder_1_def
  kNIDsInLongNameOrder_2_def kNIDsInLongNameOrder_3_def kNIDsInLongNameOrder_4_def
  kNIDsInLongNameOrder_5_def kNIDsInLongNameOrder_6_def kNIDsInLongNameOrder_7_def

lemmas oid_chunks = kNIDsInOIDOrder_def kNIDsInOIDOrder_1_def
  kNIDsInOIDOrder_2_def kNIDsInOIDOrder_3_def kNIDsInOIDOrder_4_def
  kNIDsInOIDOrder_5_def kNIDsInOIDOrder_6_def

lemmas trie_rules = concat.simps append.simps list.map trie_fill.simps trie_put.simps Num.inc.simps
  obj_at_numeral option.sel trie_get.simps chain.simps simp_thms if_True if_False

lemmas str_lt_rules = str_lt.simps char_lt.simps char.inject

lemmas bytes_lt_rules = shorter.simps bytes_lt.simps byte_num_rules num_small.simps nat.case
  num.inject num.distinct list.distinct list.inject
  less_num_simps le_num_simps numeral_less_iff

lemma short_names_chain: "chain sn_before (map (obj_at (trie_fill num.One kObjects Tip)) kNIDsInShortNameOrder)"
  by (simp only: kObjects_chunks short_name_chunks trie_rules sn_before_builtin str_lt_rules)

lemma long_names_chain: "chain ln_before (map (obj_at (trie_fill num.One kObjects Tip)) kNIDsInLongNameOrder)"
  by (simp only: kObjects_chunks long_name_chunks trie_rules ln_before_builtin str_lt_rules)

lemma oids_chain: "chain oid_before (map (obj_at (trie_fill num.One kObjects Tip)) kNIDsInOIDOrder)"
  by (simp only: kObjects_chunks oid_chunks trie_rules oid_before_builtin bytes_lt_rules)


section \<open>Every slot\<close>

definition slot_ok :: "nat \<Rightarrow> asn1_object \<Rightarrow> bool" where
  "slot_ok n obj \<longleftrightarrow> obj = unused_object \<or> (\<exists>s l d. obj = builtin_object s l (int n) d)"

fun slots_ok :: "num \<Rightarrow> asn1_object list \<Rightarrow> bool" where
  "slots_ok k [] \<longleftrightarrow> True"
| "slots_ok k (x # xs) \<longleftrightarrow> slot_ok (numeral k) x \<and> slots_ok (Num.inc k) xs"

lemma slot_ok_rules:
  "slot_ok n unused_object \<longleftrightarrow> True"
  "slot_ok (numeral k) (builtin_object s l (numeral j) d) \<longleftrightarrow> j = k"
  "slot_ok (numeral k) (builtin_object s l 1 d) \<longleftrightarrow> k = num.One"
  by (auto simp: slot_ok_def builtin_object_def unused_object_def)

lemma slots_ok_nth:
  "slots_ok k xs \<Longrightarrow> i < length xs \<Longrightarrow> slot_ok (numeral k + i) (xs ! i)"
proof (induction k xs arbitrary: i rule: slots_ok.induct)
  case (2 k x xs)
  show ?case
  proof (cases i)
    case (Suc j)
    then have "slot_ok (numeral (Num.inc k) + j) (xs ! j)" using 2 by simp
    then show ?thesis by (simp only: numeral_inc_Suc Suc nth_Cons_Suc add_Suc add_Suc_right)
  qed (use 2 in simp)
qed simp

definition has_sn :: "asn1_object \<Rightarrow> bool" where "has_sn obj \<longleftrightarrow> obj_sn obj \<noteq> None"
definition has_ln :: "asn1_object \<Rightarrow> bool" where "has_ln obj \<longleftrightarrow> obj_ln obj \<noteq> None"
definition has_oid :: "asn1_object \<Rightarrow> bool" where "has_oid obj \<longleftrightarrow> obj_data obj \<noteq> None"

lemma has_rules:
  "has_sn (builtin_object s l n d) \<longleftrightarrow> True" "has_sn unused_object \<longleftrightarrow> False"
  "has_ln (builtin_object s l n d) \<longleftrightarrow> True" "has_ln unused_object \<longleftrightarrow> False"
  "has_oid (builtin_object s l n []) \<longleftrightarrow> False" "has_oid (builtin_object s l n (b # d)) \<longleftrightarrow> True"
  "has_oid unused_object \<longleftrightarrow> False"
  by (simp_all add: has_sn_def has_ln_def has_oid_def builtin_object_def unused_object_def)

lemmas count_rules = count_num.simps bump.simps has_rules concat.simps append.simps if_True if_False Num.inc.simps
  simp_thms num.inject num.distinct

lemma slots_ok_kObjects: "slots_ok num.One kObjects"
  by (simp only: kObjects_chunks concat.simps append.simps slots_ok.simps Num.inc.simps slot_ok_rules
      num.inject num.distinct simp_thms)

lemma count_objects:
  "count_num (\<lambda>_. True) num.One kObjects = num.Bit1 (num.Bit0 (num.Bit1 (num.Bit0 (num.Bit0 (num.Bit0 (num.Bit1 (num.Bit1 (num.Bit1 num.One))))))))"
  by (simp only: kObjects_chunks count_rules)

lemma counts:
  "count_num has_sn num.One kObjects = count_num (\<lambda>_. True) num.One kNIDsInShortNameOrder"
  "count_num has_ln num.One kObjects = count_num (\<lambda>_. True) num.One kNIDsInLongNameOrder"
  "count_num has_oid num.One kObjects = count_num (\<lambda>_. True) num.One kNIDsInOIDOrder"
  by (simp_all only: kObjects_chunks short_name_chunks long_name_chunks oid_chunks count_rules)

definition in_range :: "nat \<Rightarrow> bool" where "in_range n \<longleftrightarrow> 0 < n \<and> n \<le> 964"

lemma in_range_rules:
  "in_range (numeral k) \<longleftrightarrow> k \<le> num.Bit0 (num.Bit0 (num.Bit1 (num.Bit0 (num.Bit0 (num.Bit0 (num.Bit1 (num.Bit1 (num.Bit1 num.One))))))))"
  "in_range 1 \<longleftrightarrow> True"
  by (simp_all add: in_range_def)

lemma ranges:
  "list_all in_range kNIDsInShortNameOrder" "list_all in_range kNIDsInLongNameOrder" "list_all in_range kNIDsInOIDOrder"
  by (simp_all only: short_name_chunks long_name_chunks oid_chunks concat.simps append.simps list.pred_inject
      in_range_rules le_num_simps less_num_simps simp_thms)

section \<open>The contract of the arrays\<close>

lemma kObjects_length: "length kObjects = 964"
  using count_num_length [of "\<lambda>_. True" num.One kObjects] by (simp add: count_objects)

lemma kObjects_slot: "0 < n \<Longrightarrow> n \<le> 964 \<Longrightarrow> slot_ok n (kObjects ! (n - 1))"
  using slots_ok_nth [OF slots_ok_kObjects, of "n - 1"] by (simp add: kObjects_length)

definition object_of :: "nat \<Rightarrow> asn1_object" where
  "object_of n = kObjects ! (n - 1)"

lemma index_complete:
  assumes chain: "chain R (map (obj_at (trie_fill num.One kObjects Tip)) idx)" and R: "transp R" "irreflp R"
    and has: "\<And>a b. R a b \<Longrightarrow> P a \<and> P b" and two: "1 < length idx"
    and count: "count_num P num.One kObjects = count_num (\<lambda>_. True) num.One idx"
    and range: "list_all in_range idx"
  shows "sorted_wrt (\<lambda>m n. R (object_of m) (object_of n)) idx"
    and "set idx = {n. 0 < n \<and> n \<le> 964 \<and> P (object_of n)}"
proof -
  have at: "obj_at (trie_fill num.One kObjects Tip) n = object_of n" if "n \<in> set idx" for n
    using that range obj_at_nth [of n kObjects]
    by (simp add: list_all_iff in_range_def kObjects_length object_of_def)
  have "sorted_wrt R (map (obj_at (trie_fill num.One kObjects Tip)) idx)"
    using chain chain_sorted_wrt [OF R(1)] by blast
  moreover have "map (obj_at (trie_fill num.One kObjects Tip)) idx = map object_of idx"
    using at by simp
  ultimately have s: "sorted_wrt R (map object_of idx)" by simp
  then show sorted: "sorted_wrt (\<lambda>m n. R (object_of m) (object_of n)) idx"
    by (simp add: sorted_wrt_map)
  have "distinct (map object_of idx)"
    using s R(2) by (rule sorted_wrt_distinct)
  then have d: "distinct idx" by (simp add: distinct_map)
  let ?S = "{n. 0 < n \<and> n \<le> 964 \<and> P (object_of n)}"
  have sub: "set idx \<subseteq> ?S"
  proof
    fix n assume n: "n \<in> set idx"
    then obtain i where i: "i < length idx" "n = idx ! i" by (auto simp: in_set_conv_nth)
    have "P (object_of n)"
    proof (cases "i = 0")
      case True
      then show ?thesis using has sorted_wrt_nth_less [OF sorted, of 0 1] two i by auto
    next
      case False
      then show ?thesis using has sorted_wrt_nth_less [OF sorted, of 0 i] i by auto
    qed
    then show "n \<in> ?S" using n range by (simp add: list_all_iff in_range_def)
  qed
  have "?S = Suc ` {i. i < length kObjects \<and> P (kObjects ! i)}"
  proof (intro set_eqI iffI)
    fix n assume "n \<in> ?S"
    then have "n = Suc (n - 1)" "n - 1 \<in> {i. i < length kObjects \<and> P (kObjects ! i)}"
      by (auto simp: object_of_def kObjects_length)
    then show "n \<in> Suc ` {i. i < length kObjects \<and> P (kObjects ! i)}" by (rule image_eqI)
  qed (auto simp: object_of_def kObjects_length)
  then have "card ?S = length (filter P kObjects)"
    by (simp add: card_image length_filter_conv_card)
  also have "\<dots> = length idx"
    using count_num_length [of P num.One kObjects] count_num_length [of "\<lambda>_. True" num.One idx] count by simp
  also have "\<dots> = card (set idx)" using d by (simp add: distinct_card)
  finally show "set idx = ?S" using sub by (intro card_subset_eq) auto
qed

lemma before_order:
  "transp sn_before" "irreflp sn_before" "transp ln_before" "irreflp ln_before" "transp oid_before" "irreflp oid_before"
  unfolding transp_def irreflp_def sn_before_def ln_before_def oid_before_def by (blast intro: less_trans)+

section \<open>What the arrays hold\<close>

lemma short_index:
  "sorted_wrt (\<lambda>m n. sn_before (object_of m) (object_of n)) kNIDsInShortNameOrder"
  "set kNIDsInShortNameOrder = {n. 0 < n \<and> n \<le> 964 \<and> has_sn (object_of n)}"
  by (rule index_complete [OF short_names_chain before_order(1,2) _ _ counts(1) ranges(1)],
      (simp add: sn_before_def has_sn_def; fail), simp add: short_name_chunks)+

lemma long_index:
  "sorted_wrt (\<lambda>m n. ln_before (object_of m) (object_of n)) kNIDsInLongNameOrder"
  "set kNIDsInLongNameOrder = {n. 0 < n \<and> n \<le> 964 \<and> has_ln (object_of n)}"
  by (rule index_complete [OF long_names_chain before_order(3,4) _ _ counts(2) ranges(2)],
      (simp add: ln_before_def has_ln_def; fail), simp add: long_name_chunks)+

lemma oid_index:
  "sorted_wrt (\<lambda>m n. oid_before (object_of m) (object_of n)) kNIDsInOIDOrder"
  "set kNIDsInOIDOrder = {n. 0 < n \<and> n \<le> 964 \<and> has_oid (object_of n)}"
  by (rule index_complete [OF oids_chain before_order(5,6) _ _ counts(3) ranges(3)],
      (simp add: oid_before_def has_oid_def; fail), simp add: oid_chunks)+

end
