(* ===== verification/Bsearch.thy ===== *)
theory Bsearch
  imports Table_Check
begin

text \<open>
  \<open>bsearch\<close> of the C library, as a search by halves. The C standard leaves open which one of several
  equal elements is found; the lemmas below say only what it promises.
\<close>

function bsearch_range :: "('a \<Rightarrow> int) \<Rightarrow> 'a list \<Rightarrow> nat \<Rightarrow> nat \<Rightarrow> 'a option" where
  "bsearch_range cmp xs lo n =
     (if n = 0 then None
      else
        let mid = lo + n div 2; r = cmp (xs ! mid)
        in if r = 0 then Some (xs ! mid)
           else if 0 < r then bsearch_range cmp xs (Suc mid) (n - n div 2 - 1)
           else bsearch_range cmp xs lo (n div 2))"
  by auto
termination
  by (relation "measure (\<lambda>(_, _, _, n). n)") auto

declare bsearch_range.simps [simp del]

definition bsearch :: "('a \<Rightarrow> int) \<Rightarrow> 'a list \<Rightarrow> 'a option" where
  "bsearch cmp xs = bsearch_range cmp xs 0 (length xs)"

text \<open>A comparison of a key with an element, by way of a linear order.\<close>

locale search_order =
  fixes cmp :: "'k \<Rightarrow> 'a \<Rightarrow> int" and rank :: "'k \<Rightarrow> 'o :: linorder" and key_of :: "'a \<Rightarrow> 'o"
  assumes cmp_neg: "cmp k a < 0 \<longleftrightarrow> rank k < key_of a"
    and cmp_pos: "0 < cmp k a \<longleftrightarrow> key_of a < rank k"
begin

lemma cmp_zero: "cmp k a = 0 \<longleftrightarrow> key_of a = rank k"
  using cmp_neg [of k a] cmp_pos [of k a] by (cases "rank k" "key_of a" rule: linorder_cases) auto

lemma range_exact:
  assumes "sorted (map key_of xs)" and "lo + n \<le> length xs"
    and "\<forall>i < lo. key_of (xs ! i) < rank k" and "\<forall>i < length xs. lo + n \<le> i \<longrightarrow> rank k < key_of (xs ! i)"
  shows "case bsearch_range (cmp k) xs lo n of None \<Rightarrow> \<forall>a \<in> set xs. key_of a \<noteq> rank k
     | Some a \<Rightarrow> a \<in> set xs \<and> key_of a = rank k"
  using assms
proof (induction "cmp k" xs lo n rule: bsearch_range.induct)
  case (1 xs lo n)
  let ?mid = "lo + n div 2"
  show ?case
  proof (cases "n = 0")
    case True
    then have "\<forall>i < length xs. key_of (xs ! i) \<noteq> rank k" using 1(5,6) by (metis add_0_right leI less_irrefl)
    then show ?thesis using True by (auto simp: bsearch_range.simps in_set_conv_nth)
  next
    case False
    then have mid: "?mid < length xs" using 1(4) by linarith
    have mono: "key_of (xs ! i) \<le> key_of (xs ! j)" if "i \<le> j" "j < length xs" for i j
      using 1(3) that sorted_nth_mono [of "map key_of xs" i j] by simp
    consider "cmp k (xs ! ?mid) = 0" | "0 < cmp k (xs ! ?mid)" | "cmp k (xs ! ?mid) < 0" by linarith
    then show ?thesis
    proof cases
      case c: 1
      then show ?thesis using False mid by (subst bsearch_range.simps) (simp add: cmp_zero Let_def)
    next
      case c: 2
      have "\<forall>i < Suc ?mid. key_of (xs ! i) < rank k"
        using c mono mid by (metis cmp_pos less_Suc_eq_le order_le_less_trans)
      then have "case bsearch_range (cmp k) xs (Suc ?mid) (n - n div 2 - 1) of
          None \<Rightarrow> \<forall>a \<in> set xs. key_of a \<noteq> rank k | Some a \<Rightarrow> a \<in> set xs \<and> key_of a = rank k"
        using 1(1) [OF False refl refl] c 1(3-6) False by simp
      then show ?thesis using c False by (subst bsearch_range.simps) (simp add: Let_def)
    next
      case c: 3
      have "\<forall>i < length xs. ?mid \<le> i \<longrightarrow> rank k < key_of (xs ! i)"
        using c mono mid by (metis cmp_neg order_less_le_trans)
      then have "case bsearch_range (cmp k) xs lo (n div 2) of
          None \<Rightarrow> \<forall>a \<in> set xs. key_of a \<noteq> rank k | Some a \<Rightarrow> a \<in> set xs \<and> key_of a = rank k"
        using 1(2) [OF False refl refl] c 1(3-6) False by simp
      then show ?thesis using c False by (subst bsearch_range.simps) (simp add: Let_def)
    qed
  qed
qed

lemma bsearch_exact:
  "sorted (map key_of xs) \<Longrightarrow> case bsearch (cmp k) xs of None \<Rightarrow> \<forall>a \<in> set xs. key_of a \<noteq> rank k
     | Some a \<Rightarrow> a \<in> set xs \<and> key_of a = rank k"
  unfolding bsearch_def by (rule range_exact) auto

end

end
