(* ===== verification/Objects.thy ===== *)
theory Objects
  imports Obj_Tables Bsearch
begin

text \<open>
  The registry of objects of \<open>crypto/obj/obj.c\<close>: the built-in objects, found through the index arrays,
  and the objects added at run time, in four hash tables. The state is a record of the C file's
  globals; the locks around them are not modelled. A string is the list of its characters. NULL is
  \<open>None\<close>; a lookup that finds nothing returns \<open>NID_undef\<close>, as in the code.
\<close>

section \<open>State\<close>

record obj_globals =
  global_added_by_data :: "asn1_object lhash option"
  global_added_by_nid :: "asn1_object lhash option"
  global_added_by_short_name :: "asn1_object lhash option"
  global_added_by_long_name :: "asn1_object lhash option"
  global_next_nid :: u32

definition NUM_NID :: int where "NUM_NID = 965"

definition obj_start :: obj_globals where
  "obj_start = \<lparr>global_added_by_data = None, global_added_by_nid = None,
     global_added_by_short_name = None, global_added_by_long_name = None, global_next_nid = 965\<rparr>"

definition obj_next_nid :: "obj_globals \<Rightarrow> int \<times> obj_globals" where
  "obj_next_nid G = (sint (global_next_nid G), G\<lparr>global_next_nid := global_next_nid G + 1\<rparr>)"

section \<open>Hashing and comparison for the tables\<close>

definition hash_nid :: "asn1_object \<Rightarrow> u32" where
  "hash_nid obj = word_of_int (obj_nid obj)"

definition cmp_nid :: "asn1_object \<Rightarrow> asn1_object \<Rightarrow> int" where
  "cmp_nid a b = obj_nid a - obj_nid b"

definition hash_data :: "asn1_object \<Rightarrow> u32" where
  "hash_data obj = OPENSSL_hash32 (obj_bytes obj)"

definition hash_short_name :: "asn1_object \<Rightarrow> u32" where
  "hash_short_name obj = OPENSSL_strhash (the (obj_sn obj))"

definition cmp_short_name :: "asn1_object \<Rightarrow> asn1_object \<Rightarrow> int" where
  "cmp_short_name a b = strcmp (the (obj_sn a)) (the (obj_sn b))"

definition hash_long_name :: "asn1_object \<Rightarrow> u32" where
  "hash_long_name obj = OPENSSL_strhash (the (obj_ln obj))"

definition cmp_long_name :: "asn1_object \<Rightarrow> asn1_object \<Rightarrow> int" where
  "cmp_long_name a b = strcmp (the (obj_ln a)) (the (obj_ln b))"

section \<open>Looking up\<close>

definition get_builtin_object :: "int \<Rightarrow> asn1_object" where
  "get_builtin_object nid = kObjects ! nat (nid - 1)"

definition obj_cmp :: "asn1_object \<Rightarrow> nat \<Rightarrow> int" where
  "obj_cmp obj element = OBJ_cmp obj (get_builtin_object (int element))"

definition short_name_cmp :: "bytes \<Rightarrow> nat \<Rightarrow> int" where
  "short_name_cmp name element = strcmp name (the (obj_sn (get_builtin_object (int element))))"

definition long_name_cmp :: "bytes \<Rightarrow> nat \<Rightarrow> int" where
  "long_name_cmp name element = strcmp name (the (obj_ln (get_builtin_object (int element))))"

text \<open>The search among the added objects: nothing is found in a table that was not made yet.\<close>

definition find_added :: "asn1_object lhash option \<Rightarrow> asn1_object \<Rightarrow> asn1_object option" where
  "find_added table template =
     (case table of None \<Rightarrow> None | Some lh \<Rightarrow> OPENSSL_lh_retrieve lh template)"

definition builtin_nid :: "nat option \<Rightarrow> int" where
  "builtin_nid nid_ptr =
     (case nid_ptr of None \<Rightarrow> NID_undef | Some nid \<Rightarrow> obj_nid (get_builtin_object (int nid)))"

definition OBJ_obj2nid :: "obj_globals \<Rightarrow> asn1_object option \<Rightarrow> int" where
  "OBJ_obj2nid G obj =
     (case obj of None \<Rightarrow> NID_undef | Some obj \<Rightarrow>
      if obj_nid obj \<noteq> 0 then obj_nid obj
      else case find_added (global_added_by_data G) obj of
        Some match \<Rightarrow> obj_nid match
      | None \<Rightarrow> builtin_nid (bsearch (obj_cmp obj) kNIDsInOIDOrder))"

text \<open>The fields of a template that the code leaves unset are zero here: no one reads them.\<close>

definition template :: asn1_object where
  "template = \<lparr>obj_sn = None, obj_ln = None, obj_nid = 0, obj_length = 0, obj_data = None, obj_flags = 0\<rparr>"

definition OBJ_cbs2nid :: "obj_globals \<Rightarrow> cbs \<Rightarrow> int" where
  "OBJ_cbs2nid G cbs =
     (if CBS_len cbs > INT_MAX then NID_undef
      else OBJ_obj2nid G (Some (template\<lparr>obj_data := Some cbs, obj_length := int (CBS_len cbs)\<rparr>)))"

definition OBJ_sn2nid :: "obj_globals \<Rightarrow> bytes \<Rightarrow> int" where
  "OBJ_sn2nid G short_name =
     (case find_added (global_added_by_short_name G) (template\<lparr>obj_sn := Some short_name\<rparr>) of
        Some match \<Rightarrow> obj_nid match
      | None \<Rightarrow> builtin_nid (bsearch (short_name_cmp short_name) kNIDsInShortNameOrder))"

definition OBJ_ln2nid :: "obj_globals \<Rightarrow> bytes \<Rightarrow> int" where
  "OBJ_ln2nid G long_name =
     (case find_added (global_added_by_long_name G) (template\<lparr>obj_ln := Some long_name\<rparr>) of
        Some match \<Rightarrow> obj_nid match
      | None \<Rightarrow> builtin_nid (bsearch (long_name_cmp long_name) kNIDsInLongNameOrder))"

definition OBJ_get_undef :: asn1_object where
  "OBJ_get_undef =
     \<lparr>obj_sn = Some (text_bytes ''UNDEF''), obj_ln = Some (text_bytes ''undefined''), obj_nid = NID_undef,
      obj_length = 0, obj_data = None, obj_flags = 0\<rparr>"

definition OBJ_nid2obj :: "obj_globals \<Rightarrow> int \<Rightarrow> asn1_object option" where
  "OBJ_nid2obj G nid =
     (if nid = NID_undef then Some OBJ_get_undef
      else if 0 < nid \<and> nid < NUM_NID then
        let obj = get_builtin_object nid
        in if nid \<noteq> NID_undef \<and> obj_nid obj = NID_undef then None else Some obj
      else find_added (global_added_by_nid G) (template\<lparr>obj_nid := nid\<rparr>))"

definition OBJ_nid2sn :: "obj_globals \<Rightarrow> int \<Rightarrow> bytes option" where
  "OBJ_nid2sn G nid = (case OBJ_nid2obj G nid of None \<Rightarrow> None | Some obj \<Rightarrow> obj_sn obj)"

definition OBJ_nid2ln :: "obj_globals \<Rightarrow> int \<Rightarrow> bytes option" where
  "OBJ_nid2ln G nid = (case OBJ_nid2obj G nid of None \<Rightarrow> None | Some obj \<Rightarrow> obj_ln obj)"

definition OBJ_nid2cbb :: "cbb_env \<Rightarrow> obj_globals \<Rightarrow> handle \<Rightarrow> int \<Rightarrow> (cbb, unit) action" where
  "OBJ_nid2cbb env G out nid =
     (case OBJ_nid2obj G nid of
        None \<Rightarrow> fail
      | Some obj \<Rightarrow>
          and_then (CBB_add_asn1 env out CBS_ASN1_OBJECT) (\<lambda>_.
          and_then (CBB_add_bytes env (Suc out) (obj_bytes obj)) (\<lambda>_. CBB_flush env out)))"

section \<open>Text\<close>

text \<open>\<open>get_nid\<close> is the function that gives out numbers, or NULL.\<close>

definition create_object_with_text_oid ::
  "cbb_env \<Rightarrow> (obj_globals \<Rightarrow> int \<times> obj_globals) option \<Rightarrow> bytes \<Rightarrow> bytes option \<Rightarrow> bytes option \<Rightarrow>
   (obj_globals, asn1_object) action" where
  "create_object_with_text_oid env get_nid oid short_name long_name G =
     (case build env 32 (\<lambda>env. CBB_add_asn1_oid_from_text env 0 (cstr oid)) of
        None \<Rightarrow> (None, G)
      | Some buf \<Rightarrow>
          let (nid, G) = (case get_nid of None \<Rightarrow> (NID_undef, G) | Some get_nid \<Rightarrow> get_nid G)
          in (ASN1_OBJECT_create (alloc_ok env) nid buf short_name long_name, G))"

definition OBJ_txt2obj :: "cbb_env \<Rightarrow> obj_globals \<Rightarrow> bytes \<Rightarrow> bool \<Rightarrow> asn1_object option" where
  "OBJ_txt2obj env G s dont_search_names =
     (let nid =
        (if dont_search_names then NID_undef
         else let nid = OBJ_sn2nid G s in if nid = NID_undef then OBJ_ln2nid G s else nid)
      in if nid \<noteq> NID_undef then OBJ_nid2obj G nid
         else fst (create_object_with_text_oid env None s None None G))"

definition OBJ_txt2nid :: "cbb_env \<Rightarrow> obj_globals \<Rightarrow> bytes \<Rightarrow> int" where
  "OBJ_txt2nid env G s = OBJ_obj2nid G (OBJ_txt2obj env G s False)"

definition strlcpy_int :: "bytes \<Rightarrow> bytes \<Rightarrow> int \<Rightarrow> bytes \<times> int" where
  "strlcpy_int dst src dst_size =
     (case OPENSSL_strlcpy dst src (if dst_size < 0 then 0 else nat dst_size) of
        (dst, n) \<Rightarrow> (dst, if n > INT_MAX then - 1 else int n))"

text \<open>The memory at \<open>out\<close> afterwards and the value returned.\<close>

definition OBJ_obj2txt ::
  "cbb_env \<Rightarrow> obj_globals \<Rightarrow> bytes \<Rightarrow> int \<Rightarrow> asn1_object option \<Rightarrow> bool \<Rightarrow> bytes \<times> int" where
  "OBJ_obj2txt env G out out_len obj always_return_oid =
     (case obj of None \<Rightarrow> strlcpy_int out [] out_len | Some obj \<Rightarrow>
      if obj_length obj = 0 then strlcpy_int out [] out_len
      else
        let name =
          (if always_return_oid then None
           else let nid = OBJ_obj2nid G (Some obj)
                in if nid = NID_undef then None
                   else case OBJ_nid2ln G nid of None \<Rightarrow> OBJ_nid2sn G nid | Some name \<Rightarrow> Some name)
        in case name of
             Some name \<Rightarrow> strlcpy_int out name out_len
           | None \<Rightarrow>
               case CBS_asn1_oid_to_text env (obj_bytes obj) of
                 None \<Rightarrow> (if out_len > 0 then out[0 := 0] else out, - 1)
               | Some txt \<Rightarrow> strlcpy_int out txt out_len)"

definition i2t_ASN1_OBJECT :: "cbb_env \<Rightarrow> obj_globals \<Rightarrow> bytes \<Rightarrow> int \<Rightarrow> asn1_object option \<Rightarrow> bytes \<times> int" where
  "i2t_ASN1_OBJECT env G buf buf_len a = OBJ_obj2txt env G buf buf_len a False"

section \<open>Adding\<close>

text \<open>A table that is missing is made, if there is memory for it.\<close>

definition ensure_table ::
  "(nat \<Rightarrow> bool) \<Rightarrow> (asn1_object \<Rightarrow> u32) \<Rightarrow> (asn1_object \<Rightarrow> asn1_object \<Rightarrow> int) \<Rightarrow>
   asn1_object lhash option \<Rightarrow> asn1_object lhash option" where
  "ensure_table alloc hash cmp table =
     (case table of None \<Rightarrow> OPENSSL_lh_new alloc hash cmp | Some lh \<Rightarrow> Some lh)"

definition add_to_table ::
  "(nat \<Rightarrow> bool) \<Rightarrow> bool \<Rightarrow> asn1_object \<Rightarrow> asn1_object lhash \<Rightarrow> bool \<times> asn1_object lhash" where
  "add_to_table alloc applies obj table =
     (if applies then case OPENSSL_lh_insert alloc table obj of (ok, _, table) \<Rightarrow> (ok, table)
      else (True, table))"

definition obj_add_object :: "(nat \<Rightarrow> bool) \<Rightarrow> asn1_object \<Rightarrow> obj_globals \<Rightarrow> bool \<times> obj_globals" where
  "obj_add_object alloc obj G =
     (let obj = obj\<lparr>obj_flags := obj_flags obj AND NOT ASN1_OBJECT_FLAG_ALL\<rparr>;
          G = G\<lparr>global_added_by_nid := ensure_table alloc hash_nid cmp_nid (global_added_by_nid G),
                global_added_by_data := ensure_table alloc hash_data OBJ_cmp (global_added_by_data G),
                global_added_by_short_name :=
                  ensure_table alloc hash_short_name cmp_short_name (global_added_by_short_name G),
                global_added_by_long_name :=
                  ensure_table alloc hash_long_name cmp_long_name (global_added_by_long_name G)\<rparr>
      in case (global_added_by_nid G, global_added_by_data G, global_added_by_short_name G,
               global_added_by_long_name G) of
           (Some by_nid, Some by_data, Some by_sn, Some by_ln) \<Rightarrow>
             (case add_to_table alloc True obj by_nid of (ok1, by_nid) \<Rightarrow>
              case add_to_table alloc (obj_length obj \<noteq> 0 \<and> obj_data obj \<noteq> None) obj by_data of (ok2, by_data) \<Rightarrow>
              case add_to_table alloc (obj_sn obj \<noteq> None) obj by_sn of (ok3, by_sn) \<Rightarrow>
              case add_to_table alloc (obj_ln obj \<noteq> None) obj by_ln of (ok4, by_ln) \<Rightarrow>
                (ok1 \<and> ok2 \<and> ok3 \<and> ok4,
                 G\<lparr>global_added_by_nid := Some by_nid, global_added_by_data := Some by_data,
                   global_added_by_short_name := Some by_sn, global_added_by_long_name := Some by_ln\<rparr>))
         | _ \<Rightarrow> (False, G))"

definition OBJ_create ::
  "cbb_env \<Rightarrow> bytes \<Rightarrow> bytes option \<Rightarrow> bytes option \<Rightarrow> obj_globals \<Rightarrow> int \<times> obj_globals" where
  "OBJ_create env oid short_name long_name G =
     (case create_object_with_text_oid env (Some obj_next_nid) oid short_name long_name G of
        (None, G) \<Rightarrow> (NID_undef, G)
      | (Some op, G) \<Rightarrow>
          (case obj_add_object (alloc_ok env) op G of
             (ok, G) \<Rightarrow> (if ok then obj_nid op else NID_undef, G)))"

end
