(* ===== verification/Obj_Index.thy ===== *)
theory Obj_Index
  imports Objects Bsearch
begin

text \<open>
  The searches of \<open>crypto/obj/obj.c\<close> among the built-in objects, as instances of one locale: an index
  array, the comparison function that searches it, and the key it is sorted by.
\<close>

section \<open>The searches among the built-in objects\<close>

lemma get_builtin_object_of: "0 < n \<Longrightarrow> get_builtin_object (int n) = object_of n"
  by (simp add: get_builtin_object_def object_of_def nat_diff_distrib')

lemma range_iff: "0 < nid \<and> nid < NUM_NID \<longleftrightarrow> (\<exists>n. nid = int n \<and> 0 < n \<and> n \<le> 964)"
proof
  assume "0 < nid \<and> nid < NUM_NID"
  then have "nid = int (nat nid) \<and> 0 < nat nid \<and> nat nid \<le> 964" unfolding NUM_NID_def by linarith
  then show "\<exists>n. nid = int n \<and> 0 < n \<and> n \<le> 964" by blast
qed (auto simp: NUM_NID_def)

lemma sorted_wrt_cases:
  "sorted_wrt R xs \<Longrightarrow> x \<in> set xs \<Longrightarrow> y \<in> set xs \<Longrightarrow> x = y \<or> R x y \<or> R y x"
  by (induction xs) auto

text \<open>An index array, the comparison that searches it and the keys it is sorted by.\<close>

locale builtin_index =
  search_order cmp rank "\<lambda>n. okey (get_builtin_object (int n))"
  for cmp :: "'k \<Rightarrow> nat \<Rightarrow> int" and rank :: "'k \<Rightarrow> 'o :: linorder" and okey :: "asn1_object \<Rightarrow> 'o" +
  fixes before :: "asn1_object \<Rightarrow> asn1_object \<Rightarrow> bool" and has :: "asn1_object \<Rightarrow> bool" and idx :: "nat list"
  assumes members: "set idx = {n. 0 < n \<and> n \<le> 964 \<and> has (object_of n)}"
    and ordered: "sorted_wrt (\<lambda>m n. before (object_of m) (object_of n)) idx"
    and before_key: "before a b \<Longrightarrow> okey a \<le> okey b"
    and unused: "\<not> has unused_object"
begin

definition matches :: "int \<Rightarrow> 'k \<Rightarrow> bool" where
  "matches nid k \<longleftrightarrow>
     0 < nid \<and> nid < NUM_NID \<and> has (get_builtin_object nid) \<and> okey (get_builtin_object nid) = rank k"

lemma matches_member:
  "matches nid k \<longleftrightarrow> (\<exists>n. nid = int n \<and> n \<in> set idx \<and> okey (get_builtin_object (int n)) = rank k)"
proof -
  have "has (get_builtin_object (int n)) \<longleftrightarrow> has (object_of n)" if "0 < n" for n
    using that by (simp add: get_builtin_object_of)
  then show ?thesis unfolding matches_def members conj_assoc [symmetric] range_iff by auto
qed

lemma sorted_keys: "sorted (map (\<lambda>n. okey (get_builtin_object (int n))) idx)"
proof -
  have "sorted_wrt (\<lambda>m n. okey (get_builtin_object (int m)) \<le> okey (get_builtin_object (int n))) idx"
    using ordered by (rule sorted_wrt_mono_rel [rotated]) (simp add: members get_builtin_object_of before_key)
  then show ?thesis by (simp add: sorted_wrt_map)
qed

lemma member_nid:
  assumes "n \<in> set idx"
  shows "obj_nid (get_builtin_object (int n)) = int n"
  using assms kObjects_slot [of n] unused
  by (auto simp: members slot_ok_def object_of_def builtin_object_def get_builtin_object_of)

lemma search_exact:
  "if builtin_nid (bsearch (cmp k) idx) = NID_undef then \<forall>nid. \<not> matches nid k
   else matches (builtin_nid (bsearch (cmp k) idx)) k"
proof (cases "bsearch (cmp k) idx")
  case None
  then show ?thesis using bsearch_exact [OF sorted_keys, of k] by (auto simp: builtin_nid_def matches_member)
next
  case (Some n)
  then have "n \<in> set idx" "okey (get_builtin_object (int n)) = rank k"
    using bsearch_exact [OF sorted_keys, of k] by auto
  moreover from this have "builtin_nid (Some n) = int n" "0 < n"
    by (simp_all add: builtin_nid_def member_nid) (simp add: members)
  ultimately show ?thesis by (auto simp: Some matches_member NID_undef_def)
qed

lemma search_unique:
  assumes "\<And>a b. before a b \<Longrightarrow> okey a < okey b"
  shows "builtin_nid (bsearch (cmp k) idx) = nid \<longleftrightarrow>
    (if nid = NID_undef then \<forall>nid. \<not> matches nid k else matches nid k)"
proof -
  have "m = n" if mn: "m \<in> set idx" "n \<in> set idx"
    and "okey (get_builtin_object (int m)) = okey (get_builtin_object (int n))" for m n
    using sorted_wrt_cases [OF ordered mn] assms that
    by (fastforce simp: members get_builtin_object_of)
  then have inj: "i = j" if "matches i k" "matches j k" for i j using that by (auto simp: matches_member)
  show ?thesis
  proof (cases "builtin_nid (bsearch (cmp k) idx) = NID_undef")
    case True
    then show ?thesis using search_exact [of k] by simp
  next
    case False
    then have "matches (builtin_nid (bsearch (cmp k) idx)) k" using search_exact [of k] by simp
    then show ?thesis using False inj by (cases "nid = NID_undef") auto
  qed
qed

end

interpretation short_names: builtin_index short_name_cmp cstr "\<lambda>a. cstr (the (obj_sn a))" sn_before has_sn
    kNIDsInShortNameOrder
proof (unfold_locales, goal_cases)
  case 3
  show ?case by (rule short_index(2))
next
  case 4
  show ?case by (rule short_index(1))
qed (auto simp: short_name_cmp_def strcmp_less strcmp_greater sn_before_def has_sn_def unused_object_def)

interpretation long_names: builtin_index long_name_cmp cstr "\<lambda>a. cstr (the (obj_ln a))" ln_before has_ln
    kNIDsInLongNameOrder
proof (unfold_locales, goal_cases)
  case 3
  show ?case by (rule long_index(2))
next
  case 4
  show ?case by (rule long_index(1))
qed (auto simp: long_name_cmp_def strcmp_less strcmp_greater ln_before_def has_ln_def unused_object_def)

interpretation oids: builtin_index obj_cmp obj_key obj_key oid_before has_oid kNIDsInOIDOrder
proof (unfold_locales, goal_cases)
  case 3
  show ?case by (rule oid_index(2))
next
  case 4
  show ?case by (rule oid_index(1))
qed (auto simp: obj_cmp_def OBJ_cmp_key oid_before_def has_oid_def unused_object_def)

end
