(* ===== verification/Nc_Check.thy ===== *)
theory Nc_Check
  imports Name_Constraints Obj_Index
begin

text \<open>
  The check of the names of a certificate against name constraints: \<open>NAME_CONSTRAINTS_check\<close> of
  \<open>crypto/x509/v3_ncons.c\<close>, with the functions of \<open>x509name.c\<close> it calls. The canonical encoding of a
  name that was modified comes from the template encoder, which is not modelled: it is the argument
  \<open>i2d\<close> of the definitions, \<open>None\<close> when the encoding fails. The code keeps a new encoding in the
  name; here it is computed again where it is needed, which is the same as long as no encoding fails, as
  the theorem requires. A NULL stack of alternative names is the empty list.
\<close>

section \<open>Names and constraints\<close>

record x509_name_entry =
  entry_object :: asn1_object
  entry_value :: asn1_string
  entry_set :: int

record x509_name =
  name_entries :: "x509_name_entry list"
  name_modified :: bool
  name_canon_enc :: bytes

text \<open>The payloads that no code of the check reads are left out.\<close>

datatype general_name =
    GEN_OTHERNAME
  | GEN_EMAIL (ia5: asn1_string)
  | GEN_DNS (ia5: asn1_string)
  | GEN_X400
  | GEN_DIRNAME (directoryName: x509_name)
  | GEN_EDIPARTY
  | GEN_URI (ia5: asn1_string)
  | GEN_IPADD
  | GEN_RID

primrec gen_type :: "general_name \<Rightarrow> int" where
  "gen_type GEN_OTHERNAME = 0"
| "gen_type (GEN_EMAIL _) = 1"
| "gen_type (GEN_DNS _) = 2"
| "gen_type GEN_X400 = 3"
| "gen_type (GEN_DIRNAME _) = 4"
| "gen_type GEN_EDIPARTY = 5"
| "gen_type (GEN_URI _) = 6"
| "gen_type GEN_IPADD = 7"
| "gen_type GEN_RID = 8"

record general_subtree =
  sub_base :: general_name
  sub_minimum :: "asn1_string option"
  sub_maximum :: "asn1_string option"

record name_constraints =
  permittedSubtrees :: "general_subtree list"
  excludedSubtrees :: "general_subtree list"

text \<open>Of a certificate, its subject and its alternative names.\<close>

record x509_names =
  x509_subject :: x509_name
  x509_altname :: "general_name list"

definition X509_V_ERR_UNSPECIFIED :: int where "X509_V_ERR_UNSPECIFIED = 1"
definition X509_V_ERR_OUT_OF_MEM :: int where "X509_V_ERR_OUT_OF_MEM = 17"
definition X509_V_ERR_EXCLUDED_VIOLATION :: int where "X509_V_ERR_EXCLUDED_VIOLATION = 48"
definition X509_V_ERR_SUBTREE_MINMAX :: int where "X509_V_ERR_SUBTREE_MINMAX = 49"
definition X509_V_ERR_UNSUPPORTED_CONSTRAINT_TYPE :: int where "X509_V_ERR_UNSUPPORTED_CONSTRAINT_TYPE = 51"

section \<open>Entries of a name\<close>

definition X509_NAME_entry_count :: "x509_name \<Rightarrow> int" where
  "X509_NAME_entry_count name = signed_take_bit 31 (int (length (name_entries name)))"

fun index_by_obj_loop :: "asn1_object \<Rightarrow> x509_name_entry list \<Rightarrow> int \<Rightarrow> int" where
  "index_by_obj_loop obj [] lastpos = - 1"
| "index_by_obj_loop obj (ne # sk) lastpos =
     (if OBJ_cmp (entry_object ne) obj = 0 then lastpos else index_by_obj_loop obj sk (lastpos + 1))"

definition X509_NAME_get_index_by_OBJ :: "x509_name \<Rightarrow> asn1_object \<Rightarrow> int \<Rightarrow> int" where
  "X509_NAME_get_index_by_OBJ name obj lastpos =
     (let lastpos = (if lastpos < 0 then - 1 else lastpos)
      in index_by_obj_loop obj
           (drop (nat (lastpos + 1)) (take (nat (X509_NAME_entry_count name)) (name_entries name))) (lastpos + 1))"

definition X509_NAME_get_index_by_NID :: "obj_globals \<Rightarrow> x509_name \<Rightarrow> int \<Rightarrow> int \<Rightarrow> int" where
  "X509_NAME_get_index_by_NID G name nid lastpos =
     (case OBJ_nid2obj G nid of
        None \<Rightarrow> - 2
      | Some obj \<Rightarrow> X509_NAME_get_index_by_OBJ name obj lastpos)"

definition X509_NAME_get_entry :: "x509_name \<Rightarrow> int \<Rightarrow> x509_name_entry option" where
  "X509_NAME_get_entry name loc =
     (if loc < 0 \<or> length (name_entries name) \<le> nat loc then None else Some (name_entries name ! nat loc))"

definition X509_NAME_ENTRY_get_data :: "x509_name_entry option \<Rightarrow> asn1_string option" where
  "X509_NAME_ENTRY_get_data ne = (case ne of None \<Rightarrow> None | Some ne \<Rightarrow> Some (entry_value ne))"

section \<open>One name and one subtree\<close>

definition up_to_date :: "(x509_name \<Rightarrow> bytes option) \<Rightarrow> x509_name \<Rightarrow> bytes option" where
  "up_to_date i2d name = (if name_modified name then i2d name else Some (name_canon_enc name))"

definition nc_dn :: "(x509_name \<Rightarrow> bytes option) \<Rightarrow> x509_name \<Rightarrow> x509_name \<Rightarrow> int" where
  "nc_dn i2d nm base =
     (case up_to_date i2d nm of None \<Rightarrow> X509_V_ERR_OUT_OF_MEM | Some nm_enc \<Rightarrow>
      case up_to_date i2d base of None \<Rightarrow> X509_V_ERR_OUT_OF_MEM | Some base_enc \<Rightarrow>
      if length base_enc > length nm_enc then X509_V_ERR_PERMITTED_VIOLATION
      else if OPENSSL_memcmp base_enc (take (length base_enc) nm_enc) \<noteq> 0 then X509_V_ERR_PERMITTED_VIOLATION
      else X509_V_OK)"

definition nc_match_single :: "(x509_name \<Rightarrow> bytes option) \<Rightarrow> general_name \<Rightarrow> general_name \<Rightarrow> int" where
  "nc_match_single i2d gen base =
     (case base of
        GEN_DIRNAME base \<Rightarrow> nc_dn i2d (directoryName gen) base
      | GEN_DNS base \<Rightarrow> nc_dns (ia5 gen) base
      | GEN_EMAIL base \<Rightarrow> nc_email (ia5 gen) base
      | GEN_URI base \<Rightarrow> nc_uri (ia5 gen) base
      | _ \<Rightarrow> X509_V_ERR_UNSUPPORTED_CONSTRAINT_TYPE)"

section \<open>One name and all subtrees\<close>

text \<open>The loop over the permitted subtrees ends with a result (\<open>Inl\<close>) or with the final \<open>match\<close>.\<close>

fun permitted_loop ::
  "(x509_name \<Rightarrow> bytes option) \<Rightarrow> general_name \<Rightarrow> general_subtree list \<Rightarrow> int \<Rightarrow> int + int" where
  "permitted_loop i2d gen [] match = Inr match"
| "permitted_loop i2d gen (sub # subs) match =
     (if gen_type gen \<noteq> gen_type (sub_base sub) then permitted_loop i2d gen subs match
      else if sub_minimum sub \<noteq> None \<or> sub_maximum sub \<noteq> None then Inl X509_V_ERR_SUBTREE_MINMAX
      else if match = 2 then permitted_loop i2d gen subs match
      else
        let match = (if match = 0 then 1 else match);
            r = nc_match_single i2d gen (sub_base sub)
        in if r = X509_V_OK then permitted_loop i2d gen subs 2
           else if r \<noteq> X509_V_ERR_PERMITTED_VIOLATION then Inl r
           else permitted_loop i2d gen subs match)"

fun excluded_loop :: "(x509_name \<Rightarrow> bytes option) \<Rightarrow> general_name \<Rightarrow> general_subtree list \<Rightarrow> int" where
  "excluded_loop i2d gen [] = X509_V_OK"
| "excluded_loop i2d gen (sub # subs) =
     (if gen_type gen \<noteq> gen_type (sub_base sub) then excluded_loop i2d gen subs
      else if sub_minimum sub \<noteq> None \<or> sub_maximum sub \<noteq> None then X509_V_ERR_SUBTREE_MINMAX
      else
        let r = nc_match_single i2d gen (sub_base sub)
        in if r = X509_V_OK then X509_V_ERR_EXCLUDED_VIOLATION
           else if r \<noteq> X509_V_ERR_PERMITTED_VIOLATION then r
           else excluded_loop i2d gen subs)"

definition nc_match :: "(x509_name \<Rightarrow> bytes option) \<Rightarrow> general_name \<Rightarrow> name_constraints \<Rightarrow> int" where
  "nc_match i2d gen nc =
     (case permitted_loop i2d gen (permittedSubtrees nc) 0 of
        Inl r \<Rightarrow> r
      | Inr match \<Rightarrow>
          if match = 1 then X509_V_ERR_PERMITTED_VIOLATION
          else excluded_loop i2d gen (excludedSubtrees nc))"

section \<open>All names of a certificate\<close>

definition NID_pkcs9_emailAddress :: int where "NID_pkcs9_emailAddress = 48"
definition V_ASN1_IA5STRING :: int where "V_ASN1_IA5STRING = 22"

lemma index_by_obj_loop_bounds:
  "index_by_obj_loop obj sk k \<noteq> - 1 \<Longrightarrow>
   k \<le> index_by_obj_loop obj sk k \<and> index_by_obj_loop obj sk k < k + int (length sk)"
  by (induction sk arbitrary: k) (auto split: if_splits, fastforce+)

lemma get_index_by_obj_bounds:
  assumes "X509_NAME_get_index_by_OBJ nm obj i \<noteq> - 1"
  shows "i < X509_NAME_get_index_by_OBJ nm obj i \<and> X509_NAME_get_index_by_OBJ nm obj i < int (length (name_entries nm))"
proof -
  define k where "k = (if i < 0 then - 1 else i) + 1"
  have k: "0 \<le> k" "i < k" by (auto simp: k_def)
  have e: "X509_NAME_get_index_by_OBJ nm obj i =
      index_by_obj_loop obj (drop (nat k) (take (nat (X509_NAME_entry_count nm)) (name_entries nm))) k"
    by (simp add: X509_NAME_get_index_by_OBJ_def k_def Let_def)
  from assms have "k \<le> X509_NAME_get_index_by_OBJ nm obj i \<and>
      X509_NAME_get_index_by_OBJ nm obj i < k + int (length (name_entries nm) - nat k)"
    unfolding e
    using index_by_obj_loop_bounds [of obj "drop (nat k) (take (nat (X509_NAME_entry_count nm)) (name_entries nm))" k]
    by (simp, linarith)
  then show ?thesis using k by linarith
qed

lemma get_index_bounds:
  assumes "X509_NAME_get_index_by_NID G nm nid i \<notin> {- 1, - 2}"
  shows "i < X509_NAME_get_index_by_NID G nm nid i \<and>
    X509_NAME_get_index_by_NID G nm nid i < int (length (name_entries nm))"
  using assms get_index_by_obj_bounds [of nm _ i] by (auto simp: X509_NAME_get_index_by_NID_def split: option.splits)

text \<open>The loop over the addresses in the subject. \<open>None\<close> is a read through a NULL pointer.\<close>

function email_loop ::
  "obj_globals \<Rightarrow> (x509_name \<Rightarrow> bytes option) \<Rightarrow> x509_name \<Rightarrow> name_constraints \<Rightarrow> int \<Rightarrow> int option" where
  "email_loop G i2d nm nc i =
     (let i' = X509_NAME_get_index_by_NID G nm NID_pkcs9_emailAddress i
      in if i' = - 1 then Some X509_V_OK
         else case X509_NAME_ENTRY_get_data (X509_NAME_get_entry nm i') of
           None \<Rightarrow> None
         | Some rfc822Name \<Rightarrow>
             if str_type rfc822Name \<noteq> V_ASN1_IA5STRING then Some X509_V_ERR_UNSUPPORTED_NAME_SYNTAX
             else
               let r = nc_match i2d (GEN_EMAIL rfc822Name) nc
               in if r \<noteq> X509_V_OK then Some r else email_loop G i2d nm nc i')"
  by pat_completeness auto
termination
proof (relation "measure (\<lambda>(G, i2d, nm, nc, i). nat (int (length (name_entries nm)) - i))")
  fix G and i2d :: "x509_name \<Rightarrow> bytes option" and nm :: x509_name and nc :: name_constraints
    and i i' r :: int and e :: asn1_string
  assume i': "i' = X509_NAME_get_index_by_NID G nm NID_pkcs9_emailAddress i" "i' \<noteq> - 1"
    "X509_NAME_ENTRY_get_data (X509_NAME_get_entry nm i') = Some e"
  then have "i' \<noteq> - 2" by (auto simp: X509_NAME_ENTRY_get_data_def X509_NAME_get_entry_def)
  then show "((G, i2d, nm, nc, i'), G, i2d, nm, nc, i)
      \<in> measure (\<lambda>(G, i2d, nm, nc, i). nat (int (length (name_entries nm)) - i))"
    using get_index_bounds [of G nm NID_pkcs9_emailAddress i] i'(1,2) by auto
qed simp_all

declare email_loop.simps [simp del]

fun altname_loop :: "(x509_name \<Rightarrow> bytes option) \<Rightarrow> name_constraints \<Rightarrow> general_name list \<Rightarrow> int" where
  "altname_loop i2d nc [] = X509_V_OK"
| "altname_loop i2d nc (gen # altname) =
     (let r = nc_match i2d gen nc in if r \<noteq> X509_V_OK then r else altname_loop i2d nc altname)"

text \<open>The guard against too many comparisons, in the arithmetic of \<open>size_t\<close>.\<close>

definition too_many :: "int \<Rightarrow> nat \<Rightarrow> nat \<Rightarrow> nat \<Rightarrow> bool" where
  "too_many entries altnames permitted excluded =
     (let name_count = (word_of_int entries + word_of_nat altnames :: u64);
          constraint_count = (word_of_nat permitted + word_of_nat excluded :: u64);
          check_count = constraint_count * name_count
      in name_count < word_of_int entries \<or> constraint_count < word_of_nat permitted \<or>
         (constraint_count \<noteq> 0 \<and> check_count div constraint_count \<noteq> name_count) \<or>
         check_count > push_bit 20 1)"

definition NAME_CONSTRAINTS_check ::
  "obj_globals \<Rightarrow> (x509_name \<Rightarrow> bytes option) \<Rightarrow> x509_names \<Rightarrow> name_constraints \<Rightarrow> int option" where
  "NAME_CONSTRAINTS_check G i2d x nc =
     (let nm = x509_subject x in
      if too_many (X509_NAME_entry_count nm) (length (x509_altname x))
          (length (permittedSubtrees nc)) (length (excludedSubtrees nc))
      then Some X509_V_ERR_UNSPECIFIED
      else
        let r = (if X509_NAME_entry_count nm > 0 then
                   let r = nc_match i2d (GEN_DIRNAME nm) nc
                   in if r \<noteq> X509_V_OK then Some r else email_loop G i2d nm nc (- 1)
                 else Some X509_V_OK)
        in if r \<noteq> Some X509_V_OK then r else Some (altname_loop i2d nc (x509_altname x)))"

section \<open>Which names obey the constraints\<close>

text \<open>The specification. Of a URI the constraint names the part the code takes for the host.\<close>

definition uri_authority :: "bytes \<Rightarrow> bytes" where
  "uri_authority u =
     (let s = drop 3 (dropWhile (\<lambda>c. c \<noteq> c_colon) u)
      in takeWhile (\<lambda>c. c \<noteq> (if c_colon \<in> set s then c_colon else 0x2F)) s)"

definition canonical :: "(x509_name \<Rightarrow> bytes option) \<Rightarrow> x509_name \<Rightarrow> bytes" where
  "canonical i2d name = the (up_to_date i2d name)"

text \<open>The names whose type and form the check supports.\<close>

primrec supported :: "general_name \<Rightarrow> bool" where
  "supported GEN_OTHERNAME \<longleftrightarrow> False"
| "supported (GEN_EMAIL e) \<longleftrightarrow> c_at \<in> set (str_bytes e)"
| "supported (GEN_DNS _) \<longleftrightarrow> True"
| "supported GEN_X400 \<longleftrightarrow> False"
| "supported (GEN_DIRNAME _) \<longleftrightarrow> True"
| "supported GEN_EDIPARTY \<longleftrightarrow> False"
| "supported (GEN_URI u) \<longleftrightarrow>
     (\<exists>s. dropWhile (\<lambda>c. c \<noteq> c_colon) (str_bytes u) = c_colon # 0x2F # 0x2F # s) \<and> uri_authority (str_bytes u) \<noteq> []"
| "supported GEN_IPADD \<longleftrightarrow> False"
| "supported GEN_RID \<longleftrightarrow> False"

definition host_below :: "bytes \<Rightarrow> bytes \<Rightarrow> bool" where
  "host_below h b \<longleftrightarrow>
     (if b \<noteq> [] \<and> hd b = c_dot then \<exists>p t. h = p @ t \<and> lower t = lower b else lower b = lower h)"

fun lies_below :: "(x509_name \<Rightarrow> bytes option) \<Rightarrow> general_name \<Rightarrow> general_name \<Rightarrow> bool" where
  "lies_below i2d (GEN_DIRNAME n) (GEN_DIRNAME b) \<longleftrightarrow> (\<exists>t. canonical i2d n = canonical i2d b @ t)"
| "lies_below i2d (GEN_DNS n) (GEN_DNS b) \<longleftrightarrow> below (str_bytes n) (str_bytes b)"
| "lies_below i2d (GEN_EMAIL n) (GEN_EMAIL b) \<longleftrightarrow>
     mailbox_below (takeWhile (\<lambda>c. c \<noteq> c_at) (str_bytes n)) (tl (dropWhile (\<lambda>c. c \<noteq> c_at) (str_bytes n))) (str_bytes b)"
| "lies_below i2d (GEN_URI n) (GEN_URI b) \<longleftrightarrow> host_below (uri_authority (str_bytes n)) (str_bytes b)"
| "lies_below i2d _ _ \<longleftrightarrow> False"

text \<open>A name obeys the constraints when, of the subtrees of its type, none has bounds, it is in one of the
  permitted (if there are any) and in none of the excluded; if there are any, it has to be supported.\<close>

definition of_type :: "general_name \<Rightarrow> general_subtree list \<Rightarrow> general_subtree list" where
  "of_type gen subs = filter (\<lambda>s. gen_type gen = gen_type (sub_base s)) subs"

definition unbounded :: "general_subtree \<Rightarrow> bool" where
  "unbounded s \<longleftrightarrow> sub_minimum s = None \<and> sub_maximum s = None"

definition obeys :: "(x509_name \<Rightarrow> bytes option) \<Rightarrow> name_constraints \<Rightarrow> general_name \<Rightarrow> bool" where
  "obeys i2d nc gen \<longleftrightarrow>
     (let permitted = of_type gen (permittedSubtrees nc); excluded = of_type gen (excludedSubtrees nc)
      in (\<forall>s \<in> set (permitted @ excluded). unbounded s \<and> supported gen) \<and>
         (permitted = [] \<or> (\<exists>s \<in> set permitted. lies_below i2d gen (sub_base s))) \<and>
         (\<forall>s \<in> set excluded. \<not> lies_below i2d gen (sub_base s)))"

section \<open>One comparison\<close>

lemma nc_dn_eq:
  assumes "i2d nm \<noteq> None" "i2d base \<noteq> None"
  shows "nc_dn i2d nm base = in_subtree (\<exists>t. canonical i2d nm = canonical i2d base @ t)"
proof -
  have "up_to_date i2d nm = Some (canonical i2d nm)" "up_to_date i2d base = Some (canonical i2d base)"
    using assms by (auto simp: up_to_date_def canonical_def)
  moreover have "(\<exists>t. a = b @ t) \<longleftrightarrow> length b \<le> length a \<and> b = take (length b) a" for a b :: bytes
    by (metis append_take_drop_id append_eq_conv_conj length_append le_add1)
  ultimately show ?thesis by (simp add: nc_dn_def in_subtree_def memcmp_zero min_def)
qed

lemma at_split: "c \<in> set s \<Longrightarrow> s = takeWhile (\<lambda>x. x \<noteq> c) s @ c # tl (dropWhile (\<lambda>x. x \<noteq> c) s)"
  by (induction s) auto

lemma takeWhile_not_in: "c \<notin> set (takeWhile (\<lambda>x. x \<noteq> c) s)"
  by (auto dest: set_takeWhileD)

lemma nc_email_no_at: "c_at \<notin> set (str_bytes eml) \<Longrightarrow> nc_email eml base = X509_V_ERR_UNSUPPORTED_NAME_SYNTAX"
  by (simp add: nc_email_def until_first_none)

lemma nc_email_supported:
  assumes "c_at \<in> set (str_bytes eml)"
  shows "nc_email eml base = in_subtree (lies_below i2d (GEN_EMAIL eml) (GEN_EMAIL base))"
  using nc_email_exact [OF at_split [OF assms] takeWhile_not_in] by (simp add: in_subtree_def)

lemma uri_authority_eq:
  assumes "dropWhile (\<lambda>c. c \<noteq> c_colon) u = c_colon # 0x2F # 0x2F # s"
  shows "uri_authority u = uri_host s"
  by (simp add: uri_authority_def assms uri_host_eq)

lemma uri_scheme_none:
  assumes "\<nexists>s. dropWhile (\<lambda>c. c \<noteq> c_colon) u = c_colon # 0x2F # 0x2F # s"
  shows "fst (uri_skip_scheme u) = None"
proof (cases "c_colon \<in> set u")
  case True
  define p t where "p = takeWhile (\<lambda>c. c \<noteq> c_colon) u" "t = tl (dropWhile (\<lambda>c. c \<noteq> c_colon) u)"
  have u: "u = p @ c_colon # t" "c_colon \<notin> set p"
    using at_split [OF True] takeWhile_not_in [of c_colon u] by (simp_all add: p_t_def)
  then have "dropWhile (\<lambda>c. c \<noteq> c_colon) u = c_colon # t" by (auto simp: dropWhile_append)
  with assms have "\<nexists>s. t = 0x2F # 0x2F # s" by simp
  then show ?thesis
    by (cases t; cases "tl t")
      (auto simp: u(1) uri_skip_scheme_def and_then_def until_first_at [OF u(2)] CBS_skip_eq CBS_get_u8_def cbs_get_def
        ret_def fail_def)
next
  case False
  then show ?thesis by (simp add: uri_skip_scheme_def and_then_def until_first_none)
qed

lemma nc_uri_supported:
  assumes "supported (GEN_URI uri)"
  shows "nc_uri uri base = in_subtree (lies_below i2d (GEN_URI uri) (GEN_URI base))"
proof -
  from assms obtain s where s: "dropWhile (\<lambda>c. c \<noteq> c_colon) (str_bytes uri) = c_colon # 0x2F # 0x2F # s"
    and a: "uri_authority (str_bytes uri) \<noteq> []" by auto
  have u: "str_bytes uri = takeWhile (\<lambda>c. c \<noteq> c_colon) (str_bytes uri) @ c_colon # 0x2F # 0x2F # s"
    using takeWhile_dropWhile_id [of "\<lambda>c. c \<noteq> c_colon" "str_bytes uri"] s by simp
  have b: "starts_with b c_dot \<longleftrightarrow> b \<noteq> [] \<and> hd b = c_dot" for b by (cases b) auto
  show ?thesis
    using nc_uri_eq [OF u takeWhile_not_in, of base] a
    by (simp add: uri_authority_eq [OF s] host_below_def b del: starts_with_iff)
qed

lemma nc_uri_unsupported:
  assumes "\<not> supported (GEN_URI uri)"
  shows "nc_uri uri base = X509_V_ERR_UNSUPPORTED_NAME_SYNTAX"
proof (cases "\<exists>s. dropWhile (\<lambda>c. c \<noteq> c_colon) (str_bytes uri) = c_colon # 0x2F # 0x2F # s")
  case True
  then obtain s where s: "dropWhile (\<lambda>c. c \<noteq> c_colon) (str_bytes uri) = c_colon # 0x2F # 0x2F # s" by blast
  have u: "str_bytes uri = takeWhile (\<lambda>c. c \<noteq> c_colon) (str_bytes uri) @ c_colon # 0x2F # 0x2F # s"
    using takeWhile_dropWhile_id [of "\<lambda>c. c \<noteq> c_colon" "str_bytes uri"] s by simp
  show ?thesis using nc_uri_eq [OF u takeWhile_not_in, of base] assms s by (simp add: uri_authority_eq [OF s])
next
  case False
  from uri_scheme_none [OF this] obtain r where "uri_skip_scheme (str_bytes uri) = (None, r)"
    by (cases "uri_skip_scheme (str_bytes uri)") auto
  then show ?thesis by (simp add: nc_uri_def Let_def)
qed

lemma X509_V_distinct:
  "X509_V_ERR_UNSUPPORTED_NAME_SYNTAX \<notin> {X509_V_OK, X509_V_ERR_PERMITTED_VIOLATION}"
  "X509_V_ERR_UNSUPPORTED_CONSTRAINT_TYPE \<notin> {X509_V_OK, X509_V_ERR_PERMITTED_VIOLATION}"
  "X509_V_ERR_SUBTREE_MINMAX \<noteq> X509_V_OK" "X509_V_ERR_EXCLUDED_VIOLATION \<noteq> X509_V_OK"
  "X509_V_ERR_PERMITTED_VIOLATION \<noteq> X509_V_OK" "X509_V_ERR_UNSPECIFIED \<noteq> X509_V_OK"
  by (simp_all add: X509_V_ERR_UNSUPPORTED_NAME_SYNTAX_def X509_V_ERR_UNSUPPORTED_CONSTRAINT_TYPE_def X509_V_OK_def
      X509_V_ERR_PERMITTED_VIOLATION_def X509_V_ERR_SUBTREE_MINMAX_def X509_V_ERR_EXCLUDED_VIOLATION_def
      X509_V_ERR_UNSPECIFIED_def)

lemma nc_match_single_supported:
  assumes "\<And>a. i2d a \<noteq> None" "gen_type gen = gen_type base" "supported gen"
  shows "nc_match_single i2d gen base = in_subtree (lies_below i2d gen base)"
  using assms(2,3) nc_dn_eq [of i2d, OF assms(1) assms(1)]
  by (cases gen; cases base)
    (simp_all add: nc_match_single_def nc_dns_exact nc_email_supported [of _ _ i2d] nc_uri_supported [of _ _ i2d]
      in_subtree_def [symmetric] del: supported.simps(7) lies_below.simps(3,4))

lemma nc_match_single_unsupported:
  assumes "gen_type gen = gen_type base" "\<not> supported gen"
  shows "nc_match_single i2d gen base \<notin> {X509_V_OK, X509_V_ERR_PERMITTED_VIOLATION}"
  using assms X509_V_distinct(1,2) nc_email_no_at nc_uri_unsupported
  by (cases gen; cases base) (simp_all add: nc_match_single_def del: supported.simps(7))

section \<open>One name\<close>

lemma of_type_simps [simp]:
  "of_type gen [] = []"
  "gen_type gen = gen_type (sub_base s) \<Longrightarrow> of_type gen (s # subs) = s # of_type gen subs"
  "gen_type gen \<noteq> gen_type (sub_base s) \<Longrightarrow> of_type gen (s # subs) = of_type gen subs"
  by (simp_all add: of_type_def)

text \<open>The loops, step by step.\<close>

lemma unbounded_iff: "sub_minimum s \<noteq> None \<or> sub_maximum s \<noteq> None \<longleftrightarrow> \<not> unbounded s"
  by (simp add: unbounded_def)

lemma permitted_loop_steps:
  "gen_type gen \<noteq> gen_type (sub_base s) \<Longrightarrow> permitted_loop i2d gen (s # subs) m = permitted_loop i2d gen subs m"
  "gen_type gen = gen_type (sub_base s) \<Longrightarrow> \<not> unbounded s \<Longrightarrow>
     permitted_loop i2d gen (s # subs) m = Inl X509_V_ERR_SUBTREE_MINMAX"
  "gen_type gen = gen_type (sub_base s) \<Longrightarrow> unbounded s \<Longrightarrow>
     permitted_loop i2d gen (s # subs) 2 = permitted_loop i2d gen subs 2"
  unfolding permitted_loop.simps unbounded_iff by simp_all

lemma permitted_loop_compare:
  assumes "gen_type gen = gen_type (sub_base s)" "unbounded s" "m = 0 \<or> m = 1"
  shows "permitted_loop i2d gen (s # subs) m =
    (let r = nc_match_single i2d gen (sub_base s)
     in if r = X509_V_OK then permitted_loop i2d gen subs 2
        else if r \<noteq> X509_V_ERR_PERMITTED_VIOLATION then Inl r else permitted_loop i2d gen subs 1)"
  using assms unfolding permitted_loop.simps unbounded_iff by (auto simp: Let_def)

lemma permitted_loop_supported:
  assumes "\<And>a. i2d a \<noteq> None" "gen_type gen = gen_type (sub_base s)" "unbounded s" "m = 0 \<or> m = 1" "supported gen"
  shows "permitted_loop i2d gen (s # subs) m = permitted_loop i2d gen subs (if lies_below i2d gen (sub_base s) then 2 else 1)"
  unfolding permitted_loop_compare [OF assms(2-4)] nc_match_single_supported [OF assms(1,2,5)] Let_def
  using X509_V_distinct(5) by (simp add: in_subtree_def)

lemma permitted_loop_unsupported:
  assumes "gen_type gen = gen_type (sub_base s)" "unbounded s" "m = 0 \<or> m = 1" "\<not> supported gen"
  shows "\<exists>r. permitted_loop i2d gen (s # subs) m = Inl r"
  unfolding permitted_loop_compare [OF assms(1-3)] Let_def
  using nc_match_single_unsupported [OF assms(1,4), of i2d] by simp

lemma excluded_loop_steps:
  "gen_type gen \<noteq> gen_type (sub_base s) \<Longrightarrow> excluded_loop i2d gen (s # subs) = excluded_loop i2d gen subs"
  "gen_type gen = gen_type (sub_base s) \<Longrightarrow> \<not> unbounded s \<Longrightarrow>
     excluded_loop i2d gen (s # subs) = X509_V_ERR_SUBTREE_MINMAX"
  "gen_type gen = gen_type (sub_base s) \<Longrightarrow> unbounded s \<Longrightarrow>
     excluded_loop i2d gen (s # subs) =
      (let r = nc_match_single i2d gen (sub_base s)
       in if r = X509_V_OK then X509_V_ERR_EXCLUDED_VIOLATION
          else if r \<noteq> X509_V_ERR_PERMITTED_VIOLATION then r else excluded_loop i2d gen subs)"
  unfolding excluded_loop.simps unbounded_iff by simp_all

lemma permitted_loop_passes:
  assumes "\<And>a. i2d a \<noteq> None" "match \<in> {0, 1, 2}"
  shows "(\<exists>m. permitted_loop i2d gen subs match = Inr m \<and> m \<noteq> 1) \<longleftrightarrow>
    (\<forall>s \<in> set (of_type gen subs). unbounded s \<and> (supported gen \<or> match = 2)) \<and>
    (match = 2 \<or> match = 0 \<and> of_type gen subs = [] \<or> (\<exists>s \<in> set (of_type gen subs). lies_below i2d gen (sub_base s)))"
  using assms(2)
proof (induction subs arbitrary: match)
  case Nil
  then show ?case by auto
next
  case (Cons s subs)
  consider (other) "gen_type gen \<noteq> gen_type (sub_base s)"
    | (bounded) "gen_type gen = gen_type (sub_base s)" "\<not> unbounded s"
    | (matched) "gen_type gen = gen_type (sub_base s)" "unbounded s" "match = 2"
    | (sup) "gen_type gen = gen_type (sub_base s)" "unbounded s" "match = 0 \<or> match = 1" "supported gen"
    | (unsup) "gen_type gen = gen_type (sub_base s)" "unbounded s" "match = 0 \<or> match = 1" "\<not> supported gen"
    using Cons.prems by blast
  then show ?case
  proof cases
    case other
    then show ?thesis using Cons by (simp add: permitted_loop_steps del: permitted_loop.simps)
  next
    case bounded
    then show ?thesis by (simp add: permitted_loop_steps del: permitted_loop.simps)
  next
    case matched
    then show ?thesis using Cons.IH [of 2] by (simp add: permitted_loop_steps del: permitted_loop.simps)
  next
    case sup
    then show ?thesis
      using Cons.IH [of 1] Cons.IH [of 2] permitted_loop_supported [OF assms(1) sup, where subs = subs]
      by (cases "lies_below i2d gen (sub_base s)") (auto simp del: permitted_loop.simps)
  next
    case unsup
    then show ?thesis
      using permitted_loop_unsupported [OF unsup, of i2d subs] by (auto simp del: permitted_loop.simps)
  qed
qed

lemma excluded_loop_passes:
  assumes "\<And>a. i2d a \<noteq> None"
  shows "excluded_loop i2d gen subs = X509_V_OK \<longleftrightarrow>
    (\<forall>s \<in> set (of_type gen subs). unbounded s \<and> supported gen \<and> \<not> lies_below i2d gen (sub_base s))"
proof (induction subs)
  case (Cons s subs)
  consider (other) "gen_type gen \<noteq> gen_type (sub_base s)"
    | (bounded) "gen_type gen = gen_type (sub_base s)" "\<not> unbounded s"
    | (sup) "gen_type gen = gen_type (sub_base s)" "unbounded s" "supported gen"
    | (unsup) "gen_type gen = gen_type (sub_base s)" "unbounded s" "\<not> supported gen"
    by blast
  then show ?case
  proof cases
    case other
    then show ?thesis using Cons by (simp add: excluded_loop_steps del: excluded_loop.simps)
  next
    case bounded
    then show ?thesis using X509_V_distinct(3) by (simp add: excluded_loop_steps del: excluded_loop.simps)
  next
    case sup
    then show ?thesis
      unfolding excluded_loop_steps(3) [OF sup(1,2)] nc_match_single_supported [OF assms sup(1,3)] Let_def
      using Cons.IH X509_V_distinct(4,5) by (simp add: in_subtree_def)
  next
    case unsup
    then show ?thesis
      unfolding excluded_loop_steps(3) [OF unsup(1,2)] Let_def
      using nc_match_single_unsupported [OF unsup(1,3), of i2d] unsup by auto
  qed
qed simp

lemma nc_match_obeys:
  assumes "\<And>a. i2d a \<noteq> None"
  shows "nc_match i2d gen nc = X509_V_OK \<longleftrightarrow> obeys i2d nc gen"
proof -
  have "permitted_loop i2d gen subs m = Inl r \<Longrightarrow> r \<noteq> X509_V_OK" for subs m r
    using X509_V_distinct(3)
    by (induction i2d gen subs m rule: permitted_loop.induct) (auto simp: Let_def split: if_splits)
  then have "nc_match i2d gen nc = X509_V_OK \<longleftrightarrow>
      (\<exists>m. permitted_loop i2d gen (permittedSubtrees nc) 0 = Inr m \<and> m \<noteq> 1) \<and>
      excluded_loop i2d gen (excludedSubtrees nc) = X509_V_OK"
    using X509_V_distinct(5) by (auto simp: nc_match_def split: sum.split)
  then show ?thesis
    using permitted_loop_passes [OF assms, of 0] excluded_loop_passes [OF assms]
    by (auto simp: obeys_def Let_def)
qed

section \<open>The addresses in the subject\<close>

definition email_address_type :: asn1_object where
  "email_address_type = get_builtin_object NID_pkcs9_emailAddress"

definition subject_emails :: "x509_name_entry list \<Rightarrow> asn1_string list" where
  "subject_emails es = map entry_value (filter (\<lambda>e. OBJ_cmp (entry_object e) email_address_type = 0) es)"

lemma email_object: "OBJ_nid2obj G NID_pkcs9_emailAddress = Some email_address_type"
proof -
  have "obj_nid email_address_type \<noteq> NID_undef"
    by (simp add: email_address_type_def get_builtin_object_def NID_pkcs9_emailAddress_def kObjects_def kObjects_1_def NID_undef_def builtin_object_def)
  then show ?thesis
    by (simp add: OBJ_nid2obj_def email_address_type_def NID_pkcs9_emailAddress_def NID_undef_def NUM_NID_def Let_def)
qed

lemma index_by_obj_loop_cases:
  "(index_by_obj_loop obj sk k = - 1 \<and> filter (\<lambda>e. OBJ_cmp (entry_object e) obj = 0) sk = []) \<or>
   (\<exists>n < length sk. index_by_obj_loop obj sk k = k + int n \<and>
      filter (\<lambda>e. OBJ_cmp (entry_object e) obj = 0) sk =
        sk ! n # filter (\<lambda>e. OBJ_cmp (entry_object e) obj = 0) (drop (Suc n) sk))"
proof (induction sk arbitrary: k)
  case (Cons e sk)
  show ?case
  proof (cases "OBJ_cmp (entry_object e) obj = 0")
    case True
    then show ?thesis by (intro disjI2 exI [of _ 0]) simp
  next
    case False
    from Cons.IH [of "k + 1"] show ?thesis
    proof (elim disjE exE conjE)
      fix n assume "n < length sk" "index_by_obj_loop obj sk (k + 1) = k + 1 + int n"
        "filter (\<lambda>e. OBJ_cmp (entry_object e) obj = 0) sk =
          sk ! n # filter (\<lambda>e. OBJ_cmp (entry_object e) obj = 0) (drop (Suc n) sk)"
      then show ?thesis using False by (intro disjI2 exI [of _ "Suc n"]) simp
    qed (use False in simp)
  qed
qed simp

definition subject_emails_obey ::
  "(x509_name \<Rightarrow> bytes option) \<Rightarrow> name_constraints \<Rightarrow> asn1_string list \<Rightarrow> bool" where
  "subject_emails_obey i2d nc es \<longleftrightarrow>
     (\<forall>e \<in> set es. str_type e = V_ASN1_IA5STRING \<and> obeys i2d nc (GEN_EMAIL e))"

lemma entry_count_small:
  "length (name_entries nm) \<le> INT_MAX \<Longrightarrow> X509_NAME_entry_count nm = int (length (name_entries nm))"
  by (simp add: X509_NAME_entry_count_def INT_MAX_def signed_take_bit_int_eq_self)

lemma email_loop_eq:
  assumes "\<And>a. i2d a \<noteq> None" "length (name_entries nm) \<le> INT_MAX" "- 1 \<le> i"
  shows "\<exists>r. email_loop G i2d nm nc i = Some r \<and>
    (r = X509_V_OK \<longleftrightarrow> subject_emails_obey i2d nc (subject_emails (drop (nat (i + 1)) (name_entries nm))))"
  using assms(3)
proof (induction "length (name_entries nm) - nat (i + 1)" arbitrary: i rule: less_induct)
  case less
  define sk where "sk = drop (nat (i + 1)) (name_entries nm)"
  define i' where "i' = X509_NAME_get_index_by_NID G nm NID_pkcs9_emailAddress i"
  have "(if i < 0 then - 1 else i) = i" using less.prems by simp
  then have i': "i' = index_by_obj_loop email_address_type sk (i + 1)"
    using assms(2)
    by (simp add: i'_def sk_def X509_NAME_get_index_by_NID_def email_object X509_NAME_get_index_by_OBJ_def
        entry_count_small Let_def)
  from index_by_obj_loop_cases [of email_address_type sk "i + 1"] show ?case
  proof (elim disjE conjE exE)
    assume "index_by_obj_loop email_address_type sk (i + 1) = - 1"
      "filter (\<lambda>e. OBJ_cmp (entry_object e) email_address_type = 0) sk = []"
    then show ?thesis
      by (simp add: email_loop.simps [of G i2d nm nc i] i'_def [symmetric] i' Let_def sk_def [symmetric]
          subject_emails_def subject_emails_obey_def)
  next
    fix n
    assume n: "n < length sk" "index_by_obj_loop email_address_type sk (i + 1) = i + 1 + int n"
      "filter (\<lambda>e. OBJ_cmp (entry_object e) email_address_type = 0) sk =
        sk ! n # filter (\<lambda>e. OBJ_cmp (entry_object e) email_address_type = 0) (drop (Suc n) sk)"
    define v where "v = entry_value (sk ! n)"
    have e: "X509_NAME_ENTRY_get_data (X509_NAME_get_entry nm i') = Some v" "i' \<noteq> - 1" "- 1 \<le> i'"
      using n(1,2) less.prems
      by (auto simp: i' X509_NAME_ENTRY_get_data_def X509_NAME_get_entry_def sk_def v_def nat_add_distrib)
    have further: "nat (i' + 1) = Suc n + nat (i + 1)" using n(2) less.prems by (simp add: i')
    have rest: "drop (nat (i' + 1)) (name_entries nm) = drop (Suc n) sk"
      unfolding further sk_def drop_drop by (rule refl)
    have split: "subject_emails sk = v # subject_emails (drop (Suc n) sk)"
      unfolding subject_emails_def n(3) by (simp add: v_def)
    have "length (name_entries nm) - nat (i' + 1) < length (name_entries nm) - nat (i + 1)"
      using n(1,2) less.prems by (simp add: i' sk_def)
    from less.hyps [OF this e(3)] obtain r where r: "email_loop G i2d nm nc i' = Some r"
      "r = X509_V_OK \<longleftrightarrow> subject_emails_obey i2d nc (subject_emails (drop (Suc n) sk))"
      unfolding rest by blast
    have "email_loop G i2d nm nc i =
        (if str_type v \<noteq> V_ASN1_IA5STRING then Some X509_V_ERR_UNSUPPORTED_NAME_SYNTAX
         else if \<not> obeys i2d nc (GEN_EMAIL v) then Some (nc_match i2d (GEN_EMAIL v) nc) else Some r)"
      unfolding email_loop.simps [of G i2d nm nc i] i'_def [symmetric]
      using e by (simp add: Let_def r(1) nc_match_obeys [where i2d = i2d, OF assms(1)])
    then show ?thesis
      unfolding sk_def [symmetric] split
      using r(2) X509_V_distinct(1) nc_match_obeys [where i2d = i2d and gen = "GEN_EMAIL v" and nc = nc, OF assms(1)]
      by (auto simp: subject_emails_obey_def)
  qed
qed

lemma altname_loop_obeys:
  assumes "\<And>a. i2d a \<noteq> None"
  shows "altname_loop i2d nc gens = X509_V_OK \<longleftrightarrow> (\<forall>gen \<in> set gens. obeys i2d nc gen)"
  by (induction gens) (simp_all add: Let_def nc_match_obeys [OF assms])

section \<open>The guard\<close>

lemma mult_overflow_test:
  fixes a b :: "'a :: len word"
  assumes "a \<noteq> 0"
  shows "a * b div a = b \<longleftrightarrow> unat a * unat b < 2 ^ LENGTH('a)"
proof
  assume "a * b div a = b"
  then have "unat (a * b) div unat a = unat b" by (metis unat_div_distrib)
  then have "unat b * unat a \<le> unat (a * b)" by (metis div_times_less_eq_dividend)
  then show "unat a * unat b < 2 ^ LENGTH('a)" by (simp add: mult.commute le_less_trans [OF _ unsigned_less])
next
  assume "unat a * unat b < 2 ^ LENGTH('a)"
  then have "unat (a * b) = unat a * unat b" by (simp add: unat_word_ariths)
  then have "unat (a * b div a) = unat b" using assms by (simp add: unat_div_distrib unat_eq_0 [symmetric])
  then show "a * b div a = b" by (simp add: word_unat_eq_iff)
qed

lemma too_many_iff:
  assumes "n < 2 ^ 62" "a < 2 ^ 62" "p < 2 ^ 62" "x < 2 ^ 62"
  shows "too_many (int n) a p x \<longleftrightarrow> (p + x) * (n + a) > 2 ^ 20"
proof -
  define N C :: u64 where "N = word_of_int (int n) + word_of_nat a" "C = word_of_nat p + word_of_nat x"
  have u: "unat N = n + a" "unat C = p + x"
    "unat (word_of_int (int n) :: u64) = n" "unat (word_of_nat p :: u64) = p"
    using assms by (simp_all add: N_C_def unat_word_ariths unat_of_nat take_bit_nat_eq_self)
  have "too_many (int n) a p x \<longleftrightarrow> (C \<noteq> 0 \<and> C * N div C \<noteq> N) \<or> C * N > 0x100000"
    unfolding too_many_def N_C_def [symmetric] Let_def word_less_nat_alt u by (simp add: word_less_nat_alt)
  also have "\<dots> \<longleftrightarrow> (p + x) * (n + a) > 2 ^ 20"
  proof (cases "unat C * unat N < 2 ^ 64")
    case True
    then have "unat (C * N) = (p + x) * (n + a)" by (simp add: unat_word_ariths u)
    moreover have "C \<noteq> 0 \<Longrightarrow> C * N div C = N" using True mult_overflow_test [of C N] by simp
    ultimately show ?thesis by (auto simp: word_less_nat_alt)
  next
    case False
    then have "C \<noteq> 0" by auto
    then have "C * N div C \<noteq> N" using False mult_overflow_test [of C N] by simp
    then show ?thesis using False \<open>C \<noteq> 0\<close> by (simp add: u)
  qed
  finally show ?thesis .
qed

section \<open>The check\<close>

text \<open>C30: Within the limit on the number of comparisons, and as long as names can be encoded, a certificate
  passes exactly when its subject, the e-mail addresses in it (which have to be IA5 strings) and all its
  alternative names obey the constraints. The check always returns.\<close>

theorem name_constraints_exact:
  assumes "\<And>a. i2d a \<noteq> None"
    and "length (name_entries (x509_subject x)) \<le> INT_MAX" "length (x509_altname x) < 2 ^ 62"
      "length (permittedSubtrees nc) < 2 ^ 62" "length (excludedSubtrees nc) < 2 ^ 62"
  shows "\<exists>r. NAME_CONSTRAINTS_check G i2d x nc = Some r \<and>
    (r = X509_V_OK \<longleftrightarrow>
      (length (permittedSubtrees nc) + length (excludedSubtrees nc)) *
        (length (name_entries (x509_subject x)) + length (x509_altname x)) \<le> 2 ^ 20 \<and>
      (name_entries (x509_subject x) \<noteq> [] \<longrightarrow>
        obeys i2d nc (GEN_DIRNAME (x509_subject x)) \<and>
        subject_emails_obey i2d nc (subject_emails (name_entries (x509_subject x)))) \<and>
      (\<forall>gen \<in> set (x509_altname x). obeys i2d nc gen))"
proof -
  let ?es = "name_entries (x509_subject x)"
  have "length ?es < 2 ^ 62" using assms(2) by (simp add: INT_MAX_def)
  note guard = too_many_iff [OF this assms(3-5)] and count = entry_count_small [OF assms(2)]
  note ok = nc_match_obeys [where i2d = i2d, OF assms(1)] and alt = altname_loop_obeys [where i2d = i2d and nc = nc and gens = "x509_altname x", OF assms(1)]
  obtain r where r: "email_loop G i2d (x509_subject x) nc (- 1) = Some r"
    "r = X509_V_OK \<longleftrightarrow> subject_emails_obey i2d nc (subject_emails ?es)"
    using email_loop_eq [where i2d = i2d and i = "- 1" and G = G and nc = nc, OF assms(1,2)] by auto
  show ?thesis
    using X509_V_distinct(6) r(2)
    by (auto simp: NAME_CONSTRAINTS_check_def Let_def guard count ok alt r(1) not_less)
qed

text \<open>A certificate for the host \<open>a.b\<close> under the constraint \<open>b\<close>.\<close>

abbreviation ia5_string :: "bytes \<Rightarrow> asn1_string" where
  "ia5_string s \<equiv> \<lparr>str_length = int (length s), str_type = 22, str_data = Some s, str_flags = 0\<rparr>"

theorem name_constraints_exact_witness:
  "\<exists>r. NAME_CONSTRAINTS_check obj_start (\<lambda>_. Some [])
      \<lparr>x509_subject = \<lparr>name_entries = [], name_modified = True, name_canon_enc = []\<rparr>,
       x509_altname = [GEN_DNS (ia5_string [0x61, c_dot, 0x62])]\<rparr>
      \<lparr>permittedSubtrees = [\<lparr>sub_base = GEN_DNS (ia5_string [0x62]), sub_minimum = None, sub_maximum = None\<rparr>],
       excludedSubtrees = []\<rparr> = Some r \<and> r = X509_V_OK"
proof -
  let ?i2d = "\<lambda>_. Some [] :: bytes option"
  let ?x = "\<lparr>x509_subject = \<lparr>name_entries = [], name_modified = True, name_canon_enc = []\<rparr>,
       x509_altname = [GEN_DNS (ia5_string [0x61, c_dot, 0x62])]\<rparr>"
  let ?nc = "\<lparr>permittedSubtrees = [\<lparr>sub_base = GEN_DNS (ia5_string [0x62]), sub_minimum = None, sub_maximum = None\<rparr>],
       excludedSubtrees = []\<rparr>"
  have "below [0x61, c_dot, 0x62] [0x62]"
    unfolding below_def by (intro disjI2 exI [of _ "[0x61, c_dot]"] exI [of _ "[0x62]"]) simp
  then have "obeys ?i2d ?nc (GEN_DNS (ia5_string [0x61, c_dot, 0x62]))"
    by (simp add: obeys_def unbounded_def str_bytes_def)
  then show ?thesis using name_constraints_exact [of ?i2d ?x ?nc obj_start] by simp
qed

end
