(* ===== verification/Obj_Registry.thy ===== *)
theory Obj_Registry
  imports Obj_Index Der_Oid
begin

text \<open>
  The registry of objects, properties: what a lookup among the built-in objects finds, and what
  creating an object changes.
\<close>

section \<open>The four tables\<close>

interpretation nid_equality: hash_equality hash_nid cmp_nid
  by unfold_locales (auto simp: hash_nid_def cmp_nid_def)

interpretation data_equality: hash_equality hash_data OBJ_cmp
  by unfold_locales (auto simp: hash_data_def OBJ_cmp_zero)

interpretation short_name_equality: hash_equality hash_short_name cmp_short_name
  by unfold_locales (auto simp: hash_short_name_def cmp_short_name_def strcmp_zero strhash_cstr)

interpretation long_name_equality: hash_equality hash_long_name cmp_long_name
  by unfold_locales (auto simp: hash_long_name_def cmp_long_name_def strcmp_zero strhash_cstr)

interpretation nid_table: element_store "lh_usable alloc hash_nid cmp_nid" lh_map "key cmp_nid"
    OPENSSL_lh_retrieve "lh_put alloc" "lh_remove alloc" OPENSSL_lh_num_items for alloc
  by (rule lh_element_store)

interpretation data_table: element_store "lh_usable alloc hash_data OBJ_cmp" lh_map "key OBJ_cmp"
    OPENSSL_lh_retrieve "lh_put alloc" "lh_remove alloc" OPENSSL_lh_num_items for alloc
  by (rule lh_element_store)

interpretation short_name_table: element_store "lh_usable alloc hash_short_name cmp_short_name" lh_map
    "key cmp_short_name" OPENSSL_lh_retrieve "lh_put alloc" "lh_remove alloc" OPENSSL_lh_num_items for alloc
  by (rule lh_element_store)

interpretation long_name_table: element_store "lh_usable alloc hash_long_name cmp_long_name" lh_map
    "key cmp_long_name" OPENSSL_lh_retrieve "lh_put alloc" "lh_remove alloc" OPENSSL_lh_num_items for alloc
  by (rule lh_element_store)

section \<open>Built-in objects\<close>

definition builtin_named :: "(asn1_object \<Rightarrow> bytes option) \<Rightarrow> int \<Rightarrow> bytes \<Rightarrow> bool" where
  "builtin_named name nid s \<longleftrightarrow>
     0 < nid \<and> nid < NUM_NID \<and> map_option cstr (name (get_builtin_object nid)) = Some (cstr s)"

definition builtin_encoded :: "int \<Rightarrow> bytes \<Rightarrow> bool" where
  "builtin_encoded nid der \<longleftrightarrow>
     0 < nid \<and> nid < NUM_NID \<and> obj_data (get_builtin_object nid) = Some der"

lemma builtin_wf:
  assumes "0 < nid" and "nid < NUM_NID"
  shows "obj_length (get_builtin_object nid) = int (length (case obj_data (get_builtin_object nid) of None \<Rightarrow> [] | Some d \<Rightarrow> d))"
    and "obj_data (get_builtin_object nid) \<noteq> Some []"
    and "obj_bytes (get_builtin_object nid) = (case obj_data (get_builtin_object nid) of None \<Rightarrow> [] | Some d \<Rightarrow> d)"
proof -
  obtain n where n: "nid = int n" "0 < n" "n \<le> 964" using assms range_iff by blast
  have "slot_ok n (get_builtin_object nid)"
    using kObjects_slot [of n] n by (simp add: get_builtin_object_of object_of_def)
  then show "obj_length (get_builtin_object nid) = int (length (case obj_data (get_builtin_object nid) of None \<Rightarrow> [] | Some d \<Rightarrow> d))"
    and "obj_data (get_builtin_object nid) \<noteq> Some []"
    and "obj_bytes (get_builtin_object nid) = (case obj_data (get_builtin_object nid) of None \<Rightarrow> [] | Some d \<Rightarrow> d)"
    by (auto simp: slot_ok_def builtin_object_def unused_object_def obj_bytes_def map_nth split: if_splits)
qed

lemma short_names_matches: "short_names.matches nid s \<longleftrightarrow> builtin_named obj_sn nid s"
  by (auto simp: short_names.matches_def builtin_named_def has_sn_def)

lemma long_names_matches: "long_names.matches nid s \<longleftrightarrow> builtin_named obj_ln nid s"
  by (auto simp: long_names.matches_def builtin_named_def has_ln_def)

lemma template_bytes [simp]:
  "obj_bytes (template\<lparr>obj_data := Some d, obj_length := int (length d)\<rparr>) = d"
  by (simp add: template_def obj_bytes_given)

lemma template_nid [simp]: "obj_nid (template\<lparr>obj_data := a, obj_length := b\<rparr>) = 0"
  by (simp add: template_def)

lemma oids_matches:
  "oids.matches nid (template\<lparr>obj_data := Some d, obj_length := int (length d)\<rparr>) \<longleftrightarrow> builtin_encoded nid d"
proof (cases "0 < nid \<and> nid < NUM_NID")
  case True
  then show ?thesis using builtin_wf [of nid]
    by (auto simp: oids.matches_def builtin_encoded_def has_oid_def obj_key_def)
qed (auto simp: oids.matches_def builtin_encoded_def)

lemma find_added_start [simp]: "find_added None t = None"
  by (simp add: find_added_def)

text \<open>C25: lookups among the built-in objects. Before any object is added, \<open>OBJ_sn2nid\<close> and
  \<open>OBJ_ln2nid\<close> return the one number under which \<open>obj_dat.h\<close> has the name, \<open>NID_undef\<close> exactly when it
  has none, and \<open>OBJ_cbs2nid\<close> returns a number whose object has the encoding, \<open>NID_undef\<close> exactly when
  none has: the search by halves misses nothing in the generated index arrays.\<close>

theorem builtin_lookup_exact:
  "(OBJ_sn2nid obj_start s = nid \<longleftrightarrow>
      (if nid = NID_undef then \<forall>n. \<not> builtin_named obj_sn n s else builtin_named obj_sn nid s)) \<and>
   (OBJ_ln2nid obj_start s = nid \<longleftrightarrow>
      (if nid = NID_undef then \<forall>n. \<not> builtin_named obj_ln n s else builtin_named obj_ln nid s)) \<and>
   (if OBJ_cbs2nid obj_start der = NID_undef
    then length der > INT_MAX \<or> (\<forall>n. \<not> builtin_encoded n der)
    else builtin_encoded (OBJ_cbs2nid obj_start der) der)"
proof (intro conjI)
  show "OBJ_sn2nid obj_start s = nid \<longleftrightarrow>
      (if nid = NID_undef then \<forall>n. \<not> builtin_named obj_sn n s else builtin_named obj_sn nid s)"
    using short_names.search_unique [of s nid]
    by (simp add: OBJ_sn2nid_def obj_start_def short_names_matches sn_before_def)
  show "OBJ_ln2nid obj_start s = nid \<longleftrightarrow>
      (if nid = NID_undef then \<forall>n. \<not> builtin_named obj_ln n s else builtin_named obj_ln nid s)"
    using long_names.search_unique [of s nid]
    by (simp add: OBJ_ln2nid_def obj_start_def long_names_matches ln_before_def)
  show "if OBJ_cbs2nid obj_start der = NID_undef
    then length der > INT_MAX \<or> (\<forall>n. \<not> builtin_encoded n der)
    else builtin_encoded (OBJ_cbs2nid obj_start der) der"
    using oids.search_exact [of "template\<lparr>obj_data := Some der, obj_length := int (length der)\<rparr>"]
    unfolding oids_matches by (simp add: OBJ_cbs2nid_def OBJ_obj2nid_def obj_start_def CBS_len_def)
qed

section \<open>Creating an object\<close>

definition table_ok ::
  "(asn1_object \<Rightarrow> u32) \<Rightarrow> (asn1_object \<Rightarrow> asn1_object \<Rightarrow> int) \<Rightarrow> int \<Rightarrow> asn1_object lhash option \<Rightarrow> bool" where
  "table_ok hash cmp next table \<longleftrightarrow>
     (case table of None \<Rightarrow> True
      | Some lh \<Rightarrow> lh_with hash cmp lh \<and> (\<forall>obj \<in> ran (lh_map lh). NUM_NID \<le> obj_nid obj \<and> obj_nid obj < next))"

text \<open>What every sequence of calls keeps: well-formed tables, whose objects have numbers that were
  given out.\<close>

definition registry_ok :: "obj_globals \<Rightarrow> bool" where
  "registry_ok G \<longleftrightarrow>
     (let next = uint (global_next_nid G) in
      table_ok hash_nid cmp_nid next (global_added_by_nid G) \<and>
      table_ok hash_data OBJ_cmp next (global_added_by_data G) \<and>
      table_ok hash_short_name cmp_short_name next (global_added_by_short_name G) \<and>
      table_ok hash_long_name cmp_long_name next (global_added_by_long_name G) \<and>
      NUM_NID \<le> next \<and> next \<le> 2 ^ 31)"

lemma ensure_table_Some:
  assumes "hash_equality hash cmp" and "table_ok hash cmp next table" and "ensure_table alloc hash cmp table = Some lh"
  shows "table_ok hash cmp next (Some lh)" and "OPENSSL_lh_retrieve lh t = find_added table t"
proof -
  have "table_ok hash cmp next (Some lh) \<and> OPENSSL_lh_retrieve lh t = find_added table t"
  proof (cases table)
    case None
    then have "lh_ok lh \<and> lh_map lh = Map.empty \<and> lh_comp lh = cmp \<and> lh_hash lh = hash"
      using lh_new_ok [OF assms(1)] assms(3) by (simp add: ensure_table_def)
    then show ?thesis using None by (simp add: table_ok_def lh_with_def lh_retrieve_map)
  next
    case (Some a)
    then show ?thesis using assms by (simp add: ensure_table_def find_added_def)
  qed
  then show "table_ok hash cmp next (Some lh)" and "OPENSSL_lh_retrieve lh t = find_added table t" by auto
qed

lemma add_to_table_ok:
  assumes "table_ok hash cmp next (Some lh)" and "NUM_NID \<le> obj_nid obj" and "obj_nid obj < next"
  shows "table_ok hash cmp next (Some (snd (add_to_table alloc b obj lh)))"
proof -
  obtain ok old lh' where i: "OPENSSL_lh_insert alloc lh obj = (ok, old, lh')" by (rule prod_cases3)
  have "lh_ok lh" using assms(1) by (simp add: table_ok_def lh_with_def)
  note c = lh_insert_cases [OF this i]
  show ?thesis
  proof (cases "b \<and> ok")
    case True
    have "ran ((lh_map lh)(key cmp obj \<mapsto> obj)) \<subseteq> insert obj (ran (lh_map lh))" by (auto simp: ran_def)
    then show ?thesis using True c assms by (auto simp: table_ok_def add_to_table_def i lh_with_def)
  next
    case False
    then show ?thesis using c assms(1) by (auto simp: add_to_table_def i)
  qed
qed

lemma add_to_table_usable:
  "lh_usable alloc hash cmp lh \<Longrightarrow>
     add_to_table alloc b obj lh = (True, if b then lh_put alloc obj lh else lh)"
  by (simp add: add_to_table_def lh_put_succeeds)

text \<open>An object that no one registered before under its number, added with success.\<close>

definition registered :: "asn1_object \<Rightarrow> asn1_object" where
  "registered obj = obj\<lparr>obj_flags := obj_flags obj AND NOT ASN1_OBJECT_FLAG_ALL\<rparr>"

lemma registered_simps [simp]:
  "obj_nid (registered obj) = obj_nid obj" "obj_sn (registered obj) = obj_sn obj"
  "obj_ln (registered obj) = obj_ln obj" "obj_data (registered obj) = obj_data obj"
  "obj_length (registered obj) = obj_length obj" "obj_bytes (registered obj) = obj_bytes obj"
  by (simp_all add: registered_def obj_bytes_def)

abbreviation has_data :: "asn1_object \<Rightarrow> bool" where
  "has_data obj \<equiv> obj_length obj \<noteq> 0 \<and> obj_data obj \<noteq> None"

lemma obj_add_object_split:
  assumes "obj_add_object alloc obj G = (ok, G')"
  obtains (tables) n d s l where
    "ensure_table alloc hash_nid cmp_nid (global_added_by_nid G) = Some n"
    "ensure_table alloc hash_data OBJ_cmp (global_added_by_data G) = Some d"
    "ensure_table alloc hash_short_name cmp_short_name (global_added_by_short_name G) = Some s"
    "ensure_table alloc hash_long_name cmp_long_name (global_added_by_long_name G) = Some l"
    "ok \<longleftrightarrow> fst (add_to_table alloc True (registered obj) n) \<and>
       fst (add_to_table alloc (has_data obj) (registered obj) d) \<and>
       fst (add_to_table alloc (obj_sn obj \<noteq> None) (registered obj) s) \<and>
       fst (add_to_table alloc (obj_ln obj \<noteq> None) (registered obj) l)"
    "G' = G\<lparr>global_added_by_nid := Some (snd (add_to_table alloc True (registered obj) n)),
       global_added_by_data := Some (snd (add_to_table alloc (has_data obj) (registered obj) d)),
       global_added_by_short_name := Some (snd (add_to_table alloc (obj_sn obj \<noteq> None) (registered obj) s)),
       global_added_by_long_name := Some (snd (add_to_table alloc (obj_ln obj \<noteq> None) (registered obj) l))\<rparr>"
  | (no_memory) "\<not> ok"
    "ensure_table alloc hash_nid cmp_nid (global_added_by_nid G) = None \<or>
     ensure_table alloc hash_data OBJ_cmp (global_added_by_data G) = None \<or>
     ensure_table alloc hash_short_name cmp_short_name (global_added_by_short_name G) = None \<or>
     ensure_table alloc hash_long_name cmp_long_name (global_added_by_long_name G) = None"
    "G' = G\<lparr>global_added_by_nid := ensure_table alloc hash_nid cmp_nid (global_added_by_nid G),
       global_added_by_data := ensure_table alloc hash_data OBJ_cmp (global_added_by_data G),
       global_added_by_short_name := ensure_table alloc hash_short_name cmp_short_name (global_added_by_short_name G),
       global_added_by_long_name := ensure_table alloc hash_long_name cmp_long_name (global_added_by_long_name G)\<rparr>"
proof -
  let ?n = "ensure_table alloc hash_nid cmp_nid (global_added_by_nid G)"
  let ?d = "ensure_table alloc hash_data OBJ_cmp (global_added_by_data G)"
  let ?s = "ensure_table alloc hash_short_name cmp_short_name (global_added_by_short_name G)"
  let ?l = "ensure_table alloc hash_long_name cmp_long_name (global_added_by_long_name G)"
  show thesis
  proof (cases "?n = None \<or> ?d = None \<or> ?s = None \<or> ?l = None")
    case True
    then show thesis using assms
      by (intro no_memory) (auto simp: obj_add_object_def Let_def split: option.splits)
  next
    case False
    then obtain n d s l where t: "?n = Some n" "?d = Some d" "?s = Some s" "?l = Some l" by auto
    have "(ok, G') = (fst (add_to_table alloc True (registered obj) n) \<and>
         fst (add_to_table alloc (has_data obj) (registered obj) d) \<and>
         fst (add_to_table alloc (obj_sn obj \<noteq> None) (registered obj) s) \<and>
         fst (add_to_table alloc (obj_ln obj \<noteq> None) (registered obj) l),
      G\<lparr>global_added_by_nid := Some (snd (add_to_table alloc True (registered obj) n)),
         global_added_by_data := Some (snd (add_to_table alloc (has_data obj) (registered obj) d)),
         global_added_by_short_name := Some (snd (add_to_table alloc (obj_sn obj \<noteq> None) (registered obj) s)),
         global_added_by_long_name := Some (snd (add_to_table alloc (obj_ln obj \<noteq> None) (registered obj) l))\<rparr>)"
      unfolding assms [symmetric] obj_add_object_def registered_def by (simp add: t Let_def case_prod_beta)
    then show thesis by (intro tables [OF t]) simp_all
  qed
qed

lemma ensure_table_ok:
  "hash_equality hash cmp \<Longrightarrow> table_ok hash cmp next table \<Longrightarrow> table_ok hash cmp next (ensure_table alloc hash cmp table)"
  using ensure_table_Some(1) [of hash cmp "next" table alloc]
  by (cases "ensure_table alloc hash cmp table") (auto simp: table_ok_def)

lemma obj_add_object_keeps:
  assumes add: "obj_add_object alloc obj G = (ok, G')" and G: "registry_ok G"
    and nid: "NUM_NID \<le> obj_nid obj" "obj_nid obj < uint (global_next_nid G)"
  shows "registry_ok G'"
  using add
proof (cases rule: obj_add_object_split)
  case (tables n d s l)
  from G have "table_ok hash_nid cmp_nid (uint (global_next_nid G)) (Some n)"
    "table_ok hash_data OBJ_cmp (uint (global_next_nid G)) (Some d)"
    "table_ok hash_short_name cmp_short_name (uint (global_next_nid G)) (Some s)"
    "table_ok hash_long_name cmp_long_name (uint (global_next_nid G)) (Some l)"
    unfolding registry_ok_def Let_def
    using ensure_table_Some(1) [OF nid_equality.hash_equality_axioms _ tables(1)]
      ensure_table_Some(1) [OF data_equality.hash_equality_axioms _ tables(2)]
      ensure_table_Some(1) [OF short_name_equality.hash_equality_axioms _ tables(3)]
      ensure_table_Some(1) [OF long_name_equality.hash_equality_axioms _ tables(4)] by blast+
  then show ?thesis using G nid
    unfolding registry_ok_def Let_def tables(6) by (simp add: add_to_table_ok)
next
  case no_memory
  then show ?thesis using G
    by (simp add: registry_ok_def Let_def ensure_table_ok nid_equality.hash_equality_axioms
        data_equality.hash_equality_axioms short_name_equality.hash_equality_axioms
        long_name_equality.hash_equality_axioms)
qed

lemma lh_map_key: "lh_map lh k = Some e \<Longrightarrow> key (lh_comp lh) e = k"
  by (auto simp: lh_map_def pairs_def dest!: map_of_SomeD)

lemma fresh_nid:
  assumes "table_ok hash_nid cmp_nid (obj_nid obj) (Some lh)"
  shows "OPENSSL_lh_retrieve lh obj = None"
proof (rule ccontr)
  assume "OPENSSL_lh_retrieve lh obj \<noteq> None"
  then obtain e where "lh_map lh (key cmp_nid obj) = Some e"
    using assms by (auto simp: table_ok_def lh_with_def lh_retrieve_map)
  moreover from this have "key cmp_nid e = key cmp_nid obj"
    using assms lh_map_key by (fastforce simp: table_ok_def lh_with_def)
  ultimately show False
    using assms by (auto simp: table_ok_def nid_equality.key_eq_iff cmp_nid_def ran_def)
qed

lemma add_fresh_needs_memory:
  assumes "table_ok hash_nid cmp_nid (obj_nid obj) (Some lh)" and "fst (add_to_table alloc True obj lh)"
  shows "alloc sizeof_item"
proof -
  obtain ok old lh' where i: "OPENSSL_lh_insert alloc lh obj = (ok, old, lh')" by (rule prod_cases3)
  have "lh_ok lh" using assms(1) by (simp add: table_ok_def lh_with_def)
  from lh_insert_cases [OF this i] assms(2) fresh_nid [OF assms(1)] show ?thesis
    by (simp add: add_to_table_def i)
qed

lemma obj_add_object_updates:
  assumes add: "obj_add_object alloc obj G = (True, G')"
    and G: "table_ok hash_nid cmp_nid (obj_nid obj) (global_added_by_nid G)"
      "table_ok hash_data OBJ_cmp (obj_nid obj) (global_added_by_data G)"
      "table_ok hash_short_name cmp_short_name (obj_nid obj) (global_added_by_short_name G)"
      "table_ok hash_long_name cmp_long_name (obj_nid obj) (global_added_by_long_name G)"
  shows "find_added (global_added_by_nid G') t =
      (if cmp_nid t (registered obj) = 0 then Some (registered obj) else find_added (global_added_by_nid G) t)"
    and "find_added (global_added_by_data G') t =
      (if has_data obj \<and> OBJ_cmp t (registered obj) = 0 then Some (registered obj)
       else find_added (global_added_by_data G) t)"
    and "find_added (global_added_by_short_name G') t =
      (if obj_sn obj \<noteq> None \<and> cmp_short_name t (registered obj) = 0 then Some (registered obj)
       else find_added (global_added_by_short_name G) t)"
    and "find_added (global_added_by_long_name G') t =
      (if obj_ln obj \<noteq> None \<and> cmp_long_name t (registered obj) = 0 then Some (registered obj)
       else find_added (global_added_by_long_name G) t)"
proof -
  from add obtain n d s l where tables:
    "ensure_table alloc hash_nid cmp_nid (global_added_by_nid G) = Some n"
    "ensure_table alloc hash_data OBJ_cmp (global_added_by_data G) = Some d"
    "ensure_table alloc hash_short_name cmp_short_name (global_added_by_short_name G) = Some s"
    "ensure_table alloc hash_long_name cmp_long_name (global_added_by_long_name G) = Some l"
    and ok: "fst (add_to_table alloc True (registered obj) n)"
    and G': "G' = G\<lparr>global_added_by_nid := Some (snd (add_to_table alloc True (registered obj) n)),
       global_added_by_data := Some (snd (add_to_table alloc (has_data obj) (registered obj) d)),
       global_added_by_short_name := Some (snd (add_to_table alloc (obj_sn obj \<noteq> None) (registered obj) s)),
       global_added_by_long_name := Some (snd (add_to_table alloc (obj_ln obj \<noteq> None) (registered obj) l))\<rparr>"
    by (cases rule: obj_add_object_split) auto
  note n = ensure_table_Some [OF nid_equality.hash_equality_axioms G(1) tables(1)]
  note d = ensure_table_Some [OF data_equality.hash_equality_axioms G(2) tables(2)]
  note s = ensure_table_Some [OF short_name_equality.hash_equality_axioms G(3) tables(3)]
  note l = ensure_table_Some [OF long_name_equality.hash_equality_axioms G(4) tables(4)]
  have "alloc sizeof_item" using add_fresh_needs_memory [of "registered obj"] n(1) ok by simp
  then have usable: "lh_usable alloc hash_nid cmp_nid n" "lh_usable alloc hash_data OBJ_cmp d"
    "lh_usable alloc hash_short_name cmp_short_name s" "lh_usable alloc hash_long_name cmp_long_name l"
    using n(1) d(1) s(1) l(1) by (simp_all add: lh_usable_def table_ok_def)
  show "find_added (global_added_by_nid G') t =
      (if cmp_nid t (registered obj) = 0 then Some (registered obj) else find_added (global_added_by_nid G) t)"
    by (simp add: G' find_added_def [of "Some _"] add_to_table_usable [OF usable(1)] n(2)
        nid_table.retrieve_insert [OF usable(1)] nid_equality.key_eq_iff)
  show "find_added (global_added_by_data G') t =
      (if has_data obj \<and> OBJ_cmp t (registered obj) = 0 then Some (registered obj)
       else find_added (global_added_by_data G) t)"
    by (simp add: G' find_added_def [of "Some _"] add_to_table_usable [OF usable(2)] d(2)
        data_table.retrieve_insert [OF usable(2)] data_equality.key_eq_iff)
  show "find_added (global_added_by_short_name G') t =
      (if obj_sn obj \<noteq> None \<and> cmp_short_name t (registered obj) = 0 then Some (registered obj)
       else find_added (global_added_by_short_name G) t)"
    by (simp add: G' find_added_def [of "Some _"] add_to_table_usable [OF usable(3)] s(2)
        short_name_table.retrieve_insert [OF usable(3)] short_name_equality.key_eq_iff)
  show "find_added (global_added_by_long_name G') t =
      (if obj_ln obj \<noteq> None \<and> cmp_long_name t (registered obj) = 0 then Some (registered obj)
       else find_added (global_added_by_long_name G) t)"
    by (simp add: G' find_added_def [of "Some _"] add_to_table_usable [OF usable(4)] l(2)
        long_name_table.retrieve_insert [OF usable(4)] long_name_equality.key_eq_iff)
qed

lemma obj_next_nid_small:
  assumes "uint (global_next_nid G) < 2 ^ 31"
  shows "obj_next_nid G = (uint (global_next_nid G), G\<lparr>global_next_nid := global_next_nid G + 1\<rparr>)"
    and "uint (global_next_nid G + 1) = uint (global_next_nid G) + 1"
proof -
  have "sint (global_next_nid G) = uint (global_next_nid G)"
    using assms signed_take_bit_int_eq_self [of 31 "uint (global_next_nid G)"]
      order_trans [of "- 2147483648" 0 "uint (global_next_nid G)"]
    by (simp add: sint_uint)
  then show "obj_next_nid G = (uint (global_next_nid G), G\<lparr>global_next_nid := global_next_nid G + 1\<rparr>)"
    by (simp add: obj_next_nid_def)
  show "uint (global_next_nid G + 1) = uint (global_next_nid G) + 1"
    using assms uint_add_lem [of "global_next_nid G" 1] by simp
qed

lemma table_ok_mono: "table_ok hash cmp m table \<Longrightarrow> m \<le> n \<Longrightarrow> table_ok hash cmp n table"
  by (fastforce simp: table_ok_def split: option.splits)

lemma OBJ_create_split:
  assumes "registry_ok G" and "uint (global_next_nid G) < 2 ^ 31" and "OBJ_create env oid sn ln G = (nid, G')"
  obtains (added) der op ok where
    "build env 32 (\<lambda>env. CBB_add_asn1_oid_from_text env 0 (cstr oid)) = Some der"
    "ASN1_OBJECT_create (alloc_ok env) (uint (global_next_nid G)) der sn ln = Some op"
    "obj_add_object (alloc_ok env) op (G\<lparr>global_next_nid := global_next_nid G + 1\<rparr>) = (ok, G')"
    "nid = (if ok then uint (global_next_nid G) else NID_undef)"
  | (failed) "nid = NID_undef" "G' = G \<or> G' = G\<lparr>global_next_nid := global_next_nid G + 1\<rparr>"
proof (cases "build env 32 (\<lambda>env. CBB_add_asn1_oid_from_text env 0 (cstr oid))")
  case None
  then show thesis using assms(3) by (intro failed) (simp_all add: OBJ_create_def create_object_with_text_oid_def)
next
  case (Some der)
  show thesis
  proof (cases "ASN1_OBJECT_create (alloc_ok env) (uint (global_next_nid G)) der sn ln")
    case None
    then show thesis using Some assms(3)
      by (intro failed) (simp_all add: OBJ_create_def create_object_with_text_oid_def obj_next_nid_small [OF assms(2)])
  next
    case op: (Some op)
    obtain ok G2 where a: "obj_add_object (alloc_ok env) op (G\<lparr>global_next_nid := global_next_nid G + 1\<rparr>) = (ok, G2)"
      by (rule prod.exhaust)
    have "obj_nid op = uint (global_next_nid G)" using ASN1_OBJECT_create_Some [OF op] by simp
    then show thesis using Some op a assms(3)
      by (intro added [OF Some op, of ok])
        (simp_all add: OBJ_create_def create_object_with_text_oid_def obj_next_nid_small [OF assms(2)] split: if_splits)
  qed
qed

lemma OBJ_create_keeps:
  assumes "registry_ok G" and "uint (global_next_nid G) < 2 ^ 31" and "OBJ_create env oid sn ln G = (nid, G')"
  shows "registry_ok G'"
proof -
  let ?G = "G\<lparr>global_next_nid := global_next_nid G + 1\<rparr>"
  have ok: "registry_ok ?G"
    using assms(1,2) unfolding registry_ok_def Let_def
    by (auto simp: obj_next_nid_small(2) intro: table_ok_mono)
  from assms show ?thesis
  proof (cases rule: OBJ_create_split)
    case (added der op b)
    have "NUM_NID \<le> obj_nid op" "obj_nid op < uint (global_next_nid ?G)"
      using ASN1_OBJECT_create_Some [OF added(2)] assms(1,2)
      by (simp_all add: registry_ok_def Let_def obj_next_nid_small(2))
    then show ?thesis by (rule obj_add_object_keeps [OF added(3) ok])
  next
    case failed
    then show ?thesis using ok assms(1) by auto
  qed
qed

lemma template_simps [simp]:
  "obj_nid (template\<lparr>obj_nid := n\<rparr>) = n"
  "obj_sn (template\<lparr>obj_sn := s\<rparr>) = s"
  "obj_ln (template\<lparr>obj_ln := s\<rparr>) = s"
  by (simp_all add: template_def)

text \<open>C26: creating an object. When \<open>OBJ_create\<close> returns a number, it is the next free one; the text was
  an object identifier; from then on that number, the encoding of the identifier and each name that was
  given lead to the new object, and every other lookup, by number, encoding, short or long name,
  gives what it gave before. The registry stays well-formed.\<close>

theorem obj_create_registers:
  assumes "registry_ok G" and "uint (global_next_nid G) < 2 ^ 31"
    and "OBJ_create env oid sn ln G = (nid, G')" and "nid \<noteq> NID_undef"
  shows "registry_ok G' \<and> nid = uint (global_next_nid G) \<and>
    (\<exists>a b as. valid_arcs a b \<and> cstr oid = dotted a b as \<and>
      OBJ_nid2obj G' = (OBJ_nid2obj G)(nid \<mapsto>
        \<lparr>obj_sn = map_option cstr sn, obj_ln = map_option cstr ln, obj_nid = nid,
         obj_length = int (length (oid_contents a b as)), obj_data = Some (oid_contents a b as), obj_flags = 0\<rparr>) \<and>
      OBJ_cbs2nid G' = (OBJ_cbs2nid G)(oid_contents a b as := nid) \<and>
      OBJ_sn2nid G' = (\<lambda>s. if map_option cstr sn = Some (cstr s) then nid else OBJ_sn2nid G s) \<and>
      OBJ_ln2nid G' = (\<lambda>s. if map_option cstr ln = Some (cstr s) then nid else OBJ_ln2nid G s))"
proof -
  from assms(1,2,3) obtain der op where
    der: "build env 32 (\<lambda>env. CBB_add_asn1_oid_from_text env 0 (cstr oid)) = Some der"
    and op: "ASN1_OBJECT_create (alloc_ok env) (uint (global_next_nid G)) der sn ln = Some op"
    and add: "obj_add_object (alloc_ok env) op (G\<lparr>global_next_nid := global_next_nid G + 1\<rparr>) = (True, G')"
    and nid: "nid = uint (global_next_nid G)"
    by (cases rule: OBJ_create_split) (use assms(4) in \<open>auto split: if_splits\<close>)
  obtain a b "as" where oid: "valid_arcs a b" "cstr oid = dotted a b as" "der = oid_contents a b as"
    using oid_build_contents [OF der] by (auto simp: SIZE_MAX_def)
  have len: "der \<noteq> []" "length der \<le> INT_MAX"
    using oid(3) ASN1_OBJECT_create_Some [OF op] by (simp_all add: oid_contents_def)
  define r where "r = \<lparr>obj_sn = map_option cstr sn, obj_ln = map_option cstr ln, obj_nid = nid,
    obj_length = int (length der), obj_data = Some der, obj_flags = 0\<rparr>"
  have o: "op = \<lparr>obj_sn = map_option cstr sn, obj_ln = map_option cstr ln, obj_nid = nid,
    obj_length = int (length der), obj_data = Some der, obj_flags = ASN1_OBJECT_FLAG_ALL\<rparr>"
    using ASN1_OBJECT_create_Some [OF op] len nid by simp
  have r: "registered op = r" by (simp add: o r_def registered_def)
  have big: "NUM_NID \<le> nid" using assms(1) nid by (simp add: registry_ok_def Let_def)
  then have "NID_undef < nid" by (simp add: NUM_NID_def NID_undef_def)
  have rb: "obj_bytes r = der" by (simp add: r_def obj_bytes_given)
  let ?G = "G\<lparr>global_next_nid := global_next_nid G + 1\<rparr>"
  have "table_ok hash_nid cmp_nid (obj_nid op) (global_added_by_nid ?G)"
    "table_ok hash_data OBJ_cmp (obj_nid op) (global_added_by_data ?G)"
    "table_ok hash_short_name cmp_short_name (obj_nid op) (global_added_by_short_name ?G)"
    "table_ok hash_long_name cmp_long_name (obj_nid op) (global_added_by_long_name ?G)"
    using assms(1) by (simp_all add: registry_ok_def Let_def o nid)
  note upd = obj_add_object_updates [OF add this, unfolded r, simplified]
  have "OBJ_nid2obj G' n = ((OBJ_nid2obj G)(nid \<mapsto> r)) n" for n
    using big by (auto simp: OBJ_nid2obj_def upd(1) cmp_nid_def r_def NUM_NID_def NID_undef_def)
  then have 1: "OBJ_nid2obj G' = (OBJ_nid2obj G)(nid \<mapsto> r)" by blast
  have "OBJ_cbs2nid G' d = ((OBJ_cbs2nid G)(der := nid)) d" for d
    using len by (auto simp: OBJ_cbs2nid_def OBJ_obj2nid_def upd(2) OBJ_cmp_zero rb o CBS_len_def)
      (auto simp: r_def template_def)
  then have 2: "OBJ_cbs2nid G' = (OBJ_cbs2nid G)(der := nid)" by blast
  have "OBJ_sn2nid G' s = (if map_option cstr sn = Some (cstr s) then nid else OBJ_sn2nid G s)" for s
    by (auto simp: OBJ_sn2nid_def upd(3) cmp_short_name_def strcmp_zero o r_def split: option.split)
  then have 3: "OBJ_sn2nid G' = (\<lambda>s. if map_option cstr sn = Some (cstr s) then nid else OBJ_sn2nid G s)" by blast
  have "OBJ_ln2nid G' s = (if map_option cstr ln = Some (cstr s) then nid else OBJ_ln2nid G s)" for s
    by (auto simp: OBJ_ln2nid_def upd(4) cmp_long_name_def strcmp_zero o r_def split: option.split)
  then have 4: "OBJ_ln2nid G' = (\<lambda>s. if map_option cstr ln = Some (cstr s) then nid else OBJ_ln2nid G s)" by blast
  show ?thesis
    by (intro conjI, rule OBJ_create_keeps [OF assms(1-3)], rule nid, rule exI [of _ a], rule exI [of _ b],
        rule exI [of _ "as"], intro conjI)
      (rule oid(1), rule oid(2), rule 1 [unfolded r_def oid(3)], rule 2 [unfolded oid(3)], rule 3, rule 4)
qed

text \<open>With memory, creation succeeds on every identifier that is not too long.\<close>

lemma ensure_table_total: "(\<And>n. alloc n) \<Longrightarrow> ensure_table alloc hash cmp table \<noteq> None"
  by (simp add: ensure_table_def OPENSSL_lh_new_def split: option.splits)

lemma obj_add_object_total:
  assumes "\<And>n. alloc n" and "registry_ok G"
  shows "fst (obj_add_object alloc obj G)"
proof -
  obtain ok G' where add: "obj_add_object alloc obj G = (ok, G')" by (rule prod.exhaust)
  then have "ok"
  proof (cases rule: obj_add_object_split)
    case (tables n d s l)
    from assms have "lh_usable alloc hash_nid cmp_nid n" "lh_usable alloc hash_data OBJ_cmp d"
      "lh_usable alloc hash_short_name cmp_short_name s" "lh_usable alloc hash_long_name cmp_long_name l"
      unfolding registry_ok_def Let_def lh_usable_def
      using ensure_table_Some(1) [OF nid_equality.hash_equality_axioms _ tables(1)]
        ensure_table_Some(1) [OF data_equality.hash_equality_axioms _ tables(2)]
        ensure_table_Some(1) [OF short_name_equality.hash_equality_axioms _ tables(3)]
        ensure_table_Some(1) [OF long_name_equality.hash_equality_axioms _ tables(4)]
      by (fastforce simp: table_ok_def)+
    then show ?thesis by (simp add: tables(5) add_to_table_usable)
  next
    case no_memory
    then show ?thesis using ensure_table_total [of alloc] assms(1) by blast
  qed
  then show ?thesis by (simp add: add)
qed

lemma OBJ_create_total:
  assumes "\<And>n. alloc_ok env n" and "registry_ok G" and "uint (global_next_nid G) < 2 ^ 31"
    and "valid_arcs a b" and "cstr oid = dotted a b as" and "length (oid_contents a b as) \<le> INT_MAX"
  shows "fst (OBJ_create env oid sn ln G) \<noteq> NID_undef"
proof -
  have len: "length (oid_contents a b as) \<le> SIZE_MAX" using assms(6) by (simp add: INT_MAX_def SIZE_MAX_def)
  have der: "build env 32 (\<lambda>env. CBB_add_asn1_oid_from_text env 0 (cstr oid)) = Some (oid_contents a b as)"
    using build_exact(2) [OF oid_from_text_appender [OF assms(4), of 0 "as"], of 32 env] assms(1,5) len
    by (simp add: SIZE_MAX_def)
  have "ASN1_OBJECT_create (alloc_ok env) (uint (global_next_nid G)) (oid_contents a b as) sn ln \<noteq> None"
    by (rule ASN1_OBJECT_create_total) (use assms in simp_all)
  then obtain op where
    op: "ASN1_OBJECT_create (alloc_ok env) (uint (global_next_nid G)) (oid_contents a b as) sn ln = Some op"
    by auto
  let ?G = "G\<lparr>global_next_nid := global_next_nid G + 1\<rparr>"
  have "registry_ok ?G"
    using assms(2,3) unfolding registry_ok_def Let_def
    by (auto simp: obj_next_nid_small(2) intro: table_ok_mono)
  then obtain G' where "obj_add_object (alloc_ok env) op ?G = (True, G')"
    using obj_add_object_total [of "alloc_ok env" ?G op] assms(1)
    by (cases "obj_add_object (alloc_ok env) op ?G") auto
  moreover have "obj_nid op = uint (global_next_nid G)" using ASN1_OBJECT_create_Some [OF op] by simp
  ultimately show ?thesis
    using assms(2,3) der op
    by (simp add: OBJ_create_def create_object_with_text_oid_def obj_next_nid_small(1) registry_ok_def Let_def
        NUM_NID_def NID_undef_def)
qed

lemma registry_ok_start: "registry_ok obj_start"
  by (simp add: registry_ok_def obj_start_def table_ok_def NUM_NID_def)

lemma obj_create_registers_witness:
  "OBJ_sn2nid (snd (OBJ_create \<lparr>alloc_ok = \<lambda>_. True, uninit = \<lambda>_. 0\<rparr> [0x31, 0x2e, 0x32, 0x2e, 0x38, 0x34, 0x30]
     (Some [0x78]) None obj_start)) [0x78] = 965"
proof -
  let ?e = "\<lparr>alloc_ok = \<lambda>_. True, uninit = \<lambda>_. 0\<rparr>"
  let ?c = "OBJ_create ?e [0x31, 0x2e, 0x32, 0x2e, 0x38, 0x34, 0x30] (Some [0x78]) None obj_start"
  have o: "oid_contents 1 2 [840] = [0x2a, 0x86, 0x48]" by code_simp
  have t: "dotted 1 2 [840] = [0x31, 0x2e, 0x32, 0x2e, 0x38, 0x34, 0x30]" by code_simp
  have n: "uint (global_next_nid obj_start) = 965" by (simp add: obj_start_def)
  have "fst ?c \<noteq> NID_undef"
    by (rule OBJ_create_total [of _ _ 1 2 _ "[840]"]) (simp_all add: registry_ok_start n t o valid_arcs_def INT_MAX_def)
  from obj_create_registers [OF registry_ok_start _ surjective_pairing this] n show ?thesis by auto
qed

end
