(* ===== verification/Obj_Convert.thy ===== *)
theory Obj_Convert
  imports Obj_Registry
begin

text \<open>
  Objects, properties: the conversions between objects and text, and between objects and DER.
\<close>

section \<open>Objects and text\<close>

lemma strlcpy_rest: "drop dst_size (fst (OPENSSL_strlcpy dst src dst_size)) = drop dst_size dst"
proof (cases "dst_size = 0")
  case False
  define k where "k = min (dst_size - 1) (strlen src)"
  have "length (take (dst_size - 1) (cstr src)) = k" by (simp add: k_def strlen_def)
  moreover have "Suc k \<le> dst_size" using False by (simp add: k_def)
  moreover from this have "dst_size = Suc (k + (dst_size - Suc k))" by simp
  ultimately have "drop dst_size ((take (dst_size - 1) (cstr src) @ [0]) @ drop (Suc k) dst) = drop dst_size dst"
    by (simp only: drop_append length_append list.size drop_drop) simp
  then show ?thesis using False by (simp add: strlcpy_eq k_def)
qed (simp add: strlcpy_eq)

lemma strlcpy_int_eq:
  "0 \<le> n \<Longrightarrow> strlen s \<le> INT_MAX \<Longrightarrow>
     strlcpy_int out s n = (fst (OPENSSL_strlcpy out s (nat n)), int (strlen s))"
  by (simp add: strlcpy_int_def strlcpy_eq)

lemma OBJ_txt2obj_numeric:
  assumes "OBJ_txt2obj env G s True = Some obj"
  shows "\<exists>a b as. valid_arcs a b \<and> cstr s = dotted a b as \<and>
    obj = \<lparr>obj_sn = None, obj_ln = None, obj_nid = NID_undef, obj_length = int (length (oid_contents a b as)),
           obj_data = Some (oid_contents a b as), obj_flags = ASN1_OBJECT_FLAG_ALL\<rparr>"
proof -
  from assms obtain der where
    der: "build env 32 (\<lambda>env. CBB_add_asn1_oid_from_text env 0 (cstr s)) = Some der"
    and obj: "ASN1_OBJECT_create (alloc_ok env) NID_undef der None None = Some obj"
    by (auto simp: OBJ_txt2obj_def create_object_with_text_oid_def split: option.splits)
  obtain a b "as" where "valid_arcs a b" "cstr s = dotted a b as" "der = oid_contents a b as"
    using oid_build_contents [OF der] by (auto simp: SIZE_MAX_def)
  moreover from this have "der \<noteq> []" by (simp add: oid_contents_def)
  ultimately show ?thesis using ASN1_OBJECT_create_Some [OF obj] by auto
qed

text \<open>What a call leaves at \<open>out\<close> and returns when it writes a text: the text, cut to the size of the
  buffer and terminated in it, nothing behind the buffer touched, and the length of the whole text.\<close>

definition text_written :: "bytes \<Rightarrow> int \<Rightarrow> bytes \<Rightarrow> bytes \<times> int \<Rightarrow> bool" where
  "text_written out out_len t r \<longleftrightarrow>
     snd r = int (length t) \<and> cstr (fst r) = take (nat out_len - 1) t \<and> length (fst r) = length out \<and>
     drop (nat out_len) (fst r) = drop (nat out_len) out"

lemma strlcpy_int_written:
  assumes "strlen t \<le> INT_MAX" and "0 < out_len" and "nat out_len \<le> length out"
  shows "text_written out out_len (cstr t) (strlcpy_int out t out_len)"
  using assms strlcpy_string [of "nat out_len" out t] strlcpy_length [of "nat out_len" out t]
    strlcpy_rest [of "nat out_len" out t]
  by (simp add: text_written_def strlcpy_int_eq) (simp add: strlen_def)

text \<open>The name that a registry has for a number: the long one, or else the short one.\<close>

definition name_of :: "obj_globals \<Rightarrow> int \<Rightarrow> bytes option" where
  "name_of H nid = (case OBJ_nid2ln H nid of None \<Rightarrow> OBJ_nid2sn H nid | Some name \<Rightarrow> Some name)"

lemma OBJ_txt2obj_no_name:
  assumes "dont \<or> OBJ_sn2nid G s = NID_undef \<and> OBJ_ln2nid G s = NID_undef"
  shows "OBJ_txt2obj env G s dont = OBJ_txt2obj env G s True"
  using assms by (auto simp: OBJ_txt2obj_def)

lemma OBJ_txt2obj_cstr: "cstr s = cstr t \<Longrightarrow> OBJ_txt2obj env G s True = OBJ_txt2obj env G t True"
  by (simp add: OBJ_txt2obj_def create_object_with_text_oid_def)

text \<open>C27: text to object and back. Let \<open>OBJ_txt2obj\<close> make an object of a text, with
  \<open>dont_search_names\<close> or with a text that is no name of the registry. \<open>OBJ_obj2txt\<close>, with any registry,
  then writes one of two texts. With \<open>always_return_oid\<close>, or when the registry has no number or no name
  for the object, it is the text that was read, and where the buffer holds the whole of it
  reading it again gives the same object. Else it is the name that the registry has for the
  object, the long one if there is one. In both cases the text is cut to the size of the buffer and
  terminated in it, the length of the whole text is returned and nothing behind the buffer is
  touched.\<close>

theorem obj_text_roundtrip:
  assumes "\<forall>k \<le> SIZE_MAX. alloc_ok env k" and "OBJ_txt2obj env G s dont = Some obj"
    and "dont \<or> OBJ_sn2nid G s = NID_undef \<and> OBJ_ln2nid G s = NID_undef"
    and "strlen s \<le> INT_MAX" and "0 < out_len" and "nat out_len \<le> length out"
    and "name = (if always \<or> OBJ_obj2nid H (Some obj) = NID_undef then None else name_of H (OBJ_obj2nid H (Some obj)))"
  shows "case name of
      None \<Rightarrow> text_written out out_len (cstr s) (OBJ_obj2txt env H out out_len (Some obj) always) \<and>
        (strlen s < nat out_len \<longrightarrow>
           OBJ_txt2obj env G (fst (OBJ_obj2txt env H out out_len (Some obj) always)) True = Some obj)
    | Some t \<Rightarrow> strlen t \<le> INT_MAX \<longrightarrow>
        text_written out out_len (cstr t) (OBJ_obj2txt env H out out_len (Some obj) always)"
proof -
  have obj: "OBJ_txt2obj env G s True = Some obj" using assms(2) OBJ_txt2obj_no_name [OF assms(3)] by simp
  obtain a b "as" where o: "valid_arcs a b" "cstr s = dotted a b as"
    "obj = \<lparr>obj_sn = None, obj_ln = None, obj_nid = NID_undef, obj_length = int (length (oid_contents a b as)),
           obj_data = Some (oid_contents a b as), obj_flags = ASN1_OBJECT_FLAG_ALL\<rparr>"
    using OBJ_txt2obj_numeric [OF obj] by blast
  have "length (dotted a b as) < SIZE_MAX"
    using assms(4) o(2) by (simp add: strlen_def INT_MAX_def SIZE_MAX_def)
  from oid_to_text_exact(2) [OF assms(1) o(1) this]
  have t: "CBS_asn1_oid_to_text env (obj_bytes obj) = Some (cstr s)" by (simp add: o(2,3) obj_bytes_given)
  have "oid_contents a b as \<noteq> []" by (simp add: oid_contents_def)
  then have l: "obj_length obj \<noteq> 0" by (simp add: o(3))
  have r: "OBJ_obj2txt env H out out_len (Some obj) always =
      strlcpy_int out (case name of None \<Rightarrow> cstr s | Some t \<Rightarrow> t) out_len"
    using l t by (auto simp: OBJ_obj2txt_def assms(7) name_of_def Let_def split: option.splits)
  show ?thesis
  proof (cases name)
    case None
    have w: "text_written out out_len (cstr s) (OBJ_obj2txt env H out out_len (Some obj) always)"
      using strlcpy_int_written [of "cstr s"] assms(4-6) by (simp add: r None strlen_def)
    moreover have "OBJ_txt2obj env G (fst (OBJ_obj2txt env H out out_len (Some obj) always)) True = Some obj"
      if "strlen s < nat out_len"
      using w that obj OBJ_txt2obj_cstr [of "fst (OBJ_obj2txt env H out out_len (Some obj) always)" s]
      by (simp add: text_written_def strlen_def)
    ultimately show ?thesis by (simp add: None)
  next
    case (Some n)
    then show ?thesis using strlcpy_int_written [of n out_len out] assms(5,6) by (simp add: r)
  qed
qed

lemma OBJ_txt2obj_makes:
  assumes "\<And>n. alloc_ok env n" and "valid_arcs a b" and "cstr s = dotted a b as"
    and "length (oid_contents a b as) \<le> INT_MAX"
  shows "\<exists>obj. OBJ_txt2obj env G s True = Some obj \<and> obj_nid obj = 0 \<and>
    obj_length obj = int (length (oid_contents a b as)) \<and> obj_data obj = Some (oid_contents a b as)"
proof -
  have "length (oid_contents a b as) \<le> SIZE_MAX" using assms(4) by (simp add: INT_MAX_def SIZE_MAX_def)
  then have der: "build env 32 (\<lambda>env. CBB_add_asn1_oid_from_text env 0 (cstr s)) = Some (oid_contents a b as)"
    using build_exact(2) [OF oid_from_text_appender [OF assms(2), of 0 "as"], of 32 env] assms(1,3)
    by (simp add: SIZE_MAX_def)
  have "ASN1_OBJECT_create (alloc_ok env) NID_undef (oid_contents a b as) None None \<noteq> None"
    by (rule ASN1_OBJECT_create_total) (use assms in simp_all)
  then obtain obj where obj: "ASN1_OBJECT_create (alloc_ok env) NID_undef (oid_contents a b as) None None = Some obj"
    by blast
  have "oid_contents a b as \<noteq> []" by (simp add: oid_contents_def)
  then show ?thesis using ASN1_OBJECT_create_Some [OF obj]
    by (simp add: OBJ_txt2obj_def create_object_with_text_oid_def der obj) (simp add: NID_undef_def)
qed

text \<open>2.5.4.3 is written as it is with the flag, and as \<open>commonName\<close> without.\<close>

lemma common_name: "get_builtin_object 13 = builtin_object ''CN'' ''commonName'' 13 [0x55, 0x04, 0x03]"
  using get_builtin_object_of [of 13]
  by (simp add: object_of_def kObjects_def kObjects_1_def)

definition only_common_name :: "asn1_object \<Rightarrow> bool" where
  "only_common_name obj \<longleftrightarrow> (obj_data obj = Some [0x55, 0x04, 0x03] \<longrightarrow> obj_nid obj = 13)"

lemma only_common_name_rules:
  "only_common_name unused_object \<longleftrightarrow> True"
  "only_common_name (builtin_object s l n []) \<longleftrightarrow> True"
  "only_common_name (builtin_object s l n [b]) \<longleftrightarrow> True"
  "only_common_name (builtin_object s l n [b, c]) \<longleftrightarrow> True"
  "only_common_name (builtin_object s l n (b # c # d # e # r)) \<longleftrightarrow> True"
  "only_common_name (builtin_object s l n [b, c, d]) \<longleftrightarrow> (b = 0x55 \<and> c = 0x04 \<and> d = 0x03 \<longrightarrow> n = 13)"
  by (auto simp: only_common_name_def builtin_object_def unused_object_def)

lemma only_common_name: "list_all only_common_name kObjects"
  by (simp only: kObjects_chunks concat.simps append.simps list.pred_inject only_common_name_rules simp_thms) simp

lemma common_name_nid:
  assumes "obj_nid obj = 0" and "obj_length obj = 3" and "obj_data obj = Some [0x55, 0x04, 0x03]"
  shows "OBJ_obj2nid obj_start (Some obj) = 13"
proof -
  let ?nid = "builtin_nid (bsearch (obj_cmp obj) kNIDsInOIDOrder)"
  have k: "obj_key obj = (3, [0x55, 0x04, 0x03])"
    using assms by (simp add: obj_key_def obj_bytes_def numeral_3_eq_3)
  moreover have "obj_key (get_builtin_object 13) = (3, [0x55, 0x04, 0x03])"
    by (simp add: common_name builtin_object_def obj_key_def obj_bytes_def numeral_3_eq_3)
  ultimately have "oids.matches 13 obj"
    by (simp add: oids.matches_def common_name has_oid_def builtin_object_def NUM_NID_def)
  then have "oids.matches ?nid obj" using oids.search_exact [of obj] by (auto split: if_splits)
  then obtain n where n: "?nid = int n" "n \<in> set kNIDsInOIDOrder" "obj_key (get_builtin_object (int n)) = obj_key obj"
    by (auto simp: oids.matches_member)
  then have r: "0 < n" "n \<le> 964" by (simp_all add: oids.members)
  then have w: "obj_bytes (get_builtin_object (int n)) = (case obj_data (get_builtin_object (int n)) of None \<Rightarrow> [] | Some d \<Rightarrow> d)"
    by (intro builtin_wf(3)) (simp_all add: NUM_NID_def)
  then have "obj_data (get_builtin_object (int n)) = Some [0x55, 0x04, 0x03]"
    using n(3) k by (auto simp: obj_key_def split: option.splits)
  moreover have "only_common_name (get_builtin_object (int n))"
    using only_common_name r by (simp add: get_builtin_object_of object_of_def list_all_length kObjects_length)
  ultimately have "int n = 13" using oids.member_nid [OF n(2)] by (simp add: only_common_name_def)
  then show ?thesis using assms(1) n(1) by (simp add: OBJ_obj2nid_def obj_start_def)
qed

lemma obj_text_roundtrip_witness:
  "\<exists>obj. OBJ_txt2obj \<lparr>alloc_ok = \<lambda>_. True, uninit = \<lambda>_. 0\<rparr> obj_start (text_bytes ''2.5.4.3'') True = Some obj \<and>
     cstr (fst (OBJ_obj2txt \<lparr>alloc_ok = \<lambda>_. True, uninit = \<lambda>_. 0\<rparr> obj_start [1, 1, 1, 1] 4 (Some obj) True)) =
       text_bytes ''2.5'' \<and>
     cstr (fst (OBJ_obj2txt \<lparr>alloc_ok = \<lambda>_. True, uninit = \<lambda>_. 0\<rparr> obj_start [1, 1, 1, 1, 1, 1, 1] 7 (Some obj) False)) =
       text_bytes ''common''"
proof -
  let ?e = "\<lparr>alloc_ok = \<lambda>_. True, uninit = \<lambda>_. 0\<rparr>"
  let ?s = "text_bytes ''2.5.4.3''"
  have o: "oid_contents 2 5 [4, 3] = [0x55, 0x04, 0x03]" by code_simp
  have t: "cstr ?s = dotted 2 5 [4, 3]" by code_simp
  have cut: "take 3 (cstr ?s) = text_bytes ''2.5''" "take 6 (cstr (text_bytes ''commonName'')) = text_bytes ''common''"
    "strlen (text_bytes ''commonName'') = 10" by code_simp+
  have b: "text_bytes ''2.5.4.3'' = [0x32, 0x2e, 0x35, 0x2e, 0x34, 0x2e, 0x33]" by code_simp
  have l: "strlen ?s \<le> INT_MAX" by (simp add: b strlen_def INT_MAX_def)
  have "\<exists>obj. OBJ_txt2obj ?e obj_start ?s True = Some obj \<and> obj_nid obj = 0 \<and>
      obj_length obj = int (length (oid_contents 2 5 [4, 3])) \<and> obj_data obj = Some (oid_contents 2 5 [4, 3])"
    by (rule OBJ_txt2obj_makes [OF _ _ t]) (simp_all add: o valid_arcs_def INT_MAX_def)
  then obtain obj where obj: "OBJ_txt2obj ?e obj_start ?s True = Some obj"
    and d: "obj_nid obj = 0" "obj_length obj = 3" "obj_data obj = Some [0x55, 0x04, 0x03]" by (auto simp: o)
  then have nid: "OBJ_obj2nid obj_start (Some obj) = 13" using common_name_nid by blast
  have name: "name_of obj_start 13 = Some (text_bytes ''commonName'')"
    by (simp add: name_of_def OBJ_nid2ln_def OBJ_nid2obj_def NID_undef_def NUM_NID_def common_name builtin_object_def)
  have "cstr (fst (OBJ_obj2txt ?e obj_start [1, 1, 1, 1] 4 (Some obj) True)) = text_bytes ''2.5''"
    using obj_text_roundtrip [of ?e obj_start ?s True obj 4 "[1, 1, 1, 1]" None True obj_start] obj l
    by (simp add: text_written_def cut)
  moreover have "cstr (fst (OBJ_obj2txt ?e obj_start [1, 1, 1, 1, 1, 1, 1] 7 (Some obj) False)) = text_bytes ''common''"
    using obj_text_roundtrip [of ?e obj_start ?s True obj 7 "[1, 1, 1, 1, 1, 1, 1]" "Some (text_bytes ''commonName'')" False obj_start] obj l
    by (simp add: text_written_def nid name NID_undef_def cut INT_MAX_def)
  ultimately show ?thesis using obj by blast
qed

section \<open>Objects and DER\<close>

text \<open>The flush that \<open>CBB_finish\<close> makes may as well be made before it.\<close>

lemma build_unflushed:
  assumes "build env n (\<lambda>env. and_then (op env) (\<lambda>_. CBB_flush env 0)) = Some x"
  shows "build env n op = Some x"
proof -
  from assms obtain s where i: "CBB_init env n = Some s" by (auto simp: build_def split: option.splits)
  with assms have "fst (and_then (and_then (op env) (\<lambda>_. CBB_flush env 0)) (\<lambda>_. CBB_finish env 0 False) s) = Some x"
    by (simp add: build_def)
  then obtain s1 s2 s3 where s1: "op env s = (Some (), s1)" and s2: "CBB_flush env 0 s1 = (Some (), s2)"
    and s3: "CBB_finish env 0 False s2 = (Some x, s3)"
    by (auto simp: fst_eq_Some)
  have "open_children s2 = []" using s2 by (auto simp: CBB_flush_def split: if_splits prod.splits)
  then have "x = base_buf s2" using s3 by (auto simp: CBB_finish_def CBB_flush_def split: if_splits)
  then show ?thesis using i s1 s2 by (simp add: build_def CBB_finish_def)
qed

lemma i2d_object_eq:
  assumes "\<forall>k \<le> SIZE_MAX. alloc_ok env k" and "obj_length obj = int (length d)" and "obj_data obj = Some d"
    and "d \<noteq> []" and "length (der_element CBS_ASN1_OBJECT d) \<le> INT_MAX"
  shows "i2d_ASN1_OBJECT env (Some obj) Outp_to_null =
    (int (length (der_element CBS_ASN1_OBJECT d)), Buffer_given (der_element CBS_ASN1_OBJECT d))"
proof -
  let ?der = "der_element CBS_ASN1_OBJECT d"
  let ?op = "\<lambda>env. and_then (CBB_add_asn1 env 0 CBS_ASN1_OBJECT) (\<lambda>_. CBB_add_bytes env 1 d)"
  have len: "length d \<le> INT_MAX" using assms(5) by (simp add: der_element_def)
  have d: "obj_bytes obj = d" using assms(2,3) by (simp add: obj_bytes_def map_nth)
  let ?n = "size_add (length d) 2"
  have n: "?n \<le> SIZE_MAX" by (simp add: size_add_def SIZE_MAX_def)
  have "appender (\<lambda>env. and_then (CBB_add_asn1 env 0 CBS_ASN1_OBJECT)
      (\<lambda>_. and_then (CBB_add_bytes env (Suc 0) d) (\<lambda>_. CBB_flush env 0))) 0 ?der"
    using len by (intro element_appender add_bytes_appender) (simp_all add: SIZE_MAX_def INT_MAX_def)
  moreover have "length ?der \<le> SIZE_MAX" using assms(5) by (simp add: INT_MAX_def SIZE_MAX_def)
  ultimately have "build env ?n (\<lambda>env. and_then (CBB_add_asn1 env 0 CBS_ASN1_OBJECT)
      (\<lambda>_. and_then (CBB_add_bytes env (Suc 0) d) (\<lambda>_. CBB_flush env 0))) = Some ?der"
    by (rule build_exact(2) [OF _ n assms(1)])
  then have "build env ?n (\<lambda>env. and_then (?op env) (\<lambda>_. CBB_flush env 0)) = Some ?der"
    by (simp only: and_then_assoc One_nat_def)
  then have "build env ?n ?op = Some ?der" by (rule build_unflushed)
  then obtain s where i: "CBB_init env ?n = Some s" and f: "fst (and_then (?op env) (\<lambda>_. CBB_finish env 0 False) s) = Some ?der"
    by (auto simp: build_def split: option.splits)
  from f obtain s2 where "and_then (?op env) (\<lambda>_. CBB_finish env 0 False) s = (Some ?der, s2)" by (auto simp: fst_eq_Some)
  then obtain u s1 where s: "?op env s = (Some u, s1)" "CBB_finish env 0 False s1 = (Some ?der, s2)"
    unfolding and_then_eq_Some [of "?op env"] by blast
  have l: "\<not> obj_length obj \<le> 0" "nat (obj_length obj) = length d" using assms(2,4) by simp_all
  show ?thesis
    unfolding i2d_ASN1_OBJECT_def option.case l(2) if_not_P [OF l(1)] i d s prod.case CBB_finish_i2d_def fst_conv
    using assms(5) by simp
qed

text \<open>reading an object and writing it again. What \<open>d2i_ASN1_OBJECT\<close> accepts is the DER of an
  object identifier with valid contents; the input is advanced just past it, and \<open>i2d_ASN1_OBJECT\<close> of
  the object gives exactly the bytes that were read.\<close>

theorem obj_der_roundtrip:
  assumes "\<forall>k \<le> SIZE_MAX. alloc_ok env k" and "d2i_ASN1_OBJECT (alloc_ok env) buf len = Some (obj, rest)"
    and "length buf \<le> INT_MAX"
  shows "\<exists>contents. CBS_is_valid_asn1_oid contents \<and> obj_data obj = Some contents \<and>
    buf = der_element CBS_ASN1_OBJECT contents @ rest \<and>
    i2d_ASN1_OBJECT env (Some obj) Outp_to_null =
      (int (length (der_element CBS_ASN1_OBJECT contents)), Buffer_given (der_element CBS_ASN1_OBJECT contents))"
proof -
  from assms(2) obtain c t where c: "CBS_get_asn1 CBS_ASN1_OBJECT (take (nat len) buf) = (Some c, t)"
    and v: "CBS_is_valid_asn1_oid c" and o: "ASN1_OBJECT_create (alloc_ok env) NID_undef c None None = Some obj"
    and r: "rest = t @ drop (nat len) buf"
    by (auto simp: d2i_ASN1_OBJECT_def c2i_ASN1_OBJECT_def CBS_len_def split: if_splits option.splits prod.splits)
  from c have "take (nat len) buf = der_element CBS_ASN1_OBJECT c @ t" by (simp add: CBS_get_asn1_eq_Some)
  then have b: "buf = der_element CBS_ASN1_OBJECT c @ rest"
    using append_take_drop_id [of "nat len" buf] by (simp add: r)
  then have "length (der_element CBS_ASN1_OBJECT c) \<le> INT_MAX" using assms(3) by simp
  moreover have "c \<noteq> []" using v by (auto simp: CBS_is_valid_asn1_oid_def CBS_len_def)
  ultimately show ?thesis
    using i2d_object_eq [OF assms(1), of obj c] ASN1_OBJECT_create_Some [OF o] b v by auto
qed

lemma obj_der_roundtrip_witness:
  "\<exists>obj. d2i_ASN1_OBJECT (\<lambda>_. True) [0x06, 0x03, 0x2a, 0x86, 0x48, 0xff] 6 = Some (obj, [0xff]) \<and>
     i2d_ASN1_OBJECT \<lparr>alloc_ok = \<lambda>_. True, uninit = \<lambda>_. 0\<rparr> (Some obj) Outp_to_null = (5, Buffer_given [0x06, 0x03, 0x2a, 0x86, 0x48])"
proof -
  let ?e = "\<lparr>alloc_ok = \<lambda>_. True, uninit = \<lambda>_. 0\<rparr>"
  let ?c = "[0x2a, 0x86, 0x48] :: bytes"
  have "tag_bytes CBS_ASN1_OBJECT = [6]" by code_simp
  then have e: "der_element CBS_ASN1_OBJECT ?c = [0x06, 0x03, 0x2a, 0x86, 0x48]"
    by (simp add: der_element_def der_header_def der_length_def)
  have "valid_element CBS_ASN1_OBJECT ?c" by (simp add: valid_element_def valid_tag_def)
  then have g: "CBS_get_asn1 CBS_ASN1_OBJECT [0x06, 0x03, 0x2a, 0x86, 0x48, 0xff] = (Some ?c, [0xff])"
    by (simp add: CBS_get_asn1_eq_Some e)
  have v: "CBS_is_valid_asn1_oid ?c" by code_simp
  have "ASN1_OBJECT_create (\<lambda>_. True) NID_undef ?c None None \<noteq> None"
    by (rule ASN1_OBJECT_create_total) (simp_all add: INT_MAX_def)
  then obtain obj where o: "ASN1_OBJECT_create (\<lambda>_. True) NID_undef ?c None None = Some obj" by auto
  have d: "d2i_ASN1_OBJECT (\<lambda>_. True) [0x06, 0x03, 0x2a, 0x86, 0x48, 0xff] 6 = Some (obj, [0xff])"
    by (simp add: d2i_ASN1_OBJECT_def g c2i_ASN1_OBJECT_def CBS_len_def v o)
  then have "d2i_ASN1_OBJECT (alloc_ok ?e) [0x06, 0x03, 0x2a, 0x86, 0x48, 0xff] 6 = Some (obj, [0xff])" by simp
  from obj_der_roundtrip [OF _ this] obtain c where "obj_data obj = Some c" "i2d_ASN1_OBJECT ?e (Some obj) Outp_to_null =
      (int (length (der_element CBS_ASN1_OBJECT c)), Buffer_given (der_element CBS_ASN1_OBJECT c))"
    by (auto simp: INT_MAX_def)
  moreover from this have "c = ?c" using ASN1_OBJECT_create_Some [OF o] by simp
  ultimately show ?thesis using d e by simp
qed

end
