(* ===== verification/Obj_Xref.thy ===== *)
theory Obj_Xref
  imports Asn1_Object
begin

text \<open>
  Signature algorithms: the table of \<open>crypto/obj/obj_xref.c\<close> that relates the number of a signature
  algorithm to those of its digest and its key type, and the two searches in it. An output pointer
  that is NULL only leaves that output out.
\<close>

record nid_triple =
  sign_nid :: int
  digest_nid :: int
  pkey_nid :: int

definition triple :: "int \<Rightarrow> int \<Rightarrow> int \<Rightarrow> nid_triple" where
  "triple sign digest pkey = \<lparr>sign_nid = sign, digest_nid = digest, pkey_nid = pkey\<rparr>"

text \<open>In the order of the C file; 0 is \<open>NID_undef\<close>.\<close>

definition kTriples :: "nid_triple list" where
  "kTriples = [
    triple 396 257 6,
    triple 8 4 6,
    triple 65 64 6,
    triple 671 675 6,
    triple 668 672 6,
    triple 669 673 6,
    triple 670 674 6,
    triple 113 64 116,
    triple 70 64 67,
    triple 802 675 116,
    triple 803 672 116,
    triple 416 64 408,
    triple 793 675 408,
    triple 794 672 408,
    triple 795 673 408,
    triple 796 674 408,
    triple 912 0 6,
    triple 949 0 949
  ]"

definition OBJ_find_sigid_algs :: "int \<Rightarrow> (int \<times> int) option" where
  "OBJ_find_sigid_algs nid =
     (case find (\<lambda>t. sign_nid t = nid) kTriples of
        None \<Rightarrow> None
      | Some t \<Rightarrow> Some (digest_nid t, pkey_nid t))"

definition OBJ_find_sigid_by_algs :: "int \<Rightarrow> int \<Rightarrow> int option" where
  "OBJ_find_sigid_by_algs digest pkey =
     (case find (\<lambda>t. digest_nid t = digest \<and> pkey_nid t = pkey) kTriples of
        None \<Rightarrow> None
      | Some t \<Rightarrow> Some (sign_nid t))"

text \<open>Neither column has a repetition, so that the searches are inverse to each other.\<close>

lemma kTriples_distinct:
  "distinct (map sign_nid kTriples)" "distinct (map (\<lambda>t. (digest_nid t, pkey_nid t)) kTriples)"
  by (simp_all add: kTriples_def triple_def)

lemma find_distinct:
  assumes "distinct (map f xs)"
  shows "find (\<lambda>x. f x = y) xs = Some x \<longleftrightarrow> x \<in> set xs \<and> f x = y"
  using assms by (induction xs) (auto simp: rev_image_eqI)

lemma eq_triple: "t = triple a b c \<longleftrightarrow> sign_nid t = a \<and> digest_nid t = b \<and> pkey_nid t = c"
  by (cases t) (simp add: triple_def)

lemma find_algs_iff:
  "OBJ_find_sigid_algs nid = Some (digest, pkey) \<longleftrightarrow> triple nid digest pkey \<in> set kTriples"
proof -
  have "OBJ_find_sigid_algs nid = Some (digest, pkey) \<longleftrightarrow>
      (\<exists>t. find (\<lambda>t. sign_nid t = nid) kTriples = Some t \<and> digest_nid t = digest \<and> pkey_nid t = pkey)"
    unfolding OBJ_find_sigid_algs_def by (cases "find (\<lambda>t. sign_nid t = nid) kTriples") auto
  also have "\<dots> \<longleftrightarrow> (\<exists>t. t \<in> set kTriples \<and> t = triple nid digest pkey)"
    unfolding find_distinct [OF kTriples_distinct(1)] eq_triple by blast
  finally show ?thesis by blast
qed

lemma find_by_algs_iff:
  "OBJ_find_sigid_by_algs digest pkey = Some nid \<longleftrightarrow> triple nid digest pkey \<in> set kTriples"
proof -
  have "OBJ_find_sigid_by_algs digest pkey = Some nid \<longleftrightarrow>
      (\<exists>t. find (\<lambda>t. (digest_nid t, pkey_nid t) = (digest, pkey)) kTriples = Some t \<and> sign_nid t = nid)"
    unfolding OBJ_find_sigid_by_algs_def prod.inject
    by (cases "find (\<lambda>t. digest_nid t = digest \<and> pkey_nid t = pkey) kTriples") auto
  also have "\<dots> \<longleftrightarrow> (\<exists>t. t \<in> set kTriples \<and> t = triple nid digest pkey)"
    unfolding find_distinct [OF kTriples_distinct(2)] eq_triple by auto
  finally show ?thesis by blast
qed

lemma find_sigid_inverse:
  "OBJ_find_sigid_algs nid = Some (digest, pkey) \<longleftrightarrow> OBJ_find_sigid_by_algs digest pkey = Some nid"
  by (simp only: find_algs_iff find_by_algs_iff)

end
