(* ===== verification/Stack_Sort.thy ===== *)
theory Stack_Sort
  imports Stack
begin

text \<open>
  The heap sort and the searches of the pointer stacks, over any comparison function that
  orders its arguments.
\<close>

section \<open>Searches\<close>

text \<open>\<open>r\<close> is the first index from \<open>lo\<close> up to \<open>hi\<close> that satisfies \<open>P\<close>, if there is one.\<close>

fun earliest :: "(nat \<Rightarrow> bool) \<Rightarrow> nat \<Rightarrow> nat \<Rightarrow> nat option \<Rightarrow> bool" where
  "earliest P lo hi None \<longleftrightarrow> (\<forall>j \<in> {lo..<hi}. \<not> P j)"
| "earliest P lo hi (Some k) \<longleftrightarrow> k \<in> {lo..<hi} \<and> P k \<and> (\<forall>j \<in> {lo..<k}. \<not> P j)"

lemma earliest_unique: "earliest P lo hi r \<Longrightarrow> earliest P lo hi r' \<Longrightarrow> r = r'"
proof (cases r; cases r')
  fix k k'
  assume "earliest P lo hi r" "earliest P lo hi r'" "r = Some k" "r' = Some k'"
  then show "r = r'" by (cases k k' rule: linorder_cases) auto
qed auto

lemma none_between:
  "\<forall>j \<in> {lo..<m}. \<not> P j \<Longrightarrow> \<forall>j \<in> {m..<hi}. \<not> P j \<Longrightarrow> \<forall>j \<in> {lo..<hi}. \<not> P (j :: nat)"
  by (meson atLeastLessThan_iff not_le)

lemma earliest_left:
  assumes "lo \<le> m" and "\<forall>j \<in> {lo..<m}. \<not> P j" and "earliest P m hi r"
  shows "earliest P lo hi r"
  using assms none_between [of lo m P] by (cases r) auto

lemma earliest_right:
  assumes "m \<le> hi" and "(\<forall>j \<in> {m..<hi}. \<not> P j) \<or> (\<exists>j \<in> {lo..<m}. P j)" and "earliest P lo m r"
  shows "earliest P lo hi r"
  using assms none_between [of lo m P hi] by (cases r) auto

lemma find_index_from_earliest:
  "earliest (\<lambda>k. P (xs ! (k - i))) i (i + length xs) (find_index_from P i xs)"
proof (induction xs arbitrary: i)
  case (Cons x xs)
  show ?case
  proof (cases "P x")
    case False
    have "earliest (\<lambda>k. P ((x # xs) ! (k - i))) (Suc i) (i + length (x # xs)) r =
        earliest (\<lambda>k. P (xs ! (k - Suc i))) (Suc i) (Suc i + length xs) r" for r
      by (cases r) (auto simp: nth_Cons')
    then have "earliest (\<lambda>k. P ((x # xs) ! (k - i))) (Suc i) (i + length (x # xs)) (find_index_from P i (x # xs))"
      using Cons [of "Suc i"] False by simp
    then show ?thesis by (rule earliest_left [rotated 2]) (use False in \<open>auto simp: less_Suc_eq\<close>)
  qed simp
qed simp

lemma find_index_earliest: "earliest (\<lambda>k. P (xs ! k)) 0 (length xs) (find_index_from P 0 xs)"
  using find_index_from_earliest [of P xs 0] by simp

context comparator
begin

lemma ordered_nth: "ordered xs \<Longrightarrow> i \<le> j \<Longrightarrow> j < length xs \<Longrightarrow> cmp (xs ! i) (xs ! j) \<le> 0"
  by (cases "i = j") (auto simp: ordered_def sorted_wrt_iff_nth_less)

lemma binary_search_earliest:
  assumes "ordered xs" and "hi \<le> length xs"
  shows "earliest (\<lambda>k. cmp p (xs ! k) = 0) lo hi (binary_search (\<lambda>k. cmp p (xs ! k)) lo hi)"
  using assms(2)
proof (induction "hi - lo" arbitrary: lo hi rule: less_induct)
  case less
  let ?at = "\<lambda>k. cmp p (xs ! k)"
  define mid where "mid = lo + (hi - lo - 1) div 2"
  show ?case
  proof (cases "lo < hi")
    case False
    then show ?thesis by (simp add: binary_search.simps)
  next
    case True
    then have mid: "lo \<le> mid" "mid < hi" by (simp_all add: mid_def)
    have step: "binary_search ?at lo hi =
        (if 0 < ?at mid then binary_search ?at (mid + 1) hi
         else if ?at mid < 0 then binary_search ?at lo mid
         else if hi - lo = 1 then Some mid else binary_search ?at lo (mid + 1))"
      unfolding binary_search.simps [of ?at lo hi] Let_def mid_def [symmetric] if_P [OF True] ..
    consider "0 < ?at mid" | "?at mid < 0" | "?at mid = 0" "hi - lo = 1" | "?at mid = 0" "hi - lo \<noteq> 1"
      by linarith
    then show ?thesis
    proof cases
      case 1
      have "\<forall>j \<in> {lo..<mid + 1}. ?at j \<noteq> 0"
      proof
        fix j assume "j \<in> {lo..<mid + 1}"
        then have "cmp (xs ! j) (xs ! mid) \<le> 0"
          using mid less.prems assms(1) by (intro ordered_nth) auto
        then show "?at j \<noteq> 0" using 1 transitive [of p "xs ! j" "xs ! mid"] by auto
      qed
      moreover have "earliest (\<lambda>k. ?at k = 0) (mid + 1) hi (binary_search ?at (mid + 1) hi)"
        using mid less.prems by (intro less.hyps) auto
      ultimately show ?thesis using 1 mid unfolding step by (simp add: earliest_left [of lo "mid + 1"])
    next
      case 2
      have "\<forall>j \<in> {mid..<hi}. ?at j \<noteq> 0"
      proof
        fix j assume "j \<in> {mid..<hi}"
        then have "cmp (xs ! mid) (xs ! j) \<le> 0"
          using less.prems assms(1) by (intro ordered_nth) auto
        then show "?at j \<noteq> 0" using 2 less_le_trans [of p "xs ! mid" "xs ! j"] by auto
      qed
      moreover have "earliest (\<lambda>k. ?at k = 0) lo mid (binary_search ?at lo mid)"
        using mid less.prems by (intro less.hyps) auto
      ultimately show ?thesis using 2 mid unfolding step by (simp add: earliest_right [of mid hi])
    next
      case 3
      then show ?thesis using mid unfolding step by auto
    next
      case 4
      have "mid + 1 < hi" using True 4(2) unfolding mid_def by linarith
      then have "earliest (\<lambda>k. ?at k = 0) lo (mid + 1) (binary_search ?at lo (mid + 1))"
        using mid less.prems by (intro less.hyps) auto
      then show ?thesis using 4 mid unfolding step by (simp, intro earliest_right [of "Suc mid" hi]) auto
    qed
  qed
qed

end

section \<open>Heaps\<close>

lemma swap_at_nth:
  "i < length xs \<Longrightarrow> j < length xs \<Longrightarrow>
     swap_at i j xs ! k = (if k = i then xs ! j else if k = j then xs ! i else xs ! k)"
  by (auto simp: swap_at_def nth_list_update)

lemma swap_at_simps [simp]:
  "length (swap_at i j xs) = length xs"
  "i < length xs \<Longrightarrow> j < length xs \<Longrightarrow> mset (swap_at i j xs) = mset xs"
  "i < n \<Longrightarrow> j < n \<Longrightarrow> drop n (swap_at i j xs) = drop n xs"
  by (simp_all add: swap_at_def mset_swap)

text \<open>The loop moves elements around below \<open>num\<close>, and nothing else.\<close>

lemma down_heap_permutes:
  assumes "i < num" and "num \<le> length xs"
  shows "mset (down_heap cmp xs i num) = mset xs \<and> length (down_heap cmp xs i num) = length xs \<and>
    drop num (down_heap cmp xs i num) = drop num xs"
  using assms
proof (induction cmp xs i num rule: down_heap.induct)
  case (1 cmp xs i num)
  let ?next = "down_heap_next cmp xs i num"
  show ?case
  proof (cases "num \<le> left_idx i \<or> i = ?next")
    case True
    then show ?thesis by (auto simp: down_heap.simps [of cmp xs i])
  next
    case False
    then have step: "down_heap cmp xs i num = down_heap cmp (swap_at i ?next xs) ?next num"
      by (simp add: down_heap.simps [of cmp xs i] Let_def)
    have "i < ?next" "?next < num" using False down_heap_next_cases [of num i cmp xs] by simp_all
    then show ?thesis using False 1 unfolding step by simp
  qed
qed

lemma mset_take_eq: "mset xs = mset ys \<Longrightarrow> drop n xs = drop n ys \<Longrightarrow> mset (take n xs) = mset (take n ys)"
  by (metis append_take_drop_id add_right_cancel mset_append)

context comparator
begin

text \<open>The node \<open>j\<close> is at least as large as its children below \<open>num\<close>.\<close>

definition heap_at :: "'a list \<Rightarrow> nat \<Rightarrow> nat \<Rightarrow> bool" where
  "heap_at xs num j \<longleftrightarrow> (\<forall>c \<in> {2 * j + 1, 2 * j + 2}. c < num \<longrightarrow> cmp (xs ! c) (xs ! j) \<le> 0)"

definition heap_from :: "'a list \<Rightarrow> nat \<Rightarrow> nat \<Rightarrow> bool" where
  "heap_from xs num s \<longleftrightarrow> (\<forall>j. s \<le> j \<and> j < num \<longrightarrow> heap_at xs num j)"

text \<open>A heap but for the node \<open>i\<close>, whose parent is large enough for its children too.\<close>

definition heap_except :: "'a list \<Rightarrow> nat \<Rightarrow> nat \<Rightarrow> nat \<Rightarrow> bool" where
  "heap_except xs num s i \<longleftrightarrow>
     (\<forall>j. s \<le> j \<and> j < num \<and> j \<noteq> i \<longrightarrow> heap_at xs num j) \<and>
     (\<forall>q. s \<le> q \<and> i \<in> {2 * q + 1, 2 * q + 2} \<longrightarrow>
        (\<forall>c \<in> {2 * i + 1, 2 * i + 2}. c < num \<longrightarrow> cmp (xs ! c) (xs ! q) \<le> 0))"

lemma down_heap_next_largest:
  fixes xs :: "'a list" and i num :: nat
  assumes "left_idx i < num"
  defines "nx \<equiv> down_heap_next cmp xs i num"
  shows "nx \<in> {i, 2 * i + 1, 2 * i + 2}" and "nx < num"
    and "\<forall>c \<in> {2 * i + 1, 2 * i + 2}. c < num \<longrightarrow> cmp (xs ! c) (xs ! nx) \<le> 0"
    and "cmp (xs ! i) (xs ! nx) \<le> 0"
proof -
  have le: "\<not> cmp x y < 0 \<Longrightarrow> cmp y x \<le> 0" for x y using opposite [of x y] by linarith
  show "nx \<in> {i, 2 * i + 1, 2 * i + 2}" "nx < num"
    using assms(1) by (auto simp: nx_def down_heap_next_def left_idx_def Let_def)
  define l where "l = (if cmp (xs ! i) (xs ! left_idx i) < 0 then left_idx i else i)"
  have l: "cmp (xs ! i) (xs ! l) \<le> 0" "cmp (xs ! left_idx i) (xs ! l) \<le> 0"
    using le by (auto simp: l_def)
  have n: "nx = (if left_idx i + 1 < num \<and> cmp (xs ! l) (xs ! (left_idx i + 1)) < 0 then left_idx i + 1 else l)"
    by (simp add: nx_def down_heap_next_def l_def Let_def)
  have r: "cmp (xs ! l) (xs ! nx) \<le> 0" "left_idx i + 1 < num \<Longrightarrow> cmp (xs ! (left_idx i + 1)) (xs ! nx) \<le> 0"
    using le by (auto simp: n)
  show "cmp (xs ! i) (xs ! nx) \<le> 0" using l(1) r(1) by (rule transitive)
  have "cmp (xs ! left_idx i) (xs ! nx) \<le> 0" using l(2) r(1) by (rule transitive)
  then show "\<forall>c \<in> {2 * i + 1, 2 * i + 2}. c < num \<longrightarrow> cmp (xs ! c) (xs ! nx) \<le> 0"
    using r(2) by (auto simp: left_idx_def)
qed

lemma heap_except_step:
  assumes "heap_except xs num s i" and "left_idx i < num" and "s \<le> i" and "num \<le> length xs"
    and "i \<noteq> down_heap_next cmp xs i num"
  shows "heap_except (swap_at i (down_heap_next cmp xs i num) xs) num s (down_heap_next cmp xs i num)"
proof -
  define nx where "nx = down_heap_next cmp xs i num"
  note n = down_heap_next_largest [OF assms(2), of xs, folded nx_def]
  have nx: "nx \<in> {2 * i + 1, 2 * i + 2}" "i < nx" using n(1) assms(5) by (auto simp: nx_def)
  have nth: "swap_at i nx xs ! k = (if k = i then xs ! nx else if k = nx then xs ! i else xs ! k)" for k
    using n(2) nx(2) assms(4) by (intro swap_at_nth) simp_all
  have "heap_at (swap_at i nx xs) num j" if j: "s \<le> j" "j < num" "j \<noteq> nx" for j
  proof -
    consider "j = i" | "i \<in> {2 * j + 1, 2 * j + 2}" | "j \<noteq> i" "i \<notin> {2 * j + 1, 2 * j + 2}" by blast
    then show ?thesis
    proof cases
      case 1
      show ?thesis unfolding heap_at_def nth
        using 1 n(3,4) nx by auto
    next
      case 2
      have "heap_at xs num j" "\<forall>c \<in> {2 * i + 1, 2 * i + 2}. c < num \<longrightarrow> cmp (xs ! c) (xs ! j) \<le> 0"
        using assms(1) 2 j(1,2) unfolding heap_except_def by auto
      moreover have "nx \<notin> {2 * j + 1, 2 * j + 2}" "j \<noteq> i" using 2 nx by auto
      ultimately show ?thesis unfolding heap_at_def nth using j(3) nx n(2) by auto
    next
      case 3
      then have "heap_at xs num j" "nx \<notin> {2 * j + 1, 2 * j + 2}"
        using assms(1) j(1,2) nx unfolding heap_except_def by auto
      then show ?thesis unfolding heap_at_def nth using 3 j(3) by auto
    qed
  qed
  moreover have "cmp (swap_at i nx xs ! c) (swap_at i nx xs ! q) \<le> 0"
    if q: "s \<le> q" "nx \<in> {2 * q + 1, 2 * q + 2}" "c \<in> {2 * nx + 1, 2 * nx + 2}" "c < num" for q c
  proof -
    have "q = i" using q(2) nx(1) by auto
    moreover have "heap_at xs num nx"
      using assms(1,3) nx(2) n(2) unfolding heap_except_def by auto
    then have "cmp (xs ! c) (xs ! nx) \<le> 0" using q(3,4) unfolding heap_at_def by blast
    moreover have "c \<noteq> i" "c \<noteq> nx" using q(3) nx by auto
    ultimately show ?thesis by (simp add: nth)
  qed
  ultimately show ?thesis unfolding heap_except_def nx_def by blast
qed

lemma down_heap_heap:
  assumes "heap_except xs num s i" and "s \<le> i" and "i < num" and "num \<le> length xs"
  shows "heap_from (down_heap cmp xs i num) num s"
  using assms
proof (induction "num - i" arbitrary: xs i rule: less_induct)
  case less
  let ?next = "down_heap_next cmp xs i num"
  consider "num \<le> left_idx i" | "left_idx i < num" "i = ?next" | "left_idx i < num" "i \<noteq> ?next" by linarith
  then show ?case
  proof cases
    case 1
    then have "heap_at xs num i" by (simp add: heap_at_def left_idx_def)
    then show ?thesis using 1 less.prems(1)
      by (auto simp: down_heap.simps [of _ _ i] heap_from_def heap_except_def)
  next
    case 2
    then have "heap_at xs num i" using down_heap_next_largest(3) [of i num xs] by (simp add: heap_at_def)
    then show ?thesis using 2 less.prems(1)
      by (auto simp: down_heap.simps [of _ _ i] heap_from_def heap_except_def)
  next
    case 3
    then have n: "i < ?next" "?next < num" using down_heap_next_cases [of num i cmp xs] by simp_all
    have "heap_from (down_heap cmp (swap_at i ?next xs) ?next num) num s"
      using less.prems n heap_except_step [OF less.prems(1) 3(1) less.prems(2,4) 3(2)]
      by (intro less.hyps) auto
    then show ?thesis using 3 by (simp add: down_heap.simps [of _ _ i] Let_def)
  qed
qed

lemma heap_except_self: "heap_from xs num (Suc i) \<Longrightarrow> heap_except xs num i i"
  unfolding heap_except_def heap_from_def by (auto simp: Suc_le_eq)

lemma build_heap_heap:
  assumes "heap_from xs num (Suc i)" and "i < num" and "num = length xs"
  shows "heap_from (build_heap cmp num i xs) num 0 \<and> mset (build_heap cmp num i xs) = mset xs \<and>
    length (build_heap cmp num i xs) = length xs"
  using assms
proof (induction i arbitrary: xs)
  case 0
  then show ?case
    using down_heap_heap [OF heap_except_self [OF 0(1)]] down_heap_permutes [of 0 num xs cmp] by simp
next
  case (Suc i)
  have "heap_from (down_heap cmp xs (Suc i) num) num (Suc i)"
    using Suc.prems down_heap_heap [OF heap_except_self [OF Suc.prems(1)]] by simp
  then show ?case
    using Suc.prems Suc.IH [of "down_heap cmp xs (Suc i) num"] down_heap_permutes [of "Suc i" num xs cmp]
    by simp
qed

lemma heap_max:
  assumes "heap_from xs num 0" and "j < num"
  shows "cmp (xs ! j) (xs ! 0) \<le> 0"
  using assms(2)
proof (induction j rule: less_induct)
  case (less j)
  show ?case
  proof (cases "j = 0")
    case False
    define q where "q = (j - 1) div 2"
    have q: "q < j" "j \<in> {2 * q + 1, 2 * q + 2}" using False by (auto simp: q_def)
    then have "cmp (xs ! j) (xs ! q) \<le> 0"
      using assms(1) less.prems unfolding heap_from_def heap_at_def by (meson le0 less_trans)
    moreover have "cmp (xs ! q) (xs ! 0) \<le> 0" using less q(1) by simp
    ultimately show ?thesis by (rule transitive)
  qed simp
qed

lemma remove_max_step:
  assumes "heap_from xs (Suc (Suc i)) 0" and "Suc i < length xs"
  shows "heap_except (swap_at 0 (Suc i) xs) (Suc i) 0 0"
proof -
  have "0 < length xs" using assms(2) by linarith
  then have "heap_at (swap_at 0 (Suc i) xs) (Suc i) j" if "j \<noteq> 0" "j < Suc i" for j
    using that assms by (auto simp: heap_from_def heap_at_def swap_at_nth)
  then show ?thesis by (auto simp: heap_except_def)
qed

lemma remove_max_loop_ordered:
  assumes "heap_from xs (Suc i) 0" and "i < length xs" and "ordered (drop (Suc i) xs)"
    and "\<forall>x \<in> set (take (Suc i) xs). \<forall>y \<in> set (drop (Suc i) xs). cmp x y \<le> 0"
  shows "ordered (remove_max_loop cmp i xs) \<and> mset (remove_max_loop cmp i xs) = mset xs"
  using assms
proof (induction i arbitrary: xs)
  case 0
  then obtain x ys where "xs = x # ys" by (cases xs) auto
  with 0 show ?case by simp
next
  case (Suc i)
  let ?ys = "swap_at 0 (Suc i) xs"
  let ?zs = "down_heap cmp ?ys 0 (Suc i)"
  have len: "Suc i < length xs" using Suc.prems(2) .
  have p: "mset ?zs = mset ?ys" "length ?zs = length ?ys" "drop (Suc i) ?zs = drop (Suc i) ?ys"
    using down_heap_permutes [of 0 "Suc i" ?ys cmp] len by simp_all
  have "0 < length xs" using len by linarith
  then have d: "drop (Suc i) ?ys = xs ! 0 # drop (Suc (Suc i)) xs"
    using len by (subst Cons_nth_drop_Suc [symmetric]) (simp_all add: swap_at_nth)
  have m: "mset ?ys = mset xs" using len \<open>0 < length xs\<close> by simp
  have tk: "set (take (Suc i) ?zs) \<subseteq> set (take (Suc (Suc i)) xs)"
  proof -
    have "mset (take (Suc i) ?zs) = mset (take (Suc i) ?ys)" using p by (intro mset_take_eq)
    then have "set (take (Suc i) ?zs) = set (take (Suc i) ?ys)" by (rule mset_eq_setD)
    also have "\<dots> \<subseteq> set (take (Suc (Suc i)) ?ys)" by (rule set_take_subset_set_take) simp
    also have "\<dots> = set (take (Suc (Suc i)) xs)"
      using len m by (intro mset_eq_setD mset_take_eq) simp_all
    finally show ?thesis .
  qed
  have max: "\<forall>x \<in> set (take (Suc (Suc i)) xs). cmp x (xs ! 0) \<le> 0"
    using heap_max [OF Suc.prems(1)] len by (auto simp: in_set_conv_nth)
  have "xs ! 0 \<in> set (take (Suc (Suc i)) xs)" using len by (auto simp: in_set_conv_nth intro!: exI [of _ 0])
  then have o: "ordered (drop (Suc i) ?zs)" using Suc.prems(3,4) unfolding p(3) d by simp
  have b: "\<forall>x \<in> set (take (Suc i) ?zs). \<forall>y \<in> set (drop (Suc i) ?zs). cmp x y \<le> 0"
    unfolding p(3) d using max Suc.prems(4) tk by auto
  have "heap_from ?zs (Suc i) 0"
    using down_heap_heap [OF remove_max_step [OF Suc.prems(1) len]] len by simp
  then show ?case using Suc.IH [of ?zs] o b p m len by simp
qed

lemma heap_sort_ordered:
  assumes "2 \<le> length xs"
  shows "let ys = remove_max_loop cmp (length xs - 1) (build_heap cmp (length xs) (parent_idx (length xs - 1)) xs)
    in ordered ys \<and> mset ys = mset xs"
proof -
  let ?n = "length xs" and ?h = "build_heap cmp (length xs) (parent_idx (length xs - 1)) xs"
  have "heap_from xs ?n (Suc (parent_idx (?n - 1)))"
    by (auto simp: heap_from_def heap_at_def parent_idx_def)
  then have h: "heap_from ?h ?n 0" "mset ?h = mset xs" "length ?h = ?n"
    using assms build_heap_heap [of xs ?n "parent_idx (?n - 1)"] by (auto simp: parent_idx_def)
  have "Suc (?n - 1) = ?n" "?n - 1 < ?n" using assms by simp_all
  then show ?thesis using h remove_max_loop_ordered [of ?h "?n - 1"] unfolding Let_def by simp
qed

end

end
