(* ===== verification/Stack_Spec.thy ===== *)
theory Stack_Spec
  imports Stack_Sort Der_Set
begin

text \<open>
  Pointer stacks, theorems: sorting and finding, the flag \<open>sorted\<close> and the capacity as an
  invariant of every operation, and the stack as a sequence with two ends.
\<close>

section \<open>Sorting and finding\<close>

abbreviation ordered_by :: "('a \<Rightarrow> 'a \<Rightarrow> int) \<Rightarrow> 'a list \<Rightarrow> bool" where
  "ordered_by \<equiv> comparator.ordered"

lemma comparator_preimage:
  assumes "comparator cmp"
  shows "comparator (\<lambda>a b. cmp (f a) (f b))"
  by (rule comparator.intro)
    (use comparator.opposite [OF assms] comparator.transitive [OF assms] in blast)+

lemma sk_sort_sorts:
  assumes "comparator (call_cmp c)" and "sk_comp sk = Some c" and "\<not> sk_sorted sk"
  shows "\<exists>data. OPENSSL_sk_sort call_cmp (Some sk) = Some (sk\<lparr>sk_data := data, sk_sorted := True\<rparr>) \<and>
    mset data = mset (sk_data sk) \<and> ordered_by (call_cmp c) data"
proof (cases "2 \<le> length (sk_data sk)")
  case True
  define data where "data = remove_max_loop (call_cmp c) (length (sk_data sk) - 1)
    (build_heap (call_cmp c) (length (sk_data sk)) (parent_idx (length (sk_data sk) - 1)) (sk_data sk))"
  have "ordered_by (call_cmp c) data \<and> mset data = mset (sk_data sk)"
    using comparator.heap_sort_ordered [OF assms(1) True] by (simp add: data_def Let_def)
  moreover have "OPENSSL_sk_sort call_cmp (Some sk) = Some (sk\<lparr>sk_data := data, sk_sorted := True\<rparr>)"
    using True assms(2,3) by (simp add: OPENSSL_sk_sort_def data_def Let_def)
  ultimately show ?thesis by blast
next
  case False
  then consider "sk_data sk = []" | x where "sk_data sk = [x]"
    by (cases "sk_data sk" rule: remdups_adj.cases) auto
  then have "ordered_by (call_cmp c) (sk_data sk)"
    by cases (simp_all add: comparator.ordered_simps [OF assms(1)])
  then show ?thesis using False assms(2,3)
    by (intro exI [of _ "sk_data sk"]) (simp add: OPENSSL_sk_sort_def)
qed

text \<open>C19: sorting. An unsorted stack with a comparison function that orders the elements comes
  out of \<open>OPENSSL_sk_sort\<close> with the same elements in ascending order and marked as sorted; the
  rest of it is unchanged. Without comparison function, or when it is marked already, the stack
  is left alone.\<close>

theorem sk_sort_exact:
  assumes "\<And>c. sk_comp sk = Some c \<Longrightarrow> comparator (call_cmp c)"
  shows "\<exists>data. OPENSSL_sk_sort call_cmp (Some sk) =
      Some (sk\<lparr>sk_data := data, sk_sorted := sk_sorted sk \<or> sk_comp sk \<noteq> None\<rparr>) \<and>
    mset data = mset (sk_data sk) \<and>
    (if sk_sorted sk \<or> sk_comp sk = None then data = sk_data sk
     else ordered_by (call_cmp (the (sk_comp sk))) data)"
proof (cases "sk_sorted sk \<or> sk_comp sk = None")
  case True
  then show ?thesis
    by (intro exI [of _ "sk_data sk"]) (auto simp: OPENSSL_sk_sort_def split: option.splits)
next
  case False
  then obtain c where "sk_comp sk = Some c" "\<not> sk_sorted sk" by blast
  then show ?thesis using sk_sort_sorts [of call_cmp c sk] assms by auto
qed

text \<open>Which element a search is for: equality of pointers without comparison function, else a
  comparison with result zero, for which the null pointer is never looked up.\<close>

definition sk_matches :: "('c \<Rightarrow> 'p ptr \<Rightarrow> 'p ptr \<Rightarrow> int) \<Rightarrow> ('p, 'c) stack \<Rightarrow> 'p ptr \<Rightarrow> nat \<Rightarrow> bool" where
  "sk_matches call_cmp sk p i =
     (case sk_comp sk of None \<Rightarrow> sk_data sk ! i = p
      | Some c \<Rightarrow> p \<noteq> None \<and> call_cmp c p (sk_data sk ! i) = 0)"

text \<open>What the flag promises.\<close>

definition sk_flag_ok :: "('c \<Rightarrow> 'p ptr \<Rightarrow> 'p ptr \<Rightarrow> int) \<Rightarrow> ('p, 'c) stack \<Rightarrow> bool" where
  "sk_flag_ok call_cmp sk \<longleftrightarrow>
     (sk_sorted sk \<longrightarrow> (\<exists>c. sk_comp sk = Some c \<and> ordered_by (call_cmp c) (sk_data sk)))"

text \<open>C20: finding. With a truthful flag, linear and binary search agree: \<open>OPENSSL_sk_find\<close> returns
  the index of the first match, and none exactly when nothing matches.\<close>

theorem sk_find_exact:
  assumes "\<And>c. sk_comp sk = Some c \<Longrightarrow> comparator (call_cmp c)" and "sk_flag_ok call_cmp sk"
  shows "earliest (sk_matches call_cmp sk p) 0 (OPENSSL_sk_num (Some sk)) (OPENSSL_sk_find call_cmp (Some sk) p)"
proof (cases "sk_comp sk")
  case None
  then show ?thesis using find_index_earliest [of "\<lambda>x. x = p" "sk_data sk"]
    by (simp add: OPENSSL_sk_find_def OPENSSL_sk_num_def sk_matches_def [abs_def])
next
  case (Some c)
  show ?thesis
  proof (cases "p = None")
    case True
    then show ?thesis using Some by (simp add: OPENSSL_sk_find_def sk_matches_def)
  next
    case False
    then obtain q where "p = Some q" by blast
    then have m: "sk_matches call_cmp sk (Some q) = (\<lambda>i. call_cmp c (Some q) (sk_data sk ! i) = 0)"
      using Some by (simp add: sk_matches_def fun_eq_iff)
    note ord = comparator.ordered_simps [OF assms(1) [OF Some]]
    have o: "ordered_by (call_cmp c) (sk_data sk)" if "OPENSSL_sk_is_sorted (Some sk)"
    proof (cases "sk_sorted sk")
      case True
      then show ?thesis using assms(2) Some by (simp add: sk_flag_ok_def)
    next
      case False
      then have "sk_data sk = [] \<or> (\<exists>x. sk_data sk = [x])"
        using that by (cases "sk_data sk") (auto simp: OPENSSL_sk_is_sorted_def)
      then show ?thesis by (auto simp: ord)
    qed
    show ?thesis
      using Some \<open>p = Some q\<close> o find_index_earliest [of "\<lambda>x. call_cmp c p x = 0" "sk_data sk"]
        comparator.binary_search_earliest [OF assms(1) [OF Some], of "sk_data sk" "length (sk_data sk)" p 0]
      by (simp add: m OPENSSL_sk_find_def OPENSSL_sk_num_def)
  qed
qed

lemma bytes_comparator: "comparator (\<lambda>a b. compare_set_of_element (case_option [] id a) (case_option [] id b))"
  by (rule comparator_preimage) (rule set_of.comparator_axioms)

text \<open>A stack of byte strings under the comparison of SET OF elements.\<close>

definition byte_stack :: "bytes list \<Rightarrow> bool \<Rightarrow> (bytes, unit) stack" where
  "byte_stack xs s = \<lparr>sk_data = map Some xs, sk_sorted = s, num_alloc = length xs + 4, sk_comp = Some ()\<rparr>"

definition byte_cmp :: "unit \<Rightarrow> bytes ptr \<Rightarrow> bytes ptr \<Rightarrow> int" where
  "byte_cmp c a b = compare_set_of_element (case_option [] id a) (case_option [] id b)"

lemma byte_cmp_comparator: "comparator (byte_cmp c)"
  using bytes_comparator by (simp add: byte_cmp_def [abs_def])

lemma sk_sort_exact_witness:
  "\<exists>data. OPENSSL_sk_sort byte_cmp (Some (byte_stack [[2], [1], [3]] False)) =
      Some ((byte_stack [[2], [1], [3]] False)\<lparr>sk_data := data, sk_sorted := True\<rparr>) \<and>
    ordered_by (byte_cmp ()) data"
  using sk_sort_exact [of "byte_stack [[2], [1], [3]] False", OF byte_cmp_comparator]
  by (auto simp: byte_stack_def)

lemma sk_find_exact_witness:
  "earliest (sk_matches byte_cmp (byte_stack [[1], [2], [2]] True) (Some [2])) 0 3
     (OPENSSL_sk_find byte_cmp (Some (byte_stack [[1], [2], [2]] True)) (Some [2]))"
proof -
  have "sk_flag_ok byte_cmp (byte_stack [[1], [2], [2]] True)"
    by (simp add: sk_flag_ok_def byte_stack_def comparator.ordered_simps [OF byte_cmp_comparator] byte_cmp_def)
  then show ?thesis
    using sk_find_exact [of "byte_stack [[1], [2], [2]] True" byte_cmp "Some [2]"] byte_cmp_comparator
    by (simp add: OPENSSL_sk_num_def byte_stack_def numeral_3_eq_3)
qed

section \<open>What every operation keeps\<close>

text \<open>There is room for one more pointer in the allocation, the number of elements is an \<open>int\<close>,
  and a marked stack has a comparison function.\<close>

definition sk_bounds :: "('p, 'c) stack \<Rightarrow> bool" where
  "sk_bounds sk \<longleftrightarrow>
     length (sk_data sk) < num_alloc sk \<and> length (sk_data sk) \<le> INT_MAX \<and> (sk_sorted sk \<longrightarrow> sk_comp sk \<noteq> None)"

text \<open>The same with a truthful flag.\<close>

definition sk_ok :: "('c \<Rightarrow> 'p ptr \<Rightarrow> 'p ptr \<Rightarrow> int) \<Rightarrow> ('p, 'c) stack \<Rightarrow> bool" where
  "sk_ok call_cmp sk \<longleftrightarrow>
     length (sk_data sk) < num_alloc sk \<and> length (sk_data sk) \<le> INT_MAX \<and> sk_flag_ok call_cmp sk"

text \<open>A copy function whose copies compare as the elements do.\<close>

definition copies_alike :: "('c \<Rightarrow> 'p ptr \<Rightarrow> 'p ptr \<Rightarrow> int) \<Rightarrow> ('p \<Rightarrow> 'p option) \<Rightarrow> bool" where
  "copies_alike call_cmp f \<longleftrightarrow>
     (\<forall>c p x. f p = Some x \<longrightarrow>
        call_cmp c (Some x) None = call_cmp c (Some p) None \<and>
        call_cmp c None (Some x) = call_cmp c None (Some p) \<and>
        (\<forall>q y. f q = Some y \<longrightarrow> call_cmp c (Some x) (Some y) = call_cmp c (Some p) (Some q)))"

text \<open>
  One call on a live stack. Every operation of the file that returns a changed stack is a step,
  with any arguments and any outcome of the allocation. The boolean is false for the two calls
  that can put elements out of order and leave the flag: \<open>OPENSSL_sk_set\<close> on a stack that is
  marked as sorted, and a copy function whose copies compare differently.
\<close>

inductive sk_step ::
  "('c \<Rightarrow> 'p ptr \<Rightarrow> 'p ptr \<Rightarrow> int) \<Rightarrow> bool \<Rightarrow> ('p, 'c) stack \<Rightarrow> ('p, 'c) stack \<Rightarrow> bool"
  for call_cmp where
  zero: "OPENSSL_sk_zero (Some sk) = Some sk' \<Longrightarrow> sk_step call_cmp True sk sk'"
| set_at: "snd (OPENSSL_sk_set (Some sk) i v) = Some sk' \<Longrightarrow> sk_step call_cmp (\<not> sk_sorted sk) sk sk'"
| insert_at: "snd (OPENSSL_sk_insert alloc (Some sk) p i) = Some sk' \<Longrightarrow> sk_step call_cmp True sk sk'"
| push: "snd (OPENSSL_sk_push alloc sk p) = Some sk' \<Longrightarrow> sk_step call_cmp True sk sk'"
| delete: "snd (OPENSSL_sk_delete (Some sk) i) = Some sk' \<Longrightarrow> sk_step call_cmp True sk sk'"
| delete_ptr: "snd (OPENSSL_sk_delete_ptr (Some sk) p) = Some sk' \<Longrightarrow> sk_step call_cmp True sk sk'"
| delete_if: "OPENSSL_sk_delete_if f (Some sk) = Some sk' \<Longrightarrow> sk_step call_cmp True sk sk'"
| shift: "snd (OPENSSL_sk_shift (Some sk)) = Some sk' \<Longrightarrow> sk_step call_cmp True sk sk'"
| pop: "snd (OPENSSL_sk_pop (Some sk)) = Some sk' \<Longrightarrow> sk_step call_cmp True sk sk'"
| sort: "OPENSSL_sk_sort call_cmp (Some sk) = Some sk' \<Longrightarrow> sk_step call_cmp True sk sk'"
| set_cmp: "snd (OPENSSL_sk_set_cmp_func sk f) = sk' \<Longrightarrow> sk_step call_cmp True sk sk'"
| dup: "OPENSSL_sk_dup alloc (Some sk) = Some sk' \<Longrightarrow> sk_step call_cmp True sk sk'"
| copy: "fst (OPENSSL_sk_deep_copy alloc f (Some sk)) = Some sk' \<Longrightarrow>
    sk_step call_cmp (copies_alike call_cmp f) sk sk'"

text \<open>The stacks that calls can make. The boolean says that neither of the two calls was made since
  the flag was last clear.\<close>

inductive sk_reachable :: "('c \<Rightarrow> 'p ptr \<Rightarrow> 'p ptr \<Rightarrow> int) \<Rightarrow> bool \<Rightarrow> ('p, 'c) stack \<Rightarrow> bool"
  for call_cmp where
  new: "OPENSSL_sk_new alloc f = Some sk \<Longrightarrow> sk_reachable call_cmp True sk"
| step: "sk_reachable call_cmp kept sk \<Longrightarrow> sk_step call_cmp keeps sk sk' \<Longrightarrow>
    sk_reachable call_cmp (\<not> sk_sorted sk' \<or> (kept \<and> keeps)) sk'"

subsection \<open>Lists\<close>

lemma delete_if_loop_filter:
  "length data = i + n \<Longrightarrow> m \<le> i \<Longrightarrow>
     (let (k, data') = delete_if_loop f n i m data
      in length data' = length data \<and> take k data' = take m data @ filter (\<lambda>x. \<not> f x) (drop i data))"
proof (induction n arbitrary: i m data)
  case (Suc n)
  have d: "drop i data = data ! i # drop (Suc i) data"
    using Suc.prems by (simp add: Cons_nth_drop_Suc)
  show ?case
  proof (cases "f (data ! i)")
    case True
    then show ?thesis using Suc.IH [of data "Suc i" m] Suc.prems by (simp add: d)
  next
    case False
    let ?data = "data[m := data ! i]"
    have "take (Suc m) ?data = take m data @ [data ! i]" using Suc.prems by (simp add: take_Suc_conv_app_nth)
    moreover have "drop (Suc i) ?data = drop (Suc i) data" using Suc.prems by simp
    ultimately show ?thesis using Suc.IH [of ?data "Suc i" "Suc m"] Suc.prems False by (simp add: d)
  qed
qed simp

lemma delete_if_eq:
  "OPENSSL_sk_delete_if f (Some sk) = Some (sk\<lparr>sk_data := filter (\<lambda>x. \<not> f x) (sk_data sk)\<rparr>)"
  using delete_if_loop_filter [of "sk_data sk" 0 "length (sk_data sk)" 0 f]
  by (simp add: OPENSSL_sk_delete_if_def case_prod_beta)

lemma deep_copy_loop_Some:
  "fst (deep_copy_loop f ds xs) = Some ys \<Longrightarrow>
     \<exists>zs. ys = ds @ zs \<and> list_all2 (\<lambda>x y. case x of None \<Rightarrow> y = None | Some p \<Rightarrow> f p \<noteq> None \<and> y = f p) xs zs"
proof (induction f ds xs rule: deep_copy_loop.induct)
  case (3 f ds p rest)
  then show ?case by (cases "f p") auto
qed auto

context comparator
begin

lemma ordered_filter: "ordered xs \<Longrightarrow> ordered (filter P xs)"
  by (simp add: ordered_def sorted_wrt_filter)

lemma ordered_delete: "ordered xs \<Longrightarrow> ordered (take i xs @ drop (Suc i) xs)"
proof -
  assume "ordered xs"
  then have "ordered (take i xs @ drop i xs)" by simp
  then show ?thesis by (cases "drop i xs") (auto simp: ordered_append drop_Suc drop_tl)
qed

end

subsection \<open>The operations\<close>

lemma sk_grow_doubles: "n \<le> 2 ^ 32 \<Longrightarrow> sk_grow n = Some (2 * n)"
  by (simp add: sk_grow_def size_mul_def sizeof_ptr_def Let_def)

lemma sk_reserve_room:
  assumes "sk_reserve alloc sk = Some sk'" and "length (sk_data sk) < num_alloc sk"
    and "length (sk_data sk) < INT_MAX"
  shows "\<exists>n. sk' = sk\<lparr>num_alloc := n\<rparr> \<and> Suc (length (sk_data sk)) < n"
proof (cases "num_alloc sk \<le> length (sk_data sk) + 1")
  case True
  then have "num_alloc sk = Suc (length (sk_data sk))" using assms(2) by simp
  moreover have "num_alloc sk \<le> 2 ^ 32" using calculation assms(3) by (simp add: INT_MAX_def)
  ultimately show ?thesis using assms(1,2) True
    by (auto simp: sk_reserve_def sk_grow_doubles split: if_splits intro!: exI [of _ "2 * num_alloc sk"])
next
  case False
  then show ?thesis using assms(1) by (intro exI [of _ "num_alloc sk"]) (simp add: sk_reserve_def)
qed

lemma sk_okI:
  "sk_ok call_cmp sk \<Longrightarrow> length (sk_data sk') \<le> length (sk_data sk) \<Longrightarrow> num_alloc sk' = num_alloc sk \<Longrightarrow>
     sk_flag_ok call_cmp sk' \<Longrightarrow> sk_ok call_cmp sk'"
  by (simp add: sk_ok_def)

lemma sk_insert_ok:
  assumes "sk_ok call_cmp sk" and "snd (OPENSSL_sk_insert alloc (Some sk) p i) = Some sk'"
  shows "sk_ok call_cmp sk'"
proof (cases "INT_MAX \<le> length (sk_data sk) \<or> sk_reserve alloc sk = None")
  case True
  then have "sk' = sk" using assms(2) by (auto simp: OPENSSL_sk_insert_def split: if_splits)
  then show ?thesis using assms(1) by simp
next
  case False
  then obtain sk1 where "sk_reserve alloc sk = Some sk1" by blast
  moreover from this obtain n where "sk1 = sk\<lparr>num_alloc := n\<rparr>" "Suc (length (sk_data sk)) < n"
    using sk_reserve_room [of alloc sk sk1] False assms(1) by (auto simp: sk_ok_def)
  ultimately show ?thesis using False assms(2)
    by (auto simp: OPENSSL_sk_insert_def Let_def sk_ok_def sk_flag_ok_def split: if_splits)
qed

lemma sk_delete_ok:
  assumes "\<And>c. comparator (call_cmp c)" and "sk_ok call_cmp sk"
    and "snd (OPENSSL_sk_delete (Some sk) i) = Some sk'"
  shows "sk_ok call_cmp sk'"
proof (cases "length (sk_data sk) \<le> i")
  case True
  then show ?thesis using assms by (simp add: OPENSSL_sk_delete_def)
next
  case False
  then have sk': "sk' = sk\<lparr>sk_data := take i (sk_data sk) @ drop (Suc i) (sk_data sk)\<rparr>"
    using assms(3) by (auto simp: OPENSSL_sk_delete_def)
  have "sk_flag_ok call_cmp sk'"
    using assms(2) comparator.ordered_delete [OF assms(1)] by (auto simp: sk' sk_ok_def sk_flag_ok_def)
  then show ?thesis using assms(2) by (rule_tac sk_okI) (simp_all add: sk')
qed

lemma sk_copies_ordered:
  assumes "list_all2 (\<lambda>x y. case x of None \<Rightarrow> y = None | Some p \<Rightarrow> f p \<noteq> None \<and> y = f p) xs ys"
    and "copies_alike call_cmp f"
    and "comparator (call_cmp c)" and "ordered_by (call_cmp c) xs"
  shows "ordered_by (call_cmp c) ys"
proof -
  have "call_cmp c (ys ! i) (ys ! j) = call_cmp c (xs ! i) (xs ! j)" if "i < length xs" "j < length xs" for i j
    using list_all2_nthD [OF assms(1) that(1)] list_all2_nthD [OF assms(1) that(2)] assms(2)
    by (cases "xs ! i"; cases "xs ! j") (auto simp: copies_alike_def)
  then show ?thesis
    using assms(4) list_all2_lengthD [OF assms(1)]
    by (auto simp: comparator.ordered_def [OF assms(3)] sorted_wrt_iff_nth_less)
qed

lemma sk_step_flag:
  assumes "\<And>c. comparator (call_cmp c)" and "sk_step call_cmp keeps sk sk'" and "sk_ok call_cmp sk"
    and "keeps"
  shows "sk_ok call_cmp sk'"
  using assms(2,3)
proof cases
  case zero
  then show ?thesis using assms(3) by (auto simp: OPENSSL_sk_zero_def sk_ok_def sk_flag_ok_def split: if_splits)
next
  case (set_at i v)
  then show ?thesis using assms(3,4) by (auto simp: OPENSSL_sk_set_def sk_ok_def sk_flag_ok_def split: if_splits)
next
  case (insert_at alloc p i)
  then show ?thesis using sk_insert_ok assms(3) by blast
next
  case (push alloc p)
  then show ?thesis using sk_insert_ok assms(3) unfolding OPENSSL_sk_push_def by blast
next
  case (delete i)
  then show ?thesis using sk_delete_ok [OF assms(1,3)] by blast
next
  case (delete_ptr p)
  then show ?thesis using sk_delete_ok [OF assms(1,3)] assms(3)
    by (auto simp: OPENSSL_sk_delete_ptr_def split: option.splits)
next
  case (delete_if f)
  then have "sk_data sk' = filter (\<lambda>x. \<not> f x) (sk_data sk)" "num_alloc sk' = num_alloc sk"
    "sk_sorted sk' = sk_sorted sk" "sk_comp sk' = sk_comp sk" by (auto simp: delete_if_eq)
  then show ?thesis using assms(3) comparator.ordered_filter [OF assms(1)]
    by (intro sk_okI [OF assms(3)]) (auto simp: sk_ok_def sk_flag_ok_def)
next
  case shift
  then show ?thesis using sk_delete_ok [OF assms(1,3)] assms(3)
    by (auto simp: OPENSSL_sk_shift_def split: if_splits)
next
  case pop
  then show ?thesis using sk_delete_ok [OF assms(1,3)] assms(3)
    by (auto simp: OPENSSL_sk_pop_def split: if_splits)
next
  case sort
  show ?thesis
  proof (cases "sk_sorted sk \<or> sk_comp sk = None")
    case True
    then have "sk' = sk" using sort by (auto simp: OPENSSL_sk_sort_def split: option.splits)
    then show ?thesis using assms(3) by simp
  next
    case False
    then obtain c where c: "sk_comp sk = Some c" "\<not> sk_sorted sk" by blast
    from sk_sort_sorts [of call_cmp c sk, OF assms(1) this] obtain data where
      data: "sk' = sk\<lparr>sk_data := data, sk_sorted := True\<rparr>" "mset data = mset (sk_data sk)" "ordered_by (call_cmp c) data"
      using sort by auto
    have "length data = length (sk_data sk)" using data(2) by (rule mset_eq_length)
    then show ?thesis using assms(3) data c by (simp add: sk_ok_def sk_flag_ok_def)
  qed
next
  case (set_cmp f)
  then show ?thesis using assms(3)
    by (auto simp: OPENSSL_sk_set_cmp_func_def sk_ok_def sk_flag_ok_def Let_def split: if_splits)
next
  case (dup alloc)
  then show ?thesis using assms(3) by (auto simp: OPENSSL_sk_dup_def sk_ok_def sk_flag_ok_def Let_def split: if_splits)
next
  case (copy alloc f)
  then obtain data where loop: "fst (deep_copy_loop f [] (sk_data sk)) = Some data" "sk' = sk\<lparr>sk_data := data\<rparr>"
    by (auto simp: OPENSSL_sk_deep_copy_def OPENSSL_sk_dup_def Let_def split: option.splits if_splits prod.splits)
  from deep_copy_loop_Some [OF loop(1)] have l:
    "list_all2 (\<lambda>x y. case x of None \<Rightarrow> y = None | Some p \<Rightarrow> f p \<noteq> None \<and> y = f p) (sk_data sk) data" by simp
  then have "length data = length (sk_data sk)" by (simp add: list_all2_lengthD)
  then show ?thesis
    using sk_copies_ordered [OF l _ assms(1)] assms(3,4) copy(1) by (auto simp: loop(2) sk_ok_def sk_flag_ok_def)
qed

text \<open>The bounds alone are the invariant under the comparison for which all elements are equal.\<close>

lemma all_equal_comparator: "comparator (\<lambda>_ _. 0)"
  by (rule comparator.intro) simp_all

lemma sk_bounds_ok: "sk_bounds sk \<longleftrightarrow> sk_ok (\<lambda>_ _ _. 0) sk"
  by (auto simp: sk_bounds_def sk_ok_def sk_flag_ok_def comparator.ordered_def [OF all_equal_comparator]
      sorted_wrt_iff_nth_less)

lemma sk_copy_bounds:
  assumes "fst (OPENSSL_sk_deep_copy alloc f (Some sk)) = Some sk'"
  shows "\<exists>data. length data = length (sk_data sk) \<and> sk' = sk\<lparr>sk_data := data\<rparr>"
proof -
  obtain data where loop: "fst (deep_copy_loop f [] (sk_data sk)) = Some data" "sk' = sk\<lparr>sk_data := data\<rparr>"
    using assms
    by (auto simp: OPENSSL_sk_deep_copy_def OPENSSL_sk_dup_def Let_def split: option.splits if_splits prod.splits)
  moreover have "length data = length (sk_data sk)"
    using deep_copy_loop_Some [OF loop(1)] by (auto dest: list_all2_lengthD)
  ultimately show ?thesis by blast
qed

lemma sk_step_bounds:
  assumes "\<And>c. comparator (call_cmp c)" and "sk_step call_cmp keeps sk sk'" and "sk_bounds sk"
  shows "sk_bounds sk'"
proof -
  have z: "sk_bounds sk'" if "sk_step (\<lambda>_ _ _. 0) True sk sk'"
    using sk_step_flag [OF all_equal_comparator that] assms(3) by (simp add: sk_bounds_ok)
  from assms(2) show ?thesis
  proof cases
    case (set_at i v)
    then show ?thesis using assms(3) by (auto simp: OPENSSL_sk_set_def sk_bounds_def split: if_splits)
  next
    case sort
    show ?thesis
    proof (cases "sk_sorted sk \<or> sk_comp sk = None")
      case True
      then show ?thesis using sort assms(3) by (auto simp: OPENSSL_sk_sort_def split: option.splits)
    next
      case False
      then obtain c where "sk_comp sk = Some c" "\<not> sk_sorted sk" by blast
      from sk_sort_sorts [of call_cmp c sk, OF assms(1) this] obtain data where
        "sk' = sk\<lparr>sk_data := data, sk_sorted := True\<rparr>" "mset data = mset (sk_data sk)" using sort by auto
      moreover from this(2) have "length data = length (sk_data sk)" by (rule mset_eq_length)
      ultimately show ?thesis using assms(3) False by (simp add: sk_bounds_def)
    qed
  next
    case (copy alloc f)
    then show ?thesis using sk_copy_bounds assms(3) by (fastforce simp: sk_bounds_def)
  qed (rule z, erule sk_step.intros)+
qed

lemma sk_reachable_keeps:
  assumes "sk_reachable call_cmp kept sk" and "sk_step call_cmp keeps sk sk'" and "\<not> sk_sorted sk' \<or> kept \<and> keeps"
  shows "sk_reachable call_cmp True sk'"
  using sk_reachable.step [OF assms(1,2)] assms(3) by simp

lemma sk_reachable_ok:
  assumes "\<And>c. comparator (call_cmp c)" and "sk_reachable call_cmp kept sk"
  shows "sk_bounds sk \<and> (kept \<longrightarrow> sk_ok call_cmp sk)"
  using assms(2)
proof induction
  case (new alloc f sk)
  then show ?case
    by (auto simp: OPENSSL_sk_new_def sk_bounds_def sk_ok_def sk_flag_ok_def kMinSize_def INT_MAX_def
        split: if_splits)
next
  case (step kept sk keeps sk')
  then have "sk_bounds sk'" using sk_step_bounds assms(1) by blast
  moreover have "sk_ok call_cmp sk'" if "\<not> sk_sorted sk'"
    using \<open>sk_bounds sk'\<close> that by (simp add: sk_bounds_def sk_ok_def sk_flag_ok_def)
  moreover have "sk_ok call_cmp sk'" if "kept \<and> keeps"
    using sk_step_flag [of call_cmp, OF assms(1) step.hyps(2)] step.IH that by blast
  ultimately show ?case by blast
qed

text \<open>C21: the invariant. On every stack that was made by \<open>OPENSSL_sk_new\<close> and changed by any
  sequence of operations, failing allocations included, there is room for the pointer that the
  next insertion writes, the number of elements is an \<open>int\<close>, and a stack that is marked as
  sorted has a comparison function. It is sorted by it if, since the flag was last clear, no
  element was set by \<open>OPENSSL_sk_set\<close> and every deep copy was made with copies that compare as the
  elements do.\<close>

theorem sk_invariant:
  assumes "\<And>c. comparator (call_cmp c)" and "sk_reachable call_cmp kept sk"
  shows "length (sk_data sk) < num_alloc sk \<and> length (sk_data sk) \<le> INT_MAX \<and>
    (sk_sorted sk \<longrightarrow> (\<exists>c. sk_comp sk = Some c \<and> (kept \<longrightarrow> ordered_by (call_cmp c) (sk_data sk))))"
  using sk_reachable_ok [of call_cmp, OF assms] by (auto simp: sk_bounds_def sk_ok_def sk_flag_ok_def)

text \<open>A stack that was made, filled, sorted, and whose first element was then set.\<close>

lemma sk_invariant_witness:
  "\<exists>sk sk' :: (bytes, unit) stack.
     OPENSSL_sk_sort byte_cmp (snd (OPENSSL_sk_push (\<lambda>_. True) (the (snd (OPENSSL_sk_push (\<lambda>_. True)
       (the (OPENSSL_sk_new (\<lambda>_. True) (Some ()))) (Some [2])))) (Some [1]))) = Some sk \<and>
     sk_sorted sk \<and> ordered_by (byte_cmp ()) (sk_data sk) \<and>
     OPENSSL_sk_set (Some sk) 0 (Some [3]) = (Some [3], Some sk') \<and> sk_sorted sk' \<and> length (sk_data sk') < num_alloc sk'"
proof -
  let ?st = "\<lambda>xs. \<lparr>sk_data = xs, sk_sorted = False, num_alloc = 4, sk_comp = Some ()\<rparr> :: (bytes, unit) stack"
  let ?push = "OPENSSL_sk_push (\<lambda>_. True) :: _ \<Rightarrow> _ \<Rightarrow> _ \<times> (bytes, unit) stack_handle"
  have new: "OPENSSL_sk_new (\<lambda>_. True) (Some ()) = Some (?st [])"
    by (simp add: OPENSSL_sk_new_def kMinSize_def)
  have push: "?push (?st []) (Some [2]) = (1, Some (?st [Some [2]]))"
    "?push (?st [Some [2]]) (Some [1]) = (2, Some (?st [Some [2], Some [1]]))"
    by (simp_all add: OPENSSL_sk_push_def OPENSSL_sk_insert_def sk_reserve_def INT_MAX_def Let_def)
  obtain sk where sort: "OPENSSL_sk_sort byte_cmp (Some (?st [Some [2], Some [1]])) = Some sk"
    and sk: "sk_sorted sk" "sk_comp sk = Some ()" "length (sk_data sk) = 2"
    using sk_sort_sorts [of byte_cmp "()" "?st [Some [2], Some [1]]", OF byte_cmp_comparator]
    by (fastforce dest: mset_eq_length)
  have "sk_reachable byte_cmp True (?st [])" using sk_reachable.new new by blast
  then have "sk_reachable byte_cmp True (?st [Some [2]])"
    by (rule sk_reachable_keeps [OF _ sk_step.push [where alloc = "\<lambda>_. True" and p = "Some [2]"]]) (simp_all add: push)
  then have "sk_reachable byte_cmp True (?st [Some [2], Some [1]])"
    by (rule sk_reachable_keeps [OF _ sk_step.push [where alloc = "\<lambda>_. True" and p = "Some [1]"]]) (simp_all add: push)
  then have r: "sk_reachable byte_cmp True sk"
    by (rule sk_reachable_keeps [OF _ sk_step.sort]) (simp_all add: sort)
  let ?sk' = "sk\<lparr>sk_data := (sk_data sk)[0 := Some [3]]\<rparr>"
  have set: "OPENSSL_sk_set (Some sk) 0 (Some [3]) = (Some [3], Some ?sk')" using sk by (simp add: OPENSSL_sk_set_def)
  have r': "sk_reachable byte_cmp False ?sk'"
    using sk_reachable.step [OF r sk_step.set_at, of 0 "Some [3]" ?sk'] sk by (simp add: set)
  have "ordered_by (byte_cmp ()) (sk_data sk)"
    using sk_invariant [of byte_cmp, OF byte_cmp_comparator r] sk by simp
  moreover have "length (sk_data ?sk') < num_alloc ?sk'"
    using sk_invariant [of byte_cmp, OF byte_cmp_comparator r'] by blast
  ultimately show ?thesis using sort set sk by (intro exI [of _ sk] exI [of _ ?sk']) (simp add: new push)
qed

text \<open>
  Binary search for an element that is greater than all but the first never looks at the first, when
  there are three or more.
\<close>

lemma binary_search_right:
  assumes "\<And>i. 0 < i \<Longrightarrow> i < hi \<Longrightarrow> 0 < cmp_at i" and "0 < lo \<or> 2 < hi"
  shows "binary_search cmp_at lo hi = None"
  using assms
proof (induction cmp_at lo hi rule: binary_search.induct)
  case (1 cmp_at lo hi)
  show ?case
  proof (cases "lo < hi")
    case True
    let ?mid = "lo + (hi - lo - 1) div 2"
    have "0 < ?mid" "?mid < hi" using True "1.prems"(2) by linarith+
    then have g: "0 < cmp_at ?mid" by (rule "1.prems"(1))
    have "binary_search cmp_at (?mid + 1) hi = None"
      by (rule "1.IH"(1) [OF True refl refl g "1.prems"(1)]) simp_all
    then show ?thesis using True g by (subst binary_search.simps) (simp add: Let_def)
  qed (subst binary_search.simps, simp)
qed

text \<open>C22: \<open>OPENSSL_sk_set\<close> stores any pointer at any index below the number of elements and changes
  nothing else: the flag \<open>sorted\<close> stays what it was. So on every stack of three or more
  elements that is marked as sorted, storing at the first index an element that is greater than
  those that follow gives a stack that is still marked as sorted and is not, and in which
  \<open>OPENSSL_sk_find\<close> does not find the element that was stored, although it matches at index zero.\<close>

theorem sk_set_breaks_find:
  assumes "comparator (call_cmp c)" and "sk_comp sk = Some c" and "sk_sorted sk" and "3 \<le> length (sk_data sk)"
    and "\<And>j. 0 < j \<Longrightarrow> j < length (sk_data sk) \<Longrightarrow> 0 < call_cmp c (Some x) (sk_data sk ! j)"
  shows "(\<forall>i v. i < length (sk_data sk) \<longrightarrow>
      OPENSSL_sk_set (Some sk) i v = (v, Some (sk\<lparr>sk_data := (sk_data sk)[i := v]\<rparr>))) \<and>
    (\<exists>sk'. OPENSSL_sk_set (Some sk) 0 (Some x) = (Some x, Some sk') \<and> sk_sorted sk' \<and>
      \<not> ordered_by (call_cmp c) (sk_data sk') \<and>
      OPENSSL_sk_value (Some sk') 0 = Some x \<and> sk_matches call_cmp sk' (Some x) 0 \<and>
      OPENSSL_sk_find call_cmp (Some sk') (Some x) = None)"
proof -
  let ?sk' = "sk\<lparr>sk_data := (sk_data sk)[0 := Some x]\<rparr>"
  obtain a b r where d: "sk_data sk = a # b # r" using assms(4)
    by (cases "sk_data sk" rule: remdups_adj.cases) auto
  have call_self: "call_cmp c (Some x) (Some x) = 0"
    using comparator.opposite [OF assms(1)] by (metis linorder_neqE order_less_asym)
  have "0 < call_cmp c (Some x) b" using assms(5) [of 1] by (simp add: d)
  then have "\<not> ordered_by (call_cmp c) (sk_data ?sk')"
    by (simp add: d comparator.ordered_simps [OF assms(1)])
  moreover have "sk_matches call_cmp ?sk' (Some x) 0"
    using call_self by (simp add: sk_matches_def assms(2) d)
  moreover have "binary_search (\<lambda>i. call_cmp c (Some x) (sk_data ?sk' ! i)) 0 (length (sk_data ?sk')) = None"
    using assms(4,5) by (intro binary_search_right) auto
  moreover from this have "OPENSSL_sk_find call_cmp (Some ?sk') (Some x) = None"
    using assms(2,3) by (simp add: OPENSSL_sk_find_def OPENSSL_sk_is_sorted_def)
  ultimately show ?thesis using assms(3)
    by (auto simp: OPENSSL_sk_set_def OPENSSL_sk_value_def d)
qed

lemma sk_set_breaks_find_witness:
  "OPENSSL_sk_find byte_cmp (snd (OPENSSL_sk_set (Some (byte_stack [[0], [1], [2]] True)) 0 (Some [3]))) (Some [3]) =
     None \<and> sk_flag_ok byte_cmp (byte_stack [[0], [1], [2]] True)"
proof -
  let ?sk = "byte_stack [[0], [1], [2]] True"
  have "0 < byte_cmp () (Some [3]) (sk_data ?sk ! j)" if "0 < j" "j < length (sk_data ?sk)" for j
  proof -
    have "j = 1 \<or> j = 2" using that by (auto simp: byte_stack_def)
    then show ?thesis by (auto simp: byte_stack_def byte_cmp_def)
  qed
  then have "\<exists>sk'. OPENSSL_sk_set (Some ?sk) 0 (Some [3]) = (Some [3], Some sk') \<and>
      OPENSSL_sk_find byte_cmp (Some sk') (Some [3]) = None"
    using sk_set_breaks_find [of byte_cmp "()" ?sk "[3]", OF byte_cmp_comparator] by (auto simp: byte_stack_def)
  moreover have "sk_flag_ok byte_cmp ?sk"
    by (simp add: sk_flag_ok_def byte_stack_def comparator.ordered_simps [OF byte_cmp_comparator] byte_cmp_def)
  ultimately show ?thesis by auto
qed

section \<open>A sequence with two ends\<close>

text \<open>What the clients rely on: \<open>room s n\<close> says that \<open>n\<close> more elements can be pushed.\<close>

locale deque =
  fixes elems :: "'s \<Rightarrow> 'a list"
    and room :: "'s \<Rightarrow> nat \<Rightarrow> bool"
    and push :: "'a \<Rightarrow> 's \<Rightarrow> 's"
    and pop :: "'s \<Rightarrow> 'a \<times> 's"
    and shift :: "'s \<Rightarrow> 'a \<times> 's"
  assumes push_elems: "room s (Suc n) \<Longrightarrow> elems (push x s) = elems s @ [x]"
    and push_room: "room s (Suc n) \<Longrightarrow> room (push x s) n"
    and pop_last: "elems s = xs @ [x] \<Longrightarrow> fst (pop s) = x \<and> elems (snd (pop s)) = xs"
    and shift_first: "elems s = x # xs \<Longrightarrow> fst (shift s) = x \<and> elems (snd (shift s)) = xs"
begin

fun pops :: "nat \<Rightarrow> 's \<Rightarrow> 'a list \<times> 's" where
  "pops 0 s = ([], s)"
| "pops (Suc n) s = (let (x, s') = pop s; (xs, s'') = pops n s' in (x # xs, s''))"

fun shifts :: "nat \<Rightarrow> 's \<Rightarrow> 'a list \<times> 's" where
  "shifts 0 s = ([], s)"
| "shifts (Suc n) s = (let (x, s') = shift s; (xs, s'') = shifts n s' in (x # xs, s''))"

lemma push_all: "room s (length xs) \<Longrightarrow> elems (fold push xs s) = elems s @ xs"
proof (induction xs arbitrary: s)
  case (Cons x xs)
  then have "room s (Suc (length xs))" by simp
  then show ?case using Cons.IH [of "push x s"] push_elems push_room by simp
qed simp

lemma pops_elems: "elems s = ys @ xs \<Longrightarrow> fst (pops (length xs) s) = rev xs \<and> elems (snd (pops (length xs) s)) = ys"
proof (induction xs arbitrary: s rule: rev_induct)
  case (snoc x xs)
  then have "fst (pop s) = x \<and> elems (snd (pop s)) = ys @ xs" by (intro pop_last) simp
  then show ?case using snoc.IH [of "snd (pop s)"] by (simp add: case_prod_beta Let_def)
qed simp

lemma shifts_elems: "elems s = xs @ ys \<Longrightarrow> fst (shifts (length xs) s) = xs \<and> elems (snd (shifts (length xs) s)) = ys"
proof (induction xs arbitrary: s)
  case (Cons x xs)
  then have "fst (shift s) = x \<and> elems (snd (shift s)) = xs @ ys" by (intro shift_first) simp
  then show ?case using Cons.IH [of "snd (shift s)"] by (simp add: case_prod_beta Let_def)
qed simp

lemma last_in_first_out: "room s (length xs) \<Longrightarrow> fst (pops (length xs) (fold push xs s)) = rev xs"
  using pops_elems push_all by blast

lemma first_in_first_out:
  "room s (length xs) \<Longrightarrow> fst (shifts (length (elems s) + length xs) (fold push xs s)) = elems s @ xs"
  using shifts_elems [of "fold push xs s" "elems s @ xs" "[]"] push_all [of s xs] by simp

end

text \<open>The stack, with allocations that succeed, is one; \<open>num_alloc\<close> stays far from an overflow.\<close>

definition sk_room :: "('p, 'c) stack \<Rightarrow> nat \<Rightarrow> bool" where
  "sk_room sk n \<longleftrightarrow> length (sk_data sk) + n \<le> INT_MAX \<and> num_alloc sk \<le> 2 ^ 32"

definition sk_push :: "'p ptr \<Rightarrow> ('p, 'c) stack \<Rightarrow> ('p, 'c) stack" where
  "sk_push p sk = the (snd (OPENSSL_sk_push (\<lambda>_. True) sk p))"

definition sk_pop :: "('p, 'c) stack \<Rightarrow> 'p ptr \<times> ('p, 'c) stack" where
  "sk_pop sk = map_prod id the (OPENSSL_sk_pop (Some sk))"

definition sk_shift :: "('p, 'c) stack \<Rightarrow> 'p ptr \<times> ('p, 'c) stack" where
  "sk_shift sk = map_prod id the (OPENSSL_sk_shift (Some sk))"

lemma sk_push_eq:
  assumes "sk_room sk (Suc n)"
  shows "OPENSSL_sk_push (\<lambda>_. True) sk p = (Suc (length (sk_data sk)), Some (sk_push p sk)) \<and>
    sk_data (sk_push p sk) = sk_data sk @ [p] \<and> sk_room (sk_push p sk) n"
proof -
  have "\<exists>m. sk_reserve (\<lambda>_. True) sk = Some (sk\<lparr>num_alloc := m\<rparr>) \<and> m \<le> 2 ^ 32"
  proof (cases "num_alloc sk \<le> length (sk_data sk) + 1")
    case True
    then have "2 * num_alloc sk \<le> 2 ^ 32" using assms by (simp add: sk_room_def INT_MAX_def)
    then show ?thesis using True sk_grow_doubles [of "num_alloc sk"]
      by (intro exI [of _ "2 * num_alloc sk"]) (simp add: sk_reserve_def)
  next
    case False
    then show ?thesis using assms by (intro exI [of _ "num_alloc sk"]) (simp add: sk_reserve_def sk_room_def)
  qed
  then obtain m where m: "sk_reserve (\<lambda>_. True) sk = Some (sk\<lparr>num_alloc := m\<rparr>)" "m \<le> 2 ^ 32" by blast
  then show ?thesis using assms
    by (auto simp: sk_push_def OPENSSL_sk_push_def OPENSSL_sk_insert_def sk_room_def Let_def)
qed

interpretation sk: deque sk_data sk_room sk_push sk_pop sk_shift
proof
  fix s :: "('p, 'c) stack" and x :: "'p ptr" and n
  assume "sk_room s (Suc n)"
  then show "sk_data (sk_push x s) = sk_data s @ [x]" "sk_room (sk_push x s) n"
    using sk_push_eq by blast+
next
  fix s :: "('p, 'c) stack" and x :: "'p ptr" and xs
  show "fst (sk_pop s) = x \<and> sk_data (snd (sk_pop s)) = xs" if "sk_data s = xs @ [x]"
    using that by (simp add: sk_pop_def OPENSSL_sk_pop_def OPENSSL_sk_delete_def)
  show "fst (sk_shift s) = x \<and> sk_data (snd (sk_shift s)) = xs" if "sk_data s = x # xs"
    using that by (simp add: sk_shift_def OPENSSL_sk_shift_def OPENSSL_sk_delete_def)
qed

text \<open>The two ends. Elements that are pushed, up to \<open>INT_MAX\<close> of them, are popped in the
  reverse order, and shifted in the order in which they were pushed, after those that were
  there.\<close>

theorem sk_two_ends:
  assumes "length (sk_data sk) + length xs \<le> INT_MAX" and "num_alloc sk \<le> 2 ^ 32"
  shows "fst (sk.pops (length xs) (fold sk_push xs sk)) = rev xs \<and>
    fst (sk.shifts (length (sk_data sk) + length xs) (fold sk_push xs sk)) = sk_data sk @ xs"
  using sk.last_in_first_out [of sk xs] sk.first_in_first_out [of sk xs] assms by (simp add: sk_room_def)

lemma sk_two_ends_witness:
  "fst (sk.pops (length [Some (1 :: nat), Some 2]) (fold sk_push [Some 1, Some 2]
     \<lparr>sk_data = [], sk_sorted = False, num_alloc = 4, sk_comp = None :: unit option\<rparr>)) =
   rev [Some (1 :: nat), Some 2]"
  by (rule conjunct1 [OF sk_two_ends]) (simp_all add: INT_MAX_def)

text \<open>Insertion, deletion and filtering. \<open>OPENSSL_sk_insert\<close> puts the pointer at the position,
  or at the end when that is past it, and returns the new number of elements; it returns zero
  and changes nothing but when there are \<open>INT_MAX\<close> elements or the allocation cannot grow.
  \<open>OPENSSL_sk_delete\<close> undoes it, and \<open>OPENSSL_sk_delete_if\<close> keeps the other elements in order.\<close>

theorem sk_insert_delete:
  assumes "sk_ok call_cmp sk" and "OPENSSL_sk_insert alloc (Some sk) p i = (n, h)"
  shows "(n = 0 \<longleftrightarrow> INT_MAX \<le> length (sk_data sk) \<or> sk_reserve alloc sk = None) \<and>
    (n = 0 \<longrightarrow> h = Some sk) \<and>
    (n \<noteq> 0 \<longrightarrow> (let j = min i (length (sk_data sk)) in n = Suc (length (sk_data sk)) \<and>
       (\<exists>sk'. h = Some sk' \<and> sk_data sk' = take j (sk_data sk) @ [p] @ drop j (sk_data sk) \<and>
          OPENSSL_sk_value h j = p \<and>
          OPENSSL_sk_delete h j = (p, Some (sk'\<lparr>sk_data := sk_data sk\<rparr>))))) \<and>
    OPENSSL_sk_delete_if f (Some sk) = Some (sk\<lparr>sk_data := filter (\<lambda>x. \<not> f x) (sk_data sk)\<rparr>)"
proof (cases "INT_MAX \<le> length (sk_data sk) \<or> sk_reserve alloc sk = None")
  case True
  then have "n = 0 \<and> h = Some sk" using assms(2) by (auto simp: OPENSSL_sk_insert_def split: if_splits)
  then show ?thesis using True by (simp add: delete_if_eq)
next
  case False
  then obtain sk1 m where m: "sk_reserve alloc sk = Some sk1" "sk1 = sk\<lparr>num_alloc := m\<rparr>"
    using sk_reserve_room [of alloc sk] assms(1) by (auto simp: sk_ok_def)
  show ?thesis using False assms(2)
    by (auto simp: OPENSSL_sk_insert_def m OPENSSL_sk_value_def OPENSSL_sk_delete_def delete_if_eq Let_def
        min_def nth_append split: if_splits)
qed

lemma sk_insert_delete_witness:
  "snd (OPENSSL_sk_delete (snd (OPENSSL_sk_insert (\<lambda>_. True) (Some (byte_stack [[1], [2]] True)) (Some [3]) 1)) 1) =
     Some ((byte_stack [[1], [2]] True)\<lparr>sk_sorted := False\<rparr>)"
proof -
  let ?sk = "byte_stack [[1], [2]] True"
  have ok: "sk_ok byte_cmp ?sk"
    by (simp add: sk_ok_def sk_flag_ok_def byte_stack_def INT_MAX_def
        comparator.ordered_simps [OF byte_cmp_comparator] byte_cmp_def)
  have ins: "OPENSSL_sk_insert (\<lambda>_. True) (Some ?sk) (Some [3]) 1 =
      (3, Some (?sk\<lparr>sk_data := [Some [1], Some [3], Some [2]], sk_sorted := False\<rparr>))"
    by (simp add: OPENSSL_sk_insert_def byte_stack_def sk_reserve_def INT_MAX_def Let_def)
  show ?thesis using sk_insert_delete [OF ok ins] unfolding ins by (auto simp: byte_stack_def)
qed

end
