(* ===== verification/Spec2Isabelle.thy ===== *)
theory Spec2Isabelle
  imports Base64_Stream Ber_Spec Bio_Theorems Cbb_Errors Cbs_Time Nc_Check Obj_Convert Obj_Xref
    Stack_Spec
begin
text \<open>
  \<^bold>\<open>What is verified.\<close>

  TeamSync is a Flutter application in Dart. Its iOS build compiles the libraries under
  \<open>src/ios/Pods\<close>, and the C code among them that decides over untrusted data is BoringSSL
  (\<open>src/ios/Pods/BoringSSL-GRPC/src/crypto\<close>, below just \<open>crypto\<close>), which gRPC and Firestore use
  for every connection. This library models the parts of BoringSSL that read, build and keep
  data: byte strings and ASN.1, text and times, containers, the object registry, I/O objects and
  the comparison of names in certificates.

  Every definition is a translation of a C function or of a loop in one, under the name it has
  in C; a definition without such a name is a loop body, a helper of the model or a notion of a
  specification, as the text before it says.

  How the parts call each other, from the bottom: machine words and byte order, the reader CBS,
  the builder CBB on it, ASN.1 values, OIDs and SET OF on both, BER conversion and Unicode on
  both; stacks and hash tables stand alone; the objects of \<open>obj.c\<close> keep hash tables, search the
  generated tables by binary search and convert OIDs through CBB and CBS; BIOs use growing
  buffers; strings of ASN.1 are decoded with CBS and written with CBB; the
  comparison of names uses the C strings.

  \<^bold>\<open>Conventions.\<close>

  \<^item> A byte is \<open>8 word\<close>, \<open>uint32_t\<close> and \<open>uint64_t\<close> are words of that width, so arithmetic on them
    wraps. A \<open>size_t\<close> is a \<open>nat\<close>; where the code tests a sum or product for wrap-around, or lets
    it wrap, \<open>size_add\<close>, \<open>size_mul\<close> and \<open>size_sub\<close> reduce modulo \<open>2 ^ 64\<close>. An \<open>int\<close> that
    cannot overflow is an \<open>int\<close> of HOL, casts are written out (\<open>to_int\<close>, \<open>to_long\<close>).
  \<^item> A CBS is the list of bytes it still covers. A function \<open>int f(CBS *cbs, T *out)\<close> is
    \<open>('s, 'a) action\<close>, that is \<open>'s \<Rightarrow> 'a option \<times> 's\<close>: a failing call may have moved the CBS too,
    and the state after it is part of the model.
  \<^item> A C string is a list of bytes that ends at its first zero byte (\<open>cstr\<close>, \<open>strlen\<close>).
  \<^item> Allocation is a parameter, a predicate that says which sizes are granted, in \<open>cbb_env\<close>
    together with the contents of uninitialised memory. Statements hold for all outcomes, or
    name the allocations they need.
  \<^item> The error queue (\<open>OPENSSL_PUT_ERROR\<close>) is not modelled: no modelled function reads it. Pointers
    are not NULL unless a definition takes an option. Locks are left out, the code of one thread
    is modelled.
  \<^item> A loop that ends on every input is a total function. One that need not end is a
    \<open>partial_function (option)\<close>, where \<open>None\<close> means that the call does not return; the
    theorems about it prove \<open>Some\<close>, and one theorem proves \<open>None\<close>. The recursion of BER
    conversion carries the depth limit of the code itself (\<open>kMaxDepth\<close>), no other function has fuel.

  \<^bold>\<open>Theories and sources.\<close>

  \<^item> \<^bold>\<open>Byte strings.\<close> \<open>Byte_Prelude\<close>, \<open>Codec\<close> (the interface of a prefix code and its reader),
    \<open>Byte_Order\<close> (\<open>internal.h\<close>). \<open>Cbs\<close>, \<open>Cbs_Decimal\<close>, \<open>Cbs_Asn1\<close>, \<open>Cbs_Time\<close> model
    \<open>bytestring/cbs.c\<close>. \<open>Der_Elements\<close> and \<open>Der_Values\<close> state DER as an encoding and prove that
    the getters accept exactly the encodings.
  \<^item> \<^bold>\<open>Times.\<close> \<open>Posix_Time\<close> models \<open>asn1/posix_time.c\<close>, \<open>Calendar\<close> compares it with a calendar that
    counts days.
  \<^item> \<^bold>\<open>Builder.\<close> \<open>Cbb\<close> is \<open>bytestring/cbb.c\<close>: the buffer, the chain of open children with their
    pending length prefixes, flushing. \<open>Cbb_Spec\<close> relates a state to what it will write, \<open>Cbb_Asn1\<close>
    and \<open>Der_Builder\<close> add the typed writers, \<open>Cbb_Errors\<close> the propagation of failures, \<open>Der_Oid\<close>
    OIDs from and to text, \<open>Der_Set\<close> the order of SET OF.
  \<^item> \<^bold>\<open>Unicode and BER.\<close> \<open>Unicode\<close> is \<open>bytestring/unicode.c\<close>; \<open>Ber\<close> and \<open>Ber_Spec\<close> are
    \<open>bytestring/ber.c\<close> and \<open>asn1_compat.c\<close>.
  \<^item> \<^bold>\<open>Constant time and base64.\<close> \<open>Const_Time\<close> (\<open>internal.h\<close>), \<open>Base64\<close>, \<open>Base64_Text\<close> (RFC 4648 as a
    specification), \<open>Base64_Spec\<close>, \<open>Base64_Stream\<close> (\<open>base64/base64.c\<close>).
  \<^item> \<^bold>\<open>Containers.\<close> \<open>Comparator\<close>, \<open>Stack\<close>, \<open>Stack_Sort\<close>, \<open>Stack_Spec\<close> are \<open>stack/stack.c\<close>; \<open>Lhash\<close>,
    \<open>Lhash_Map\<close>, \<open>Lhash_Spec\<close> are \<open>lhash/lhash.c\<close>. Elements are abstract, the callbacks are
    parameters with the laws their interface asks for.
  \<^item> \<^bold>\<open>Objects.\<close> \<open>C_String\<close> (\<open>mem.c\<close>), \<open>Asn1_Object\<close> (\<open>asn1/a_object.c\<close>), \<open>Obj_Dat\<close> (the generated
    tables of \<open>obj/obj_dat.h\<close>), \<open>Obj_Tables\<close> with \<open>Table_Check\<close> and \<open>Bsearch\<close> (the tables are
    sorted and consistent, evaluated in the kernel), \<open>Objects\<close> (\<open>obj/obj.c\<close>), \<open>Obj_Index\<close>,
    \<open>Obj_Registry\<close>, \<open>Obj_Convert\<close> (what the lookups find and how text and DER convert), \<open>Obj_Xref\<close>
    (\<open>obj/obj_xref.c\<close>).
  \<^item> \<^bold>\<open>BIOs.\<close> \<open>Buf_Mem\<close> (\<open>buf/buf.c\<close>), \<open>Bio_Store\<close> (the store of BIOs, since halves of a pair point to
    each other), \<open>Bio_Pair\<close> (\<open>bio/pair.c\<close>), \<open>Bio_Mem\<close> (\<open>bio/bio_mem.c\<close>), \<open>Bio\<close> and \<open>Bio_Asn1\<close>
    (\<open>bio/bio.c\<close>). \<open>Bio_Pair_Spec\<close> and \<open>Bio_Queue\<close> refine a pair to two queues; \<open>Bio_Stream\<close>,
    \<open>Bio_Der\<close>, \<open>Bio_Ends\<close>, \<open>Bio_Theorems\<close> treat every BIO as a source or sink of bytes.
  \<^item> \<^bold>\<open>Strings of ASN.1.\<close> \<open>Asn1_String\<close> (\<open>asn1/asn1_lib.c\<close>, \<open>asn1/a_mbstr.c\<close>, \<open>asn1/a_strex.c\<close>): strings with
    their types, the smallest type that can hold a text, conversion between formats.
  \<^item> \<^bold>\<open>Names in certificates.\<close> \<open>Host_Match\<close> (\<open>x509/v3_utl.c\<close>): comparison of host names with
    wildcards and of e-mail addresses, against a specification on labels. \<open>Name_Constraints\<close>
    and \<open>Nc_Check\<close> (\<open>x509/v3_ncons.c\<close>): whether the names of a certificate lie in the subtrees its
    issuer is limited to; the encoder of distinguished names is an argument.

  \<^bold>\<open>Interfaces.\<close>

  Locales state what one part relies on in another, and each is interpreted on the model itself:
  prefix codes (\<open>codec\<close>: base 128, tags, elements, UTF-8), openers of children of a builder,
  comparison functions of stacks and searches (\<open>search_order\<close>, with the three generated indices as
  \<open>builtin_index\<close>), hash functions that agree with equality (\<open>hash_equality\<close>) and tables of elements
  (\<open>element_store\<close>, four of them in the registry), sources and sinks of bytes (\<open>byte_source\<close> and
  \<open>byte_sink\<close>, each interpreted on memory BIOs and on the ends of a pair).

  \<^bold>\<open>What the lemmas show.\<close>

  Readers accept exactly the encodings they are meant to and return what those denote; writers
  and readers are inverse; the optimised routines (calendar arithmetic, heap sort, binary search,
  incremental base64, ring buffers, branch-free comparisons) agree with plain definitions; stacks,
  hash tables, builders and BIOs keep their invariants under every operation and refine lists,
  maps, trees and queues; failures are reported and leave no partial effect, or the theorem says
  which; loops return, but for the one that reads a BIO to its end, for which a theorem says when
  it runs forever. What an encoding is (DER lengths and integers, UTF-8, the order of a SET OF, the
  format of each string type, the conversion of BER) is stated in definitions of its own that do
  not use the functions of the code.

  Where the code does something else than its documentation says, the theorem states what the
  code does: parsed times with an offset are shifted in the wrong direction, \<open>OPENSSL_sk_set\<close>
  leaves a stack marked as sorted, \<open>CBB_did_write\<close> takes no notice of an earlier failure,
  \<open>BIO_read_asn1\<close> can run forever, a URI constraint can be met by the path
  of a URI.

  \<^bold>\<open>Not modelled.\<close>

  \<^item> The rest of BoringSSL in C: ciphers, digests, big numbers and curves (assembly and generated
    code in large part), the table-driven ASN.1 templates, PEM and PKCS containers, and of X.509 all but the
    comparison of names and name constraints.
  \<^item> Memory management, locks, once-initialisation and thread-local data (\<open>mem.c\<close> but for its pure
    functions, \<open>thread*.c\<close>, \<open>ex_data.c\<close>), the error queue (\<open>err/err.c\<close>), the \<open>printf\<close> family.
  \<^item> BIOs on files and sockets, custom BIO methods.
  \<^item> TLS, gRPC, Firestore, LevelDB and abseil, which are C++, nanopb, which is C generated for and
    called by Firestore, the Objective-C libraries, and the application in Dart.
\<close>

end
